(* ===== verification/Prelude.thy ===== *)
theory Prelude
  imports Main "HOL-Library.Word" "HOL-Library.Monad_Syntax"
begin

text \<open>
  Shared vocabulary of the SGOS2 development: the machine integer types of the C sources, the
  constants of \<open>include/sgos.h\<close> and \<open>arch.h\<close> that more than one component uses, the collections
  of rules the component theories add to, and the doubly linked lists in memory that the queue,
  the scheduler chains, the virtual memory areas and the allocator all use.
  A pointer is a 32-bit word with 0 as \<open>NULL\<close>; a heap of structures of one type is a total function
  from addresses to records, so that reading memory nobody initialised yields some value, as it does
  in C. A function that may not hand control back to its caller (an endless loop, \<open>KeBugCheck\<close>, a
  killed thread) returns an option, and \<open>None\<close> means that it does not return.
\<close>

unbundle bit_operations_syntax

type_synonym u8 = "8 word"
type_synonym u16 = "16 word"
type_synonym u32 = "32 word"

section \<open>Constants of the headers\<close>

abbreviation PAGE_SIZE :: u32 where "PAGE_SIZE \<equiv> 4096"

abbreviation ERR_NOMEM :: int where "ERR_NOMEM \<equiv> 1"
abbreviation ERR_NOIMP :: int where "ERR_NOIMP \<equiv> 2"
abbreviation ERR_WRONGARG :: int where "ERR_WRONGARG \<equiv> 3"
abbreviation ERR_NONE :: int where "ERR_NONE \<equiv> 4"
abbreviation ERR_UNKNOWN :: int where "ERR_UNKNOWN \<equiv> 5"
abbreviation ERR_INVALID :: int where "ERR_INVALID \<equiv> 10"
abbreviation ERR_TIMEOUT :: int where "ERR_TIMEOUT \<equiv> 13"

section \<open>Collections of rules\<close>

named_theorems frame_simps "fields an operation leaves alone"
named_theorems ret_simps "operations that return"

section \<open>Words\<close>

lemma unat_inc: "x < y \<Longrightarrow> unat (x + 1) = Suc (unat x)" for x y :: "'a::len word"
proof -
  assume "x < y"
  then have "unat x < unat y" by (simp add: word_less_nat_alt)
  moreover have "unat y < 2 ^ LENGTH('a)" by (rule unsigned_less)
  ultimately have "Suc (unat x) < 2 ^ LENGTH('a)" by linarith
  then show ?thesis by (simp add: unat_plus_if')
qed

lemma inc_gt: "x < y \<Longrightarrow> x < x + 1" for x y :: "'a::len word"
  by (simp add: word_less_nat_alt unat_inc)

lemma less_inc_iff: "x < y \<Longrightarrow> z < x + 1 \<longleftrightarrow> z \<le> x" for x y z :: "'a::len word"
  by (auto simp: word_less_nat_alt word_le_nat_alt unat_inc)

lemma take_bit_word_self: "x < 2 ^ n \<Longrightarrow> take_bit n x = x" for x :: "'a::len word"
  by (simp add: take_bit_eq_mask less_mask_eq)

lemma word_lt_pow_bit: "x < 2 ^ k \<Longrightarrow> bit x n \<Longrightarrow> n < k" for x :: "'a::len word"
  using take_bit_word_self [of x k] by (metis bit_take_bit_iff)

text \<open>Masks as bit fields, and small signed values.\<close>

lemma and_masks:
  "x AND 0xF = take_bit 4 x" "x AND 0xFF = take_bit 8 x" "x AND 0xFFF = take_bit 12 x"
  "x AND 0xFFFF = take_bit 16 x" "x AND 0xFFFFF = take_bit 20 x" for x :: "'a::len word"
  by (simp_all add: take_bit_eq_mask mask_eq_exp_minus_1)

lemma and_high_masks:
  "x AND 0xF0 = push_bit 4 (take_bit 4 (drop_bit 4 x))"
  "x AND 0xFFFF0000 = push_bit 16 (drop_bit 16 x)" for x :: u32
proof -
  have e: "(0xF0 :: u32) = push_bit 4 (mask 4)" "(0xFFFF0000 :: u32) = push_bit 16 (mask 16)"
    by (simp_all add: mask_eq_exp_minus_1 push_bit_eq_mult)
  show "x AND 0xF0 = push_bit 4 (take_bit 4 (drop_bit 4 x))" "x AND 0xFFFF0000 = push_bit 16 (drop_bit 16 x)"
    unfolding e by (rule bit_word_eqI, auto simp: bit_simps)+
qed

lemmas mask_simps = and_masks and_high_masks

lemma sint_small: "unat x < 2 ^ 31 \<Longrightarrow> sint x = int (unat x)" for x :: u32
proof -
  assume x: "unat x < 2 ^ 31"
  have u: "uint x = int (unat x)" by (rule uint_nat)
  have "uint x < 2 ^ 31" unfolding u using x by (metis of_nat_less_iff of_nat_numeral of_nat_power)
  moreover have "0 \<le> uint x" by simp
  ultimately have "signed_take_bit 31 (uint x) = uint x"
    by (intro signed_take_bit_int_eq_self) linarith+
  then have "sint x = uint x" unfolding sint_uint by simp
  then show ?thesis by (simp only: u)
qed

text \<open>Page numbers and page addresses.\<close>

lemma drop_push_page: "i < 2 ^ 20 \<Longrightarrow> drop_bit 12 (push_bit 12 i) = i" for i :: u32
  by (rule bit_word_eqI) (use word_lt_pow_bit [of i 20] in \<open>auto simp: bit_simps\<close>)

lemma push_page_mod: "push_bit 12 i mod 4096 = 0" for i :: u32
  using take_bit_eq_mod [of 12 "push_bit 12 i"] by (simp add: take_bit_push_bit)

lemma page_aligned_iff: "4096 dvd p \<longleftrightarrow> p mod 4096 = 0" for p :: u32
proof
  assume "4096 dvd p"
  then obtain k where "p = push_bit 12 k" by (auto simp: dvd_def push_bit_eq_mult mult.commute)
  then show "p mod 4096 = 0" by (simp only: push_page_mod)
qed (rule mod_0_imp_dvd)

lemma push_page_aligned [simp]: "4096 dvd push_bit 12 i" for i :: u32
  by (simp only: page_aligned_iff push_page_mod)

lemma push_drop_page: "4096 dvd p \<Longrightarrow> push_bit 12 (drop_bit 12 p) = p" for p :: u32
  using bits_ident [of 12 p] unfolding take_bit_eq_mod page_aligned_iff by simp

section \<open>Doubly linked lists in memory\<close>

text \<open>
  \<open>dseg nx pv a p xs l z\<close>: starting at pointer \<open>p\<close>, following the forward links \<open>nx\<close>, the cells are
  exactly \<open>xs\<close>, the last forward link is \<open>z\<close>, every backward link points to the cell before (the first
  one to \<open>a\<close>), and \<open>l\<close> is the last cell (\<open>a\<close> when there is none).
\<close>

fun dseg :: "('a::zero \<Rightarrow> 'a) \<Rightarrow> ('a \<Rightarrow> 'a) \<Rightarrow> 'a \<Rightarrow> 'a \<Rightarrow> 'a list \<Rightarrow> 'a \<Rightarrow> 'a \<Rightarrow> bool" where
  "dseg nx pv a p [] l z \<longleftrightarrow> p = z \<and> l = a"
| "dseg nx pv a p (x # xs) l z \<longleftrightarrow>
     p = x \<and> x \<noteq> 0 \<and> pv x = a \<and> dseg nx pv x (nx x) xs l z"

definition dlist :: "('a::zero \<Rightarrow> 'a) \<Rightarrow> ('a \<Rightarrow> 'a) \<Rightarrow> 'a \<Rightarrow> 'a \<Rightarrow> 'a list \<Rightarrow> bool" where
  "dlist nx pv f l xs \<longleftrightarrow> dseg nx pv 0 f xs l 0 \<and> distinct xs"

lemma dseg_append:
  "dseg nx pv a p (xs @ ys) l z \<longleftrightarrow> (\<exists>m q. dseg nx pv a p xs m q \<and> dseg nx pv m q ys l z)"
  by (induction xs arbitrary: a p) auto

lemma dseg_nonzero: "dseg nx pv a p xs l z \<Longrightarrow> 0 \<notin> set xs"
  by (induction xs arbitrary: a p) auto

lemma dseg_cong:
  assumes "\<And>x. x \<in> set xs \<Longrightarrow> nx' x = nx x" and "\<And>x. x \<in> set xs \<Longrightarrow> pv' x = pv x"
  shows "dseg nx' pv' a p xs l z = dseg nx pv a p xs l z"
  using assms by (induction xs arbitrary: a p) auto

lemma dseg_ends:
  assumes "dseg nx pv a p xs l z"
  shows "p = (if xs = [] then z else hd xs)" and "l = (if xs = [] then a else last xs)"
  using assms by (induction xs arbitrary: a p) auto

lemma dlist_Nil [simp]: "dlist nx pv f l [] \<longleftrightarrow> f = 0 \<and> l = 0"
  by (simp add: dlist_def)

lemma dlist_ends:
  assumes "dlist nx pv f l xs"
  shows "f = (if xs = [] then 0 else hd xs)" and "l = (if xs = [] then 0 else last xs)"
  using assms dseg_ends unfolding dlist_def by blast+

lemma dlist_nonzero: "dlist nx pv f l xs \<Longrightarrow> 0 \<notin> set xs"
  unfolding dlist_def by (blast dest: dseg_nonzero)

lemma dlist_distinct: "dlist nx pv f l xs \<Longrightarrow> distinct xs"
  by (simp add: dlist_def)

lemma dlist_empty_iff: "dlist nx pv f l xs \<Longrightarrow> f = 0 \<longleftrightarrow> xs = []"
  using dlist_ends(1) dlist_nonzero by (metis hd_in_set)

lemma dlist_empty_iff_last: "dlist nx pv f l xs \<Longrightarrow> l = 0 \<longleftrightarrow> xs = []"
  using dlist_ends(2) dlist_nonzero by (metis last_in_set)

lemma dlist_cong:
  assumes "\<And>x. x \<in> set xs \<Longrightarrow> nx' x = nx x" and "\<And>x. x \<in> set xs \<Longrightarrow> pv' x = pv x"
  shows "dlist nx' pv' f l xs = dlist nx pv f l xs"
  unfolding dlist_def using dseg_cong [OF assms] by simp

text \<open>The neighbours of a cell.\<close>

lemma dlist_links:
  assumes "dlist nx pv f l (xs @ x # ys)"
  shows "nx x = (if ys = [] then 0 else hd ys)" and "pv x = (if xs = [] then 0 else last xs)"
proof -
  from assms obtain m q where 1: "dseg nx pv 0 f xs m q" and 2: "dseg nx pv m q (x # ys) l 0"
    unfolding dlist_def dseg_append by blast
  from 2 have "dseg nx pv x (nx x) ys l 0" and pv: "pv x = m" by auto
  then show "nx x = (if ys = [] then 0 else hd ys)" using dseg_ends(1) by blast
  from 1 have "m = (if xs = [] then 0 else last xs)" using dseg_ends(2) by blast
  with pv show "pv x = (if xs = [] then 0 else last xs)" by simp
qed

lemma dseg_snoc:
  "dseg nx pv a p (xs @ [x]) l z \<longleftrightarrow> (\<exists>m. dseg nx pv a p xs m x \<and> x \<noteq> 0 \<and> pv x = m \<and> l = x \<and> nx x = z)"
  by (auto simp: dseg_append)

text \<open>Changing the backward link of the first cell and the forward link of the last cell.\<close>

lemma dseg_relink_first:
  assumes "dseg nx pv a p xs l z" and "distinct xs"
    and "\<And>x. x \<in> set xs \<Longrightarrow> nx' x = nx x"
    and "\<And>x. x \<in> set xs \<Longrightarrow> pv' x = (if x = hd xs then a' else pv x)"
  shows "dseg nx' pv' a' p xs (if xs = [] then a' else l) z"
proof (cases xs)
  case Nil
  with assms show ?thesis by simp
next
  case (Cons y ys)
  have "dseg nx' pv' y (nx y) ys l z = dseg nx pv y (nx y) ys l z"
    using assms(2-4) Cons by (intro dseg_cong) auto
  with assms Cons show ?thesis by auto
qed

lemma dseg_relink_last:
  assumes "dseg nx pv a p xs l z" and "distinct xs"
    and "\<And>x. x \<in> set xs \<Longrightarrow> pv' x = pv x"
    and "\<And>x. x \<in> set xs \<Longrightarrow> nx' x = (if x = last xs then z' else nx x)"
  shows "dseg nx' pv' a (if xs = [] then z' else p) xs l z'"
proof (cases xs rule: rev_cases)
  case Nil
  with assms show ?thesis by simp
next
  case (snoc ys y)
  have "dseg nx' pv' a p ys m y = dseg nx pv a p ys m y" for m
    using assms(2-4) snoc by (intro dseg_cong) auto
  with assms snoc show ?thesis by (auto simp: dseg_snoc)
qed

text \<open>Insertion of a cell between two parts of a list, and removal.\<close>

lemma dlist_insert:
  assumes d: "dlist nx pv f l (xs @ ys)" and n: "n \<noteq> 0" "n \<notin> set xs" "n \<notin> set ys"
    and nx: "\<And>x. x \<in> set xs \<Longrightarrow> nx' x = (if x = last xs then n else nx x)"
      "\<And>y. y \<in> set ys \<Longrightarrow> nx' y = nx y" "nx' n = (if ys = [] then 0 else hd ys)"
    and pv: "\<And>x. x \<in> set xs \<Longrightarrow> pv' x = pv x"
      "\<And>y. y \<in> set ys \<Longrightarrow> pv' y = (if y = hd ys then n else pv y)"
      "pv' n = (if xs = [] then 0 else last xs)"
  shows "dlist nx' pv' (if xs = [] then n else f) (if ys = [] then n else l) (xs @ n # ys)"
proof -
  from d have dist: "distinct xs" "distinct ys" "set xs \<inter> set ys = {}"
    by (auto simp: dlist_def)
  from d obtain m q where 1: "dseg nx pv 0 f xs m q" and 2: "dseg nx pv m q ys l 0"
    unfolding dlist_def dseg_append by blast
  have 3: "dseg nx' pv' 0 (if xs = [] then n else f) xs m n"
    by (rule dseg_relink_last [OF 1 dist(1)]) (use nx pv in auto)
  have 4: "dseg nx' pv' n q ys (if ys = [] then n else l) 0"
    by (rule dseg_relink_first [OF 2 dist(2)]) (use nx pv in auto)
  have "m = pv' n" using dseg_ends(2) [OF 1] pv(3) by simp
  moreover have "q = nx' n" using dseg_ends(1) [OF 2] nx(3) by simp
  ultimately have "dseg nx' pv' m n (n # ys) (if ys = [] then n else l) 0"
    using 4 n by simp
  with 3 have "dseg nx' pv' 0 (if xs = [] then n else f) (xs @ n # ys) (if ys = [] then n else l) 0"
    unfolding dseg_append by blast
  with dist n show ?thesis by (simp add: dlist_def)
qed

lemma dlist_remove:
  assumes d: "dlist nx pv f l (xs @ n # ys)"
    and nx: "\<And>x. x \<in> set xs \<Longrightarrow> nx' x = (if x = last xs then nx n else nx x)"
      "\<And>y. y \<in> set ys \<Longrightarrow> nx' y = nx y"
    and pv: "\<And>x. x \<in> set xs \<Longrightarrow> pv' x = pv x"
      "\<And>y. y \<in> set ys \<Longrightarrow> pv' y = (if y = hd ys then pv n else pv y)"
  shows "dlist nx' pv' (if xs = [] then nx n else f) (if ys = [] then pv n else l) (xs @ ys)"
proof -
  from d have dist: "distinct xs" "distinct ys" "set xs \<inter> set ys = {}"
    by (auto simp: dlist_def)
  from d obtain m q where 1: "dseg nx pv 0 f xs m q" and 2: "dseg nx pv m q (n # ys) l 0"
    unfolding dlist_def dseg_append by blast
  from 2 have 3: "dseg nx pv n (nx n) ys l 0" and m: "m = pv n" by auto
  have "dseg nx' pv' 0 (if xs = [] then nx n else f) xs m (nx n)"
    by (rule dseg_relink_last [OF 1 dist(1)]) (use nx pv in auto)
  moreover have "dseg nx' pv' m (nx n) ys (if ys = [] then m else l) 0"
    by (rule dseg_relink_first [OF 3 dist(2)]) (use nx pv m in auto)
  ultimately have
    "dseg nx' pv' 0 (if xs = [] then nx n else f) (xs @ ys) (if ys = [] then m else l) 0"
    unfolding dseg_append by blast
  with dist show ?thesis unfolding dlist_def m by auto
qed

text \<open>Removal the way the code does it, by the links of the cell alone.\<close>

lemma dlist_unlink:
  assumes d: "dlist nx pv f l (xs @ n # ys)"
    and nx: "\<And>a. a \<noteq> n \<Longrightarrow> nx' a = (if a = pv n \<and> pv n \<noteq> 0 then nx n else nx a)"
    and pv: "\<And>a. a \<noteq> n \<Longrightarrow> pv' a = (if a = nx n \<and> nx n \<noteq> 0 then pv n else pv a)"
  shows "dlist nx' pv' (if pv n = 0 then nx n else f) (if nx n = 0 then pv n else l) (xs @ ys)"
proof -
  obtain p x where px: "pv n = p" "nx n = x" by simp
  have x: "x = (if ys = [] then 0 else hd ys)" and p: "p = (if xs = [] then 0 else last xs)"
    using dlist_links [OF d] px by simp_all
  have nz: "0 \<notin> set xs" "0 \<notin> set ys" "n \<notin> set xs" "n \<notin> set ys" and dj: "a \<in> set xs \<Longrightarrow> a \<notin> set ys" for a
    using dlist_nonzero [OF d] dlist_distinct [OF d] by auto
  have xs: "p = 0 \<longleftrightarrow> xs = []" "p \<noteq> 0 \<Longrightarrow> p \<in> set xs" using p nz(1) by (cases xs rule: rev_cases, auto)+
  have ys: "x = 0 \<longleftrightarrow> ys = []" "x \<noteq> 0 \<Longrightarrow> x \<in> set ys" using x nz(2) by (cases ys, auto)+
  have 1: "a \<noteq> n" "\<not> (a = x \<and> x \<noteq> 0)" "a = p \<and> p \<noteq> 0 \<longleftrightarrow> a = last xs" if "a \<in> set xs" for a
    using that ys(2) dj xs(1) p nz by (auto split: if_splits)
  have 2: "a \<noteq> n" "\<not> (a = p \<and> p \<noteq> 0)" "a = x \<and> x \<noteq> 0 \<longleftrightarrow> a = hd ys" if "a \<in> set ys" for a
    using that xs(2) dj ys(1) x nz by (auto split: if_splits)
  have "dlist nx' pv' (if xs = [] then nx n else f) (if ys = [] then pv n else l) (xs @ ys)"
  proof (rule dlist_remove [OF d])
    show "nx' a = (if a = last xs then nx n else nx a)" if "a \<in> set xs" for a
      using nx [OF 1(1) [OF that]] 1(3) [OF that] by (simp add: px)
    show "pv' a = pv a" if "a \<in> set xs" for a using pv [OF 1(1) [OF that]] 1(2) [OF that] by (simp add: px)
    show "nx' a = nx a" if "a \<in> set ys" for a using nx [OF 2(1) [OF that]] 2(2) [OF that] by (simp add: px)
    show "pv' a = (if a = hd ys then pv n else pv a)" if "a \<in> set ys" for a
      using pv [OF 2(1) [OF that]] 2(3) [OF that] by (simp add: px)
  qed
  then show ?thesis using xs(1) ys(1) px by simp
qed

text \<open>Insertion the way the code does it, by the links of the neighbours alone.\<close>

lemma dlist_link:
  assumes d: "dlist nx pv f l (as @ bs)" and n: "n \<noteq> 0" "n \<notin> set as" "n \<notin> set bs"
    and x: "x = (if bs = [] then 0 else hd bs)" and p: "p = (if as = [] then 0 else last as)"
    and nx: "\<And>a. nx' a = (if a = n then x else if a = p \<and> p \<noteq> 0 then n else nx a)"
    and pv: "\<And>a. pv' a = (if a = n then p else if a = x \<and> x \<noteq> 0 then n else pv a)"
  shows "dlist nx' pv' (if p = 0 then n else f) (if x = 0 then n else l) (as @ n # bs)"
proof -
  have nz: "0 \<notin> set as" "0 \<notin> set bs" and dj: "a \<in> set as \<Longrightarrow> a \<notin> set bs" for a
    using dlist_nonzero [OF d] dlist_distinct [OF d] by auto
  have as: "p = 0 \<longleftrightarrow> as = []" "p \<noteq> 0 \<Longrightarrow> p \<in> set as" using p nz(1) by (cases as rule: rev_cases, auto)+
  have bs: "x = 0 \<longleftrightarrow> bs = []" "x \<noteq> 0 \<Longrightarrow> x \<in> set bs" using x nz(2) by (cases bs, auto)+
  have 1: "a \<noteq> n" "\<not> (a = x \<and> x \<noteq> 0)" "a = p \<and> p \<noteq> 0 \<longleftrightarrow> a = last as" if "a \<in> set as" for a
    using that bs(2) dj as(1) p nz n by (auto split: if_splits)
  have 2: "a \<noteq> n" "\<not> (a = p \<and> p \<noteq> 0)" "a = x \<and> x \<noteq> 0 \<longleftrightarrow> a = hd bs" if "a \<in> set bs" for a
    using that as(2) dj bs(1) x nz n by (auto split: if_splits)
  have "dlist nx' pv' (if as = [] then n else f) (if bs = [] then n else l) (as @ n # bs)"
  proof (rule dlist_insert [OF d n])
    show "nx' a = (if a = last as then n else nx a)" if "a \<in> set as" for a
      using 1(1,3) [OF that] by (simp add: nx)
    show "pv' a = pv a" if "a \<in> set as" for a using 1(1,2) [OF that] by (auto simp: pv)
    show "nx' a = nx a" if "a \<in> set bs" for a using 2(1,2) [OF that] by (auto simp: nx)
    show "pv' a = (if a = hd bs then n else pv a)" if "a \<in> set bs" for a
      using 2(1,3) [OF that] by (simp add: pv)
    show "nx' n = (if bs = [] then 0 else hd bs)" "pv' n = (if as = [] then 0 else last as)"
      by (simp_all add: nx pv x p)
  qed
  then show ?thesis using as(1) bs(1) by simp
qed

text \<open>The ends of a list.\<close>

lemma dlist_Cons_links:
  assumes "dlist nx pv f l (x # ys)"
  shows "nx x = (if ys = [] then 0 else hd ys)" and "pv x = 0"
  using dlist_links [of nx pv f l "[]" x ys] assms by simp_all

lemma dlist_remove_head:
  assumes d: "dlist nx pv f l (n # ys)"
    and nx: "\<And>y. y \<in> set ys \<Longrightarrow> nx' y = nx y"
    and pv: "\<And>y. y \<in> set ys \<Longrightarrow> pv' y = (if y = hd ys then 0 else pv y)"
  shows "dlist nx' pv' (nx n) (if ys = [] then 0 else l) ys"
  using dlist_remove [of nx pv f l "[]" n ys nx' pv'] d nx pv dlist_Cons_links(2) [OF d]
  by (cases ys) (simp_all cong: if_cong)

lemma dlist_remove_last:
  assumes d: "dlist nx pv f l (xs @ [n])"
    and nx: "\<And>x. x \<in> set xs \<Longrightarrow> nx' x = (if x = last xs then 0 else nx x)"
    and pv: "\<And>x. x \<in> set xs \<Longrightarrow> pv' x = pv x"
  shows "dlist nx' pv' (if xs = [] then 0 else f) (pv n) xs"
proof -
  have n: "nx n = 0" using dlist_links(1) [OF d] by simp
  then show ?thesis using dlist_remove [of nx pv f l xs n "[]" nx' pv'] d nx pv
    by (cases xs) (simp_all cong: if_cong)
qed

text \<open>Insertion at the head and at the tail, in the shape the code updates the links.\<close>

lemma dlist_push_head:
  assumes "dlist nx pv f l xs" and "n \<noteq> 0" and "n \<notin> set xs"
    and "\<And>x. x \<in> set xs \<Longrightarrow> nx' x = nx x" and "nx' n = f"
    and "\<And>x. x \<in> set xs \<Longrightarrow> pv' x = (if x = f then n else pv x)" and "pv' n = 0"
  shows "dlist nx' pv' n (if f = 0 then n else l) (n # xs)"
  using dlist_insert [of nx pv f l "[]" xs n nx' pv'] assms
    dlist_ends(1) [OF assms(1)] dlist_empty_iff [OF assms(1)]
  by (simp split: if_splits)

lemma dlist_push_tail:
  assumes "dlist nx pv f l xs" and "n \<noteq> 0" and "n \<notin> set xs"
    and "\<And>x. x \<in> set xs \<Longrightarrow> nx' x = (if x = l then n else nx x)" and "nx' n = 0"
    and "\<And>x. x \<in> set xs \<Longrightarrow> pv' x = pv x" and "pv' n = l"
  shows "dlist nx' pv' (if l = 0 then n else f) n (xs @ [n])"
  using dlist_insert [of nx pv f l xs "[]" n nx' pv'] assms
    dlist_ends(2) [OF assms(1)] dlist_empty_iff_last [OF assms(1)]
  by (simp split: if_splits)

end
