(* ===== verification/PhysMem.thy ===== *)
theory PhysMem
  imports Prelude
begin

text \<open>
  Physical page frames: the first part of \<open>kernel/mm/physical.c\<close>, with the interrupt flag macros of
  \<open>kernel/include/arch_i386/lock.h\<close>. Every frame has a byte that counts its references; a frame is
  free when the count is 0. The state is the static variables of the file. The lemmas show that a
  frame is handed out only when nobody holds it, that the search misses no free frame, and where the
  one-byte counter wraps.
\<close>

section \<open>The interrupt flag\<close>

record machine =
  irq_enabled :: bool

definition ArLocalSaveIrq :: "'a machine_scheme \<Rightarrow> bool \<times> 'a machine_scheme" where
  "ArLocalSaveIrq s = (irq_enabled s, s\<lparr>irq_enabled := False\<rparr>)"

definition ArLocalRestoreIrq :: "bool \<Rightarrow> 'a machine_scheme \<Rightarrow> 'a machine_scheme" where
  "ArLocalRestoreIrq eflags s = s\<lparr>irq_enabled := eflags\<rparr>"

section \<open>State and operations\<close>

record physmem = machine +
  total_pages :: u32
  page_ref :: "u32 \<Rightarrow> u8"
  page_used :: u32
  page_front :: u32
  page_it :: u32

definition PAGE_INDEX_TO_PHYS_ADDR :: "u32 \<Rightarrow> u32" where
  "PAGE_INDEX_TO_PHYS_ADDR i = push_bit 12 i"

definition PHYS_ADDR_TO_PAGE_INDEX :: "u32 \<Rightarrow> u32" where
  "PHYS_ADDR_TO_PAGE_INDEX addr = drop_bit 12 addr"

text \<open>The counters are the bytes at the kernel address \<open>bitmap_start\<close>, indexed from there.\<close>

definition MmInitializePhysicalMemoryManagement ::
    "u32 \<Rightarrow> u32 \<Rightarrow> 'a physmem_scheme \<Rightarrow> 'a physmem_scheme" where
  "MmInitializePhysicalMemoryManagement bitmap_size mem_size s =
     s\<lparr>page_ref := (\<lambda>i. if i < bitmap_size then 0 else page_ref s i),
       total_pages := mem_size div PAGE_SIZE,
       page_front := PHYS_ADDR_TO_PAGE_INDEX 0x00400000,
       page_used := PHYS_ADDR_TO_PAGE_INDEX 0x00400000,
       page_it := PHYS_ADDR_TO_PAGE_INDEX 0x00400000\<rparr>"

text \<open>The search loop both halves of \<open>MmGetPhysicalPage\<close> run: the first free frame in \<open>[i, n)\<close>.\<close>

function find_free_page :: "(u32 \<Rightarrow> u8) \<Rightarrow> u32 \<Rightarrow> u32 \<Rightarrow> u32 option" where
  "find_free_page ref i n =
     (if i < n then (if ref i = 0 then Some i else find_free_page ref (i + 1) n) else None)"
  by pat_completeness auto
termination
  by (relation "measure (\<lambda>(ref, i, n). unat n - unat i)")
    (auto simp: unat_inc word_less_nat_alt)

declare find_free_page.simps [simp del]

definition take_page :: "bool \<Rightarrow> u32 \<Rightarrow> 'a physmem_scheme \<Rightarrow> u32 \<times> 'a physmem_scheme" where
  "take_page eflags i s =
     (PAGE_INDEX_TO_PHYS_ADDR i,
      ArLocalRestoreIrq eflags
        (s\<lparr>page_ref := (page_ref s)(i := page_ref s i + 1), page_it := i + 1\<rparr>))"

definition MmGetPhysicalPage :: "'a physmem_scheme \<Rightarrow> u32 \<times> 'a physmem_scheme" where
  "MmGetPhysicalPage s =
     (if page_used s = total_pages s then (0, s)
      else
        let (eflags, s) = ArLocalSaveIrq s;
            s = (if page_it s < page_front s then s\<lparr>page_it := page_front s\<rparr> else s)
        in case find_free_page (page_ref s) (page_it s) (total_pages s) of
             Some i \<Rightarrow> take_page eflags i s
           | None \<Rightarrow>
               (case find_free_page (page_ref s) (page_front s) (page_it s) of
                  Some i \<Rightarrow> take_page eflags i s
                | None \<Rightarrow> (0, ArLocalRestoreIrq eflags s)))"

definition MmFreePhysicalPage :: "u32 \<Rightarrow> 'a physmem_scheme \<Rightarrow> 'a physmem_scheme" where
  "MmFreePhysicalPage addr s =
     (if addr = 0 then s
      else
        let i = PHYS_ADDR_TO_PAGE_INDEX addr
        in if i < page_front s \<or> total_pages s \<le> i then s
           else if page_ref s i = 0 then s
           else s\<lparr>page_ref := (page_ref s)(i := page_ref s i - 1)\<rparr>)"

definition IncreasePhysicalPageReference :: "u32 \<Rightarrow> 'a physmem_scheme \<Rightarrow> 'a physmem_scheme" where
  "IncreasePhysicalPageReference addr s =
     (let i = PHYS_ADDR_TO_PAGE_INDEX addr
      in if i < page_front s \<or> total_pages s \<le> i then s
         else if page_ref s i = 0 then s
         else s\<lparr>page_ref := (page_ref s)(i := page_ref s i + 1)\<rparr>)"

definition GetPhysicalPageReference :: "u32 \<Rightarrow> 'a physmem_scheme \<Rightarrow> u16" where
  "GetPhysicalPageReference addr s =
     (let i = PHYS_ADDR_TO_PAGE_INDEX addr
      in if i < page_front s \<or> total_pages s \<le> i then 0 else ucast (page_ref s i))"

section \<open>The search loop\<close>

lemma find_free_page_Some:
  "find_free_page ref i n = Some k \<Longrightarrow> i \<le> k \<and> k < n \<and> ref k = 0"
proof (induction ref i n rule: find_free_page.induct)
  case (1 ref i n)
  from "1.prems" have "i < n" by (auto simp: find_free_page.simps [of ref i n] split: if_splits)
  show ?case
  proof (cases "ref i = 0")
    case True
    with "1.prems" \<open>i < n\<close> show ?thesis by (simp add: find_free_page.simps [of ref i n])
  next
    case False
    with "1.prems" \<open>i < n\<close> have "find_free_page ref (i + 1) n = Some k"
      by (simp add: find_free_page.simps [of ref i n])
    with "1.IH" False \<open>i < n\<close> have "i + 1 \<le> k \<and> k < n \<and> ref k = 0" by blast
    with inc_gt [OF \<open>i < n\<close>] show ?thesis by auto
  qed
qed

lemma find_free_page_None:
  "find_free_page ref i n = None \<Longrightarrow> i \<le> k \<Longrightarrow> k < n \<Longrightarrow> ref k \<noteq> 0"
proof (induction ref i n rule: find_free_page.induct)
  case (1 ref i n)
  from "1.prems" have "i < n" by simp
  with "1.prems"(1) have r: "ref i \<noteq> 0" and f: "find_free_page ref (i + 1) n = None"
    by (simp_all add: find_free_page.simps [of ref i n] split: if_splits)
  show ?case
  proof (cases "k = i")
    case True
    with r show ?thesis by simp
  next
    case False
    with "1.prems" have "i + 1 \<le> k" by (simp add: inc_le order_le_neq_trans)
    with "1.IH" \<open>i < n\<close> r f "1.prems"(3) show ?thesis by blast
  qed
qed

section \<open>Invariant\<close>

definition phys_wf :: "'a physmem_scheme \<Rightarrow> bool" where
  "phys_wf s \<longleftrightarrow> 0 < page_front s \<and> page_front s \<le> total_pages s \<and> total_pages s \<le> 2 ^ 20 \<and>
     page_it s \<le> total_pages s \<and> page_used s = page_front s"

definition in_pool :: "'a physmem_scheme \<Rightarrow> u32 \<Rightarrow> bool" where
  "in_pool s i \<longleftrightarrow> page_front s \<le> i \<and> i < total_pages s"

text \<open>The reference count of the frame at a page-aligned address.\<close>

definition frame_refs :: "'a physmem_scheme \<Rightarrow> u32 \<Rightarrow> nat" where
  "frame_refs s p =
     (if 4096 dvd p \<and> in_pool s (drop_bit 12 p) then unat (page_ref s (drop_bit 12 p)) else 0)"

lemma in_pool_less: "phys_wf s \<Longrightarrow> in_pool s i \<Longrightarrow> i < 2 ^ 20"
  by (auto simp: phys_wf_def in_pool_def)

lemma page_addr_nonzero: "phys_wf s \<Longrightarrow> in_pool s i \<Longrightarrow> push_bit 12 i \<noteq> 0"
  using drop_push_page [of i] in_pool_less [of s i] by (auto simp: phys_wf_def in_pool_def)

lemma restore_irq_id [simp]: "ArLocalRestoreIrq (irq_enabled s) (s\<lparr>irq_enabled := b\<rparr>) = s"
  by (simp add: ArLocalRestoreIrq_def)

text \<open>What \<open>MmGetPhysicalPage\<close> does: it takes a free frame of the pool, or there is none.\<close>

lemma MmGetPhysicalPage_cases:
  assumes "phys_wf s"
  obtains (got) i where "in_pool s i" "page_ref s i = 0"
      "MmGetPhysicalPage s = (push_bit 12 i, s\<lparr>page_ref := (page_ref s)(i := 1), page_it := i + 1\<rparr>)"
    | (full) it where "\<And>i. in_pool s i \<Longrightarrow> page_ref s i \<noteq> 0" "it \<le> total_pages s"
      "MmGetPhysicalPage s = (0, s\<lparr>page_it := it\<rparr>)"
proof (cases "page_used s = total_pages s")
  case True
  with assms have "\<not> in_pool s i" for i by (auto simp: phys_wf_def in_pool_def)
  with True assms show ?thesis
    by (intro full [of "page_it s"]) (auto simp: MmGetPhysicalPage_def phys_wf_def)
next
  case False
  define it where "it = (if page_it s < page_front s then page_front s else page_it s)"
  have it: "page_front s \<le> it" "it \<le> total_pages s"
    using assms by (auto simp: it_def phys_wf_def)
  have same_it: "s\<lparr>irq_enabled := False, page_it := page_it s\<rparr> = s\<lparr>irq_enabled := False\<rparr>"
    by simp
  have unfold: "MmGetPhysicalPage s =
      (let s1 = s\<lparr>irq_enabled := False, page_it := it\<rparr> in
       case find_free_page (page_ref s) it (total_pages s) of
         Some i \<Rightarrow> take_page (irq_enabled s) i s1
       | None \<Rightarrow> (case find_free_page (page_ref s) (page_front s) it of
           Some i \<Rightarrow> take_page (irq_enabled s) i s1
         | None \<Rightarrow> (0, ArLocalRestoreIrq (irq_enabled s) s1)))"
    using False
    by (cases "page_it s < page_front s")
      (simp_all add: MmGetPhysicalPage_def ArLocalSaveIrq_def it_def same_it Let_def cong: option.case_cong)
  have take: "take_page (irq_enabled s) i (s\<lparr>irq_enabled := False, page_it := it\<rparr>) =
      (push_bit 12 i, s\<lparr>page_ref := (page_ref s)(i := 1), page_it := i + 1\<rparr>)"
    if "page_ref s i = 0" for i
    using that by (simp add: take_page_def PAGE_INDEX_TO_PHYS_ADDR_def ArLocalRestoreIrq_def)
  show ?thesis
  proof (cases "find_free_page (page_ref s) it (total_pages s)")
    case (Some i)
    from find_free_page_Some [OF this] it have "in_pool s i" "page_ref s i = 0"
      by (auto simp: in_pool_def)
    with Some show ?thesis by (intro got [of i]) (simp_all add: unfold take)
  next
    case hi: None
    show ?thesis
    proof (cases "find_free_page (page_ref s) (page_front s) it")
      case (Some i)
      from find_free_page_Some [OF this] it have "in_pool s i" "page_ref s i = 0"
        by (auto simp: in_pool_def)
      with Some hi show ?thesis by (intro got [of i]) (simp_all add: unfold take)
    next
      case lo: None
      have "page_ref s i \<noteq> 0" if "in_pool s i" for i
        using find_free_page_None [OF hi, of i] find_free_page_None [OF lo, of i] that
        by (cases "it \<le> i") (auto simp: in_pool_def)
      with hi lo it show ?thesis
        by (intro full [of it]) (simp_all add: unfold ArLocalRestoreIrq_def)
    qed
  qed
qed

lemma frame_refs_upd:
  assumes "phys_wf s" and "in_pool s i"
  shows "frame_refs (s\<lparr>page_ref := (page_ref s)(i := r)\<rparr>) = (frame_refs s)(push_bit 12 i := unat r)"
proof
  fix p
  show "frame_refs (s\<lparr>page_ref := (page_ref s)(i := r)\<rparr>) p =
      ((frame_refs s)(push_bit 12 i := unat r)) p"
    using assms drop_push_page [OF in_pool_less [OF assms]] push_drop_page [of p]
    by (auto simp: frame_refs_def in_pool_def)
qed

lemma frame_refs_page_it [simp]: "frame_refs (s\<lparr>page_it := it\<rparr>) = frame_refs s"
  by (auto simp: frame_refs_def in_pool_def)

section \<open>Interface of the frame pool\<close>

text \<open>
  What the paging code relies on: an acquired frame was unreferenced, and acquiring, sharing and
  releasing change the count of that one frame. From this alone follows that a run of acquisitions
  hands out distinct frames.
\<close>

fun acquire_many :: "('s \<Rightarrow> u32 \<times> 's) \<Rightarrow> nat \<Rightarrow> 's \<Rightarrow> u32 list \<times> 's" where
  "acquire_many get 0 s = ([], s)"
| "acquire_many get (Suc n) s =
     (let (p, s') = get s; (ps, s'') = acquire_many get n s' in (p # ps, s''))"

locale frame_pool =
  fixes get :: "'s \<Rightarrow> u32 \<times> 's" and put :: "u32 \<Rightarrow> 's \<Rightarrow> 's"
    and refs :: "'s \<Rightarrow> u32 \<Rightarrow> nat" and wf :: "'s \<Rightarrow> bool"
  assumes get_wf: "wf s \<Longrightarrow> get s = (p, s') \<Longrightarrow> wf s'"
    and get_fresh: "wf s \<Longrightarrow> get s = (p, s') \<Longrightarrow> p \<noteq> 0 \<Longrightarrow> refs s p = 0 \<and> refs s' = (refs s)(p := 1)"
    and get_none: "wf s \<Longrightarrow> get s = (0, s') \<Longrightarrow> refs s' = refs s"
    and put_wf: "wf s \<Longrightarrow> wf (put p s)"
    and put_refs: "wf s \<Longrightarrow> refs (put p s) p \<le> refs s p"
begin

lemma get_keeps_held: "wf s \<Longrightarrow> get s = (p, s') \<Longrightarrow> 0 < refs s q \<Longrightarrow> refs s' q = refs s q \<and> q \<noteq> p \<or> p = 0"
  using get_fresh by (cases "p = 0") fastforce+

lemma acquire_many_held:
  assumes "wf s" and "acquire_many get n s = (ps, s')" and "0 < refs s q"
  shows "0 < refs s' q \<and> (q \<in> set ps \<longrightarrow> q = 0)"
  using assms
proof (induction n arbitrary: s ps)
  case (Suc n)
  obtain p s1 where g: "get s = (p, s1)" by fastforce
  with Suc.prems obtain qs where q: "acquire_many get n s1 = (qs, s')" and ps: "ps = p # qs"
    by (auto split: prod.splits)
  have "0 < refs s1 q" using get_keeps_held [OF Suc.prems(1) g Suc.prems(3)] get_none [OF Suc.prems(1)]
    g Suc.prems(3) by fastforce
  from Suc.IH [OF get_wf [OF Suc.prems(1) g] q this] get_keeps_held [OF Suc.prems(1) g Suc.prems(3)]
  show ?case by (auto simp: ps)
qed auto

lemma acquire_many_distinct:
  assumes "wf s" and "acquire_many get n s = (ps, s')"
  shows "distinct (filter (\<lambda>p. p \<noteq> 0) ps)"
  using assms
proof (induction n arbitrary: s ps)
  case (Suc n)
  obtain p s1 where g: "get s = (p, s1)" by fastforce
  with Suc.prems obtain qs where q: "acquire_many get n s1 = (qs, s')" and ps: "ps = p # qs"
    by (auto split: prod.splits)
  have "distinct (filter (\<lambda>p. p \<noteq> 0) qs)"
    by (rule Suc.IH [OF get_wf [OF Suc.prems(1) g] q])
  moreover have "p \<noteq> 0 \<Longrightarrow> p \<notin> set qs"
    using acquire_many_held [OF get_wf [OF Suc.prems(1) g] q, of p] get_fresh [OF Suc.prems(1) g]
    by auto
  ultimately show ?case by (simp add: ps)
qed simp

end

text \<open>The operations keep the invariant and act on the counters as the interface asks.\<close>

lemma phys_wf_page_it: "phys_wf s \<Longrightarrow> it \<le> total_pages s \<Longrightarrow> phys_wf (s\<lparr>page_it := it\<rparr>)"
  by (simp add: phys_wf_def)

lemma phys_wf_page_ref [simp]: "phys_wf (s\<lparr>page_ref := r\<rparr>) = phys_wf s"
  by (simp add: phys_wf_def)

lemma MmGetPhysicalPage_wf:
  assumes "phys_wf s" and "MmGetPhysicalPage s = (p, s')"
  shows "phys_wf s'"
  using assms(1)
proof (cases rule: MmGetPhysicalPage_cases)
  case (got i)
  then have "i + 1 \<le> total_pages s" by (simp add: in_pool_def inc_le)
  with got assms show ?thesis by (auto simp: phys_wf_def)
qed (use assms phys_wf_page_it in auto)

lemma MmGetPhysicalPage_refs:
  assumes "phys_wf s" and "MmGetPhysicalPage s = (p, s')"
  shows "(p \<noteq> 0 \<longrightarrow> frame_refs s p = 0 \<and> frame_refs s' = (frame_refs s)(p := 1)) \<and>
    (p = 0 \<longrightarrow> frame_refs s' = frame_refs s)"
  using assms(1)
proof (cases rule: MmGetPhysicalPage_cases)
  case (got i)
  from got assms have p: "p = push_bit 12 i"
    and s': "s' = s\<lparr>page_ref := (page_ref s)(i := 1), page_it := i + 1\<rparr>" by auto
  have "frame_refs s' = (frame_refs s)(push_bit 12 i := 1)"
    unfolding s' frame_refs_page_it frame_refs_upd [OF assms(1) got(1)] by simp
  with got p page_addr_nonzero [OF assms(1) got(1)] show ?thesis
    using drop_push_page [OF in_pool_less [OF assms(1) got(1)]] by (simp add: frame_refs_def)
qed (use assms in auto)

lemma MmFreePhysicalPage_wf [simp]: "phys_wf (MmFreePhysicalPage p s) = phys_wf s"
  by (simp add: MmFreePhysicalPage_def Let_def)

lemma IncreasePhysicalPageReference_wf [simp]:
  "phys_wf (IncreasePhysicalPageReference p s) = phys_wf s"
  by (simp add: IncreasePhysicalPageReference_def Let_def)

lemma unat_pred: "x \<noteq> 0 \<Longrightarrow> unat (x - 1) = unat x - 1" for x :: "'a::len word"
  by (simp add: unat_minus_one)

lemma MmFreePhysicalPage_refs:
  assumes "phys_wf s" and "4096 dvd p"
  shows "frame_refs (MmFreePhysicalPage p s) = (frame_refs s)(p := frame_refs s p - 1)"
proof (cases "in_pool s (drop_bit 12 p) \<and> page_ref s (drop_bit 12 p) \<noteq> 0")
  case True
  let ?i = "drop_bit 12 p"
  have p: "push_bit 12 ?i = p" by (rule push_drop_page [OF assms(2)])
  have "p \<noteq> 0" using True page_addr_nonzero [OF assms(1), of ?i] p by auto
  with True have "MmFreePhysicalPage p s = s\<lparr>page_ref := (page_ref s)(?i := page_ref s ?i - 1)\<rparr>"
    by (auto simp: MmFreePhysicalPage_def PHYS_ADDR_TO_PAGE_INDEX_def in_pool_def Let_def)
  with True show ?thesis
    using frame_refs_upd [OF assms(1), of ?i "page_ref s ?i - 1"] p assms(2)
    by (simp add: frame_refs_def unat_pred)
next
  case False
  then have "MmFreePhysicalPage p s = s" and "frame_refs s p = 0"
    by (auto simp: MmFreePhysicalPage_def PHYS_ADDR_TO_PAGE_INDEX_def in_pool_def frame_refs_def Let_def)
  then show ?thesis by (auto simp: fun_eq_iff)
qed

lemma IncreasePhysicalPageReference_refs:
  assumes "phys_wf s" and "4096 dvd p"
  shows "frame_refs (IncreasePhysicalPageReference p s) =
    (frame_refs s)(p := (if frame_refs s p = 0 then 0 else (frame_refs s p + 1) mod 256))"
proof (cases "in_pool s (drop_bit 12 p) \<and> page_ref s (drop_bit 12 p) \<noteq> 0")
  case True
  let ?i = "drop_bit 12 p"
  have p: "push_bit 12 ?i = p" by (rule push_drop_page [OF assms(2)])
  with True have "IncreasePhysicalPageReference p s = s\<lparr>page_ref := (page_ref s)(?i := page_ref s ?i + 1)\<rparr>"
    by (auto simp: IncreasePhysicalPageReference_def PHYS_ADDR_TO_PAGE_INDEX_def in_pool_def Let_def)
  moreover have "unat (page_ref s ?i + 1) = (unat (page_ref s ?i) + 1) mod 256"
    by (simp add: unat_word_ariths)
  ultimately show ?thesis
    using True frame_refs_upd [OF assms(1), of ?i "page_ref s ?i + 1"] p assms(2)
    by (simp add: frame_refs_def unat_eq_zero)
next
  case False
  then have "IncreasePhysicalPageReference p s = s" and "frame_refs s p = 0"
    by (auto simp: IncreasePhysicalPageReference_def PHYS_ADDR_TO_PAGE_INDEX_def in_pool_def frame_refs_def Let_def)
  then show ?thesis by (auto simp: fun_eq_iff)
qed

interpretation frames: frame_pool MmGetPhysicalPage MmFreePhysicalPage frame_refs phys_wf
proof unfold_locales
  fix s :: "'a physmem_scheme" and p assume wf: "phys_wf s"
  show "frame_refs (MmFreePhysicalPage p s) p \<le> frame_refs s p"
  proof (cases "4096 dvd p")
    case True
    with MmFreePhysicalPage_refs [OF wf] show ?thesis by simp
  qed (simp add: frame_refs_def)
qed (use MmGetPhysicalPage_wf in blast, use MmGetPhysicalPage_refs in blast,
  use MmGetPhysicalPage_refs in blast, simp)

section \<open>Properties\<close>

text \<open>A pool of four frames for the witnesses.\<close>

definition phys0 :: physmem where
  "phys0 = MmInitializePhysicalMemoryManagement 0x1000 0x404000
     \<lparr>irq_enabled = True, total_pages = 0, page_ref = (\<lambda>_. 0), page_used = 0, page_front = 0, page_it = 0\<rparr>"

lemma phys0_wf: "phys_wf phys0"
  by (simp add: phys0_def phys_wf_def MmInitializePhysicalMemoryManagement_def PHYS_ADDR_TO_PAGE_INDEX_def
      drop_bit_eq_div)

text \<open>
  (C4) The frame allocator hands out a frame exactly when one is free: if some frame of the pool is unreferenced, it
  returns the address of such a frame, which is not 0, and the only changes are that the count of this frame goes from
  0 to 1 and that the next search begins behind it; if none is, it returns 0 and changes no count.
\<close>

theorem get_page_complete:
  assumes "phys_wf s"
  shows "if \<exists>i. in_pool s i \<and> page_ref s i = 0
    then \<exists>i. in_pool s i \<and> page_ref s i = 0 \<and> push_bit 12 i \<noteq> 0 \<and>
      MmGetPhysicalPage s = (push_bit 12 i, s\<lparr>page_ref := (page_ref s)(i := 1), page_it := i + 1\<rparr>)
    else \<exists>it. MmGetPhysicalPage s = (0, s\<lparr>page_it := it\<rparr>)"
  using assms
proof (cases rule: MmGetPhysicalPage_cases)
  case (got i)
  with page_addr_nonzero [OF assms got(1)] show ?thesis by auto
qed auto

theorem get_page_complete_witness:
  "fst (MmGetPhysicalPage phys0) \<noteq> 0 \<and>
    page_ref (snd (MmGetPhysicalPage phys0)) (drop_bit 12 (fst (MmGetPhysicalPage phys0))) = 1"
proof -
  have "in_pool phys0 0x400" "page_ref phys0 0x400 = 0"
    by (simp_all add: phys0_def in_pool_def MmInitializePhysicalMemoryManagement_def PHYS_ADDR_TO_PAGE_INDEX_def
        drop_bit_eq_div)
  then have "\<exists>i. in_pool phys0 i \<and> page_ref phys0 i = 0" by blast
  with get_page_complete [OF phys0_wf] obtain i where "in_pool phys0 i" "push_bit 12 i \<noteq> 0"
    "MmGetPhysicalPage phys0 = (push_bit 12 i, phys0\<lparr>page_ref := (page_ref phys0)(i := 1), page_it := i + 1\<rparr>)" by auto
  then show ?thesis using drop_push_page [OF in_pool_less [OF phys0_wf]] by simp
qed

text \<open>
  (C5) However often \<open>MmGetPhysicalPage\<close> is called in a row, no frame is handed out twice, and no frame
  that was referenced before the calls is among those handed out.
\<close>

theorem frames_handed_out_distinct:
  assumes "phys_wf s" and "acquire_many MmGetPhysicalPage n s = (ps, s')"
  shows "distinct (filter (\<lambda>p. p \<noteq> 0) ps) \<and> (\<forall>q. 0 < frame_refs s q \<longrightarrow> q \<noteq> 0 \<longrightarrow> q \<notin> set ps)"
  using frames.acquire_many_distinct [OF assms] frames.acquire_many_held [OF assms] by blast

theorem frames_handed_out_distinct_witness:
  "distinct (filter (\<lambda>p. p \<noteq> 0) (fst (acquire_many MmGetPhysicalPage 3 phys0)))"
  using frames_handed_out_distinct [OF phys0_wf, of 3] by (metis prod.collapse)

text \<open>
  (C6) References of a frame are counted: \<open>n\<close> calls of \<open>IncreasePhysicalPageReference\<close> on a frame in use
  add \<open>n\<close>, and the same number of \<open>MmFreePhysicalPage\<close> calls takes them back, as long as the count
  stays below 256; one more share of a frame with 255 references makes it free while it is in use.
\<close>

theorem frame_sharing_counts:
  assumes "phys_wf s" and "4096 dvd p" and "0 < frame_refs s p"
  shows "(frame_refs s p + n \<le> 255 \<longrightarrow>
      frame_refs ((IncreasePhysicalPageReference p ^^ n) s) p = frame_refs s p + n \<and>
      frame_refs ((MmFreePhysicalPage p ^^ n) ((IncreasePhysicalPageReference p ^^ n) s)) p = frame_refs s p) \<and>
    (frame_refs s p = 255 \<longrightarrow> frame_refs (IncreasePhysicalPageReference p s) p = 0)"
proof (intro conjI impI)
  have wf: "phys_wf ((IncreasePhysicalPageReference p ^^ k) s)" for k
    using assms(1) by (induction k) auto
  have up: "frame_refs s p + k \<le> 255 \<Longrightarrow>
      frame_refs ((IncreasePhysicalPageReference p ^^ k) s) p = frame_refs s p + k" for k
    using assms(3) by (induction k) (simp_all add: IncreasePhysicalPageReference_refs [OF wf assms(2)])
  have down: "phys_wf t \<Longrightarrow> frame_refs ((MmFreePhysicalPage p ^^ k) t) p = frame_refs t p - k" for k t
  proof (induction k)
    case (Suc k)
    have "phys_wf ((MmFreePhysicalPage p ^^ k) t)" using Suc.prems by (induction k) auto
    with Suc show ?case by (simp add: MmFreePhysicalPage_refs [OF _ assms(2)])
  qed simp
  show "frame_refs ((IncreasePhysicalPageReference p ^^ n) s) p = frame_refs s p + n"
    if "frame_refs s p + n \<le> 255" using up that .
  show "frame_refs ((MmFreePhysicalPage p ^^ n) ((IncreasePhysicalPageReference p ^^ n) s)) p = frame_refs s p"
    if "frame_refs s p + n \<le> 255" using up [OF that] down [OF wf, of n n] by simp
  show "frame_refs (IncreasePhysicalPageReference p s) p = 0" if "frame_refs s p = 255"
    using IncreasePhysicalPageReference_refs [OF assms(1,2)] that by simp
qed

theorem frame_sharing_counts_witness:
  "\<exists>p s. p \<noteq> 0 \<and> phys_wf (s :: physmem) \<and> frame_refs s p = 1 \<and>
     frame_refs ((IncreasePhysicalPageReference p ^^ 5) s) p = 6"
proof -
  have "in_pool phys0 0x400" "page_ref phys0 0x400 = 0"
    by (simp_all add: phys0_def in_pool_def MmInitializePhysicalMemoryManagement_def PHYS_ADDR_TO_PAGE_INDEX_def
        drop_bit_eq_div)
  then obtain i where "in_pool phys0 i" and
    g: "MmGetPhysicalPage phys0 = (push_bit 12 i, phys0\<lparr>page_ref := (page_ref phys0)(i := 1), page_it := i + 1\<rparr>)"
    by - (rule MmGetPhysicalPage_cases [OF phys0_wf], blast+)
  let ?p = "push_bit 12 i" and ?s = "snd (MmGetPhysicalPage phys0)"
  have "phys_wf ?s" "frame_refs ?s ?p = 1" "?p \<noteq> 0"
    using MmGetPhysicalPage_wf [OF phys0_wf g] MmGetPhysicalPage_refs [OF phys0_wf g]
      page_addr_nonzero [OF phys0_wf \<open>in_pool phys0 i\<close>] by (simp_all add: g)
  with frame_sharing_counts [of ?s ?p 5] show ?thesis by auto
qed

end
