(* ===== verification/Allocator.thy ===== *)
theory Allocator
  imports PhysMem
begin

text \<open>
  The block allocator of \<open>kernel/mm/allocator.c\<close> with its types from \<open>kernel/include/allocator.h\<close>.
  Blocks lie back to back in the pool; each starts with a header \<open>node_t\<close> of 24 bytes that links it to
  its neighbours in address order and, when it is free, into the list of the hash table that its size
  selects. The headers are a typed heap \<open>nodes\<close>; the bytes of a block are not modelled, so what is
  shown holds as long as nobody writes outside the blocks he was given.
  What the operations promise is in \<open>AllocatorInv\<close>.
\<close>

section \<open>Types and state\<close>

record node_t =
  nd_prev :: u32
  nd_next :: u32
  nd_hash_prev :: u32
  nd_hash_next :: u32
  nd_attribute :: u32
  nd_size :: u32

record kheap = physmem +
  nodes :: "u32 \<Rightarrow> node_t"
  first_node :: u32
  free_table :: "nat \<Rightarrow> u32"
  in_allocator :: bool

abbreviation SIZEOF_NODE :: u32 where "SIZEOF_NODE \<equiv> 24"
abbreviation MAX_HASH_ENTRY :: nat where "MAX_HASH_ENTRY \<equiv> 15"

definition upd_node :: "u32 \<Rightarrow> (node_t \<Rightarrow> node_t) \<Rightarrow> 'a kheap_scheme \<Rightarrow> 'a kheap_scheme" where
  "upd_node a f s = s\<lparr>nodes := (nodes s)(a := f (nodes s a))\<rparr>"

definition IS_FREE_NODE :: "node_t \<Rightarrow> bool" where
  "IS_FREE_NODE nod \<longleftrightarrow> nd_attribute nod AND 1 \<noteq> 0"

definition MAKE_FREE :: "u32 \<Rightarrow> 'a kheap_scheme \<Rightarrow> 'a kheap_scheme" where
  "MAKE_FREE a = upd_node a (\<lambda>n. n\<lparr>nd_attribute := nd_attribute n OR 1\<rparr>)"

definition MAKE_OCCUPIED :: "u32 \<Rightarrow> 'a kheap_scheme \<Rightarrow> 'a kheap_scheme" where
  "MAKE_OCCUPIED a = upd_node a (\<lambda>n. n\<lparr>nd_attribute := nd_attribute n AND NOT 1\<rparr>)"

definition HASH_APPEND :: "u32 \<Rightarrow> nat \<Rightarrow> 'a kheap_scheme \<Rightarrow> 'a kheap_scheme" where
  "HASH_APPEND i k s =
     (let l = free_table s k;
          s = upd_node i (\<lambda>n. n\<lparr>nd_hash_next := l\<rparr>) s;
          s = upd_node i (\<lambda>n. n\<lparr>nd_hash_prev := 0\<rparr>) s;
          s = (if l \<noteq> 0 then upd_node l (\<lambda>n. n\<lparr>nd_hash_prev := i\<rparr>) s else s)
      in s\<lparr>free_table := (free_table s)(k := i)\<rparr>)"

definition HASH_DELETE :: "u32 \<Rightarrow> nat \<Rightarrow> 'a kheap_scheme \<Rightarrow> 'a kheap_scheme" where
  "HASH_DELETE i k s =
     (let hp = nd_hash_prev (nodes s i);
          s = (if hp \<noteq> 0 then upd_node hp (\<lambda>n. n\<lparr>nd_hash_next := nd_hash_next (nodes s i)\<rparr>) s
               else s\<lparr>free_table := (free_table s)(k := nd_hash_next (nodes s i))\<rparr>);
          hn = nd_hash_next (nodes s i)
      in if hn \<noteq> 0 then upd_node hn (\<lambda>n. n\<lparr>nd_hash_prev := nd_hash_prev (nodes s i)\<rparr>) s else s)"

section \<open>Operations\<close>

text \<open>\<open>calc_hash_index\<close>: its loop halves the size and counts.\<close>

function hash_loop :: "u32 \<Rightarrow> nat \<Rightarrow> nat" where
  "hash_loop k i = (if 1 < k then hash_loop (drop_bit 1 k) (i + 1) else i)"
  by pat_completeness auto
termination
  by (relation "measure (\<lambda>(k, i). unat k)") (auto simp: word_less_nat_alt drop_bit_Suc unat_div_distrib)

declare hash_loop.simps [simp del]

definition calc_hash_index :: "u32 \<Rightarrow> nat" where
  "calc_hash_index k =
     (let i = hash_loop (drop_bit 5 k) 0
      in if MAX_HASH_ENTRY \<le> i then MAX_HASH_ENTRY - 1 else i)"

text \<open>The inner search loop of \<open>mm_alloc\<close>; on a cyclic list it would not end.\<close>

partial_function (option) hash_scan :: "(u32 \<Rightarrow> node_t) \<Rightarrow> u32 \<Rightarrow> u32 \<Rightarrow> u32 option" where
  "hash_scan h nod siz =
     (if nod \<noteq> 0 \<and> nd_size (h nod) < siz then hash_scan h (nd_hash_next (h nod)) siz else Some nod)"

text \<open>The outer loop: the entry and the block found, or a null block.\<close>

primrec table_scan ::
    "(u32 \<Rightarrow> node_t) \<Rightarrow> (nat \<Rightarrow> u32) \<Rightarrow> u32 \<Rightarrow> nat list \<Rightarrow> (nat \<times> u32) option" where
  "table_scan h tab siz [] = Some (0, 0)"
| "table_scan h tab siz (j # js) =
     do { nod \<leftarrow> hash_scan h (tab j) siz;
          if nod \<noteq> 0 then Some (j, nod) else table_scan h tab siz js }"

text \<open>The part of \<open>mm_alloc\<close> that cuts the rest off a block that is too large.\<close>

definition split_block :: "u32 \<Rightarrow> u32 \<Rightarrow> u32 \<Rightarrow> u32 \<Rightarrow> 'a kheap_scheme \<Rightarrow> 'a kheap_scheme" where
  "split_block nod siz m rest s =
     (let nod2 = nod + m;
          s = upd_node nod2 (\<lambda>n. n\<lparr>nd_size := rest - SIZEOF_NODE\<rparr>) s;
          s = upd_node nod (\<lambda>n. n\<lparr>nd_size := siz\<rparr>) s;
          s = upd_node nod2 (\<lambda>n. n\<lparr>nd_next := nd_next (nodes s nod)\<rparr>) s;
          nx = nd_next (nodes s nod2);
          s = (if nx \<noteq> 0 then upd_node nx (\<lambda>n. n\<lparr>nd_prev := nod2\<rparr>) s else s);
          s = upd_node nod (\<lambda>n. n\<lparr>nd_next := nod2\<rparr>) s;
          s = upd_node nod2 (\<lambda>n. n\<lparr>nd_prev := nod\<rparr>) s;
          k = calc_hash_index rest;
          s = HASH_APPEND nod2 k s
      in MAKE_FREE nod2 s)"

definition mm_alloc :: "u32 \<Rightarrow> 'a kheap_scheme \<Rightarrow> (u32 \<times> 'a kheap_scheme) option" where
  "mm_alloc siz s =
     (if siz = 0 then Some (0, s)
      else
        let m = siz + SIZEOF_NODE;
            i = calc_hash_index m;
            (eflags, s) = ArLocalSaveIrq s;
            s = s\<lparr>in_allocator := True\<rparr>
        in do {
          (j, nod) \<leftarrow> table_scan (nodes s) (free_table s) siz [i..<MAX_HASH_ENTRY];
          if nod = 0 then Some (0, ArLocalRestoreIrq eflags (s\<lparr>in_allocator := False\<rparr>))
          else
            let rest = nd_size (nodes s nod) - siz;
                s = HASH_DELETE nod j s;
                s = MAKE_OCCUPIED nod s;
                s = (if 32 \<le> sint rest then split_block nod siz m rest s else s)
            in Some (nod + SIZEOF_NODE, ArLocalRestoreIrq eflags (s\<lparr>in_allocator := False\<rparr>)) })"

partial_function (option) block_scan :: "(u32 \<Rightarrow> node_t) \<Rightarrow> u32 \<Rightarrow> u32 \<Rightarrow> u32 option" where
  "block_scan h nod addr =
     (if nod = 0 then Some 0
      else if nod \<le> addr \<and> addr < nod + SIZEOF_NODE + nd_size (h nod) then Some nod
      else block_scan h (nd_next (h nod)) addr)"

definition mm_check_allocated :: "u32 \<Rightarrow> 'a kheap_scheme \<Rightarrow> (bool \<times> 'a kheap_scheme) option" where
  "mm_check_allocated addr s =
     (let (eflags, s) = ArLocalSaveIrq s
      in if in_allocator s then Some (True, ArLocalRestoreIrq eflags s)
         else do {
           nod \<leftarrow> block_scan (nodes s) (first_node s) addr;
           Some (nod \<noteq> 0 \<and> \<not> IS_FREE_NODE (nodes s nod), ArLocalRestoreIrq eflags s) })"

definition merge :: "u32 \<Rightarrow> u32 \<Rightarrow> u32 \<Rightarrow> 'a kheap_scheme \<Rightarrow> 'a kheap_scheme" where
  "merge a b c s =
     (let k = calc_hash_index (nd_size (nodes s c) + SIZEOF_NODE);
          s = HASH_DELETE c k s;
          s = upd_node a (\<lambda>n. n\<lparr>nd_size := nd_size n + (nd_size (nodes s b) + SIZEOF_NODE)\<rparr>) s;
          s = upd_node a (\<lambda>n. n\<lparr>nd_next := nd_next (nodes s b)\<rparr>) s;
          nx = nd_next (nodes s a)
      in if nx \<noteq> 0 then upd_node nx (\<lambda>n. n\<lparr>nd_prev := a\<rparr>) s else s)"

definition mm_free :: "u32 \<Rightarrow> 'a kheap_scheme \<Rightarrow> u32 \<times> 'a kheap_scheme" where
  "mm_free p s =
     (if p = 0 then (0, s)
      else
        let nod = p - SIZEOF_NODE;
            (eflags, s) = ArLocalSaveIrq s
        in if IS_FREE_NODE (nodes s nod) then (0, ArLocalRestoreIrq eflags s)
           else
             let s = MAKE_FREE nod s;
                 siz = nd_size (nodes s nod);
                 pr = nd_prev (nodes s nod);
                 (nod, s) = (if pr \<noteq> 0 \<and> IS_FREE_NODE (nodes s pr) then (pr, merge pr nod pr s)
                             else (nod, s));
                 nx = nd_next (nodes s nod);
                 s = (if nx \<noteq> 0 \<and> IS_FREE_NODE (nodes s nx) then merge nod nx nx s else s);
                 k = calc_hash_index (nd_size (nodes s nod) + SIZEOF_NODE);
                 s = HASH_APPEND nod k s
             in (siz, ArLocalRestoreIrq eflags s))"

definition mm_calloc :: "u32 \<Rightarrow> u32 \<Rightarrow> 'a kheap_scheme \<Rightarrow> (u32 \<times> 'a kheap_scheme) option" where
  "mm_calloc c n s = mm_alloc (c * n) s"

definition mm_realloc :: "u32 \<Rightarrow> u32 \<Rightarrow> 'a kheap_scheme \<Rightarrow> (u32 \<times> 'a kheap_scheme) option" where
  "mm_realloc p siz s = mm_alloc siz (snd (mm_free p s))"

definition mm_init_block :: "u32 \<Rightarrow> u32 \<Rightarrow> 'a kheap_scheme \<Rightarrow> 'a kheap_scheme" where
  "mm_init_block addr siz s =
     (let s = s\<lparr>first_node := 0, free_table := (\<lambda>_. 0)\<rparr>;
          s = upd_node addr (\<lambda>n. n\<lparr>nd_prev := 0, nd_next := 0\<rparr>) s;
          s = upd_node addr (\<lambda>n. n\<lparr>nd_size := siz - SIZEOF_NODE\<rparr>) s;
          s = HASH_APPEND addr (MAX_HASH_ENTRY - 1) s;
          s = MAKE_FREE addr s
      in s\<lparr>first_node := addr\<rparr>)"

end
