(* ===== verification/Kernel.thy ===== *)
theory Kernel
  imports Allocator
begin

text \<open>
  The data of the kernel: the structures of \<open>kernel/include/rtl.h\<close>, \<open>ipc.h\<close>, \<open>tm.h\<close>, \<open>mm.h\<close> and
  \<open>arch_i386/arch.h\<close>, and the record \<open>kernel\<close> that holds one typed heap per structure together with the
  static variables of the source files. Queues and semaphores that are embedded in other structures are
  named by a reference to the structure they are part of. Flags the code only ever sets to 0 or 1 are
  \<open>bool\<close>; other integers keep their width, and an \<open>int\<close> is a word that is read with \<open>sint\<close> where the
  code compares it.
\<close>

section \<open>Structures\<close>

text \<open>A \<open>KVirtualMemory\<close> is a static variable or part of a space; a \<open>KSemaphore\<close> is part of a thread, of a
  \<open>KVirtualMemory\<close>, the static one of \<open>vm86.c\<close>, or allocated for a queue; a \<open>KQueue\<close> is the wait queue of
  a semaphore or the message queue of a thread.\<close>

datatype vmref = KernelVirtualMemory | GlobalVirtualMemory | SpaceVirtualMemory u32

datatype semref = ThreadSemaphore u32 | JoinSemaphoreOf u32 | HeapSemaphore u32 | AccessLock vmref | BiosCallSemaphore

datatype qref = WaitQueue semref | MessageQueueOf u32

record KQueueNode =
  qn_prev :: u32
  qn_next :: u32
  qn_v :: u32

datatype eraser = NoEraser | MessageEraser

record KQueue =
  q_semaphore :: u32
  q_cur_num :: u32
  q_max_num :: u32
  q_front :: u32
  q_back :: u32
  q_del_func :: eraser
  q_use_sem :: bool

record Message =
  ms_ThreadId :: u32
  ms_Time :: u32
  ms_Command :: u32
  ms_Arguments :: "nat \<Rightarrow> u32"
  ms_Code :: u32
  ms_Large :: "nat \<Rightarrow> u32"

record KMessage =
  km_UserMessage :: Message
  km_Destination :: u32
  km_Source :: u32

datatype THREAD_STATE = TS_INIT | TS_READY | TS_RUNNING | TS_PAUSED | TS_SLEEP | TS_WAIT | TS_DEAD | TS_IDLE

record SCHEDULE_INFO =
  si_clock :: u32
  si_prev :: u32
  si_next :: u32

record I386_REGISTERS =
  r_es :: u32
  r_ds :: u32
  r_fs :: u32
  r_eax :: u32
  r_int_no :: u32
  r_err_code :: u32
  r_eip :: u32
  r_cs :: u32
  r_eflags :: u32
  r_esp :: u32
  r_ss :: u32

record ArchThread =
  ar_fsave :: u32
  ar_used_fpu :: bool
  ar_in_vm86 :: bool
  ar_vmflag_if :: bool

record KThread =
  th_StackPointer :: u32
  th_ThreadId :: u32
  th_Space :: u32
  th_prev :: u32
  th_next :: u32
  th_Magic :: u32
  th_ThreadState :: THREAD_STATE
  th_Arch :: ArchThread
  th_UserModeThreadInformation :: u32
  th_ScheduleInformation :: SCHEDULE_INFO
  th_ExitCode :: u32
  th_EntryAddress :: u32
  th_StackBase :: u32
  th_StackLimit :: u32
  th_IsKernelThread :: bool
  th_IsInterrupted :: bool
  th_UsedMathProcessor :: bool
  th_InBiosMode :: bool
  th_Registers :: I386_REGISTERS

datatype box = Box_running | Box_next | Box_ready | Box_sleep | Box_paused | Box_dead | Box_wait | Box_idle

record KVirtualMemoryAllocation =
  va_next :: u32
  va_prev :: u32
  va_VirtualAddress :: u32
  va_VirtualSize :: u32
  va_MemoryAttribute :: u32
  va_AllocationFlag :: u32

record KVirtualMemory =
  vm_FirstAllocation :: u32
  vm_LastAllocation :: u32
  vm_LowerLimit :: u32
  vm_UpperLimit :: u32

record KMemoryInformation =
  mi_UserMemoryAllocated :: u32
  mi_KernelMemoryAllocated :: u32
  mi_UserMemoryCapacity :: u32
  mi_KernelMemoryCapacity :: u32

record KPageDirectory =
  pd_PhysicalAddress :: u32
  pd_VirtualAddress :: u32

record KSpace =
  sp_SpaceId :: u32
  sp_UserId :: u32
  sp_Magic :: u32
  sp_prev :: u32
  sp_next :: u32
  sp_parent :: u32
  sp_child :: u32
  sp_FirstThread :: u32
  sp_MemoryInformation :: KMemoryInformation
  sp_PageDirectory :: KPageDirectory
  sp_UserModeSpaceInformation :: u32
  sp_InBiosMode :: bool

record SEGMENT_DESC =
  sd_limit_low :: u16
  sd_base_low :: u16
  sd_base_mid :: u8
  sd_attr1 :: u8
  sd_limit_high_attr2 :: u8
  sd_base_high :: u8

record GATE_DESC =
  gd_offset_low :: u16
  gd_selector :: u16
  gd_dcount :: u8
  gd_attr :: u8
  gd_offset_high :: u16

text \<open>The image of the coprocessor registers that \<open>fnsave\<close> writes, 27 words.\<close>

type_synonym I387_REGISTERS = "nat \<Rightarrow> u32"

section \<open>The kernel state\<close>

text \<open>
  Page directories are read at the virtual address they are mapped at (\<open>pdirs\<close>: address, entry); page
  tables and the contents of frames through the temporary window at \<open>KERNEL_BASE + 0x303000\<close>, whose
  page table entry is \<open>temp_pte\<close>; \<open>pmem\<close> is physical memory by 32-bit word.
\<close>

record kernel = kheap +
  qnodes :: "u32 \<Rightarrow> KQueueNode"
  queues :: "qref \<Rightarrow> KQueue"
  sem_value :: "semref \<Rightarrow> u32"
  kmsgs :: "u32 \<Rightarrow> KMessage"
  threads :: "u32 \<Rightarrow> KThread"
  spaces :: "u32 \<Rightarrow> KSpace"
  vmas :: "u32 \<Rightarrow> KVirtualMemoryAllocation"
  vms :: "vmref \<Rightarrow> KVirtualMemory"
  ThreadingBox :: "box \<Rightarrow> u32"
  CanSchedule :: u32
  threadId :: u16
  FirstSpace :: u32
  CurrentSpace :: u32
  spaceId :: u16
  KernelPageDirectory :: KPageDirectory
  loaded_directory :: KPageDirectory
  pdirs :: "u32 \<Rightarrow> u32 \<Rightarrow> u32"
  pmem :: "u32 \<Rightarrow> u32"
  temp_pte :: u32
  rtc_time :: u32
  rtc_millisecond :: u32
  rtc_second :: u32
  thread_info_time :: "u32 \<Rightarrow> u32"
  intr_handlers :: "u32 \<Rightarrow> nat \<Rightarrow> u32"
  irq_routines :: "u32 \<Rightarrow> u32"
  isr_routines :: "u32 \<Rightarrow> u32"
  pic_mask :: "bool \<Rightarrow> u8"
  tss_esp0 :: u32
  sysenter_esp :: u32
  gdt :: "u32 \<Rightarrow> SEGMENT_DESC"
  idt :: "u32 \<Rightarrow> GATE_DESC"
  cr0_ts :: bool
  fpu_regs :: I387_REGISTERS
  fsaves :: "u32 \<Rightarrow> I387_REGISTERS"

section \<open>Sizes\<close>

abbreviation SIZEOF_KQueueNode :: u32 where "SIZEOF_KQueueNode \<equiv> 12"
abbreviation SIZEOF_KSemaphore :: u32 where "SIZEOF_KSemaphore \<equiv> 48"
abbreviation SIZEOF_KMessage :: u32 where "SIZEOF_KMessage \<equiv> 72"
abbreviation SIZEOF_Message :: u32 where "SIZEOF_Message \<equiv> 64"
abbreviation SIZEOF_KThread :: u32 where "SIZEOF_KThread \<equiv> 15596"
abbreviation SIZEOF_KSpace :: u32 where "SIZEOF_KSpace \<equiv> 136"
abbreviation SIZEOF_VMA :: u32 where "SIZEOF_VMA \<equiv> 24"
abbreviation SIZEOF_REGISTERS :: u32 where "SIZEOF_REGISTERS \<equiv> 76"

section \<open>Field updates\<close>

definition upd_thread :: "u32 \<Rightarrow> (KThread \<Rightarrow> KThread) \<Rightarrow> kernel \<Rightarrow> kernel" where
  "upd_thread t f s = s\<lparr>threads := (threads s)(t := f (threads s t))\<rparr>"

definition upd_sched :: "u32 \<Rightarrow> (SCHEDULE_INFO \<Rightarrow> SCHEDULE_INFO) \<Rightarrow> kernel \<Rightarrow> kernel" where
  "upd_sched t f = upd_thread t (\<lambda>r. r\<lparr>th_ScheduleInformation := f (th_ScheduleInformation r)\<rparr>)"

definition upd_box :: "box \<Rightarrow> u32 \<Rightarrow> kernel \<Rightarrow> kernel" where
  "upd_box b p s = s\<lparr>ThreadingBox := (ThreadingBox s)(b := p)\<rparr>"

definition upd_space :: "u32 \<Rightarrow> (KSpace \<Rightarrow> KSpace) \<Rightarrow> kernel \<Rightarrow> kernel" where
  "upd_space p f s = s\<lparr>spaces := (spaces s)(p := f (spaces s p))\<rparr>"

definition upd_meminfo :: "u32 \<Rightarrow> (KMemoryInformation \<Rightarrow> KMemoryInformation) \<Rightarrow> kernel \<Rightarrow> kernel" where
  "upd_meminfo p f = upd_space p (\<lambda>r. r\<lparr>sp_MemoryInformation := f (sp_MemoryInformation r)\<rparr>)"

definition upd_vm :: "vmref \<Rightarrow> (KVirtualMemory \<Rightarrow> KVirtualMemory) \<Rightarrow> kernel \<Rightarrow> kernel" where
  "upd_vm v f s = s\<lparr>vms := (vms s)(v := f (vms s v))\<rparr>"

definition upd_vma :: "u32 \<Rightarrow> (KVirtualMemoryAllocation \<Rightarrow> KVirtualMemoryAllocation) \<Rightarrow> kernel \<Rightarrow> kernel" where
  "upd_vma a f s = s\<lparr>vmas := (vmas s)(a := f (vmas s a))\<rparr>"

definition upd_queue :: "qref \<Rightarrow> (KQueue \<Rightarrow> KQueue) \<Rightarrow> kernel \<Rightarrow> kernel" where
  "upd_queue q f s = s\<lparr>queues := (queues s)(q := f (queues s q))\<rparr>"

definition upd_qnode :: "u32 \<Rightarrow> (KQueueNode \<Rightarrow> KQueueNode) \<Rightarrow> kernel \<Rightarrow> kernel" where
  "upd_qnode a f s = s\<lparr>qnodes := (qnodes s)(a := f (qnodes s a))\<rparr>"

section \<open>Zeroed structures\<close>

definition zero_queue :: KQueue where
  "zero_queue = \<lparr>q_semaphore = 0, q_cur_num = 0, q_max_num = 0, q_front = 0, q_back = 0,
     q_del_func = NoEraser, q_use_sem = False\<rparr>"

definition zero_regs :: I386_REGISTERS where
  "zero_regs = \<lparr>r_es = 0, r_ds = 0, r_fs = 0, r_eax = 0, r_int_no = 0, r_err_code = 0, r_eip = 0,
     r_cs = 0, r_eflags = 0, r_esp = 0, r_ss = 0\<rparr>"

definition zero_thread :: KThread where
  "zero_thread = \<lparr>th_StackPointer = 0, th_ThreadId = 0, th_Space = 0, th_prev = 0, th_next = 0, th_Magic = 0,
     th_ThreadState = TS_INIT, th_Arch = \<lparr>ar_fsave = 0, ar_used_fpu = False, ar_in_vm86 = False, ar_vmflag_if = False\<rparr>,
     th_UserModeThreadInformation = 0, th_ScheduleInformation = \<lparr>si_clock = 0, si_prev = 0, si_next = 0\<rparr>,
     th_ExitCode = 0, th_EntryAddress = 0, th_StackBase = 0, th_StackLimit = 0, th_IsKernelThread = False,
     th_IsInterrupted = False, th_UsedMathProcessor = False, th_InBiosMode = False, th_Registers = zero_regs\<rparr>"

definition zero_space :: KSpace where
  "zero_space = \<lparr>sp_SpaceId = 0, sp_UserId = 0, sp_Magic = 0, sp_prev = 0, sp_next = 0, sp_parent = 0,
     sp_child = 0, sp_FirstThread = 0, sp_MemoryInformation = \<lparr>mi_UserMemoryAllocated = 0,
       mi_KernelMemoryAllocated = 0, mi_UserMemoryCapacity = 0, mi_KernelMemoryCapacity = 0\<rparr>,
     sp_PageDirectory = \<lparr>pd_PhysicalAddress = 0, pd_VirtualAddress = 0\<rparr>,
     sp_UserModeSpaceInformation = 0, sp_InBiosMode = False\<rparr>"

section \<open>The current thread and space\<close>

definition TmGetCurrentThread :: "kernel \<Rightarrow> u32" where
  "TmGetCurrentThread s = ThreadingBox s Box_running"

definition MmGetCurrentSpace :: "kernel \<Rightarrow> u32" where
  "MmGetCurrentSpace s =
     (let thr = TmGetCurrentThread s in if thr \<noteq> 0 then th_Space (threads s thr) else FirstSpace s)"

section \<open>Kernel memory\<close>

text \<open>\<open>kernel/mm/kernelmemory.c\<close>: the pool \<open>km_block\<close> with the account of the current space. The request
  is rounded up to a multiple of four; an account above the capacity refuses it.\<close>

definition MmAllocateKernelMemory :: "u32 \<Rightarrow> kernel \<Rightarrow> (u32 \<times> kernel) option" where
  "MmAllocateKernelMemory siz s =
     (let space = MmGetCurrentSpace s;
          siz = (if siz AND 3 \<noteq> 0 then (siz AND NOT 3) + 4 else siz)
      in if space \<noteq> 0 then
           let s1 = upd_meminfo space (\<lambda>m. m\<lparr>mi_KernelMemoryAllocated := mi_KernelMemoryAllocated m + siz\<rparr>) s;
               info = sp_MemoryInformation (spaces s1 space)
           in if sint (mi_KernelMemoryCapacity info) < sint (mi_KernelMemoryAllocated info)
              then Some (0, upd_meminfo space
                     (\<lambda>m. m\<lparr>mi_KernelMemoryAllocated := mi_KernelMemoryAllocated m - siz\<rparr>) s1)
              else mm_alloc siz s1
         else mm_alloc siz s)"

definition MmFreeKernelMemory :: "u32 \<Rightarrow> kernel \<Rightarrow> kernel" where
  "MmFreeKernelMemory p s =
     (let space = MmGetCurrentSpace s;
          (siz, s) = mm_free p s
      in if space \<noteq> 0 then
           let s = upd_meminfo space (\<lambda>m. m\<lparr>mi_KernelMemoryAllocated := mi_KernelMemoryAllocated m - siz\<rparr>) s
           in if sint (mi_KernelMemoryAllocated (sp_MemoryInformation (spaces s space))) < 0
              then upd_meminfo space (\<lambda>m. m\<lparr>mi_KernelMemoryAllocated := 0\<rparr>) s
              else s
         else s)"

definition MmIsKernelMemoryAllocated :: "u32 \<Rightarrow> kernel \<Rightarrow> (bool \<times> kernel) option" where
  "MmIsKernelMemoryAllocated addr s = mm_check_allocated addr s"

end
