(* ===== verification/AllocatorInv.thy ===== *)
theory AllocatorInv
  imports Allocator
begin

text \<open>
  The invariant of the block allocator and what its operations do to it. \<open>heap_inv s lo hi bs\<close> says
  that the blocks \<open>bs\<close>, linked in both directions from \<open>first_node\<close>, tile the bytes \<open>[lo, hi)\<close>, that
  every free list of the table holds exactly the free blocks of its size class, and that no two
  neighbours are free. \<open>live\<close> is the set of addresses handed out.
\<close>

section \<open>Invariant\<close>

abbreviation nxt_of :: "'a kheap_scheme \<Rightarrow> u32 \<Rightarrow> u32" where "nxt_of s a \<equiv> nd_next (nodes s a)"
abbreviation prv_of :: "'a kheap_scheme \<Rightarrow> u32 \<Rightarrow> u32" where "prv_of s a \<equiv> nd_prev (nodes s a)"
abbreviation hnx_of :: "'a kheap_scheme \<Rightarrow> u32 \<Rightarrow> u32" where "hnx_of s a \<equiv> nd_hash_next (nodes s a)"
abbreviation hpv_of :: "'a kheap_scheme \<Rightarrow> u32 \<Rightarrow> u32" where "hpv_of s a \<equiv> nd_hash_prev (nodes s a)"
abbreviation size_of :: "'a kheap_scheme \<Rightarrow> u32 \<Rightarrow> u32" where "size_of s a \<equiv> nd_size (nodes s a)"
abbreviation is_free :: "'a kheap_scheme \<Rightarrow> u32 \<Rightarrow> bool" where
  "is_free s a \<equiv> IS_FREE_NODE (nodes s a)"

definition size_class :: "'a kheap_scheme \<Rightarrow> u32 \<Rightarrow> nat" where
  "size_class s b = calc_hash_index (size_of s b + SIZEOF_NODE)"

definition adj_ok :: "'a kheap_scheme \<Rightarrow> u32 list \<Rightarrow> bool" where
  "adj_ok s bs \<longleftrightarrow> (\<exists>l. dlist (nxt_of s) (prv_of s) (first_node s) l bs)"

fun layout :: "(u32 \<Rightarrow> u32) \<Rightarrow> nat \<Rightarrow> u32 list \<Rightarrow> nat \<Rightarrow> bool" where
  "layout f a [] e \<longleftrightarrow> a = e"
| "layout f a (b # bs) e \<longleftrightarrow> unat b = a \<and> layout f (a + 24 + unat (f b)) bs e"

definition hash_ok :: "'a kheap_scheme \<Rightarrow> u32 set \<Rightarrow> bool" where
  "hash_ok s M \<longleftrightarrow> (\<forall>j < MAX_HASH_ENTRY. \<exists>xs l.
     dlist (hnx_of s) (hpv_of s) (free_table s j) l xs \<and> set xs = {b \<in> M. size_class s b = j})"

definition heap_inv :: "'a kheap_scheme \<Rightarrow> nat \<Rightarrow> nat \<Rightarrow> u32 list \<Rightarrow> bool" where
  "heap_inv s lo hi bs \<longleftrightarrow> 0 < lo \<and> hi < 2 ^ 32 \<and> hi \<le> lo + 2 ^ 31 \<and>
     adj_ok s bs \<and> layout (size_of s) lo bs hi \<and> hash_ok s {b \<in> set bs. is_free s b} \<and>
     successively (\<lambda>b c. \<not> (is_free s b \<and> is_free s c)) bs"

subsection \<open>Layout\<close>

lemma layout_append: "layout h a (xs @ ys) e \<longleftrightarrow> (\<exists>m. layout h a xs m \<and> layout h m ys e)"
  by (induction xs arbitrary: a) auto

lemma layout_cong: "(\<And>b. b \<in> set bs \<Longrightarrow> h' b = h b) \<Longrightarrow> layout h' a bs e = layout h a bs e"
  by (induction bs arbitrary: a) auto

lemma layout_bounds:
  "layout h a bs e \<Longrightarrow> a \<le> e \<and> (\<forall>b \<in> set bs. a \<le> unat b \<and> unat b + 24 + unat (h b) \<le> e)"
  by (induction bs arbitrary: a) fastforce+

lemma layout_disjoint:
  assumes "layout h a (xs @ b # ys) e" and "c \<in> set xs \<union> set ys"
  shows "unat c + 24 + unat (h c) \<le> unat b \<or> unat b + 24 + unat (h b) \<le> unat c"
proof -
  from assms obtain m where 1: "layout h a xs m" and 2: "unat b = m"
    and 3: "layout h (m + 24 + unat (h b)) ys e" by (auto simp: layout_append)
  from layout_bounds [OF 1] layout_bounds [OF 3] assms(2) 2 show ?thesis by fastforce
qed

subsection \<open>Hash lists\<close>

lemma calc_hash_index_less [simp]: "calc_hash_index k < MAX_HASH_ENTRY"
  by (simp add: calc_hash_index_def Let_def)

lemma size_class_less [simp]: "size_class s b < MAX_HASH_ENTRY"
  by (simp add: size_class_def del: calc_hash_index_less) (simp only: calc_hash_index_less)

lemma hash_ok_cong:
  assumes "hash_ok s M" and "free_table s' = free_table s"
    and "\<And>b. b \<in> M \<Longrightarrow> hnx_of s' b = hnx_of s b" and "\<And>b. b \<in> M \<Longrightarrow> hpv_of s' b = hpv_of s b"
    and "\<And>b. b \<in> M \<Longrightarrow> size_of s' b = size_of s b"
  shows "hash_ok s' M"
  unfolding hash_ok_def
proof (intro allI impI)
  fix j :: nat assume "j < MAX_HASH_ENTRY"
  with assms(1) obtain xs l where d: "dlist (hnx_of s) (hpv_of s) (free_table s j) l xs"
    and x: "set xs = {b \<in> M. size_class s b = j}" unfolding hash_ok_def by blast
  have "dlist (hnx_of s') (hpv_of s') (free_table s' j) l xs = dlist (hnx_of s) (hpv_of s) (free_table s j) l xs"
    unfolding assms(2) by (rule dlist_cong) (use assms x in auto)
  moreover have "{b \<in> M. size_class s' b = j} = {b \<in> M. size_class s b = j}"
    using assms by (auto simp: size_class_def)
  ultimately show "\<exists>xs l. dlist (hnx_of s') (hpv_of s') (free_table s' j) l xs \<and>
      set xs = {b \<in> M. size_class s' b = j}"
    using d x by auto
qed

lemma hash_ok_nonzero: "hash_ok s M \<Longrightarrow> b \<in> M \<Longrightarrow> b \<noteq> 0"
  using dlist_nonzero size_class_less [of s b] unfolding hash_ok_def
  by (metis (mono_tags, lifting) mem_Collect_eq)

lemma HASH_APPEND_ok:
  assumes ok: "hash_ok s M" and b: "b \<noteq> 0" "b \<notin> M"
  shows "hash_ok (HASH_APPEND b (size_class s b) s) (insert b M)"
  unfolding hash_ok_def
proof (intro allI impI)
  fix j :: nat assume j: "j < MAX_HASH_ENTRY"
  let ?k = "size_class s b" and ?s = "HASH_APPEND b (size_class s b) s"
  let ?f = "free_table s ?k"
  from ok j obtain xs l where d: "dlist (hnx_of s) (hpv_of s) (free_table s j) l xs"
    and x: "set xs = {b \<in> M. size_class s b = j}" unfolding hash_ok_def by blast
  from ok obtain ys m where dk: "dlist (hnx_of s) (hpv_of s) ?f m ys"
    and y: "set ys = {c \<in> M. size_class s c = ?k}" unfolding hash_ok_def
    using size_class_less [of s b] by blast
  have f: "?f \<noteq> 0 \<Longrightarrow> ?f \<in> set ys" using dlist_ends(1) [OF dk] by (auto split: if_splits)
  have fb: "?f \<noteq> b"
  proof
    assume "?f = b"
    with b(1) f have "b \<in> set ys" by simp
    with y b(2) show False by blast
  qed
  have hn': "hnx_of ?s c = (if c = b then ?f else hnx_of s c)" for c
    using fb by (simp add: HASH_APPEND_def upd_node_def Let_def)
  have hp': "hpv_of ?s c = (if c = b then 0 else if c = ?f \<and> ?f \<noteq> 0 then b else hpv_of s c)" for c
    using fb by (simp add: HASH_APPEND_def upd_node_def Let_def)
  have sc: "size_class ?s c = size_class s c" for c
    by (simp add: HASH_APPEND_def upd_node_def Let_def size_class_def)
  have ft: "free_table ?s i = (if i = ?k then b else free_table s i)" for i
    by (simp add: HASH_APPEND_def upd_node_def Let_def)
  show "\<exists>xs l. dlist (hnx_of ?s) (hpv_of ?s) (free_table ?s j) l xs \<and>
      set xs = {c \<in> insert b M. size_class ?s c = j}"
  proof (cases "j = ?k")
    case True
    have "dlist (hnx_of ?s) (hpv_of ?s) b (if ?f = 0 then b else l) (b # xs)"
      by (rule dlist_push_head [of "hnx_of s" "hpv_of s"])
        (use d b x True dlist_nonzero [OF d] in \<open>auto simp: hn' hp'\<close>)
    moreover have "set (b # xs) = {c \<in> insert b M. size_class ?s c = j}"
      using x True by (auto simp: sc)
    moreover have "free_table ?s j = b" using True by (simp only: ft) simp
    ultimately show ?thesis by (simp only:) blast
  next
    case False
    have "set xs \<inter> set ys = {}" unfolding x y using False by fastforce
    moreover have "b \<notin> set xs" unfolding x using b(2) by simp
    ultimately have ne: "c \<noteq> b" "\<not> (c = ?f \<and> ?f \<noteq> 0)" if "c \<in> set xs" for c
      using f that by blast+
    have "hnx_of ?s c = hnx_of s c" "hpv_of ?s c = hpv_of s c" if "c \<in> set xs" for c
      unfolding hn' hp' if_not_P [OF ne(1) [OF that]] if_not_P [OF ne(2) [OF that]] by (rule refl)+
    then have "dlist (hnx_of ?s) (hpv_of ?s) (free_table s j) l xs"
      using d dlist_cong [of xs "hnx_of ?s" "hnx_of s" "hpv_of ?s" "hpv_of s"] by simp
    moreover have "free_table ?s j = free_table s j" using False by (simp only: ft) simp
    moreover have "{c \<in> insert b M. size_class ?s c = j} = set xs" using x False by (auto simp only: sc)
    ultimately show ?thesis by (simp only:) blast
  qed
qed

lemma HASH_DELETE_ok:
  assumes ok: "hash_ok s M" and b: "b \<in> M"
  shows "hash_ok (HASH_DELETE b (size_class s b) s) (M - {b})"
  unfolding hash_ok_def
proof (intro allI impI)
  fix j :: nat assume j: "j < MAX_HASH_ENTRY"
  let ?k = "size_class s b" and ?s = "HASH_DELETE b (size_class s b) s"
  from ok j obtain xs l where d: "dlist (hnx_of s) (hpv_of s) (free_table s j) l xs"
    and x: "set xs = {b \<in> M. size_class s b = j}" unfolding hash_ok_def by blast
  from ok obtain ys m where dk: "dlist (hnx_of s) (hpv_of s) (free_table s ?k) m ys"
    and y: "set ys = {c \<in> M. size_class s c = ?k}" unfolding hash_ok_def
    using size_class_less [of s b] by blast
  from b y have "b \<in> set ys" by simp
  then obtain us vs where ys: "ys = us @ b # vs" by (auto simp: in_set_conv_decomp)
  note links = dlist_links [OF dk [unfolded ys]]
  have dist: "distinct ys" and nz: "0 \<notin> set ys"
    using dlist_distinct [OF dk] dlist_nonzero [OF dk] by auto
  then have bv: "b \<notin> set us" "b \<notin> set vs" "b \<noteq> 0" by (auto simp: ys)
  have hpb: "hpv_of s b = 0 \<longleftrightarrow> us = []" and hnb: "hnx_of s b = 0 \<longleftrightarrow> vs = []"
    using links nz by (auto simp: ys split: if_splits) (metis last_in_set hd_in_set)+
  have ne: "hpv_of s b \<noteq> b" "hnx_of s b \<noteq> b" using links bv by (auto split: if_splits)
  have hn': "hnx_of ?s c = (if c = hpv_of s b \<and> us \<noteq> [] then hnx_of s b else hnx_of s c)" for c
    using ne hpb hnb by (simp add: HASH_DELETE_def upd_node_def Let_def)
  have hp': "hpv_of ?s c = (if c = hnx_of s b \<and> vs \<noteq> [] then hpv_of s b else hpv_of s c)" for c
    using ne hpb hnb by (simp add: HASH_DELETE_def upd_node_def Let_def)
  have sc: "size_class ?s c = size_class s c" for c
    by (simp add: HASH_DELETE_def upd_node_def Let_def size_class_def)
  have ft: "free_table ?s i = (if i = ?k \<and> us = [] then hnx_of s b else free_table s i)" for i
    using ne hpb hnb by (simp add: HASH_DELETE_def upd_node_def Let_def)
  show "\<exists>xs l. dlist (hnx_of ?s) (hpv_of ?s) (free_table ?s j) l xs \<and>
      set xs = {c \<in> M - {b}. size_class ?s c = j}"
  proof (cases "j = ?k")
    case True
    have disj: "set us \<inter> set vs = {}" using dist ys by auto
    have hpv: "c = hpv_of s b \<longleftrightarrow> c = last us" if "c \<in> set us" for c
      using links(2) that by (cases us) auto
    have hnv: "c = hnx_of s b \<longleftrightarrow> c = hd vs" if "c \<in> set vs" for c
      using links(1) that by (cases vs) auto
    have hpv': "c \<noteq> hpv_of s b \<or> us = []" if "c \<in> set vs" for c
      using links(2) that disj last_in_set [of us] by (metis disjoint_iff)
    have hnv': "c \<noteq> hnx_of s b \<or> vs = []" if "c \<in> set us" for c
      using links(1) that disj hd_in_set [of vs] by (metis disjoint_iff)
    have nu: "c \<in> set us \<Longrightarrow> us \<noteq> []" and nv: "c \<in> set vs \<Longrightarrow> vs \<noteq> []" for c by auto
    have "dlist (hnx_of ?s) (hpv_of ?s) (if us = [] then hnx_of s b else free_table s ?k)
        (if vs = [] then hpv_of s b else m) (us @ vs)"
    proof (rule dlist_remove [OF dk [unfolded ys]])
      show "hnx_of ?s c = (if c = last us then hnx_of s b else hnx_of s c)" if "c \<in> set us" for c
        unfolding hn' using hpv [OF that] nu [OF that] by simp
      show "hnx_of ?s c = hnx_of s c" if "c \<in> set vs" for c
        unfolding hn' using hpv' [OF that] by auto
      show "hpv_of ?s c = hpv_of s c" if "c \<in> set us" for c
        unfolding hp' using hnv' [OF that] by auto
      show "hpv_of ?s c = (if c = hd vs then hpv_of s b else hpv_of s c)" if "c \<in> set vs" for c
        unfolding hp' using hnv [OF that] nv [OF that] by simp
    qed
    moreover have "set (us @ vs) = {c \<in> M - {b}. size_class ?s c = j}"
      using y ys bv True by (auto simp: sc)
    moreover have "free_table ?s j = (if us = [] then hnx_of s b else free_table s ?k)"
      using True by (simp only: ft) simp
    ultimately show ?thesis by (simp only:) blast
  next
    case False
    have in_ys: "us \<noteq> [] \<Longrightarrow> hpv_of s b \<in> set ys" "vs \<noteq> [] \<Longrightarrow> hnx_of s b \<in> set ys"
      using links by (simp_all add: ys)
    have "set xs \<inter> set ys = {}" using x y False by auto
    then have ne': "\<not> (c = hpv_of s b \<and> us \<noteq> [])" "\<not> (c = hnx_of s b \<and> vs \<noteq> [])" if "c \<in> set xs" for c
      using in_ys that by blast+
    have "hnx_of ?s c = hnx_of s c" "hpv_of ?s c = hpv_of s c" if "c \<in> set xs" for c
      unfolding hn' hp' if_not_P [OF ne'(1) [OF that]] if_not_P [OF ne'(2) [OF that]] by (rule refl)+
    then have "dlist (hnx_of ?s) (hpv_of ?s) (free_table s j) l xs"
      using d dlist_cong [of xs "hnx_of ?s" "hnx_of s" "hpv_of ?s" "hpv_of s"] by simp
    moreover have "free_table ?s j = free_table s j" using False by (simp only: ft) simp
    moreover have "{c \<in> M - {b}. size_class ?s c = j} = set xs" using x False by (auto simp only: sc)
    ultimately show ?thesis by (simp only:) blast
  qed
qed

subsection \<open>Fields the steps change\<close>

lemma and_1_iff: "(x AND 1 \<noteq> 0) = bit x 0" for x :: "'a::len word"
  by (simp only: and_one_eq bit_0 odd_iff_mod_2_eq_one) auto

lemma IS_FREE_OR [simp]: "IS_FREE_NODE (n\<lparr>nd_attribute := nd_attribute n OR 1\<rparr>)"
  unfolding IS_FREE_NODE_def and_1_iff by (simp add: bit_or_iff)

lemma IS_FREE_ANDNOT [simp]: "\<not> IS_FREE_NODE (n\<lparr>nd_attribute := nd_attribute n AND - 2\<rparr>)"
  unfolding IS_FREE_NODE_def and_1_iff by (simp add: bit_and_iff)

lemma IS_FREE_upd [simp]:
  "IS_FREE_NODE (n\<lparr>nd_prev := x\<rparr>) = IS_FREE_NODE n" "IS_FREE_NODE (n\<lparr>nd_next := x\<rparr>) = IS_FREE_NODE n"
  "IS_FREE_NODE (n\<lparr>nd_hash_prev := x\<rparr>) = IS_FREE_NODE n" "IS_FREE_NODE (n\<lparr>nd_hash_next := x\<rparr>) = IS_FREE_NODE n"
  "IS_FREE_NODE (n\<lparr>nd_size := x\<rparr>) = IS_FREE_NODE n"
  by (simp_all add: IS_FREE_NODE_def)

lemma HASH_frame [simp]:
  "nxt_of (HASH_APPEND b k s) c = nxt_of s c" "prv_of (HASH_APPEND b k s) c = prv_of s c"
  "size_of (HASH_APPEND b k s) c = size_of s c" "is_free (HASH_APPEND b k s) c = is_free s c"
  "first_node (HASH_APPEND b k s) = first_node s"
  "nxt_of (HASH_DELETE b k s) c = nxt_of s c" "prv_of (HASH_DELETE b k s) c = prv_of s c"
  "size_of (HASH_DELETE b k s) c = size_of s c" "is_free (HASH_DELETE b k s) c = is_free s c"
  "first_node (HASH_DELETE b k s) = first_node s"
  by (simp_all add: HASH_APPEND_def HASH_DELETE_def upd_node_def Let_def)

lemma MAKE_frame [simp]:
  "nxt_of (MAKE_FREE b s) c = nxt_of s c" "prv_of (MAKE_FREE b s) c = prv_of s c"
  "hnx_of (MAKE_FREE b s) c = hnx_of s c" "hpv_of (MAKE_FREE b s) c = hpv_of s c"
  "size_of (MAKE_FREE b s) c = size_of s c" "is_free (MAKE_FREE b s) c = (c = b \<or> is_free s c)"
  "first_node (MAKE_FREE b s) = first_node s" "free_table (MAKE_FREE b s) = free_table s"
  "nxt_of (MAKE_OCCUPIED b s) c = nxt_of s c" "prv_of (MAKE_OCCUPIED b s) c = prv_of s c"
  "hnx_of (MAKE_OCCUPIED b s) c = hnx_of s c" "hpv_of (MAKE_OCCUPIED b s) c = hpv_of s c"
  "size_of (MAKE_OCCUPIED b s) c = size_of s c" "is_free (MAKE_OCCUPIED b s) c = (c \<noteq> b \<and> is_free s c)"
  "first_node (MAKE_OCCUPIED b s) = first_node s" "free_table (MAKE_OCCUPIED b s) = free_table s"
  by (simp_all add: MAKE_FREE_def MAKE_OCCUPIED_def upd_node_def)

lemma adj_ok_cong:
  assumes "adj_ok s bs" and "first_node s' = first_node s"
    and "\<And>b. b \<in> set bs \<Longrightarrow> nxt_of s' b = nxt_of s b" and "\<And>b. b \<in> set bs \<Longrightarrow> prv_of s' b = prv_of s b"
  shows "adj_ok s' bs"
  using assms dlist_cong [of bs "nxt_of s'" "nxt_of s" "prv_of s'" "prv_of s"] unfolding adj_ok_def by simp

lemma MAKE_ok [simp]:
  "hash_ok (MAKE_FREE b s) M = hash_ok s M" "hash_ok (MAKE_OCCUPIED b s) M = hash_ok s M"
  "adj_ok (MAKE_FREE b s) bs = adj_ok s bs" "adj_ok (MAKE_OCCUPIED b s) bs = adj_ok s bs"
  "size_class (MAKE_FREE b s) c = size_class s c" "size_class (MAKE_OCCUPIED b s) c = size_class s c"
  by (simp_all add: hash_ok_def adj_ok_def size_class_def)

lemma HASH_adj [simp]:
  "adj_ok (HASH_APPEND b k s) bs = adj_ok s bs" "adj_ok (HASH_DELETE b k s) bs = adj_ok s bs"
  by (simp_all add: adj_ok_def)

lemma adj_ok_facts:
  assumes "adj_ok s (xs @ b # ys)"
  shows "nxt_of s b = (if ys = [] then 0 else hd ys)" and "prv_of s b = (if xs = [] then 0 else last xs)"
    and "distinct (xs @ b # ys)" and "0 \<notin> set (xs @ b # ys)"
proof -
  from assms obtain l where d: "dlist (nxt_of s) (prv_of s) (first_node s) l (xs @ b # ys)"
    unfolding adj_ok_def by blast
  from dlist_links [OF d] dlist_distinct [OF d] dlist_nonzero [OF d]
  show "nxt_of s b = (if ys = [] then 0 else hd ys)" and "prv_of s b = (if xs = [] then 0 else last xs)"
    and "distinct (xs @ b # ys)" and "0 \<notin> set (xs @ b # ys)" by simp_all
qed

subsection \<open>Splitting a block\<close>

text \<open>Everything \<open>split_block\<close> does before the new block enters its hash list.\<close>

definition cut_block :: "u32 \<Rightarrow> u32 \<Rightarrow> u32 \<Rightarrow> u32 \<Rightarrow> 'a kheap_scheme \<Rightarrow> 'a kheap_scheme" where
  "cut_block nod siz nod2 siz2 s =
     (let s = upd_node nod2 (\<lambda>n. n\<lparr>nd_size := siz2\<rparr>) s;
          s = upd_node nod (\<lambda>n. n\<lparr>nd_size := siz\<rparr>) s;
          s = upd_node nod2 (\<lambda>n. n\<lparr>nd_next := nd_next (nodes s nod)\<rparr>) s;
          nx = nd_next (nodes s nod2);
          s = (if nx \<noteq> 0 then upd_node nx (\<lambda>n. n\<lparr>nd_prev := nod2\<rparr>) s else s);
          s = upd_node nod (\<lambda>n. n\<lparr>nd_next := nod2\<rparr>) s
      in upd_node nod2 (\<lambda>n. n\<lparr>nd_prev := nod\<rparr>) s)"

lemma split_block_cut:
  "split_block nod siz m rest s =
     MAKE_FREE (nod + m) (HASH_APPEND (nod + m) (calc_hash_index rest)
       (cut_block nod siz (nod + m) (rest - 24) s))"
  unfolding split_block_def cut_block_def Let_def by (rule refl)

lemma cut_block_fields:
  fixes z z2 :: u32
  assumes "b \<noteq> c" and "nxt_of s b \<noteq> b" and "nxt_of s b \<noteq> c"
  defines "s' \<equiv> cut_block b z c z2 s"
  shows "nxt_of s' x = (if x = b then c else if x = c then nxt_of s b else nxt_of s x)"
    and "prv_of s' x = (if x = c then b else if x = nxt_of s b \<and> nxt_of s b \<noteq> 0 then c else prv_of s x)"
    and "size_of s' x = (if x = b then z else if x = c then z2 else size_of s x)"
    and "hnx_of s' x = hnx_of s x" and "hpv_of s' x = hpv_of s x" and "is_free s' x = is_free s x"
    and "first_node s' = first_node s" and "free_table s' = free_table s"
  using assms(1-3) unfolding s'_def cut_block_def upd_node_def Let_def by simp_all

lemma cut_block_adj:
  assumes ok: "adj_ok s (xs @ b # ys)" and c: "c \<noteq> 0" "c \<notin> set (xs @ b # ys)"
  shows "adj_ok (cut_block b z c z2 s) (xs @ b # c # ys)"
proof -
  let ?s = "cut_block b z c z2 s"
  note f = adj_ok_facts [OF ok]
  have ne: "b \<noteq> c" "nxt_of s b \<noteq> b" "nxt_of s b \<noteq> c"
    using f c by (auto split: if_splits)
  note g = cut_block_fields [OF ne, of z z2]
  from ok obtain l where d: "dlist (nxt_of s) (prv_of s) (first_node s) l ((xs @ [b]) @ ys)"
    unfolding adj_ok_def by auto
  have hd_ys: "x = nxt_of s b \<and> nxt_of s b \<noteq> 0 \<longleftrightarrow> x = hd ys" if "x \<in> set ys" for x
    using f(1,4) that by (cases ys) auto
  have "dlist (nxt_of ?s) (prv_of ?s) (if xs @ [b] = [] then c else first_node s)
      (if ys = [] then c else l) ((xs @ [b]) @ c # ys)"
  proof (rule dlist_insert [OF d])
    show "nxt_of ?s x = (if x = last (xs @ [b]) then c else nxt_of s x)" if "x \<in> set (xs @ [b])" for x
      using that c by (auto simp only: g(1) last_snoc split: if_split) auto
    show "prv_of ?s x = prv_of s x" if "x \<in> set (xs @ [b])" for x
    proof -
      have "x \<noteq> c" using that c by auto
      moreover have "\<not> (x = nxt_of s b \<and> nxt_of s b \<noteq> 0)" using that f(1,3) hd_in_set [of ys]
        by (metis Int_iff distinct_append empty_iff distinct.simps(2) in_set_conv_decomp set_append Un_iff
            list.set_intros(1) append.assoc append_Cons append_Nil)
      ultimately show ?thesis unfolding g(2) by auto
    qed
    show "nxt_of ?s y = nxt_of s y" if "y \<in> set ys" for y
      using that c f(3) by (auto simp only: g(1) split: if_split) auto
    show "prv_of ?s y = (if y = hd ys then c else prv_of s y)" if "y \<in> set ys" for y
      unfolding g(2) hd_ys [OF that] using that c by auto
    show "nxt_of ?s c = (if ys = [] then 0 else hd ys)" using ne(1) f(1) by (simp only: g(1)) simp
    show "prv_of ?s c = (if xs @ [b] = [] then 0 else last (xs @ [b]))" by (simp only: g(2)) simp
  qed (use c in auto)
  then show ?thesis unfolding adj_ok_def g(7) by auto
qed

subsection \<open>Searching the free lists\<close>

lemma drop_bit_mono: "j \<le> k \<Longrightarrow> drop_bit n j \<le> drop_bit n k" for j k :: "'a::len word"
  unfolding word_le_nat_alt unat_drop_bit_eq by (simp add: drop_bit_eq_div div_le_mono)

lemma hash_loop_mono: "j \<le> k \<Longrightarrow> hash_loop j i \<le> hash_loop k i"
proof (induction k i arbitrary: j rule: hash_loop.induct)
  case (1 k i)
  have le: "i \<le> hash_loop k i" for k i
    by (induction k i rule: hash_loop.induct) (subst hash_loop.simps, auto)
  show ?case
  proof (cases "1 < j")
    case True
    with 1(2) have k: "1 < k" by simp
    have "drop_bit 1 j \<le> drop_bit 1 k"
      by (rule drop_bit_mono [OF 1(2)])
    with 1(1) k True show ?thesis by (subst hash_loop.simps, subst (2) hash_loop.simps) simp
  next
    case False
    then have "hash_loop j i = i" by (subst hash_loop.simps) simp
    with le show ?thesis by simp
  qed
qed

lemma calc_hash_index_mono: "j \<le> k \<Longrightarrow> calc_hash_index j \<le> calc_hash_index k"
proof -
  assume "j \<le> k"
  then have "drop_bit 5 j \<le> drop_bit 5 k"
    by (rule drop_bit_mono)
  from hash_loop_mono [OF this, of 0] show ?thesis by (simp add: calc_hash_index_def Let_def)
qed

lemma hash_scan_dseg:
  "dseg (\<lambda>b. nd_hash_next (h b)) pv a p xs l 0 \<Longrightarrow>
     hash_scan h p siz = Some (case dropWhile (\<lambda>b. nd_size (h b) < siz) xs of [] \<Rightarrow> 0 | b # _ \<Rightarrow> b)"
proof (induction xs arbitrary: a p)
  case Nil
  then show ?case by (subst hash_scan.simps) simp
next
  case (Cons x xs)
  then have "dseg (\<lambda>b. nd_hash_next (h b)) pv x (nd_hash_next (h x)) xs l 0" and p: "p = x" "x \<noteq> 0"
    by auto
  from Cons.IH [OF this(1)] p show ?case by (subst hash_scan.simps) simp
qed

lemma hash_scan_ok:
  assumes "hash_ok s M" and "j < MAX_HASH_ENTRY"
  shows "\<exists>b. hash_scan (nodes s) (free_table s j) siz = Some b \<and>
    (b \<noteq> 0 \<longrightarrow> b \<in> M \<and> size_class s b = j \<and> siz \<le> size_of s b) \<and>
    (b = 0 \<longrightarrow> (\<forall>c \<in> M. size_class s c = j \<longrightarrow> size_of s c < siz))"
proof -
  from assms obtain xs l where d: "dlist (hnx_of s) (hpv_of s) (free_table s j) l xs"
    and x: "set xs = {b \<in> M. size_class s b = j}" unfolding hash_ok_def by blast
  let ?P = "\<lambda>b. size_of s b < siz"
  have e: "hash_scan (nodes s) (free_table s j) siz =
      Some (case dropWhile ?P xs of [] \<Rightarrow> 0 | b # _ \<Rightarrow> b)"
    using d hash_scan_dseg unfolding dlist_def by blast
  show ?thesis
  proof (cases "dropWhile ?P xs")
    case Nil
    then have "\<forall>c \<in> set xs. ?P c" by (simp add: dropWhile_eq_Nil_conv)
    then show ?thesis using e Nil x by auto
  next
    case (Cons b bs)
    then have "\<not> ?P b" by (metis hd_dropWhile list.discI list.sel(1))
    moreover have "b \<in> set xs" using Cons by (metis list.set_intros(1) set_dropWhileD)
    moreover have "b \<noteq> 0" using dlist_nonzero [OF d] \<open>b \<in> set xs\<close> by auto
    ultimately show ?thesis using e Cons x by auto
  qed
qed

lemma table_scan_ok:
  assumes "hash_ok s M" and "\<forall>j \<in> set js. j < MAX_HASH_ENTRY"
  shows "\<exists>j b. table_scan (nodes s) (free_table s) siz js = Some (j, b) \<and>
    (b \<noteq> 0 \<longrightarrow> b \<in> M \<and> size_class s b = j \<and> siz \<le> size_of s b) \<and>
    (b = 0 \<longrightarrow> (\<forall>c \<in> M. size_class s c \<in> set js \<longrightarrow> size_of s c < siz))"
  using assms(2)
proof (induction js)
  case (Cons j js)
  from hash_scan_ok [OF assms(1), of j siz] Cons.prems obtain b where
    b: "hash_scan (nodes s) (free_table s j) siz = Some b"
    "b \<noteq> 0 \<longrightarrow> b \<in> M \<and> size_class s b = j \<and> siz \<le> size_of s b"
    "b = 0 \<longrightarrow> (\<forall>c \<in> M. size_class s c = j \<longrightarrow> size_of s c < siz)" by auto
  show ?case
  proof (cases "b = 0")
    case True
    from Cons.IH Cons.prems obtain j' c where
      "table_scan (nodes s) (free_table s) siz js = Some (j', c)"
      "c \<noteq> 0 \<longrightarrow> c \<in> M \<and> size_class s c = j' \<and> siz \<le> size_of s c"
      "c = 0 \<longrightarrow> (\<forall>d \<in> M. size_class s d \<in> set js \<longrightarrow> size_of s d < siz)" by auto
    with b True show ?thesis by auto
  next
    case False
    with b show ?thesis by simp
  qed
qed simp

text \<open>No list below the one of the requested size holds a block that is large enough.\<close>

lemma size_class_request:
  assumes "siz \<le> size_of s c" and "unat (size_of s c) + 24 < 2 ^ 32"
  shows "calc_hash_index (siz + SIZEOF_NODE) \<le> size_class s c"
proof -
  have "unat siz + 24 < 2 ^ 32" using assms by (simp add: word_le_nat_alt)
  then have "siz + 24 \<le> size_of s c + 24"
    using assms by (simp add: word_le_nat_alt unat_plus_if')
  then show ?thesis unfolding size_class_def by (rule calc_hash_index_mono)
qed

subsection \<open>Splitting keeps the lists\<close>

lemma split_hash_ok:
  assumes ok: "hash_ok s M" and b: "b \<noteq> b + m" "nxt_of s b \<noteq> b" "nxt_of s b \<noteq> b + m" "b \<notin> M"
    and c: "b + m \<noteq> 0" "b + m \<notin> M"
  shows "hash_ok (split_block b siz m rest s) (insert (b + m) M)"
proof -
  let ?s = "cut_block b siz (b + m) (rest - 24) s"
  note g = cut_block_fields [OF b(1-3), of siz "rest - 24"]
  have "hash_ok ?s M"
    by (rule hash_ok_cong [OF ok]) (use g b c in auto)
  moreover have "size_class ?s (b + m) = calc_hash_index rest"
    using b(1) by (simp add: size_class_def g(3))
  ultimately show ?thesis using HASH_APPEND_ok [of ?s M "b + m"] c
    by (simp add: split_block_cut)
qed

lemma split_fields:
  assumes b: "b \<noteq> b + m" "nxt_of s b \<noteq> b" "nxt_of s b \<noteq> b + m"
  shows "size_of (split_block b siz m rest s) x =
      (if x = b then siz else if x = b + m then rest - 24 else size_of s x)"
    and "is_free (split_block b siz m rest s) x = (x = b + m \<or> is_free s x)"
  using cut_block_fields [OF b, of siz "rest - 24"] by (simp_all add: split_block_cut)

lemma split_adj:
  "adj_ok s (xs @ b # ys) \<Longrightarrow> b + m \<noteq> 0 \<Longrightarrow> b + m \<notin> set (xs @ b # ys) \<Longrightarrow>
     adj_ok (split_block b siz m rest s) (xs @ b # (b + m) # ys)"
  using cut_block_adj [of s xs b ys "b + m"] by (simp add: split_block_cut)

subsection \<open>Allocation keeps the invariant\<close>

lemma heap_inv_other [simp]:
  "heap_inv (s\<lparr>irq_enabled := b\<rparr>) = heap_inv s" "heap_inv (s\<lparr>in_allocator := b\<rparr>) = heap_inv s"
  by (simp_all add: heap_inv_def adj_ok_def hash_ok_def size_class_def fun_eq_iff)

lemma sint_ge_unat: "32 \<le> sint r \<Longrightarrow> 32 \<le> unat r" for r :: u32
proof -
  assume r: "32 \<le> sint r"
  have "sint r < 2 ^ 31" using sint_lt [of r] by simp
  with r have "take_bit 32 (sint r) = sint r" by (simp add: take_bit_int_eq_self)
  moreover have "uint r = take_bit 32 (sint r)" by (simp add: uint_sint)
  ultimately show ?thesis using r by (simp add: unat_eq_nat_uint)
qed

lemma heap_inv_at:
  assumes "heap_inv s lo hi (xs @ b # ys)"
  shows "lo \<le> unat b" and "unat b + 24 + unat (size_of s b) \<le> hi" and "hi < 2 ^ 32"
    and "distinct (xs @ b # ys)" and "0 \<notin> set (xs @ b # ys)"
  using assms layout_bounds [of "size_of s" lo "xs @ b # ys" hi] adj_ok_facts(3,4) [of s xs b ys]
  unfolding heap_inv_def by auto

lemma cut_address:
  assumes inv: "heap_inv s lo hi (xs @ b # ys)" and le: "siz \<le> size_of s b" and rest: "32 \<le> unat (size_of s b - siz)"
  defines "c \<equiv> b + (siz + 24)"
  shows "unat c = unat b + 24 + unat siz" and "unat (size_of s b - siz - 24) = unat (size_of s b) - unat siz - 24"
    and "unat siz + 32 \<le> unat (size_of s b)"
    and "c \<noteq> b" and "c \<noteq> 0" and "c \<notin> set (xs @ b # ys)"
proof -
  note at = heap_inv_at [OF inv]
  have r: "unat (size_of s b - siz) = unat (size_of s b) - unat siz" using le by (simp add: unat_sub)
  with rest show 1: "unat siz + 32 \<le> unat (size_of s b)" by simp
  with at show 2: "unat c = unat b + 24 + unat siz" unfolding c_def
    by (simp add: unat_plus_if')
  have "24 \<le> size_of s b - siz" using rest by (simp add: word_le_nat_alt)
  with r show "unat (size_of s b - siz - 24) = unat (size_of s b) - unat siz - 24"
    by (simp add: unat_sub)
  from 2 show 3: "c \<noteq> b" by auto
  from 2 show "c \<noteq> 0" by auto
  have "layout (size_of s) lo (xs @ b # ys) hi" using inv by (simp add: heap_inv_def)
  from layout_disjoint [OF this, of c] 1 2 have "c \<notin> set xs \<union> set ys" by force
  with 3 show "c \<notin> set (xs @ b # ys)" by auto
qed

definition take_block :: "u32 \<Rightarrow> u32 \<Rightarrow> 'a kheap_scheme \<Rightarrow> 'a kheap_scheme" where
  "take_block b siz s = MAKE_OCCUPIED b (HASH_DELETE b (size_class s b) s)"

lemma take_block_inv:
  assumes inv: "heap_inv s lo hi bs" and b: "b \<in> set bs" "is_free s b"
  shows "heap_inv (take_block b siz s) lo hi bs"
proof -
  let ?s = "take_block b siz s" and ?F = "{c \<in> set bs. is_free s c}"
  have "hash_ok s ?F" using inv by (simp add: heap_inv_def)
  from HASH_DELETE_ok [OF this, of b] b have "hash_ok ?s (?F - {b})" by (simp add: take_block_def)
  moreover have "?F - {b} = {c \<in> set bs. is_free ?s c}" by (auto simp: take_block_def)
  moreover have "successively (\<lambda>x y. \<not> (is_free ?s x \<and> is_free ?s y)) bs"
    using inv unfolding heap_inv_def by (auto elim: successively_mono simp: take_block_def)
  ultimately show ?thesis using inv by (simp add: heap_inv_def take_block_def)
qed

lemma split_inv:
  assumes inv: "heap_inv s lo hi (xs @ b # ys)" and b: "\<not> is_free s b"
    and ys: "ys \<noteq> [] \<longrightarrow> \<not> is_free s (hd ys)"
    and le: "siz \<le> size_of s b" and rest: "32 \<le> unat (size_of s b - siz)"
  shows "heap_inv (split_block b siz (siz + 24) (size_of s b - siz) s) lo hi
    (xs @ b # (b + (siz + 24)) # ys)" (is "heap_inv ?s lo hi (xs @ b # ?c # ys)")
proof -
  note at = heap_inv_at [OF inv]
  note cut = cut_address [OF inv le rest]
  from inv have adj: "adj_ok s (xs @ b # ys)" and lay: "layout (size_of s) lo (xs @ b # ys) hi"
    and hash: "hash_ok s {c \<in> set (xs @ b # ys). is_free s c}"
    and suc: "successively (\<lambda>x y. \<not> (is_free s x \<and> is_free s y)) (xs @ b # ys)"
    by (simp_all add: heap_inv_def)
  have nx: "nxt_of s b \<in> insert 0 (set ys)" using adj_ok_facts(1) [OF adj] by auto
  have ne: "b \<noteq> ?c" "nxt_of s b \<noteq> b" "nxt_of s b \<noteq> ?c"
    using cut(4-6) nx at(4,5) by auto
  note f = split_fields [OF ne, where rest = "size_of s b - siz" and siz = siz]
  have sz: "size_of ?s x = size_of s x" if "x \<in> set xs \<union> set ys" for x
    using that at(4) cut(6) by (auto simp: f(1))
  have "layout (size_of ?s) lo (xs @ b # ?c # ys) hi"
  proof -
    from lay obtain m where 1: "layout (size_of s) lo xs m" and 2: "unat b = m"
      and 3: "layout (size_of s) (m + 24 + unat (size_of s b)) ys hi" by (auto simp: layout_append)
    have 4: "layout (size_of ?s) lo xs m" using 1 layout_cong [of xs "size_of ?s" "size_of s"] sz by simp
    have e: "unat ?c + 24 + unat (size_of ?s ?c) = m + 24 + unat (size_of s b)"
      using cut(1-3) 2 ne(1) by (simp add: f(1))
    have 5: "layout (size_of ?s) (unat ?c + 24 + unat (size_of ?s ?c)) ys hi"
      unfolding e using 3 layout_cong [of ys "size_of ?s" "size_of s"] sz by simp
    show ?thesis unfolding layout_append using 4 5 2 cut(1) by (intro exI [of _ m]) (simp add: f(1))
  qed
  moreover have "adj_ok ?s (xs @ b # ?c # ys)" by (rule split_adj [OF adj cut(5,6)])
  moreover have "hash_ok ?s (insert ?c {c \<in> set (xs @ b # ys). is_free s c})"
    by (rule split_hash_ok [OF hash ne]) (use b cut(5,6) in auto)
  moreover have "insert ?c {c \<in> set (xs @ b # ys). is_free s c} = {c \<in> set (xs @ b # ?c # ys). is_free ?s c}"
    by (auto simp: f(2))
  moreover have hd_c: "ys \<noteq> [] \<longrightarrow> hd ys \<noteq> ?c" using cut(6) hd_in_set [of ys] by force
  moreover have "successively (\<lambda>x y. \<not> (is_free ?s x \<and> is_free ?s y)) (xs @ b # ?c # ys)"
    using suc b ys cut(6) hd_c by (auto simp: successively_append_iff successively_Cons f(2)
        elim!: successively_mono)
  ultimately show ?thesis using inv by (simp add: heap_inv_def)
qed

subsection \<open>Release keeps the invariant\<close>

text \<open>The state while \<open>mm_free\<close> works: the block \<open>b\<close> is marked free and is in no free list yet.\<close>

definition hole_inv :: "'a kheap_scheme \<Rightarrow> nat \<Rightarrow> nat \<Rightarrow> u32 list \<Rightarrow> u32 \<Rightarrow> u32 list \<Rightarrow> bool" where
  "hole_inv s lo hi xs b ys \<longleftrightarrow> 0 < lo \<and> hi < 2 ^ 32 \<and> hi \<le> lo + 2 ^ 31 \<and>
     adj_ok s (xs @ b # ys) \<and> layout (size_of s) lo (xs @ b # ys) hi \<and>
     hash_ok s {c \<in> set xs \<union> set ys. is_free s c} \<and> is_free s b \<and>
     successively (\<lambda>x y. \<not> (is_free s x \<and> is_free s y)) xs \<and>
     successively (\<lambda>x y. \<not> (is_free s x \<and> is_free s y)) ys"

lemma hole_inv_other [simp]: "hole_inv (s\<lparr>irq_enabled := b\<rparr>) = hole_inv s"
  by (simp add: hole_inv_def adj_ok_def hash_ok_def size_class_def fun_eq_iff)

lemma hole_start:
  assumes "heap_inv s lo hi (xs @ b # ys)" and "\<not> is_free s b"
  shows "hole_inv (MAKE_FREE b s) lo hi xs b ys"
proof -
  have ne: "b \<notin> set xs" "b \<notin> set ys" using heap_inv_at(4) [OF assms(1)] by auto
  then have 1: "{c \<in> set xs \<union> set ys. is_free (MAKE_FREE b s) c} = {c \<in> set (xs @ b # ys). is_free s c}"
    using assms(2) by auto
  have 2: "successively (\<lambda>x y. \<not> (is_free s x \<and> is_free s y)) (xs @ b # ys)"
    using assms(1) by (simp add: heap_inv_def)
  have "successively (\<lambda>x y. \<not> (is_free (MAKE_FREE b s) x \<and> is_free (MAKE_FREE b s) y)) zs"
    if "successively (\<lambda>x y. \<not> (is_free s x \<and> is_free s y)) zs" "b \<notin> set zs" for zs
    by (rule successively_mono [OF that(1)]) (use that(2) in auto)
  moreover have "successively (\<lambda>x y. \<not> (is_free s x \<and> is_free s y)) xs"
    and "successively (\<lambda>x y. \<not> (is_free s x \<and> is_free s y)) ys"
    using 2 unfolding successively_append_iff successively_Cons by auto
  ultimately show ?thesis using ne assms(1) unfolding hole_inv_def heap_inv_def 1 by simp
qed

lemma hole_close:
  assumes h: "hole_inv s lo hi xs b ys"
    and xs: "xs \<noteq> [] \<longrightarrow> \<not> is_free s (last xs)" and ys: "ys \<noteq> [] \<longrightarrow> \<not> is_free s (hd ys)"
  shows "heap_inv (HASH_APPEND b (size_class s b) s) lo hi (xs @ b # ys)"
proof -
  from h have adj: "adj_ok s (xs @ b # ys)" by (simp add: hole_inv_def)
  note f = adj_ok_facts [OF adj]
  from h have "hash_ok (HASH_APPEND b (size_class s b) s) (insert b {c \<in> set xs \<union> set ys. is_free s c})"
    by (intro HASH_APPEND_ok) (use f(3,4) in \<open>auto simp: hole_inv_def\<close>)
  moreover have "insert b {c \<in> set xs \<union> set ys. is_free s c} = {c \<in> set (xs @ b # ys). is_free s c}"
    using h by (auto simp: hole_inv_def)
  ultimately show ?thesis using h xs ys
    by (auto simp: heap_inv_def hole_inv_def successively_append_iff successively_Cons)
qed

text \<open>Merging two neighbours, seen from the links and sizes.\<close>

definition join_block :: "u32 \<Rightarrow> u32 \<Rightarrow> 'a kheap_scheme \<Rightarrow> 'a kheap_scheme" where
  "join_block a b s =
     (let s = upd_node a (\<lambda>n. n\<lparr>nd_size := nd_size n + (nd_size (nodes s b) + SIZEOF_NODE)\<rparr>) s;
          s = upd_node a (\<lambda>n. n\<lparr>nd_next := nd_next (nodes s b)\<rparr>) s;
          nx = nd_next (nodes s a)
      in if nx \<noteq> 0 then upd_node nx (\<lambda>n. n\<lparr>nd_prev := a\<rparr>) s else s)"

lemma merge_join: "merge a b c s = join_block a b (HASH_DELETE c (size_class s c) s)"
  by (simp add: merge_def join_block_def size_class_def Let_def)

lemma join_block_fields:
  fixes a b :: u32
  assumes "a \<noteq> b" and "nxt_of s b \<noteq> a"
  defines "s' \<equiv> join_block a b s"
  shows "nxt_of s' x = (if x = a then nxt_of s b else nxt_of s x)"
    and "prv_of s' x = (if x = nxt_of s b \<and> nxt_of s b \<noteq> 0 then a else prv_of s x)"
    and "size_of s' x = (if x = a then size_of s a + (size_of s b + 24) else size_of s x)"
    and "hnx_of s' x = hnx_of s x" and "hpv_of s' x = hpv_of s x" and "is_free s' x = is_free s x"
    and "first_node s' = first_node s" and "free_table s' = free_table s"
  using assms(1,2) unfolding s'_def join_block_def upd_node_def Let_def by simp_all

lemma join_adj:
  assumes ok: "adj_ok s (xs @ a # b # ys)"
  shows "adj_ok (join_block a b s) (xs @ a # ys)"
proof -
  let ?s = "join_block a b s"
  have ok': "adj_ok s ((xs @ [a]) @ b # ys)" using ok by simp
  note f = adj_ok_facts [OF ok']
  have ne: "a \<noteq> b" "nxt_of s b \<noteq> a" using f(1,3,4) by (auto split: if_splits)
  note g = join_block_fields [OF ne]
  from ok' obtain l where d: "dlist (nxt_of s) (prv_of s) (first_node s) l ((xs @ [a]) @ b # ys)"
    unfolding adj_ok_def by blast
  have "dlist (nxt_of ?s) (prv_of ?s) (if xs @ [a] = [] then nxt_of s b else first_node s)
      (if ys = [] then prv_of s b else l) ((xs @ [a]) @ ys)"
  proof (rule dlist_remove [OF d])
    show "nxt_of ?s x = (if x = last (xs @ [a]) then nxt_of s b else nxt_of s x)" if "x \<in> set (xs @ [a])" for x
      unfolding g(1) by simp
    show "nxt_of ?s y = nxt_of s y" if "y \<in> set ys" for y
      unfolding g(1) using that f(3) by auto
    show "prv_of ?s x = prv_of s x" if "x \<in> set (xs @ [a])" for x
    proof -
      have "x \<notin> set ys" "x \<noteq> 0" using that f(3,4) by auto
      then have "\<not> (x = nxt_of s b \<and> nxt_of s b \<noteq> 0)" using f(1) hd_in_set [of ys] by auto
      then show ?thesis unfolding g(2) by auto
    qed
    show "prv_of ?s y = (if y = hd ys then prv_of s b else prv_of s y)" if "y \<in> set ys" for y
    proof -
      have "y \<noteq> 0" "ys \<noteq> []" using that f(4) by auto
      then show ?thesis unfolding g(2) f(1,2) using that by auto
    qed
  qed
  then show ?thesis unfolding adj_ok_def g(7) by auto
qed

lemma join_layout:
  assumes lay: "layout (size_of s) lo (xs @ a # b # ys) hi" and "hi < 2 ^ 32"
    and d: "distinct (xs @ a # b # ys)" and nx: "nxt_of s b \<noteq> a"
  shows "layout (size_of (join_block a b s)) lo (xs @ a # ys) hi"
proof -
  let ?s = "join_block a b s"
  have g: "size_of ?s x = (if x = a then size_of s a + (size_of s b + 24) else size_of s x)" for x
    using d nx by (intro join_block_fields(3)) auto
  from lay obtain m where 1: "layout (size_of s) lo xs m" and 2: "unat a = m"
    and 3: "unat b = m + 24 + unat (size_of s a)"
    and 4: "layout (size_of s) (unat b + 24 + unat (size_of s b)) ys hi"
    by (auto simp: layout_append)
  have sz: "size_of ?s x = size_of s x" if "x \<in> set xs \<union> set ys" for x
    using that d by (auto simp: g)
  have 5: "layout (size_of ?s) lo xs m" using 1 layout_cong [of xs "size_of ?s" "size_of s"] sz by simp
  have "unat (size_of s a) + (unat (size_of s b) + 24) < 2 ^ 32"
    using layout_bounds [OF 4] 3 assms(2) by linarith
  then have e: "unat (size_of ?s a) = unat (size_of s a) + (unat (size_of s b) + 24)"
    by (simp add: g unat_plus_if')
  have "layout (size_of ?s) (m + 24 + unat (size_of ?s a)) ys hi"
    using 4 3 layout_cong [of ys "size_of ?s" "size_of s"] sz by (simp add: e algebra_simps)
  with 5 2 show ?thesis unfolding layout_append by (intro exI [of _ m]) simp
qed

text \<open>One merge, whichever of the two neighbours leaves its free list.\<close>

lemma merge_step:
  assumes adj: "adj_ok s (xs @ a # b # ys)" and lay: "layout (size_of s) lo (xs @ a # b # ys) hi"
    and hi: "hi < 2 ^ 32" and hash: "hash_ok s M" and c: "c \<in> M" and rest: "a \<notin> M - {c}" "b \<notin> M - {c}"
  defines "s' \<equiv> merge a b c s"
  shows "adj_ok s' (xs @ a # ys)" and "layout (size_of s') lo (xs @ a # ys) hi"
    and "hash_ok s' (M - {c})" and "is_free s' y = is_free s y"
    and "size_of s' x = (if x = a then size_of s a + (size_of s b + 24) else size_of s x)"
proof -
  let ?d = "HASH_DELETE c (size_class s c) s"
  have s': "s' = join_block a b ?d" unfolding s'_def by (rule merge_join)
  have adj': "adj_ok s ((xs @ [a]) @ b # ys)" using adj by simp
  note f = adj_ok_facts [OF adj']
  have ne: "a \<noteq> b" "nxt_of ?d b \<noteq> a" using f(1,3,4) by (auto split: if_splits)
  note g = join_block_fields [OF ne]
  show "adj_ok s' (xs @ a # ys)" unfolding s' by (rule join_adj) (simp add: adj)
  show "layout (size_of s') lo (xs @ a # ys) hi" unfolding s'
    by (rule join_layout [OF _ hi]) (use lay f(3) ne(2) in simp_all)
  have "hash_ok ?d (M - {c})" by (rule HASH_DELETE_ok [OF hash c])
  then show "hash_ok s' (M - {c})" unfolding s'
    by (rule hash_ok_cong) (use rest(1) in \<open>auto simp: g\<close>)
  show "is_free s' y = is_free s y" unfolding s' by (simp add: g)
  show "size_of s' x = (if x = a then size_of s a + (size_of s b + 24) else size_of s x)"
    unfolding s' by (simp add: g(3))
qed

lemma merge_prev:
  assumes h: "hole_inv s lo hi (xs @ [a]) b ys" and a: "is_free s a"
  shows "hole_inv (merge a b a s) lo hi xs a ys" and "xs \<noteq> [] \<longrightarrow> \<not> is_free s (last xs)"
proof -
  let ?M = "{c \<in> set (xs @ [a]) \<union> set ys. is_free s c}" and ?s = "merge a b a s"
  from h have adj: "adj_ok s (xs @ a # b # ys)" and lay: "layout (size_of s) lo (xs @ a # b # ys) hi"
    and hi: "hi < 2 ^ 32" and hash: "hash_ok s ?M"
    and suc: "successively (\<lambda>x y. \<not> (is_free s x \<and> is_free s y)) (xs @ [a])"
    by (simp_all add: hole_inv_def)
  have d: "a \<notin> set xs" "a \<notin> set ys" "b \<notin> set xs" "b \<notin> set ys" "a \<noteq> b"
    using adj_ok_facts(3) [OF adj] by auto
  have "a \<in> ?M" "a \<notin> ?M - {a}" "b \<notin> ?M - {a}" using a d by auto
  note m = merge_step [OF adj lay hi hash this]
  have M: "?M - {a} = {c \<in> set xs \<union> set ys. is_free s c}" using d by auto
  from suc show "xs \<noteq> [] \<longrightarrow> \<not> is_free s (last xs)"
    using a by (auto simp: successively_append_iff)
  show "hole_inv ?s lo hi xs a ys"
    using m(1-3) h suc a unfolding hole_inv_def m(4) M by (auto simp: successively_append_iff)
qed

lemma merge_next:
  assumes h: "hole_inv s lo hi xs b (c # ys)" and c: "is_free s c"
  shows "hole_inv (merge b c c s) lo hi xs b ys" and "ys \<noteq> [] \<longrightarrow> \<not> is_free s (hd ys)"
proof -
  let ?M = "{x \<in> set xs \<union> set (c # ys). is_free s x}" and ?s = "merge b c c s"
  from h have adj: "adj_ok s (xs @ b # c # ys)" and lay: "layout (size_of s) lo (xs @ b # c # ys) hi"
    and hi: "hi < 2 ^ 32" and hash: "hash_ok s ?M"
    and suc: "successively (\<lambda>x y. \<not> (is_free s x \<and> is_free s y)) (c # ys)"
    by (simp_all add: hole_inv_def)
  have d: "c \<notin> set xs" "c \<notin> set ys" "b \<notin> set xs" "b \<notin> set ys" "b \<noteq> c"
    using adj_ok_facts(3) [OF adj] by auto
  have "c \<in> ?M" "b \<notin> ?M - {c}" "c \<notin> ?M - {c}" using c d by auto
  note m = merge_step [OF adj lay hi hash this]
  have M: "?M - {c} = {x \<in> set xs \<union> set ys. is_free s x}" using d by auto
  from suc show "ys \<noteq> [] \<longrightarrow> \<not> is_free s (hd ys)" using c by (auto simp: successively_Cons)
  show "hole_inv ?s lo hi xs b ys"
    using m(1-3) h suc unfolding hole_inv_def m(4) M by (auto simp: successively_Cons)
qed

text \<open>\<open>mm_free\<close> on an allocated block: the block list it leaves.\<close>

definition free_prev :: "u32 \<Rightarrow> 'a kheap_scheme \<Rightarrow> u32 \<times> 'a kheap_scheme" where
  "free_prev nod s =
     (let pr = nd_prev (nodes s nod)
      in if pr \<noteq> 0 \<and> IS_FREE_NODE (nodes s pr) then (pr, merge pr nod pr s) else (nod, s))"

definition free_next :: "u32 \<Rightarrow> 'a kheap_scheme \<Rightarrow> 'a kheap_scheme" where
  "free_next nod s =
     (let nx = nd_next (nodes s nod)
      in if nx \<noteq> 0 \<and> IS_FREE_NODE (nodes s nx) then merge nod nx nx s else s)"

lemma mm_free_steps:
  "mm_free (b + 24) s =
     (if b + 24 = 0 then (0, s)
      else if is_free s b then (0, s)
      else let (nod, s1) = free_prev b (MAKE_FREE b (s\<lparr>irq_enabled := False\<rparr>)); s2 = free_next nod s1
           in (size_of s b, ArLocalRestoreIrq (irq_enabled s) (HASH_APPEND nod (size_class s2 nod) s2)))"
  by (simp add: mm_free_def free_prev_def free_next_def ArLocalSaveIrq_def size_class_def Let_def
      split: prod.split)

lemma free_prev_hole:
  assumes "hole_inv s lo hi xs b ys" and "free_prev b s = (c, s')"
  shows "\<exists>xs'. hole_inv s' lo hi xs' c ys \<and> (xs' \<noteq> [] \<longrightarrow> \<not> is_free s' (last xs')) \<and>
    (\<forall>x. is_free s' x = is_free s x) \<and> (if xs \<noteq> [] \<and> is_free s (last xs) then xs = xs' @ [c] else xs' = xs \<and> c = b) \<and>
    (\<forall>x. x \<noteq> c \<longrightarrow> size_of s' x = size_of s x)"
proof (cases xs rule: rev_cases)
  case Nil
  with assms adj_ok_facts(2) [of s xs b ys] show ?thesis
    by (intro exI [of _ "[]"]) (auto simp: free_prev_def hole_inv_def)
next
  case (snoc zs a)
  from assms(1) have adj: "adj_ok s (xs @ b # ys)" by (simp add: hole_inv_def)
  have pr: "prv_of s b = a" "a \<noteq> 0" using adj_ok_facts(2,4) [OF adj] snoc by auto
  show ?thesis
  proof (cases "is_free s a")
    case True
    with assms(2) pr have e: "c = a" "s' = merge a b a s" by (auto simp: free_prev_def)
    from assms(1) have h: "hole_inv s lo hi (zs @ [a]) b ys" by (simp add: snoc)
    have f: "is_free s' x = is_free s x" "x \<noteq> a \<Longrightarrow> size_of s' x = size_of s x" for x
      using adj snoc h True merge_step(4,5) [of s zs a b ys lo hi "{c \<in> set (zs @ [a]) \<union> set ys. is_free s c}" a]
        adj_ok_facts(3) [OF adj]
      by (auto simp: hole_inv_def e)
    from merge_prev [OF h True] show ?thesis
      unfolding e using snoc True f [unfolded e] by (intro exI [of _ zs]) (auto simp: e)
  next
    case False
    with assms pr snoc show ?thesis by (intro exI [of _ xs]) (auto simp: free_prev_def)
  qed
qed

lemma free_next_hole:
  assumes "hole_inv s lo hi xs b ys"
  shows "\<exists>ys'. hole_inv (free_next b s) lo hi xs b ys' \<and> (ys' \<noteq> [] \<longrightarrow> \<not> is_free (free_next b s) (hd ys')) \<and>
    (\<forall>x. is_free (free_next b s) x = is_free s x) \<and>
    ys' = (if ys \<noteq> [] \<and> is_free s (hd ys) then tl ys else ys) \<and>
    (\<forall>x. x \<noteq> b \<longrightarrow> size_of (free_next b s) x = size_of s x)"
proof (cases ys)
  case Nil
  with assms adj_ok_facts(1) [of s xs b ys] show ?thesis by (auto simp: free_next_def hole_inv_def)
next
  case (Cons c zs)
  from assms have adj: "adj_ok s (xs @ b # ys)" by (simp add: hole_inv_def)
  have nx: "nxt_of s b = c" "c \<noteq> 0" using adj_ok_facts(1,4) [OF adj] Cons by auto
  show ?thesis
  proof (cases "is_free s c")
    case True
    with nx have e: "free_next b s = merge b c c s" by (simp add: free_next_def)
    from assms have h: "hole_inv s lo hi xs b (c # zs)" by (simp add: Cons)
    have f: "is_free (free_next b s) x = is_free s x" "x \<noteq> b \<Longrightarrow> size_of (free_next b s) x = size_of s x" for x
      using adj Cons h True merge_step(4,5) [of s xs b c zs lo hi "{x \<in> set xs \<union> set (c # zs). is_free s x}" c]
        adj_ok_facts(3) [OF adj]
      by (auto simp: hole_inv_def e)
    from merge_next [OF h True] show ?thesis using Cons True f by (simp add: e)
  next
    case False
    with assms nx Cons show ?thesis by (simp add: free_next_def)
  qed
qed

subsection \<open>What allocation and release do\<close>

definition heap_ok :: "'a kheap_scheme \<Rightarrow> bool" where
  "heap_ok s \<longleftrightarrow> (\<exists>lo hi bs. heap_inv s lo hi bs)"

text \<open>The user addresses of the blocks that are allocated.\<close>

definition live :: "'a kheap_scheme \<Rightarrow> u32 set" where
  "live s = {b + SIZEOF_NODE | b. \<exists>lo hi bs. heap_inv s lo hi bs \<and> b \<in> set bs \<and> \<not> is_free s b}"

lemma dseg_unique:
  "dseg nx pv a p xs l 0 \<Longrightarrow> dseg nx pv' a' p ys l' 0 \<Longrightarrow> xs = ys"
proof (induction xs arbitrary: a p ys a')
  case Nil
  then show ?case by (cases ys) auto
next
  case (Cons x xs)
  from Cons.prems obtain zs where ys: "ys = x # zs" by (cases ys) auto
  with Cons.prems have "dseg nx pv x (nx x) xs l 0" "dseg nx pv' x (nx x) zs l' 0" by auto
  with Cons.IH ys show ?case by blast
qed

lemma heap_inv_unique:
  assumes "heap_inv s lo hi bs" and "heap_inv s lo' hi' bs'"
  shows "bs' = bs"
proof -
  from assms obtain l l' where "dseg (nxt_of s) (prv_of s) 0 (first_node s) bs' l 0"
    "dseg (nxt_of s) (prv_of s) 0 (first_node s) bs l' 0"
    unfolding heap_inv_def adj_ok_def dlist_def by blast
  then show ?thesis by (rule dseg_unique)
qed

lemma live_eq: "heap_inv s lo hi bs \<Longrightarrow> live s = {b + 24 | b. b \<in> set bs \<and> \<not> is_free s b}"
  unfolding live_def using heap_inv_unique by blast

lemma live_other [simp]:
  "live (s\<lparr>irq_enabled := b\<rparr>) = live s" "live (s\<lparr>in_allocator := b\<rparr>) = live s"
  by (simp_all add: live_def)

text \<open>\<open>alloc_step\<close>: what a successful \<open>mm_alloc\<close> does with the block it found.\<close>

definition alloc_step :: "u32 \<Rightarrow> u32 \<Rightarrow> 'a kheap_scheme \<Rightarrow> 'a kheap_scheme" where
  "alloc_step b siz s =
     (let rest = size_of s b - siz; s' = take_block b siz s
      in if 32 \<le> sint rest then split_block b siz (siz + 24) rest s' else s')"

lemma size_class_other [simp]:
  "size_class (s\<lparr>irq_enabled := b\<rparr>) c = size_class s c" "size_class (s\<lparr>in_allocator := b\<rparr>) c = size_class s c"
  by (simp_all add: size_class_def)

lemma mm_alloc_found:
  assumes "siz \<noteq> 0"
    and "table_scan (nodes s) (free_table s) siz [calc_hash_index (siz + 24)..<MAX_HASH_ENTRY] =
      Some (size_class s b, b)" and "b \<noteq> 0"
  shows "mm_alloc siz s = Some (b + 24, (alloc_step b siz (s\<lparr>irq_enabled := False, in_allocator := True\<rparr>))
    \<lparr>in_allocator := False, irq_enabled := irq_enabled s\<rparr>)"
  using assms
  by (simp add: mm_alloc_def ArLocalSaveIrq_def ArLocalRestoreIrq_def Let_def alloc_step_def take_block_def
      del: upt_Suc)

lemma alloc_step_inv:
  assumes inv: "heap_inv s lo hi (xs @ b # ys)" and b: "is_free s b" and siz: "siz \<le> size_of s b"
  shows "\<exists>zs. heap_inv (alloc_step b siz s) lo hi (xs @ b # zs @ ys) \<and>
    \<not> is_free (alloc_step b siz s) b \<and> siz \<le> size_of (alloc_step b siz s) b \<and>
    (\<forall>c \<in> set zs. is_free (alloc_step b siz s) c \<and> c \<notin> set (xs @ b # ys)) \<and>
    (\<forall>c \<in> set (xs @ ys). is_free (alloc_step b siz s) c = is_free s c \<and>
       size_of (alloc_step b siz s) c = size_of s c)"
proof -
  let ?t = "take_block b siz s" and ?r = "size_of s b - siz"
  have inv1: "heap_inv ?t lo hi (xs @ b # ys)" by (rule take_block_inv [OF inv]) (use b in auto)
  have t: "size_of ?t c = size_of s c" "is_free ?t c = (c \<noteq> b \<and> is_free s c)" for c
    by (simp_all add: take_block_def)
  have dist: "b \<notin> set xs" "b \<notin> set ys" using heap_inv_at(4) [OF inv] by auto
  show ?thesis
  proof (cases "32 \<le> sint ?r")
    case False
    then have e: "alloc_step b siz s = ?t" by (simp add: alloc_step_def Let_def)
    show ?thesis unfolding e using inv1 dist siz by (intro exI [of _ "[]"]) (auto simp: t)
  next
    case True
    then have e: "alloc_step b siz s = split_block b siz (siz + 24) (size_of ?t b - siz) ?t"
      by (simp add: alloc_step_def Let_def t)
    have rest: "32 \<le> unat (size_of ?t b - siz)" and le: "siz \<le> size_of ?t b"
      using sint_ge_unat [OF True] siz by (simp_all add: t)
    note cut = cut_address [OF inv1 le rest]
    have "successively (\<lambda>x y. \<not> (is_free s x \<and> is_free s y)) (xs @ b # ys)"
      using inv by (simp add: heap_inv_def)
    then have ys: "ys \<noteq> [] \<longrightarrow> \<not> is_free ?t (hd ys)"
      using b by (auto simp: t successively_append_iff successively_Cons)
    have "\<not> is_free ?t b" by (simp add: t)
    from split_inv [OF inv1 this ys le rest]
    have inv2: "heap_inv (alloc_step b siz s) lo hi (xs @ b # [b + (siz + 24)] @ ys)" by (simp add: e)
    have "adj_ok ?t (xs @ b # ys)" using inv1 by (simp add: heap_inv_def)
    from adj_ok_facts(1,4) [OF this] have "nxt_of ?t b \<in> insert 0 (set ys)" "b \<noteq> 0" by auto
    then have ne: "b \<noteq> b + (siz + 24)" "nxt_of ?t b \<noteq> b" "nxt_of ?t b \<noteq> b + (siz + 24)"
      using cut(4-6) dist by auto
    note f = split_fields [OF ne, where rest = "size_of ?t b - siz" and siz = siz, folded e]
    show ?thesis using inv2 cut(6) dist ne(1)
      by (intro exI [of _ "[b + (siz + 24)]"]) (auto simp: f t)
  qed
qed

text \<open>\<open>mm_alloc\<close> always returns; it fails only when no free block is large enough.\<close>

lemma mm_alloc_cases:
  assumes inv: "heap_inv s lo hi bs"
  obtains (zero) "siz = 0" "mm_alloc siz s = Some (0, s)"
    | (full) "siz \<noteq> 0" "\<forall>b \<in> set bs. is_free s b \<longrightarrow> size_of s b < siz"
        "mm_alloc siz s = Some (0, s\<lparr>in_allocator := False\<rparr>)"
    | (got) xs b ys where "siz \<noteq> 0" "bs = xs @ b # ys" "is_free s b" "siz \<le> size_of s b"
        "mm_alloc siz s = Some (b + 24,
           (alloc_step b siz (s\<lparr>irq_enabled := False, in_allocator := True\<rparr>))
             \<lparr>in_allocator := False, irq_enabled := irq_enabled s\<rparr>)"
proof (cases "siz = 0")
  case True
  then show ?thesis by (intro zero) (simp_all add: mm_alloc_def)
next
  case False
  let ?F = "{c \<in> set bs. is_free s c}" and ?js = "[calc_hash_index (siz + 24)..<MAX_HASH_ENTRY]"
  have hash: "hash_ok s ?F" using inv by (simp add: heap_inv_def)
  obtain j b where sc: "table_scan (nodes s) (free_table s) siz ?js = Some (j, b)"
    and b1: "b \<noteq> 0 \<longrightarrow> b \<in> ?F \<and> size_class s b = j \<and> siz \<le> size_of s b"
    and b0: "b = 0 \<longrightarrow> (\<forall>c \<in> ?F. size_class s c \<in> set ?js \<longrightarrow> size_of s c < siz)"
    using table_scan_ok [OF hash, of ?js siz] by (auto simp del: upt_Suc)
  show ?thesis
  proof (cases "b = 0")
    case True
    have "\<forall>c \<in> set bs. is_free s c \<longrightarrow> size_of s c < siz"
    proof (intro ballI impI)
      fix c assume c: "c \<in> set bs" "is_free s c"
      show "size_of s c < siz"
      proof (rule ccontr)
        assume "\<not> size_of s c < siz"
        then have le: "siz \<le> size_of s c" by simp
        from c obtain us vs where "bs = us @ c # vs" by (auto simp: in_set_conv_decomp)
        with inv heap_inv_at [of s lo hi us c vs] have "unat (size_of s c) + 24 < 2 ^ 32" by simp
        from size_class_request [OF le this] have "size_class s c \<in> set ?js" by (simp del: upt_Suc)
        with b0 True c have "size_of s c < siz" by blast
        with le show False by simp
      qed
    qed
    moreover have "mm_alloc siz s = Some (0, s\<lparr>in_allocator := False\<rparr>)"
      using sc True False by (simp add: mm_alloc_def ArLocalSaveIrq_def ArLocalRestoreIrq_def Let_def del: upt_Suc)
    ultimately show ?thesis using full False by blast
  next
    case b: False
    with b1 obtain us vs where "bs = us @ b # vs" by (auto simp: in_set_conv_decomp)
    moreover have "mm_alloc siz s = Some (b + 24,
        (alloc_step b siz (s\<lparr>irq_enabled := False, in_allocator := True\<rparr>))
          \<lparr>in_allocator := False, irq_enabled := irq_enabled s\<rparr>)"
      by (rule mm_alloc_found [OF False _ b]) (use sc b1 b in auto)
    ultimately show ?thesis using got False b b1 by blast
  qed
qed

lemma mm_alloc_inv:
  assumes inv: "heap_inv s lo hi bs" and r: "mm_alloc siz s = Some (p, s')" and p: "p \<noteq> 0"
  shows "\<exists>xs zs ys b. bs = xs @ b # ys \<and> heap_inv s' lo hi (xs @ b # zs @ ys) \<and> p = b + 24 \<and>
    is_free s b \<and> \<not> is_free s' b \<and> siz \<le> size_of s' b \<and>
    (\<forall>c \<in> set zs. is_free s' c \<and> c \<notin> set bs) \<and>
    (\<forall>c \<in> set (xs @ ys). is_free s' c = is_free s c \<and> size_of s' c = size_of s c)"
  using inv
proof (cases rule: mm_alloc_cases [where siz = siz])
  case (got xs b ys)
  let ?t = "s\<lparr>irq_enabled := False, in_allocator := True\<rparr>"
  have "heap_inv ?t lo hi (xs @ b # ys)" "is_free ?t b" "siz \<le> size_of ?t b"
    using inv got by simp_all
  from alloc_step_inv [OF this] obtain zs where
    "heap_inv (alloc_step b siz ?t) lo hi (xs @ b # zs @ ys)" "\<not> is_free (alloc_step b siz ?t) b"
    "siz \<le> size_of (alloc_step b siz ?t) b"
    "\<forall>c \<in> set zs. is_free (alloc_step b siz ?t) c \<and> c \<notin> set (xs @ b # ys)"
    "\<forall>c \<in> set (xs @ ys). is_free (alloc_step b siz ?t) c = is_free s c \<and>
       size_of (alloc_step b siz ?t) c = size_of s c" by auto
  moreover from got r have "p = b + 24" "s' = (alloc_step b siz ?t)\<lparr>in_allocator := False, irq_enabled := irq_enabled s\<rparr>"
    by simp_all
  ultimately show ?thesis using got(2,3)
    by (intro exI [of _ xs] exI [of _ zs] exI [of _ ys] exI [of _ b]) simp
qed (use r p in auto)

lemma heap_inv_addr:
  assumes "heap_inv s lo hi bs" and "b \<in> set bs"
  shows "unat (b + 24) = unat b + 24" and "b + 24 \<noteq> 0"
proof -
  from assms(2) obtain xs ys where "bs = xs @ b # ys" by (auto simp: in_set_conv_decomp)
  with assms heap_inv_at [of s lo hi xs b ys] show "unat (b + 24) = unat b + 24"
    by (simp add: unat_plus_if')
  then show "b + 24 \<noteq> 0" by auto
qed

lemma mm_alloc_fail:
  assumes inv: "heap_inv s lo hi bs" and r: "mm_alloc siz s = Some (0, s')"
  shows "heap_inv s' lo hi bs \<and> live s' = live s \<and> nodes s' = nodes s"
  using inv
proof (cases rule: mm_alloc_cases [where siz = siz])
  case (got xs b ys)
  with r heap_inv_addr(2) [OF inv, of b] show ?thesis by simp
qed (use inv r in auto)

lemma mm_alloc_live:
  assumes inv: "heap_inv s lo hi bs" and r: "mm_alloc siz s = Some (p, s')" and p: "p \<noteq> 0"
  shows "p \<notin> live s" and "live s' = insert p (live s)"
proof -
  from mm_alloc_inv [OF inv r p] obtain xs zs ys b where bs: "bs = xs @ b # ys"
    and inv': "heap_inv s' lo hi (xs @ b # zs @ ys)" and pb: "p = b + 24"
    and b: "is_free s b" "\<not> is_free s' b" and zs: "\<forall>c \<in> set zs. is_free s' c"
    and oth: "\<forall>c \<in> set (xs @ ys). is_free s' c = is_free s c" by blast
  show "p \<notin> live s" unfolding live_eq [OF inv] pb using b by auto
  show "live s' = insert p (live s)" unfolding live_eq [OF inv] live_eq [OF inv'] bs pb
    using b zs oth by auto
qed

text \<open>Releasing a live block.\<close>

lemma layout_next: "layout f a (xs @ b # ys) e \<Longrightarrow> unat b + 24 + unat (f b) = (if ys = [] then e else unat (hd ys))"
  by (cases ys) (auto simp: layout_append)

text \<open>The blocks that remain: the released block \<open>b\<close> joins a free block before it and a free block behind it.\<close>

definition blocks_before :: "'a kheap_scheme \<Rightarrow> u32 list \<Rightarrow> u32 \<Rightarrow> u32 list \<times> u32" where
  "blocks_before s xs b = (if xs \<noteq> [] \<and> is_free s (last xs) then (butlast xs, last xs) else (xs, b))"

definition blocks_behind :: "'a kheap_scheme \<Rightarrow> u32 list \<Rightarrow> u32 list" where
  "blocks_behind s ys = (if ys \<noteq> [] \<and> is_free s (hd ys) then tl ys else ys)"

lemma mm_free_blocks:
  assumes inv: "heap_inv s lo hi (xs @ b # ys)" and b: "\<not> is_free s b" and c: "blocks_before s xs b = (xs', c)"
  shows "fst (mm_free (b + 24) s) = size_of s b \<and> heap_inv (snd (mm_free (b + 24) s)) lo hi (xs' @ c # blocks_behind s ys) \<and>
    (\<forall>x. is_free (snd (mm_free (b + 24) s)) x = (x = b \<or> is_free s x)) \<and>
    (\<forall>x. x \<noteq> c \<longrightarrow> size_of (snd (mm_free (b + 24) s)) x = size_of s x)"
proof -
  let ?t = "MAKE_FREE b (s\<lparr>irq_enabled := False\<rparr>)"
  have d: "b \<notin> set xs" "b \<notin> set ys" using heap_inv_at(4) [OF inv] by auto
  have h0: "hole_inv ?t lo hi xs b ys" by (rule hole_start) (use inv b in auto)
  obtain c' s1 where fp: "free_prev b ?t = (c', s1)" by fastforce
  from free_prev_hole [OF h0 fp] obtain zs where h1: "hole_inv s1 lo hi zs c' ys"
    and x1: "zs \<noteq> [] \<longrightarrow> \<not> is_free s1 (last zs)" and f1: "\<forall>x. is_free s1 x = is_free ?t x"
    and x2: "if xs \<noteq> [] \<and> is_free ?t (last xs) then xs = zs @ [c'] else zs = xs \<and> c' = b"
    and z1: "\<forall>x. x \<noteq> c' \<longrightarrow> size_of s1 x = size_of ?t x" by blast
  have "is_free ?t x = is_free s x" if "x \<noteq> b" for x using that by simp
  then have "xs \<noteq> [] \<Longrightarrow> is_free ?t (last xs) = is_free s (last xs)" using d(1) last_in_set by metis
  with x2 c have e: "zs = xs'" "c' = c" by (auto simp: blocks_before_def split: if_splits)
  let ?s2 = "free_next c s1"
  from free_next_hole [OF h1 [unfolded e]] obtain ys' where h2: "hole_inv ?s2 lo hi xs' c ys'"
    and y1: "ys' \<noteq> [] \<longrightarrow> \<not> is_free ?s2 (hd ys')" and f2: "\<forall>x. is_free ?s2 x = is_free s1 x"
    and y2: "ys' = (if ys \<noteq> [] \<and> is_free s1 (hd ys) then tl ys else ys)"
    and z2: "\<forall>x. x \<noteq> c \<longrightarrow> size_of ?s2 x = size_of s1 x" by blast
  have y: "ys' = blocks_behind s ys" using y2 f1 d(2) by (cases ys) (auto simp: blocks_behind_def)
  let ?s3 = "HASH_APPEND c (size_class ?s2 c) ?s2"
  let ?u = "ArLocalRestoreIrq (irq_enabled s) ?s3"
  have "xs' \<noteq> [] \<longrightarrow> \<not> is_free ?s2 (last xs')" using x1 f2 e by auto
  from hole_close [OF h2 this y1] have "heap_inv ?s3 lo hi (xs' @ c # ys')" .
  then have "heap_inv ?u lo hi (xs' @ c # ys')" by (simp add: ArLocalRestoreIrq_def)
  moreover have "mm_free (b + 24) s = (size_of s b, ?u)"
    using fp e heap_inv_addr(2) [OF inv, of b] b by (simp add: mm_free_steps Let_def)
  moreover have "is_free ?u x = (x = b \<or> is_free s x)" for x using f1 f2 by (simp add: ArLocalRestoreIrq_def)
  moreover have "size_of ?u x = size_of s x" if "x \<noteq> c" for x
    using that z1 z2 e by (auto simp: ArLocalRestoreIrq_def)
  ultimately show ?thesis by (simp add: y)
qed

text \<open>The size of the joined block, from the addresses of its neighbours.\<close>

lemma mm_free_size:
  assumes inv: "heap_inv s lo hi (xs @ b # ys)" and b: "\<not> is_free s b" and c: "blocks_before s xs b = (xs', c)"
  shows "unat (size_of (snd (mm_free (b + 24) s)) c) = unat (size_of s b) +
    (if c = b then 0 else unat (size_of s c) + 24) + (if blocks_behind s ys = ys then 0 else unat (size_of s (hd ys)) + 24)"
proof -
  let ?u = "snd (mm_free (b + 24) s)" let ?ys = "blocks_behind s ys"
  note f = mm_free_blocks [OF inv b c]
  have l: "layout (size_of s) lo (xs @ b # ys) hi" and l': "layout (size_of ?u) lo (xs' @ c # ?ys) hi"
    using inv f by (simp_all add: heap_inv_def)
  have "b \<notin> set xs" using heap_inv_at(4) [OF inv] by simp
  then have c': "if c = b then True else \<exists>zs. xs = zs @ [c]"
    using c by (auto simp: blocks_before_def intro!: exI [of _ "butlast xs"] split: if_splits)
  have 1: "unat c + (if c = b then 0 else 24 + unat (size_of s c)) = unat b"
  proof (cases "c = b")
    case False
    then obtain zs where "xs = zs @ [c]" using c' by auto
    with layout_next [of "size_of s" lo zs c "b # ys" hi] l False show ?thesis by simp
  qed simp
  have 2: "unat b + 24 + unat (size_of s b) = (if ys = [] then hi else unat (hd ys))" by (rule layout_next [OF l])
  have 3: "unat c + 24 + unat (size_of ?u c) = (if ?ys = [] then hi else unat (hd ?ys))" by (rule layout_next [OF l'])
  show ?thesis
  proof (cases "?ys = ys")
    case True
    with 1 2 3 show ?thesis by (auto split: if_splits)
  next
    case False
    then obtain y zs where y: "ys = y # zs" "?ys = zs" by (cases ys) (auto simp: blocks_behind_def split: if_splits)
    from layout_next [of "size_of s" lo "xs @ [b]" y zs hi] l y
    have "unat y + 24 + unat (size_of s y) = (if zs = [] then hi else unat (hd zs))" by simp
    with 1 2 3 y show ?thesis by (auto split: if_splits)
  qed
qed

lemma mm_free_inv:
  assumes inv: "heap_inv s lo hi bs" and p: "p \<in> live s"
  shows "\<exists>bs' b. p = b + 24 \<and> fst (mm_free p s) = size_of s b \<and> heap_inv (snd (mm_free p s)) lo hi bs' \<and>
    set bs' \<subseteq> set bs \<and> live (snd (mm_free p s)) = live s - {p} \<and>
    (\<forall>c. c \<in> set bs \<and> \<not> is_free s c \<and> c \<noteq> b \<longrightarrow> size_of (snd (mm_free p s)) c = size_of s c)"
proof -
  from p obtain b where b: "b \<in> set bs" "\<not> is_free s b" "p = b + 24" unfolding live_eq [OF inv] by auto
  then obtain xs ys where bs: "bs = xs @ b # ys" by (auto simp: in_set_conv_decomp)
  obtain xs' c where c: "blocks_before s xs b = (xs', c)" by fastforce
  let ?u = "snd (mm_free p s)" and ?bs = "xs' @ c # blocks_behind s ys"
  have f: "fst (mm_free p s) = size_of s b" "heap_inv ?u lo hi ?bs" "\<And>x. is_free ?u x = (x = b \<or> is_free s x)"
    "\<And>x. x \<noteq> c \<Longrightarrow> size_of ?u x = size_of s x"
    using mm_free_blocks [OF inv [unfolded bs] b(2) c] unfolding b(3) by blast+
  have cf: "c = b \<or> is_free s c" using c by (auto simp: blocks_before_def split: if_splits)
  have x: "insert b (insert c (set xs')) = insert b (set xs)"
    using c by (cases xs rule: rev_cases) (auto simp: blocks_before_def split: if_splits)
  have y: "set (blocks_behind s ys) \<subseteq> set ys" "{x \<in> set (blocks_behind s ys). \<not> is_free s x} = {x \<in> set ys. \<not> is_free s x}"
    by (cases ys; auto simp: blocks_behind_def)+
  have sub: "set ?bs \<subseteq> set bs" using x y by (auto simp: bs)
  have occ: "{x \<in> set ?bs. x \<noteq> b \<and> \<not> is_free s x} = {x \<in> set bs. x \<noteq> b \<and> \<not> is_free s x}"
    using x y cf by (auto simp: bs)
  have "live ?u = live s - {p}"
  proof -
    have "{x \<in> set ?bs. \<not> is_free ?u x} = {x \<in> set bs. x \<noteq> b \<and> \<not> is_free s x}"
      unfolding occ [symmetric] by (simp only: f(3) de_Morgan_disj)
    then have "live ?u = (\<lambda>x. x + 24) ` {x \<in> set bs. x \<noteq> b \<and> \<not> is_free s x}"
      unfolding live_eq [OF f(2)] by (simp only: setcompr_eq_image)
    also have "\<dots> = live s - {p}" unfolding live_eq [OF inv] b(3) by auto
    finally show ?thesis .
  qed
  moreover have "\<forall>x. x \<in> set bs \<and> \<not> is_free s x \<and> x \<noteq> b \<longrightarrow> size_of ?u x = size_of s x" using f(4) cf by metis
  ultimately show ?thesis using f(1,2) sub b(3) by blast
qed

lemma calc_hash_index_large: "2 ^ 19 \<le> k \<Longrightarrow> calc_hash_index k = 14" 
proof -
  assume "2 ^ 19 \<le> k"
  then have "calc_hash_index (2 ^ 19) \<le> calc_hash_index k" by (rule calc_hash_index_mono)
  moreover have "calc_hash_index (2 ^ 19) = 14"
    by (simp add: calc_hash_index_def hash_loop.simps drop_bit_eq_div)
  moreover have "calc_hash_index k < 15" by simp
  ultimately show ?thesis by linarith
qed

lemma mm_init_block_inv:
  assumes "addr \<noteq> 0" and "unat addr + unat siz < 2 ^ 32" and "2 ^ 19 \<le> siz" and "siz \<le> 2 ^ 31"
  shows "heap_inv (mm_init_block addr siz s) (unat addr) (unat addr + unat siz) [addr]"
    and "live (mm_init_block addr siz s) = {}"
    and "size_of (mm_init_block addr siz s) addr = siz - 24"
    and "is_free (mm_init_block addr siz s) addr"
proof -
  let ?s = "mm_init_block addr siz s"
  have f: "nxt_of ?s addr = 0" "prv_of ?s addr = 0" "hnx_of ?s addr = 0" "hpv_of ?s addr = 0"
    "size_of ?s addr = siz - 24" "first_node ?s = addr"
    "free_table ?s = (\<lambda>_. 0)(14 := addr)"
    by (simp_all add: mm_init_block_def HASH_APPEND_def MAKE_FREE_def upd_node_def Let_def)
  have fr: "is_free ?s addr" by (simp add: mm_init_block_def Let_def)
  have sc: "size_class ?s addr = 14"
    using assms(3) by (simp add: size_class_def f calc_hash_index_large)
  have siz: "unat (siz - 24) + 24 = unat siz"
  proof -
    have "2 ^ 19 \<le> unat siz" using assms(3) by (simp add: word_le_nat_alt)
    then show ?thesis by (simp add: unat_sub word_le_nat_alt)
  qed
  have "adj_ok ?s [addr]" unfolding adj_ok_def f(6)
    using f assms(1) by (intro exI [of _ addr]) (simp add: dlist_def)
  moreover have "hash_ok ?s {addr}" unfolding hash_ok_def
  proof (intro allI impI)
    fix j :: nat assume "j < 15"
    show "\<exists>xs l. dlist (hnx_of ?s) (hpv_of ?s) (free_table ?s j) l xs \<and>
        set xs = {b \<in> {addr}. size_class ?s b = j}"
    proof (cases "j = 14")
      case True
      then show ?thesis using f assms(1) sc
        by (intro exI [of _ "[addr]"] exI [of _ addr]) (auto simp: dlist_def)
    next
      case False
      then show ?thesis using sc f(7) by (intro exI [of _ "[]"] exI [of _ 0]) auto
    qed
  qed
  moreover have "{b \<in> set [addr]. is_free ?s b} = {addr}" using fr by auto
  moreover have le: "unat siz \<le> 2 ^ 31"
    using assms(4) by (cases "siz = 2 ^ 31") (auto dest: unat_mono simp: order_le_less)
  moreover have "0 < unat addr" using assms(1) by (simp add: unat_gt_0)
  ultimately show inv: "heap_inv ?s (unat addr) (unat addr + unat siz) [addr]"
    unfolding heap_inv_def f(5) f(7) using assms(2) f(5) siz le by simp
  show "live ?s = {}" unfolding live_eq [OF inv] using fr by auto
  show "size_of ?s addr = siz - 24" by (fact f(5))
  show "is_free ?s addr" by (fact fr)
qed

section \<open>Interface of a heap\<close>

text \<open>
  What a client of the allocator relies on: the request returns, a block it gets is not one of those
  in use, and only release takes a block out of use.
\<close>

locale block_heap =
  fixes alloc :: "u32 \<Rightarrow> 's \<Rightarrow> (u32 \<times> 's) option" and release :: "u32 \<Rightarrow> 's \<Rightarrow> 's"
    and used :: "'s \<Rightarrow> u32 set" and ok :: "'s \<Rightarrow> bool"
  assumes alloc_returns: "ok s \<Longrightarrow> \<exists>p s'. alloc n s = Some (p, s')"
    and alloc_ok: "ok s \<Longrightarrow> alloc n s = Some (p, s') \<Longrightarrow> ok s'"
    and alloc_fail: "ok s \<Longrightarrow> alloc n s = Some (0, s') \<Longrightarrow> used s' = used s"
    and alloc_fresh: "ok s \<Longrightarrow> alloc n s = Some (p, s') \<Longrightarrow> p \<noteq> 0 \<Longrightarrow> p \<notin> used s \<and> used s' = insert p (used s)"
    and used_nonzero: "ok s \<Longrightarrow> 0 \<notin> used s"
    and release_ok: "ok s \<Longrightarrow> p \<in> used s \<Longrightarrow> ok (release p s)"
    and release_used: "ok s \<Longrightarrow> p \<in> used s \<Longrightarrow> used (release p s) = used s - {p}"
begin

primrec alloc_list :: "u32 list \<Rightarrow> 's \<Rightarrow> (u32 list \<times> 's) option" where
  "alloc_list [] s = Some ([], s)"
| "alloc_list (n # ns) s =
     do { (p, s') \<leftarrow> alloc n s; (ps, s'') \<leftarrow> alloc_list ns s'; Some (p # ps, s'') }"

lemma alloc_list_spec:
  "ok s \<Longrightarrow> \<exists>ps s'. alloc_list ns s = Some (ps, s') \<and> ok s' \<and>
     used s' = used s \<union> {p \<in> set ps. p \<noteq> 0} \<and> used s \<inter> {p \<in> set ps. p \<noteq> 0} = {} \<and>
     distinct (filter (\<lambda>p. p \<noteq> 0) ps) \<and> length ps = length ns"
proof (induction ns arbitrary: s)
  case (Cons n ns)
  obtain p s1 where a: "alloc n s = Some (p, s1)" using alloc_returns [OF Cons.prems] by blast
  have ok1: "ok s1" by (rule alloc_ok [OF Cons.prems a])
  have u1: "used s1 = (if p = 0 then used s else insert p (used s))" "p \<noteq> 0 \<longrightarrow> p \<notin> used s"
    using alloc_fail [OF Cons.prems, of n s1] alloc_fresh [OF Cons.prems a] a by auto
  from Cons.IH [OF ok1] obtain ps s2 where IH: "alloc_list ns s1 = Some (ps, s2)" "ok s2"
    "used s2 = used s1 \<union> {p \<in> set ps. p \<noteq> 0}" "used s1 \<inter> {p \<in> set ps. p \<noteq> 0} = {}"
    "distinct (filter (\<lambda>p. p \<noteq> 0) ps)" "length ps = length ns" by blast
  have "alloc_list (n # ns) s = Some (p # ps, s2)" using a IH(1) by simp
  moreover have "used s2 = used s \<union> {q \<in> set (p # ps). q \<noteq> 0}" using u1 IH(3) by auto
  moreover have "used s \<inter> {q \<in> set (p # ps). q \<noteq> 0} = {}" using u1 IH(4) by (auto split: if_splits)
  moreover have "distinct (filter (\<lambda>p. p \<noteq> 0) (p # ps))" using u1 IH(4,5) by (auto split: if_splits)
  ultimately show ?case using IH(2,6) by auto
qed simp

lemma release_alloc_reuse:
  assumes "ok s" and "alloc n s = Some (p, s')" and "p \<noteq> 0"
  shows "ok (release p s') \<and> used (release p s') = used s"
  using assms alloc_fresh [OF assms] alloc_ok [OF assms(1,2)] release_ok [of s' p] release_used [of s' p] by auto

end

lemma heap_ok_other [simp]:
  "heap_ok (s\<lparr>irq_enabled := b\<rparr>) = heap_ok s" "heap_ok (s\<lparr>in_allocator := b\<rparr>) = heap_ok s"
  by (simp_all add: heap_ok_def)

interpretation mm: block_heap mm_alloc "\<lambda>p s. snd (mm_free p s)" live heap_ok
proof unfold_locales
  fix s s' :: "'a kheap_scheme" and n p assume "heap_ok s"
  then obtain lo hi bs where inv: "heap_inv s lo hi bs" unfolding heap_ok_def by blast
  show "\<exists>p s'. mm_alloc n s = Some (p, s')" by (rule mm_alloc_cases [OF inv, of n]) auto
  show "0 \<notin> live s" using heap_inv_addr(2) [OF inv] unfolding live_eq [OF inv] by force
  show "p \<in> live s \<Longrightarrow> heap_ok (snd (mm_free p s))" "p \<in> live s \<Longrightarrow> live (snd (mm_free p s)) = live s - {p}"
    using mm_free_inv [OF inv] unfolding heap_ok_def by blast+
  assume a: "mm_alloc n s = Some (p, s')"
  show "heap_ok s'"
  proof (cases "p = 0")
    case True
    with a have "heap_inv s' lo hi bs" using mm_alloc_fail [OF inv] by blast
    then show ?thesis unfolding heap_ok_def by blast
  qed (use mm_alloc_inv [OF inv a] in \<open>auto simp: heap_ok_def\<close>)
  show "p \<noteq> 0 \<Longrightarrow> p \<notin> live s \<and> live s' = insert p (live s)" using mm_alloc_live [OF inv a] by blast
next
  fix s s' :: "'a kheap_scheme" and n assume "heap_ok s" "mm_alloc n s = Some (0, s')"
  then show "live s' = live s" unfolding heap_ok_def using mm_alloc_fail by blast
qed

section \<open>Properties\<close>

text \<open>A concrete pool of one megabyte for the witnesses.\<close>

definition node0 :: node_t where
  "node0 = \<lparr>nd_prev = 0, nd_next = 0, nd_hash_prev = 0, nd_hash_next = 0, nd_attribute = 0, nd_size = 0\<rparr>"

definition kheap_raw :: kheap where
  "kheap_raw = \<lparr>irq_enabled = True, total_pages = 0, page_ref = (\<lambda>_. 0), page_used = 0, page_front = 0,
     page_it = 0, nodes = (\<lambda>_. node0), first_node = 0, free_table = (\<lambda>_. 0), in_allocator = False\<rparr>"

definition kheap0 :: kheap where
  "kheap0 = mm_init_block 0x100000 0x100000 kheap_raw"

lemmas kheap0_init = mm_init_block_inv [of "0x100000" "0x100000" kheap_raw, folded kheap0_def]

lemma kheap0_inv: "heap_inv kheap0 0x100000 0x200000 [0x100000]"
  using kheap0_init(1) by simp

lemma kheap0_live: "live kheap0 = {}"
  using kheap0_init(2) by simp

lemma kheap0_ok: "heap_ok kheap0"
  unfolding heap_ok_def using kheap0_inv by blast

lemma mm_alloc_spec:
  assumes "heap_inv s lo hi bs"
  shows "\<exists>p s' bs'. mm_alloc siz s = Some (p, s') \<and> heap_inv s' lo hi bs' \<and>
    (p = 0 \<longleftrightarrow> siz = 0 \<or> (\<forall>b \<in> set bs. is_free s b \<longrightarrow> size_of s b < siz)) \<and>
    (p = 0 \<longrightarrow> live s' = live s) \<and>
    (p \<noteq> 0 \<longrightarrow> p \<notin> live s \<and> live s' = insert p (live s) \<and> siz \<le> size_of s' (p - SIZEOF_NODE))"
proof -
  obtain p s' where r: "mm_alloc siz s = Some (p, s')"
    by (rule mm_alloc_cases [OF assms, of siz]) auto
  have z: "p = 0 \<longleftrightarrow> siz = 0 \<or> (\<forall>b \<in> set bs. is_free s b \<longrightarrow> size_of s b < siz)"
  proof (rule mm_alloc_cases [OF assms, of siz])
    fix xs b ys
    assume "siz \<noteq> 0" "bs = xs @ b # ys" "is_free s b" "siz \<le> size_of s b" and
      "mm_alloc siz s = Some (b + 24, (alloc_step b siz (s\<lparr>irq_enabled := False, in_allocator := True\<rparr>))
         \<lparr>in_allocator := False, irq_enabled := irq_enabled s\<rparr>)"
    with r heap_inv_addr(2) [OF assms, of b] show ?thesis by (auto simp: not_less)
  qed (use r in auto)
  show ?thesis
  proof (cases "p = 0")
    case True
    with mm_alloc_fail [OF assms, of siz s'] r z show ?thesis by blast
  next
    case False
    from mm_alloc_inv [OF assms r False] obtain bs' where "heap_inv s' lo hi bs'" "siz \<le> size_of s' (p - 24)"
      by auto
    with mm_alloc_live [OF assms r False] r z False show ?thesis by blast
  qed
qed

text \<open>
  (C1) \<open>mm_alloc\<close> returns on every well-formed heap and leaves a well-formed heap; it refuses a
  request exactly when the size is 0 or no free block is as large; otherwise the address it returns
  was not in use, is the only one that becomes used, and its block has at least the requested size.
\<close>

theorem mm_alloc_complete:
  assumes "heap_inv s lo hi bs"
  shows "\<exists>p s' bs'. mm_alloc siz s = Some (p, s') \<and> heap_inv s' lo hi bs' \<and>
    (p = 0 \<longleftrightarrow> siz = 0 \<or> (\<forall>b \<in> set bs. is_free s b \<longrightarrow> size_of s b < siz)) \<and>
    (p = 0 \<longrightarrow> live s' = live s) \<and>
    (p \<noteq> 0 \<longrightarrow> p \<notin> live s \<and> live s' = insert p (live s) \<and> siz \<le> size_of s' (p - SIZEOF_NODE))"
  using assms by (rule mm_alloc_spec)

theorem mm_alloc_complete_witness:
  "\<exists>p s' bs'. mm_alloc 100 kheap0 = Some (p, s') \<and> heap_inv s' 0x100000 0x200000 bs'"
  using mm_alloc_complete [OF kheap0_inv, of 100] by blast

lemma live_apart:
  assumes "heap_inv s lo hi bs" and "p \<in> live s" and "q \<in> live s" and "p \<noteq> q"
  shows "lo + 24 \<le> unat p \<and> unat p + unat (size_of s (p - SIZEOF_NODE)) \<le> hi \<and>
    (unat p + unat (size_of s (p - SIZEOF_NODE)) + 24 \<le> unat q \<or>
     unat q + unat (size_of s (q - SIZEOF_NODE)) + 24 \<le> unat p)"
proof -
  from assms(2,3) obtain b c where b: "b \<in> set bs" "p = b + 24" and c: "c \<in> set bs" "q = c + 24"
    unfolding live_eq [OF assms(1)] by auto
  from b(1) obtain xs ys where bs: "bs = xs @ b # ys" by (auto simp: in_set_conv_decomp)
  have lay: "layout (size_of s) lo (xs @ b # ys) hi" using assms(1) by (simp add: heap_inv_def bs)
  have "c \<in> set xs \<union> set ys" using assms(4) b c bs by auto
  from layout_disjoint [OF lay this] heap_inv_at(1,2) [OF assms(1) [unfolded bs]]
    heap_inv_addr(1) [OF assms(1) b(1)] heap_inv_addr(1) [OF assms(1) c(1)]
  show ?thesis unfolding b(2) c(2) by (simp add: algebra_simps) linarith
qed

lemma kheap0_alloc:
  "\<exists>p s'. mm_alloc 100 kheap0 = Some (p, s') \<and> p \<noteq> 0 \<and> (\<exists>bs. heap_inv s' 0x100000 0x200000 bs) \<and> live s' = {p}"
proof -
  have "is_free kheap0 0x100000 \<and> \<not> size_of kheap0 0x100000 < 100"
    using kheap0_init(3,4) by simp
  with mm_alloc_spec [OF kheap0_inv, of 100] kheap0_live show ?thesis by auto
qed

text \<open>
  A client that allocates and releases: it keeps the addresses it was given, newest first, with the sizes it asked
  for, and releases one of them by its position.
\<close>

datatype request = Alloc u32 | Release nat

primrec heap_run :: "request list \<Rightarrow> (u32 \<times> u32) list \<Rightarrow> 'a kheap_scheme \<Rightarrow> ((u32 \<times> u32) list \<times> 'a kheap_scheme) option" where
  "heap_run [] held s = Some (held, s)"
| "heap_run (r # rs) held s = (case r of
     Alloc n \<Rightarrow> Option.bind (mm_alloc n s) (\<lambda>(p, s). heap_run rs (if p = 0 then held else (p, n) # held) s)
   | Release i \<Rightarrow>
       if i < length held then heap_run rs (take i held @ drop (Suc i) held) (snd (mm_free (fst (held ! i)) s))
       else heap_run rs held s)"

definition apart :: "u32 \<times> u32 \<Rightarrow> u32 \<times> u32 \<Rightarrow> bool" where
  "apart a b \<longleftrightarrow> unat (fst a) + unat (snd a) + 24 \<le> unat (fst b) \<or> unat (fst b) + unat (snd b) + 24 \<le> unat (fst a)"

definition held_ok :: "'a kheap_scheme \<Rightarrow> (u32 \<times> u32) list \<Rightarrow> bool" where
  "held_ok s held \<longleftrightarrow> distinct (map fst held) \<and> (\<forall>(p, n)\<in>set held. p \<in> live s \<and> n \<le> size_of s (p - SIZEOF_NODE))"

lemma held_ok_alloc:
  assumes inv: "heap_inv s lo hi bs" and h: "held_ok s held" and r: "mm_alloc n s = Some (p, s')"
  shows "\<exists>bs'. heap_inv s' lo hi bs' \<and> held_ok s' (if p = 0 then held else (p, n) # held)"
proof (cases "p = 0")
  case True
  with mm_alloc_fail [OF inv, of n s'] r h show ?thesis by (auto simp: held_ok_def)
next
  case False
  from mm_alloc_inv [OF inv r False] obtain xs zs ys b where bs: "bs = xs @ b # ys" "p = b + 24" "is_free s b" "n \<le> size_of s' b"
    and inv': "heap_inv s' lo hi (xs @ b # zs @ ys)" and oth: "\<forall>c\<in>set (xs @ ys). size_of s' c = size_of s c" by blast
  note l = mm_alloc_live [OF inv r False]
  have "size_of s' (q - 24) = size_of s (q - 24)" if "q \<in> live s" for q
    using that bs oth unfolding live_eq [OF inv] by auto
  then have "held_ok s' ((p, n) # held)" using h l bs(2,4) by (fastforce simp: held_ok_def)
  with inv' False show ?thesis by auto
qed

lemma held_ok_release:
  assumes inv: "heap_inv s lo hi bs" and h: "held_ok s held" and i: "i < length held"
  shows "\<exists>bs'. heap_inv (snd (mm_free (fst (held ! i)) s)) lo hi bs' \<and>
    held_ok (snd (mm_free (fst (held ! i)) s)) (take i held @ drop (Suc i) held)"
proof -
  let ?p = "fst (held ! i)" let ?u = "snd (mm_free ?p s)" and ?h = "take i held @ drop (Suc i) held"
  have "?p \<in> live s" using h nth_mem [OF i] by (cases "held ! i") (auto simp: held_ok_def)
  from mm_free_inv [OF inv this] obtain bs' b where f: "?p = b + 24" "heap_inv ?u lo hi bs'" "live ?u = live s - {?p}"
    "\<forall>c. c \<in> set bs \<and> \<not> is_free s c \<and> c \<noteq> b \<longrightarrow> size_of ?u c = size_of s c" by blast
  have e: "held = take i held @ held ! i # drop (Suc i) held" by (rule id_take_nth_drop [OF i])
  have "distinct (map fst (take i held @ held ! i # drop (Suc i) held))" using h e by (simp add: held_ok_def)
  then have d: "distinct (map fst ?h)" "?p \<notin> fst ` set ?h" by auto
  have sub: "set ?h \<subseteq> set held" using set_take_subset [of i held] set_drop_subset [of "Suc i" held] by auto
  have "q \<in> live ?u \<and> n \<le> size_of ?u (q - 24)" if "(q, n) \<in> set ?h" for q n
  proof -
    have "(q, n) \<in> set held" "q \<in> fst ` set ?h" using that sub by force+
    then have q: "q \<in> live s" "n \<le> size_of s (q - 24)" "q \<noteq> ?p" using h d(2) unfolding held_ok_def by blast+
    then obtain c where "q = c + 24" "c \<in> set bs" "\<not> is_free s c" "c \<noteq> b" using f(1) unfolding live_eq [OF inv] by auto
    with q f(3,4) show ?thesis by auto
  qed
  with d(1) f(2) show ?thesis by (auto simp: held_ok_def)
qed

lemma heap_run_ok:
  assumes "heap_inv s lo hi bs" and "held_ok s held"
  shows "\<exists>held' s' bs'. heap_run rs held s = Some (held', s') \<and> heap_inv s' lo hi bs' \<and> held_ok s' held'"
  using assms
proof (induction rs arbitrary: s bs held)
  case (Cons r rs)
  show ?case
  proof (cases r)
    case (Alloc n)
    obtain p s' where a: "mm_alloc n s = Some (p, s')" by (rule mm_alloc_cases [OF Cons.prems(1), of n]) auto
    from held_ok_alloc [OF Cons.prems a] obtain bs' where "heap_inv s' lo hi bs'" "held_ok s' (if p = 0 then held else (p, n) # held)" by blast
    from Cons.IH [OF this] show ?thesis by (simp add: Alloc a)
  next
    case (Release i)
    show ?thesis
    proof (cases "i < length held")
      case True
      from held_ok_release [OF Cons.prems True] Cons.IH show ?thesis using True by (fastforce simp: Release)
    qed (use Cons.IH [OF Cons.prems] in \<open>simp add: Release\<close>)
  qed
qed auto

lemma held_apart:
  assumes inv: "heap_inv s lo hi bs" and h: "held_ok s held"
  shows "(\<forall>(p, n)\<in>set held. lo + 24 \<le> unat p \<and> unat p + unat n \<le> hi) \<and> sorted_wrt apart held"
proof -
  have one: "lo + 24 \<le> unat p \<and> unat p + unat n \<le> hi" if pn: "(p, n) \<in> set held" for p n
  proof -
    have p: "p \<in> live s" "unat n \<le> unat (size_of s (p - 24))" using pn h by (auto simp: held_ok_def word_le_nat_alt)
    then obtain b where b: "b \<in> set bs" "p = b + 24" unfolding live_eq [OF inv] by auto
    with layout_bounds [of "size_of s" lo bs hi] inv heap_inv_addr(1) [OF inv b(1)] p(2) show ?thesis by (fastforce simp: heap_inv_def)
  qed
  have "apart (held ! i) (held ! j)" if "i < j" "j < length held" for i j
  proof -
    obtain p n q m where e: "held ! i = (p, n)" "held ! j = (q, m)" by (cases "held ! i", cases "held ! j")
    then have "(p, n) \<in> set held" "(q, m) \<in> set held" using that nth_mem [of i held] nth_mem [of j held] by auto
    then have l: "p \<in> live s" "q \<in> live s" "unat n \<le> unat (size_of s (p - 24))" "unat m \<le> unat (size_of s (q - 24))"
      using h by (auto simp: held_ok_def word_le_nat_alt)
    have "distinct (map fst held)" using h by (simp add: held_ok_def)
    then have "p \<noteq> q" using that e nth_eq_iff_index_eq [of "map fst held" i j] by auto
    from live_apart [OF inv l(1,2) this] l(3,4) show ?thesis by (auto simp: apart_def e)
  qed
  then show ?thesis using one by (auto simp: sorted_wrt_iff_nth_less)
qed

text \<open>
  (C3) Blocks in use never overlap: whatever a client requests from a fresh pool of 512 KB to 2 GB and releases in whatever order, the
  allocator answers every request, and the blocks it holds at the end, each as long as it was asked for, lie in the
  pool and are pairwise apart, with room for a header between them.
\<close>

theorem live_blocks_disjoint:
  assumes "addr \<noteq> 0" and "unat addr + unat siz < 2 ^ 32" and "2 ^ 19 \<le> siz" and "siz \<le> 2 ^ 31"
  shows "\<exists>held s'. heap_run rs [] (mm_init_block addr siz s) = Some (held, s') \<and>
    (\<forall>(p, n)\<in>set held. unat addr + 24 \<le> unat p \<and> unat p + unat n \<le> unat addr + unat siz) \<and> sorted_wrt apart held"
proof -
  have "held_ok (mm_init_block addr siz s) []" by (simp add: held_ok_def)
  from heap_run_ok [OF mm_init_block_inv(1) [OF assms] this, of rs] obtain held s' bs where
    r: "heap_run rs [] (mm_init_block addr siz s) = Some (held, s')" "heap_inv s' (unat addr) (unat addr + unat siz) bs" "held_ok s' held"
    by blast
  from held_apart [OF r(2,3)] r(1) show ?thesis by blast
qed

theorem live_blocks_disjoint_witness:
  "\<exists>held s'. heap_run [Alloc 100, Alloc 8, Release 1, Alloc 40] [] (mm_init_block 0x100000 0x100000 kheap_raw) = Some (held, s') \<and>
    (\<forall>(p, n)\<in>set held. 0x100018 \<le> unat p \<and> unat p + unat n \<le> 0x200000) \<and> sorted_wrt apart held"
  using live_blocks_disjoint [of "0x100000" "0x100000" "[Alloc 100, Alloc 8, Release 1, Alloc 40]" kheap_raw] by simp

text \<open>
  (C2) Releasing any block in use: \<open>mm_free\<close> reports its size, and the block joins the free block before it and the
  free block behind it, if there are any, into one free block that has their bytes and their headers; every other block
  keeps its place, size and state, no two neighbours are free, and exactly the released address is no longer in use.
\<close>

theorem mm_free_coalesces:
  assumes "heap_inv s lo hi (xs @ b # ys)" and "\<not> is_free s b" and "blocks_before s xs b = (xs', c)"
  defines "s' \<equiv> snd (mm_free (b + SIZEOF_NODE) s)" and "bs' \<equiv> xs' @ c # blocks_behind s ys"
  shows "fst (mm_free (b + SIZEOF_NODE) s) = size_of s b \<and> heap_inv s' lo hi bs' \<and>
    successively (\<lambda>x y. \<not> (is_free s' x \<and> is_free s' y)) bs' \<and> is_free s' c \<and>
    unat (size_of s' c) = unat (size_of s b) + (if c = b then 0 else unat (size_of s c) + 24) +
      (if blocks_behind s ys = ys then 0 else unat (size_of s (hd ys)) + 24) \<and>
    (\<forall>x\<in>set bs' - {c}. is_free s' x = is_free s x \<and> size_of s' x = size_of s x) \<and> live s' = live s - {b + SIZEOF_NODE}"
proof -
  note f = mm_free_blocks [OF assms(1-3), folded s'_def bs'_def]
  have d: "distinct (xs @ b # ys)" using heap_inv_at(4) [OF assms(1)] .
  have c: "c = b \<or> is_free s c \<and> xs = xs' @ [c]" using assms(3) by (auto simp: blocks_before_def split: if_splits)
  have ne: "x \<noteq> b" if "x \<in> set bs' - {c}" for x
    using that d assms(3) in_set_butlastD [of x xs] list.set_sel(2) [of ys x]
    by (auto simp: bs'_def blocks_before_def blocks_behind_def split: if_splits)
  have "b + SIZEOF_NODE \<in> live s" using assms(2) unfolding live_eq [OF assms(1)] by auto
  then have "live s' = live s - {b + SIZEOF_NODE}" using mm_free_inv [OF assms(1)] unfolding s'_def by blast
  moreover have inv: "heap_inv s' lo hi bs'" and r: "fst (mm_free (b + SIZEOF_NODE) s) = size_of s b"
    and fr: "\<And>x. is_free s' x = (x = b \<or> is_free s x)" and sz: "\<And>x. x \<noteq> c \<Longrightarrow> size_of s' x = size_of s x" using f by blast+
  moreover have "successively (\<lambda>x y. \<not> (is_free s' x \<and> is_free s' y)) bs'" using inv by (simp add: heap_inv_def)
  moreover have "is_free s' c" using fr c by blast
  moreover have "\<forall>x\<in>set bs' - {c}. is_free s' x = is_free s x \<and> size_of s' x = size_of s x" using ne fr sz by blast
  ultimately show ?thesis using mm_free_size [OF assms(1-3), folded s'_def] by blast
qed

text \<open>A pool of three blocks of eight bytes of which the middle one is in use.\<close>

definition kheap3 :: kheap where
  "kheap3 = kheap_raw\<lparr>first_node := 0x100000, free_table := (\<lambda>_. 0)(0 := 0x100040),
     nodes := (\<lambda>_. node0)(0x100000 := node0\<lparr>nd_next := 0x100020, nd_size := 8, nd_attribute := 1, nd_hash_prev := 0x100040\<rparr>,
       0x100020 := node0\<lparr>nd_prev := 0x100000, nd_next := 0x100040, nd_size := 8\<rparr>,
       0x100040 := node0\<lparr>nd_prev := 0x100020, nd_size := 8, nd_attribute := 1, nd_hash_next := 0x100000\<rparr>)\<rparr>"

lemma kheap3_inv: "heap_inv kheap3 0x100000 0x100060 [0x100000, 0x100020, 0x100040]"
proof -
  have f: "is_free kheap3 0x100000" "is_free kheap3 0x100040" "\<not> is_free kheap3 0x100020"
    by (simp_all add: kheap3_def kheap_raw_def node0_def IS_FREE_NODE_def)
  then have M: "{b \<in> set [0x100000, 0x100020, 0x100040]. is_free kheap3 b} = {0x100000, 0x100040}" by auto
  have k: "calc_hash_index 32 = 0" by (simp add: calc_hash_index_def hash_loop.simps drop_bit_eq_div)
  then have c: "size_class kheap3 0x100000 = 0" "size_class kheap3 0x100040 = 0"
    by (simp_all add: size_class_def kheap3_def kheap_raw_def)
  have "adj_ok kheap3 [0x100000, 0x100020, 0x100040]" unfolding adj_ok_def
    by (rule exI [of _ "0x100040"]) (simp add: dlist_def kheap3_def kheap_raw_def node0_def)
  moreover have "hash_ok kheap3 {0x100000, 0x100040}" unfolding hash_ok_def
  proof (intro allI impI)
    fix j :: nat
    let ?xs = "if j = 0 then [0x100040, 0x100000] else []"
    have "dlist (hnx_of kheap3) (hpv_of kheap3) (free_table kheap3 j) (if j = 0 then 0x100000 else 0) ?xs"
      by (simp add: dlist_def kheap3_def kheap_raw_def node0_def)
    moreover have "set ?xs = {b \<in> {0x100000, 0x100040}. size_class kheap3 b = j}" using c by auto
    ultimately show "\<exists>xs l. dlist (hnx_of kheap3) (hpv_of kheap3) (free_table kheap3 j) l xs \<and>
        set xs = {b \<in> {0x100000, 0x100040}. size_class kheap3 b = j}" by blast
  qed
  ultimately show ?thesis unfolding heap_inv_def M using f by (simp add: kheap3_def kheap_raw_def node0_def)
qed

theorem mm_free_coalesces_witness:
  "heap_inv (snd (mm_free 0x100038 kheap3)) 0x100000 0x100060 [0x100000] \<and>
    unat (size_of (snd (mm_free 0x100038 kheap3)) 0x100000) = 72"
proof -
  have f: "is_free kheap3 0x100000" "is_free kheap3 0x100040" "\<not> is_free kheap3 0x100020"
    and z: "size_of kheap3 0x100000 = 8" "size_of kheap3 0x100020 = 8" "size_of kheap3 0x100040 = 8"
    by (simp_all add: kheap3_def kheap_raw_def node0_def IS_FREE_NODE_def)
  have b: "blocks_before kheap3 [0x100000] 0x100020 = ([], 0x100000)" "blocks_behind kheap3 [0x100040] = []"
    using f by (simp_all add: blocks_before_def blocks_behind_def)
  have "heap_inv kheap3 0x100000 0x100060 ([0x100000] @ 0x100020 # [0x100040])" using kheap3_inv by simp
  from mm_free_coalesces [OF this f(3) b(1)] show ?thesis unfolding b(2) z by (simp add: z)
qed

end
