(* ===== verification/KernelHeap.thy ===== *)
theory KernelHeap
  imports Kernel AllocatorInv
begin

text \<open>
  Kernel memory as the rest of the kernel sees it: what allocating and releasing leave alone, and that
  the updates of other structures leave the heap alone. \<open>MmAllocateKernelMemory\<close> keeps the heap
  invariant, hands out fresh addresses only, and may refuse although memory is left, when the account
  of the current space is used up.
\<close>

subsection \<open>What the allocator leaves alone\<close>

text \<open>The fields of physical memory and of whatever extends the heap.\<close>

definition heap_rest :: "'a kheap_scheme \<Rightarrow> u32 \<times> (u32 \<Rightarrow> u8) \<times> u32 \<times> u32 \<times> u32 \<times> 'a" where
  "heap_rest s = (total_pages s, page_ref s, page_used s, page_front s, page_it s, kheap.more s)"

lemma heap_rest_upd [simp]:
  "heap_rest (upd_node a f s) = heap_rest s" "heap_rest (s\<lparr>free_table := t\<rparr>) = heap_rest s"
  "heap_rest (s\<lparr>irq_enabled := b\<rparr>) = heap_rest s" "heap_rest (s\<lparr>in_allocator := b\<rparr>) = heap_rest s"
  "heap_rest (s\<lparr>first_node := n\<rparr>) = heap_rest s"
  by (simp_all add: heap_rest_def upd_node_def)

lemma irq_upd [simp]:
  "irq_enabled (upd_node a f s) = irq_enabled s"
  by (simp_all add: upd_node_def)

lemma heap_rest_steps [simp]:
  "heap_rest (HASH_APPEND a k s) = heap_rest s" "heap_rest (HASH_DELETE a k s) = heap_rest s"
  "heap_rest (MAKE_FREE a s) = heap_rest s" "heap_rest (MAKE_OCCUPIED a s) = heap_rest s"
  "heap_rest (cut_block b z c z2 s) = heap_rest s" "heap_rest (join_block a b s) = heap_rest s"
  by (simp_all add: HASH_APPEND_def HASH_DELETE_def MAKE_FREE_def MAKE_OCCUPIED_def cut_block_def
      join_block_def Let_def)

lemma heap_rest_ops [simp]:
  "heap_rest (split_block nod siz m rest s) = heap_rest s" "heap_rest (merge a b c s) = heap_rest s"
  by (simp_all add: split_block_cut merge_join)

lemma mm_free_rest: "heap_rest (snd (mm_free p s)) = heap_rest s \<and> irq_enabled (snd (mm_free p s)) = irq_enabled s"
  by (simp add: mm_free_def ArLocalSaveIrq_def ArLocalRestoreIrq_def Let_def heap_rest_def [symmetric])

lemma mm_alloc_rest:
  assumes "mm_alloc siz s = Some (p, s')"
  shows "heap_rest s' = heap_rest s" and "irq_enabled s' = irq_enabled s"
  using assms
  by (auto simp: mm_alloc_def ArLocalSaveIrq_def ArLocalRestoreIrq_def Let_def bind_eq_Some_conv
      split: if_splits)

lemma heap_rest_kernel:
  fixes s s' :: kernel
  assumes "heap_rest s' = heap_rest s"
  shows "total_pages s' = total_pages s"
    and "page_ref s' = page_ref s"
    and "page_used s' = page_used s"
    and "page_front s' = page_front s"
    and "page_it s' = page_it s"
    and "qnodes s' = qnodes s"
    and "queues s' = queues s"
    and "sem_value s' = sem_value s"
    and "kmsgs s' = kmsgs s"
    and "threads s' = threads s"
    and "spaces s' = spaces s"
    and "vmas s' = vmas s"
    and "vms s' = vms s"
    and "ThreadingBox s' = ThreadingBox s"
    and "CanSchedule s' = CanSchedule s"
    and "threadId s' = threadId s"
    and "FirstSpace s' = FirstSpace s"
    and "CurrentSpace s' = CurrentSpace s"
    and "spaceId s' = spaceId s"
    and "KernelPageDirectory s' = KernelPageDirectory s"
    and "loaded_directory s' = loaded_directory s"
    and "pdirs s' = pdirs s"
    and "pmem s' = pmem s"
    and "temp_pte s' = temp_pte s"
    and "rtc_time s' = rtc_time s"
    and "rtc_millisecond s' = rtc_millisecond s"
    and "rtc_second s' = rtc_second s"
    and "thread_info_time s' = thread_info_time s"
    and "intr_handlers s' = intr_handlers s"
    and "irq_routines s' = irq_routines s"
    and "isr_routines s' = isr_routines s"
    and "pic_mask s' = pic_mask s"
    and "tss_esp0 s' = tss_esp0 s"
    and "sysenter_esp s' = sysenter_esp s"
    and "gdt s' = gdt s"
    and "idt s' = idt s"
    and "cr0_ts s' = cr0_ts s"
    and "fpu_regs s' = fpu_regs s"
    and "fsaves s' = fsaves s"
  using assms by (simp_all add: heap_rest_def kernel.defs) (cases s, cases s', simp)+

subsection \<open>Updates outside the heap\<close>

lemma heap_cong:
  fixes s :: "'a kheap_scheme" and s' :: "'b kheap_scheme"
  assumes "nodes s' = nodes s" and "first_node s' = first_node s" and "free_table s' = free_table s"
  shows "heap_inv s' lo hi bs = heap_inv s lo hi bs" and "heap_ok s' = heap_ok s" and "live s' = live s"
proof -
  show e: "heap_inv s' lo hi bs = heap_inv s lo hi bs" for lo hi bs
    by (simp add: heap_inv_def adj_ok_def hash_ok_def size_class_def assms)
  show "heap_ok s' = heap_ok s" by (simp add: heap_ok_def e)
  show "live s' = live s" by (simp add: live_def e assms)
qed

lemma upd_heap [simp]:
  "heap_ok (upd_thread x0 y0 s) = heap_ok s" "live (upd_thread x0 y0 s) = live s"
  "heap_inv (upd_thread x0 y0 s) lo hi bs = heap_inv s lo hi bs" "heap_ok (upd_sched x1 y1 s) = heap_ok s"
  "live (upd_sched x1 y1 s) = live s" "heap_inv (upd_sched x1 y1 s) lo hi bs = heap_inv s lo hi bs"
  "heap_ok (upd_box x2 y2 s) = heap_ok s" "live (upd_box x2 y2 s) = live s"
  "heap_inv (upd_box x2 y2 s) lo hi bs = heap_inv s lo hi bs" "heap_ok (upd_space x3 y3 s) = heap_ok s"
  "live (upd_space x3 y3 s) = live s" "heap_inv (upd_space x3 y3 s) lo hi bs = heap_inv s lo hi bs"
  "heap_ok (upd_meminfo x4 y4 s) = heap_ok s" "live (upd_meminfo x4 y4 s) = live s"
  "heap_inv (upd_meminfo x4 y4 s) lo hi bs = heap_inv s lo hi bs" "heap_ok (upd_vm x5 y5 s) = heap_ok s"
  "live (upd_vm x5 y5 s) = live s" "heap_inv (upd_vm x5 y5 s) lo hi bs = heap_inv s lo hi bs"
  "heap_ok (upd_vma x6 y6 s) = heap_ok s" "live (upd_vma x6 y6 s) = live s"
  "heap_inv (upd_vma x6 y6 s) lo hi bs = heap_inv s lo hi bs" "heap_ok (upd_queue x7 y7 s) = heap_ok s"
  "live (upd_queue x7 y7 s) = live s" "heap_inv (upd_queue x7 y7 s) lo hi bs = heap_inv s lo hi bs"
  "heap_ok (upd_qnode x8 y8 s) = heap_ok s" "live (upd_qnode x8 y8 s) = live s"
  "heap_inv (upd_qnode x8 y8 s) lo hi bs = heap_inv s lo hi bs"
  by (rule heap_cong; simp add: upd_thread_def upd_sched_def upd_box_def upd_space_def upd_meminfo_def
      upd_vm_def upd_vma_def upd_queue_def upd_qnode_def)+

lemma upd_irq [simp]:
  "irq_enabled (upd_thread x0 y0 s) = irq_enabled s" "irq_enabled (upd_sched x1 y1 s) = irq_enabled s"
  "irq_enabled (upd_box x2 y2 s) = irq_enabled s" "irq_enabled (upd_space x3 y3 s) = irq_enabled s"
  "irq_enabled (upd_meminfo x4 y4 s) = irq_enabled s" "irq_enabled (upd_vm x5 y5 s) = irq_enabled s"
  "irq_enabled (upd_vma x6 y6 s) = irq_enabled s" "irq_enabled (upd_queue x7 y7 s) = irq_enabled s"
  "irq_enabled (upd_qnode x8 y8 s) = irq_enabled s"
  by (simp_all add: upd_thread_def upd_sched_def upd_box_def upd_space_def upd_meminfo_def
      upd_vm_def upd_vma_def upd_queue_def upd_qnode_def)

lemma field_heap [simp]:
  fixes s :: kernel
  shows "heap_ok (s\<lparr>qnodes := z_qnodes\<rparr>) = heap_ok s" "live (s\<lparr>qnodes := z_qnodes\<rparr>) = live s"
    "heap_ok (s\<lparr>queues := z_queues\<rparr>) = heap_ok s" "live (s\<lparr>queues := z_queues\<rparr>) = live s"
    "heap_ok (s\<lparr>sem_value := z_sem_value\<rparr>) = heap_ok s" "live (s\<lparr>sem_value := z_sem_value\<rparr>) = live s"
    "heap_ok (s\<lparr>kmsgs := z_kmsgs\<rparr>) = heap_ok s" "live (s\<lparr>kmsgs := z_kmsgs\<rparr>) = live s"
    "heap_ok (s\<lparr>threads := z_threads\<rparr>) = heap_ok s" "live (s\<lparr>threads := z_threads\<rparr>) = live s"
    "heap_ok (s\<lparr>spaces := z_spaces\<rparr>) = heap_ok s" "live (s\<lparr>spaces := z_spaces\<rparr>) = live s"
    "heap_ok (s\<lparr>vmas := z_vmas\<rparr>) = heap_ok s" "live (s\<lparr>vmas := z_vmas\<rparr>) = live s"
    "heap_ok (s\<lparr>vms := z_vms\<rparr>) = heap_ok s" "live (s\<lparr>vms := z_vms\<rparr>) = live s"
    "heap_ok (s\<lparr>ThreadingBox := z_ThreadingBox\<rparr>) = heap_ok s" "live (s\<lparr>ThreadingBox := z_ThreadingBox\<rparr>) = live s"
    "heap_ok (s\<lparr>CanSchedule := z_CanSchedule\<rparr>) = heap_ok s" "live (s\<lparr>CanSchedule := z_CanSchedule\<rparr>) = live s"
    "heap_ok (s\<lparr>threadId := z_threadId\<rparr>) = heap_ok s" "live (s\<lparr>threadId := z_threadId\<rparr>) = live s"
    "heap_ok (s\<lparr>FirstSpace := z_FirstSpace\<rparr>) = heap_ok s" "live (s\<lparr>FirstSpace := z_FirstSpace\<rparr>) = live s"
    "heap_ok (s\<lparr>CurrentSpace := z_CurrentSpace\<rparr>) = heap_ok s" "live (s\<lparr>CurrentSpace := z_CurrentSpace\<rparr>) = live s"
    "heap_ok (s\<lparr>spaceId := z_spaceId\<rparr>) = heap_ok s" "live (s\<lparr>spaceId := z_spaceId\<rparr>) = live s"
    "heap_ok (s\<lparr>KernelPageDirectory := z_KernelPageDirectory\<rparr>) = heap_ok s" "live (s\<lparr>KernelPageDirectory := z_KernelPageDirectory\<rparr>) = live s"
    "heap_ok (s\<lparr>loaded_directory := z_loaded_directory\<rparr>) = heap_ok s" "live (s\<lparr>loaded_directory := z_loaded_directory\<rparr>) = live s"
    "heap_ok (s\<lparr>pdirs := z_pdirs\<rparr>) = heap_ok s" "live (s\<lparr>pdirs := z_pdirs\<rparr>) = live s"
    "heap_ok (s\<lparr>pmem := z_pmem\<rparr>) = heap_ok s" "live (s\<lparr>pmem := z_pmem\<rparr>) = live s"
    "heap_ok (s\<lparr>temp_pte := z_temp_pte\<rparr>) = heap_ok s" "live (s\<lparr>temp_pte := z_temp_pte\<rparr>) = live s"
    "heap_ok (s\<lparr>rtc_time := z_rtc_time\<rparr>) = heap_ok s" "live (s\<lparr>rtc_time := z_rtc_time\<rparr>) = live s"
    "heap_ok (s\<lparr>rtc_millisecond := z_rtc_millisecond\<rparr>) = heap_ok s" "live (s\<lparr>rtc_millisecond := z_rtc_millisecond\<rparr>) = live s"
    "heap_ok (s\<lparr>rtc_second := z_rtc_second\<rparr>) = heap_ok s" "live (s\<lparr>rtc_second := z_rtc_second\<rparr>) = live s"
    "heap_ok (s\<lparr>thread_info_time := z_thread_info_time\<rparr>) = heap_ok s" "live (s\<lparr>thread_info_time := z_thread_info_time\<rparr>) = live s"
    "heap_ok (s\<lparr>intr_handlers := z_intr_handlers\<rparr>) = heap_ok s" "live (s\<lparr>intr_handlers := z_intr_handlers\<rparr>) = live s"
    "heap_ok (s\<lparr>irq_routines := z_irq_routines\<rparr>) = heap_ok s" "live (s\<lparr>irq_routines := z_irq_routines\<rparr>) = live s"
    "heap_ok (s\<lparr>isr_routines := z_isr_routines\<rparr>) = heap_ok s" "live (s\<lparr>isr_routines := z_isr_routines\<rparr>) = live s"
    "heap_ok (s\<lparr>pic_mask := z_pic_mask\<rparr>) = heap_ok s" "live (s\<lparr>pic_mask := z_pic_mask\<rparr>) = live s"
    "heap_ok (s\<lparr>tss_esp0 := z_tss_esp0\<rparr>) = heap_ok s" "live (s\<lparr>tss_esp0 := z_tss_esp0\<rparr>) = live s"
    "heap_ok (s\<lparr>sysenter_esp := z_sysenter_esp\<rparr>) = heap_ok s" "live (s\<lparr>sysenter_esp := z_sysenter_esp\<rparr>) = live s"
    "heap_ok (s\<lparr>gdt := z_gdt\<rparr>) = heap_ok s" "live (s\<lparr>gdt := z_gdt\<rparr>) = live s"
    "heap_ok (s\<lparr>idt := z_idt\<rparr>) = heap_ok s" "live (s\<lparr>idt := z_idt\<rparr>) = live s"
    "heap_ok (s\<lparr>cr0_ts := z_cr0_ts\<rparr>) = heap_ok s" "live (s\<lparr>cr0_ts := z_cr0_ts\<rparr>) = live s"
    "heap_ok (s\<lparr>fpu_regs := z_fpu_regs\<rparr>) = heap_ok s" "live (s\<lparr>fpu_regs := z_fpu_regs\<rparr>) = live s"
    "heap_ok (s\<lparr>fsaves := z_fsaves\<rparr>) = heap_ok s" "live (s\<lparr>fsaves := z_fsaves\<rparr>) = live s"
  by (rule heap_cong(2,3); simp)+

lemma upd_thread_frame [simp]:
  "total_pages (upd_thread a f s) = total_pages s" "page_ref (upd_thread a f s) = page_ref s"
  "page_used (upd_thread a f s) = page_used s" "page_front (upd_thread a f s) = page_front s"
  "page_it (upd_thread a f s) = page_it s" "qnodes (upd_thread a f s) = qnodes s"
  "queues (upd_thread a f s) = queues s" "sem_value (upd_thread a f s) = sem_value s"
  "kmsgs (upd_thread a f s) = kmsgs s" "spaces (upd_thread a f s) = spaces s"
  "vmas (upd_thread a f s) = vmas s" "vms (upd_thread a f s) = vms s"
  "ThreadingBox (upd_thread a f s) = ThreadingBox s" "CanSchedule (upd_thread a f s) = CanSchedule s"
  "threadId (upd_thread a f s) = threadId s" "FirstSpace (upd_thread a f s) = FirstSpace s"
  "CurrentSpace (upd_thread a f s) = CurrentSpace s" "spaceId (upd_thread a f s) = spaceId s"
  "KernelPageDirectory (upd_thread a f s) = KernelPageDirectory s" "loaded_directory (upd_thread a f s) = loaded_directory s"
  "pdirs (upd_thread a f s) = pdirs s" "pmem (upd_thread a f s) = pmem s"
  "temp_pte (upd_thread a f s) = temp_pte s" "rtc_time (upd_thread a f s) = rtc_time s"
  "rtc_millisecond (upd_thread a f s) = rtc_millisecond s" "rtc_second (upd_thread a f s) = rtc_second s"
  "thread_info_time (upd_thread a f s) = thread_info_time s" "intr_handlers (upd_thread a f s) = intr_handlers s"
  "irq_routines (upd_thread a f s) = irq_routines s" "isr_routines (upd_thread a f s) = isr_routines s"
  "pic_mask (upd_thread a f s) = pic_mask s" "tss_esp0 (upd_thread a f s) = tss_esp0 s"
  "sysenter_esp (upd_thread a f s) = sysenter_esp s" "gdt (upd_thread a f s) = gdt s"
  "idt (upd_thread a f s) = idt s" "cr0_ts (upd_thread a f s) = cr0_ts s"
  "fpu_regs (upd_thread a f s) = fpu_regs s" "fsaves (upd_thread a f s) = fsaves s"
  by (simp_all add: upd_thread_def)

lemma upd_sched_frame [simp]:
  "total_pages (upd_sched a f s) = total_pages s" "page_ref (upd_sched a f s) = page_ref s"
  "page_used (upd_sched a f s) = page_used s" "page_front (upd_sched a f s) = page_front s"
  "page_it (upd_sched a f s) = page_it s" "qnodes (upd_sched a f s) = qnodes s"
  "queues (upd_sched a f s) = queues s" "sem_value (upd_sched a f s) = sem_value s"
  "kmsgs (upd_sched a f s) = kmsgs s" "spaces (upd_sched a f s) = spaces s"
  "vmas (upd_sched a f s) = vmas s" "vms (upd_sched a f s) = vms s"
  "ThreadingBox (upd_sched a f s) = ThreadingBox s" "CanSchedule (upd_sched a f s) = CanSchedule s"
  "threadId (upd_sched a f s) = threadId s" "FirstSpace (upd_sched a f s) = FirstSpace s"
  "CurrentSpace (upd_sched a f s) = CurrentSpace s" "spaceId (upd_sched a f s) = spaceId s"
  "KernelPageDirectory (upd_sched a f s) = KernelPageDirectory s" "loaded_directory (upd_sched a f s) = loaded_directory s"
  "pdirs (upd_sched a f s) = pdirs s" "pmem (upd_sched a f s) = pmem s"
  "temp_pte (upd_sched a f s) = temp_pte s" "rtc_time (upd_sched a f s) = rtc_time s"
  "rtc_millisecond (upd_sched a f s) = rtc_millisecond s" "rtc_second (upd_sched a f s) = rtc_second s"
  "thread_info_time (upd_sched a f s) = thread_info_time s" "intr_handlers (upd_sched a f s) = intr_handlers s"
  "irq_routines (upd_sched a f s) = irq_routines s" "isr_routines (upd_sched a f s) = isr_routines s"
  "pic_mask (upd_sched a f s) = pic_mask s" "tss_esp0 (upd_sched a f s) = tss_esp0 s"
  "sysenter_esp (upd_sched a f s) = sysenter_esp s" "gdt (upd_sched a f s) = gdt s"
  "idt (upd_sched a f s) = idt s" "cr0_ts (upd_sched a f s) = cr0_ts s"
  "fpu_regs (upd_sched a f s) = fpu_regs s" "fsaves (upd_sched a f s) = fsaves s"
  by (simp_all add: upd_sched_def upd_thread_def)

lemma upd_box_frame [simp]:
  "total_pages (upd_box a f s) = total_pages s" "page_ref (upd_box a f s) = page_ref s"
  "page_used (upd_box a f s) = page_used s" "page_front (upd_box a f s) = page_front s"
  "page_it (upd_box a f s) = page_it s" "qnodes (upd_box a f s) = qnodes s"
  "queues (upd_box a f s) = queues s" "sem_value (upd_box a f s) = sem_value s"
  "kmsgs (upd_box a f s) = kmsgs s" "threads (upd_box a f s) = threads s"
  "spaces (upd_box a f s) = spaces s" "vmas (upd_box a f s) = vmas s"
  "vms (upd_box a f s) = vms s" "CanSchedule (upd_box a f s) = CanSchedule s"
  "threadId (upd_box a f s) = threadId s" "FirstSpace (upd_box a f s) = FirstSpace s"
  "CurrentSpace (upd_box a f s) = CurrentSpace s" "spaceId (upd_box a f s) = spaceId s"
  "KernelPageDirectory (upd_box a f s) = KernelPageDirectory s" "loaded_directory (upd_box a f s) = loaded_directory s"
  "pdirs (upd_box a f s) = pdirs s" "pmem (upd_box a f s) = pmem s"
  "temp_pte (upd_box a f s) = temp_pte s" "rtc_time (upd_box a f s) = rtc_time s"
  "rtc_millisecond (upd_box a f s) = rtc_millisecond s" "rtc_second (upd_box a f s) = rtc_second s"
  "thread_info_time (upd_box a f s) = thread_info_time s" "intr_handlers (upd_box a f s) = intr_handlers s"
  "irq_routines (upd_box a f s) = irq_routines s" "isr_routines (upd_box a f s) = isr_routines s"
  "pic_mask (upd_box a f s) = pic_mask s" "tss_esp0 (upd_box a f s) = tss_esp0 s"
  "sysenter_esp (upd_box a f s) = sysenter_esp s" "gdt (upd_box a f s) = gdt s"
  "idt (upd_box a f s) = idt s" "cr0_ts (upd_box a f s) = cr0_ts s"
  "fpu_regs (upd_box a f s) = fpu_regs s" "fsaves (upd_box a f s) = fsaves s"
  by (simp_all add: upd_box_def)

lemma upd_space_frame [simp]:
  "total_pages (upd_space a f s) = total_pages s" "page_ref (upd_space a f s) = page_ref s"
  "page_used (upd_space a f s) = page_used s" "page_front (upd_space a f s) = page_front s"
  "page_it (upd_space a f s) = page_it s" "qnodes (upd_space a f s) = qnodes s"
  "queues (upd_space a f s) = queues s" "sem_value (upd_space a f s) = sem_value s"
  "kmsgs (upd_space a f s) = kmsgs s" "threads (upd_space a f s) = threads s"
  "vmas (upd_space a f s) = vmas s" "vms (upd_space a f s) = vms s"
  "ThreadingBox (upd_space a f s) = ThreadingBox s" "CanSchedule (upd_space a f s) = CanSchedule s"
  "threadId (upd_space a f s) = threadId s" "FirstSpace (upd_space a f s) = FirstSpace s"
  "CurrentSpace (upd_space a f s) = CurrentSpace s" "spaceId (upd_space a f s) = spaceId s"
  "KernelPageDirectory (upd_space a f s) = KernelPageDirectory s" "loaded_directory (upd_space a f s) = loaded_directory s"
  "pdirs (upd_space a f s) = pdirs s" "pmem (upd_space a f s) = pmem s"
  "temp_pte (upd_space a f s) = temp_pte s" "rtc_time (upd_space a f s) = rtc_time s"
  "rtc_millisecond (upd_space a f s) = rtc_millisecond s" "rtc_second (upd_space a f s) = rtc_second s"
  "thread_info_time (upd_space a f s) = thread_info_time s" "intr_handlers (upd_space a f s) = intr_handlers s"
  "irq_routines (upd_space a f s) = irq_routines s" "isr_routines (upd_space a f s) = isr_routines s"
  "pic_mask (upd_space a f s) = pic_mask s" "tss_esp0 (upd_space a f s) = tss_esp0 s"
  "sysenter_esp (upd_space a f s) = sysenter_esp s" "gdt (upd_space a f s) = gdt s"
  "idt (upd_space a f s) = idt s" "cr0_ts (upd_space a f s) = cr0_ts s"
  "fpu_regs (upd_space a f s) = fpu_regs s" "fsaves (upd_space a f s) = fsaves s"
  by (simp_all add: upd_space_def)

lemma upd_meminfo_frame [simp]:
  "total_pages (upd_meminfo a f s) = total_pages s" "page_ref (upd_meminfo a f s) = page_ref s"
  "page_used (upd_meminfo a f s) = page_used s" "page_front (upd_meminfo a f s) = page_front s"
  "page_it (upd_meminfo a f s) = page_it s" "qnodes (upd_meminfo a f s) = qnodes s"
  "queues (upd_meminfo a f s) = queues s" "sem_value (upd_meminfo a f s) = sem_value s"
  "kmsgs (upd_meminfo a f s) = kmsgs s" "threads (upd_meminfo a f s) = threads s"
  "vmas (upd_meminfo a f s) = vmas s" "vms (upd_meminfo a f s) = vms s"
  "ThreadingBox (upd_meminfo a f s) = ThreadingBox s" "CanSchedule (upd_meminfo a f s) = CanSchedule s"
  "threadId (upd_meminfo a f s) = threadId s" "FirstSpace (upd_meminfo a f s) = FirstSpace s"
  "CurrentSpace (upd_meminfo a f s) = CurrentSpace s" "spaceId (upd_meminfo a f s) = spaceId s"
  "KernelPageDirectory (upd_meminfo a f s) = KernelPageDirectory s" "loaded_directory (upd_meminfo a f s) = loaded_directory s"
  "pdirs (upd_meminfo a f s) = pdirs s" "pmem (upd_meminfo a f s) = pmem s"
  "temp_pte (upd_meminfo a f s) = temp_pte s" "rtc_time (upd_meminfo a f s) = rtc_time s"
  "rtc_millisecond (upd_meminfo a f s) = rtc_millisecond s" "rtc_second (upd_meminfo a f s) = rtc_second s"
  "thread_info_time (upd_meminfo a f s) = thread_info_time s" "intr_handlers (upd_meminfo a f s) = intr_handlers s"
  "irq_routines (upd_meminfo a f s) = irq_routines s" "isr_routines (upd_meminfo a f s) = isr_routines s"
  "pic_mask (upd_meminfo a f s) = pic_mask s" "tss_esp0 (upd_meminfo a f s) = tss_esp0 s"
  "sysenter_esp (upd_meminfo a f s) = sysenter_esp s" "gdt (upd_meminfo a f s) = gdt s"
  "idt (upd_meminfo a f s) = idt s" "cr0_ts (upd_meminfo a f s) = cr0_ts s"
  "fpu_regs (upd_meminfo a f s) = fpu_regs s" "fsaves (upd_meminfo a f s) = fsaves s"
  by (simp_all add: upd_meminfo_def upd_space_def)

lemma upd_vm_frame [simp]:
  "total_pages (upd_vm a f s) = total_pages s" "page_ref (upd_vm a f s) = page_ref s"
  "page_used (upd_vm a f s) = page_used s" "page_front (upd_vm a f s) = page_front s"
  "page_it (upd_vm a f s) = page_it s" "qnodes (upd_vm a f s) = qnodes s"
  "queues (upd_vm a f s) = queues s" "sem_value (upd_vm a f s) = sem_value s"
  "kmsgs (upd_vm a f s) = kmsgs s" "threads (upd_vm a f s) = threads s"
  "spaces (upd_vm a f s) = spaces s" "vmas (upd_vm a f s) = vmas s"
  "ThreadingBox (upd_vm a f s) = ThreadingBox s" "CanSchedule (upd_vm a f s) = CanSchedule s"
  "threadId (upd_vm a f s) = threadId s" "FirstSpace (upd_vm a f s) = FirstSpace s"
  "CurrentSpace (upd_vm a f s) = CurrentSpace s" "spaceId (upd_vm a f s) = spaceId s"
  "KernelPageDirectory (upd_vm a f s) = KernelPageDirectory s" "loaded_directory (upd_vm a f s) = loaded_directory s"
  "pdirs (upd_vm a f s) = pdirs s" "pmem (upd_vm a f s) = pmem s"
  "temp_pte (upd_vm a f s) = temp_pte s" "rtc_time (upd_vm a f s) = rtc_time s"
  "rtc_millisecond (upd_vm a f s) = rtc_millisecond s" "rtc_second (upd_vm a f s) = rtc_second s"
  "thread_info_time (upd_vm a f s) = thread_info_time s" "intr_handlers (upd_vm a f s) = intr_handlers s"
  "irq_routines (upd_vm a f s) = irq_routines s" "isr_routines (upd_vm a f s) = isr_routines s"
  "pic_mask (upd_vm a f s) = pic_mask s" "tss_esp0 (upd_vm a f s) = tss_esp0 s"
  "sysenter_esp (upd_vm a f s) = sysenter_esp s" "gdt (upd_vm a f s) = gdt s"
  "idt (upd_vm a f s) = idt s" "cr0_ts (upd_vm a f s) = cr0_ts s"
  "fpu_regs (upd_vm a f s) = fpu_regs s" "fsaves (upd_vm a f s) = fsaves s"
  by (simp_all add: upd_vm_def)

lemma upd_vma_frame [simp]:
  "total_pages (upd_vma a f s) = total_pages s" "page_ref (upd_vma a f s) = page_ref s"
  "page_used (upd_vma a f s) = page_used s" "page_front (upd_vma a f s) = page_front s"
  "page_it (upd_vma a f s) = page_it s" "qnodes (upd_vma a f s) = qnodes s"
  "queues (upd_vma a f s) = queues s" "sem_value (upd_vma a f s) = sem_value s"
  "kmsgs (upd_vma a f s) = kmsgs s" "threads (upd_vma a f s) = threads s"
  "spaces (upd_vma a f s) = spaces s" "vms (upd_vma a f s) = vms s"
  "ThreadingBox (upd_vma a f s) = ThreadingBox s" "CanSchedule (upd_vma a f s) = CanSchedule s"
  "threadId (upd_vma a f s) = threadId s" "FirstSpace (upd_vma a f s) = FirstSpace s"
  "CurrentSpace (upd_vma a f s) = CurrentSpace s" "spaceId (upd_vma a f s) = spaceId s"
  "KernelPageDirectory (upd_vma a f s) = KernelPageDirectory s" "loaded_directory (upd_vma a f s) = loaded_directory s"
  "pdirs (upd_vma a f s) = pdirs s" "pmem (upd_vma a f s) = pmem s"
  "temp_pte (upd_vma a f s) = temp_pte s" "rtc_time (upd_vma a f s) = rtc_time s"
  "rtc_millisecond (upd_vma a f s) = rtc_millisecond s" "rtc_second (upd_vma a f s) = rtc_second s"
  "thread_info_time (upd_vma a f s) = thread_info_time s" "intr_handlers (upd_vma a f s) = intr_handlers s"
  "irq_routines (upd_vma a f s) = irq_routines s" "isr_routines (upd_vma a f s) = isr_routines s"
  "pic_mask (upd_vma a f s) = pic_mask s" "tss_esp0 (upd_vma a f s) = tss_esp0 s"
  "sysenter_esp (upd_vma a f s) = sysenter_esp s" "gdt (upd_vma a f s) = gdt s"
  "idt (upd_vma a f s) = idt s" "cr0_ts (upd_vma a f s) = cr0_ts s"
  "fpu_regs (upd_vma a f s) = fpu_regs s" "fsaves (upd_vma a f s) = fsaves s"
  by (simp_all add: upd_vma_def)

lemma upd_queue_frame [simp]:
  "total_pages (upd_queue a f s) = total_pages s" "page_ref (upd_queue a f s) = page_ref s"
  "page_used (upd_queue a f s) = page_used s" "page_front (upd_queue a f s) = page_front s"
  "page_it (upd_queue a f s) = page_it s" "qnodes (upd_queue a f s) = qnodes s"
  "sem_value (upd_queue a f s) = sem_value s" "kmsgs (upd_queue a f s) = kmsgs s"
  "threads (upd_queue a f s) = threads s" "spaces (upd_queue a f s) = spaces s"
  "vmas (upd_queue a f s) = vmas s" "vms (upd_queue a f s) = vms s"
  "ThreadingBox (upd_queue a f s) = ThreadingBox s" "CanSchedule (upd_queue a f s) = CanSchedule s"
  "threadId (upd_queue a f s) = threadId s" "FirstSpace (upd_queue a f s) = FirstSpace s"
  "CurrentSpace (upd_queue a f s) = CurrentSpace s" "spaceId (upd_queue a f s) = spaceId s"
  "KernelPageDirectory (upd_queue a f s) = KernelPageDirectory s" "loaded_directory (upd_queue a f s) = loaded_directory s"
  "pdirs (upd_queue a f s) = pdirs s" "pmem (upd_queue a f s) = pmem s"
  "temp_pte (upd_queue a f s) = temp_pte s" "rtc_time (upd_queue a f s) = rtc_time s"
  "rtc_millisecond (upd_queue a f s) = rtc_millisecond s" "rtc_second (upd_queue a f s) = rtc_second s"
  "thread_info_time (upd_queue a f s) = thread_info_time s" "intr_handlers (upd_queue a f s) = intr_handlers s"
  "irq_routines (upd_queue a f s) = irq_routines s" "isr_routines (upd_queue a f s) = isr_routines s"
  "pic_mask (upd_queue a f s) = pic_mask s" "tss_esp0 (upd_queue a f s) = tss_esp0 s"
  "sysenter_esp (upd_queue a f s) = sysenter_esp s" "gdt (upd_queue a f s) = gdt s"
  "idt (upd_queue a f s) = idt s" "cr0_ts (upd_queue a f s) = cr0_ts s"
  "fpu_regs (upd_queue a f s) = fpu_regs s" "fsaves (upd_queue a f s) = fsaves s"
  by (simp_all add: upd_queue_def)

lemma upd_qnode_frame [simp]:
  "total_pages (upd_qnode a f s) = total_pages s" "page_ref (upd_qnode a f s) = page_ref s"
  "page_used (upd_qnode a f s) = page_used s" "page_front (upd_qnode a f s) = page_front s"
  "page_it (upd_qnode a f s) = page_it s" "queues (upd_qnode a f s) = queues s"
  "sem_value (upd_qnode a f s) = sem_value s" "kmsgs (upd_qnode a f s) = kmsgs s"
  "threads (upd_qnode a f s) = threads s" "spaces (upd_qnode a f s) = spaces s"
  "vmas (upd_qnode a f s) = vmas s" "vms (upd_qnode a f s) = vms s"
  "ThreadingBox (upd_qnode a f s) = ThreadingBox s" "CanSchedule (upd_qnode a f s) = CanSchedule s"
  "threadId (upd_qnode a f s) = threadId s" "FirstSpace (upd_qnode a f s) = FirstSpace s"
  "CurrentSpace (upd_qnode a f s) = CurrentSpace s" "spaceId (upd_qnode a f s) = spaceId s"
  "KernelPageDirectory (upd_qnode a f s) = KernelPageDirectory s" "loaded_directory (upd_qnode a f s) = loaded_directory s"
  "pdirs (upd_qnode a f s) = pdirs s" "pmem (upd_qnode a f s) = pmem s"
  "temp_pte (upd_qnode a f s) = temp_pte s" "rtc_time (upd_qnode a f s) = rtc_time s"
  "rtc_millisecond (upd_qnode a f s) = rtc_millisecond s" "rtc_second (upd_qnode a f s) = rtc_second s"
  "thread_info_time (upd_qnode a f s) = thread_info_time s" "intr_handlers (upd_qnode a f s) = intr_handlers s"
  "irq_routines (upd_qnode a f s) = irq_routines s" "isr_routines (upd_qnode a f s) = isr_routines s"
  "pic_mask (upd_qnode a f s) = pic_mask s" "tss_esp0 (upd_qnode a f s) = tss_esp0 s"
  "sysenter_esp (upd_qnode a f s) = sysenter_esp s" "gdt (upd_qnode a f s) = gdt s"
  "idt (upd_qnode a f s) = idt s" "cr0_ts (upd_qnode a f s) = cr0_ts s"
  "fpu_regs (upd_qnode a f s) = fpu_regs s" "fsaves (upd_qnode a f s) = fsaves s"
  by (simp_all add: upd_qnode_def)

lemma upd_get [simp]:
  "threads (upd_thread t f s) t' = (if t' = t then f (threads s t) else threads s t')"
  "threads (upd_sched t g s) t' = (if t' = t
     then (threads s t)\<lparr>th_ScheduleInformation := g (th_ScheduleInformation (threads s t))\<rparr> else threads s t')"
  "ThreadingBox (upd_box b p s) b' = (if b' = b then p else ThreadingBox s b')"
  "spaces (upd_space q h s) q' = (if q' = q then h (spaces s q) else spaces s q')"
  "spaces (upd_meminfo q m s) q' = (if q' = q
     then (spaces s q)\<lparr>sp_MemoryInformation := m (sp_MemoryInformation (spaces s q))\<rparr> else spaces s q')"
  "vms (upd_vm v w s) v' = (if v' = v then w (vms s v) else vms s v')"
  "vmas (upd_vma a u s) a' = (if a' = a then u (vmas s a) else vmas s a')"
  "queues (upd_queue r k s) r' = (if r' = r then k (queues s r) else queues s r')"
  "qnodes (upd_qnode n l s) n' = (if n' = n then l (qnodes s n) else qnodes s n')"
  by (simp_all add: upd_thread_def upd_sched_def upd_box_def upd_space_def upd_meminfo_def upd_vm_def
      upd_vma_def upd_queue_def upd_qnode_def)

subsection \<open>Kernel memory\<close>

lemma MmFreeKernelMemory_frame [simp]:
  "irq_enabled (MmFreeKernelMemory p s) = irq_enabled s" "total_pages (MmFreeKernelMemory p s) = total_pages s"
  "page_ref (MmFreeKernelMemory p s) = page_ref s" "page_used (MmFreeKernelMemory p s) = page_used s"
  "page_front (MmFreeKernelMemory p s) = page_front s" "page_it (MmFreeKernelMemory p s) = page_it s"
  "qnodes (MmFreeKernelMemory p s) = qnodes s" "queues (MmFreeKernelMemory p s) = queues s"
  "sem_value (MmFreeKernelMemory p s) = sem_value s" "kmsgs (MmFreeKernelMemory p s) = kmsgs s"
  "threads (MmFreeKernelMemory p s) = threads s" "vmas (MmFreeKernelMemory p s) = vmas s"
  "vms (MmFreeKernelMemory p s) = vms s" "ThreadingBox (MmFreeKernelMemory p s) = ThreadingBox s"
  "CanSchedule (MmFreeKernelMemory p s) = CanSchedule s" "threadId (MmFreeKernelMemory p s) = threadId s"
  "FirstSpace (MmFreeKernelMemory p s) = FirstSpace s" "CurrentSpace (MmFreeKernelMemory p s) = CurrentSpace s"
  "spaceId (MmFreeKernelMemory p s) = spaceId s" "KernelPageDirectory (MmFreeKernelMemory p s) = KernelPageDirectory s"
  "loaded_directory (MmFreeKernelMemory p s) = loaded_directory s" "pdirs (MmFreeKernelMemory p s) = pdirs s"
  "pmem (MmFreeKernelMemory p s) = pmem s" "temp_pte (MmFreeKernelMemory p s) = temp_pte s"
  "rtc_time (MmFreeKernelMemory p s) = rtc_time s" "rtc_millisecond (MmFreeKernelMemory p s) = rtc_millisecond s"
  "rtc_second (MmFreeKernelMemory p s) = rtc_second s" "thread_info_time (MmFreeKernelMemory p s) = thread_info_time s"
  "intr_handlers (MmFreeKernelMemory p s) = intr_handlers s" "irq_routines (MmFreeKernelMemory p s) = irq_routines s"
  "isr_routines (MmFreeKernelMemory p s) = isr_routines s" "pic_mask (MmFreeKernelMemory p s) = pic_mask s"
  "tss_esp0 (MmFreeKernelMemory p s) = tss_esp0 s" "sysenter_esp (MmFreeKernelMemory p s) = sysenter_esp s"
  "gdt (MmFreeKernelMemory p s) = gdt s" "idt (MmFreeKernelMemory p s) = idt s"
  "cr0_ts (MmFreeKernelMemory p s) = cr0_ts s" "fpu_regs (MmFreeKernelMemory p s) = fpu_regs s"
  "fsaves (MmFreeKernelMemory p s) = fsaves s"
proof -
  obtain siz t where e: "mm_free p s = (siz, t)" by fastforce
  have i: "irq_enabled t = irq_enabled s" and r: "heap_rest t = heap_rest s"
    using mm_free_rest [of p s] by (simp_all add: e)
  show "irq_enabled (MmFreeKernelMemory p s) = irq_enabled s" "total_pages (MmFreeKernelMemory p s) = total_pages s"
    "page_ref (MmFreeKernelMemory p s) = page_ref s" "page_used (MmFreeKernelMemory p s) = page_used s"
    "page_front (MmFreeKernelMemory p s) = page_front s" "page_it (MmFreeKernelMemory p s) = page_it s"
    "qnodes (MmFreeKernelMemory p s) = qnodes s" "queues (MmFreeKernelMemory p s) = queues s"
    "sem_value (MmFreeKernelMemory p s) = sem_value s" "kmsgs (MmFreeKernelMemory p s) = kmsgs s"
    "threads (MmFreeKernelMemory p s) = threads s" "vmas (MmFreeKernelMemory p s) = vmas s"
    "vms (MmFreeKernelMemory p s) = vms s" "ThreadingBox (MmFreeKernelMemory p s) = ThreadingBox s"
    "CanSchedule (MmFreeKernelMemory p s) = CanSchedule s" "threadId (MmFreeKernelMemory p s) = threadId s"
    "FirstSpace (MmFreeKernelMemory p s) = FirstSpace s" "CurrentSpace (MmFreeKernelMemory p s) = CurrentSpace s"
    "spaceId (MmFreeKernelMemory p s) = spaceId s" "KernelPageDirectory (MmFreeKernelMemory p s) = KernelPageDirectory s"
    "loaded_directory (MmFreeKernelMemory p s) = loaded_directory s" "pdirs (MmFreeKernelMemory p s) = pdirs s"
    "pmem (MmFreeKernelMemory p s) = pmem s" "temp_pte (MmFreeKernelMemory p s) = temp_pte s"
    "rtc_time (MmFreeKernelMemory p s) = rtc_time s" "rtc_millisecond (MmFreeKernelMemory p s) = rtc_millisecond s"
    "rtc_second (MmFreeKernelMemory p s) = rtc_second s" "thread_info_time (MmFreeKernelMemory p s) = thread_info_time s"
    "intr_handlers (MmFreeKernelMemory p s) = intr_handlers s" "irq_routines (MmFreeKernelMemory p s) = irq_routines s"
    "isr_routines (MmFreeKernelMemory p s) = isr_routines s" "pic_mask (MmFreeKernelMemory p s) = pic_mask s"
    "tss_esp0 (MmFreeKernelMemory p s) = tss_esp0 s" "sysenter_esp (MmFreeKernelMemory p s) = sysenter_esp s"
    "gdt (MmFreeKernelMemory p s) = gdt s" "idt (MmFreeKernelMemory p s) = idt s"
    "cr0_ts (MmFreeKernelMemory p s) = cr0_ts s" "fpu_regs (MmFreeKernelMemory p s) = fpu_regs s"
    "fsaves (MmFreeKernelMemory p s) = fsaves s"
    by (simp_all add: MmFreeKernelMemory_def Let_def e i heap_rest_kernel [OF r])
qed

lemma MmAllocateKernelMemory_cases:
  assumes "MmAllocateKernelMemory n s = Some (p, s')"
  obtains (refused) f g where "p = 0" "s' = upd_meminfo (MmGetCurrentSpace s) g (upd_meminfo (MmGetCurrentSpace s) f s)"
    | (charged) m f where "mm_alloc m (upd_meminfo (MmGetCurrentSpace s) f s) = Some (p, s')"
    | (free_of_charge) m where "mm_alloc m s = Some (p, s')"
  using assms by (auto simp: MmAllocateKernelMemory_def Let_def split: if_splits)

lemma MmAllocateKernelMemory_frame:
  assumes "MmAllocateKernelMemory n s = Some (p, s')"
  shows "irq_enabled s' = irq_enabled s"
    and "total_pages s' = total_pages s"
    and "page_ref s' = page_ref s"
    and "page_used s' = page_used s"
    and "page_front s' = page_front s"
    and "page_it s' = page_it s"
    and "qnodes s' = qnodes s"
    and "queues s' = queues s"
    and "sem_value s' = sem_value s"
    and "kmsgs s' = kmsgs s"
    and "threads s' = threads s"
    and "vmas s' = vmas s"
    and "vms s' = vms s"
    and "ThreadingBox s' = ThreadingBox s"
    and "CanSchedule s' = CanSchedule s"
    and "threadId s' = threadId s"
    and "FirstSpace s' = FirstSpace s"
    and "CurrentSpace s' = CurrentSpace s"
    and "spaceId s' = spaceId s"
    and "KernelPageDirectory s' = KernelPageDirectory s"
    and "loaded_directory s' = loaded_directory s"
    and "pdirs s' = pdirs s"
    and "pmem s' = pmem s"
    and "temp_pte s' = temp_pte s"
    and "rtc_time s' = rtc_time s"
    and "rtc_millisecond s' = rtc_millisecond s"
    and "rtc_second s' = rtc_second s"
    and "thread_info_time s' = thread_info_time s"
    and "intr_handlers s' = intr_handlers s"
    and "irq_routines s' = irq_routines s"
    and "isr_routines s' = isr_routines s"
    and "pic_mask s' = pic_mask s"
    and "tss_esp0 s' = tss_esp0 s"
    and "sysenter_esp s' = sysenter_esp s"
    and "gdt s' = gdt s"
    and "idt s' = idt s"
    and "cr0_ts s' = cr0_ts s"
    and "fpu_regs s' = fpu_regs s"
    and "fsaves s' = fsaves s"
proof -
  have a: "heap_rest s' = heap_rest t" "irq_enabled s' = irq_enabled t" if "mm_alloc m t = Some (p, s')" for m and t :: kernel
    using mm_alloc_rest [OF that] by auto
  show "irq_enabled s' = irq_enabled s"
    "total_pages s' = total_pages s"
    "page_ref s' = page_ref s"
    "page_used s' = page_used s"
    "page_front s' = page_front s"
    "page_it s' = page_it s"
    "qnodes s' = qnodes s"
    "queues s' = queues s"
    "sem_value s' = sem_value s"
    "kmsgs s' = kmsgs s"
    "threads s' = threads s"
    "vmas s' = vmas s"
    "vms s' = vms s"
    "ThreadingBox s' = ThreadingBox s"
    "CanSchedule s' = CanSchedule s"
    "threadId s' = threadId s"
    "FirstSpace s' = FirstSpace s"
    "CurrentSpace s' = CurrentSpace s"
    "spaceId s' = spaceId s"
    "KernelPageDirectory s' = KernelPageDirectory s"
    "loaded_directory s' = loaded_directory s"
    "pdirs s' = pdirs s"
    "pmem s' = pmem s"
    "temp_pte s' = temp_pte s"
    "rtc_time s' = rtc_time s"
    "rtc_millisecond s' = rtc_millisecond s"
    "rtc_second s' = rtc_second s"
    "thread_info_time s' = thread_info_time s"
    "intr_handlers s' = intr_handlers s"
    "irq_routines s' = irq_routines s"
    "isr_routines s' = isr_routines s"
    "pic_mask s' = pic_mask s"
    "tss_esp0 s' = tss_esp0 s"
    "sysenter_esp s' = sysenter_esp s"
    "gdt s' = gdt s"
    "idt s' = idt s"
    "cr0_ts s' = cr0_ts s"
    "fpu_regs s' = fpu_regs s"
    "fsaves s' = fsaves s"
    using assms
    by (cases rule: MmAllocateKernelMemory_cases; simp add: heap_rest_kernel [OF a(1)] a(2))+
qed

lemma MmAllocateKernelMemory_heap:
  assumes ok: "heap_ok s" and a: "MmAllocateKernelMemory n s = Some (p, s')"
  shows "heap_ok s'" and "p = 0 \<Longrightarrow> live s' = live s" and "p \<noteq> 0 \<Longrightarrow> p \<notin> live s \<and> live s' = insert p (live s)"
proof -
  have m: "heap_ok s' \<and> (p = 0 \<longrightarrow> live s' = live s) \<and> (p \<noteq> 0 \<longrightarrow> p \<notin> live s \<and> live s' = insert p (live s))"
    if "mm_alloc k t = Some (p, s')" "heap_ok t" "live t = live s" for k and t :: kernel
    using mm.alloc_ok [OF that(2,1)] mm.alloc_fail [OF that(2), of k s'] mm.alloc_fresh [OF that(2,1)] that by auto
  show "heap_ok s'" "p = 0 \<Longrightarrow> live s' = live s" "p \<noteq> 0 \<Longrightarrow> p \<notin> live s \<and> live s' = insert p (live s)"
    using a ok m by (cases rule: MmAllocateKernelMemory_cases; fastforce)+
qed

lemma MmAllocateKernelMemory_returns:
  "heap_ok s \<Longrightarrow> \<exists>p s'. MmAllocateKernelMemory n s = Some (p, s')"
  unfolding MmAllocateKernelMemory_def Let_def
  using mm.alloc_returns by (auto split: if_split)

lemma MmFreeKernelMemory_heap:
  assumes "heap_ok s"
  shows "p \<in> live s \<Longrightarrow> heap_ok (MmFreeKernelMemory p s)"
    and "p \<in> live s \<Longrightarrow> live (MmFreeKernelMemory p s) = live s - {p}"
proof -
  obtain siz t where e: "mm_free p s = (siz, t)" by fastforce
  have "p \<in> live s \<Longrightarrow> heap_ok t" "p \<in> live s \<Longrightarrow> live t = live s - {p}"
    using mm.release_ok [OF assms, of p] mm.release_used [OF assms, of p] by (simp_all add: e)
  then show "p \<in> live s \<Longrightarrow> heap_ok (MmFreeKernelMemory p s)"
    and "p \<in> live s \<Longrightarrow> live (MmFreeKernelMemory p s) = live s - {p}"
    by (simp_all add: MmFreeKernelMemory_def Let_def e)
qed

interpretation kmem: block_heap MmAllocateKernelMemory MmFreeKernelMemory live heap_ok
proof unfold_locales
  fix s s' :: kernel and n p assume ok: "heap_ok s"
  show "\<exists>p s'. MmAllocateKernelMemory n s = Some (p, s')" by (rule MmAllocateKernelMemory_returns [OF ok])
  show "0 \<notin> live s" by (rule mm.used_nonzero [OF ok])
  show "p \<in> live s \<Longrightarrow> heap_ok (MmFreeKernelMemory p s)"
    "p \<in> live s \<Longrightarrow> live (MmFreeKernelMemory p s) = live s - {p}"
    by (rule MmFreeKernelMemory_heap [OF ok], assumption)+
  assume "MmAllocateKernelMemory n s = Some (p, s')"
  from MmAllocateKernelMemory_heap [OF ok this]
  show "heap_ok s'" "p \<noteq> 0 \<Longrightarrow> p \<notin> live s \<and> live s' = insert p (live s)" by auto
qed (use MmAllocateKernelMemory_heap(2) in blast)

text \<open>The account is the only thing in a space that kernel memory changes.\<close>

lemma meminfo_only:
  "sp_SpaceId (spaces (upd_meminfo q f s) x) = sp_SpaceId (spaces s x)"
  "sp_child (spaces (upd_meminfo q f s) x) = sp_child (spaces s x)"
  "sp_next (spaces (upd_meminfo q f s) x) = sp_next (spaces s x)"
  "sp_FirstThread (spaces (upd_meminfo q f s) x) = sp_FirstThread (spaces s x)"
  "sp_PageDirectory (spaces (upd_meminfo q f s) x) = sp_PageDirectory (spaces s x)"
  by simp_all

lemma MmFreeKernelMemory_space [simp]:
  "sp_SpaceId (spaces (MmFreeKernelMemory p s) x) = sp_SpaceId (spaces s x)"
  "sp_child (spaces (MmFreeKernelMemory p s) x) = sp_child (spaces s x)"
  "sp_next (spaces (MmFreeKernelMemory p s) x) = sp_next (spaces s x)"
  "sp_FirstThread (spaces (MmFreeKernelMemory p s) x) = sp_FirstThread (spaces s x)"
  "sp_PageDirectory (spaces (MmFreeKernelMemory p s) x) = sp_PageDirectory (spaces s x)"
proof -
  obtain siz t where e: "mm_free p s = (siz, t)" by fastforce
  have r: "heap_rest t = heap_rest s" using mm_free_rest [of p s] by (simp add: e)
  show "sp_SpaceId (spaces (MmFreeKernelMemory p s) x) = sp_SpaceId (spaces s x)"
    "sp_child (spaces (MmFreeKernelMemory p s) x) = sp_child (spaces s x)"
    "sp_next (spaces (MmFreeKernelMemory p s) x) = sp_next (spaces s x)"
    "sp_FirstThread (spaces (MmFreeKernelMemory p s) x) = sp_FirstThread (spaces s x)"
    "sp_PageDirectory (spaces (MmFreeKernelMemory p s) x) = sp_PageDirectory (spaces s x)"
    by (simp_all add: MmFreeKernelMemory_def Let_def e heap_rest_kernel [OF r])
qed

section \<open>A concrete kernel\<close>

text \<open>A kernel with an empty one-megabyte pool of kernel memory in which nothing has happened yet, for
  the concrete instances of the theorems.\<close>

definition kernel_raw :: kernel where
  "kernel_raw = \<lparr>irq_enabled = True, total_pages = 0, page_ref = (\<lambda>_. 0), page_used = 0, page_front = 0,
     page_it = 0, nodes = (\<lambda>_. node0), first_node = 0, free_table = (\<lambda>_. 0), in_allocator = False,
     qnodes = (\<lambda>_. \<lparr>qn_prev = 0, qn_next = 0, qn_v = 0\<rparr>), queues = (\<lambda>_. zero_queue), sem_value = (\<lambda>_. 0),
     kmsgs = (\<lambda>_. \<lparr>km_UserMessage = \<lparr>ms_ThreadId = 0, ms_Time = 0, ms_Command = 0, ms_Arguments = (\<lambda>_. 0),
       ms_Code = 0, ms_Large = (\<lambda>_. 0)\<rparr>, km_Destination = 0, km_Source = 0\<rparr>),
     threads = (\<lambda>_. zero_thread), spaces = (\<lambda>_. zero_space),
     vmas = (\<lambda>_. \<lparr>va_next = 0, va_prev = 0, va_VirtualAddress = 0, va_VirtualSize = 0,
       va_MemoryAttribute = 0, va_AllocationFlag = 0\<rparr>),
     vms = (\<lambda>_. \<lparr>vm_FirstAllocation = 0, vm_LastAllocation = 0, vm_LowerLimit = 0, vm_UpperLimit = 0\<rparr>),
     ThreadingBox = (\<lambda>_. 0), CanSchedule = 0, threadId = 0, FirstSpace = 0, CurrentSpace = 0, spaceId = 0,
     KernelPageDirectory = \<lparr>pd_PhysicalAddress = 0, pd_VirtualAddress = 0\<rparr>,
     loaded_directory = \<lparr>pd_PhysicalAddress = 0, pd_VirtualAddress = 0\<rparr>, pdirs = (\<lambda>_ _. 0),
     pmem = (\<lambda>_. 0), temp_pte = 0, rtc_time = 0, rtc_millisecond = 0, rtc_second = 0,
     thread_info_time = (\<lambda>_. 0), intr_handlers = (\<lambda>_ _. 0), irq_routines = (\<lambda>_. 0), isr_routines = (\<lambda>_. 0),
     pic_mask = (\<lambda>_. 0), tss_esp0 = 0, sysenter_esp = 0,
     gdt = (\<lambda>_. \<lparr>sd_limit_low = 0, sd_base_low = 0, sd_base_mid = 0, sd_attr1 = 0, sd_limit_high_attr2 = 0,
       sd_base_high = 0\<rparr>),
     idt = (\<lambda>_. \<lparr>gd_offset_low = 0, gd_selector = 0, gd_dcount = 0, gd_attr = 0, gd_offset_high = 0\<rparr>),
     cr0_ts = False, fpu_regs = (\<lambda>_. 0), fsaves = (\<lambda>_ _. 0)\<rparr>"

definition kernel0 :: kernel where
  "kernel0 = mm_init_block 0x100000 0x100000 kernel_raw"

lemmas kernel0_init = mm_init_block_inv [of "0x100000" "0x100000" kernel_raw, folded kernel0_def]

lemma kernel0_ok: "heap_ok kernel0"
  unfolding heap_ok_def using kernel0_init(1) by fastforce

lemma kernel0_live: "live kernel0 = {}"
  using kernel0_init(2) by simp

lemma kernel0_rest: "heap_rest kernel0 = heap_rest kernel_raw"
  by (simp add: kernel0_def mm_init_block_def Let_def)

lemmas kernel0_simps [simp] = heap_rest_kernel [OF kernel0_rest]

text \<open>The same pool in a kernel whose other parts differ.\<close>

lemma kernel0_alloc:
  assumes "nodes s = nodes kernel0" and "first_node s = first_node kernel0" and "free_table s = free_table kernel0"
    and "0 < n" and "n \<le> 100000"
  obtains p s' where "mm_alloc n s = Some (p, s')" "p \<noteq> 0" "live s' = {p}" "heap_ok s'"
proof -
  have h: "heap_inv s 0x100000 0x200000 [0x100000]" "live s = {}"
    using kernel0_init(1) kernel0_live heap_cong(1,3) [OF assms(1-3)] by simp_all
  have "is_free s 0x100000 \<and> \<not> size_of s 0x100000 < n"
    using kernel0_init(3,4) assms by (simp add: not_less word_le_nat_alt)
  with mm_alloc_spec [OF h(1), of n] h(2) assms(4) obtain p s' bs' where a: "mm_alloc n s = Some (p, s')" "p \<noteq> 0"
    "live s' = {p}" "heap_inv s' 0x100000 0x200000 bs'" by auto
  then have "heap_ok s'" unfolding heap_ok_def by blast
  with a(1-3) show thesis by (rule that)
qed

lemma MmAllocateKernelMemory_boot:
  "MmGetCurrentSpace s = 0 \<Longrightarrow> siz AND 3 = 0 \<Longrightarrow> MmAllocateKernelMemory siz s = mm_alloc siz s"
  by (simp add: MmAllocateKernelMemory_def)

end
