(* ===== verification/Cpu.thy ===== *)
theory Cpu
  imports KernelHeap
begin

text \<open>
  The processor of a thread: descriptors (\<open>arch/i386/mmu/gdt.c\<close>), the stack of the fast system call
  (\<open>cpu/fastcall.c\<close>), the coprocessor that is saved and restored lazily (\<open>math/fpu.c\<close>) and the thread
  switch (\<open>cpu/threading.c\<close>). Loading the task register, the descriptor tables and the model specific
  registers is what the named state fields record; the assembly \<open>ArAsmSwapContext\<close>, which stores the
  stack pointer and runs the other threads until this one is resumed, is the argument \<open>swapctx\<close>.
\<close>

section \<open>Descriptors\<close>

definition fill_segment :: "u32 \<Rightarrow> u32 \<Rightarrow> u32 \<Rightarrow> SEGMENT_DESC" where
  "fill_segment bas limit attribute =
     \<lparr>sd_limit_low = ucast (limit AND 0x0FFFF),
      sd_base_low = ucast (bas AND 0x0FFFF),
      sd_base_mid = ucast (drop_bit 16 bas AND 0x0FF),
      sd_attr1 = ucast (attribute AND 0xFF),
      sd_limit_high_attr2 = ucast ((drop_bit 16 limit AND 0x0F) OR (drop_bit 8 attribute AND 0xF0)),
      sd_base_high = ucast (drop_bit 24 bas AND 0x0FF)\<rparr>"

definition ArSetGdtEntry :: "u32 \<Rightarrow> u32 \<Rightarrow> u32 \<Rightarrow> u32 \<Rightarrow> kernel \<Rightarrow> kernel" where
  "ArSetGdtEntry vector bas limit attribute s =
     s\<lparr>gdt := (gdt s)(vector := fill_segment bas limit attribute)\<rparr>"

definition ArSetLdtEntry :: "u32 \<Rightarrow> u32 \<Rightarrow> u32 \<Rightarrow> SEGMENT_DESC" where
  "ArSetLdtEntry bas limit attribute = fill_segment bas limit attribute"

abbreviation idt_code_seg :: u16 where "idt_code_seg \<equiv> 0x8"

definition ArSetIdtEntry :: "u32 \<Rightarrow> u8 \<Rightarrow> u32 \<Rightarrow> kernel \<Rightarrow> kernel" where
  "ArSetIdtEntry vector desc_type handler s =
     s\<lparr>idt := (idt s)(vector :=
        \<lparr>gd_offset_low = ucast (handler AND 0xFFFF), gd_selector = idt_code_seg, gd_dcount = 0,
         gd_attr = desc_type, gd_offset_high = ucast (drop_bit 16 handler AND 0xFFFF)\<rparr>)\<rparr>"

definition ArSetGate :: "u32 \<Rightarrow> u8 \<Rightarrow> u32 \<Rightarrow> kernel \<Rightarrow> kernel" where
  "ArSetGate vector desc_type handler s = ArSetIdtEntry vector desc_type handler s"

definition zero_segment :: SEGMENT_DESC where
  "zero_segment = \<lparr>sd_limit_low = 0, sd_base_low = 0, sd_base_mid = 0, sd_attr1 = 0,
     sd_limit_high_attr2 = 0, sd_base_high = 0\<rparr>"

definition zero_gate :: GATE_DESC where
  "zero_gate = \<lparr>gd_offset_low = 0, gd_selector = 0, gd_dcount = 0, gd_attr = 0, gd_offset_high = 0\<rparr>"

abbreviation DA_32 :: u32 where "DA_32 \<equiv> 0x4000"
abbreviation DA_LIMIT_4K :: u32 where "DA_LIMIT_4K \<equiv> 0x8000"
abbreviation DA_DPL3 :: u32 where "DA_DPL3 \<equiv> 0x60"
abbreviation DA_DRW :: u32 where "DA_DRW \<equiv> 0x92"
abbreviation DA_CR :: u32 where "DA_CR \<equiv> 0x9A"

definition ArInitializeGdt :: "kernel \<Rightarrow> kernel" where
  "ArInitializeGdt s =
     (let s = s\<lparr>gdt := (\<lambda>_. zero_segment), idt := (\<lambda>_. zero_gate)\<rparr>;
          s = ArSetGdtEntry 1 0x0000 0xFFFFF (DA_CR OR DA_32 OR DA_LIMIT_4K) s;
          s = ArSetGdtEntry 2 0x0000 0xFFFFF (DA_DRW OR DA_LIMIT_4K OR DA_32) s;
          s = ArSetGdtEntry 3 0x0000 0xFFFFF (DA_CR OR DA_32 OR DA_LIMIT_4K OR DA_DPL3) s
      in ArSetGdtEntry 4 0x0000 0xFFFFF (DA_DRW OR DA_LIMIT_4K OR DA_32 OR DA_DPL3) s)"

text \<open>What the processor reads from a descriptor: base, limit and attribute bits.\<close>

definition segment_base :: "SEGMENT_DESC \<Rightarrow> u32" where
  "segment_base d = push_bit 24 (ucast (sd_base_high d)) OR push_bit 16 (ucast (sd_base_mid d)) OR ucast (sd_base_low d)"

definition segment_limit :: "SEGMENT_DESC \<Rightarrow> u32" where
  "segment_limit d = push_bit 16 (ucast (sd_limit_high_attr2 d) AND 0xF) OR ucast (sd_limit_low d)"

definition segment_attr :: "SEGMENT_DESC \<Rightarrow> u32" where
  "segment_attr d = push_bit 8 (ucast (sd_limit_high_attr2 d) AND 0xF0) OR ucast (sd_attr1 d)"

definition gate_offset :: "GATE_DESC \<Rightarrow> u32" where
  "gate_offset d = push_bit 16 (ucast (gd_offset_high d)) OR ucast (gd_offset_low d)"

section \<open>Fast system calls\<close>

definition ArUpdateFastcallEsp :: "u32 \<Rightarrow> kernel \<Rightarrow> kernel" where
  "ArUpdateFastcallEsp kesp s = s\<lparr>sysenter_esp := kesp\<rparr>"

section \<open>The coprocessor\<close>

text \<open>\<open>fninit\<close> and \<open>fnsave\<close> leave the registers in the documented initial state.\<close>

definition fninit_image :: I387_REGISTERS where
  "fninit_image = (\<lambda>_. 0)(0 := 0x37F, 2 := 0xFFFF)"

definition upd_arch :: "u32 \<Rightarrow> (ArchThread \<Rightarrow> ArchThread) \<Rightarrow> kernel \<Rightarrow> kernel" where
  "upd_arch t f = upd_thread t (\<lambda>r. r\<lparr>th_Arch := f (th_Arch r)\<rparr>)"

definition ArPrepareFpuForThread :: "u32 \<Rightarrow> kernel \<Rightarrow> kernel option" where
  "ArPrepareFpuForThread thr s =
     (if ar_fsave (th_Arch (threads s thr)) = 0 then do {
        (p, s) \<leftarrow> MmAllocateKernelMemory 108 s;
        let s = upd_arch thr (\<lambda>a. a\<lparr>ar_fsave := p\<rparr>) s;
        Some (s\<lparr>fsaves := (fsaves s)(p := (\<lambda>_. 0))\<rparr>) }
      else Some s)"

definition fpu_save :: "u32 \<Rightarrow> kernel \<Rightarrow> kernel" where
  "fpu_save thr s =
     s\<lparr>fsaves := (fsaves s)(ar_fsave (th_Arch (threads s thr)) := fpu_regs s), fpu_regs := fninit_image\<rparr>"

definition fpu_restore :: "u32 \<Rightarrow> kernel \<Rightarrow> kernel" where
  "fpu_restore thr s = s\<lparr>fpu_regs := fsaves s (ar_fsave (th_Arch (threads s thr)))\<rparr>"

definition ArCheckAndSaveFpu :: "u32 \<Rightarrow> kernel \<Rightarrow> kernel" where
  "ArCheckAndSaveFpu thr s =
     (if ar_used_fpu (th_Arch (threads s thr)) then
        let s = fpu_save thr s;
            s = upd_arch thr (\<lambda>a. a\<lparr>ar_used_fpu := False\<rparr>) s
        in s\<lparr>cr0_ts := True\<rparr>
      else s)"

definition fpu_handler :: "kernel \<Rightarrow> (bool \<times> kernel) option" where
  "fpu_handler s =
     (let thr = TmGetCurrentThread s
      in if th_UsedMathProcessor (threads s thr) then
           let (flags, s) = ArLocalSaveIrq s;
               s = s\<lparr>cr0_ts := False\<rparr>;
               s = fpu_restore thr s;
               s = upd_arch thr (\<lambda>a. a\<lparr>ar_used_fpu := True\<rparr>) s
           in Some (True, ArLocalRestoreIrq flags s)
         else do {
           s \<leftarrow> ArPrepareFpuForThread thr s;
           let (flags, s) = ArLocalSaveIrq s;
           let s = upd_arch thr (\<lambda>a. a\<lparr>ar_used_fpu := True\<rparr>) s;
           let s = upd_thread thr (\<lambda>r. r\<lparr>th_UsedMathProcessor := True\<rparr>) s;
           let s = s\<lparr>cr0_ts := False\<rparr>;
           let s = s\<lparr>fpu_regs := fninit_image\<rparr>;
           Some (True, ArLocalRestoreIrq flags s) })"

section \<open>Thread switch\<close>

abbreviation GD_KERNEL_CODE :: u32 where "GD_KERNEL_CODE \<equiv> 0x08"
abbreviation GD_KERNEL_DATA :: u32 where "GD_KERNEL_DATA \<equiv> 0x10"
abbreviation GD_USER_CODE :: u32 where "GD_USER_CODE \<equiv> 0x1b"
abbreviation GD_USER_DATA :: u32 where "GD_USER_DATA \<equiv> 0x23"
abbreviation GD_USER_TIB :: u32 where "GD_USER_TIB \<equiv> 0x3B"
abbreviation GD_TIB_INDEX :: u32 where "GD_TIB_INDEX \<equiv> 7"
abbreviation EFLAG_VM :: u32 where "EFLAG_VM \<equiv> 0x23000"
abbreviation EFLAG_IF :: u32 where "EFLAG_IF \<equiv> 0x200"
abbreviation ADMIN_USER :: u32 where "ADMIN_USER \<equiv> 0"

definition ArLoadPageDirectory :: "KPageDirectory \<Rightarrow> kernel \<Rightarrow> kernel" where
  "ArLoadPageDirectory dir s = s\<lparr>loaded_directory := dir\<rparr>"

definition ArPrepareForNextThread :: "kernel \<Rightarrow> kernel" where
  "ArPrepareForNextThread s =
     (let nxt = ThreadingBox s Box_next
      in if nxt = 0 then s
         else
           let s = (if \<not> th_IsKernelThread (threads s nxt) then
                      let s = s\<lparr>tss_esp0 := nxt + SIZEOF_KThread\<rparr>;
                          s = ArUpdateFastcallEsp (tss_esp0 s) s
                      in ArSetGdtEntry GD_TIB_INDEX (th_UserModeThreadInformation (threads s nxt)) (0x1000 - 1)
                           (DA_DRW OR DA_32 OR DA_DPL3) s
                    else s);
               s = (if MmGetCurrentSpace s \<noteq> th_Space (threads s nxt)
                    then ArLoadPageDirectory (sp_PageDirectory (spaces s (th_Space (threads s nxt)))) s
                    else s)
           in ArCheckAndSaveFpu (ThreadingBox s Box_running) s)"

definition ArSwitchThread :: "(kernel \<Rightarrow> kernel option) \<Rightarrow> u32 \<Rightarrow> u32 \<Rightarrow> kernel \<Rightarrow> kernel option" where
  "ArSwitchThread swapctx cur nxt s =
     (let s = ArPrepareForNextThread s;
          s = upd_box Box_running nxt s;
          s = upd_box Box_next 0 s
      in swapctx s)"

definition LINEAR_TO_FARPTR :: "u32 \<Rightarrow> u32" where
  "LINEAR_TO_FARPTR ptr =
     (let off = ptr AND 0xffff; seg = drop_bit 4 (ptr AND 0xffff0000)
      in push_bit 16 seg OR (off AND 0xffff))"

definition FARPTR_SEG :: "u32 \<Rightarrow> u32" where "FARPTR_SEG fp = drop_bit 16 fp"
definition FARPTR_OFF :: "u32 \<Rightarrow> u32" where "FARPTR_OFF fp = fp AND 0xffff"

definition FARPTR_TO_LINEAR :: "u32 \<Rightarrow> u32 \<Rightarrow> u32" where
  "FARPTR_TO_LINEAR seg off = push_bit 4 (seg AND 0xffff) + (off AND 0xffff)"

definition upd_regs :: "u32 \<Rightarrow> (I386_REGISTERS \<Rightarrow> I386_REGISTERS) \<Rightarrow> kernel \<Rightarrow> kernel" where
  "upd_regs t f = upd_thread t (\<lambda>r. r\<lparr>th_Registers := f (th_Registers r)\<rparr>)"

definition GET_THREAD_REGS :: "u32 \<Rightarrow> u32" where
  "GET_THREAD_REGS p = p + SIZEOF_KThread - SIZEOF_REGISTERS"

definition ArInitializeThreadRegisters :: "u32 \<Rightarrow> u32 \<Rightarrow> u32 \<Rightarrow> u32 \<Rightarrow> kernel \<Rightarrow> kernel" where
  "ArInitializeThreadRegisters thr parent entry_addr stack_addr s =
     (if parent = 0 then s
      else if th_InBiosMode (threads s thr) then
        let s = upd_arch thr (\<lambda>a. a\<lparr>ar_vmflag_if := True, ar_in_vm86 := True\<rparr>) s;
            far_ptr = LINEAR_TO_FARPTR entry_addr;
            s = upd_regs thr (\<lambda>r. r\<lparr>r_cs := FARPTR_SEG far_ptr, r_ss := FARPTR_SEG far_ptr,
                  r_eip := FARPTR_OFF far_ptr, r_esp := 0xFFE0, r_eflags := 0x202 OR EFLAG_VM OR EFLAG_IF\<rparr>) s
        in upd_thread thr (\<lambda>r. r\<lparr>th_StackPointer := GET_THREAD_REGS thr\<rparr>) s
      else
        let s = (if th_IsKernelThread (threads s thr)
                 then upd_regs thr (\<lambda>r. r\<lparr>r_es := GD_KERNEL_DATA, r_ds := GD_KERNEL_DATA,
                        r_ss := GD_KERNEL_DATA, r_cs := GD_KERNEL_CODE\<rparr>) s
                 else upd_regs thr (\<lambda>r. r\<lparr>r_es := GD_USER_DATA, r_ds := GD_USER_DATA, r_ss := GD_USER_DATA,
                        r_fs := GD_USER_TIB, r_cs := GD_USER_CODE\<rparr>) s);
            s = upd_regs thr (\<lambda>r. r\<lparr>r_eflags := 0x202, r_esp := stack_addr, r_eip := entry_addr\<rparr>) s
        in upd_thread thr (\<lambda>r. r\<lparr>th_StackPointer := GET_THREAD_REGS thr\<rparr>) s)"

definition ArReleaseThreadResources :: "u32 \<Rightarrow> kernel \<Rightarrow> kernel" where
  "ArReleaseThreadResources thr s =
     (let p = ar_fsave (th_Arch (threads s thr))
      in if p \<noteq> 0 then
           let s = MmFreeKernelMemory p s;
               s = upd_arch thr (\<lambda>a. a\<lparr>ar_fsave := 0\<rparr>) s
           in upd_thread thr (\<lambda>r. r\<lparr>th_UsedMathProcessor := False\<rparr>) s
         else s)"

section \<open>What the processor reads back\<close>

text \<open>
  A segment descriptor filled by \<open>fill_segment\<close> (the body of \<open>ArSetGdtEntry\<close> and \<open>ArSetLdtEntry\<close>)
  is read back by the processor as the base it was given, the low 20 bits of the limit, and the
  attribute without the four bits that hold the limit.
\<close>

theorem segment_roundtrip:
  "segment_base (fill_segment b l a) = b \<and>
   segment_limit (fill_segment b l a) = take_bit 20 l \<and>
   segment_attr (fill_segment b l a) = take_bit 8 a OR push_bit 12 (take_bit 4 (drop_bit 12 a))"
proof (intro conjI)
  show "segment_base (fill_segment b l a) = b"
    unfolding segment_base_def fill_segment_def SEGMENT_DESC.simps mask_simps
    by (rule bit_word_eqI, subgoal_tac "24 \<le> n \<or> n < 24") (auto simp: bit_simps)
  show "segment_limit (fill_segment b l a) = take_bit 20 l"
    unfolding segment_limit_def fill_segment_def SEGMENT_DESC.simps mask_simps
    by (rule bit_word_eqI) (auto simp: bit_simps)
  show "segment_attr (fill_segment b l a) = take_bit 8 a OR push_bit 12 (take_bit 4 (drop_bit 12 a))"
    unfolding segment_attr_def fill_segment_def SEGMENT_DESC.simps mask_simps
    by (rule bit_word_eqI) (auto simp: bit_simps)
qed

text \<open>
  The gate that \<open>ArSetIdtEntry\<close> writes has the handler's address, the kernel code selector and the
  type it was given, and no other gate changes.
\<close>

theorem gate_roundtrip:
  "gate_offset (idt (ArSetIdtEntry v t h s) v) = h \<and> gd_selector (idt (ArSetIdtEntry v t h s) v) = 8 \<and>
   gd_attr (idt (ArSetIdtEntry v t h s) v) = t \<and> (w \<noteq> v \<longrightarrow> idt (ArSetIdtEntry v t h s) w = idt s w)"
proof -
  have "gate_offset \<lparr>gd_offset_low = ucast (h AND 0xFFFF), gd_selector = idt_code_seg, gd_dcount = 0,
         gd_attr = t, gd_offset_high = ucast (drop_bit 16 h AND 0xFFFF)\<rparr> = h"
    unfolding gate_offset_def GATE_DESC.simps mask_simps
    by (rule bit_word_eqI) (auto simp: bit_simps)
  then show ?thesis by (simp add: ArSetIdtEntry_def)
qed

theorem gate_roundtrip_witness:
  "gate_offset (idt (ArSetIdtEntry 33 0x8E 0xC0100000 kernel0) 33) = 0xC0100000 \<and>
   idt (ArSetIdtEntry 33 0x8E 0xC0100000 kernel0) 34 = idt kernel0 34"
  using gate_roundtrip [of 33 "0x8E" "0xC0100000" kernel0 34] by simp

text \<open>
  A linear address below one megabyte survives the split into a segment and an offset for real
  mode and back.
\<close>

theorem far_pointer_roundtrip:
  assumes "ptr < 0x100000"
  shows "FARPTR_TO_LINEAR (FARPTR_SEG (LINEAR_TO_FARPTR ptr)) (FARPTR_OFF (LINEAR_TO_FARPTR ptr)) = ptr"
proof -
  have b: "n < 20" if "bit ptr n" for n
    using word_lt_pow_bit [of ptr 20 n] assms that by simp
  have seg: "FARPTR_SEG (LINEAR_TO_FARPTR ptr) AND 0xFFFF = push_bit 12 (drop_bit 16 ptr)"
    unfolding FARPTR_SEG_def LINEAR_TO_FARPTR_def Let_def mask_simps
    by (rule bit_word_eqI) (auto simp: bit_simps dest: b)
  have off: "FARPTR_OFF (LINEAR_TO_FARPTR ptr) AND 0xFFFF = take_bit 16 ptr"
    unfolding FARPTR_OFF_def LINEAR_TO_FARPTR_def Let_def mask_simps
    by (rule bit_word_eqI) (auto simp: bit_simps)
  have "FARPTR_TO_LINEAR (FARPTR_SEG (LINEAR_TO_FARPTR ptr)) (FARPTR_OFF (LINEAR_TO_FARPTR ptr)) =
      push_bit 16 (drop_bit 16 ptr) + take_bit 16 ptr"
    unfolding FARPTR_TO_LINEAR_def seg off by (simp add: push_bit_push_bit)
  also have "\<dots> = ptr" by (rule bits_ident)
  finally show ?thesis .
qed

theorem far_pointer_roundtrip_witness:
  "FARPTR_TO_LINEAR (FARPTR_SEG (LINEAR_TO_FARPTR 0x10100)) (FARPTR_OFF (LINEAR_TO_FARPTR 0x10100)) = 0x10100"
  using far_pointer_roundtrip [of "0x10100"] by simp

end
