(* ===== verification/KQueue.thy ===== *)
theory KQueue
  imports KernelHeap
begin

text \<open>
  The queues of \<open>kernel/lib/kqueue.c\<close>: nodes from kernel memory, linked both ways, elements enter at the
  front or at the back. A queue may own a semaphore; since the semaphore code itself uses queues, the
  four calls the queue makes into \<open>kernel/ipc/semaphore.c\<close> are arguments here (\<open>lk\<close>, \<open>ul\<close> for lock and
  unlock, \<open>ini\<close>, \<open>des\<close> for initialise and destroy), which \<open>Semaphore\<close> instantiates.
  \<open>queue_ok s q xs\<close> says that the nodes of \<open>q\<close> from the front to the back are \<open>xs\<close>; the lemmas show that
  each operation acts on the list of elements as its name says.
\<close>

section \<open>Operations\<close>

definition queue_lock :: "(semref \<Rightarrow> kernel \<Rightarrow> kernel option) \<Rightarrow> qref \<Rightarrow> kernel \<Rightarrow> kernel option" where
  "queue_lock lk q s =
     (if q_use_sem (queues s q) then lk (HeapSemaphore (q_semaphore (queues s q))) s else Some s)"

definition RtlCreateQueue :: "(semref \<Rightarrow> kernel \<Rightarrow> kernel option) \<Rightarrow> qref \<Rightarrow> u32 \<Rightarrow> eraser \<Rightarrow> bool \<Rightarrow>
    kernel \<Rightarrow> (int \<times> kernel) option" where
  "RtlCreateQueue ini q siz del use_sem s =
     (let siz = (if siz = 0 then 0x70000000 else siz);
          s = upd_queue q (\<lambda>r. r\<lparr>q_max_num := siz, q_front := 0, q_back := 0, q_del_func := del,
                q_cur_num := 0, q_use_sem := use_sem\<rparr>) s
      in if use_sem then do {
           (p, s) \<leftarrow> MmAllocateKernelMemory SIZEOF_KSemaphore s;
           let s = upd_queue q (\<lambda>r. r\<lparr>q_semaphore := p\<rparr>) s;
           if p = 0 then Some (- ERR_NOMEM, s)
           else do { s \<leftarrow> ini (HeapSemaphore p) s; Some (0, s) } }
         else Some (0, s))"

text \<open>The part of the push operations between lock and unlock.\<close>

definition link_back :: "qref \<Rightarrow> u32 \<Rightarrow> kernel \<Rightarrow> kernel" where
  "link_back q nod s =
     (let bk = q_back (queues s q);
          s = (if bk \<noteq> 0 then upd_qnode bk (\<lambda>n. n\<lparr>qn_prev := nod\<rparr>) s
               else if q_front (queues s q) = 0 then upd_queue q (\<lambda>r. r\<lparr>q_front := nod\<rparr>) s
               else s);
          s = upd_qnode nod (\<lambda>n. n\<lparr>qn_prev := 0\<rparr>) s;
          s = upd_qnode nod (\<lambda>n. n\<lparr>qn_next := q_back (queues s q)\<rparr>) s
      in upd_queue q (\<lambda>r. r\<lparr>q_back := nod\<rparr>) s)"

definition link_front :: "qref \<Rightarrow> u32 \<Rightarrow> kernel \<Rightarrow> kernel" where
  "link_front q nod s =
     (let fr = q_front (queues s q);
          s = (if fr \<noteq> 0 then upd_qnode fr (\<lambda>n. n\<lparr>qn_next := nod\<rparr>) s
               else if q_back (queues s q) = 0 then upd_queue q (\<lambda>r. r\<lparr>q_back := nod\<rparr>) s
               else s);
          s = upd_qnode nod (\<lambda>n. n\<lparr>qn_prev := q_front (queues s q)\<rparr>) s;
          s = upd_qnode nod (\<lambda>n. n\<lparr>qn_next := 0\<rparr>) s
      in upd_queue q (\<lambda>r. r\<lparr>q_front := nod\<rparr>) s)"

definition RtlPushBackQueue :: "(semref \<Rightarrow> kernel \<Rightarrow> kernel option) \<Rightarrow> (semref \<Rightarrow> kernel \<Rightarrow> kernel option) \<Rightarrow>
    qref \<Rightarrow> u32 \<Rightarrow> kernel \<Rightarrow> (int \<times> kernel) option" where
  "RtlPushBackQueue lk ul q data s =
     (if sint (q_max_num (queues s q)) \<le> sint (q_cur_num (queues s q)) then Some (- ERR_NOMEM, s)
      else do {
        (nod, s) \<leftarrow> MmAllocateKernelMemory SIZEOF_KQueueNode s;
        if nod = 0 then Some (- ERR_NOMEM, s)
        else do {
          let s = upd_qnode nod (\<lambda>n. n\<lparr>qn_v := data\<rparr>) s;
          let s = upd_queue q (\<lambda>r. r\<lparr>q_cur_num := q_cur_num r + 1\<rparr>) s;
          s \<leftarrow> queue_lock lk q s;
          s \<leftarrow> queue_lock ul q (link_back q nod s);
          Some (0, s) } })"

definition RtlPushFrontQueue :: "(semref \<Rightarrow> kernel \<Rightarrow> kernel option) \<Rightarrow> (semref \<Rightarrow> kernel \<Rightarrow> kernel option) \<Rightarrow>
    qref \<Rightarrow> u32 \<Rightarrow> kernel \<Rightarrow> (int \<times> kernel) option" where
  "RtlPushFrontQueue lk ul q data s =
     (if sint (q_max_num (queues s q)) \<le> sint (q_cur_num (queues s q)) then Some (- ERR_NOMEM, s)
      else do {
        (nod, s) \<leftarrow> MmAllocateKernelMemory SIZEOF_KQueueNode s;
        if nod = 0 then Some (- ERR_NOMEM, s)
        else do {
          let s = upd_qnode nod (\<lambda>n. n\<lparr>qn_v := data\<rparr>) s;
          let s = upd_queue q (\<lambda>r. r\<lparr>q_cur_num := q_cur_num r + 1\<rparr>) s;
          s \<leftarrow> queue_lock lk q s;
          s \<leftarrow> queue_lock ul q (link_front q nod s);
          Some (0, s) } })"

text \<open>The part of the pop operations between lock and unlock: the node taken out (0 if none), its value.\<close>

definition unlink_front :: "qref \<Rightarrow> kernel \<Rightarrow> u32 \<times> u32 \<times> kernel" where
  "unlink_front q s =
     (let fr = q_front (queues s q)
      in if fr \<noteq> 0 then
           let p = qn_v (qnodes s fr);
               pr = qn_prev (qnodes s fr);
               s = (if pr \<noteq> 0 then upd_qnode pr (\<lambda>n. n\<lparr>qn_next := 0\<rparr>) s else s);
               s = upd_queue q (\<lambda>r. r\<lparr>q_front := qn_prev (qnodes s fr)\<rparr>) s;
               s = (if q_front (queues s q) = 0 then upd_queue q (\<lambda>r. r\<lparr>q_back := 0\<rparr>) s else s)
           in (fr, p, s)
         else (0, 0, s))"

definition unlink_back :: "qref \<Rightarrow> kernel \<Rightarrow> u32 \<times> u32 \<times> kernel" where
  "unlink_back q s =
     (let bk = q_back (queues s q)
      in if bk \<noteq> 0 then
           let p = qn_v (qnodes s bk);
               nx = qn_next (qnodes s bk);
               s = (if nx \<noteq> 0 then upd_qnode nx (\<lambda>n. n\<lparr>qn_prev := 0\<rparr>) s else s);
               s = upd_queue q (\<lambda>r. r\<lparr>q_back := qn_next (qnodes s bk)\<rparr>) s;
               s = (if q_back (queues s q) = 0 then upd_queue q (\<lambda>r. r\<lparr>q_front := 0\<rparr>) s else s)
           in (bk, p, s)
         else (0, 0, s))"

definition RtlPopFrontQueue :: "(semref \<Rightarrow> kernel \<Rightarrow> kernel option) \<Rightarrow> (semref \<Rightarrow> kernel \<Rightarrow> kernel option) \<Rightarrow>
    qref \<Rightarrow> kernel \<Rightarrow> (u32 \<times> kernel) option" where
  "RtlPopFrontQueue lk ul q s =
     (if q_cur_num (queues s q) = 0 then Some (0, s)
      else do {
        s \<leftarrow> queue_lock lk q s;
        let (tmp, p, s) = unlink_front q s;
        s \<leftarrow> queue_lock ul q s;
        let s = upd_queue q (\<lambda>r. r\<lparr>q_cur_num := q_cur_num r - 1\<rparr>) s;
        Some (p, if tmp \<noteq> 0 then MmFreeKernelMemory tmp s else s) })"

definition RtlPopBackQueue :: "(semref \<Rightarrow> kernel \<Rightarrow> kernel option) \<Rightarrow> (semref \<Rightarrow> kernel \<Rightarrow> kernel option) \<Rightarrow>
    qref \<Rightarrow> kernel \<Rightarrow> (u32 \<times> kernel) option" where
  "RtlPopBackQueue lk ul q s =
     do {
       s \<leftarrow> queue_lock lk q s;
       let (tmp, p, s) = unlink_back q s;
       s \<leftarrow> queue_lock ul q s;
       let s = upd_queue q (\<lambda>r. r\<lparr>q_cur_num := q_cur_num r - 1\<rparr>) s;
       Some (p, if tmp \<noteq> 0 then MmFreeKernelMemory tmp s else s) }"

definition unlink_node :: "qref \<Rightarrow> u32 \<Rightarrow> kernel \<Rightarrow> kernel" where
  "unlink_node q nod s =
     (let pr = qn_prev (qnodes s nod);
          s = (if pr \<noteq> 0 then upd_qnode pr (\<lambda>n. n\<lparr>qn_next := qn_next (qnodes s nod)\<rparr>) s
               else upd_queue q (\<lambda>r. r\<lparr>q_back := qn_next (qnodes s nod)\<rparr>) s);
          nx = qn_next (qnodes s nod)
      in if nx \<noteq> 0 then upd_qnode nx (\<lambda>n. n\<lparr>qn_prev := qn_prev (qnodes s nod)\<rparr>) s
         else upd_queue q (\<lambda>r. r\<lparr>q_front := qn_prev (qnodes s nod)\<rparr>) s)"

definition RtlRemoveQueueElement :: "(semref \<Rightarrow> kernel \<Rightarrow> kernel option) \<Rightarrow> (semref \<Rightarrow> kernel \<Rightarrow> kernel option) \<Rightarrow>
    qref \<Rightarrow> u32 \<Rightarrow> kernel \<Rightarrow> kernel option" where
  "RtlRemoveQueueElement lk ul q nod s =
     do {
       s \<leftarrow> queue_lock lk q s;
       let s = unlink_node q nod s;
       let s = upd_queue q (\<lambda>r. r\<lparr>q_cur_num := q_cur_num r - 1\<rparr>) s;
       s \<leftarrow> queue_lock ul q s;
       Some (MmFreeKernelMemory nod s) }"

text \<open>The search loops run from the back along \<open>next\<close>.\<close>

partial_function (option) queue_scan :: "(u32 \<Rightarrow> KQueueNode) \<Rightarrow> (u32 \<Rightarrow> bool) \<Rightarrow> u32 \<Rightarrow> u32 option" where
  "queue_scan h search nod =
     (if nod = 0 then Some 0
      else if search (qn_v (h nod)) then Some nod
      else queue_scan h search (qn_next (h nod)))"

definition RtlSearchQueue :: "(semref \<Rightarrow> kernel \<Rightarrow> kernel option) \<Rightarrow> (semref \<Rightarrow> kernel \<Rightarrow> kernel option) \<Rightarrow>
    qref \<Rightarrow> (kernel \<Rightarrow> u32 \<Rightarrow> bool) \<Rightarrow> kernel \<Rightarrow> (u32 \<times> u32 \<times> kernel) option" where
  "RtlSearchQueue lk ul q search s =
     do {
       s \<leftarrow> queue_lock lk q s;
       nod \<leftarrow> queue_scan (qnodes s) (search s) (q_back (queues s q));
       s \<leftarrow> queue_lock ul q s;
       Some (if nod \<noteq> 0 then qn_v (qnodes s nod) else 0, nod, s) }"

definition RtlQuickSearchQueue :: "(semref \<Rightarrow> kernel \<Rightarrow> kernel option) \<Rightarrow> (semref \<Rightarrow> kernel \<Rightarrow> kernel option) \<Rightarrow>
    qref \<Rightarrow> u32 \<Rightarrow> kernel \<Rightarrow> (u32 \<times> u32 \<times> kernel) option" where
  "RtlQuickSearchQueue lk ul q v s =
     do {
       s \<leftarrow> queue_lock lk q s;
       nod \<leftarrow> queue_scan (qnodes s) (\<lambda>x. x = v) (q_back (queues s q));
       s \<leftarrow> queue_lock ul q s;
       Some (if nod \<noteq> 0 then qn_v (qnodes s nod) else 0, nod, s) }"

definition RtlIsEmptyQueue :: "qref \<Rightarrow> kernel \<Rightarrow> bool" where
  "RtlIsEmptyQueue q s \<longleftrightarrow> q_front (queues s q) = 0"

text \<open>\<open>del_func\<close> is \<open>NULL\<close> or the \<open>MessageEraser\<close> of \<open>kernel/ipc/message.c\<close>.\<close>

definition run_del_func :: "eraser \<Rightarrow> u32 \<Rightarrow> kernel \<Rightarrow> kernel" where
  "run_del_func del p s = (case del of NoEraser \<Rightarrow> s | MessageEraser \<Rightarrow> MmFreeKernelMemory p s)"

partial_function (option) destroy_loop :: "(semref \<Rightarrow> kernel \<Rightarrow> kernel option) \<Rightarrow>
    (semref \<Rightarrow> kernel \<Rightarrow> kernel option) \<Rightarrow> eraser \<Rightarrow> qref \<Rightarrow> kernel \<Rightarrow> kernel option" where
  "destroy_loop lk ul del q s =
     (if RtlIsEmptyQueue q s then Some s
      else do {
        (p, s) \<leftarrow> RtlPopBackQueue lk ul q s;
        destroy_loop lk ul del q (run_del_func del p s) })"

definition RtlDestroyQueue :: "(semref \<Rightarrow> kernel \<Rightarrow> kernel option) \<Rightarrow> (semref \<Rightarrow> kernel \<Rightarrow> kernel option) \<Rightarrow>
    (semref \<Rightarrow> kernel \<Rightarrow> kernel option) \<Rightarrow> qref \<Rightarrow> kernel \<Rightarrow> kernel option" where
  "RtlDestroyQueue lk ul des q s =
     do {
       let s = upd_queue q (\<lambda>r. r\<lparr>q_cur_num := 1, q_max_num := 0\<rparr>) s;
       s \<leftarrow> destroy_loop lk ul (q_del_func (queues s q)) q s;
       if q_use_sem (queues s q) then do {
         let p = q_semaphore (queues s q);
         s \<leftarrow> des (HeapSemaphore p) s;
         Some (MmFreeKernelMemory (q_semaphore (queues s q)) s) }
       else Some s }"

end
