(* ===== verification/Sched.thy ===== *)
theory Sched
  imports Cpu KQueue
begin

text \<open>
  The scheduler \<open>kernel/tm/sched.c\<close>: every thread that is not initialising is on the chain of its state
  in \<open>ThreadingBox\<close>; the clock tick wakes the threads of the wait chain whose time is up and calls the
  scheduler when the time slice of the running thread is used up.
\<close>

section \<open>Operations\<close>

definition TmInitializeScheduler :: "kernel \<Rightarrow> kernel" where
  "TmInitializeScheduler s = s\<lparr>ThreadingBox := (\<lambda>_. 0), CanSchedule := 0\<rparr>"

fun GetThreadChain :: "THREAD_STATE \<Rightarrow> box option" where
  "GetThreadChain TS_INIT = None"
| "GetThreadChain TS_DEAD = Some Box_dead"
| "GetThreadChain TS_RUNNING = Some Box_running"
| "GetThreadChain TS_READY = Some Box_ready"
| "GetThreadChain TS_SLEEP = Some Box_sleep"
| "GetThreadChain TS_PAUSED = Some Box_paused"
| "GetThreadChain TS_WAIT = Some Box_wait"
| "GetThreadChain TS_IDLE = Some Box_idle"

definition chain_remove :: "box \<Rightarrow> u32 \<Rightarrow> kernel \<Rightarrow> kernel" where
  "chain_remove link thr s =
     (if ThreadingBox s link = 0 then s
      else
        let info = th_ScheduleInformation (threads s thr);
            s = (if si_next info \<noteq> 0 then upd_sched (si_next info) (\<lambda>i. i\<lparr>si_prev := si_prev info\<rparr>) s else s);
            info = th_ScheduleInformation (threads s thr)
        in if si_prev info \<noteq> 0 then upd_sched (si_prev info) (\<lambda>i. i\<lparr>si_next := si_next info\<rparr>) s
           else upd_box link (si_next info) s)"

definition chain_push :: "box \<Rightarrow> u32 \<Rightarrow> kernel \<Rightarrow> kernel" where
  "chain_push link thr s =
     (let hd = ThreadingBox s link;
          s = upd_sched thr (\<lambda>i. i\<lparr>si_next := hd\<rparr>) s;
          s = (if hd \<noteq> 0 then upd_sched hd (\<lambda>i. i\<lparr>si_prev := thr\<rparr>) s else s)
      in upd_box link thr s)"

definition TmSetThreadState :: "u32 \<Rightarrow> THREAD_STATE \<Rightarrow> kernel \<Rightarrow> kernel" where
  "TmSetThreadState thr st s =
     (if th_ThreadState (threads s thr) = st then s
      else
        let (flags, s) = ArLocalSaveIrq s;
            s = (case GetThreadChain (th_ThreadState (threads s thr)) of
                   Some link \<Rightarrow> chain_remove link thr s | None \<Rightarrow> s);
            s = upd_sched thr (\<lambda>i. i\<lparr>si_prev := 0\<rparr>) s;
            s = (case GetThreadChain st of Some link \<Rightarrow> chain_push link thr s | None \<Rightarrow> s);
            s = upd_thread thr (\<lambda>r. r\<lparr>th_ThreadState := st\<rparr>) s
        in ArLocalRestoreIrq flags s)"

text \<open>\<open>RTC_FREQUENCY\<close> is 200, a tick is 5 milliseconds.\<close>

abbreviation RTC_FREQUENCY :: u32 where "RTC_FREQUENCY \<equiv> 200"

definition ms :: u32 where "ms = 1000 div RTC_FREQUENCY"

text \<open>The loop over the wait chain. A woken thread that has a predecessor hands over to its successor;
  a woken head hands over to the new head, which the loop header then steps past.\<close>

partial_function (option) wait_loop :: "u32 \<Rightarrow> kernel \<Rightarrow> kernel option" where
  "wait_loop thr s =
     (if thr = 0 then Some s
      else
        let s = upd_sched thr (\<lambda>i. i\<lparr>si_clock := si_clock i - ms\<rparr>) s
        in if sint (si_clock (th_ScheduleInformation (threads s thr))) \<le> 0 then
             let prev = si_prev (th_ScheduleInformation (threads s thr));
                 s = TmSetThreadState thr TS_READY s;
                 thr = (if prev \<noteq> 0 then prev else ThreadingBox s Box_wait)
             in if thr = 0 then Some s
                else wait_loop (si_next (th_ScheduleInformation (threads s thr))) s
           else wait_loop (si_next (th_ScheduleInformation (threads s thr))) s)"

text \<open>\<open>TmSchedule\<close>: the next thread (0 when there is none at all) with its new time slice, and the switch.\<close>

definition pick_ready :: "kernel \<Rightarrow> u32" where
  "pick_ready s =
     (let cur = TmGetCurrentThread s;
          thr = (if th_ThreadState (threads s cur) = TS_READY
                 then si_next (th_ScheduleInformation (threads s cur)) else 0)
      in if thr = 0 \<or> th_ThreadState (threads s thr) \<noteq> TS_READY then ThreadingBox s Box_ready else thr)"

definition switch_to :: "(kernel \<Rightarrow> kernel option) \<Rightarrow> u32 \<Rightarrow> u32 \<Rightarrow> kernel \<Rightarrow> kernel option" where
  "switch_to swapctx cur thr s =
     (if thr \<noteq> cur then
        let s = upd_box Box_next thr s
        in if \<not> th_IsInterrupted (threads s cur) then ArSwitchThread swapctx cur thr s else Some s
      else Some s)"

definition TmSchedule :: "(kernel \<Rightarrow> kernel option) \<Rightarrow> kernel \<Rightarrow> kernel option" where
  "TmSchedule swapctx s =
     (let cur = TmGetCurrentThread s;
          (flags, s) = ArLocalSaveIrq s;
          thr = pick_ready s
      in if thr \<noteq> 0 then do {
           let s = upd_sched thr (\<lambda>i. i\<lparr>si_clock := 5\<rparr>) s;
           s \<leftarrow> switch_to swapctx cur thr s;
           Some (ArLocalRestoreIrq flags s) }
         else
           let thr = (if thr \<noteq> 0 \<and> th_ThreadState (threads s thr) = TS_IDLE
                      then si_next (th_ScheduleInformation (threads s cur)) else thr);
               thr = (if thr = 0 then ThreadingBox s Box_idle else thr)
           in if thr = 0 then None
              else do {
                let s = upd_sched thr (\<lambda>i. i\<lparr>si_clock := 1\<rparr>) s;
                s \<leftarrow> switch_to swapctx cur thr s;
                Some (ArLocalRestoreIrq flags s) })"

definition TmIncreaseTime :: "(kernel \<Rightarrow> kernel option) \<Rightarrow> kernel \<Rightarrow> kernel option" where
  "TmIncreaseTime swapctx s =
     do {
       let (flags, s) = ArLocalSaveIrq s;
       s \<leftarrow> wait_loop (ThreadingBox s Box_wait) s;
       let s = ArLocalRestoreIrq flags s;
       let thr = TmGetCurrentThread s;
       let s = (let ti = th_UserModeThreadInformation (threads s thr)
                in if \<not> th_IsKernelThread (threads s thr) \<and> ti \<noteq> 0
                   then s\<lparr>thread_info_time := (thread_info_time s)(ti := rtc_second s)\<rparr> else s);
       let s = upd_sched thr (\<lambda>i. i\<lparr>si_clock := si_clock i - 1\<rparr>) s;
       if sint (si_clock (th_ScheduleInformation (threads s thr))) \<le> 0 \<and> CanSchedule s = 0
       then TmSchedule swapctx s
       else Some s }"

text \<open>From \<open>kernel/tm/thread.c\<close>: putting a thread to sleep and waking it. A thread that is resumed in a
  sleeping state fails the assertion after \<open>TmSchedule\<close>, which does not return.\<close>

abbreviation INFINITE :: u32 where "INFINITE \<equiv> 0xFFFFFFFF"

definition TmSleepThread :: "(kernel \<Rightarrow> kernel option) \<Rightarrow> u32 \<Rightarrow> u32 \<Rightarrow> kernel \<Rightarrow> kernel option" where
  "TmSleepThread swapctx thread tm s =
     (if tm = INFINITE then do {
        let s = TmSetThreadState thread TS_SLEEP s;
        if thread = TmGetCurrentThread s then do {
          s \<leftarrow> TmSchedule swapctx s;
          if th_ThreadState (threads s thread) \<noteq> TS_SLEEP then Some s else None }
        else Some s }
      else do {
        let (flags, s) = ArLocalSaveIrq s;
        let s = upd_sched thread (\<lambda>i. i\<lparr>si_clock := tm\<rparr>) s;
        let s = TmSetThreadState thread TS_WAIT s;
        let s = ArLocalRestoreIrq flags s;
        if thread = TmGetCurrentThread s then do {
          s \<leftarrow> TmSchedule swapctx s;
          if th_ThreadState (threads s thread) \<noteq> TS_WAIT then Some s else None }
        else Some s })"

definition TmWakeupThread :: "u32 \<Rightarrow> kernel \<Rightarrow> int \<times> kernel" where
  "TmWakeupThread thr s =
     (if th_ThreadState (threads s thr) = TS_SLEEP \<or> th_ThreadState (threads s thr) = TS_WAIT
      then (0, TmSetThreadState thr TS_READY s)
      else (- ERR_UNKNOWN, s))"

definition TmResumeThread :: "u32 \<Rightarrow> kernel \<Rightarrow> int \<times> kernel" where
  "TmResumeThread thr s = (0, TmSetThreadState thr TS_READY s)"

definition TmSuspendThread :: "(kernel \<Rightarrow> kernel option) \<Rightarrow> u32 \<Rightarrow> kernel \<Rightarrow> (int \<times> kernel) option" where
  "TmSuspendThread swapctx thr s =
     (let s = TmSetThreadState thr TS_PAUSED s
      in if thr = TmGetCurrentThread s then do { s \<leftarrow> TmSchedule swapctx s; Some (0, s) } else Some (0, s))"

end
