(* ===== verification/Semaphore.thy ===== *)
theory Semaphore
  imports Sched
begin

text \<open>
  The semaphores of \<open>kernel/ipc/semaphore.c\<close>. Their wait queues are created without a semaphore of their
  own, so the queue operations they call take no lock; a wait queue whose \<open>use_sem\<close> flag were set would
  recurse for ever, which the argument \<open>no_lock\<close> says.
\<close>

definition no_lock :: "semref \<Rightarrow> kernel \<Rightarrow> kernel option" where
  "no_lock sem s = None"

definition IpcTryLockSemaphore :: "semref \<Rightarrow> kernel \<Rightarrow> bool \<times> kernel" where
  "IpcTryLockSemaphore sem s =
     (let (eflags, s) = ArLocalSaveIrq s;
          s = s\<lparr>sem_value := (sem_value s)(sem := sem_value s sem - 1)\<rparr>
      in if sem_value s sem \<noteq> 0 then
           let s = ArLocalRestoreIrq eflags s
           in (False, s\<lparr>sem_value := (sem_value s)(sem := sem_value s sem + 1)\<rparr>)
         else (True, ArLocalRestoreIrq eflags s))"

definition IpcLockSemaphore :: "(kernel \<Rightarrow> kernel option) \<Rightarrow> semref \<Rightarrow> kernel \<Rightarrow> kernel option" where
  "IpcLockSemaphore swapctx sem s =
     (let (eflags, s) = ArLocalSaveIrq s;
          s = s\<lparr>sem_value := (sem_value s)(sem := sem_value s sem - 1)\<rparr>
      in if sem_value s sem \<noteq> 0 then do {
           (_, s) \<leftarrow> RtlPushFrontQueue no_lock no_lock (WaitQueue sem) (TmGetCurrentThread s) s;
           s \<leftarrow> TmSleepThread swapctx (TmGetCurrentThread s) INFINITE s;
           Some (ArLocalRestoreIrq eflags s) }
         else Some (ArLocalRestoreIrq eflags s))"

definition IpcInitializeSemaphoreValue :: "semref \<Rightarrow> u32 \<Rightarrow> kernel \<Rightarrow> kernel option" where
  "IpcInitializeSemaphoreValue sem v s =
     do {
       (_, s) \<leftarrow> RtlCreateQueue no_lock (WaitQueue sem) 0 NoEraser False s;
       Some (s\<lparr>sem_value := (sem_value s)(sem := v)\<rparr>) }"

definition IpcInitializeSemaphore :: "semref \<Rightarrow> kernel \<Rightarrow> kernel option" where
  "IpcInitializeSemaphore sem s = IpcInitializeSemaphoreValue sem 1 s"

definition IpcUnlockSemaphore :: "semref \<Rightarrow> kernel \<Rightarrow> kernel option" where
  "IpcUnlockSemaphore sem s =
     do {
       let (eflags, s) = ArLocalSaveIrq s;
       (thr, s) \<leftarrow> RtlPopBackQueue no_lock no_lock (WaitQueue sem) s;
       let s = ArLocalRestoreIrq eflags s;
       let s = s\<lparr>sem_value := (sem_value s)(sem := sem_value s sem + 1)\<rparr>;
       Some (if thr \<noteq> 0 then snd (TmWakeupThread thr s) else s) }"

partial_function (option) wakeup_all :: "semref \<Rightarrow> kernel \<Rightarrow> kernel option" where
  "wakeup_all sem s =
     do {
       (thr, s) \<leftarrow> RtlPopBackQueue no_lock no_lock (WaitQueue sem) s;
       if thr \<noteq> 0 then wakeup_all sem (snd (TmWakeupThread thr s)) else Some s }"

definition IpcDestroySemaphore :: "semref \<Rightarrow> kernel \<Rightarrow> kernel option" where
  "IpcDestroySemaphore sem s =
     do {
       let (eflags, s) = ArLocalSaveIrq s;
       s \<leftarrow> wakeup_all sem s;
       let s = s\<lparr>sem_value := (sem_value s)(sem := 0)\<rparr>;
       Some (ArLocalRestoreIrq eflags s) }"

definition IpcRemoveSleepingThread :: "semref \<Rightarrow> u32 \<Rightarrow> kernel \<Rightarrow> kernel option" where
  "IpcRemoveSleepingThread sem thr s =
     do {
       let (eflags, s) = ArLocalSaveIrq s;
       (thr, nod, s) \<leftarrow> RtlQuickSearchQueue no_lock no_lock (WaitQueue sem) thr s;
       s \<leftarrow> (if thr \<noteq> 0 then RtlRemoveQueueElement no_lock no_lock (WaitQueue sem) nod s else Some s);
       Some (ArLocalRestoreIrq eflags s) }"

end
