(* ===== verification/VirtMem.thy ===== *)
theory VirtMem
  imports Semaphore
begin

text \<open>
  Virtual address areas, \<open>kernel/mm/virtual.c\<close>: the areas of a \<open>KVirtualMemory\<close> are linked in address
  order; an allocation asks for a given address or for the first gap from below or from above. The list
  is guarded by the access lock.
\<close>

abbreviation ALLOC_VIRTUAL :: u32 where "ALLOC_VIRTUAL \<equiv> 1"
abbreviation ALLOC_ZERO :: u32 where "ALLOC_ZERO \<equiv> 2"
abbreviation ALLOC_SWAP :: u32 where "ALLOC_SWAP \<equiv> 4"
abbreviation ALLOC_RANDOM :: u32 where "ALLOC_RANDOM \<equiv> 8"
abbreviation ALLOC_HIGHMEM :: u32 where "ALLOC_HIGHMEM \<equiv> 16"
abbreviation ALLOC_LAZY :: u32 where "ALLOC_LAZY \<equiv> 64"

definition MmInitializeVirtualMemory :: "vmref \<Rightarrow> u32 \<Rightarrow> u32 \<Rightarrow> kernel \<Rightarrow> kernel option" where
  "MmInitializeVirtualMemory vm beg en s =
     (let s = upd_vm vm (\<lambda>r. r\<lparr>vm_LowerLimit := beg, vm_UpperLimit := en,
                vm_FirstAllocation := 0, vm_LastAllocation := 0\<rparr>) s
      in IpcInitializeSemaphore (AccessLock vm) s)"

definition InsertPreviousVma :: "vmref \<Rightarrow> u32 \<Rightarrow> u32 \<Rightarrow> kernel \<Rightarrow> kernel" where
  "InsertPreviousVma vm vma nxt s =
     (let s = upd_vma vma (\<lambda>r. r\<lparr>va_next := nxt\<rparr>) s
      in if nxt \<noteq> 0 then
           let pr = va_prev (vmas s nxt);
               s = (if pr \<noteq> 0 then upd_vma pr (\<lambda>r. r\<lparr>va_next := vma\<rparr>) s
                    else upd_vm vm (\<lambda>r. r\<lparr>vm_FirstAllocation := vma\<rparr>) s);
               s = upd_vma vma (\<lambda>r. r\<lparr>va_prev := va_prev (vmas s nxt)\<rparr>) s
           in upd_vma nxt (\<lambda>r. r\<lparr>va_prev := vma\<rparr>) s
         else
           let la = vm_LastAllocation (vms s vm);
               s = upd_vma vma (\<lambda>r. r\<lparr>va_prev := la\<rparr>) s;
               s = (if la \<noteq> 0 then upd_vma la (\<lambda>r. r\<lparr>va_next := vma\<rparr>) s
                    else upd_vm vm (\<lambda>r. r\<lparr>vm_FirstAllocation := vma\<rparr>) s)
           in upd_vm vm (\<lambda>r. r\<lparr>vm_LastAllocation := vma\<rparr>) s)"

text \<open>The search loops: the area at which the loop stops (0 at the end) and the address reached.\<close>

partial_function (option) scan_high ::
    "(u32 \<Rightarrow> KVirtualMemoryAllocation) \<Rightarrow> u32 \<Rightarrow> u32 \<Rightarrow> u32 \<Rightarrow> (u32 \<times> u32) option" where
  "scan_high h vma addr siz =
     (if vma = 0 then Some (0, addr)
      else if va_VirtualAddress (h vma) + va_VirtualSize (h vma) \<le> addr then Some (vma, addr)
      else scan_high h (va_prev (h vma)) (va_VirtualAddress (h vma) - siz) siz)"

partial_function (option) scan_low ::
    "(u32 \<Rightarrow> KVirtualMemoryAllocation) \<Rightarrow> u32 \<Rightarrow> u32 \<Rightarrow> u32 \<Rightarrow> (u32 \<times> u32) option" where
  "scan_low h vma addr siz =
     (if vma = 0 then Some (0, addr)
      else if addr + siz \<le> va_VirtualAddress (h vma) then Some (vma, addr)
      else scan_low h (va_next (h vma)) (va_VirtualAddress (h vma) + va_VirtualSize (h vma)) siz)"

partial_function (option) scan_fixed :: "(u32 \<Rightarrow> KVirtualMemoryAllocation) \<Rightarrow> u32 \<Rightarrow> u32 \<Rightarrow> u32 option" where
  "scan_fixed h vma addr =
     (if vma \<noteq> 0 \<and> va_VirtualAddress (h vma) < addr then scan_fixed h (va_next (h vma)) addr else Some vma)"

text \<open>Finding the place and linking the area: the address, or \<open>None\<close> inside the result for \<open>BAD\<close>.\<close>

definition place_vma :: "vmref \<Rightarrow> u32 \<Rightarrow> u32 \<Rightarrow> u32 \<Rightarrow> u32 \<Rightarrow> kernel \<Rightarrow> (u32 option \<times> kernel) option" where
  "place_vma vm vmabuf addr siz flag s =
     (if flag AND ALLOC_RANDOM \<noteq> 0 then
        if flag AND ALLOC_HIGHMEM \<noteq> 0 then do {
          (vma, addr) \<leftarrow> scan_high (vmas s) (vm_LastAllocation (vms s vm)) (vm_UpperLimit (vms s vm) - siz) siz;
          if vma \<noteq> 0 then Some (Some addr, InsertPreviousVma vm vmabuf (va_next (vmas s vma)) s)
          else if addr < vm_LowerLimit (vms s vm) then Some (None, s)
          else
            let fa = vm_FirstAllocation (vms s vm);
                s = upd_vma vmabuf (\<lambda>r. r\<lparr>va_next := fa\<rparr>) s;
                s = (if fa \<noteq> 0 then upd_vma fa (\<lambda>r. r\<lparr>va_prev := vmabuf\<rparr>) s else s)
            in Some (Some addr, upd_vm vm (\<lambda>r. r\<lparr>vm_FirstAllocation := vmabuf\<rparr>) s) }
        else do {
          (vma, addr) \<leftarrow> scan_low (vmas s) (vm_FirstAllocation (vms s vm)) (vm_LowerLimit (vms s vm)) siz;
          if vma \<noteq> 0 then Some (Some addr, InsertPreviousVma vm vmabuf vma s)
          else if vm_UpperLimit (vms s vm) < addr + siz then Some (None, s)
          else Some (Some addr, InsertPreviousVma vm vmabuf 0 s) }
      else if addr < vm_LowerLimit (vms s vm) \<or> vm_UpperLimit (vms s vm) < addr + siz then Some (None, s)
      else do {
        vma \<leftarrow> scan_fixed (vmas s) (vm_FirstAllocation (vms s vm)) addr;
        if vma \<noteq> 0 \<and> va_VirtualAddress (vmas s vma) < addr + siz then Some (None, s)
        else Some (Some addr, InsertPreviousVma vm vmabuf vma s) })"

definition MmAllocateVirtualMemory :: "(kernel \<Rightarrow> kernel option) \<Rightarrow> vmref \<Rightarrow> u32 \<Rightarrow> u32 \<Rightarrow> u32 \<Rightarrow> u32 \<Rightarrow>
    kernel \<Rightarrow> (u32 \<times> kernel) option" where
  "MmAllocateVirtualMemory swapctx vm addr siz attr flag s =
     (if siz < PAGE_SIZE \<or> siz mod PAGE_SIZE \<noteq> 0 then Some (0, s)
      else do {
        (vmabuf, s) \<leftarrow> MmAllocateKernelMemory SIZEOF_VMA s;
        if vmabuf = 0 then Some (0, s)
        else do {
          s \<leftarrow> IpcLockSemaphore swapctx (AccessLock vm) s;
          (r, s) \<leftarrow> place_vma vm vmabuf addr siz flag s;
          case r of
            Some addr \<Rightarrow> do {
              let s = upd_vma vmabuf (\<lambda>r. r\<lparr>va_VirtualAddress := addr, va_VirtualSize := siz,
                        va_MemoryAttribute := attr, va_AllocationFlag := flag\<rparr>) s;
              s \<leftarrow> IpcUnlockSemaphore (AccessLock vm) s;
              Some (addr, s) }
          | None \<Rightarrow> do {
              s \<leftarrow> IpcUnlockSemaphore (AccessLock vm) s;
              Some (0, MmFreeKernelMemory vmabuf s) } } })"

partial_function (option) scan_vma :: "(u32 \<Rightarrow> KVirtualMemoryAllocation) \<Rightarrow> u32 \<Rightarrow> u32 \<Rightarrow> u32 option" where
  "scan_vma h vma addr =
     (if vma = 0 then Some 0
      else if va_VirtualAddress (h vma) \<le> addr \<and> addr < va_VirtualAddress (h vma) + va_VirtualSize (h vma)
      then Some vma
      else scan_vma h (va_prev (h vma)) addr)"

definition MmGetVmaByAddress :: "(kernel \<Rightarrow> kernel option) \<Rightarrow> vmref \<Rightarrow> u32 \<Rightarrow> kernel \<Rightarrow> (u32 \<times> kernel) option" where
  "MmGetVmaByAddress swapctx vm addr s =
     do {
       s \<leftarrow> IpcLockSemaphore swapctx (AccessLock vm) s;
       vma \<leftarrow> scan_vma (vmas s) (vm_LastAllocation (vms s vm)) addr;
       s \<leftarrow> IpcUnlockSemaphore (AccessLock vm) s;
       Some (vma, s) }"

text \<open>The result code and the four values written through the pointers, when they are written.\<close>

definition MmQueryVirtualAddressInformation :: "(kernel \<Rightarrow> kernel option) \<Rightarrow> vmref \<Rightarrow> u32 \<Rightarrow> kernel \<Rightarrow>
    (int \<times> (u32 \<times> u32 \<times> u32 \<times> u32) option \<times> kernel) option" where
  "MmQueryVirtualAddressInformation swapctx vm addr s =
     do {
       (vma, s) \<leftarrow> MmGetVmaByAddress swapctx vm addr s;
       if vma = 0 then Some (- ERR_NONE, None, s)
       else
         let a = vmas s vma
         in Some (0, Some (va_VirtualAddress a, va_VirtualAddress a + va_VirtualSize a,
                   va_MemoryAttribute a, va_AllocationFlag a), s) }"

definition unlink_vma :: "vmref \<Rightarrow> u32 \<Rightarrow> kernel \<Rightarrow> kernel" where
  "unlink_vma vm vma s =
     (let pr = va_prev (vmas s vma);
          s = (if pr \<noteq> 0 then upd_vma pr (\<lambda>r. r\<lparr>va_next := va_next (vmas s vma)\<rparr>) s
               else upd_vm vm (\<lambda>r. r\<lparr>vm_FirstAllocation := va_next (vmas s vma)\<rparr>) s);
          nx = va_next (vmas s vma)
      in if nx \<noteq> 0 then upd_vma nx (\<lambda>r. r\<lparr>va_prev := va_prev (vmas s vma)\<rparr>) s
         else upd_vm vm (\<lambda>r. r\<lparr>vm_LastAllocation := va_prev (vmas s vma)\<rparr>) s)"

definition MmFreeVirtualMemory :: "(kernel \<Rightarrow> kernel option) \<Rightarrow> vmref \<Rightarrow> u32 \<Rightarrow> kernel \<Rightarrow> (u32 \<times> kernel) option" where
  "MmFreeVirtualMemory swapctx vm p s =
     do {
       (vma, s) \<leftarrow> MmGetVmaByAddress swapctx vm p s;
       if vma \<noteq> 0 then do {
         s \<leftarrow> IpcLockSemaphore swapctx (AccessLock vm) s;
         let s = unlink_vma vm vma s;
         s \<leftarrow> IpcUnlockSemaphore (AccessLock vm) s;
         let siz = va_VirtualSize (vmas s vma);
         Some (siz, MmFreeKernelMemory vma s) }
       else Some (0, s) }"

end
