(* ===== verification/Paging.thy ===== *)
theory Paging
  imports VirtMem
begin

text \<open>
  Page tables, \<open>arch/i386/mmu/map.c\<close> and \<open>page.c\<close>. A page table is reached through one temporary window,
  the page at \<open>KERNEL_BASE + 0x303000\<close>: its page table entry is part of the state, a word written past the
  end of the window goes to the next page of the kernel's one-to-one mapping, physical frame \<open>0x304\<close>.
  The translation buffer is not modelled, so flushing an entry does nothing here; an assertion that
  fails ends the thread. The entry of the window and the page directories are fields of the state and not words of
  \<open>pmem\<close>: mapping the frames they lie in and writing there is not covered.
\<close>

abbreviation PAGE_ATTR_PRESENT :: u32 where "PAGE_ATTR_PRESENT \<equiv> 1"
abbreviation PAGE_ATTR_WRITE :: u32 where "PAGE_ATTR_WRITE \<equiv> 2"
abbreviation PAGE_ATTR_USER :: u32 where "PAGE_ATTR_USER \<equiv> 4"
abbreviation PAGE_ATTR_COPYONWRITE :: u32 where "PAGE_ATTR_COPYONWRITE \<equiv> 0x800"
abbreviation MAP_ADDRESS :: u32 where "MAP_ADDRESS \<equiv> 2"
abbreviation MAP_ATTRIBUTE :: u32 where "MAP_ATTRIBUTE \<equiv> 4"
abbreviation MAP_ZERO :: u32 where "MAP_ZERO \<equiv> 8"

section \<open>Page table entries\<close>

text \<open>The bit fields of \<open>PAGE_TABLE\<close>: present, write, user and the frame number.\<close>

definition pte_frame :: "u32 \<Rightarrow> u32" where "pte_frame e = drop_bit 12 e"

definition pte_set_frame :: "u32 \<Rightarrow> u32 \<Rightarrow> u32" where
  "pte_set_frame f e = push_bit 12 f OR (e AND 0xFFF)"

definition pte_flag :: "u32 \<Rightarrow> u32 \<Rightarrow> bool" where "pte_flag m e \<longleftrightarrow> e AND m \<noteq> 0"

definition pte_put :: "u32 \<Rightarrow> bool \<Rightarrow> u32 \<Rightarrow> u32" where
  "pte_put m b e = (if b then e OR m else e AND NOT m)"

section \<open>The temporary window\<close>

definition ArMapTemporaryPage :: "u32 \<Rightarrow> kernel \<Rightarrow> kernel" where
  "ArMapTemporaryPage phys_addr s = s\<lparr>temp_pte := phys_addr OR 3\<rparr>"

text \<open>The physical word behind word \<open>w\<close> of the window.\<close>

definition window_word :: "kernel \<Rightarrow> u32 \<Rightarrow> u32" where
  "window_word s w =
     (if w < 1024 then pte_frame (temp_pte s) * 1024 + w else 0x304 * 1024 + (w - 1024))"

definition window_read :: "u32 \<Rightarrow> kernel \<Rightarrow> u32" where
  "window_read w s = pmem s (window_word s w)"

definition window_write :: "u32 \<Rightarrow> u32 \<Rightarrow> kernel \<Rightarrow> kernel" where
  "window_write w v s = s\<lparr>pmem := (pmem s)(window_word s w := v)\<rparr>"

text \<open>\<open>RtlZeroMemory32\<close> on the window: \<open>n\<close> words from word \<open>w\<close>.\<close>

primrec window_zero :: "u32 \<Rightarrow> nat \<Rightarrow> kernel \<Rightarrow> kernel" where
  "window_zero w 0 s = s"
| "window_zero w (Suc n) s = window_zero (w + 1) n (window_write w 0 s)"

definition dir_entry :: "u32 \<Rightarrow> u32 \<Rightarrow> kernel \<Rightarrow> u32" where
  "dir_entry space i s = pdirs s (pd_VirtualAddress (sp_PageDirectory (spaces s space))) i"

definition set_dir_entry :: "u32 \<Rightarrow> u32 \<Rightarrow> u32 \<Rightarrow> kernel \<Rightarrow> kernel" where
  "set_dir_entry space i e s =
     (let va = pd_VirtualAddress (sp_PageDirectory (spaces s space))
      in s\<lparr>pdirs := (pdirs s)(va := (pdirs s va)(i := e))\<rparr>)"

definition table_index :: "u32 \<Rightarrow> u32" where
  "table_index virt_addr = drop_bit 22 (push_bit 10 virt_addr)"

section \<open>Looking up and mapping a page\<close>

text \<open>The result code, and the address and attributes when they are written.\<close>

definition ArQueryPageInformation :: "u32 \<Rightarrow> u32 \<Rightarrow> kernel \<Rightarrow> (int \<times> (u32 \<times> u32) option \<times> kernel) option" where
  "ArQueryPageInformation space virt_addr s =
     (if virt_addr mod PAGE_SIZE \<noteq> 0 then None
      else
        let de = dir_entry space (drop_bit 22 virt_addr) s
        in if de = 0 then Some (- 1, None, s)
           else
             let (eflags, s) = ArLocalSaveIrq s;
                 s = ArMapTemporaryPage (push_bit 12 (pte_frame de)) s;
                 d = window_read (table_index virt_addr) s;
                 s = ArLocalRestoreIrq eflags s;
                 attr = (if pte_flag PAGE_ATTR_USER d then PAGE_ATTR_USER else 0)
                     OR (if pte_flag PAGE_ATTR_WRITE d then PAGE_ATTR_WRITE else 0)
                     OR (if pte_flag PAGE_ATTR_PRESENT d then PAGE_ATTR_PRESENT else 0)
             in Some (0, Some (push_bit 12 (pte_frame d), attr), s))"

text \<open>The entry \<open>ArMapOnePage\<close> leaves, from the one it finds.\<close>

definition new_pte :: "u32 \<Rightarrow> u32 \<Rightarrow> u32 \<Rightarrow> u32 \<Rightarrow> u32" where
  "new_pte phys_addr attr flag e =
     (let e = (if flag AND MAP_ADDRESS \<noteq> 0 then
                 let e = pte_set_frame (drop_bit 12 phys_addr) e
                 in if \<not> pte_flag PAGE_ATTR_PRESENT e \<and> attr AND PAGE_ATTR_PRESENT = 0
                    then pte_put PAGE_ATTR_PRESENT True e else e
               else e)
      in if flag AND MAP_ATTRIBUTE \<noteq> 0 then
           let e = pte_put PAGE_ATTR_USER (attr AND PAGE_ATTR_USER \<noteq> 0) e;
               e = pte_put PAGE_ATTR_WRITE (attr AND PAGE_ATTR_WRITE \<noteq> 0) e
           in pte_put PAGE_ATTR_PRESENT (attr AND PAGE_ATTR_PRESENT \<noteq> 0) e
         else e)"

text \<open>The part of \<open>ArMapOnePage\<close> after the directory entry \<open>de\<close> is known.\<close>

definition map_in_table :: "u32 \<Rightarrow> bool \<Rightarrow> u32 \<Rightarrow> u32 \<Rightarrow> u32 \<Rightarrow> u32 \<Rightarrow> kernel \<Rightarrow> kernel" where
  "map_in_table de newpage virt_addr phys_addr attr flag s =
     (let (eflags, s) = ArLocalSaveIrq s;
          s = ArMapTemporaryPage (push_bit 12 (pte_frame de)) s;
          te = table_index virt_addr;
          s = (if newpage then window_zero te 1024 s else s);
          e = window_read te s;
          zero_addr = (if flag AND MAP_ADDRESS \<noteq> 0 then phys_addr else push_bit 12 (pte_frame e));
          s = window_write te (new_pte phys_addr attr flag e) s;
          s = (if flag AND MAP_ZERO \<noteq> 0 then window_zero 0 1024 (ArMapTemporaryPage zero_addr s) else s)
      in ArLocalRestoreIrq eflags s)"

definition ArMapOnePage :: "u32 \<Rightarrow> u32 \<Rightarrow> u32 \<Rightarrow> u32 \<Rightarrow> u32 \<Rightarrow> kernel \<Rightarrow> kernel option" where
  "ArMapOnePage space virt_addr phys_addr attr flag s =
     (if phys_addr mod PAGE_SIZE \<noteq> 0 \<or> virt_addr mod PAGE_SIZE \<noteq> 0 then None
      else
        let i = drop_bit 22 virt_addr
        in if dir_entry space i s = 0 then
             let (p, s) = MmGetPhysicalPage s;
                 s = set_dir_entry space i p s
             in if p = 0 then Some s
                else
                  let de = p OR PAGE_ATTR_USER OR PAGE_ATTR_WRITE OR PAGE_ATTR_PRESENT;
                      s = set_dir_entry space i de s
                  in Some (map_in_table de True virt_addr phys_addr attr flag s)
           else Some (map_in_table (dir_entry space i s) False virt_addr phys_addr attr flag s))"

definition ArUnmapOnePage :: "u32 \<Rightarrow> u32 \<Rightarrow> kernel \<Rightarrow> kernel option" where
  "ArUnmapOnePage space virt_addr s =
     do {
       (r, _, s) \<leftarrow> ArQueryPageInformation space virt_addr s;
       if r = 0 then ArMapOnePage space virt_addr 0 0 (MAP_ADDRESS OR MAP_ATTRIBUTE) s else Some s }"

primrec map_pages :: "nat \<Rightarrow> u32 \<Rightarrow> u32 \<Rightarrow> u32 \<Rightarrow> u32 \<Rightarrow> u32 \<Rightarrow> kernel \<Rightarrow> kernel option" where
  "map_pages 0 space virt_addr phys_addr attr flag s = Some s"
| "map_pages (Suc n) space virt_addr phys_addr attr flag s =
     do {
       s \<leftarrow> ArMapOnePage space virt_addr phys_addr attr flag s;
       map_pages n space (virt_addr + PAGE_SIZE) (phys_addr + PAGE_SIZE) attr flag s }"

definition ArMapMultiplePages :: "u32 \<Rightarrow> u32 \<Rightarrow> u32 \<Rightarrow> u32 \<Rightarrow> u32 \<Rightarrow> u32 \<Rightarrow> kernel \<Rightarrow> kernel option" where
  "ArMapMultiplePages space virt_addr phys_addr siz attr flag s =
     map_pages (unat (drop_bit 12 siz)) space virt_addr phys_addr attr flag s"

primrec unmap_pages :: "nat \<Rightarrow> u32 \<Rightarrow> u32 \<Rightarrow> kernel \<Rightarrow> kernel option" where
  "unmap_pages 0 space virt_addr s = Some s"
| "unmap_pages (Suc n) space virt_addr s =
     do { s \<leftarrow> ArUnmapOnePage space virt_addr s; unmap_pages n space (virt_addr + PAGE_SIZE) s }"

definition ArUnmapMultiplePages :: "u32 \<Rightarrow> u32 \<Rightarrow> u32 \<Rightarrow> kernel \<Rightarrow> kernel option" where
  "ArUnmapMultiplePages space virt_addr siz s = unmap_pages (unat (drop_bit 12 siz)) space virt_addr s"

section \<open>Page directories\<close>

text \<open>\<open>ArInitializePaging\<close>: page tables for the kernel addresses above the first 4 MB, all zero. The page
  fault handler is installed by number.\<close>

abbreviation PAGEFAULT_INTERRUPT :: u32 where "PAGEFAULT_INTERRUPT \<equiv> 14"

primrec init_tables :: "u32 \<Rightarrow> nat \<Rightarrow> kernel \<Rightarrow> kernel" where
  "init_tables i 0 s = s"
| "init_tables i (Suc n) s =
     (let (p, s) = MmGetPhysicalPage s;
          s = window_zero 0 1024 (ArMapTemporaryPage p s);
          s = s\<lparr>pdirs := (pdirs s)(0xC0300000 := (pdirs s 0xC0300000)(i :=
                p OR PAGE_ATTR_WRITE OR PAGE_ATTR_USER OR PAGE_ATTR_PRESENT))\<rparr>
      in init_tables (i + 1) n s)"

definition ArInitializePaging :: "u32 \<Rightarrow> (u32 \<Rightarrow> kernel \<Rightarrow> kernel) \<Rightarrow> kernel \<Rightarrow> kernel option" where
  "ArInitializePaging mem_size install s =
     (if mem_size = 0 then None
      else
        let s = MmInitializePhysicalMemoryManagement 0x100000 mem_size s;
            s = install PAGEFAULT_INTERRUPT s;
            s = s\<lparr>KernelPageDirectory := \<lparr>pd_PhysicalAddress = 0x00300000, pd_VirtualAddress = 0xC0300000\<rparr>\<rparr>;
            s = init_tables 769 255 s;
            s = s\<lparr>pdirs := (pdirs s)(0xC0300000 := (\<lambda>i. if i < 768 then 0 else pdirs s 0xC0300000 i))\<rparr>;
            space = MmGetCurrentSpace s
        in Some (if space \<noteq> 0 then ArLoadPageDirectory (sp_PageDirectory (spaces s space)) s
                 else s\<lparr>loaded_directory := KernelPageDirectory s\<rparr>))"

definition ArInitializePageDirectory :: "KPageDirectory \<Rightarrow> kernel \<Rightarrow> kernel" where
  "ArInitializePageDirectory dir s =
     (let dva = pd_VirtualAddress dir; kva = pd_VirtualAddress (KernelPageDirectory s);
          s = s\<lparr>pdirs := (pdirs s)(dva := (\<lambda>i. if 768 \<le> i \<and> i < 1024 then pdirs s kva i else pdirs s dva i))\<rparr>
      in s\<lparr>pdirs := (pdirs s)(dva := (\<lambda>i. if i < 768 then 0 else pdirs s dva i))\<rparr>)"

end
