(* ===== verification/PageOps.thy ===== *)
theory PageOps
  imports Paging
begin

text \<open>
  Physical pages behind virtual addresses, the second part of \<open>kernel/mm/physical.c\<close>: acquiring and
  releasing the frames of a range, swapping and sharing pages between spaces, and the two page fault
  handlers. \<open>KERROR\<close> and \<open>KeBugCheck\<close> do not return.
\<close>

abbreviation KERNEL_BASE :: u32 where "KERNEL_BASE \<equiv> 0xC0000000"
abbreviation KERNEL_MEMORY_BEG :: u32 where "KERNEL_MEMORY_BEG \<equiv> 0xC0400000"
abbreviation KERNEL_MEMORY_END :: u32 where "KERNEL_MEMORY_END \<equiv> 0xE0000000"
abbreviation KERNEL_MEMORY_POOL_END :: u32 where "KERNEL_MEMORY_POOL_END \<equiv> 0xD0000000"
abbreviation GLOBAL_MEMORY_BEG :: u32 where "GLOBAL_MEMORY_BEG \<equiv> 0xE0000000"
abbreviation GLOBAL_MEMORY_END :: u32 where "GLOBAL_MEMORY_END \<equiv> 0xE0400000"

definition IS_KERNEL_MEMORY :: "u32 \<Rightarrow> bool" where
  "IS_KERNEL_MEMORY addr \<longleftrightarrow> KERNEL_BASE \<le> addr \<and> addr < KERNEL_MEMORY_END"
definition IS_GLOBAL_MEMORY :: "u32 \<Rightarrow> bool" where "IS_GLOBAL_MEMORY addr \<longleftrightarrow> GLOBAL_MEMORY_BEG \<le> addr"
definition IS_USER_MEMORY :: "u32 \<Rightarrow> bool" where "IS_USER_MEMORY addr \<longleftrightarrow> addr < KERNEL_BASE"

section \<open>Acquire and release\<close>

definition MmAcquirePhysicalPage :: "u32 \<Rightarrow> u32 \<Rightarrow> u32 \<Rightarrow> u32 \<Rightarrow> kernel \<Rightarrow> (int \<times> kernel) option" where
  "MmAcquirePhysicalPage space addr attr flag s =
     (let (phys_addr, s) = MmGetPhysicalPage s
      in if phys_addr = 0 then Some (- ERR_NOMEM, s)
         else do {
           s \<leftarrow> ArMapOnePage space addr phys_addr (attr OR PAGE_ATTR_PRESENT) (MAP_ADDRESS OR flag) s;
           Some (0, s) })"

definition MmReleasePhysicalPage :: "u32 \<Rightarrow> u32 \<Rightarrow> kernel \<Rightarrow> kernel option" where
  "MmReleasePhysicalPage space addr s =
     do {
       (r, info, s) \<leftarrow> ArQueryPageInformation space addr s;
       case info of
         None \<Rightarrow> Some s
       | Some (phys_addr, attr) \<Rightarrow> do {
           s \<leftarrow> ArMapOnePage space addr 0 0 MAP_ATTRIBUTE s;
           Some (if attr AND PAGE_ATTR_PRESENT \<noteq> 0 then MmFreePhysicalPage phys_addr s else s) } }"

text \<open>The loops; \<open>count\<close> pages are left, the result is the number of pages done.\<close>

primrec acquire_pages :: "nat \<Rightarrow> u32 \<Rightarrow> u32 \<Rightarrow> u32 \<Rightarrow> u32 \<Rightarrow> kernel \<Rightarrow> (nat \<times> kernel) option" where
  "acquire_pages 0 space addr attr flag s = Some (0, s)"
| "acquire_pages (Suc n) space addr attr flag s =
     do {
       (r, s) \<leftarrow> MmAcquirePhysicalPage space addr attr flag s;
       if r \<noteq> 0 then Some (0, s)
       else do { (k, s) \<leftarrow> acquire_pages n space (addr + PAGE_SIZE) attr flag s; Some (Suc k, s) } }"

definition MmAcquireMultiplePhysicalPages :: "u32 \<Rightarrow> u32 \<Rightarrow> u32 \<Rightarrow> u32 \<Rightarrow> u32 \<Rightarrow> kernel \<Rightarrow> (u32 \<times> kernel) option" where
  "MmAcquireMultiplePhysicalPages space addr siz attr flag s =
     do {
       let count = unat (drop_bit 12 siz);
       (k, s) \<leftarrow> acquire_pages count space addr attr flag s;
       Some (if k = count then siz else siz - of_nat (count - k) * PAGE_SIZE, s) }"

primrec release_pages :: "nat \<Rightarrow> u32 \<Rightarrow> u32 \<Rightarrow> kernel \<Rightarrow> kernel option" where
  "release_pages 0 space addr s = Some s"
| "release_pages (Suc n) space addr s =
     do { s \<leftarrow> MmReleasePhysicalPage space addr s; release_pages n space (addr + PAGE_SIZE) s }"

definition MmReleaseMultiplePhysicalPages :: "u32 \<Rightarrow> u32 \<Rightarrow> u32 \<Rightarrow> kernel \<Rightarrow> kernel option" where
  "MmReleaseMultiplePhysicalPages space addr siz s = release_pages (unat (drop_bit 12 siz)) space addr s"

section \<open>Swap\<close>

text \<open>The variables start at 0 and keep it when the page has no table.\<close>

definition MmSwapPhysicalPage :: "u32 \<Rightarrow> u32 \<Rightarrow> u32 \<Rightarrow> u32 \<Rightarrow> u32 \<Rightarrow> kernel \<Rightarrow> (int \<times> kernel) option" where
  "MmSwapPhysicalPage destSp dest_addr srcSp src_addr flag s =
     do {
       (_, d, s) \<leftarrow> ArQueryPageInformation destSp dest_addr s;
       (_, r, s) \<leftarrow> ArQueryPageInformation srcSp src_addr s;
       let (paD, atD) = (case d of Some x \<Rightarrow> x | None \<Rightarrow> (0, 0));
       let (paS, atS) = (case r of Some x \<Rightarrow> x | None \<Rightarrow> (0, 0));
       s \<leftarrow> ArMapOnePage destSp dest_addr paS atS flag s;
       s \<leftarrow> ArMapOnePage srcSp src_addr paD atD flag s;
       Some (0, s) }"

primrec swap_pages :: "nat \<Rightarrow> u32 \<Rightarrow> u32 \<Rightarrow> u32 \<Rightarrow> u32 \<Rightarrow> u32 \<Rightarrow> kernel \<Rightarrow> (nat \<times> kernel) option" where
  "swap_pages 0 destSp dest_addr srcSp src_addr flag s = Some (0, s)"
| "swap_pages (Suc n) destSp dest_addr srcSp src_addr flag s =
     do {
       (r, s) \<leftarrow> MmSwapPhysicalPage destSp dest_addr srcSp src_addr flag s;
       if r < 0 then Some (0, s)
       else do {
         (k, s) \<leftarrow> swap_pages n destSp (dest_addr + PAGE_SIZE) srcSp (src_addr + PAGE_SIZE) flag s;
         Some (Suc k, s) } }"

text \<open>An area that is not found is a null pointer, whose fields are whatever is at address 0.\<close>

definition MmSwapMultiplePhysicalPages :: "(kernel \<Rightarrow> kernel option) \<Rightarrow> u32 \<Rightarrow> u32 \<Rightarrow> u32 \<Rightarrow> u32 \<Rightarrow> u32 \<Rightarrow> u32 \<Rightarrow>
    kernel \<Rightarrow> (u32 \<times> kernel) option" where
  "MmSwapMultiplePhysicalPages swapctx destSp dest_addr srcSp src_addr siz flag s =
     (if dest_addr mod PAGE_SIZE \<noteq> 0 \<or> src_addr mod PAGE_SIZE \<noteq> 0 \<or> siz mod PAGE_SIZE \<noteq> 0 then Some (0, s)
      else do {
        (v, s) \<leftarrow> MmGetVmaByAddress swapctx (SpaceVirtualMemory srcSp) src_addr s;
        let vma = vmas s v;
        if va_AllocationFlag vma AND ALLOC_SWAP = 0 \<or> va_VirtualAddress vma + va_VirtualSize vma < src_addr + siz
        then Some (0, s)
        else do {
          (v, s) \<leftarrow> MmGetVmaByAddress swapctx (SpaceVirtualMemory destSp) dest_addr s;
          let vma = vmas s v;
          if va_AllocationFlag vma AND ALLOC_SWAP = 0 \<or> va_VirtualAddress vma + va_VirtualSize vma < dest_addr + siz
          then Some (0, s)
          else do {
            let count = unat (drop_bit 12 siz);
            (k, s) \<leftarrow> swap_pages count destSp dest_addr srcSp src_addr flag s;
            Some (if k = count then siz else siz - of_nat (count - k) * PAGE_SIZE, s) } } })"

section \<open>Sharing\<close>

definition MmDuplicatePhysicalPage :: "u32 \<Rightarrow> u32 \<Rightarrow> u32 \<Rightarrow> u32 \<Rightarrow> kernel \<Rightarrow> (int \<times> kernel) option" where
  "MmDuplicatePhysicalPage destSp dest_addr srcSp src_addr s =
     do {
       (_, r, s) \<leftarrow> ArQueryPageInformation srcSp src_addr s;
       case r of
         None \<Rightarrow> Some (- ERR_INVALID, s)
       | Some (paS, atS) \<Rightarrow> do {
           (_, d, s) \<leftarrow> ArQueryPageInformation destSp dest_addr s;
           let atD = (case d of Some (_, a) \<Rightarrow> a | None \<Rightarrow> 0);
           if atD AND PAGE_ATTR_PRESENT \<noteq> 0 then Some (- ERR_INVALID, s)
           else do {
             let s = IncreasePhysicalPageReference paS s;
             let atS = atS AND NOT PAGE_ATTR_WRITE;
             s \<leftarrow> ArMapOnePage destSp dest_addr paS atS (MAP_ADDRESS OR MAP_ATTRIBUTE) s;
             s \<leftarrow> ArMapOnePage srcSp src_addr paS atS (MAP_ADDRESS OR MAP_ATTRIBUTE) s;
             Some (0, s) } } }"

primrec duplicate_pages :: "nat \<Rightarrow> u32 \<Rightarrow> u32 \<Rightarrow> u32 \<Rightarrow> u32 \<Rightarrow> kernel \<Rightarrow> (nat \<times> kernel) option" where
  "duplicate_pages 0 destSp dest_addr srcSp src_addr s = Some (0, s)"
| "duplicate_pages (Suc n) destSp dest_addr srcSp src_addr s =
     do {
       (r, s) \<leftarrow> MmDuplicatePhysicalPage destSp dest_addr srcSp src_addr s;
       if r < 0 then Some (0, s)
       else do {
         (k, s) \<leftarrow> duplicate_pages n destSp (dest_addr + PAGE_SIZE) srcSp (src_addr + PAGE_SIZE) s;
         Some (Suc k, s) } }"

definition MmDuplicateMultiplePhysicalPages :: "(kernel \<Rightarrow> kernel option) \<Rightarrow> u32 \<Rightarrow> u32 \<Rightarrow> u32 \<Rightarrow> u32 \<Rightarrow> u32 \<Rightarrow>
    kernel \<Rightarrow> (u32 \<times> kernel) option" where
  "MmDuplicateMultiplePhysicalPages swapctx destSp dest_addr srcSp src_addr siz s =
     (if dest_addr mod PAGE_SIZE \<noteq> 0 \<or> src_addr mod PAGE_SIZE \<noteq> 0 \<or> siz mod PAGE_SIZE \<noteq> 0 then Some (0, s)
      else do {
        (v, s) \<leftarrow> MmGetVmaByAddress swapctx (SpaceVirtualMemory srcSp) src_addr s;
        let vma = vmas s v;
        if va_MemoryAttribute vma AND PAGE_ATTR_WRITE = 0
          \<or> va_VirtualAddress vma + va_VirtualSize vma < src_addr + siz
        then Some (0, s)
        else do {
          let s = upd_vma v (\<lambda>r. r\<lparr>va_AllocationFlag := va_AllocationFlag r OR PAGE_ATTR_COPYONWRITE\<rparr>) s;
          (v, s) \<leftarrow> MmGetVmaByAddress swapctx (SpaceVirtualMemory destSp) dest_addr s;
          let vma = vmas s v;
          if va_MemoryAttribute vma AND PAGE_ATTR_WRITE = 0
            \<or> va_VirtualAddress vma + va_VirtualSize vma < dest_addr + siz
            \<or> va_AllocationFlag vma AND ALLOC_VIRTUAL = 0
          then Some (0, s)
          else do {
            let s = upd_vma v (\<lambda>r. r\<lparr>va_AllocationFlag := va_AllocationFlag r OR PAGE_ATTR_COPYONWRITE\<rparr>) s;
            let count = unat (drop_bit 12 siz);
            (k, s) \<leftarrow> duplicate_pages count destSp dest_addr srcSp src_addr s;
            if k < count then Some (siz - of_nat (count - k) * PAGE_SIZE, s)
            else Some (siz,
              upd_vma v (\<lambda>r. r\<lparr>va_AllocationFlag := va_AllocationFlag r AND NOT ALLOC_VIRTUAL\<rparr>) s) } } })"

definition MmMapMemory :: "(kernel \<Rightarrow> kernel option) \<Rightarrow> u32 \<Rightarrow> u32 \<Rightarrow> u32 \<Rightarrow> u32 \<Rightarrow> u32 \<Rightarrow> u32 \<Rightarrow>
    kernel \<Rightarrow> (int \<times> kernel) option" where
  "MmMapMemory swapctx space virt_addr phys_addr siz attr flag s =
     do {
       (v, s) \<leftarrow> MmGetVmaByAddress swapctx
          (if IS_KERNEL_MEMORY virt_addr then KernelVirtualMemory
           else if IS_USER_MEMORY virt_addr then SpaceVirtualMemory space
           else GlobalVirtualMemory) virt_addr s;
       let vma = vmas s v;
       if v = 0 \<or> va_AllocationFlag vma AND ALLOC_VIRTUAL = 0
         \<or> va_VirtualAddress vma + va_VirtualSize vma < virt_addr + siz
       then Some (- ERR_INVALID, s)
       else do {
         (_, q, s) \<leftarrow> ArQueryPageInformation space virt_addr s;
         let q_attr = (case q of Some (_, a) \<Rightarrow> a | None \<Rightarrow> 0);
         if q_attr AND PAGE_ATTR_PRESENT \<noteq> 0 then Some (- ERR_INVALID, s)
         else do {
           let attr = attr OR va_MemoryAttribute (vmas s v);
           s \<leftarrow> ArMapMultiplePages space virt_addr phys_addr siz attr (flag OR MAP_ATTRIBUTE) s;
           Some (0, s) } } }"

section \<open>Page faults\<close>

text \<open>The frame the processor reads when the kernel reads \<open>addr\<close>: through the loaded page directory.\<close>

definition mmu_frame :: "u32 \<Rightarrow> kernel \<Rightarrow> u32" where
  "mmu_frame addr s =
     (let de = pdirs s (pd_VirtualAddress (loaded_directory s)) (drop_bit 22 addr)
      in pte_frame (pmem s (pte_frame de * 1024 + table_index addr)))"

text \<open>\<open>RtlCopyMemory32\<close> from a page to the window, word by word from low addresses.\<close>

primrec window_copy :: "u32 \<Rightarrow> u32 \<Rightarrow> nat \<Rightarrow> kernel \<Rightarrow> kernel" where
  "window_copy addr w 0 s = s"
| "window_copy addr w (Suc n) s =
     window_copy addr (w + 1) n (window_write w (pmem s (mmu_frame addr s * 1024 + w)) s)"

definition MmHandleReadOnlyPageFault :: "(kernel \<Rightarrow> kernel option) \<Rightarrow> u32 \<Rightarrow> u32 \<Rightarrow> kernel \<Rightarrow> (bool \<times> kernel) option" where
  "MmHandleReadOnlyPageFault swapctx space addr s =
     do {
       (v, s) \<leftarrow> MmGetVmaByAddress swapctx
          (if IS_KERNEL_MEMORY addr then KernelVirtualMemory else SpaceVirtualMemory space) addr s;
       if v \<noteq> 0 \<and> va_AllocationFlag (vmas s v) AND PAGE_ATTR_COPYONWRITE \<noteq> 0 then do {
         let addr = push_bit 12 (drop_bit 12 addr);
         (_, info, s) \<leftarrow> ArQueryPageInformation space addr s;
         case info of
           None \<Rightarrow> Some (False, s)
         | Some (phys_addr, attr) \<Rightarrow>
             if 1 < GetPhysicalPageReference phys_addr s then do {
               let (phys_addr, s) = MmGetPhysicalPage s;
               if phys_addr = 0 then None
               else do {
                 let (eflags, s) = ArLocalSaveIrq s;
                 let s = ArMapTemporaryPage phys_addr s;
                 let s = window_copy addr 0 1024 s;
                 let s = ArLocalRestoreIrq eflags s;
                 s \<leftarrow> ArMapOnePage space addr phys_addr (va_MemoryAttribute (vmas s v))
                        (MAP_ADDRESS OR MAP_ATTRIBUTE) s;
                 Some (True, MmFreePhysicalPage phys_addr s) } }
             else do {
               s \<leftarrow> ArMapOnePage space addr 0 (va_MemoryAttribute (vmas s v)) MAP_ATTRIBUTE s;
               Some (True, s) } }
       else Some (False, s) }"

definition MmHandleNonPresentPageFault :: "(kernel \<Rightarrow> kernel option) \<Rightarrow> u32 \<Rightarrow> u32 \<Rightarrow> kernel \<Rightarrow> (bool \<times> kernel) option" where
  "MmHandleNonPresentPageFault swapctx space addr s =
     do {
       (v, s) \<leftarrow> (if IS_KERNEL_MEMORY addr then MmGetVmaByAddress swapctx KernelVirtualMemory addr s
                 else if IS_USER_MEMORY addr then MmGetVmaByAddress swapctx (SpaceVirtualMemory space) addr s
                 else if IS_GLOBAL_MEMORY addr then MmGetVmaByAddress swapctx GlobalVirtualMemory addr s
                 else None);
       if v = 0 then Some (False, s)
       else if va_AllocationFlag (vmas s v) AND ALLOC_LAZY \<noteq> 0 then do {
         let mapFlag = (if va_AllocationFlag (vmas s v) AND ALLOC_ZERO \<noteq> 0 then MAP_ATTRIBUTE OR MAP_ZERO
                        else MAP_ATTRIBUTE);
         let addr = push_bit 12 (drop_bit 12 addr);
         (r, s) \<leftarrow> MmAcquirePhysicalPage space addr (va_MemoryAttribute (vmas s v)) mapFlag s;
         if r \<noteq> 0 then None else Some (True, s) }
       else None }"

text \<open>\<open>arch/i386/mmu/fault.c\<close>: \<open>addr\<close> is what the processor left in \<open>cr2\<close>.\<close>

definition pagefault_handler :: "(kernel \<Rightarrow> kernel option) \<Rightarrow> u32 \<Rightarrow> u32 \<Rightarrow> kernel \<Rightarrow> (bool \<times> kernel) option" where
  "pagefault_handler swapctx addr err_code s =
     (let space = MmGetCurrentSpace s;
          s = (if TmGetCurrentThread s \<noteq> 0 \<and> \<not> in_allocator s then s\<lparr>irq_enabled := True\<rparr> else s)
      in if err_code AND PAGE_ATTR_PRESENT = 0 then MmHandleNonPresentPageFault swapctx space addr s
         else if err_code AND PAGE_ATTR_WRITE \<noteq> 0 then MmHandleReadOnlyPageFault swapctx space addr s
         else Some (False, s))"

end
