(* ===== verification/Space.thy ===== *)
theory Space
  imports PageOps
begin

text \<open>
  Address spaces, \<open>kernel/mm/space.c\<close>, and the memory they own: the pools of \<open>kernelmemory.c\<close> and
  \<open>globalmemory.c\<close> and the user memory of \<open>usermemory.c\<close>, which is accounted against the capacity of
  the space. The statically allocated first space has the address the argument \<open>init_space\<close> gives.
\<close>

abbreviation SPACE_MAGIC :: u32 where "SPACE_MAGIC \<equiv> 0xFF0B46FC"

definition GenerateSpaceId :: "kernel \<Rightarrow> u32 \<times> kernel" where
  "GenerateSpaceId s = (ucast (spaceId s), s\<lparr>spaceId := spaceId s + 4\<rparr>)"

text \<open>The loop over the children of the first space.\<close>

partial_function (option) space_scan :: "(u32 \<Rightarrow> KSpace) \<Rightarrow> u32 \<Rightarrow> u32 \<Rightarrow> u32 option" where
  "space_scan h space spid =
     (if space = 0 then Some 0
      else if sp_SpaceId (h space) = spid then Some space
      else space_scan h (sp_next (h space)) spid)"

definition MmGetSpaceById :: "u32 \<Rightarrow> kernel \<Rightarrow> u32 option" where
  "MmGetSpaceById spid s =
     (if sp_SpaceId (spaces s (FirstSpace s)) = spid then Some (FirstSpace s)
      else space_scan (spaces s) (sp_child (spaces s (FirstSpace s))) spid)"

definition MmInitializeSpaceBasicInformation :: "u32 \<Rightarrow> kernel \<Rightarrow> kernel option" where
  "MmInitializeSpaceBasicInformation space s =
     (let (spid, s) = GenerateSpaceId s;
          s = upd_space space (\<lambda>r. r\<lparr>sp_SpaceId := spid\<rparr>) s;
          s = upd_meminfo space (\<lambda>m. m\<lparr>mi_UserMemoryCapacity := push_bit 30 1\<rparr>) s;
          s = upd_meminfo space (\<lambda>m. m\<lparr>mi_KernelMemoryCapacity := 0x01000000\<rparr>) s
      in MmInitializeVirtualMemory (SpaceVirtualMemory space) 0x100000 KERNEL_BASE s)"

definition MmInitializeSpaceManagement :: "u32 \<Rightarrow> kernel \<Rightarrow> kernel" where
  "MmInitializeSpaceManagement init_space s =
     (let s = s\<lparr>spaceId := 0\<rparr>;
          s = s\<lparr>FirstSpace := init_space\<rparr>;
          s = upd_space init_space (\<lambda>_. zero_space) s;
          s = upd_space init_space (\<lambda>r. r\<lparr>sp_Magic := SPACE_MAGIC\<rparr>) s;
          s = upd_space init_space (\<lambda>r. r\<lparr>sp_PageDirectory := KernelPageDirectory s\<rparr>) s
      in s\<lparr>CurrentSpace := FirstSpace s\<rparr>)"

definition MmCreateSpace :: "(kernel \<Rightarrow> kernel option) \<Rightarrow> u32 \<Rightarrow> kernel \<Rightarrow> (u32 \<times> kernel) option" where
  "MmCreateSpace swapctx parent s =
     (if parent = 0 then Some (0, s)
      else do {
        (space, s) \<leftarrow> MmAllocateKernelMemory SIZEOF_KSpace s;
        if space = 0 then Some (0, s)
        else do {
          let s = upd_space space (\<lambda>_. zero_space) s;
          let s = upd_space space (\<lambda>r. r\<lparr>sp_Magic := SPACE_MAGIC\<rparr>) s;
          (va, s) \<leftarrow> MmAllocateVirtualMemory swapctx KernelVirtualMemory 0 PAGE_SIZE PAGE_ATTR_WRITE ALLOC_RANDOM s;
          let s = upd_space space (\<lambda>r. r\<lparr>sp_PageDirectory := (sp_PageDirectory r)\<lparr>pd_VirtualAddress := va\<rparr>\<rparr>) s;
          if va = 0 then Some (0, MmFreeKernelMemory space s)
          else do {
            (r, s) \<leftarrow> MmAcquireMultiplePhysicalPages (MmGetCurrentSpace s) va PAGE_SIZE PAGE_ATTR_WRITE MAP_ATTRIBUTE s;
            if sint r < 0 then do {
              (_, s) \<leftarrow> MmFreeVirtualMemory swapctx KernelVirtualMemory va s;
              Some (0, MmFreeKernelMemory space s) }
            else do {
              (_, info, s) \<leftarrow> ArQueryPageInformation (FirstSpace s) va s;
              let s = (case info of
                         Some (phys, _) \<Rightarrow> upd_space space
                           (\<lambda>r. r\<lparr>sp_PageDirectory := (sp_PageDirectory r)\<lparr>pd_PhysicalAddress := phys\<rparr>\<rparr>) s
                       | None \<Rightarrow> s);
              let s = ArInitializePageDirectory (sp_PageDirectory (spaces s space)) s;
              s \<leftarrow> MmInitializeSpaceBasicInformation space s;
              let s = upd_space space (\<lambda>r. r\<lparr>sp_UserId := sp_UserId (spaces s parent)\<rparr>) s;
              let s = upd_space space (\<lambda>r. r\<lparr>sp_parent := parent\<rparr>) s;
              let (flags, s) = ArLocalSaveIrq s;
              let ch = sp_child (spaces s parent);
              let s = upd_space space (\<lambda>r. r\<lparr>sp_next := ch\<rparr>) s;
              let s = (if ch \<noteq> 0 then upd_space ch (\<lambda>r. r\<lparr>sp_prev := space\<rparr>) s else s);
              let s = upd_space parent (\<lambda>r. r\<lparr>sp_child := space\<rparr>) s;
              Some (space, ArLocalRestoreIrq flags s) } } } })"

definition MmDestroySpace :: "u32 \<Rightarrow> kernel \<Rightarrow> int \<times> kernel" where
  "MmDestroySpace space s = (0, s)"

section \<open>Pools\<close>

definition MmInitializeKernelMemoryPool :: "(kernel \<Rightarrow> kernel option) \<Rightarrow> kernel \<Rightarrow> kernel option" where
  "MmInitializeKernelMemoryPool swapctx s =
     do {
       (_, s) \<leftarrow> MmAcquirePhysicalPage (MmGetCurrentSpace s) KERNEL_MEMORY_BEG PAGE_ATTR_WRITE MAP_ATTRIBUTE s;
       let s = mm_init_block KERNEL_MEMORY_BEG (KERNEL_MEMORY_END - KERNEL_MEMORY_BEG) s;
       s \<leftarrow> MmInitializeSpaceBasicInformation (MmGetCurrentSpace s) s;
       s \<leftarrow> MmInitializeVirtualMemory KernelVirtualMemory KERNEL_MEMORY_BEG KERNEL_MEMORY_END s;
       (p, s) \<leftarrow> MmAllocateVirtualMemory swapctx KernelVirtualMemory KERNEL_MEMORY_BEG
                   (KERNEL_MEMORY_POOL_END - KERNEL_MEMORY_BEG) PAGE_ATTR_WRITE ALLOC_LAZY s;
       if p = 0 then None else Some s }"

definition MmInitializeGlobalMemoryPool :: "kernel \<Rightarrow> kernel option" where
  "MmInitializeGlobalMemoryPool s = MmInitializeVirtualMemory GlobalVirtualMemory GLOBAL_MEMORY_BEG GLOBAL_MEMORY_END s"

definition MmFreeGlobalMemory :: "(kernel \<Rightarrow> kernel option) \<Rightarrow> u32 \<Rightarrow> kernel \<Rightarrow> kernel option" where
  "MmFreeGlobalMemory swapctx p s =
     (if p = 0 then Some s
      else do {
        (siz, s) \<leftarrow> MmFreeVirtualMemory swapctx GlobalVirtualMemory p s;
        MmReleaseMultiplePhysicalPages (MmGetCurrentSpace s) p siz s })"

definition MmAllocateGlobalMemory :: "(kernel \<Rightarrow> kernel option) \<Rightarrow> u32 \<Rightarrow> u32 \<Rightarrow> u32 \<Rightarrow> kernel \<Rightarrow> (u32 \<times> kernel) option" where
  "MmAllocateGlobalMemory swapctx siz pattr flag s =
     (if siz mod PAGE_SIZE \<noteq> 0 then None
      else do {
        let pattr = pattr OR (PAGE_ATTR_USER OR PAGE_ATTR_PRESENT);
        (ptr, s) \<leftarrow> MmAllocateVirtualMemory swapctx GlobalVirtualMemory 0 siz pattr (flag OR ALLOC_RANDOM) s;
        if ptr = 0 then Some (0, s)
        else if flag AND ALLOC_VIRTUAL = 0 \<and> flag AND ALLOC_LAZY = 0 then do {
          (r, s) \<leftarrow> MmAcquireMultiplePhysicalPages (MmGetCurrentSpace s) ptr siz pattr MAP_ATTRIBUTE s;
          if sint r < 0 then do { s \<leftarrow> MmFreeGlobalMemory swapctx ptr s; Some (0, s) }
          else Some (ptr, s) }
        else Some (ptr, s) })"

section \<open>User memory\<close>

definition MmFreeUserMemory :: "(kernel \<Rightarrow> kernel option) \<Rightarrow> u32 \<Rightarrow> u32 \<Rightarrow> kernel \<Rightarrow> kernel option" where
  "MmFreeUserMemory swapctx space p s =
     (if space \<noteq> 0 then do {
        let state = CanSchedule s;
        let s = s\<lparr>CanSchedule := 0\<rparr>;
        (siz, s) \<leftarrow> MmFreeVirtualMemory swapctx (SpaceVirtualMemory space) p s;
        s \<leftarrow> MmReleaseMultiplePhysicalPages space p siz s;
        let s = s\<lparr>CanSchedule := state\<rparr>;
        let s = upd_meminfo space (\<lambda>m. m\<lparr>mi_UserMemoryAllocated := mi_UserMemoryAllocated m - siz\<rparr>) s;
        Some (if sint (mi_UserMemoryAllocated (sp_MemoryInformation (spaces s space))) < 0
              then upd_meminfo space (\<lambda>m. m\<lparr>mi_UserMemoryAllocated := 0\<rparr>) s else s) }
      else Some s)"

definition MmAllocateUserMemoryAddress :: "(kernel \<Rightarrow> kernel option) \<Rightarrow> u32 \<Rightarrow> u32 \<Rightarrow> u32 \<Rightarrow> u32 \<Rightarrow> u32 \<Rightarrow>
    kernel \<Rightarrow> (u32 \<times> kernel) option" where
  "MmAllocateUserMemoryAddress swapctx space addr siz pattr flag s =
     (if space = 0 then Some (0, s)
      else if \<not> (addr mod PAGE_SIZE = 0 \<and> siz mod PAGE_SIZE = 0) then None
      else
        let s = upd_meminfo space (\<lambda>m. m\<lparr>mi_UserMemoryAllocated := mi_UserMemoryAllocated m + siz\<rparr>) s;
            info = sp_MemoryInformation (spaces s space)
        in if sint (mi_UserMemoryCapacity info) < sint (mi_UserMemoryAllocated info)
           then Some (0, upd_meminfo space (\<lambda>m. m\<lparr>mi_UserMemoryAllocated := mi_UserMemoryAllocated m - siz\<rparr>) s)
           else do {
             let pattr = pattr OR (PAGE_ATTR_USER OR PAGE_ATTR_PRESENT);
             (ptr, s) \<leftarrow> MmAllocateVirtualMemory swapctx (SpaceVirtualMemory space) addr siz pattr flag s;
             if ptr = 0
             then Some (0, upd_meminfo space (\<lambda>m. m\<lparr>mi_UserMemoryAllocated := mi_UserMemoryAllocated m - siz\<rparr>) s)
             else if flag AND ALLOC_VIRTUAL = 0 \<and> flag AND ALLOC_LAZY = 0 then do {
               let mapFlag = (if flag AND ALLOC_ZERO \<noteq> 0 then MAP_ATTRIBUTE OR MAP_ZERO else MAP_ATTRIBUTE);
               (r, s) \<leftarrow> MmAcquireMultiplePhysicalPages space ptr siz pattr mapFlag s;
               if sint r < 0 then do { s \<leftarrow> MmFreeUserMemory swapctx space ptr s; Some (0, s) }
               else Some (ptr, s) }
             else Some (ptr, s) })"

definition MmAllocateUserMemory :: "(kernel \<Rightarrow> kernel option) \<Rightarrow> u32 \<Rightarrow> u32 \<Rightarrow> u32 \<Rightarrow> u32 \<Rightarrow> kernel \<Rightarrow>
    (u32 \<times> kernel) option" where
  "MmAllocateUserMemory swapctx space siz attr flag s =
     MmAllocateUserMemoryAddress swapctx space 0 siz attr (flag OR ALLOC_RANDOM) s"

end
