(* ===== verification/Thread.thy ===== *)
theory Thread
  imports Space
begin

text \<open>
  Threads, \<open>kernel/tm/thread.c\<close>, and the two operations of \<open>kernel/ipc/message.c\<close> that create and
  destroy the message queue of a thread. The contents of the user's \<open>ThreadInformation\<close> page are not
  modelled; the kernel writing through a null pointer does not return.
\<close>

abbreviation MAX_MESSAGES_IN_QUEUE :: u32 where "MAX_MESSAGES_IN_QUEUE \<equiv> 100"
abbreviation THREAD_MAGIC :: u32 where "THREAD_MAGIC \<equiv> 0xFF0B45FC"
abbreviation THREAD_STACK_SIZE :: u32 where "THREAD_STACK_SIZE \<equiv> 0x100000"
abbreviation BIOS_THREAD :: u32 where "BIOS_THREAD \<equiv> 1"
abbreviation KERNEL_THREAD :: u32 where "KERNEL_THREAD \<equiv> 2"
abbreviation USER_THREAD :: u32 where "USER_THREAD \<equiv> 0"

definition IpcInitializeThreadMessageQueue :: "u32 \<Rightarrow> kernel \<Rightarrow> kernel option" where
  "IpcInitializeThreadMessageQueue thr s =
     do {
       (_, s) \<leftarrow> RtlCreateQueue IpcInitializeSemaphore (MessageQueueOf thr) MAX_MESSAGES_IN_QUEUE MessageEraser True s;
       Some s }"

definition IpcDestroyThreadMessageQueue :: "(kernel \<Rightarrow> kernel option) \<Rightarrow> u32 \<Rightarrow> kernel \<Rightarrow> kernel option" where
  "IpcDestroyThreadMessageQueue swapctx thr s =
     RtlDestroyQueue (IpcLockSemaphore swapctx) IpcUnlockSemaphore IpcDestroySemaphore (MessageQueueOf thr) s"

section \<open>Creation and lookup\<close>

definition TmInitializeThreadManagement :: "kernel \<Rightarrow> kernel" where
  "TmInitializeThreadManagement s = s\<lparr>threadId := 1\<rparr>"

definition GenerateThreadId :: "u32 \<Rightarrow> kernel \<Rightarrow> u32 \<times> kernel" where
  "GenerateThreadId space s =
     (let tid = threadId s;
          s = s\<lparr>threadId := threadId s + 1\<rparr>;
          s = (if threadId s mod 4 = 0 then s\<lparr>threadId := threadId s + 1\<rparr> else s)
      in (push_bit 16 (sp_SpaceId (spaces s space)) OR ucast tid, s))"

definition InitializeThreadInformation :: "(kernel \<Rightarrow> kernel option) \<Rightarrow> u32 \<Rightarrow> kernel \<Rightarrow> kernel option" where
  "InitializeThreadInformation swapctx thr s =
     do {
       (p, s) \<leftarrow> MmAllocateUserMemory swapctx (th_Space (threads s thr)) PAGE_SIZE
          (PAGE_ATTR_WRITE OR PAGE_ATTR_USER) (ALLOC_HIGHMEM OR ALLOC_SWAP) s;
       let s = upd_thread thr (\<lambda>r. r\<lparr>th_UserModeThreadInformation := p\<rparr>) s;
       if p \<noteq> 0 then do {
         (ti, s) \<leftarrow> MmAllocateUserMemory swapctx (MmGetCurrentSpace s) PAGE_SIZE PAGE_ATTR_WRITE
            (ALLOC_ZERO OR ALLOC_SWAP) s;
         if ti = 0 then do {
           s \<leftarrow> MmFreeUserMemory swapctx (th_Space (threads s thr)) (th_UserModeThreadInformation (threads s thr)) s;
           None }
         else do {
           (_, s) \<leftarrow> MmSwapMultiplePhysicalPages swapctx (th_Space (threads s thr))
              (th_UserModeThreadInformation (threads s thr)) (MmGetCurrentSpace s) ti PAGE_SIZE MAP_ADDRESS s;
           MmFreeUserMemory swapctx (MmGetCurrentSpace s) ti s } }
       else Some s }"

partial_function (option) thread_scan :: "(u32 \<Rightarrow> KThread) \<Rightarrow> (u32 \<Rightarrow> bool) \<Rightarrow> u32 \<Rightarrow> u32 option" where
  "thread_scan h P thr =
     (if thr = 0 then Some 0
      else if P thr then Some thr
      else thread_scan h P (th_next (h thr)))"

definition TmGetThreadById :: "u32 \<Rightarrow> kernel \<Rightarrow> u32 option" where
  "TmGetThreadById tid s =
     (let thr = TmGetCurrentThread s
      in if th_ThreadId (threads s thr) = tid then Some thr
         else do {
           space \<leftarrow> MmGetSpaceById (drop_bit 16 tid) s;
           if space = 0 then Some 0
           else thread_scan (threads s) (\<lambda>t. th_ThreadId (threads s t) = tid) (sp_FirstThread (spaces s space)) })"

definition TmCreateAdvancedThread :: "(kernel \<Rightarrow> kernel option) \<Rightarrow> u32 \<Rightarrow> u32 \<Rightarrow> u32 \<Rightarrow> u32 \<Rightarrow> u32 \<Rightarrow> u32 \<Rightarrow>
    kernel \<Rightarrow> (u32 \<times> kernel) option" where
  "TmCreateAdvancedThread swapctx space entry_addr stack_limit stack_base ti flag s =
     do {
       (thr, s) \<leftarrow> MmAllocateKernelMemory SIZEOF_KThread s;
       if thr = 0 then Some (0, s)
       else do {
         let s = upd_thread thr (\<lambda>_. zero_thread) s;
         let s = upd_queue (MessageQueueOf thr) (\<lambda>_. zero_queue) s;
         let s = upd_queue (WaitQueue (ThreadSemaphore thr)) (\<lambda>_. zero_queue) s;
         let s = upd_queue (WaitQueue (JoinSemaphoreOf thr)) (\<lambda>_. zero_queue) s;
         let s = s\<lparr>sem_value := (sem_value s)(ThreadSemaphore thr := 0, JoinSemaphoreOf thr := 0)\<rparr>;
         let s = upd_thread thr (\<lambda>r. r\<lparr>th_Magic := THREAD_MAGIC\<rparr>) s;
         s \<leftarrow> IpcInitializeSemaphore (ThreadSemaphore thr) s;
         s \<leftarrow> IpcInitializeThreadMessageQueue thr s;
         s \<leftarrow> IpcInitializeSemaphoreValue (JoinSemaphoreOf thr) 0 s;
         let (tid, s) = GenerateThreadId space s;
         let s = upd_thread thr (\<lambda>r. r\<lparr>th_ThreadId := tid, th_Space := space, th_ThreadState := TS_INIT,
                   th_UserModeThreadInformation := ti, th_EntryAddress := entry_addr,
                   th_StackLimit := stack_limit\<rparr>) s;
         let s = (if flag AND BIOS_THREAD \<noteq> 0 then upd_thread thr (\<lambda>r. r\<lparr>th_InBiosMode := True\<rparr>) s else s);
         s \<leftarrow> (if flag AND KERNEL_THREAD \<noteq> 0 then Some (upd_thread thr (\<lambda>r. r\<lparr>th_IsKernelThread := True\<rparr>) s)
               else do {
                 let s = upd_thread thr (\<lambda>r. r\<lparr>th_IsKernelThread := False\<rparr>) s;
                 if \<not> th_InBiosMode (threads s thr) then do {
                   let s = upd_thread thr (\<lambda>r. r\<lparr>th_StackLimit := stack_limit, th_StackBase := stack_base\<rparr>) s;
                   let s = (if stack_limit < PAGE_SIZE
                            then upd_thread thr (\<lambda>r. r\<lparr>th_StackLimit := THREAD_STACK_SIZE\<rparr>) s else s);
                   s \<leftarrow> (if stack_base = 0 then do {
                           (b, s) \<leftarrow> MmAllocateUserMemory swapctx space (th_StackLimit (threads s thr)) PAGE_ATTR_WRITE 0 s;
                           Some (upd_thread thr (\<lambda>r. r\<lparr>th_StackBase := b\<rparr>) s) }
                         else Some s);
                   if ti = 0 then InitializeThreadInformation swapctx thr s else Some s }
                 else Some s });
         let s = ArInitializeThreadRegisters thr (TmGetCurrentThread s) entry_addr
                   (th_StackBase (threads s thr) + th_StackLimit (threads s thr)) s;
         let (eflags, s) = ArLocalSaveIrq s;
         let ft = sp_FirstThread (spaces s space);
         let s = upd_thread thr (\<lambda>r. r\<lparr>th_next := ft\<rparr>) s;
         let s = (if ft \<noteq> 0 then upd_thread ft (\<lambda>r. r\<lparr>th_prev := thr\<rparr>) s else s);
         let s = upd_space space (\<lambda>r. r\<lparr>sp_FirstThread := thr\<rparr>) s;
         let s = ArLocalRestoreIrq eflags s;
         let s = TmSetThreadState thr TS_PAUSED s;
         Some (thr, s) } }"

definition TmCreateThread :: "(kernel \<Rightarrow> kernel option) \<Rightarrow> u32 \<Rightarrow> u32 \<Rightarrow> u32 \<Rightarrow> kernel \<Rightarrow> (u32 \<times> kernel) option" where
  "TmCreateThread swapctx space entry_addr flag s = TmCreateAdvancedThread swapctx space entry_addr 0 0 0 flag s"

section \<open>Termination and joining\<close>

definition TmTerminateThread :: "(kernel \<Rightarrow> kernel option) \<Rightarrow> u32 \<Rightarrow> u32 \<Rightarrow> kernel \<Rightarrow> (int \<times> kernel) option" where
  "TmTerminateThread swapctx thr code s =
     (if thr = 0 then Some (- ERR_WRONGARG, s)
      else do {
        let space = th_Space (threads s thr);
        s \<leftarrow> IpcLockSemaphore swapctx (ThreadSemaphore thr) s;
        let (flags, s) = (if thr = TmGetCurrentThread s then ArLocalSaveIrq s else (False, s));
        let s = TmSetThreadState thr TS_DEAD s;
        let s = upd_thread thr (\<lambda>r. r\<lparr>th_ExitCode := code\<rparr>) s;
        s \<leftarrow> IpcDestroyThreadMessageQueue swapctx thr s;
        let s = ArReleaseThreadResources thr s;
        s \<leftarrow> (if \<not> th_IsKernelThread (threads s thr) \<and> \<not> th_InBiosMode (threads s thr)
              then MmFreeUserMemory swapctx space (th_StackBase (threads s thr)) s else Some s);
        s \<leftarrow> IpcDestroySemaphore (ThreadSemaphore thr) s;
        s \<leftarrow> IpcDestroySemaphore (JoinSemaphoreOf thr) s;
        let s = (if thr = TmGetCurrentThread s then ArLocalRestoreIrq flags s else s);
        s \<leftarrow> TmSchedule swapctx s;
        Some (0, s) })"

definition TmJoinThread :: "(kernel \<Rightarrow> kernel option) \<Rightarrow> u32 \<Rightarrow> kernel \<Rightarrow> kernel option" where
  "TmJoinThread swapctx thr s =
     do {
       let space = MmGetCurrentSpace s;
       let (flags, s) = ArLocalSaveIrq s;
       t \<leftarrow> thread_scan (threads s) (\<lambda>t. t = thr) (sp_FirstThread (spaces s space));
       s \<leftarrow> (if t \<noteq> 0 \<and> th_ThreadState (threads s thr) \<noteq> TS_DEAD
             then IpcLockSemaphore swapctx (JoinSemaphoreOf thr) s else Some s);
       Some (ArLocalRestoreIrq flags s) }"

end
