(* ===== verification/Message.thy ===== *)
theory Message
  imports Thread
begin

text \<open>
  Messages between threads, \<open>kernel/ipc/message.c\<close>. A message is copied into a \<open>KMessage\<close> that waits in the
  queue of its destination; receiving searches that queue from the back for a source and a command.
\<close>

abbreviation MSG_KEEP :: u32 where "MSG_KEEP \<equiv> 0x40000000"
abbreviation ANY_THREAD :: u32 where "ANY_THREAD \<equiv> 0xFFFFFFFF"

definition MessageSearcher1 :: "Message \<Rightarrow> kernel \<Rightarrow> u32 \<Rightarrow> bool" where
  "MessageSearcher1 m s p \<longleftrightarrow> th_ThreadId (threads s (km_Source (kmsgs s p))) = ms_ThreadId m"

definition MessageSearcher2 :: "Message \<Rightarrow> kernel \<Rightarrow> u32 \<Rightarrow> bool" where
  "MessageSearcher2 m s p \<longleftrightarrow> ms_Command (km_UserMessage (kmsgs s p)) = ms_Command m"

definition MessageSearcher3 :: "Message \<Rightarrow> kernel \<Rightarrow> u32 \<Rightarrow> bool" where
  "MessageSearcher3 m s p \<longleftrightarrow> th_ThreadId (threads s (km_Source (kmsgs s p))) = ms_ThreadId m \<and>
     ms_Command (km_UserMessage (kmsgs s p)) = ms_Command m"

definition IpcSend :: "(kernel \<Rightarrow> kernel option) \<Rightarrow> Message \<Rightarrow> u32 \<Rightarrow> kernel \<Rightarrow> (int \<times> kernel) option" where
  "IpcSend swapctx usermsg flag s =
     do {
       thr_dest \<leftarrow> TmGetThreadById (ms_ThreadId usermsg) s;
       if thr_dest = 0 then Some (- ERR_WRONGARG, s)
       else do {
         s \<leftarrow> IpcLockSemaphore swapctx (ThreadSemaphore thr_dest) s;
         if th_ThreadState (threads s thr_dest) = TS_DEAD \<or> th_ThreadState (threads s thr_dest) = TS_INIT
         then do { s \<leftarrow> IpcUnlockSemaphore (ThreadSemaphore thr_dest) s; Some (- ERR_WRONGARG, s) }
         else do {
           (kmsg, s) \<leftarrow> MmAllocateKernelMemory SIZEOF_KMessage s;
           if kmsg = 0
           then do { s \<leftarrow> IpcUnlockSemaphore (ThreadSemaphore thr_dest) s; Some (- ERR_NOMEM, s) }
           else do {
             let s = s\<lparr>kmsgs := (kmsgs s)(kmsg := \<lparr>km_UserMessage = usermsg, km_Destination = thr_dest,
                        km_Source = TmGetCurrentThread s\<rparr>)\<rparr>;
             (_, s) \<leftarrow> RtlPushFrontQueue (IpcLockSemaphore swapctx) IpcUnlockSemaphore
                         (MessageQueueOf thr_dest) kmsg s;
             s \<leftarrow> IpcUnlockSemaphore (ThreadSemaphore thr_dest) s;
             Some (0, snd (TmWakeupThread thr_dest s)) } } } }"

definition zero_message :: Message where
  "zero_message = \<lparr>ms_ThreadId = 0, ms_Time = 0, ms_Command = 0, ms_Arguments = (\<lambda>_. 0), ms_Code = 0,
     ms_Large = (\<lambda>_. 0)\<rparr>"

definition IpcQuickSend :: "(kernel \<Rightarrow> kernel option) \<Rightarrow> u32 \<Rightarrow> u32 \<Rightarrow> u32 \<Rightarrow> u32 \<Rightarrow> kernel \<Rightarrow> (int \<times> kernel) option" where
  "IpcQuickSend swapctx tid cmd arg1 arg2 s =
     IpcSend swapctx (zero_message\<lparr>ms_ThreadId := tid, ms_Command := cmd,
       ms_Arguments := (\<lambda>_. 0)(0 := arg1, 1 := arg2)\<rparr>) 0 s"

definition IpcCall :: "(kernel \<Rightarrow> kernel option) \<Rightarrow> Message \<Rightarrow> u32 \<Rightarrow> u32 \<Rightarrow> kernel \<Rightarrow> (int \<times> kernel) option" where
  "IpcCall swapctx usermsg flag timeout s =
     do {
       (ret, s) \<leftarrow> IpcSend swapctx usermsg flag s;
       if ret \<noteq> 0 \<or> timeout = 0 then Some (ret, s)
       else do { s \<leftarrow> TmSleepThread swapctx (TmGetCurrentThread s) timeout s; Some (0, s) } }"

definition IpcReply :: "Message \<Rightarrow> u32 \<Rightarrow> kernel \<Rightarrow> (int \<times> kernel) option" where
  "IpcReply usermsg flag s =
     do {
       thr_dest \<leftarrow> TmGetThreadById (ms_ThreadId usermsg) s;
       Some (0, if thr_dest \<noteq> 0 then snd (TmWakeupThread thr_dest s) else s) }"

text \<open>The search of \<open>IpcReceive\<close>: the message found (0 if none) and the node (0 when it was popped).\<close>

definition recv_search :: "(kernel \<Rightarrow> kernel option) \<Rightarrow> u32 \<Rightarrow> u32 \<Rightarrow> Message \<Rightarrow> kernel \<Rightarrow>
    (u32 \<times> u32 \<times> kernel) option" where
  "recv_search swapctx thr_src thr_cur usermsg s =
     (let q = MessageQueueOf thr_cur; lk = IpcLockSemaphore swapctx
      in if thr_src \<noteq> 0 \<and> ms_Command usermsg \<noteq> 0
         then RtlSearchQueue lk IpcUnlockSemaphore q (MessageSearcher3 usermsg) s
         else if thr_src \<noteq> 0 then RtlSearchQueue lk IpcUnlockSemaphore q (MessageSearcher1 usermsg) s
         else if ms_Command usermsg \<noteq> 0 then RtlSearchQueue lk IpcUnlockSemaphore q (MessageSearcher2 usermsg) s
         else do { (p, s) \<leftarrow> RtlPopBackQueue lk IpcUnlockSemaphore q s; Some (p, 0, s) })"

text \<open>After a message was found: it is copied out and, as the flag says, removed, erased or put back.\<close>

definition recv_take :: "(kernel \<Rightarrow> kernel option) \<Rightarrow> u32 \<Rightarrow> u32 \<Rightarrow> u32 \<Rightarrow> u32 \<Rightarrow> u32 \<Rightarrow> kernel \<Rightarrow>
    (int \<times> Message \<times> kernel) option" where
  "recv_take swapctx thr_src thr_cur kmsg nod flag s =
     do {
       let lk = IpcLockSemaphore swapctx;
       let q = MessageQueueOf thr_cur;
       let m = km_UserMessage (kmsgs s kmsg);
       s \<leftarrow> (if thr_src \<noteq> 0 then
               if flag AND MSG_KEEP = 0 then do {
                 s \<leftarrow> RtlRemoveQueueElement lk IpcUnlockSemaphore q nod s;
                 Some (MmFreeKernelMemory kmsg s) }
               else Some s
             else if flag AND MSG_KEEP \<noteq> 0 then do {
               (_, s) \<leftarrow> RtlPushBackQueue lk IpcUnlockSemaphore q kmsg s;
               Some s }
             else Some (MmFreeKernelMemory kmsg s));
       Some (1, m\<lparr>ms_ThreadId := th_ThreadId (threads s (km_Source (kmsgs s kmsg)))\<rparr>, s) }"

text \<open>The loop at the label \<open>_recv_search\<close>.\<close>

partial_function (option) recv_loop :: "(kernel \<Rightarrow> kernel option) \<Rightarrow> u32 \<Rightarrow> u32 \<Rightarrow> u32 \<Rightarrow> Message \<Rightarrow> u32 \<Rightarrow> u32 \<Rightarrow>
    kernel \<Rightarrow> (int \<times> Message \<times> kernel) option" where
  "recv_loop swapctx startSleepTime thr_src thr_cur usermsg flag timeout s =
     do {
       s \<leftarrow> IpcLockSemaphore swapctx (ThreadSemaphore thr_cur) s;
       (kmsg, nod, s) \<leftarrow> recv_search swapctx thr_src thr_cur usermsg s;
       if kmsg = 0 then
         if timeout \<noteq> 0 then
           let rest = (if timeout \<noteq> INFINITE then timeout - (rtc_millisecond s - startSleepTime) else INFINITE)
           in if timeout \<noteq> INFINITE \<and> sint rest < 0 then Some (- ERR_TIMEOUT, usermsg, s)
              else do {
                let (flags, s) = ArLocalSaveIrq s;
                s \<leftarrow> IpcUnlockSemaphore (ThreadSemaphore thr_cur) s;
                s \<leftarrow> TmSleepThread swapctx thr_cur rest s;
                recv_loop swapctx startSleepTime thr_src thr_cur usermsg flag timeout (ArLocalRestoreIrq flags s) }
         else do {
           s \<leftarrow> IpcUnlockSemaphore (ThreadSemaphore thr_cur) s;
           Some (- ERR_NONE, usermsg, s) }
       else do {
         s \<leftarrow> IpcUnlockSemaphore (ThreadSemaphore thr_cur) s;
         recv_take swapctx thr_src thr_cur kmsg nod flag s } }"

definition IpcReceive :: "(kernel \<Rightarrow> kernel option) \<Rightarrow> Message \<Rightarrow> u32 \<Rightarrow> u32 \<Rightarrow> kernel \<Rightarrow>
    (int \<times> Message \<times> kernel) option" where
  "IpcReceive swapctx usermsg flag timeout s =
     do {
       let startSleepTime = rtc_millisecond s;
       thr_src \<leftarrow> (if ms_ThreadId usermsg \<noteq> ANY_THREAD then TmGetThreadById (ms_ThreadId usermsg) s else Some 0);
       recv_loop swapctx startSleepTime thr_src (TmGetCurrentThread s) usermsg flag timeout s }"

text \<open>\<open>kernel/tm/sys.c\<close>: the system calls. \<open>msg\<close> is the user's pointer, \<open>m\<close> the message it points to.\<close>

definition Api_Send :: "(kernel \<Rightarrow> kernel option) \<Rightarrow> u32 \<Rightarrow> Message \<Rightarrow> u32 \<Rightarrow> kernel \<Rightarrow> (int \<times> kernel) option" where
  "Api_Send swapctx msg m timeout s =
     (if KERNEL_BASE \<le> msg + SIZEOF_Message then Some (- ERR_WRONGARG, s) else IpcCall swapctx m 0 timeout s)"

definition Api_Receive :: "(kernel \<Rightarrow> kernel option) \<Rightarrow> u32 \<Rightarrow> Message \<Rightarrow> u32 \<Rightarrow> kernel \<Rightarrow>
    (int \<times> Message \<times> kernel) option" where
  "Api_Receive swapctx msg m timeout s =
     (if KERNEL_BASE \<le> msg + SIZEOF_Message then Some (- ERR_WRONGARG, m, s) else IpcReceive swapctx m 0 timeout s)"

end
