(* ===== verification/Interrupts.thy ===== *)
theory Interrupts
  imports Message
begin

text \<open>
  Hardware interrupts: the interrupt controllers (\<open>arch/i386/irq/irq.c\<close>), exceptions (\<open>irq/isr.c\<close>), the
  threads that asked to be told of an interrupt (\<open>kernel/start/hwintr.c\<close>) and the clock
  (\<open>clock/rtc.c\<close>). \<open>pic_mask\<close> is the mask register of the master (\<open>False\<close>) and the slave (\<open>True\<close>); a
  handler is the address of a C function, and the argument \<open>call\<close> says what calling an address does.
\<close>

section \<open>Interrupt controllers\<close>

definition ArInstallIrq :: "u32 \<Rightarrow> u32 \<Rightarrow> kernel \<Rightarrow> int \<times> kernel" where
  "ArInstallIrq irq handler s =
     (if irq_routines s irq \<noteq> 0 then (- 1, s)
      else (0, s\<lparr>irq_routines := (irq_routines s)(irq := handler)\<rparr>))"

definition ArUninstallIrq :: "u32 \<Rightarrow> kernel \<Rightarrow> kernel" where
  "ArUninstallIrq irq s = s\<lparr>irq_routines := (irq_routines s)(irq := 0)\<rparr>"

text \<open>The initialisation words are consumed by the controllers; what stays is the two mask words.\<close>

definition irq_remap :: "kernel \<Rightarrow> kernel" where
  "irq_remap s = s\<lparr>pic_mask := (pic_mask s)(False := 0xFB, True := 0xFF)\<rparr>"

definition mask_update :: "nat \<Rightarrow> bool \<Rightarrow> u8 \<Rightarrow> u8" where
  "mask_update irq enabled w =
     (if irq = 1 \<or> irq = 9 then (if enabled then w AND 0xFD else w OR 0x02)
      else if irq = 0 \<or> irq = 8 then (if enabled then w AND 0xFE else w OR 0x01)
      else if irq = 2 \<or> irq = 10 then (if enabled then w AND 0xFB else w OR 0x04)
      else if irq = 3 \<or> irq = 11 then (if enabled then w AND 0xF7 else w OR 0x08)
      else if irq = 4 \<or> irq = 12 then (if enabled then w AND 0xEF else w OR 0x10)
      else if irq = 5 \<or> irq = 13 then (if enabled then w AND 0xDF else w OR 0x20)
      else if irq = 6 \<or> irq = 14 then (if enabled then w AND 0xBF else w OR 0x40)
      else if irq = 7 \<or> irq = 15 then (if enabled then w AND 0x7F else w OR 0x80)
      else w)"

definition ArSetIrqMask :: "u32 \<Rightarrow> bool \<Rightarrow> kernel \<Rightarrow> kernel" where
  "ArSetIrqMask irq enabled s =
     (if sint irq < 0 \<or> 15 < sint irq then s
      else
        let slave = (8 \<le> irq)
        in s\<lparr>pic_mask := (pic_mask s)(slave := mask_update (unat irq) enabled (pic_mask s slave))\<rparr>)"

definition ArInitializeIrq :: "(nat \<Rightarrow> u32) \<Rightarrow> kernel \<Rightarrow> kernel" where
  "ArInitializeIrq irq_entry s =
     (let s = s\<lparr>irq_routines := (\<lambda>_. 0)\<rparr>;
          s = irq_remap s
      in fold (\<lambda>i. ArSetGate (of_nat (32 + i)) 0x8E (irq_entry i)) [0..<16] s)"

section \<open>Threads that handle interrupts\<close>

abbreviation MAX_HANDLER_PER_INTERRUPT :: nat where "MAX_HANDLER_PER_INTERRUPT \<equiv> 4"
abbreviation System_Interrupt :: u32 where "System_Interrupt \<equiv> 0x101"

definition KeInitializeHardwareIntterupt :: "kernel \<Rightarrow> kernel" where
  "KeInitializeHardwareIntterupt s = s\<lparr>intr_handlers := (\<lambda>_ _. 0)\<rparr>"

definition KeEnableHardwareInterrupt :: "u32 \<Rightarrow> u32 \<Rightarrow> kernel \<Rightarrow> kernel" where
  "KeEnableHardwareInterrupt no b s = ArSetIrqMask no (b \<noteq> 0) s"

definition set_handler :: "u32 \<Rightarrow> nat \<Rightarrow> u32 \<Rightarrow> kernel \<Rightarrow> kernel" where
  "set_handler no i t s = s\<lparr>intr_handlers := (intr_handlers s)(no := (intr_handlers s no)(i := t))\<rparr>"

text \<open>The loops over the slots of an interrupt, from slot \<open>i\<close> with \<open>n\<close> slots left.\<close>

fun add_loop :: "u32 \<Rightarrow> u32 \<Rightarrow> nat list \<Rightarrow> kernel \<Rightarrow> int \<times> kernel" where
  "add_loop no thread [] s = (- 1, s)"
| "add_loop no thread (i # is) s =
     (if intr_handlers s no i = thread then (0, s)
      else if intr_handlers s no i = 0 then (0, set_handler no i thread s)
      else add_loop no thread is s)"

definition KeAddHardwareInterruptHandler :: "u32 \<Rightarrow> u32 \<Rightarrow> kernel \<Rightarrow> int \<times> kernel" where
  "KeAddHardwareInterruptHandler no thread s = add_loop no thread [0..<MAX_HANDLER_PER_INTERRUPT] s"

fun delete_loop :: "u32 \<Rightarrow> u32 \<Rightarrow> nat list \<Rightarrow> kernel \<Rightarrow> kernel" where
  "delete_loop no thread [] s = s"
| "delete_loop no thread (i # is) s =
     (if intr_handlers s no i = thread then set_handler no i 0 s else delete_loop no thread is s)"

definition KeDeleteHardwareInterruptHandler :: "u32 \<Rightarrow> u32 \<Rightarrow> kernel \<Rightarrow> kernel" where
  "KeDeleteHardwareInterruptHandler no thread s = delete_loop no thread [0..<MAX_HANDLER_PER_INTERRUPT] s"

fun message_loop :: "(kernel \<Rightarrow> kernel option) \<Rightarrow> u32 \<Rightarrow> nat list \<Rightarrow> kernel \<Rightarrow> kernel option" where
  "message_loop swapctx no [] s = Some s"
| "message_loop swapctx no (i # is) s =
     (if intr_handlers s no i \<noteq> 0 then do {
        let s = ArSetIrqMask no False s;
        (ret, s) \<leftarrow> IpcQuickSend swapctx (intr_handlers s no i) System_Interrupt no 0 s;
        message_loop swapctx no is (if ret < 0 then set_handler no i 0 s else s) }
      else message_loop swapctx no is s)"

definition KeHardwareInterruptMessage :: "(kernel \<Rightarrow> kernel option) \<Rightarrow> u32 \<Rightarrow> kernel \<Rightarrow> (int \<times> kernel) option" where
  "KeHardwareInterruptMessage swapctx no s =
     do { s \<leftarrow> message_loop swapctx no [0..<MAX_HANDLER_PER_INTERRUPT] s; Some (0, s) }"

text \<open>\<open>ArHandleIrq\<close>: \<open>True\<close> when the assembly stub has to switch threads. The end-of-interrupt commands
  leave no trace in the state.\<close>

definition set_interrupted :: "bool \<Rightarrow> kernel \<Rightarrow> kernel" where
  "set_interrupted b s = upd_thread (TmGetCurrentThread s) (\<lambda>r. r\<lparr>th_IsInterrupted := b\<rparr>) s"

definition ArHandleIrq :: "(kernel \<Rightarrow> kernel option) \<Rightarrow> (u32 \<Rightarrow> kernel \<Rightarrow> kernel option) \<Rightarrow> u32 \<Rightarrow> kernel \<Rightarrow>
    (bool \<times> kernel) option" where
  "ArHandleIrq swapctx call int_no s =
     do {
       let s = set_interrupted True s;
       let handler = irq_routines s (int_no - 32);
       s \<leftarrow> (if handler \<noteq> 0 then call handler s else Some s);
       (_, s) \<leftarrow> KeHardwareInterruptMessage swapctx (int_no - 32) s;
       let s = set_interrupted False s;
       if ThreadingBox s Box_next \<noteq> 0 then Some (True, ArPrepareForNextThread s) else Some (False, s) }"

section \<open>Exceptions\<close>

definition ArInstallIsr :: "u32 \<Rightarrow> u32 \<Rightarrow> kernel \<Rightarrow> int \<times> kernel" where
  "ArInstallIsr isr handler s =
     (if isr_routines s isr \<noteq> 0 then (- 1, s)
      else (0, s\<lparr>isr_routines := (isr_routines s)(isr := handler)\<rparr>))"

definition ArUninstallIsr :: "u32 \<Rightarrow> kernel \<Rightarrow> kernel" where
  "ArUninstallIsr isr s = s\<lparr>isr_routines := (isr_routines s)(isr := 0)\<rparr>"

text \<open>Exception 14 gets an interrupt gate, the others trap gates.\<close>

definition ArInitializeIsr :: "(nat \<Rightarrow> u32) \<Rightarrow> kernel \<Rightarrow> kernel" where
  "ArInitializeIsr isr_entry s =
     fold (\<lambda>i. ArSetGate (of_nat i) (if i = 14 then 0x8E else 0x8F) (isr_entry i)) [0..<32]
       (s\<lparr>isr_routines := (\<lambda>_. 0)\<rparr>)"

text \<open>An exception nobody handles ends the thread in \<open>KERROR\<close>.\<close>

definition ArHandleIsr :: "(kernel \<Rightarrow> kernel option) \<Rightarrow> (u32 \<Rightarrow> u32 \<Rightarrow> I386_REGISTERS \<Rightarrow> kernel \<Rightarrow> (bool \<times> kernel) option) \<Rightarrow>
    I386_REGISTERS \<Rightarrow> kernel \<Rightarrow> kernel option" where
  "ArHandleIsr swapctx call r s =
     (if r_int_no r < 32 then do {
        let handler = isr_routines s (r_int_no r);
        (ok, s) \<leftarrow> (if handler = 0 then Some (False, s) else call handler (r_err_code r) r s);
        if \<not> ok then do {
          let cur = TmGetCurrentThread s;
          s \<leftarrow> (if cur \<noteq> 0 \<and> \<not> th_IsKernelThread (threads s cur) then TmSleepThread swapctx cur 1000 s else Some s);
          None }
        else Some s }
      else Some s)"

section \<open>The clock\<close>

abbreviation RTC_INTERRUPT :: u32 where "RTC_INTERRUPT \<equiv> 0"

text \<open>The bytes written to the timer's ports.\<close>

definition ArSetRealTimeClockFrequency :: "u32 \<Rightarrow> (u16 \<times> u8) list" where
  "ArSetRealTimeClockFrequency freq =
     (let d = 1193180 div freq
      in [(0x43, 0x36), (0x40, ucast (d AND 0xFF)), (0x40, ucast (drop_bit 8 d))])"

definition ArGetMilliSecond :: "kernel \<Rightarrow> u32" where
  "ArGetMilliSecond s = rtc_millisecond s"

definition rtc_interrupt :: "(kernel \<Rightarrow> kernel option) \<Rightarrow> kernel \<Rightarrow> kernel option" where
  "rtc_interrupt swapctx s =
     do {
       let s = s\<lparr>rtc_time := rtc_time s + 1\<rparr>;
       let s = s\<lparr>rtc_millisecond := rtc_millisecond s + 1000 div RTC_FREQUENCY\<rparr>;
       let s = ArSetIrqMask RTC_INTERRUPT False s;
       let s = s\<lparr>irq_enabled := True\<rparr>;
       let s = (if rtc_time s mod RTC_FREQUENCY = 0 then s\<lparr>rtc_second := rtc_second s + 1\<rparr> else s);
       s \<leftarrow> TmIncreaseTime swapctx s;
       let s = s\<lparr>irq_enabled := False\<rparr>;
       Some (ArSetIrqMask RTC_INTERRUPT True s) }"

section \<open>Masks and handler slots\<close>

lemma irq_pairs:
  "irq < 16 \<Longrightarrow> irq \<in> {0, 8} \<or> irq \<in> {1, 9} \<or> irq \<in> {2, 10} \<or> irq \<in> {3, 11} \<or>
     irq \<in> {4, 12} \<or> irq \<in> {5, 13} \<or> irq \<in> {6, 14} \<or> irq \<in> {7, 15}" for irq :: nat
  by (auto simp: numeral_eq_Suc less_Suc_eq)

lemma line_bits: "k < 8 \<longleftrightarrow> k \<in> {0, 1, 2, 3, 4, 5, 6, 7}" for k :: nat
  by auto

lemma mask_update_bit:
  assumes "k < 8" and "irq < 16"
  shows "bit (mask_update irq en w) k = (if k = irq mod 8 then \<not> en else bit w k)"
  using irq_pairs [OF assms(2)] assms(1) unfolding line_bits insert_iff empty_iff
  by (elim disjE; simp add: mask_update_def bit_and_iff bit_or_iff)

text \<open>
  \<open>ArSetIrqMask\<close> sets or clears exactly the bit of the given line in the mask of its controller:
  every other line of that controller and the whole other controller keep their state.
\<close>

theorem irq_mask_exact:
  assumes "irq < 16"
  shows "(n < 8 \<longrightarrow> bit (pic_mask (ArSetIrqMask irq en s) (8 \<le> irq)) n =
      (if n = unat irq mod 8 then \<not> en else bit (pic_mask s (8 \<le> irq)) n)) \<and>
    pic_mask (ArSetIrqMask irq en s) (\<not> 8 \<le> irq) = pic_mask s (\<not> 8 \<le> irq)"
proof -
  have u: "unat irq < 16" using assms by (simp add: word_less_nat_alt)
  then have "sint irq = int (unat irq)" by (intro sint_small) simp
  then have "\<not> sint irq < 0" "\<not> 15 < sint irq" using u by linarith+
  then show ?thesis using mask_update_bit [OF _ u, of n en "pic_mask s (8 \<le> irq)"]
    by (simp add: ArSetIrqMask_def Let_def)
qed

theorem irq_mask_exact_witness:
  "\<not> bit (pic_mask (ArSetIrqMask 12 True kernel0) (8 \<le> (12 :: u32))) 4"
  using irq_mask_exact [of 12 4 True kernel0] by simp

lemma add_loop_cases:
  "add_loop no t is s = (r, s') \<Longrightarrow> distinct is \<Longrightarrow> t \<noteq> 0 \<Longrightarrow>
     (r = 0 \<longleftrightarrow> (\<exists>i \<in> set is. intr_handlers s no i = t \<or> intr_handlers s no i = 0)) \<and>
     (r = 0 \<longrightarrow> (\<exists>i \<in> set is. intr_handlers s' no i = t)) \<and>
     (\<forall>m j. intr_handlers s m j \<noteq> 0 \<longrightarrow> intr_handlers s' m j = intr_handlers s m j) \<and>
     (r \<noteq> 0 \<longrightarrow> s' = s)"
  by (induction "is") (auto simp: set_handler_def split: if_splits)

text \<open>
  \<open>KeAddHardwareInterruptHandler\<close> succeeds exactly when the thread is already registered or one of
  the four slots of the interrupt is free; then the thread has a slot, and no registered handler of
  any interrupt is displaced, whether it succeeds or not.
\<close>

theorem add_handler_correct:
  assumes "thread \<noteq> 0"
  shows "(fst (KeAddHardwareInterruptHandler no thread s) = 0 \<longleftrightarrow>
      (\<exists>i < 4. intr_handlers s no i = thread \<or> intr_handlers s no i = 0)) \<and>
    (fst (KeAddHardwareInterruptHandler no thread s) = 0 \<longrightarrow>
      (\<exists>i < 4. intr_handlers (snd (KeAddHardwareInterruptHandler no thread s)) no i = thread)) \<and>
    (\<forall>m j. intr_handlers s m j \<noteq> 0 \<longrightarrow>
      intr_handlers (snd (KeAddHardwareInterruptHandler no thread s)) m j = intr_handlers s m j)"
  using add_loop_cases [of no thread "[0..<4]" s, OF prod.collapse [symmetric] _ assms]
  unfolding KeAddHardwareInterruptHandler_def by (auto simp del: upt_Suc)

theorem add_handler_correct_witness:
  "fst (KeAddHardwareInterruptHandler 1 7 kernel0) = 0"
proof -
  have "\<exists>i < 4. intr_handlers kernel0 1 i = 7 \<or> intr_handlers kernel0 1 i = 0"
    by (rule exI [of _ 0]) (simp add: kernel_raw_def)
  then show ?thesis using add_handler_correct [of 7 1 kernel0] by simp
qed

end
