(* ===== verification/Vm86.thy ===== *)
theory Vm86
  imports Interrupts
begin

text \<open>
  Virtual 8086 mode, \<open>arch/i386/cpu/vm86.c\<close>: the general protection fault handler that emulates the
  instructions a BIOS routine may not execute, and the call of a BIOS service. Real mode memory is the
  first megabyte, which is mapped one to one, so bytes are read from and written to \<open>pmem\<close>.
\<close>

section \<open>Real mode memory\<close>

definition peek8 :: "u32 \<Rightarrow> kernel \<Rightarrow> u8" where
  "peek8 a s = ucast (drop_bit (8 * unat (a AND 3)) (pmem s (drop_bit 2 a)))"

definition poke8 :: "u32 \<Rightarrow> u8 \<Rightarrow> kernel \<Rightarrow> kernel" where
  "poke8 a v s =
     (let i = drop_bit 2 a; k = 8 * unat (a AND 3)
      in s\<lparr>pmem := (pmem s)(i := (pmem s i AND NOT (push_bit k 0xFF)) OR push_bit k (ucast v))\<rparr>)"

definition peek16 :: "u32 \<Rightarrow> kernel \<Rightarrow> u16" where
  "peek16 a s = ucast (peek8 a s) OR push_bit 8 (ucast (peek8 (a + 1) s))"

definition poke16 :: "u32 \<Rightarrow> u16 \<Rightarrow> kernel \<Rightarrow> kernel" where
  "poke16 a v s = poke8 (a + 1) (ucast (drop_bit 8 v)) (poke8 a (ucast v) s)"

section \<open>The fault handler\<close>

abbreviation VALID_FLAGS :: u32 where "VALID_FLAGS \<equiv> 0xDFF"

text \<open>\<open>EFLAG_IF\<close> set or cleared in a stored flags word.\<close>

definition put_if :: "bool \<Rightarrow> u16 \<Rightarrow> u16" where
  "put_if b w = (if b then w OR 0x200 else w AND NOT 0x200)"

definition next_ip :: "I386_REGISTERS \<Rightarrow> I386_REGISTERS" where
  "next_ip r = r\<lparr>r_eip := (r_eip r + 1) AND 0xFFFF\<rparr>"

definition esp_add :: "u32 \<Rightarrow> I386_REGISTERS \<Rightarrow> I386_REGISTERS" where
  "esp_add n r = r\<lparr>r_esp := ((r_esp r AND 0xFFFF) + n) AND 0xFFFF\<rparr>"

definition vmflag :: "u32 \<Rightarrow> kernel \<Rightarrow> bool" where
  "vmflag thr s = ar_vmflag_if (th_Arch (threads s thr))"

definition set_vmflag :: "u32 \<Rightarrow> bool \<Rightarrow> kernel \<Rightarrow> kernel" where
  "set_vmflag thr b = upd_arch thr (\<lambda>a. a\<lparr>ar_vmflag_if := b\<rparr>)"

definition gpf_int :: "u32 \<Rightarrow> u8 \<Rightarrow> u32 \<Rightarrow> I386_REGISTERS \<Rightarrow> kernel \<Rightarrow> I386_REGISTERS \<times> kernel" where
  "gpf_int thr n stack r s =
     (let stack = stack - 6;
          r = esp_add (- 6) r;
          s = poke16 stack (ucast (r_eip r + 2)) s;
          s = poke16 (stack + 2) (ucast (r_cs r)) s;
          s = poke16 (stack + 4) (ucast (r_eflags r)) s;
          s = poke16 (stack + 4) (put_if (vmflag thr s) (peek16 (stack + 4) s)) s;
          r = r\<lparr>r_cs := ucast (peek16 (ucast n * 4 + 2) s)\<rparr>
      in (r\<lparr>r_eip := ucast (peek16 (ucast n * 4) s)\<rparr>, s))"

definition gpf_pushf :: "u32 \<Rightarrow> bool \<Rightarrow> u32 \<Rightarrow> I386_REGISTERS \<Rightarrow> kernel \<Rightarrow> I386_REGISTERS \<times> kernel" where
  "gpf_pushf thr is_data32 stack r s =
     (let r = esp_add (if is_data32 then - 4 else - 2) r;
          stack = stack - 2;
          s = poke16 stack (ucast (if is_data32 then r_eflags r AND VALID_FLAGS else r_eflags r)) s;
          s = poke16 stack (put_if (vmflag thr s) (peek16 stack s)) s
      in (next_ip r, s))"

definition gpf_popf :: "u32 \<Rightarrow> bool \<Rightarrow> u32 \<Rightarrow> I386_REGISTERS \<Rightarrow> kernel \<Rightarrow> I386_REGISTERS \<times> kernel" where
  "gpf_popf thr is_data32 stack r s =
     (let w = ucast (peek16 stack s) :: u32;
          r = r\<lparr>r_eflags := (if is_data32 then w AND VALID_FLAGS else w) OR EFLAG_VM OR EFLAG_IF\<rparr>;
          r = esp_add (if is_data32 then 4 else 2) r
      in (next_ip r, set_vmflag thr (w AND EFLAG_IF \<noteq> 0) s))"

definition gpf_iret :: "u32 \<Rightarrow> bool \<Rightarrow> u32 \<Rightarrow> I386_REGISTERS \<Rightarrow> kernel \<Rightarrow> I386_REGISTERS \<times> kernel" where
  "gpf_iret thr is_data32 stack r s =
     (let r = r\<lparr>r_eip := ucast (peek16 stack s)\<rparr>;
          r = r\<lparr>r_cs := ucast (peek16 (stack + 2) s)\<rparr>;
          w = ucast (peek16 (stack + 4) s) :: u32;
          r = r\<lparr>r_eflags := EFLAG_VM OR EFLAG_IF OR w\<rparr>;
          s = set_vmflag thr (w AND EFLAG_IF \<noteq> 0) s
      in (esp_add (if is_data32 then 12 else 6) r, s))"

text \<open>The loop over prefixes; the result is the handler's, with the registers it changed.\<close>

partial_function (option) gpf_loop :: "(kernel \<Rightarrow> kernel option) \<Rightarrow> u32 \<Rightarrow> u32 \<Rightarrow> u32 \<Rightarrow> bool \<Rightarrow> I386_REGISTERS \<Rightarrow>
    kernel \<Rightarrow> (bool \<times> I386_REGISTERS \<times> kernel) option" where
  "gpf_loop swapctx thr ip stack is_data32 r s =
     (let op = peek8 ip s
      in if op = 0x66 then gpf_loop swapctx thr (ip + 1) stack True (next_ip r) s
         else if op = 0x67 then gpf_loop swapctx thr (ip + 1) stack is_data32 (next_ip r) s
         else if op = 0xCD then
           (let n = peek8 (ip + 1) s
            in if n = 0xFB \<or> n = 0x03 then do {
                 (_, s) \<leftarrow> TmTerminateThread swapctx thr (r_eax r) s;
                 Some (False, r, s) }
               else if n = 0xFC then do {
                 s \<leftarrow> TmSleepThread swapctx thr (r_eax r) s;
                 Some (True, next_ip r, s) }
               else (let (r, s) = gpf_int thr n stack r s in Some (True, r, s)))
         else if op = 0x9C then (let (r, s) = gpf_pushf thr is_data32 stack r s in Some (True, r, s))
         else if op = 0x9D then (let (r, s) = gpf_popf thr is_data32 stack r s in Some (True, r, s))
         else if op = 0xCF then (let (r, s) = gpf_iret thr is_data32 stack r s in Some (True, r, s))
         else if op = 0xFA then Some (True, next_ip r, set_vmflag thr False s)
         else if op = 0xFB then Some (True, next_ip r, set_vmflag thr True s)
         else Some (False, r, s))"

definition gpf_handler :: "(kernel \<Rightarrow> kernel option) \<Rightarrow> I386_REGISTERS \<Rightarrow> kernel \<Rightarrow>
    (bool \<times> I386_REGISTERS \<times> kernel) option" where
  "gpf_handler swapctx r s =
     (let thr = TmGetCurrentThread s
      in if \<not> ar_in_vm86 (th_Arch (threads s thr)) then Some (False, r, s)
         else gpf_loop swapctx thr (FARPTR_TO_LINEAR (r_cs r) (r_eip r))
                (FARPTR_TO_LINEAR (r_ss r) (r_esp r)) False r s)"

section \<open>BIOS services\<close>

abbreviation GPF_INTERRUPT :: u32 where "GPF_INTERRUPT \<equiv> 13"

definition ArInitializeVm86 :: "u32 \<Rightarrow> kernel \<Rightarrow> kernel option" where
  "ArInitializeVm86 handler s = IpcInitializeSemaphore BiosCallSemaphore (snd (ArInstallIsr GPF_INTERRUPT handler s))"

text \<open>The ten registers \<open>es ds edi esi ebp kesp ebx edx ecx eax\<close> of an \<open>I386_CONTEXT\<close> as a list, in the
  order they are stored at \<open>0x1FFE0\<close> after the interrupt number.\<close>

primrec store16 :: "u32 \<Rightarrow> u16 list \<Rightarrow> kernel \<Rightarrow> kernel" where
  "store16 a [] s = s"
| "store16 a (v # vs) s = store16 (a + 2) vs (poke16 a v s)"

definition load_context :: "u32 \<Rightarrow> kernel \<Rightarrow> u32 list" where
  "load_context a s = map (\<lambda>i. ucast (peek16 (a + 2 * of_nat i) s)) [0..<10]"

abbreviation SIZEOF_CONTEXT :: u32 where "SIZEOF_CONTEXT \<equiv> 68"

definition ArInvokeBiosService :: "(kernel \<Rightarrow> kernel option) \<Rightarrow> u32 \<Rightarrow> u32 list \<Rightarrow> u32 \<Rightarrow> kernel \<Rightarrow>
    (int \<times> u32 list \<times> kernel) option" where
  "ArInvokeBiosService swapctx interrupt context siz s =
     (if siz < SIZEOF_CONTEXT then Some (- ERR_WRONGARG, context, s)
      else do {
        s \<leftarrow> ArMapMultiplePages (MmGetCurrentSpace s) 0 0 0x100000
               (PAGE_ATTR_PRESENT OR PAGE_ATTR_WRITE OR PAGE_ATTR_USER) (MAP_ADDRESS OR MAP_ATTRIBUTE) s;
        s \<leftarrow> IpcLockSemaphore swapctx BiosCallSemaphore s;
        let s = store16 0x1FFE0 (map ucast ((interrupt AND 0xFF) # context)) s;
        (thr, s) \<leftarrow> TmCreateThread swapctx (MmGetCurrentSpace s) 0x10100 BIOS_THREAD s;
        if thr = 0 then do { s \<leftarrow> IpcUnlockSemaphore BiosCallSemaphore s; Some (- ERR_UNKNOWN, context, s) }
        else do {
          let s = snd (TmResumeThread thr s);
          s \<leftarrow> TmJoinThread swapctx thr s;
          let context = load_context 0x1FFE2 s;
          s \<leftarrow> IpcUnlockSemaphore BiosCallSemaphore s;
          s \<leftarrow> ArUnmapMultiplePages (MmGetCurrentSpace s) 0 0x100000 s;
          Some (0, context, s) } })"

end
