(* ===== verification/System.thy ===== *)
theory System
  imports Interrupts
begin

text \<open>
  The system thread, \<open>kernel/start/system.c\<close>: it receives a message, dispatches on its command and
  replies with the result. Results the code writes through pointers into the message are arguments of
  the message that is sent back. \<open>globalPage\<close> is the address of the system information page.
\<close>

definition Reply :: "(kernel \<Rightarrow> kernel option) \<Rightarrow> Message \<Rightarrow> u32 \<Rightarrow> kernel \<Rightarrow> (int \<times> kernel) option" where
  "Reply swapctx msg code s = IpcSend swapctx (msg\<lparr>ms_Code := code\<rparr>) 0 s"

abbreviation arg :: "Message \<Rightarrow> nat \<Rightarrow> u32" where "arg m i \<equiv> ms_Arguments m i"

definition set_arg :: "nat \<Rightarrow> u32 \<Rightarrow> Message \<Rightarrow> Message" where
  "set_arg i v m = m\<lparr>ms_Arguments := (ms_Arguments m)(i := v)\<rparr>"

section \<open>Threads\<close>

text \<open>The result with which a command is answered, or nothing when no reply is sent.\<close>

definition tm_result :: "(kernel \<Rightarrow> kernel option) \<Rightarrow> Message \<Rightarrow> kernel \<Rightarrow> (u32 option \<times> kernel) option" where
  "tm_result swapctx m s =
     (let with_thread = (\<lambda>f. do {
            t \<leftarrow> TmGetThreadById (arg m 0) s;
            if t = 0 then Some (Some (of_int (- ERR_WRONGARG)), s)
            else do { (r, s) \<leftarrow> f t; Some (Some (of_int r), s) } })
      in if ms_Command m = 0x1001 then do {
           t \<leftarrow> TmGetThreadById (ms_ThreadId m) s;
           (_, s) \<leftarrow> TmTerminateThread swapctx t (arg m 0) s;
           Some (None, s) }
         else if ms_Command m = 0x1002 then do {
           t \<leftarrow> TmGetThreadById (arg m 0) s;
           (r, s) \<leftarrow> TmTerminateThread swapctx t (arg m 1) s;
           Some (Some (of_int r), s) }
         else if ms_Command m = 0x1003 then Some (Some (ms_ThreadId m), s)
         else if ms_Command m = 0x1004 then do {
           space \<leftarrow> MmGetSpaceById (arg m 0) s;
           (t, s) \<leftarrow> TmCreateAdvancedThread swapctx space (arg m 1) (arg m 2) (arg m 3) (arg m 4) USER_THREAD s;
           Some (Some (if t = 0 then of_int (- ERR_UNKNOWN) else th_ThreadId (threads s t)), s) }
         else if ms_Command m = 0x1005 then do {
           t \<leftarrow> TmGetThreadById (ms_ThreadId m) s;
           s \<leftarrow> TmSleepThread swapctx t (arg m 0) s;
           Some (None, s) }
         else if ms_Command m = 0x1006 then with_thread (\<lambda>t. Some (TmWakeupThread t s))
         else if ms_Command m = 0x1007 then with_thread (\<lambda>t. Some (TmResumeThread t s))
         else if ms_Command m = 0x1008 then with_thread (\<lambda>t. TmSuspendThread swapctx t s)
         else if ms_Command m = 0x1009 then with_thread (\<lambda>t. do { s \<leftarrow> TmJoinThread swapctx t s; Some (0, s) })
         else Some (Some 0, s))"

definition DoTmMessage :: "(kernel \<Rightarrow> kernel option) \<Rightarrow> Message \<Rightarrow> kernel \<Rightarrow> kernel option" where
  "DoTmMessage swapctx m s =
     do {
       (r, s) \<leftarrow> tm_result swapctx m s;
       case r of
         None \<Rightarrow> Some s
       | Some code \<Rightarrow> do { (_, s) \<leftarrow> Reply swapctx m code s; Some s } }"

section \<open>Memory\<close>

text \<open>The result, the message as the pointers into it changed it, or no reply.\<close>

definition mm_result :: "(kernel \<Rightarrow> kernel option) \<Rightarrow> u32 \<Rightarrow> Message \<Rightarrow> kernel \<Rightarrow>
    ((u32 \<times> Message) option \<times> kernel) option" where
  "mm_result swapctx space0 m s =
     (let done = (\<lambda>code s. Some (Some (code, m), s));
          with_space = (\<lambda>err f. do {
            space \<leftarrow> MmGetSpaceById (arg m 0) s;
            if space = 0 then done err s else f space })
      in if ms_Command m = 0x2001 then do {
           t \<leftarrow> TmGetThreadById (ms_ThreadId m) s;
           (_, s) \<leftarrow> TmTerminateThread swapctx t (arg m 0) s;
           Some (None, snd (MmDestroySpace space0 s)) }
         else if ms_Command m = 0x2005 then do {
           space \<leftarrow> MmGetSpaceById (arg m 0) s;
           done 0 (snd (MmDestroySpace space s)) }
         else if ms_Command m = 0x200C then do {
           (p, s) \<leftarrow> MmAllocateGlobalMemory swapctx (arg m 0) (arg m 1) (arg m 2) s;
           done p s }
         else if ms_Command m = 0x200D then do { s \<leftarrow> MmFreeGlobalMemory swapctx (arg m 0) s; done 0 s }
         else if ms_Command m = 0x2003 then done (sp_SpaceId (spaces s space0)) s
         else if ms_Command m = 0x2004 then with_space (of_int (- ERR_WRONGARG)) (\<lambda>space. do {
           (sp, s) \<leftarrow> MmCreateSpace swapctx space s;
           done (if sp \<noteq> 0 then sp_SpaceId (spaces s sp) else of_int (- ERR_UNKNOWN)) s })
         else if ms_Command m = 0x2006 then with_space 0 (\<lambda>space. do {
           (p, s) \<leftarrow> MmAllocateUserMemory swapctx space (arg m 1) (arg m 2) (arg m 3) s;
           done p s })
         else if ms_Command m = 0x2012 then with_space (of_int (- ERR_WRONGARG)) (\<lambda>space. do {
           (p, s) \<leftarrow> MmAllocateUserMemoryAddress swapctx space (arg m 1) (arg m 2) (arg m 3) (arg m 4) s;
           done p s })
         else if ms_Command m = 0x2007 then with_space (of_int (- ERR_WRONGARG)) (\<lambda>space. do {
           s \<leftarrow> MmFreeUserMemory swapctx space (arg m 1) s;
           done 0 s })
         else if ms_Command m = 0x200A then with_space (of_int (- ERR_WRONGARG)) (\<lambda>space. do {
           (r, info, s) \<leftarrow> ArQueryPageInformation space (arg m 1) s;
           Some (Some (of_int r, case info of Some (pa, at) \<Rightarrow> set_arg 3 at (set_arg 2 pa m) | None \<Rightarrow> m), s) })
         else if ms_Command m = 0x200E then with_space (of_int (- ERR_WRONGARG)) (\<lambda>space. do {
           (r, s) \<leftarrow> MmAcquireMultiplePhysicalPages space (arg m 1) (arg m 2) 0 0 s;
           done r s })
         else if ms_Command m = 0x200F then with_space (of_int (- ERR_WRONGARG)) (\<lambda>space. do {
           s \<leftarrow> MmReleaseMultiplePhysicalPages space (arg m 1) (arg m 2) s;
           done 0 s })
         else if ms_Command m = 0x2010 then with_space (of_int (- ERR_WRONGARG)) (\<lambda>space. do {
           (r, s) \<leftarrow> MmMapMemory swapctx space (arg m 1) (arg m 3) (arg m 2) (arg m 4) (arg m 5) s;
           done (of_int r) s })
         else if ms_Command m = 0x2013 then with_space (of_int (- ERR_WRONGARG)) (\<lambda>space. do {
           src \<leftarrow> MmGetSpaceById (drop_bit 16 (ms_ThreadId m)) s;
           (r, s) \<leftarrow> MmDuplicateMultiplePhysicalPages swapctx space (arg m 1) src (arg m 2) (arg m 3) s;
           done r s })
         else if ms_Command m = 0x2011 then with_space 0 (\<lambda>space. do {
           src \<leftarrow> MmGetSpaceById (drop_bit 16 (ms_ThreadId m)) s;
           (r, s) \<leftarrow> MmSwapMultiplePhysicalPages swapctx space (arg m 1) src (arg m 2) (arg m 3) (arg m 4) s;
           done r s })
         else if ms_Command m = 0x2014 then with_space (of_int (- ERR_WRONGARG)) (\<lambda>space. do {
           (r, info, s) \<leftarrow> MmQueryVirtualAddressInformation swapctx (SpaceVirtualMemory space) (arg m 1) s;
           Some (Some (of_int r, case info of
                    Some (b, e, at, fl) \<Rightarrow> set_arg 5 fl (set_arg 4 at (set_arg 3 e (set_arg 2 b m)))
                  | None \<Rightarrow> m), s) })
         else done 0 s)"

definition DoMmMessage :: "(kernel \<Rightarrow> kernel option) \<Rightarrow> Message \<Rightarrow> kernel \<Rightarrow> kernel option" where
  "DoMmMessage swapctx m s =
     do {
       space \<leftarrow> MmGetSpaceById (drop_bit 16 (ms_ThreadId m)) s;
       if space = 0 then Some s
       else do {
         (r, s) \<leftarrow> mm_result swapctx space m s;
         case r of
           None \<Rightarrow> Some s
         | Some (code, m) \<Rightarrow> do { (_, s) \<leftarrow> Reply swapctx m code s; Some s } } }"

section \<open>System information and the loop\<close>

definition KeGetSystemInforamtion :: "u32 \<Rightarrow> u32 option" where
  "KeGetSystemInforamtion globalPage = (if globalPage = 0 then None else Some globalPage)"

definition DoSysMessage :: "(kernel \<Rightarrow> kernel option) \<Rightarrow> u32 \<Rightarrow> Message \<Rightarrow> kernel \<Rightarrow> kernel option" where
  "DoSysMessage swapctx globalPage m s =
     do {
       (r, s) \<leftarrow>
         (if ms_Command m = 0x0001 then do { p \<leftarrow> KeGetSystemInforamtion globalPage; Some (p, s) }
          else if ms_Command m = 0x0002 then Some (0, KeEnableHardwareInterrupt (arg m 0) (arg m 1) s)
          else if ms_Command m = 0x0003 then
            (let (r, s) = KeAddHardwareInterruptHandler (arg m 0) (arg m 1) s in Some (of_int r, s))
          else if ms_Command m = 0x0004 then Some (0, KeDeleteHardwareInterruptHandler (arg m 0) (arg m 1) s)
          else Some (0, s));
       (_, s) \<leftarrow> Reply swapctx m r s;
       Some s }"

text \<open>One round of \<open>SystemMessageLoop\<close>.\<close>

definition system_round :: "(kernel \<Rightarrow> kernel option) \<Rightarrow> u32 \<Rightarrow> Message \<Rightarrow> kernel \<Rightarrow> (Message \<times> kernel) option" where
  "system_round swapctx globalPage m s =
     do {
       (result, m, s) \<leftarrow> IpcReceive swapctx (m\<lparr>ms_ThreadId := ANY_THREAD, ms_Command := 0\<rparr>) 0 INFINITE s;
       let cmd = ms_Command m;
       if result < 0 then Some (m, s)
       else if cmd < 0x1000 then do { s \<leftarrow> DoSysMessage swapctx globalPage m s; Some (m, s) }
       else if cmd < 0x2000 then do { s \<leftarrow> DoTmMessage swapctx m s; Some (m, s) }
       else if cmd < 0x3000 then do { s \<leftarrow> DoMmMessage swapctx m s; Some (m, s) }
       else Some (m, s) }"

definition KeStartSystemThread :: "(kernel \<Rightarrow> kernel option) \<Rightarrow> u32 \<Rightarrow> kernel \<Rightarrow> (u32 \<times> kernel) option" where
  "KeStartSystemThread swapctx entry s =
     do {
       (t, s) \<leftarrow> TmCreateThread swapctx (MmGetCurrentSpace s) entry KERNEL_THREAD s;
       let s = upd_thread t (\<lambda>r. r\<lparr>th_ThreadId := 0\<rparr>) s;
       Some (t, snd (TmResumeThread t s)) }"

end
