(* ===== verification/KQueueInv.thy ===== *)
theory KQueueInv
  imports KQueue
begin

text \<open>
  What the operations of \<open>kqueue.c\<close> do to the list of elements. \<open>links_ok s q ns\<close> says that the nodes of
  \<open>q\<close> from the back to the front are \<open>ns\<close>; \<open>qrep s Q A\<close> that \<open>Q\<close> gives the nodes of every queue, which are
  blocks in use that no two queues share, and \<open>A\<close> the elements. The locale \<open>queue_guard\<close> is what a queue
  needs of the semaphore that protects it; in it each operation is shown to refine the operation on the
  list \<open>A q\<close> that its name says, and to leave every other queue alone.
\<close>

section \<open>The list of a queue\<close>

definition links_ok :: "kernel \<Rightarrow> qref \<Rightarrow> u32 list \<Rightarrow> bool" where
  "links_ok s q ns \<longleftrightarrow> dlist (\<lambda>a. qn_next (qnodes s a)) (\<lambda>a. qn_prev (qnodes s a))
     (q_back (queues s q)) (q_front (queues s q)) ns"

definition queues_ok :: "kernel \<Rightarrow> (qref \<Rightarrow> u32 list) \<Rightarrow> bool" where
  "queues_ok s Q \<longleftrightarrow> heap_ok s \<and> (\<forall>q. links_ok s q (Q q) \<and> set (Q q) \<subseteq> live s) \<and>
     (\<forall>q q'. q \<noteq> q' \<longrightarrow> set (Q q) \<inter> set (Q q') = {})"

definition elems :: "kernel \<Rightarrow> u32 list \<Rightarrow> u32 list" where
  "elems s ns = map (\<lambda>a. qn_v (qnodes s a)) ns"

lemma links_ok_cong:
  assumes "\<And>a. a \<in> set ns \<Longrightarrow> qnodes t a = qnodes s a"
    and "q_back (queues t q) = q_back (queues s q)" and "q_front (queues t q) = q_front (queues s q)"
  shows "links_ok t q ns = links_ok s q ns"
  unfolding links_ok_def assms(2,3) by (rule dlist_cong) (simp_all add: assms(1))

lemma elems_cong: "(\<And>a. a \<in> set ns \<Longrightarrow> qn_v (qnodes t a) = qn_v (qnodes s a)) \<Longrightarrow> elems t ns = elems s ns"
  by (simp add: elems_def)

lemma queues_okD:
  assumes "queues_ok s Q"
  shows "heap_ok s" "links_ok s q (Q q)" "set (Q q) \<subseteq> live s" "q \<noteq> q' \<Longrightarrow> set (Q q) \<inter> set (Q q') = {}"
  using assms by (auto simp: queues_ok_def)

text \<open>An operation that links, unlinks or leaves the nodes of one queue \<open>q\<close>.\<close>

lemma queues_ok_update:
  assumes ok: "queues_ok s Q" and heap: "heap_ok t"
    and q: "links_ok t q ns" "set ns \<subseteq> live t" "set ns \<inter> \<Union> (set ` Q ` (UNIV - {q})) = {}"
    and nodes: "\<And>a. a \<notin> set (Q q) \<Longrightarrow> a \<notin> set ns \<Longrightarrow> qnodes t a = qnodes s a"
    and queue: "\<And>q'. q' \<noteq> q \<Longrightarrow> q_back (queues t q') = q_back (queues s q') \<and> q_front (queues t q') = q_front (queues s q')"
    and live: "live s - set (Q q) \<subseteq> live t"
  shows "queues_ok t (Q(q := ns))"
proof -
  have "links_ok t q' (Q q') \<and> set (Q q') \<subseteq> live t" if "q' \<noteq> q" for q'
  proof -
    have d: "set (Q q') \<inter> set (Q q) = {}" "set (Q q') \<inter> set ns = {}"
      using queues_okD(4) [OF ok that] q(3) that by auto
    have "links_ok t q' (Q q') = links_ok s q' (Q q')"
      by (rule links_ok_cong) (use d nodes queue [OF that] in auto)
    then show ?thesis using queues_okD(2,3) [OF ok, of q'] d live by auto
  qed
  moreover have "set (Q q') \<inter> set ns = {}" "set ns \<inter> set (Q q') = {}" if "q' \<noteq> q" for q'
    using q(3) that by auto
  ultimately show ?thesis
    using heap q(1,2) queues_okD(4) [OF ok] by (simp add: queues_ok_def)
qed

subsection \<open>Linking and unlinking a node\<close>

lemma link_back_fields:
  "queues (link_back q n s) q' = (if q' = q then (queues s q)\<lparr>q_back := n,
     q_front := (if q_back (queues s q) = 0 \<and> q_front (queues s q) = 0 then n else q_front (queues s q))\<rparr> else queues s q')"
  "n \<noteq> q_back (queues s q) \<Longrightarrow> qnodes (link_back q n s) a = (if a = n then (qnodes s n)\<lparr>qn_prev := 0, qn_next := q_back (queues s q)\<rparr>
     else if a = q_back (queues s q) \<and> a \<noteq> 0 then (qnodes s a)\<lparr>qn_prev := n\<rparr> else qnodes s a)"
  by (simp_all add: link_back_def Let_def)

lemma link_front_fields:
  "queues (link_front q n s) q' = (if q' = q then (queues s q)\<lparr>q_front := n,
     q_back := (if q_front (queues s q) = 0 \<and> q_back (queues s q) = 0 then n else q_back (queues s q))\<rparr> else queues s q')"
  "n \<noteq> q_front (queues s q) \<Longrightarrow> qnodes (link_front q n s) a = (if a = n then (qnodes s n)\<lparr>qn_prev := q_front (queues s q), qn_next := 0\<rparr>
     else if a = q_front (queues s q) \<and> a \<noteq> 0 then (qnodes s a)\<lparr>qn_next := n\<rparr> else qnodes s a)"
  by (simp_all add: link_front_def Let_def)

lemma link_frame [simp]:
  "heap_rest (link_back q n s) = heap_rest s \<Longrightarrow> True"
  "live (link_back q n s) = live s" "heap_ok (link_back q n s) = heap_ok s"
  "live (link_front q n s) = live s" "heap_ok (link_front q n s) = heap_ok s"
  by (simp_all add: link_back_def link_front_def Let_def)

lemma link_back_ok:
  assumes l: "links_ok s q ns" and n: "n \<noteq> 0" "n \<notin> set ns"
  shows "links_ok (link_back q n s) q (n # ns)"
proof -
  let ?b = "q_back (queues s q)" and ?f = "q_front (queues s q)"
  have e: "?b = 0 \<longleftrightarrow> ns = []" "?f = 0 \<longleftrightarrow> ns = []"
    using l dlist_empty_iff dlist_empty_iff_last unfolding links_ok_def by blast+
  have nb: "n \<noteq> ?b" using n e dlist_ends(1) [OF l [unfolded links_ok_def]] by (auto split: if_splits)
  have "dlist (\<lambda>a. qn_next (qnodes (link_back q n s) a)) (\<lambda>a. qn_prev (qnodes (link_back q n s) a))
      n (if ?b = 0 then n else ?f) (n # ns)"
    by (rule dlist_push_head [OF l [unfolded links_ok_def] n])
      (use n dlist_nonzero [OF l [unfolded links_ok_def]] in \<open>auto simp: link_back_fields(2) [OF nb]\<close>)
  then show ?thesis by (simp add: links_ok_def link_back_fields(1) e cong: if_cong)
qed

lemma link_front_ok:
  assumes l: "links_ok s q ns" and n: "n \<noteq> 0" "n \<notin> set ns"
  shows "links_ok (link_front q n s) q (ns @ [n])"
proof -
  let ?b = "q_back (queues s q)" and ?f = "q_front (queues s q)"
  have e: "?b = 0 \<longleftrightarrow> ns = []" "?f = 0 \<longleftrightarrow> ns = []"
    using l dlist_empty_iff dlist_empty_iff_last unfolding links_ok_def by blast+
  have nf: "n \<noteq> ?f" using n e dlist_ends(2) [OF l [unfolded links_ok_def]] by (auto split: if_splits)
  have "dlist (\<lambda>a. qn_next (qnodes (link_front q n s) a)) (\<lambda>a. qn_prev (qnodes (link_front q n s) a))
      (if ?f = 0 then n else ?b) n (ns @ [n])"
    by (rule dlist_push_tail [OF l [unfolded links_ok_def] n])
      (use n dlist_nonzero [OF l [unfolded links_ok_def]] in \<open>auto simp: link_front_fields(2) [OF nf]\<close>)
  then show ?thesis by (simp add: links_ok_def link_front_fields(1) e cong: if_cong)
qed

text \<open>Only queues and nodes changed.\<close>

definition qframe :: "kernel \<Rightarrow> kernel \<Rightarrow> bool" where
  "qframe s t \<longleftrightarrow> t = s\<lparr>queues := queues t, qnodes := qnodes t\<rparr>"

lemma qframe_fields:
  assumes "qframe s t"
  shows "heap_ok t = heap_ok s" "live t = live s" "threads t = threads s" "spaces t = spaces s"
    "kmsgs t = kmsgs s" "sem_value t = sem_value s" "ThreadingBox t = ThreadingBox s"
    "irq_enabled t = irq_enabled s" "FirstSpace t = FirstSpace s"
  by (subst assms [unfolded qframe_def], simp)+

lemma qframe_link [simp]: "qframe s (link_back q n s)" "qframe s (link_front q n s)"
  "qframe s (unlink_node q n s)"
  by (simp_all add: qframe_def link_back_def link_front_def unlink_node_def Let_def upd_queue_def upd_qnode_def)

lemma qframe_unlink:
  "unlink_back q s = (n, v, t) \<Longrightarrow> qframe s t" "unlink_front q s = (n, v, t) \<Longrightarrow> qframe s t"
  by (auto simp: qframe_def unlink_back_def unlink_front_def Let_def upd_queue_def upd_qnode_def split: if_splits)

lemma unlink_back_ok:
  assumes l: "links_ok s q (n # ns)" and u: "unlink_back q s = (m, v, t)"
  shows "m = n" "v = qn_v (qnodes s n)" "links_ok t q ns" "qn_v (qnodes t a) = qn_v (qnodes s a)"
    "a \<notin> set ns \<Longrightarrow> qnodes t a = qnodes s a"
    "queues t q' = (if q' = q then (queues s q)\<lparr>q_back := q_back (queues t q), q_front := q_front (queues t q)\<rparr>
       else queues s q')"
proof -
  let ?nx = "qn_next (qnodes s n)"
  note d = l [unfolded links_ok_def]
  have b: "q_back (queues s q) = n" "n \<noteq> 0" using dlist_ends(1) [OF d] dlist_nonzero [OF d] by auto
  note nx = dlist_Cons_links(1) [OF d]
  have nz: "0 \<notin> set ns" "n \<notin> set ns" using dlist_nonzero [OF d] dlist_distinct [OF d] by simp_all
  have x: "?nx = 0 \<longleftrightarrow> ns = []" using nx nz by (metis hd_in_set)
  have "?nx \<noteq> n" using nx nz b(2) by (metis hd_in_set)
  with u have mv: "m = n" "v = qn_v (qnodes s n)"
    and t: "qnodes t = (\<lambda>a. if a = ?nx \<and> ?nx \<noteq> 0 then (qnodes s a)\<lparr>qn_prev := 0\<rparr> else qnodes s a)"
      "queues t = (queues s)(q := (queues s q)\<lparr>q_back := ?nx, q_front := (if ?nx = 0 then 0 else q_front (queues s q))\<rparr>)"
    using b by (auto simp: unlink_back_def Let_def upd_qnode_def upd_queue_def fun_eq_iff split: if_splits)
  have "dlist (\<lambda>a. qn_next (qnodes t a)) (\<lambda>a. qn_prev (qnodes t a)) ?nx (if ns = [] then 0 else q_front (queues s q)) ns"
    by (rule dlist_remove_head [OF d]) (use nx nz in \<open>auto simp: t\<close>)
  then show "links_ok t q ns" using x by (simp add: links_ok_def t)
  show "m = n" "v = qn_v (qnodes s n)" by (rule mv)+
  show "qn_v (qnodes t a) = qn_v (qnodes s a)" by (simp add: t)
  show "a \<notin> set ns \<Longrightarrow> qnodes t a = qnodes s a" using nx nz by (auto simp: t split: if_splits)
  show "queues t q' = (if q' = q then (queues s q)\<lparr>q_back := q_back (queues t q), q_front := q_front (queues t q)\<rparr>
       else queues s q')" by (simp add: t)
qed

lemma unlink_front_ok:
  assumes l: "links_ok s q (ns @ [n])" and u: "unlink_front q s = (m, v, t)"
  shows "m = n" "v = qn_v (qnodes s n)" "links_ok t q ns" "qn_v (qnodes t a) = qn_v (qnodes s a)"
    "a \<notin> set ns \<Longrightarrow> qnodes t a = qnodes s a"
    "queues t q' = (if q' = q then (queues s q)\<lparr>q_back := q_back (queues t q), q_front := q_front (queues t q)\<rparr>
       else queues s q')"
proof -
  let ?pr = "qn_prev (qnodes s n)"
  note d = l [unfolded links_ok_def]
  have f: "q_front (queues s q) = n" "n \<noteq> 0" using dlist_ends(2) [OF d] dlist_nonzero [OF d] by auto
  have pr: "?pr = (if ns = [] then 0 else last ns)" using dlist_links(2) [OF d] by simp
  have nz: "0 \<notin> set ns" "n \<notin> set ns" using dlist_nonzero [OF d] dlist_distinct [OF d] by simp_all
  have x: "?pr = 0 \<longleftrightarrow> ns = []" using pr nz by (metis last_in_set)
  have "?pr \<noteq> n" using pr nz f(2) by (metis last_in_set)
  with u have mv: "m = n" "v = qn_v (qnodes s n)"
    and t: "qnodes t = (\<lambda>a. if a = ?pr \<and> ?pr \<noteq> 0 then (qnodes s a)\<lparr>qn_next := 0\<rparr> else qnodes s a)"
      "queues t = (queues s)(q := (queues s q)\<lparr>q_front := ?pr, q_back := (if ?pr = 0 then 0 else q_back (queues s q))\<rparr>)"
    using f by (auto simp: unlink_front_def Let_def upd_qnode_def upd_queue_def fun_eq_iff split: if_splits)
  have "dlist (\<lambda>a. qn_next (qnodes t a)) (\<lambda>a. qn_prev (qnodes t a)) (if ns = [] then 0 else q_back (queues s q)) ?pr ns"
    by (rule dlist_remove_last [OF d]) (use pr nz in \<open>auto simp: t\<close>)
  then show "links_ok t q ns" using x by (simp add: links_ok_def t)
  show "m = n" "v = qn_v (qnodes s n)" by (rule mv)+
  show "qn_v (qnodes t a) = qn_v (qnodes s a)" by (simp add: t)
  show "a \<notin> set ns \<Longrightarrow> qnodes t a = qnodes s a" using pr nz by (auto simp: t split: if_splits)
  show "queues t q' = (if q' = q then (queues s q)\<lparr>q_back := q_back (queues t q), q_front := q_front (queues t q)\<rparr>
       else queues s q')" by (simp add: t)
qed

lemma unlink_empty:
  assumes "links_ok s q []"
  shows "unlink_back q s = (0, 0, s)" "unlink_front q s = (0, 0, s)"
  using assms by (simp_all add: links_ok_def unlink_back_def unlink_front_def)

lemma unlink_node_fields:
  assumes "qn_prev (qnodes s n) = p" "qn_next (qnodes s n) = x" "p \<noteq> n" "x \<noteq> n" "p \<noteq> x \<or> p = 0"
  shows "qnodes (unlink_node q n s) a = (if a = x \<and> x \<noteq> 0 then (qnodes s a)\<lparr>qn_prev := p\<rparr>
      else if a = p \<and> p \<noteq> 0 then (qnodes s a)\<lparr>qn_next := x\<rparr> else qnodes s a)"
    "queues (unlink_node q n s) q' = (if q' = q then (queues s q)\<lparr>q_back := (if p = 0 then x else q_back (queues s q)),
      q_front := (if x = 0 then p else q_front (queues s q))\<rparr> else queues s q')"
  using assms by (cases "p = 0"; cases "x = 0"; simp add: unlink_node_def Let_def)+

lemma unlink_node_ok:
  assumes l: "links_ok s q (xs @ n # ys)"
  shows "links_ok (unlink_node q n s) q (xs @ ys)"
    "qn_v (qnodes (unlink_node q n s) a) = qn_v (qnodes s a)"
    "a \<notin> set xs \<Longrightarrow> a \<notin> set ys \<Longrightarrow> qnodes (unlink_node q n s) a = qnodes s a"
    "queues (unlink_node q n s) q' = (if q' = q then (queues s q)\<lparr>q_back := q_back (queues (unlink_node q n s) q),
       q_front := q_front (queues (unlink_node q n s) q)\<rparr> else queues s q')"
proof -
  let ?t = "unlink_node q n s"
  note d = l [unfolded links_ok_def]
  obtain p x where px: "qn_prev (qnodes s n) = p" "qn_next (qnodes s n) = x" by simp
  have nx: "x = (if ys = [] then 0 else hd ys)" and pr: "p = (if xs = [] then 0 else last xs)"
    using dlist_links [OF d] px by simp_all
  have nz: "0 \<notin> set xs" "0 \<notin> set ys" "n \<noteq> 0" "n \<notin> set xs" "n \<notin> set ys"
    and dj: "a \<in> set xs \<Longrightarrow> a \<notin> set ys" for a
    using dlist_nonzero [OF d] dlist_distinct [OF d] by auto
  have xs: "p \<noteq> 0 \<longleftrightarrow> xs \<noteq> []" "p \<noteq> 0 \<Longrightarrow> p \<in> set xs"
    using pr nz(1) by (cases xs rule: rev_cases, auto)+
  have ys: "x \<noteq> 0 \<longleftrightarrow> ys \<noteq> []" "x \<noteq> 0 \<Longrightarrow> x \<in> set ys"
    using nx nz(2) by (cases ys, auto)+
  have ne: "p \<noteq> n" "x \<noteq> n" "p \<noteq> x \<or> p = 0" using xs(2) ys(2) nz dj by metis+
  note t = unlink_node_fields [OF px ne]
  have 1: "\<not> (a = x \<and> x \<noteq> 0)" "a = p \<and> p \<noteq> 0 \<longleftrightarrow> a = last xs" if "a \<in> set xs" for a
    using that ys(2) dj xs(1) pr by (auto split: if_splits)
  have 2: "\<not> (a = p \<and> p \<noteq> 0)" "a = x \<and> x \<noteq> 0 \<longleftrightarrow> a = hd ys" if "a \<in> set ys" for a
    using that xs(2) dj ys(1) nx by (auto split: if_splits)
  have "dlist (\<lambda>a. qn_next (qnodes ?t a)) (\<lambda>a. qn_prev (qnodes ?t a))
      (if xs = [] then qn_next (qnodes s n) else q_back (queues s q))
      (if ys = [] then qn_prev (qnodes s n) else q_front (queues s q)) (xs @ ys)"
    by (rule dlist_remove [OF d]) (simp_all only: t 1 2 px if_False, simp_all)
  then show "links_ok ?t q (xs @ ys)" using xs(1) ys(1)
    by (cases "xs = []"; cases "ys = []"; simp add: links_ok_def t(2) px)
  show "qn_v (qnodes ?t a) = qn_v (qnodes s a)" by (simp add: t)
  show "qnodes ?t a = qnodes s a" if "a \<notin> set xs" "a \<notin> set ys" using that xs(2) ys(2) by (auto simp: t)
  show "queues ?t q' = (if q' = q then (queues s q)\<lparr>q_back := q_back (queues ?t q),
       q_front := q_front (queues ?t q)\<rparr> else queues s q')" by (simp add: t)
qed

text \<open>What a lock operation that does not block may change: the value of a semaphore and the counters.\<close>

definition lframe :: "kernel \<Rightarrow> kernel \<Rightarrow> bool" where
  "lframe s t \<longleftrightarrow> (\<exists>v Qs. t = s\<lparr>sem_value := v, queues := Qs\<rparr> \<and>
     (\<forall>q. Qs q = (queues s q)\<lparr>q_cur_num := q_cur_num (Qs q)\<rparr>))"

lemma lframe_fields:
  assumes "lframe s t"
  shows "heap_ok t = heap_ok s" "live t = live s" "threads t = threads s" "spaces t = spaces s"
    "kmsgs t = kmsgs s" "qnodes t = qnodes s" "ThreadingBox t = ThreadingBox s"
    "irq_enabled t = irq_enabled s" "FirstSpace t = FirstSpace s"
    "queues t q = (queues s q)\<lparr>q_cur_num := q_cur_num (queues t q)\<rparr>"
  using assms by (auto simp: lframe_def)

lemma lframe_refl [simp]: "lframe s s"
  unfolding lframe_def by (rule exI [of _ "sem_value s"], rule exI [of _ "queues s"]) simp

lemma lframe_trans: "lframe s t \<Longrightarrow> lframe t u \<Longrightarrow> lframe s u"
proof -
  assume "lframe s t" "lframe t u"
  then obtain v Qs w Rs where t: "t = s\<lparr>sem_value := v, queues := Qs\<rparr>" "u = t\<lparr>sem_value := w, queues := Rs\<rparr>"
    and q: "\<And>q. Qs q = (queues s q)\<lparr>q_cur_num := q_cur_num (Qs q)\<rparr>" "\<And>q. Rs q = (queues t q)\<lparr>q_cur_num := q_cur_num (Rs q)\<rparr>"
    unfolding lframe_def by blast
  have "u = s\<lparr>sem_value := w, queues := Rs\<rparr>" by (simp add: t)
  moreover have "Rs q = (queues s q)\<lparr>q_cur_num := q_cur_num (Rs q)\<rparr>" for q
  proof -
    have "queues t q = (queues s q)\<lparr>q_cur_num := q_cur_num (Qs q)\<rparr>" using q(1) [of q] by (simp add: t(1))
    with q(2) [of q] show ?thesis by simp
  qed
  ultimately show ?thesis unfolding lframe_def by blast
qed

lemma lframe_ends:
  assumes "lframe s t"
  shows "q_back (queues t q) = q_back (queues s q)" "q_front (queues t q) = q_front (queues s q)"
    "q_max_num (queues t q) = q_max_num (queues s q)" "q_use_sem (queues t q) = q_use_sem (queues s q)"
    "q_semaphore (queues t q) = q_semaphore (queues s q)" "q_del_func (queues t q) = q_del_func (queues s q)"
  by (subst lframe_fields(10) [OF assms], simp)+

lemma lframe_queues:
  assumes "lframe s t"
  shows "queues_ok t Q = queues_ok s Q" "elems t ns = elems s ns" "links_ok t q ns = links_ok s q ns"
  using lframe_fields [OF assms] lframe_ends [OF assms]
  by (simp_all add: queues_ok_def elems_def links_ok_def)

text \<open>
  The abstract state is the list of elements of every queue, from the back to the front.
\<close>

definition qrep :: "kernel \<Rightarrow> (qref \<Rightarrow> u32 list) \<Rightarrow> (qref \<Rightarrow> u32 list) \<Rightarrow> bool" where
  "qrep s Q A \<longleftrightarrow> queues_ok s Q \<and> (\<forall>q. A q = elems s (Q q))"

lemma qrep_lframe: "lframe s t \<Longrightarrow> qrep t Q A = qrep s Q A"
  by (simp add: qrep_def lframe_queues)

text \<open>The semaphore of a queue that has one satisfies \<open>free\<close>, and is not the one whose own queue this is.\<close>

definition guarded :: "(semref \<Rightarrow> kernel \<Rightarrow> bool) \<Rightarrow> qref \<Rightarrow> kernel \<Rightarrow> bool" where
  "guarded free q s \<longleftrightarrow> (q_use_sem (queues s q) \<longrightarrow>
     free (HeapSemaphore (q_semaphore (queues s q))) s \<and> q \<noteq> WaitQueue (HeapSemaphore (q_semaphore (queues s q))))"

text \<open>The lock a queue is guarded by, as the queue uses it: taking it when it is available and giving it
  back when it is held neither blocks nor touches a list.\<close>

locale queue_guard =
  fixes lk ul :: "semref \<Rightarrow> kernel \<Rightarrow> kernel option"
    and avail held :: "semref \<Rightarrow> kernel \<Rightarrow> bool"
  assumes lock: "avail m s \<Longrightarrow> \<exists>t. lk m s = Some t \<and> held m t \<and> lframe s t \<and>
      (\<forall>q. q \<noteq> WaitQueue m \<longrightarrow> queues t q = queues s q)"
    and unlock: "held m s \<Longrightarrow> \<exists>t. ul m s = Some t \<and> avail m t \<and> lframe s t \<and>
      (\<forall>q. q \<noteq> WaitQueue m \<longrightarrow> queues t q = queues s q)"
    and stays: "held m s \<Longrightarrow> sem_value t m = sem_value s m \<Longrightarrow>
      queues t (WaitQueue m) = queues s (WaitQueue m) \<Longrightarrow> held m t"
      "avail m s \<Longrightarrow> sem_value t m = sem_value s m \<Longrightarrow>
      queues t (WaitQueue m) = queues s (WaitQueue m) \<Longrightarrow> avail m t"
begin

lemma take_lock:
  assumes "guarded avail q s"
  obtains t where "queue_lock lk q s = Some t" "guarded held q t" "lframe s t" "queues t q = queues s q"
proof (cases "q_use_sem (queues s q)")
  case True
  with assms lock [of "HeapSemaphore (q_semaphore (queues s q))" s] that show thesis
    by (auto simp: guarded_def queue_lock_def)
next
  case False
  with that [of s] show thesis by (simp add: queue_lock_def guarded_def)
qed

lemma give_lock:
  assumes "guarded held q s"
  obtains t where "queue_lock ul q s = Some t" "guarded avail q t" "lframe s t" "queues t q = queues s q"
proof (cases "q_use_sem (queues s q)")
  case True
  with assms unlock [of "HeapSemaphore (q_semaphore (queues s q))" s] that show thesis
    by (auto simp: guarded_def queue_lock_def)
next
  case False
  with that [of s] show thesis by (simp add: queue_lock_def guarded_def)
qed

text \<open>The lock does not depend on the rest of the state.\<close>

lemma guard_stays:
  assumes "sem_value t = sem_value s" "\<And>q'. q' \<noteq> q \<Longrightarrow> queues t q' = queues s q'"
    "q_use_sem (queues t q) = q_use_sem (queues s q)" "q_semaphore (queues t q) = q_semaphore (queues s q)"
  shows "guarded held q s \<Longrightarrow> guarded held q t" "guarded avail q s \<Longrightarrow> guarded avail q t"
  using stays(1) [of "HeapSemaphore (q_semaphore (queues s q))" s t]
    stays(2) [of "HeapSemaphore (q_semaphore (queues s q))" s t] assms
  by (auto simp: guarded_def)

end

lemma qrep_push:
  assumes r: "qrep s Q A" and n: "n \<noteq> 0" "n \<in> live s" "\<And>q. n \<notin> set (Q q)" and v: "qn_v (qnodes s n) = x"
  shows "qrep (link_front q n s) (Q(q := Q q @ [n])) (A(q := A q @ [x]))"
    "qrep (link_back q n s) (Q(q := n # Q q)) (A(q := x # A q))"
proof -
  from r have ok: "queues_ok s Q" and A: "\<And>q. A q = elems s (Q q)" by (auto simp: qrep_def)
  note l = queues_okD(2) [OF ok, of q]
  have f: "n \<noteq> q_front (queues s q)" "n \<noteq> q_back (queues s q)"
    using n l dlist_ends [OF l [unfolded links_ok_def]] by (auto split: if_splits dest: last_in_set hd_in_set)
  have vs: "qn_v (qnodes (link_front q n s) a) = qn_v (qnodes s a)" "qn_v (qnodes (link_back q n s) a) = qn_v (qnodes s a)" for a
    using f by (simp_all add: link_front_fields link_back_fields)
  have e: "q_front (queues s q) \<noteq> 0 \<Longrightarrow> q_front (queues s q) \<in> set (Q q)" "q_back (queues s q) \<noteq> 0 \<Longrightarrow> q_back (queues s q) \<in> set (Q q)"
    using dlist_ends [OF l [unfolded links_ok_def]] by (auto split: if_splits)
  have dj: "set (Q q) \<inter> \<Union> (set ` Q ` (UNIV - {q})) = {}" using queues_okD(4) [OF ok] by auto
  have "queues_ok (link_front q n s) (Q(q := Q q @ [n]))"
    by (rule queues_ok_update [OF ok]) (use queues_okD(1) [OF ok] queues_okD(2,3) [OF ok, of q] link_front_ok [OF l n(1) n(3)] n f e dj in \<open>auto simp: link_front_fields\<close>)
  then show "qrep (link_front q n s) (Q(q := Q q @ [n])) (A(q := A q @ [x]))"
    using v vs(1) by (simp add: qrep_def A elems_def)
  have "queues_ok (link_back q n s) (Q(q := n # Q q))"
    by (rule queues_ok_update [OF ok]) (use queues_okD(1) [OF ok] queues_okD(2,3) [OF ok, of q] link_back_ok [OF l n(1) n(3)] n f e dj in \<open>auto simp: link_back_fields\<close>)
  then show "qrep (link_back q n s) (Q(q := n # Q q)) (A(q := x # A q))"
    using v vs(2) by (simp add: qrep_def A elems_def)
qed

lemma qrep_cong:
  assumes "qnodes t = qnodes s" "\<And>q. q_back (queues t q) = q_back (queues s q) \<and> q_front (queues t q) = q_front (queues s q)"
    "heap_ok t" "live s \<subseteq> live t" "qrep s Q A"
  shows "qrep t Q A"
  using assms unfolding qrep_def queues_ok_def links_ok_def elems_def by fastforce

lemma qrepD: "qrep s Q A \<Longrightarrow> heap_ok s" "qrep s Q A \<Longrightarrow> set (Q q) \<subseteq> live s" "qrep s Q A \<Longrightarrow> queues_ok s Q"
  "qrep s Q A \<Longrightarrow> length (A q) = length (Q q)"
  by (auto simp: qrep_def queues_ok_def elems_def)

lemma qrep_upd_fresh:
  assumes "\<And>q. n \<notin> set (Q q)"
  shows "qrep (upd_qnode n f s) Q A = qrep s Q A"
proof -
  have "links_ok (upd_qnode n f s) q (Q q) = links_ok s q (Q q)" for q
    by (rule links_ok_cong) (use assms [of q] in auto)
  moreover have "elems (upd_qnode n f s) (Q q) = elems s (Q q)" for q
    by (rule elems_cong) (use assms [of q] in auto)
  ultimately show ?thesis by (simp add: qrep_def queues_ok_def)
qed

text \<open>An element enters the queue: the result and the new abstract state.\<close>

definition full :: "qref \<Rightarrow> kernel \<Rightarrow> bool" where
  "full q s \<longleftrightarrow> sint (q_max_num (queues s q)) \<le> sint (q_cur_num (queues s q))"

text \<open>What is left of a queue once its links are put aside.\<close>

definition queue_rest :: "KQueue \<Rightarrow> KQueue" where
  "queue_rest r = r\<lparr>q_front := 0, q_back := 0\<rparr>"

lemma queue_rest_dec:
  "queue_rest a = queue_rest b \<Longrightarrow>
   queue_rest (a\<lparr>q_cur_num := q_cur_num a - 1\<rparr>) = queue_rest (b\<lparr>q_cur_num := q_cur_num b - 1\<rparr>)"
  by (cases a; cases b) (simp add: queue_rest_def)

context queue_guard
begin

lemma push_prepare:
  assumes r: "qrep s Q A" and g: "guarded avail q s" and a: "MmAllocateKernelMemory n s = Some (nod, s1)" "nod \<noteq> 0"
  obtains s2 where
    "queue_lock lk q (upd_queue q (\<lambda>r. r\<lparr>q_cur_num := q_cur_num r + 1\<rparr>) (upd_qnode nod (\<lambda>n. n\<lparr>qn_v := x\<rparr>) s1)) = Some s2"
    "guarded held q s2" "qrep s2 Q A" "qn_v (qnodes s2 nod) = x" "nod \<in> live s2" "\<And>q. nod \<notin> set (Q q)"
    "live s2 = insert nod (live s)" "queues s2 q = (queues s q)\<lparr>q_cur_num := q_cur_num (queues s q) + 1\<rparr>"
proof -
  let ?s = "upd_queue q (\<lambda>r. r\<lparr>q_cur_num := q_cur_num r + 1\<rparr>) (upd_qnode nod (\<lambda>n. n\<lparr>qn_v := x\<rparr>) s1)"
  note fr = MmAllocateKernelMemory_frame [OF a(1)]
  note hp = MmAllocateKernelMemory_heap [OF qrepD(1) [OF r] a(1)]
  have nQ: "nod \<notin> set (Q q)" for q using qrepD(2) [OF r, of q] hp(3) [OF a(2)] by auto
  have "qrep s1 Q A" by (rule qrep_cong [OF _ _ _ _ r]) (use fr hp a(2) in auto)
  then have "qrep (upd_qnode nod (\<lambda>n. n\<lparr>qn_v := x\<rparr>) s1) Q A"
    by (simp add: qrep_upd_fresh [OF nQ])
  then have 1: "qrep ?s Q A" by (rule qrep_cong [rotated -1]) (use hp(1) in auto)
  have "guarded avail q ?s" by (rule guard_stays(2) [OF _ _ _ _ g]) (use fr in auto)
  then obtain s2 where s2: "queue_lock lk q ?s = Some s2" "guarded held q s2" "lframe ?s s2" "queues s2 q = queues ?s q"
    by (rule take_lock)
  show thesis
    by (rule that [OF s2(1,2)]) (use s2 lframe_fields [OF s2(3)] 1 qrep_lframe [OF s2(3), of Q A] hp(3) [OF a(2)] fr nQ in auto)
qed

lemma push_front:
  assumes r: "qrep s Q A" and g: "guarded avail q s"
  obtains (refused) s' where "RtlPushFrontQueue lk ul q x s = Some (- ERR_NOMEM, s')" "qrep s' Q A" "guarded avail q s'"
      "live s' = live s" "queues s' = queues s"
      "full q s \<or> (\<exists>t. MmAllocateKernelMemory SIZEOF_KQueueNode s = Some (0, t))"
  | (pushed) s' nod where "\<not> full q s" "RtlPushFrontQueue lk ul q x s = Some (0, s')" "qrep s' (Q(q := Q q @ [nod])) (A(q := A q @ [x]))"
      "guarded avail q s'" "nod \<notin> live s" "live s' = insert nod (live s)"
      "queue_rest (queues s' q) = queue_rest ((queues s q)\<lparr>q_cur_num := q_cur_num (queues s q) + 1\<rparr>)"
proof (cases "full q s")
  case True
  with r g show thesis by (intro refused) (auto simp: RtlPushFrontQueue_def full_def)
next
  case False
  from qrepD(1) [OF r] obtain nod s1 where a: "MmAllocateKernelMemory SIZEOF_KQueueNode s = Some (nod, s1)"
    using kmem.alloc_returns by blast
  note hp = MmAllocateKernelMemory_heap [OF qrepD(1) [OF r] a]
  note fr = MmAllocateKernelMemory_frame [OF a]
  show thesis
  proof (cases "nod = 0")
    case True
    have "qrep s1 Q A" by (rule qrep_cong [OF _ _ _ _ r]) (use fr hp True in auto)
    moreover have "guarded avail q s1" by (rule guard_stays(2) [OF _ _ _ _ g]) (use fr in auto)
    ultimately show thesis using False True a hp fr
      by (intro refused [of s1]) (auto simp: RtlPushFrontQueue_def full_def)
  next
    case nz: False
    obtain s2 where s2:
      "queue_lock lk q (upd_queue q (\<lambda>r. r\<lparr>q_cur_num := q_cur_num r + 1\<rparr>) (upd_qnode nod (\<lambda>n. n\<lparr>qn_v := x\<rparr>) s1)) = Some s2"
      "guarded held q s2" "qrep s2 Q A" "qn_v (qnodes s2 nod) = x" "nod \<in> live s2" "\<And>q. nod \<notin> set (Q q)"
      "live s2 = insert nod (live s)" "queues s2 q = (queues s q)\<lparr>q_cur_num := q_cur_num (queues s q) + 1\<rparr>"
      by (rule push_prepare [OF r g a nz, of x]) blast
    note rep = qrep_push(1) [OF s2(3) nz s2(5,6,4), of q]
    have "guarded held q (link_front q nod s2)"
      by (rule guard_stays(1) [OF _ _ _ _ s2(2)]) (simp_all add: qframe_fields [OF qframe_link(2)] link_front_fields)
    then obtain s3 where s3: "queue_lock ul q (link_front q nod s2) = Some s3" "guarded avail q s3" "lframe (link_front q nod s2) s3"
      "queues s3 q = queues (link_front q nod s2) q" by (rule give_lock)
    have "RtlPushFrontQueue lk ul q x s = Some (0, s3)"
      using False nz a s2(1) s3(1) by (simp add: RtlPushFrontQueue_def full_def)
    moreover have "qrep s3 (Q(q := Q q @ [nod])) (A(q := A q @ [x]))"
      using rep by (simp add: qrep_lframe [OF s3(3)])
    moreover have "live s3 = insert nod (live s)"
      using s2(7) by (simp add: lframe_fields(2) [OF s3(3)])
    moreover have "queue_rest (queues s3 q) = queue_rest ((queues s q)\<lparr>q_cur_num := q_cur_num (queues s q) + 1\<rparr>)"
      unfolding s3(4) link_front_fields(1) by (simp add: s2(8) queue_rest_def)
    ultimately show thesis using pushed [of s3 nod] False s3(2) hp(3) [OF nz] by blast
  qed
qed

lemma push_back:
  assumes r: "qrep s Q A" and g: "guarded avail q s"
  obtains (refused) s' where "RtlPushBackQueue lk ul q x s = Some (- ERR_NOMEM, s')" "qrep s' Q A" "guarded avail q s'"
      "live s' = live s" "queues s' = queues s"
      "full q s \<or> (\<exists>t. MmAllocateKernelMemory SIZEOF_KQueueNode s = Some (0, t))"
  | (pushed) s' nod where "\<not> full q s" "RtlPushBackQueue lk ul q x s = Some (0, s')" "qrep s' (Q(q := nod # Q q)) (A(q := x # A q))"
      "guarded avail q s'" "nod \<notin> live s" "live s' = insert nod (live s)"
      "queue_rest (queues s' q) = queue_rest ((queues s q)\<lparr>q_cur_num := q_cur_num (queues s q) + 1\<rparr>)"
proof (cases "full q s")
  case True
  with r g show thesis by (intro refused) (auto simp: RtlPushBackQueue_def full_def)
next
  case False
  from qrepD(1) [OF r] obtain nod s1 where a: "MmAllocateKernelMemory SIZEOF_KQueueNode s = Some (nod, s1)"
    using kmem.alloc_returns by blast
  note hp = MmAllocateKernelMemory_heap [OF qrepD(1) [OF r] a]
  note fr = MmAllocateKernelMemory_frame [OF a]
  show thesis
  proof (cases "nod = 0")
    case True
    have "qrep s1 Q A" by (rule qrep_cong [OF _ _ _ _ r]) (use fr hp True in auto)
    moreover have "guarded avail q s1" by (rule guard_stays(2) [OF _ _ _ _ g]) (use fr in auto)
    ultimately show thesis using False True a hp fr
      by (intro refused [of s1]) (auto simp: RtlPushBackQueue_def full_def)
  next
    case nz: False
    obtain s2 where s2:
      "queue_lock lk q (upd_queue q (\<lambda>r. r\<lparr>q_cur_num := q_cur_num r + 1\<rparr>) (upd_qnode nod (\<lambda>n. n\<lparr>qn_v := x\<rparr>) s1)) = Some s2"
      "guarded held q s2" "qrep s2 Q A" "qn_v (qnodes s2 nod) = x" "nod \<in> live s2" "\<And>q. nod \<notin> set (Q q)"
      "live s2 = insert nod (live s)" "queues s2 q = (queues s q)\<lparr>q_cur_num := q_cur_num (queues s q) + 1\<rparr>"
      by (rule push_prepare [OF r g a nz, of x]) blast
    note rep = qrep_push(2) [OF s2(3) nz s2(5,6,4), of q]
    have "guarded held q (link_back q nod s2)"
      by (rule guard_stays(1) [OF _ _ _ _ s2(2)]) (simp_all add: qframe_fields [OF qframe_link(1)] link_back_fields)
    then obtain s3 where s3: "queue_lock ul q (link_back q nod s2) = Some s3" "guarded avail q s3" "lframe (link_back q nod s2) s3"
      "queues s3 q = queues (link_back q nod s2) q" by (rule give_lock)
    have "RtlPushBackQueue lk ul q x s = Some (0, s3)"
      using False nz a s2(1) s3(1) by (simp add: RtlPushBackQueue_def full_def)
    moreover have "qrep s3 (Q(q := nod # Q q)) (A(q := x # A q))"
      using rep by (simp add: qrep_lframe [OF s3(3)])
    moreover have "live s3 = insert nod (live s)"
      using s2(7) by (simp add: lframe_fields(2) [OF s3(3)])
    moreover have "queue_rest (queues s3 q) = queue_rest ((queues s q)\<lparr>q_cur_num := q_cur_num (queues s q) + 1\<rparr>)"
      unfolding s3(4) link_back_fields(1) by (simp add: s2(8) queue_rest_def)
    ultimately show thesis using pushed [of s3 nod] False s3(2) hp(3) [OF nz] by blast
  qed
qed

end

lemma qrep_unlink_back:
  assumes r: "qrep s Q A" and q: "Q q = n # ns" and u: "unlink_back q s = (m, v, t)"
  shows "m = n" "v = hd (A q)" "qrep t (Q(q := ns)) (A(q := tl (A q)))" "n \<noteq> 0" "n \<in> live t" "\<And>q'. n \<notin> set ((Q(q := ns)) q')"
    "queue_rest (queues t q) = queue_rest (queues s q)" "live t = live s" "sem_value t = sem_value s"
    "q' \<noteq> q \<Longrightarrow> queues t q' = queues s q'"
proof -
  note ok = qrepD(3) [OF r]
  note l = queues_okD(2) [OF ok, of q, unfolded q]
  note uo = unlink_back_ok [OF l u] and fr = qframe_fields [OF qframe_unlink(1) [OF u]]
  have A: "A q' = elems s (Q q')" for q' using r by (simp add: qrep_def)
  have e: "elems t xs = elems s xs" for xs by (rule elems_cong) (rule uo(4))
  show "m = n" by (rule uo(1))
  show "v = hd (A q)" using uo(2) by (simp add: A q elems_def)
  show n0: "n \<noteq> 0" using dlist_nonzero [OF l [unfolded links_ok_def]] by auto
  have nl: "n \<in> live s" using queues_okD(3) [OF ok, of q] by (auto simp: q)
  then show "n \<in> live t" by (simp add: fr)
  have nn: "n \<notin> set ns" using dlist_distinct [OF l [unfolded links_ok_def]] by simp
  show "n \<notin> set ((Q(q := ns)) q')" for q' using nn queues_okD(4) [OF ok, of q q'] by (auto simp: q)
  have "queues_ok t (Q(q := ns))"
  proof (rule queues_ok_update [OF ok])
    show "set ns \<inter> \<Union> (set ` Q ` (UNIV - {q})) = {}" using queues_okD(4) [OF ok, of q] by (force simp: q)
    show "qnodes t a = qnodes s a" if "a \<notin> set ns" for a by (rule uo(5) [OF that])
    show "q_back (queues t q') = q_back (queues s q') \<and> q_front (queues t q') = q_front (queues s q')" if "q' \<noteq> q" for q'
      using uo(6) [of q'] that by simp
  qed (use fr uo(3) queues_okD(3) [OF ok, of q] queues_okD(1) [OF ok] in \<open>auto simp: q\<close>)
  then show "qrep t (Q(q := ns)) (A(q := tl (A q)))" by (simp add: qrep_def e A) (simp add: elems_def q)
  show "queue_rest (queues t q) = queue_rest (queues s q)" by (subst uo(6)) (simp add: queue_rest_def)
  show "live t = live s" "sem_value t = sem_value s" by (simp_all add: fr)
  show "q' \<noteq> q \<Longrightarrow> queues t q' = queues s q'" using uo(6) [of q'] by simp
qed

lemma qrep_free:
  assumes r: "qrep s Q A" and n: "n \<in> live s" "\<And>q. n \<notin> set (Q q)"
  shows "qrep (MmFreeKernelMemory n s) Q A" "live (MmFreeKernelMemory n s) = live s - {n}"
proof -
  note hp = MmFreeKernelMemory_heap [OF qrepD(1) [OF r] n(1)]
  show "live (MmFreeKernelMemory n s) = live s - {n}" by (rule hp(2))
  have "links_ok (MmFreeKernelMemory n s) q (Q q) = links_ok s q (Q q)" for q
    by (rule links_ok_cong) simp_all
  moreover have "elems (MmFreeKernelMemory n s) (Q q) = elems s (Q q)" for q
    by (rule elems_cong) simp
  moreover have "set (Q q) \<subseteq> live s - {n}" for q using qrepD(2) [OF r, of q] n(2) [of q] by auto
  ultimately show "qrep (MmFreeKernelMemory n s) Q A"
    using r hp by (simp add: qrep_def queues_ok_def)
qed

lemma pop_back_eq:
  assumes "queue_lock lk q s = Some s1" "unlink_back q s1 = (m, v, t)" "queue_lock ul q t = Some s2"
    "s3 = upd_queue q (\<lambda>r. r\<lparr>q_cur_num := q_cur_num r - 1\<rparr>) s2"
  shows "RtlPopBackQueue lk ul q s = Some (v, if m \<noteq> 0 then MmFreeKernelMemory m s3 else s3)"
  unfolding RtlPopBackQueue_def using assms by (simp add: Let_def)

context queue_guard
begin

lemma pop_back:
  assumes r: "qrep s Q A" and g: "guarded avail q s"
  obtains s' where "RtlPopBackQueue lk ul q s = Some (if A q = [] then 0 else hd (A q), s')"
    "qrep s' (Q(q := tl (Q q))) (A(q := tl (A q)))" "guarded avail q s'" "live s' = live s - set (take 1 (Q q))"
    "queue_rest (queues s' q) = queue_rest ((queues s q)\<lparr>q_cur_num := q_cur_num (queues s q) - 1\<rparr>)"
proof -
  obtain s1 where s1: "queue_lock lk q s = Some s1" "guarded held q s1" "lframe s s1" "queues s1 q = queues s q"
    by (rule take_lock [OF g])
  have r1: "qrep s1 Q A" using r by (simp add: qrep_lframe [OF s1(3)])
  obtain m v t where u: "unlink_back q s1 = (m, v, t)" by (metis prod_cases3)
  have A: "A q = elems s1 (Q q)" for q using r1 by (simp add: qrep_def)
  have 1: "v = (if A q = [] then 0 else hd (A q)) \<and> qrep t (Q(q := tl (Q q))) (A(q := tl (A q))) \<and> guarded held q t \<and>
      queue_rest (queues t q) = queue_rest (queues s q) \<and> (m \<noteq> 0 \<longleftrightarrow> Q q \<noteq> []) \<and> live t = live s \<and>
      (m \<noteq> 0 \<longrightarrow> m = hd (Q q) \<and> m \<in> live t \<and> (\<forall>q'. m \<notin> set ((Q(q := tl (Q q))) q')))"
  proof (cases "Q q")
    case Nil
    with queues_okD(2) [OF qrepD(3) [OF r1], of q] have "links_ok s1 q []" by simp
    from unlink_empty(1) [OF this] u have "m = 0" "v = 0" "t = s1" by simp_all
    with Nil r1 s1 show ?thesis by (simp add: A elems_def fun_upd_idem lframe_fields(2) [OF s1(3)])
  next
    case (Cons n ns)
    note ub = qrep_unlink_back [OF r1 Cons u]
    have "guarded held q t"
      by (rule guard_stays(1) [OF ub(9) _ _ _ s1(2)]) (use ub(7,10) in \<open>auto simp: queue_rest_def dest: arg_cong [where f = q_use_sem] arg_cong [where f = q_semaphore]\<close>)
    moreover have "A q \<noteq> []" by (simp add: A Cons elems_def)
    ultimately show ?thesis using ub Cons s1(4) lframe_fields(2) [OF s1(3)] by simp
  qed
  note v = 1 [THEN conjunct1] and rt = 1 [THEN conjunct2, THEN conjunct1]
    and lt = 1 [THEN conjunct2, THEN conjunct2, THEN conjunct1]
    and 2 = 1 [THEN conjunct2, THEN conjunct2, THEN conjunct2]
  note qt = 2 [THEN conjunct1] and mz = 2 [THEN conjunct2, THEN conjunct1]
    and lv = 2 [THEN conjunct2, THEN conjunct2, THEN conjunct1]
    and mi = 2 [THEN conjunct2, THEN conjunct2, THEN conjunct2, rule_format]
  obtain s2 where s2: "queue_lock ul q t = Some s2" "guarded avail q s2" "lframe t s2" "queues s2 q = queues t q"
    by (rule give_lock [OF lt])
  let ?s = "upd_queue q (\<lambda>r. r\<lparr>q_cur_num := q_cur_num r - 1\<rparr>) s2"
  have r3: "qrep ?s (Q(q := tl (Q q))) (A(q := tl (A q)))"
    by (rule qrep_cong [where s = s2]) (use rt qrep_lframe [OF s2(3)] qrepD(1) in auto)
  have g3: "guarded avail q ?s" by (rule guard_stays(2) [OF _ _ _ _ s2(2)]) simp_all
  have l3: "live ?s = live s" using lv by (simp add: lframe_fields(2) [OF s2(3)])
  have q3: "queue_rest (queues ?s q) = queue_rest ((queues s q)\<lparr>q_cur_num := q_cur_num (queues s q) - 1\<rparr>)"
    using queue_rest_dec [OF qt] s2(4) by simp
  show thesis
  proof (cases "m = 0")
    case True
    then have "RtlPopBackQueue lk ul q s = Some (if A q = [] then 0 else hd (A q), ?s)"
      unfolding v [symmetric] pop_back_eq [OF s1(1) u s2(1) refl] by simp
    moreover have "Q q = []" using mz True by blast
    ultimately show thesis using that [OF _ r3 g3] l3 q3 by simp
  next
    case False
    note mi = mi [OF False]
    have m: "m \<in> live ?s" "m \<notin> set ((Q(q := tl (Q q))) q')" for q' using mi lv l3 by blast+
    have tk: "set (take 1 (Q q)) = {m}" using mi mz False by (cases "Q q") simp_all
    note fr = qrep_free [OF r3 m(1,2)]
    have "guarded avail q (MmFreeKernelMemory m ?s)" by (rule guard_stays(2) [OF _ _ _ _ g3]) simp_all
    moreover have "RtlPopBackQueue lk ul q s = Some (if A q = [] then 0 else hd (A q), MmFreeKernelMemory m ?s)"
      unfolding v [symmetric] pop_back_eq [OF s1(1) u s2(1) refl] using False by simp
    ultimately show thesis using that [OF _ fr(1)] fr(2) l3 q3 tk by simp
  qed
qed

end

lemma qrep_unlink_front:
  assumes r: "qrep s Q A" and q: "Q q = ns @ [n]" and u: "unlink_front q s = (m, v, t)"
  shows "m = n" "v = last (A q)" "qrep t (Q(q := ns)) (A(q := butlast (A q)))" "n \<noteq> 0" "n \<in> live t" "\<And>q'. n \<notin> set ((Q(q := ns)) q')"
    "queue_rest (queues t q) = queue_rest (queues s q)" "live t = live s" "sem_value t = sem_value s"
    "q' \<noteq> q \<Longrightarrow> queues t q' = queues s q'"
proof -
  note ok = qrepD(3) [OF r]
  note l = queues_okD(2) [OF ok, of q, unfolded q]
  note uo = unlink_front_ok [OF l u] and fr = qframe_fields [OF qframe_unlink(2) [OF u]]
  have A: "A q' = elems s (Q q')" for q' using r by (simp add: qrep_def)
  have e: "elems t xs = elems s xs" for xs by (rule elems_cong) (rule uo(4))
  show "m = n" by (rule uo(1))
  show "v = last (A q)" using uo(2) by (simp add: A q elems_def)
  show n0: "n \<noteq> 0" using dlist_nonzero [OF l [unfolded links_ok_def]] by auto
  have nl: "n \<in> live s" using queues_okD(3) [OF ok, of q] by (auto simp: q)
  then show "n \<in> live t" by (simp add: fr)
  have nn: "n \<notin> set ns" using dlist_distinct [OF l [unfolded links_ok_def]] by simp
  show "n \<notin> set ((Q(q := ns)) q')" for q' using nn queues_okD(4) [OF ok, of q q'] by (auto simp: q)
  have "queues_ok t (Q(q := ns))"
  proof (rule queues_ok_update [OF ok])
    show "set ns \<inter> \<Union> (set ` Q ` (UNIV - {q})) = {}" using queues_okD(4) [OF ok, of q] by (force simp: q)
    show "qnodes t a = qnodes s a" if "a \<notin> set ns" for a by (rule uo(5) [OF that])
    show "q_back (queues t q') = q_back (queues s q') \<and> q_front (queues t q') = q_front (queues s q')" if "q' \<noteq> q" for q'
      using uo(6) [of q'] that by simp
  qed (use fr uo(3) queues_okD(3) [OF ok, of q] queues_okD(1) [OF ok] in \<open>auto simp: q\<close>)
  then show "qrep t (Q(q := ns)) (A(q := butlast (A q)))" by (simp add: qrep_def e A) (simp add: elems_def q)
  show "queue_rest (queues t q) = queue_rest (queues s q)" by (subst uo(6)) (simp add: queue_rest_def)
  show "live t = live s" "sem_value t = sem_value s" by (simp_all add: fr)
  show "q' \<noteq> q \<Longrightarrow> queues t q' = queues s q'" using uo(6) [of q'] by simp
qed

lemma pop_front_eq:
  assumes "queue_lock lk q s = Some s1" "unlink_front q s1 = (m, v, t)" "queue_lock ul q t = Some s2"
    "q_cur_num (queues s q) \<noteq> 0" "s3 = upd_queue q (\<lambda>r. r\<lparr>q_cur_num := q_cur_num r - 1\<rparr>) s2"
  shows "RtlPopFrontQueue lk ul q s = Some (v, if m \<noteq> 0 then MmFreeKernelMemory m s3 else s3)"
  unfolding RtlPopFrontQueue_def using assms by (simp add: Let_def)

context queue_guard
begin

lemma pop_front:
  assumes r: "qrep s Q A" and g: "guarded avail q s" and c: "q_cur_num (queues s q) \<noteq> 0"
  obtains s' where "RtlPopFrontQueue lk ul q s = Some (if A q = [] then 0 else last (A q), s')"
    "qrep s' (Q(q := butlast (Q q))) (A(q := butlast (A q)))" "guarded avail q s'" "live s' = live s - (if Q q = [] then {} else {last (Q q)})"
    "queue_rest (queues s' q) = queue_rest ((queues s q)\<lparr>q_cur_num := q_cur_num (queues s q) - 1\<rparr>)"
proof -
  obtain s1 where s1: "queue_lock lk q s = Some s1" "guarded held q s1" "lframe s s1" "queues s1 q = queues s q"
    by (rule take_lock [OF g])
  have r1: "qrep s1 Q A" using r by (simp add: qrep_lframe [OF s1(3)])
  obtain m v t where u: "unlink_front q s1 = (m, v, t)" by (metis prod_cases3)
  have A: "A q = elems s1 (Q q)" for q using r1 by (simp add: qrep_def)
  have 1: "v = (if A q = [] then 0 else last (A q)) \<and> qrep t (Q(q := butlast (Q q))) (A(q := butlast (A q))) \<and> guarded held q t \<and>
      queue_rest (queues t q) = queue_rest (queues s q) \<and> (m \<noteq> 0 \<longleftrightarrow> Q q \<noteq> []) \<and> live t = live s \<and>
      (m \<noteq> 0 \<longrightarrow> m = last (Q q) \<and> m \<in> live t \<and> (\<forall>q'. m \<notin> set ((Q(q := butlast (Q q))) q')))"
  proof (cases "Q q" rule: rev_cases)
    case Nil
    with queues_okD(2) [OF qrepD(3) [OF r1], of q] have "links_ok s1 q []" by simp
    from unlink_empty(2) [OF this] u have "m = 0" "v = 0" "t = s1" by simp_all
    with Nil r1 s1 show ?thesis by (simp add: A elems_def fun_upd_idem lframe_fields(2) [OF s1(3)])
  next
    case (snoc ns n)
    note ub = qrep_unlink_front [OF r1 snoc u]
    have "guarded held q t"
      by (rule guard_stays(1) [OF ub(9) _ _ _ s1(2)]) (use ub(7,10) in \<open>auto simp: queue_rest_def dest: arg_cong [where f = q_use_sem] arg_cong [where f = q_semaphore]\<close>)
    moreover have "A q \<noteq> []" by (simp add: A snoc elems_def)
    ultimately show ?thesis using ub snoc s1(4) lframe_fields(2) [OF s1(3)] by simp
  qed
  note v = 1 [THEN conjunct1] and rt = 1 [THEN conjunct2, THEN conjunct1]
    and lt = 1 [THEN conjunct2, THEN conjunct2, THEN conjunct1]
    and 2 = 1 [THEN conjunct2, THEN conjunct2, THEN conjunct2]
  note qt = 2 [THEN conjunct1] and mz = 2 [THEN conjunct2, THEN conjunct1]
    and lv = 2 [THEN conjunct2, THEN conjunct2, THEN conjunct1]
    and mi = 2 [THEN conjunct2, THEN conjunct2, THEN conjunct2, rule_format]
  obtain s2 where s2: "queue_lock ul q t = Some s2" "guarded avail q s2" "lframe t s2" "queues s2 q = queues t q"
    by (rule give_lock [OF lt])
  let ?s = "upd_queue q (\<lambda>r. r\<lparr>q_cur_num := q_cur_num r - 1\<rparr>) s2"
  have r3: "qrep ?s (Q(q := butlast (Q q))) (A(q := butlast (A q)))"
    by (rule qrep_cong [where s = s2]) (use rt qrep_lframe [OF s2(3)] qrepD(1) in auto)
  have g3: "guarded avail q ?s" by (rule guard_stays(2) [OF _ _ _ _ s2(2)]) simp_all
  have l3: "live ?s = live s" using lv by (simp add: lframe_fields(2) [OF s2(3)])
  have q3: "queue_rest (queues ?s q) = queue_rest ((queues s q)\<lparr>q_cur_num := q_cur_num (queues s q) - 1\<rparr>)"
    using queue_rest_dec [OF qt] s2(4) by simp
  show thesis
  proof (cases "m = 0")
    case True
    then have "RtlPopFrontQueue lk ul q s = Some (if A q = [] then 0 else last (A q), ?s)"
      unfolding v [symmetric] pop_front_eq [OF s1(1) u s2(1) c refl] by simp
    moreover have "Q q = []" using mz True by blast
    ultimately show thesis using that [OF _ r3 g3] l3 q3 by simp
  next
    case False
    note mi = mi [OF False]
    have m: "m \<in> live ?s" "m \<notin> set ((Q(q := butlast (Q q))) q')" for q' using mi lv l3 by blast+
    have tk: "(if Q q = [] then {} else {last (Q q)}) = {m}" using mi mz False by simp
    note fr = qrep_free [OF r3 m(1,2)]
    have "guarded avail q (MmFreeKernelMemory m ?s)" by (rule guard_stays(2) [OF _ _ _ _ g3]) simp_all
    moreover have "RtlPopFrontQueue lk ul q s = Some (if A q = [] then 0 else last (A q), MmFreeKernelMemory m ?s)"
      unfolding v [symmetric] pop_front_eq [OF s1(1) u s2(1) c refl] using False by simp
    ultimately show thesis using that [OF _ fr(1)] fr(2) l3 q3 tk by simp
  qed
qed


end

section \<open>Searching and removing\<close>

lemma queue_scan_dseg:
  "dseg (\<lambda>a. qn_next (h a)) pv a p ns l 0 \<Longrightarrow>
   queue_scan h P p = Some (case find (\<lambda>a. P (qn_v (h a))) ns of None \<Rightarrow> 0 | Some a \<Rightarrow> a)"
proof (induction ns arbitrary: a p)
  case Nil
  then show ?case by (subst queue_scan.simps) simp
next
  case (Cons x xs)
  then show ?case by (subst queue_scan.simps) auto
qed

lemma find_split:
  assumes "find P ns = Some n"
  obtains xs ys where "ns = xs @ n # ys" "P n" "\<forall>x \<in> set xs. \<not> P x"
proof -
  from assms obtain i where i: "i < length ns" "P (ns ! i)" "n = ns ! i" "\<forall>j<i. \<not> P (ns ! j)"
    unfolding find_Some_iff by blast
  have "ns = take i ns @ n # drop (Suc i) ns" using i by (simp add: id_take_nth_drop)
  moreover have "\<forall>x \<in> set (take i ns). \<not> P x" using i by (auto simp: in_set_conv_nth)
  ultimately show thesis using that i by metis
qed

context queue_guard
begin

lemma search:
  assumes r: "qrep s Q A" and g: "guarded avail q s" and P: "\<And>t. lframe s t \<Longrightarrow> search t = search s"
  obtains (none) s' where "RtlSearchQueue lk ul q search s = Some (0, 0, s')" "qrep s' Q A" "guarded avail q s'" "lframe s s'"
      "queues s' q = queues s q" "\<forall>x \<in> set (A q). \<not> search s x"
  | (found) s' xs n ys where "RtlSearchQueue lk ul q search s = Some (qn_v (qnodes s n), n, s')" "qrep s' Q A"
      "guarded avail q s'" "lframe s s'" "queues s' q = queues s q" "Q q = xs @ n # ys" "A q = elems s xs @ qn_v (qnodes s n) # elems s ys"
      "search s (qn_v (qnodes s n))" "\<forall>x \<in> set (elems s xs). \<not> search s x"
proof -
  obtain s1 where s1: "queue_lock lk q s = Some s1" "guarded held q s1" "lframe s s1" "queues s1 q = queues s q"
    by (rule take_lock [OF g])
  have r1: "qrep s1 Q A" using r by (simp add: qrep_lframe [OF s1(3)])
  obtain s2 where s2: "queue_lock ul q s1 = Some s2" "guarded avail q s2" "lframe s1 s2" "queues s2 q = queues s1 q"
    by (rule give_lock [OF s1(2)])
  have r2: "qrep s2 Q A" using r1 by (simp add: qrep_lframe [OF s2(3)])
  have f: "lframe s s2" by (rule lframe_trans [OF s1(3) s2(3)])
  have q: "queues s2 q = queues s q" using s1 s2 by simp
  note nd = lframe_fields(6) [OF s1(3)] lframe_fields(6) [OF f]
  let ?F = "find (\<lambda>a. search s (qn_v (qnodes s a))) (Q q)"
  have sc: "queue_scan (qnodes s1) (search s1) (q_back (queues s1 q)) = Some (case ?F of None \<Rightarrow> 0 | Some a \<Rightarrow> a)"
    using queue_scan_dseg queues_okD(2) [OF qrepD(3) [OF r1], of q]
    unfolding links_ok_def dlist_def P [OF s1(3)] nd by blast
  have A: "A q = elems s (Q q)" using r by (simp add: qrep_def)
  show thesis
  proof (cases ?F)
    case None
    then have "\<forall>x \<in> set (A q). \<not> search s x" by (simp add: A elems_def find_None_iff)
    moreover have "RtlSearchQueue lk ul q search s = Some (0, 0, s2)"
      using s1(1) s2(1) sc None by (simp add: RtlSearchQueue_def)
    ultimately show thesis using none r2 s2(2) f q by blast
  next
    case (Some n)
    then obtain xs ys where n: "Q q = xs @ n # ys" "search s (qn_v (qnodes s n))" "\<forall>a \<in> set xs. \<not> search s (qn_v (qnodes s a))"
      by (rule find_split)
    have "n \<noteq> 0" using dlist_nonzero [OF queues_okD(2) [OF qrepD(3) [OF r], of q, unfolded links_ok_def]] n(1) by auto
    then have "RtlSearchQueue lk ul q search s = Some (qn_v (qnodes s n), n, s2)"
      using s1(1) s2(1) sc Some by (simp add: RtlSearchQueue_def nd)
    moreover have "A q = elems s xs @ qn_v (qnodes s n) # elems s ys" by (simp add: A n(1) elems_def)
    moreover have "\<forall>x \<in> set (elems s xs). \<not> search s x" using n(3) by (simp add: elems_def)
    ultimately show thesis using found r2 s2(2) f q n by blast
  qed
qed

lemma quick_search_eq: "RtlQuickSearchQueue lk ul q v s = RtlSearchQueue lk ul q (\<lambda>_ x. x = v) s"
  by (simp add: RtlQuickSearchQueue_def RtlSearchQueue_def)

lemma remove:
  assumes r: "qrep s Q A" and g: "guarded avail q s" and n: "Q q = xs @ n # ys"
  obtains s' where "RtlRemoveQueueElement lk ul q n s = Some s'" "qrep s' (Q(q := xs @ ys)) (A(q := elems s (xs @ ys)))"
    "guarded avail q s'" "live s' = live s - {n}"
    "queue_rest (queues s' q) = queue_rest ((queues s q)\<lparr>q_cur_num := q_cur_num (queues s q) - 1\<rparr>)"
proof -
  obtain s1 where s1: "queue_lock lk q s = Some s1" "guarded held q s1" "lframe s s1" "queues s1 q = queues s q"
    by (rule take_lock [OF g])
  have r1: "qrep s1 Q A" using r by (simp add: qrep_lframe [OF s1(3)])
  note ok = qrepD(3) [OF r1] and nd = lframe_fields(6) [OF s1(3)]
  note l = queues_okD(2) [OF ok, of q, unfolded n]
  let ?u = "unlink_node q n s1"
  note uo = unlink_node_ok [OF l] and fr = qframe_fields [OF qframe_link(3), of q n s1]
  have nQ: "n \<noteq> 0" "n \<in> live s1" "n \<notin> set xs" "n \<notin> set ys"
    using dlist_nonzero [OF l [unfolded links_ok_def]] dlist_distinct [OF l [unfolded links_ok_def]]
      queues_okD(3) [OF ok, of q] n by auto
  have nQ': "n \<notin> set ((Q(q := xs @ ys)) q')" for q'
    using nQ queues_okD(4) [OF ok, of q q'] by (auto simp: n)
  have "queues_ok ?u (Q(q := xs @ ys))"
  proof (rule queues_ok_update [OF ok])
    show "set (xs @ ys) \<inter> \<Union> (set ` Q ` (UNIV - {q})) = {}" using queues_okD(4) [OF ok, of q] by (force simp: n)
    show "qnodes ?u a = qnodes s1 a" if "a \<notin> set (xs @ ys)" for a using uo(3) [of a] that by simp
    show "q_back (queues ?u q') = q_back (queues s1 q') \<and> q_front (queues ?u q') = q_front (queues s1 q')" if "q' \<noteq> q" for q'
      using uo(4) [of q'] that by simp
  qed (use fr uo(1) queues_okD(3) [OF ok, of q] queues_okD(1) [OF ok] in \<open>auto simp: n\<close>)
  moreover have e: "elems ?u ns = elems s ns" for ns by (simp add: elems_def uo(2) nd)
  ultimately have ru: "qrep ?u (Q(q := xs @ ys)) (A(q := elems s (xs @ ys)))"
    using r by (simp add: qrep_def)
  let ?s = "upd_queue q (\<lambda>r. r\<lparr>q_cur_num := q_cur_num r - 1\<rparr>) ?u"
  have r2: "qrep ?s (Q(q := xs @ ys)) (A(q := elems s (xs @ ys)))"
    by (rule qrep_cong [where s = ?u]) (use ru qrepD(1) [OF ru] in auto)
  have qu: "queue_rest (queues ?u q) = queue_rest (queues s q)"
    by (subst uo(4)) (simp add: queue_rest_def s1(4))
  have "queues ?u q' = queues s1 q'" if "q' \<noteq> q" for q' using uo(4) [of q'] that by simp
  moreover have "q_use_sem (queues ?u q) = q_use_sem (queues s1 q)" "q_semaphore (queues ?u q) = q_semaphore (queues s1 q)"
    by (subst uo(4), simp)+
  ultimately have "guarded held q ?s" by (intro guard_stays(1) [OF _ _ _ _ s1(2)]) (simp_all add: fr(6))
  then obtain s3 where s3: "queue_lock ul q ?s = Some s3" "guarded avail q s3" "lframe ?s s3" "queues s3 q = queues ?s q"
    by (rule give_lock)
  have r3: "qrep s3 (Q(q := xs @ ys)) (A(q := elems s (xs @ ys)))" using r2 by (simp add: qrep_lframe [OF s3(3)])
  have l3: "live s3 = live s" by (simp add: lframe_fields(2) [OF s3(3)] fr(2) lframe_fields(2) [OF s1(3)])
  have "n \<in> live s3" using nQ(2) l3 lframe_fields(2) [OF s1(3)] by simp
  note fr3 = qrep_free [OF r3 this nQ']
  have "RtlRemoveQueueElement lk ul q n s = Some (MmFreeKernelMemory n s3)"
    unfolding RtlRemoveQueueElement_def s1(1) Option.bind.bind_lunit Let_def s3(1) by simp
  moreover have "guarded avail q (MmFreeKernelMemory n s3)" by (rule guard_stays(2) [OF _ _ _ _ s3(2)]) simp_all
  moreover have "queue_rest (queues s3 q) = queue_rest ((queues s q)\<lparr>q_cur_num := q_cur_num (queues s q) - 1\<rparr>)"
    using queue_rest_dec [OF qu] s3(4) by simp
  ultimately show thesis using that fr3 l3 by simp
qed

end

end
