(* ===== verification/SchedInv.thy ===== *)
theory SchedInv
  imports Sched
begin

text \<open>
  The chains of the scheduler as lists: each chain of \<open>ThreadingBox\<close> is a doubly linked list that holds
  exactly the threads in its state. \<open>TmSetThreadState\<close> keeps this, the loop of the clock tick over the
  wait chain is described by a function on the list of waiting threads, and \<open>TmSchedule\<close> goes round the
  ready chain.
\<close>

section \<open>What a change of state leaves alone\<close>

lemma TmSetThreadState_frame [simp]:
  "qnodes (TmSetThreadState t st s) = qnodes s" "queues (TmSetThreadState t st s) = queues s"
  "sem_value (TmSetThreadState t st s) = sem_value s" "live (TmSetThreadState t st s) = live s"
  "heap_ok (TmSetThreadState t st s) = heap_ok s" "irq_enabled (TmSetThreadState t st s) = irq_enabled s"
  "spaces (TmSetThreadState t st s) = spaces s" "kmsgs (TmSetThreadState t st s) = kmsgs s"
  by (simp_all add: TmSetThreadState_def chain_remove_def chain_push_def ArLocalSaveIrq_def ArLocalRestoreIrq_def
      Let_def split: option.split)

lemma TmSetThreadState_state [simp]: "th_ThreadState (threads (TmSetThreadState t st s) t) = st"
  by (simp add: TmSetThreadState_def ArLocalRestoreIrq_def ArLocalSaveIrq_def Let_def)

section \<open>The chains as lists\<close>

abbreviation sched_next :: "kernel \<Rightarrow> u32 \<Rightarrow> u32" where
  "sched_next s a \<equiv> si_next (th_ScheduleInformation (threads s a))"

abbreviation sched_prev :: "kernel \<Rightarrow> u32 \<Rightarrow> u32" where
  "sched_prev s a \<equiv> si_prev (th_ScheduleInformation (threads s a))"

definition chain_ok :: "kernel \<Rightarrow> box \<Rightarrow> u32 list \<Rightarrow> bool" where
  "chain_ok s b ns \<longleftrightarrow> dlist (sched_next s) (sched_prev s) (ThreadingBox s b) (if ns = [] then 0 else last ns) ns"

definition in_chain :: "kernel \<Rightarrow> box \<Rightarrow> u32 \<Rightarrow> bool" where
  "in_chain s b t \<longleftrightarrow> GetThreadChain (th_ThreadState (threads s t)) = Some b"

definition sched_ok :: "kernel \<Rightarrow> u32 set \<Rightarrow> (box \<Rightarrow> u32 list) \<Rightarrow> bool" where
  "sched_ok s T C \<longleftrightarrow> (\<forall>b. b \<noteq> Box_running \<longrightarrow> chain_ok s b (C b) \<and> set (C b) = {t \<in> T. in_chain s b t})"

lemma sched_okD:
  assumes "sched_ok s T C" and "b \<noteq> Box_running"
  shows "chain_ok s b (C b)" "t \<in> set (C b) \<longleftrightarrow> t \<in> T \<and> in_chain s b t"
  using assms by (auto simp: sched_ok_def)

lemma chain_ok_cong:
  assumes "\<And>a. a \<in> set ns \<Longrightarrow> sched_next t a = sched_next s a \<and> sched_prev t a = sched_prev s a"
    and "ThreadingBox t b = ThreadingBox s b"
  shows "chain_ok t b ns = chain_ok s b ns"
  unfolding chain_ok_def assms(2) by (rule dlist_cong) (simp_all add: assms(1))

lemma chain_remove_fields:
  assumes "ThreadingBox s b \<noteq> 0" "sched_prev s t \<noteq> t" "sched_next s t \<noteq> t"
  shows "sched_next (chain_remove b t s) a =
      (if a = sched_prev s t \<and> sched_prev s t \<noteq> 0 then sched_next s t else sched_next s a)"
    "sched_prev (chain_remove b t s) a =
      (if a = sched_next s t \<and> sched_next s t \<noteq> 0 then sched_prev s t else sched_prev s a)"
    "ThreadingBox (chain_remove b t s) b' =
      (if b' = b \<and> sched_prev s t = 0 then sched_next s t else ThreadingBox s b')"
  using assms by (simp_all add: chain_remove_def Let_def)

lemma chain_frame [simp]:
  "th_ThreadState (threads (chain_remove b t s) a) = th_ThreadState (threads s a)"
  "th_ThreadState (threads (chain_push b t s) a) = th_ThreadState (threads s a)"
  by (simp_all add: chain_remove_def chain_push_def Let_def)

lemma chain_push_fields:
  assumes "ThreadingBox s b \<noteq> t"
  shows "sched_next (chain_push b t s) a = (if a = t then ThreadingBox s b else sched_next s a)"
    "sched_prev (chain_push b t s) a =
      (if a = ThreadingBox s b \<and> ThreadingBox s b \<noteq> 0 then t else sched_prev s a)"
    "ThreadingBox (chain_push b t s) b' = (if b' = b then t else ThreadingBox s b')"
  using assms by (simp_all add: chain_push_def Let_def)

lemma remove1_split: "t \<notin> set xs \<Longrightarrow> remove1 t (xs @ t # ys) = xs @ ys"
  by (simp add: remove1_append)

lemma sched_remove:
  assumes ok: "sched_ok s T C" and t: "t \<in> T" and b: "in_chain s b t" "b \<noteq> Box_running"
  shows "sched_ok (chain_remove b t s) (T - {t}) (C(b := remove1 t (C b)))"
proof -
  let ?s = "chain_remove b t s"
  note c = sched_okD(1) [OF ok b(2)]
  from sched_okD(2) [OF ok b(2), of t] t b obtain xs ys where xy: "C b = xs @ t # ys"
    by (auto simp: in_set_conv_decomp)
  have d: "dlist (sched_next s) (sched_prev s) (ThreadingBox s b) (last (t # ys)) (xs @ t # ys)"
    using c by (simp add: chain_ok_def xy)
  note lk = dlist_links [OF d]
  have nt: "t \<noteq> 0" "t \<notin> set xs" "t \<notin> set ys" "0 \<notin> set xs" "0 \<notin> set ys" using dlist_nonzero [OF d] dlist_distinct [OF d] by auto
  have f: "ThreadingBox s b \<noteq> 0" using dlist_empty_iff [OF d] by simp
  have "sched_prev s t \<noteq> t" "sched_next s t \<noteq> t"
    unfolding lk using nt by (auto dest: last_in_set hd_in_set split: if_splits)
  note fl = chain_remove_fields [OF f this]
  have r: "remove1 t (C b) = xs @ ys" unfolding xy by (rule remove1_split [OF nt(2)])
  have lst: "(if sched_next s t = 0 then sched_prev s t else last (t # ys)) = (if xs @ ys = [] then 0 else last (xs @ ys))"
    unfolding lk using nt(5) by (cases ys) auto
  have "chain_ok ?s b (xs @ ys)"
    using dlist_unlink [OF d, of "sched_next ?s" "sched_prev ?s"] unfolding lst chain_ok_def
    by (simp add: fl)
  moreover have "chain_ok ?s b' (C b')" if "b' \<noteq> b" "b' \<noteq> Box_running" for b'
  proof -
    have dj: "a \<notin> set (C b)" if "a \<in> set (C b')" for a
      using sched_okD(2) [OF ok b(2), of a] sched_okD(2) [OF ok \<open>b' \<noteq> Box_running\<close>, of a] that \<open>b' \<noteq> b\<close>
      by (auto simp: in_chain_def)
    have "sched_prev s t \<noteq> 0 \<Longrightarrow> sched_prev s t \<in> set (C b)" "sched_next s t \<noteq> 0 \<Longrightarrow> sched_next s t \<in> set (C b)"
      unfolding lk xy by (auto split: if_splits)
    then have "chain_ok ?s b' (C b') = chain_ok s b' (C b')"
      by (intro chain_ok_cong) (use dj that(1) in \<open>auto simp: fl\<close>)
    then show ?thesis using sched_okD(1) [OF ok that(2)] by simp
  qed
  moreover have "set (xs @ ys) = {a \<in> T - {t}. in_chain ?s b a}"
    using sched_okD(2) [OF ok b(2)] nt(2,3) unfolding xy in_chain_def by auto
  moreover have "set (C b') = {a \<in> T - {t}. in_chain ?s b' a}" if "b' \<noteq> b" "b' \<noteq> Box_running" for b'
    using sched_okD(2) [OF ok that(2)] b(1) that(1) by (auto simp: in_chain_def)
  ultimately show ?thesis unfolding sched_ok_def r by simp
qed

lemma sched_push:
  assumes ok: "sched_ok s (T - {t}) C" and t: "t \<noteq> 0" "t \<in> T" and p: "sched_prev s t = 0"
    and b: "GetThreadChain st = Some b" "b \<noteq> Box_running"
  shows "sched_ok (upd_thread t (\<lambda>r. r\<lparr>th_ThreadState := st\<rparr>) (chain_push b t s)) T (C(b := t # C b))"
proof -
  let ?s = "upd_thread t (\<lambda>r. r\<lparr>th_ThreadState := st\<rparr>) (chain_push b t s)"
  have nt: "t \<notin> set (C b')" if "b' \<noteq> Box_running" for b' using sched_okD(2) [OF ok that, of t] by simp
  have d: "dlist (sched_next s) (sched_prev s) (ThreadingBox s b) (if C b = [] then 0 else last (C b)) (C b)"
    using sched_okD(1) [OF ok b(2)] by (simp add: chain_ok_def)
  have hd: "ThreadingBox s b \<noteq> 0 \<Longrightarrow> ThreadingBox s b \<in> set (C b)" using dlist_ends(1) [OF d] by (auto split: if_splits)
  then have "ThreadingBox s b \<noteq> t" using nt [OF b(2)] t(1) by auto
  note fl = chain_push_fields [OF this]
  have fs: "sched_next ?s a = sched_next (chain_push b t s) a" "sched_prev ?s a = sched_prev (chain_push b t s) a" for a
    by simp_all
  have e: "ThreadingBox s b = 0 \<longleftrightarrow> C b = []" by (rule dlist_empty_iff [OF d])
  have "dlist (sched_next ?s) (sched_prev ?s) t (if ThreadingBox s b = 0 then t else (if C b = [] then 0 else last (C b))) (t # C b)"
    by (rule dlist_push_head [OF d t(1) nt [OF b(2)]])
      (use nt [OF b(2)] dlist_nonzero [OF d] t p \<open>ThreadingBox s b \<noteq> t\<close> in \<open>auto simp: fs fl simp del: upd_get\<close>)
  then have "chain_ok ?s b (t # C b)" using e by (cases "C b = []") (simp_all add: chain_ok_def fl(3) cong: if_cong)
  moreover have "chain_ok ?s b' (C b')" if "b' \<noteq> b" "b' \<noteq> Box_running" for b'
  proof -
    have dj: "a \<notin> set (C b)" if "a \<in> set (C b')" for a
      using sched_okD(2) [OF ok b(2), of a] sched_okD(2) [OF ok \<open>b' \<noteq> Box_running\<close>, of a] that \<open>b' \<noteq> b\<close>
      by (auto simp: in_chain_def)
    have "chain_ok ?s b' (C b') = chain_ok s b' (C b')"
      by (rule chain_ok_cong) (use dj hd nt [OF that(2)] that(1) in \<open>auto simp: fl\<close>)
    then show ?thesis using sched_okD(1) [OF ok that(2)] by simp
  qed
  moreover have "set (t # C b) = {a \<in> T. in_chain ?s b a}"
    using sched_okD(2) [OF ok b(2)] t(2) b(1) by (auto simp: in_chain_def)
  moreover have "set (C b') = {a \<in> T. in_chain ?s b' a}" if "b' \<noteq> b" "b' \<noteq> Box_running" for b'
    using sched_okD(2) [OF ok that(2)] b(1) that(1) by (auto simp: in_chain_def)
  ultimately show ?thesis unfolding sched_ok_def by simp
qed


text \<open>Only the states and links of threads.\<close>

lemma sched_ok_cong:
  assumes "threads t = threads s" "ThreadingBox t = ThreadingBox s"
  shows "sched_ok t T C = sched_ok s T C"
  by (simp add: sched_ok_def chain_ok_def in_chain_def assms)

lemma sched_ok_forget:
  assumes ok: "sched_ok s (T - {t}) C" and "\<And>a. a \<noteq> t \<Longrightarrow> threads s' a = threads s a" "ThreadingBox s' = ThreadingBox s"
  shows "sched_ok s' (T - {t}) C"
proof -
  have "chain_ok s' b (C b) \<and> set (C b) = {a \<in> T - {t}. in_chain s' b a}" if b: "b \<noteq> Box_running" for b
  proof -
    note c = sched_okD [OF ok b]
    have "chain_ok s' b (C b) = chain_ok s b (C b)"
      by (rule chain_ok_cong) (use c(2) assms(2,3) in auto)
    moreover have "in_chain s' b a = in_chain s b a" if "a \<noteq> t" for a using assms(2) [OF that] by (simp add: in_chain_def)
    ultimately show ?thesis using c by auto
  qed
  then show ?thesis by (simp add: sched_ok_def)
qed

definition moved :: "kernel \<Rightarrow> u32 \<Rightarrow> THREAD_STATE \<Rightarrow> (box \<Rightarrow> u32 list) \<Rightarrow> box \<Rightarrow> u32 list" where
  "moved s t st C = (if th_ThreadState (threads s t) = st then C
     else (\<lambda>b. (if GetThreadChain st = Some b then [t] else []) @ remove1 t (C b)))"

lemma GetThreadChain_eq: "GetThreadChain st = None \<longleftrightarrow> st = TS_INIT" "GetThreadChain st = Some Box_running \<longleftrightarrow> st = TS_RUNNING"
  by (cases st; simp)+

lemma set_state_chains:
  assumes ok: "sched_ok s T C" and t: "t \<noteq> 0" "t \<in> T"
    and st: "th_ThreadState (threads s t) \<noteq> TS_RUNNING" "st \<noteq> TS_RUNNING"
  shows "sched_ok (TmSetThreadState t st s) T (moved s t st C)"
proof (cases "th_ThreadState (threads s t) = st")
  case True
  with ok show ?thesis by (simp add: TmSetThreadState_def moved_def)
next
  case False
  let ?old = "GetThreadChain (th_ThreadState (threads s t))"
  let ?s0 = "s\<lparr>irq_enabled := False\<rparr>"
  let ?s1 = "case ?old of Some link \<Rightarrow> chain_remove link t ?s0 | None \<Rightarrow> ?s0"
  let ?C = "\<lambda>b. remove1 t (C b)"
  have ok0: "sched_ok ?s0 T C" using ok by (simp add: sched_ok_cong [of ?s0 s])
  have nr: "remove1 t (C b) = C b" if "b \<noteq> Box_running" "?old \<noteq> Some b" for b
    using sched_okD(2) [OF ok0 that(1), of t] that(2) by (simp add: in_chain_def remove1_idem)
  have eqC: "sched_ok u T' D = sched_ok u T' ?C" if "\<And>b. b \<noteq> Box_running \<Longrightarrow> D b = ?C b" for u T' D
    using that by (simp add: sched_ok_def)
  have 1: "sched_ok ?s1 (T - {t}) ?C"
  proof (cases ?old)
    case None
    have "sched_ok ?s0 (T - {t}) C"
      using ok0 None by (auto simp: sched_ok_def in_chain_def)
    then show ?thesis using eqC [of C] nr None by simp
  next
    case (Some b)
    then have b: "b \<noteq> Box_running" "in_chain ?s0 b t" using st(1) GetThreadChain_eq(2) by (auto simp: in_chain_def)
    have "sched_ok (chain_remove b t ?s0) (T - {t}) (C(b := remove1 t (C b)))"
      by (rule sched_remove [OF ok0 t(2) b(2,1)])
    then show ?thesis using eqC [of "C(b := remove1 t (C b))"] nr Some by simp
  qed
  let ?s2 = "upd_sched t (\<lambda>i. i\<lparr>si_prev := 0\<rparr>) ?s1"
  have 2: "sched_ok ?s2 (T - {t}) ?C" by (rule sched_ok_forget [OF 1]) simp_all
  let ?s3 = "case GetThreadChain st of Some link \<Rightarrow> chain_push link t ?s2 | None \<Rightarrow> ?s2"
  let ?s4 = "upd_thread t (\<lambda>r. r\<lparr>th_ThreadState := st\<rparr>) ?s3"
  have e: "TmSetThreadState t st s = ArLocalRestoreIrq (irq_enabled s) ?s4"
    using False by (simp add: TmSetThreadState_def ArLocalSaveIrq_def Let_def cong: option.case_cong)
  have "sched_ok ?s4 T (moved s t st C)"
  proof (cases "GetThreadChain st")
    case None
    have "sched_ok ?s4 (T - {t}) ?C" by (rule sched_ok_forget [OF 2]) (simp_all add: None)
    then have "sched_ok ?s4 T ?C" using None by (auto simp: sched_ok_def in_chain_def)
    then show ?thesis using False None by (simp add: moved_def)
  next
    case (Some b)
    then have b: "b \<noteq> Box_running" using st(2) GetThreadChain_eq(2) by auto
    have "sched_ok ?s4 T (?C(b := t # ?C b))"
      using sched_push [OF 2 t _ Some b] Some by simp
    moreover have "moved s t st C = ?C(b := t # ?C b)" using False Some by (auto simp: moved_def)
    ultimately show ?thesis by simp
  qed
  then show ?thesis unfolding e by (simp add: ArLocalRestoreIrq_def sched_ok_cong [of "?s4\<lparr>irq_enabled := irq_enabled s\<rparr>" ?s4])
qed

section \<open>The clock tick on the wait chain\<close>

abbreviation clock :: "kernel \<Rightarrow> u32 \<Rightarrow> u32" where
  "clock s a \<equiv> si_clock (th_ScheduleInformation (threads s a))"

text \<open>
  What one tick does to a wait chain \<open>pre @ ts\<close> of which \<open>pre\<close> has been passed: the threads that stay, the
  threads that are woken, in order, and the threads whose clock is counted down. The thread behind a
  woken head is passed over.
\<close>

fun tick_walk :: "(u32 \<Rightarrow> u32) \<Rightarrow> u32 list \<Rightarrow> u32 list \<Rightarrow> u32 list \<times> u32 list \<times> u32 list" where
  "tick_walk c pre [] = (pre, [], [])"
| "tick_walk c pre (t # ts) =
     (if sint (c t - ms) \<le> 0 then
        if pre = [] then
          case ts of
            [] \<Rightarrow> ([], [t], [t])
          | u # us \<Rightarrow> (case tick_walk c [u] us of (a, w, d) \<Rightarrow> (a, t # w, t # d))
        else (case tick_walk c pre ts of (a, w, d) \<Rightarrow> (a, t # w, t # d))
      else (case tick_walk c (pre @ [t]) ts of (a, w, d) \<Rightarrow> (a, w, t # d)))"

lemma sched_ok_clock [simp]:
  "sched_ok (upd_sched t (\<lambda>i. i\<lparr>si_clock := f i\<rparr>) s) T C = sched_ok s T C"
proof -
  have "chain_ok (upd_sched t (\<lambda>i. i\<lparr>si_clock := f i\<rparr>) s) b ns = chain_ok s b ns" for b ns
    by (rule chain_ok_cong) simp_all
  moreover have "in_chain (upd_sched t (\<lambda>i. i\<lparr>si_clock := f i\<rparr>) s) b a = in_chain s b a" for b a
    by (simp add: in_chain_def)
  ultimately show ?thesis by (simp add: sched_ok_def)
qed

lemma chain_clock [simp]:
  "clock (chain_remove b t s) a = clock s a" "clock (chain_push b t s) a = clock s a"
  by (simp_all add: chain_remove_def chain_push_def Let_def)

lemma TmSetThreadState_clock [simp]: "clock (TmSetThreadState t st s) a = clock s a"
  by (simp add: TmSetThreadState_def ArLocalSaveIrq_def ArLocalRestoreIrq_def Let_def split: option.split)

lemma tick_links:
  assumes ok: "sched_ok s T C" and c: "C Box_wait = pre @ t # ts"
  shows "t \<noteq> 0" "t \<in> T" "th_ThreadState (threads s t) = TS_WAIT" "sched_next s t = (if ts = [] then 0 else hd ts)"
    "sched_prev s t = (if pre = [] then 0 else last pre)" "pre \<noteq> [] \<Longrightarrow> last pre \<noteq> 0"
    "ThreadingBox s Box_wait = hd (pre @ [t])" "t \<notin> set pre" "t \<notin> set ts" "distinct (pre @ t # ts)"
proof -
  have d: "dlist (sched_next s) (sched_prev s) (ThreadingBox s Box_wait) (last (t # ts)) (pre @ t # ts)"
    using sched_okD(1) [OF ok, of Box_wait] by (simp add: chain_ok_def c)
  show "t \<noteq> 0" "pre \<noteq> [] \<Longrightarrow> last pre \<noteq> 0" using dlist_nonzero [OF d] by (auto dest: last_in_set)
  show "t \<notin> set pre" "t \<notin> set ts" "distinct (pre @ t # ts)" using dlist_distinct [OF d] by auto
  have "t \<in> T \<and> in_chain s Box_wait t" using sched_okD(2) [OF ok, of Box_wait t] by (simp add: c)
  then show "t \<in> T" "th_ThreadState (threads s t) = TS_WAIT"
    by (auto simp: in_chain_def) (cases "th_ThreadState (threads s t)"; simp)
  show "sched_next s t = (if ts = [] then 0 else hd ts)" "sched_prev s t = (if pre = [] then 0 else last pre)"
    using dlist_links [OF d] .
  show "ThreadingBox s Box_wait = hd (pre @ [t])" using dlist_ends(1) [OF d] by (cases pre) auto
qed

lemma wait_loop_walk:
  assumes "sched_ok s T C" and "C Box_wait = pre @ ts" and "\<And>t. t \<in> set ts \<Longrightarrow> clock s t = c t"
    and "tick_walk c pre ts = (stay, woken, counted)"
  shows "\<exists>s'. wait_loop (if ts = [] then 0 else hd ts) s = Some s' \<and>
    sched_ok s' T (C(Box_wait := stay, Box_ready := rev woken @ C Box_ready)) \<and>
    (\<forall>t. clock s' t = (if t \<in> set counted then c t - ms else clock s t))"
  using assms
proof (induction "length ts" arbitrary: s C pre ts stay woken counted rule: less_induct)
  case less
  show ?case
  proof (cases ts)
    case Nil
    with less.prems show ?thesis by (simp add: wait_loop.simps fun_upd_idem)
  next
    case (Cons t us)
    note ok = less.prems(1) and tl = tick_links [OF less.prems(1) less.prems(2) [unfolded Cons]]
    let ?s = "upd_sched t (\<lambda>i. i\<lparr>si_clock := si_clock i - ms\<rparr>) s"
    have ok1: "sched_ok ?s T C" using ok by simp
    have ct: "clock s t = c t" using less.prems(3) Cons by simp
    show ?thesis
    proof (cases "sint (c t - ms) \<le> 0")
      case False
      obtain w d where w: "tick_walk c (pre @ [t]) us = (stay, w, d)" "woken = w" "counted = t # d"
        using less.prems(4) False by (auto simp: Cons split: prod.splits)
      have "clock ?s a = c a" if "a \<in> set us" for a using that less.prems(3) tl(9) Cons by auto
      from less.hyps [OF _ ok1 _ this w(1)] less.prems(2) Cons obtain s' where
        s': "wait_loop (if us = [] then 0 else hd us) ?s = Some s'"
        "sched_ok s' T (C(Box_wait := stay, Box_ready := rev w @ C Box_ready))"
        "\<And>a. clock s' a = (if a \<in> set d then c a - ms else clock ?s a)" by auto
      have "wait_loop t s = Some s'"
        using s'(1) False tl(1,4) ct by (subst wait_loop.simps) (simp add: Let_def)
      with s' w ct show ?thesis by (auto simp: Cons)
    next
      case True
      let ?t = "TmSetThreadState t TS_READY ?s"
      have st: "th_ThreadState (threads ?s t) = TS_WAIT" using tl(3) by simp
      define D where "D = moved ?s t TS_READY C"
      have nr: "remove1 t (C b) = C b" if "b \<noteq> Box_wait" "b \<noteq> Box_running" for b
        using sched_okD(2) [OF ok that(2), of t] tl(3) that(1) by (simp add: in_chain_def remove1_idem)
      have D: "D Box_wait = pre @ us" "D Box_ready = t # C Box_ready" "\<And>b. b \<noteq> Box_wait \<Longrightarrow> b \<noteq> Box_ready \<Longrightarrow> b \<noteq> Box_running \<Longrightarrow> D b = C b"
        using st nr less.prems(2) tl(8) by (simp_all add: D_def moved_def Cons remove1_append)
      have okD: "sched_ok ?t T D"
        unfolding D_def by (rule set_state_chains [OF ok1 tl(1,2)]) (simp_all add: tl(3))
      have upd: "sched_ok s' T (D(Box_wait := a, Box_ready := rev w @ D Box_ready)) \<Longrightarrow>
          sched_ok s' T (C(Box_wait := a, Box_ready := rev (t # w) @ C Box_ready))" for s' a w
        using D by (auto simp: sched_ok_def split: if_splits)
      have clk: "clock ?t a = (if a = t then c t - ms else clock s a)" for a using ct by simp
      have cl: "clock ?t a = c a" if "a \<in> set us" for a using that less.prems(3) tl(9) Cons by (auto simp: clk)
      show ?thesis
      proof (cases pre rule: rev_cases)
        case (snoc ps p)
        obtain w d where w: "tick_walk c pre us = (stay, w, d)" "woken = t # w" "counted = t # d"
          using less.prems(4) True by (auto simp: Cons snoc split: prod.splits)
        from less.hyps [OF _ okD D(1) cl w(1)] Cons obtain s' where
          s': "wait_loop (if us = [] then 0 else hd us) ?t = Some s'"
          "sched_ok s' T (D(Box_wait := stay, Box_ready := rev w @ D Box_ready))"
          "\<And>a. clock s' a = (if a \<in> set d then c a - ms else clock ?t a)" by auto
        have "D Box_wait = ps @ p # us" using D(1) snoc by simp
        note tp = tick_links [OF okD this]
        have "wait_loop t s = Some s'"
          using s'(1) True tl(1,5,6) ct tp(4) snoc by (subst wait_loop.simps) (simp add: Let_def)
        with upd [OF s'(2)] s'(3) w ct show ?thesis by (auto simp: Cons clk)
      next
        case Nil
        show ?thesis
        proof (cases us)
          case Nil2: Nil
          have "ThreadingBox ?t Box_wait = 0"
            using sched_okD(1) [OF okD, of Box_wait] D(1) by (simp add: Nil Nil2 chain_ok_def)
          then have "wait_loop t s = Some ?t"
            using True tl(1,5) ct by (subst wait_loop.simps) (simp add: Let_def Nil)
          moreover have "stay = []" "woken = [t]" "counted = [t]" using less.prems(4) True by (auto simp: Cons Nil Nil2)
          moreover have "sched_ok ?t T (D(Box_wait := [], Box_ready := rev [] @ D Box_ready))"
            using okD D(1) Nil Nil2 by (simp add: fun_upd_idem)
          ultimately show ?thesis using ct upd [of ?t "[]" "[]"] by (auto simp: Cons clk)
        next
          case Cons2: (Cons u vs)
          obtain w d where w: "tick_walk c [u] vs = (stay, w, d)" "woken = t # w" "counted = t # d"
            using less.prems(4) True by (auto simp: Cons Nil Cons2 split: prod.splits)
          have Dw: "D Box_wait = [] @ u # vs" "D Box_wait = [u] @ vs" using D(1) Nil Cons2 by simp_all
          note tu = tick_links [OF okD Dw(1)]
          have "clock ?t a = c a" if "a \<in> set vs" for a using cl that Cons2 by simp
          from less.hyps [OF _ okD Dw(2) this w(1)] Cons Cons2 obtain s' where
            s': "wait_loop (if vs = [] then 0 else hd vs) ?t = Some s'"
            "sched_ok s' T (D(Box_wait := stay, Box_ready := rev w @ D Box_ready))"
            "\<And>a. clock s' a = (if a \<in> set d then c a - ms else clock ?t a)" by auto
          have "wait_loop t s = Some s'"
            using s'(1) True tl(1,5) ct tu(1,4,7) by (subst wait_loop.simps) (simp add: Let_def Nil)
          with upd [OF s'(2)] s'(3) w ct show ?thesis by (auto simp: Cons clk)
        qed
      qed
    qed
  qed
qed

section \<open>Choosing the next thread\<close>

lemma pick_ready_round_robin:
  assumes ok: "sched_ok s T C"
  shows "C Box_ready = xs @ cur # ys \<Longrightarrow> TmGetCurrentThread s = cur \<Longrightarrow> pick_ready s = hd (ys @ xs @ [cur])"
    and "TmGetCurrentThread s \<in> T \<Longrightarrow> TmGetCurrentThread s \<notin> set (C Box_ready) \<Longrightarrow>
      pick_ready s = (if C Box_ready = [] then 0 else hd (C Box_ready))"
proof -
  let ?cur = "TmGetCurrentThread s"
  have d: "dlist (sched_next s) (sched_prev s) (ThreadingBox s Box_ready) (if C Box_ready = [] then 0 else last (C Box_ready)) (C Box_ready)"
    using sched_okD(1) [OF ok, of Box_ready] by (simp add: chain_ok_def)
  note hd = dlist_ends(1) [OF d]
  have st: "th_ThreadState (threads s a) = TS_READY \<longleftrightarrow> a \<in> set (C Box_ready)" if "a \<in> T" for a
    using sched_okD(2) [OF ok, of Box_ready a] that by (cases "th_ThreadState (threads s a)"; simp add: in_chain_def)
  have sub: "a \<in> T" if "a \<in> set (C Box_ready)" for a using sched_okD(2) [OF ok, of Box_ready a] that by simp
  show "pick_ready s = hd (ys @ xs @ [cur])" if c: "C Box_ready = xs @ cur # ys" and "?cur = cur"
  proof -
    note ln = dlist_links(1) [OF d [unfolded c]]
    have r: "th_ThreadState (threads s a) = TS_READY" if "a \<in> set (xs @ cur # ys)" for a
      using st [OF sub] that by (simp add: c)
    have nz: "0 \<notin> set ys" using dlist_nonzero [OF d] by (simp add: c)
    show ?thesis
    proof (cases ys)
      case Nil
      then show ?thesis using r [of cur] ln hd c \<open>?cur = cur\<close> by (cases xs) (simp_all add: pick_ready_def Let_def)
    next
      case (Cons y zs)
      then show ?thesis using r [of cur] r [of y] ln nz \<open>?cur = cur\<close> by (auto simp: pick_ready_def Let_def)
    qed
  qed
  show "pick_ready s = (if C Box_ready = [] then 0 else hd (C Box_ready))"
    if "?cur \<in> T" "?cur \<notin> set (C Box_ready)"
    using st [OF that(1)] that(2) hd by (simp add: pick_ready_def Let_def)
qed

lemma prepare_frame [simp]:
  "ThreadingBox (ArPrepareForNextThread s) = ThreadingBox s"
  "th_ScheduleInformation (threads (ArPrepareForNextThread s) t) = th_ScheduleInformation (threads s t)"
  "th_ThreadState (threads (ArPrepareForNextThread s) t) = th_ThreadState (threads s t)"
  "irq_enabled (ArPrepareForNextThread s) = irq_enabled s"
  by (simp_all add: ArPrepareForNextThread_def ArCheckAndSaveFpu_def fpu_save_def ArLoadPageDirectory_def ArSetGdtEntry_def
      ArUpdateFastcallEsp_def upd_arch_def Let_def)

section \<open>Properties\<close>

text \<open>
  (C17) The state chains are an invariant: if every thread of \<open>T\<close> that has a chain is on exactly the chain of
  its state, \<open>TmSetThreadState\<close> keeps it so; the thread leaves its old chain and becomes the head of the
  new one, and the order of all other threads is kept.
\<close>

theorem thread_state_chains:
  assumes "sched_ok s T C" and "t \<noteq> 0" and "t \<in> T" and "th_ThreadState (threads s t) \<noteq> TS_RUNNING" and "st \<noteq> TS_RUNNING"
  shows "th_ThreadState (threads (TmSetThreadState t st s) t) = st \<and>
    sched_ok (TmSetThreadState t st s) T (if th_ThreadState (threads s t) = st then C
      else (\<lambda>b. (if GetThreadChain st = Some b then [t] else []) @ remove1 t (C b)))"
  using set_state_chains [OF assms] by (simp add: moved_def)

text \<open>Two threads wait with one tick left, thread 9 before thread 10, and thread 8 is ready and runs.\<close>

definition kernel_wait :: kernel where
  "kernel_wait = kernel0\<lparr>ThreadingBox := (\<lambda>_. 0)(Box_wait := 9, Box_ready := 8, Box_running := 8),
     threads := (\<lambda>_. zero_thread)(
       8 := zero_thread\<lparr>th_ThreadState := TS_READY\<rparr>,
       9 := zero_thread\<lparr>th_ThreadState := TS_WAIT, th_ScheduleInformation := \<lparr>si_clock = 1, si_prev = 0, si_next = 10\<rparr>\<rparr>,
       10 := zero_thread\<lparr>th_ThreadState := TS_WAIT, th_ScheduleInformation := \<lparr>si_clock = 1, si_prev = 9, si_next = 0\<rparr>\<rparr>)\<rparr>"

lemma kernel_wait_ok: "sched_ok kernel_wait {8, 9, 10} ((\<lambda>_. [])(Box_wait := [9, 10], Box_ready := [8]))"
  unfolding sched_ok_def
proof (intro allI impI)
  fix b :: box
  assume "b \<noteq> Box_running"
  then show "chain_ok kernel_wait b (((\<lambda>_. [])(Box_wait := [9, 10], Box_ready := [8 :: u32])) b) \<and>
      set (((\<lambda>_. [])(Box_wait := [9, 10], Box_ready := [8 :: u32])) b) = {t \<in> {8, 9, 10}. in_chain kernel_wait b t}"
    by (cases b) (auto simp: chain_ok_def dlist_def in_chain_def kernel_wait_def zero_thread_def)
qed

theorem thread_state_chains_witness:
  "sched_ok (TmSetThreadState 9 TS_READY kernel_wait) {8, 9, 10} ((\<lambda>_. [])(Box_wait := [10], Box_ready := [9, 8]))"
proof -
  have "sched_ok (TmSetThreadState 9 TS_READY kernel_wait) {8, 9, 10}
      (\<lambda>b. (if GetThreadChain TS_READY = Some b then [9] else []) @ remove1 9 (((\<lambda>_. [])(Box_wait := [9, 10], Box_ready := [8 :: u32])) b))"
    using thread_state_chains [OF kernel_wait_ok, of 9 TS_READY] by (simp add: kernel_wait_def)
  also have "(\<lambda>b. (if GetThreadChain TS_READY = Some b then [9] else []) @ remove1 9 (((\<lambda>_. [])(Box_wait := [9, 10], Box_ready := [8 :: u32])) b)) =
      ((\<lambda>_. [])(Box_wait := [10], Box_ready := [9, 8]))" by (rule ext) simp
  finally show ?thesis .
qed

text \<open>
  (C18) The loop of the clock tick over the wait chain ends and does what \<open>tick_walk\<close> says: the woken
  threads become ready, in reverse order before the others, the chains stay consistent, and exactly the
  counted threads have 5 milliseconds less to wait.
\<close>

theorem tick_wakes:
  assumes "sched_ok s T C" and "tick_walk (clock s) [] (C Box_wait) = (stay, woken, counted)"
  shows "\<exists>s'. wait_loop (ThreadingBox s Box_wait) s = Some s' \<and>
    sched_ok s' T (C(Box_wait := stay, Box_ready := rev woken @ C Box_ready)) \<and>
    (\<forall>t. clock s' t = (if t \<in> set counted then clock s t - 5 else clock s t))"
proof -
  have e: "ThreadingBox s Box_wait = (if C Box_wait = [] then 0 else hd (C Box_wait))"
    using sched_okD(1) [OF assms(1), of Box_wait] dlist_ends(1) unfolding chain_ok_def by blast
  have m: "ms = 5" by (simp add: ms_def)
  have "\<exists>s'. wait_loop (if C Box_wait = [] then 0 else hd (C Box_wait)) s = Some s' \<and>
    sched_ok s' T (C(Box_wait := stay, Box_ready := rev woken @ C Box_ready)) \<and>
    (\<forall>t. clock s' t = (if t \<in> set counted then clock s t - ms else clock s t))"
    by (rule wait_loop_walk [OF assms(1) _ _ assms(2)]) simp_all
  then show ?thesis unfolding e m .
qed

theorem tick_wakes_witness:
  "\<exists>s'. wait_loop (ThreadingBox kernel_wait Box_wait) kernel_wait = Some s' \<and>
     sched_ok s' {8, 9, 10} ((\<lambda>_. [])(Box_wait := [10], Box_ready := [9, 8]))"
proof -
  have "tick_walk (clock kernel_wait) [] (((\<lambda>_. [])(Box_wait := [9, 10], Box_ready := [8 :: u32])) Box_wait) = ([10], [9], [9])"
    by (simp add: kernel_wait_def ms_def)
  moreover have "((\<lambda>_. [])(Box_wait := [9, 10], Box_ready := [8 :: u32]))(Box_wait := [10], Box_ready := rev [9] @
      ((\<lambda>_. [])(Box_wait := [9, 10], Box_ready := [8])) Box_ready) = (\<lambda>_. [])(Box_wait := [10], Box_ready := [9, 8])"
    by (rule ext) simp
  ultimately show ?thesis using tick_wakes [OF kernel_wait_ok] by metis
qed

text \<open>
  (C19) A tick passes over the thread behind a woken head: when the first thread of the wait chain is due,
  the second one neither wakes nor counts down in this tick, however little it has left.
\<close>

theorem tick_skips_successor:
  assumes "sched_ok s T C" and "C Box_wait = a # b # ts" and "sint (clock s a - 5) \<le> 0"
  shows "\<exists>s' C'. wait_loop (ThreadingBox s Box_wait) s = Some s' \<and> sched_ok s' T C' \<and>
    a \<in> set (C' Box_ready) \<and> b \<in> set (C' Box_wait) \<and> clock s' b = clock s b"
proof -
  have st: "set stay \<subseteq> set pre \<union> set ts \<and> set pre \<subseteq> set stay \<and> set counted \<subseteq> set ts"
    if "pre \<noteq> []" "tick_walk c pre ts = (stay, woken, counted)" for c pre ts stay woken counted
    using that by (induction c pre ts arbitrary: stay woken counted rule: tick_walk.induct)
      (auto split: if_splits prod.splits list.splits; blast)+
  obtain stay w d where w: "tick_walk (clock s) [b] ts = (stay, w, d)" by (metis prod_cases3)
  have m: "ms = 5" by (simp add: ms_def)
  have "tick_walk (clock s) [] (C Box_wait) = (stay, a # w, a # d)" using w assms(3) by (simp add: assms(2) m)
  from tick_wakes [OF assms(1) this] obtain s' where s': "wait_loop (ThreadingBox s Box_wait) s = Some s'"
    "sched_ok s' T (C(Box_wait := stay, Box_ready := rev (a # w) @ C Box_ready))"
    "\<forall>t. clock s' t = (if t \<in> set (a # d) then clock s t - 5 else clock s t)" by blast
  have "b \<in> set stay" "set d \<subseteq> set ts" using st [OF _ w] by auto
  moreover have "b \<noteq> a" "b \<notin> set ts" using tick_links(10) [OF assms(1), of "[]" a] assms(2) by auto
  ultimately show ?thesis using s' by (intro exI conjI [OF s'(1)] conjI [OF s'(2)]) auto
qed

theorem tick_skips_successor_witness:
  "\<exists>s' C'. wait_loop (ThreadingBox kernel_wait Box_wait) kernel_wait = Some s' \<and> sched_ok s' {8, 9, 10} C' \<and>
     10 \<in> set (C' Box_wait) \<and> clock s' 10 = 1"
  using tick_skips_successor [OF kernel_wait_ok, of 9 10 "[]"] by (auto simp: kernel_wait_def)

text \<open>
  (C20) Scheduling is round robin: a ready running thread is followed by its successor in the ready chain,
  the last one by the first, any other running thread by the first ready one. When that is another
  thread and no interrupt is being handled, the switch happens with the new thread as the running one
  and a new time slice of 5; otherwise the thread goes on.
\<close>

theorem schedule_round_robin:
  assumes "sched_ok s T C" and "TmGetCurrentThread s = cur" and "cur \<in> T" and "C Box_ready \<noteq> []"
    and "\<not> th_IsInterrupted (threads s cur)"
  shows "\<exists>nxt. nxt \<in> set (C Box_ready) \<and>
    (\<forall>xs ys. C Box_ready = xs @ cur # ys \<longrightarrow> nxt = hd (ys @ xs @ [cur])) \<and>
    (cur \<notin> set (C Box_ready) \<longrightarrow> nxt = hd (C Box_ready)) \<and>
    (nxt = cur \<longrightarrow> (\<exists>s'. TmSchedule swapctx s = Some s' \<and> ThreadingBox s' = ThreadingBox s \<and> clock s' cur = 5)) \<and>
    (nxt \<noteq> cur \<longrightarrow> (\<exists>s'. TmSchedule swapctx s = do { t \<leftarrow> swapctx s'; Some (ArLocalRestoreIrq (irq_enabled s) t) } \<and>
       TmGetCurrentThread s' = nxt \<and> ThreadingBox s' Box_next = 0 \<and> clock s' nxt = 5))"
proof -
  define nxt where "nxt = pick_ready s"
  have 1: "nxt = hd (ys @ xs @ [cur])" if "C Box_ready = xs @ cur # ys" for xs ys
    unfolding nxt_def by (rule pick_ready_round_robin(1) [OF assms(1) that assms(2)])
  have 2: "nxt = hd (C Box_ready)" if "cur \<notin> set (C Box_ready)"
    using pick_ready_round_robin(2) [OF assms(1)] assms(2,3,4) that by (simp add: nxt_def)
  have 3: "nxt \<in> set (C Box_ready)"
  proof (cases "cur \<in> set (C Box_ready)")
    case True
    then obtain xs ys where xy: "C Box_ready = xs @ cur # ys" by (auto simp: in_set_conv_decomp)
    show ?thesis unfolding 1 [OF xy] unfolding xy by (cases ys; cases xs) auto
  qed (use 2 assms(4) in simp)
  have nz: "nxt \<noteq> 0" using 3 sched_okD(1) [OF assms(1), of Box_ready] dlist_nonzero unfolding chain_ok_def by blast
  have p: "pick_ready (s\<lparr>irq_enabled := False\<rparr>) = nxt"
    by (simp add: nxt_def pick_ready_def TmGetCurrentThread_def Let_def)
  let ?s = "upd_sched nxt (\<lambda>i. i\<lparr>si_clock := 5\<rparr>) (s\<lparr>irq_enabled := False\<rparr>)"
  have e: "TmSchedule swapctx s = do { t \<leftarrow> switch_to swapctx cur nxt ?s; Some (ArLocalRestoreIrq (irq_enabled s) t) }"
    using nz p assms(2) by (simp add: TmSchedule_def ArLocalSaveIrq_def)
  have i: "\<not> th_IsInterrupted (threads (upd_box Box_next nxt ?s) cur)" using assms(5) by (cases "cur = nxt") simp_all
  have "\<exists>s'. TmSchedule swapctx s = Some s' \<and> ThreadingBox s' = ThreadingBox s \<and> clock s' cur = 5" if "nxt = cur"
    unfolding e using that by (simp add: switch_to_def ArLocalRestoreIrq_def)
  moreover have "\<exists>s'. TmSchedule swapctx s = do { t \<leftarrow> swapctx s'; Some (ArLocalRestoreIrq (irq_enabled s) t) } \<and>
       TmGetCurrentThread s' = nxt \<and> ThreadingBox s' Box_next = 0 \<and> clock s' nxt = 5" if "nxt \<noteq> cur"
    unfolding e using that i
    by (intro exI [of _ "upd_box Box_next 0 (upd_box Box_running nxt (ArPrepareForNextThread (upd_box Box_next nxt ?s)))"])
      (simp add: switch_to_def ArSwitchThread_def Let_def TmGetCurrentThread_def)
  ultimately show ?thesis using 1 2 3 by blast
qed

theorem schedule_round_robin_witness:
  "\<exists>s'. TmSchedule (\<lambda>s. None) kernel_wait = Some s' \<and> clock s' 8 = 5"
  using schedule_round_robin [OF kernel_wait_ok, of 8 "\<lambda>s. None"]
  by (auto simp: kernel_wait_def TmGetCurrentThread_def zero_thread_def)

end
