(* ===== verification/SemaphoreInv.thy ===== *)
theory SemaphoreInv
  imports Semaphore KQueueInv SchedInv
begin

text \<open>
  The semaphores as locks: a free one is taken and given back without touching any list, so it is an
  instance of \<open>queue_guard\<close> and the lemmas on queues hold for the queues that own a semaphore, such as
  the message queue of a thread. A taken one puts its caller at the end of the wait queue and to sleep;
  unlocking wakes the thread that has waited longest. Last come the properties of queues and semaphores
  and a concrete kernel with one message queue for their instances.
\<close>

section \<open>Semaphores as the locks of queues\<close>

interpretation nolock: queue_guard no_lock no_lock "\<lambda>_ _. False" "\<lambda>_ _. False"
  by unfold_locales auto

lemma guarded_no_lock [simp]: "guarded (\<lambda>_ _. False) q s \<longleftrightarrow> \<not> q_use_sem (queues s q)"
  by (simp add: guarded_def)

definition waiters_none :: "semref \<Rightarrow> kernel \<Rightarrow> bool" where
  "waiters_none m s \<longleftrightarrow> q_front (queues s (WaitQueue m)) = 0 \<and> q_back (queues s (WaitQueue m)) = 0 \<and>
     \<not> q_use_sem (queues s (WaitQueue m))"

definition sem_free :: "semref \<Rightarrow> kernel \<Rightarrow> bool" where
  "sem_free m s \<longleftrightarrow> sem_value s m = 1 \<and> waiters_none m s"

definition sem_taken :: "semref \<Rightarrow> kernel \<Rightarrow> bool" where
  "sem_taken m s \<longleftrightarrow> sem_value s m = 0 \<and> waiters_none m s"

lemma irq_restore [simp]: "ArLocalRestoreIrq (irq_enabled s) (s\<lparr>irq_enabled := b\<rparr>) = s"
  by (simp add: ArLocalRestoreIrq_def)

lemma lock_free:
  assumes "sem_value s m = 1"
  shows "IpcLockSemaphore swapctx m s = Some (s\<lparr>sem_value := (sem_value s)(m := 0)\<rparr>)"
  using assms by (simp add: IpcLockSemaphore_def ArLocalSaveIrq_def ArLocalRestoreIrq_def)

lemma unlock_no_waiters:
  assumes "waiters_none m s"
  shows "IpcUnlockSemaphore m s = Some (s\<lparr>sem_value := (sem_value s)(m := sem_value s m + 1),
     queues := (queues s)(WaitQueue m := (queues s (WaitQueue m))\<lparr>q_cur_num := q_cur_num (queues s (WaitQueue m)) - 1\<rparr>)\<rparr>)"
  using assms by (simp add: IpcUnlockSemaphore_def ArLocalSaveIrq_def ArLocalRestoreIrq_def waiters_none_def
      RtlPopBackQueue_def queue_lock_def unlink_back_def upd_queue_def)

lemma sem_guard_lock:
  assumes "sem_free m s"
  shows "\<exists>t. IpcLockSemaphore swapctx m s = Some t \<and> sem_taken m t \<and> lframe s t \<and>
    (\<forall>q. q \<noteq> WaitQueue m \<longrightarrow> queues t q = queues s q)"
proof -
  let ?t = "s\<lparr>sem_value := (sem_value s)(m := 0)\<rparr>"
  have "lframe s ?t" unfolding lframe_def
    by (rule exI [of _ "(sem_value s)(m := 0)"], rule exI [of _ "queues s"]) simp
  moreover have "sem_taken m ?t" using assms by (simp add: sem_free_def sem_taken_def waiters_none_def)
  ultimately show ?thesis using lock_free [of s m swapctx] assms by (auto simp: sem_free_def)
qed

lemma sem_guard_unlock:
  assumes "sem_taken m s"
  shows "\<exists>t. IpcUnlockSemaphore m s = Some t \<and> sem_free m t \<and> lframe s t \<and>
    (\<forall>q. q \<noteq> WaitQueue m \<longrightarrow> queues t q = queues s q)"
proof -
  let ?Q = "(queues s)(WaitQueue m := (queues s (WaitQueue m))\<lparr>q_cur_num := q_cur_num (queues s (WaitQueue m)) - 1\<rparr>)"
  let ?t = "s\<lparr>sem_value := (sem_value s)(m := sem_value s m + 1), queues := ?Q\<rparr>"
  have "lframe s ?t" unfolding lframe_def
    by (rule exI [of _ "(sem_value s)(m := sem_value s m + 1)"], rule exI [of _ ?Q]) simp
  moreover have "sem_free m ?t" using assms by (simp add: sem_free_def sem_taken_def waiters_none_def)
  ultimately show ?thesis using unlock_no_waiters [of m s] assms by (auto simp: sem_taken_def)
qed

interpretation sem: queue_guard "IpcLockSemaphore swapctx" IpcUnlockSemaphore sem_free sem_taken for swapctx
proof unfold_locales
  show "sem_free m s \<Longrightarrow> \<exists>t. IpcLockSemaphore swapctx m s = Some t \<and> sem_taken m t \<and> lframe s t \<and>
      (\<forall>q. q \<noteq> WaitQueue m \<longrightarrow> queues t q = queues s q)" for m s by (rule sem_guard_lock)
  show "sem_taken m s \<Longrightarrow> \<exists>t. IpcUnlockSemaphore m s = Some t \<and> sem_free m t \<and> lframe s t \<and>
      (\<forall>q. q \<noteq> WaitQueue m \<longrightarrow> queues t q = queues s q)" for m s by (rule sem_guard_unlock)
qed (auto simp: sem_taken_def sem_free_def waiters_none_def)

section \<open>Waking the waiters\<close>

lemma heap_ok_irq [simp]: "heap_ok (s\<lparr>irq_enabled := b\<rparr>) = heap_ok s" "live (s\<lparr>irq_enabled := b\<rparr>) = live s" for s :: kernel
  by (rule heap_cong; simp)+

lemma qrep_irq [simp]: "qrep (s\<lparr>irq_enabled := b\<rparr>) Q A = qrep s Q A"
  by (simp add: qrep_def queues_ok_def links_ok_def elems_def)

lemma qrep_sem [simp]: "qrep (s\<lparr>sem_value := b\<rparr>) Q A = qrep s Q A"
  by (simp add: qrep_def queues_ok_def links_ok_def elems_def)

lemma qrep_state [simp]: "qrep (TmSetThreadState t st s) Q A = qrep s Q A"
  by (simp add: qrep_def queues_ok_def links_ok_def elems_def)

lemma pop_back_threads:
  assumes "RtlPopBackQueue no_lock no_lock q s = Some (p, s')"
  shows "threads s' = threads s" "sem_value s' = sem_value s" "irq_enabled s' = irq_enabled s" "ThreadingBox s' = ThreadingBox s"
    "kmsgs s' = kmsgs s"
proof -
  from assms have q: "\<not> q_use_sem (queues s q)" by (auto simp: RtlPopBackQueue_def queue_lock_def no_lock_def)
  obtain m v t where u: "unlink_back q s = (m, v, t)" by (metis prod_cases3)
  note fr = qframe_fields [OF qframe_unlink(1) [OF u]]
  have "q_use_sem (queues t q) = q_use_sem (queues s q)"
    using u by (auto simp: unlink_back_def Let_def split: if_splits)
  then have "s' = (let s3 = upd_queue q (\<lambda>r. r\<lparr>q_cur_num := q_cur_num r - 1\<rparr>) t
      in if m \<noteq> 0 then MmFreeKernelMemory m s3 else s3)"
    using assms u q by (simp add: RtlPopBackQueue_def queue_lock_def Let_def)
  then show "threads s' = threads s" "sem_value s' = sem_value s" "irq_enabled s' = irq_enabled s" "ThreadingBox s' = ThreadingBox s"
    "kmsgs s' = kmsgs s"
    by (simp_all add: fr Let_def)
qed

lemma unlock_wakes:
  assumes r: "qrep s Q A" and g: "\<not> q_use_sem (queues s (WaitQueue m))"
    and a: "A (WaitQueue m) = t # ts" and t: "t \<noteq> 0"
    and st: "th_ThreadState (threads s t) = TS_SLEEP \<or> th_ThreadState (threads s t) = TS_WAIT"
  shows "\<exists>s' Q'. IpcUnlockSemaphore m s = Some s' \<and> qrep s' Q' (A(WaitQueue m := ts)) \<and>
    th_ThreadState (threads s' t) = TS_READY \<and> sem_value s' = (sem_value s)(m := sem_value s m + 1) \<and>
    irq_enabled s' = irq_enabled s"
proof -
  let ?s = "s\<lparr>irq_enabled := False\<rparr>"
  have "qrep ?s Q A" "guarded (\<lambda>_ _. False) (WaitQueue m) ?s" using r g by simp_all
  then obtain s1 where s1: "RtlPopBackQueue no_lock no_lock (WaitQueue m) ?s = Some (if A (WaitQueue m) = [] then 0 else hd (A (WaitQueue m)), s1)"
    "qrep s1 (Q(WaitQueue m := tl (Q (WaitQueue m)))) (A(WaitQueue m := tl (A (WaitQueue m))))"
    by (rule nolock.pop_back) 
  note th = pop_back_threads [OF s1(1)]
  let ?s2 = "ArLocalRestoreIrq (irq_enabled s) s1"
  let ?s3 = "?s2\<lparr>sem_value := (sem_value ?s2)(m := sem_value ?s2 m + 1)\<rparr>"
  have "th_ThreadState (threads ?s3 t) = TS_SLEEP \<or> th_ThreadState (threads ?s3 t) = TS_WAIT"
    using st th by (simp add: ArLocalRestoreIrq_def)
  then have e: "IpcUnlockSemaphore m s = Some (TmSetThreadState t TS_READY ?s3)"
    using s1(1) a t by (simp add: IpcUnlockSemaphore_def ArLocalSaveIrq_def Let_def TmWakeupThread_def)
  have "qrep (TmSetThreadState t TS_READY ?s3) (Q(WaitQueue m := tl (Q (WaitQueue m)))) (A(WaitQueue m := ts))"
    using s1(2) a by (simp add: ArLocalRestoreIrq_def)
  moreover have "sem_value ?s3 = (sem_value s)(m := sem_value s m + 1)" "irq_enabled ?s3 = irq_enabled s"
    using th by (simp_all add: ArLocalRestoreIrq_def)
  ultimately show ?thesis using e by auto
qed


lemma push_front_threads:
  assumes "RtlPushFrontQueue no_lock no_lock q x s = Some (r, s')"
  shows "threads s' = threads s" "sem_value s' = sem_value s" "irq_enabled s' = irq_enabled s" "ThreadingBox s' = ThreadingBox s"
    "kmsgs s' = kmsgs s"
proof -
  have "threads s' = threads s \<and> sem_value s' = sem_value s \<and> irq_enabled s' = irq_enabled s \<and>
    ThreadingBox s' = ThreadingBox s \<and> kmsgs s' = kmsgs s"
  proof (cases "full q s")
    case True
    with assms show ?thesis by (simp add: RtlPushFrontQueue_def full_def)
  next
    case False
    then obtain n s1 where a: "MmAllocateKernelMemory SIZEOF_KQueueNode s = Some (n, s1)"
      using assms by (auto simp: RtlPushFrontQueue_def full_def bind_eq_Some_conv)
    note fr = MmAllocateKernelMemory_frame(1,8,9,10,11,14) [OF a]
    have lf: "q_use_sem (queues (link_front q n t) q) = q_use_sem (queues t q)" for n t
      by (simp add: link_front_fields)
    show ?thesis
      using assms False a fr lf
      by (auto simp: RtlPushFrontQueue_def full_def queue_lock_def no_lock_def qframe_fields [OF qframe_link(2)]
          Let_def split: if_splits)
  qed
  then show "threads s' = threads s" "sem_value s' = sem_value s" "irq_enabled s' = irq_enabled s" "ThreadingBox s' = ThreadingBox s"
    "kmsgs s' = kmsgs s" by simp_all
qed

lemma lock_waits:
  assumes r: "qrep s Q A" and g: "\<not> q_use_sem (queues s (WaitQueue m))" and v: "sem_value s m \<noteq> 1"
    and room: "\<not> full (WaitQueue m) s" "\<And>t. MmAllocateKernelMemory SIZEOF_KQueueNode (s\<lparr>irq_enabled := False,
         sem_value := (sem_value s)(m := sem_value s m - 1)\<rparr>) \<noteq> Some (0, t)"
  shows "\<exists>s' Q'. IpcLockSemaphore swapctx m s = do { t \<leftarrow> TmSleepThread swapctx (TmGetCurrentThread s) INFINITE s';
        Some (ArLocalRestoreIrq (irq_enabled s) t) } \<and>
      qrep s' Q' (A(WaitQueue m := A (WaitQueue m) @ [TmGetCurrentThread s])) \<and> threads s' = threads s \<and>
      sem_value s' = (sem_value s)(m := sem_value s m - 1) \<and> ThreadingBox s' = ThreadingBox s \<and> \<not> irq_enabled s'"
proof -
  let ?s = "s\<lparr>irq_enabled := False, sem_value := (sem_value s)(m := sem_value s m - 1)\<rparr>"
  have 1: "qrep ?s Q A" "guarded (\<lambda>_ _. False) (WaitQueue m) ?s" using r g by simp_all
  have cur: "TmGetCurrentThread ?s = TmGetCurrentThread s" by (simp add: TmGetCurrentThread_def)
  from 1 obtain s1 nod where s1: "RtlPushFrontQueue no_lock no_lock (WaitQueue m) (TmGetCurrentThread s) ?s = Some (0, s1)"
    "qrep s1 (Q(WaitQueue m := Q (WaitQueue m) @ [nod])) (A(WaitQueue m := A (WaitQueue m) @ [TmGetCurrentThread s]))"
    by (rule nolock.push_front [where x = "TmGetCurrentThread s"]) (use room in \<open>auto simp: full_def\<close>)
  note fr = push_front_threads [OF s1(1)]
  have "IpcLockSemaphore swapctx m s = do { t \<leftarrow> TmSleepThread swapctx (TmGetCurrentThread s) INFINITE s1;
        Some (ArLocalRestoreIrq (irq_enabled s) t) }"
    using v s1(1) fr(4) cur by (simp add: IpcLockSemaphore_def ArLocalSaveIrq_def Let_def TmGetCurrentThread_def)
  then show ?thesis using s1(2) fr by auto
qed

lemma empty_iff: "qrep s Q A \<Longrightarrow> RtlIsEmptyQueue q s \<longleftrightarrow> Q q = []"
  using dlist_empty_iff_last [OF queues_okD(2) [OF qrepD(3), unfolded links_ok_def]]
  by (auto simp: RtlIsEmptyQueue_def)

text \<open>The elements are messages of their own, which the queue owns, when its eraser frees them.\<close>

definition owns :: "eraser \<Rightarrow> (qref \<Rightarrow> u32 list) \<Rightarrow> u32 list \<Rightarrow> kernel \<Rightarrow> bool" where
  "owns del Q xs s \<longleftrightarrow> (del = MessageEraser \<longrightarrow> distinct xs \<and> set xs \<subseteq> live s \<and> (\<forall>q. set xs \<inter> set (Q q) = {}))"

context queue_guard
begin

lemma destroy_loop:
  assumes "qrep s Q A" "guarded avail q s" "owns del Q (A q) s"
  shows "\<exists>s'. destroy_loop lk ul del q s = Some s' \<and> qrep s' (Q(q := [])) (A(q := [])) \<and> guarded avail q s' \<and>
    live s' = live s - set (Q q) - (if del = MessageEraser then set (A q) else {}) \<and>
    q_use_sem (queues s' q) = q_use_sem (queues s q) \<and> q_semaphore (queues s' q) = q_semaphore (queues s q)"
  using assms
proof (induction "length (Q q)" arbitrary: s Q A)
  case 0
  then have n: "Q q = []" "A q = []" using qrepD(4) [OF 0(2), of q] by simp_all
  moreover have "Q(q := []) = Q" "A(q := []) = A" using n by (auto simp: fun_upd_idem_iff)
  moreover have "destroy_loop lk ul del q s = Some s"
    using n empty_iff [OF 0(2), of q] by (subst destroy_loop.simps) simp
  ultimately show ?case using 0 by simp
next
  case (Suc k)
  then obtain n ns where n: "Q q = n # ns" by (cases "Q q") auto
  with qrepD(4) [OF Suc(3), of q] obtain x xs where x: "A q = x # xs" by (cases "A q") auto
  obtain s1 where s1: "RtlPopBackQueue lk ul q s = Some (if A q = [] then 0 else hd (A q), s1)"
    "qrep s1 (Q(q := tl (Q q))) (A(q := tl (A q)))" "guarded avail q s1" "live s1 = live s - set (take 1 (Q q))"
    "queue_rest (queues s1 q) = queue_rest ((queues s q)\<lparr>q_cur_num := q_cur_num (queues s q) - 1\<rparr>)"
    by (rule pop_back [OF Suc(3,4)])
  have rest: "q_use_sem (queues s1 q) = q_use_sem (queues s q)" "q_semaphore (queues s1 q) = q_semaphore (queues s q)"
    using s1(5) by (auto simp: queue_rest_def dest: arg_cong [where f = q_use_sem] arg_cong [where f = q_semaphore])
  have st: "destroy_loop lk ul del q s = destroy_loop lk ul del q (run_del_func del x s1)"
    using n x empty_iff [OF Suc(3), of q] s1(1) by (subst destroy_loop.simps) simp
  let ?t = "run_del_func del x s1"
  have dis: "set ns \<inter> {n} = {}" "n \<noteq> 0"
    using dlist_distinct dlist_nonzero queues_okD(2) [OF qrepD(3) [OF Suc(3)], of q] n unfolding links_ok_def by fastforce+
  have t: "qrep ?t (Q(q := ns)) (A(q := xs)) \<and> guarded avail q ?t \<and> owns del (Q(q := ns)) xs ?t \<and>
    live ?t = live s - {n} - (if del = MessageEraser then {x} else {}) \<and>
    q_use_sem (queues ?t q) = q_use_sem (queues s q) \<and> q_semaphore (queues ?t q) = q_semaphore (queues s q)"
  proof (cases del)
    case NoEraser
    with s1 rest show ?thesis by (simp add: run_del_func_def owns_def n x)
  next
    case MessageEraser
    with Suc(5) x have o: "distinct (x # xs)" "set (x # xs) \<subseteq> live s" "\<And>q. set (x # xs) \<inter> set (Q q) = {}"
      by (auto simp: owns_def)
    have "x \<in> live s1" using o(2) o(3) [of q] by (auto simp: s1(4) n)
    moreover have "x \<notin> set ((Q(q := ns)) q')" for q' using o(3) [of q'] o(3) [of q] by (auto simp: n)
    ultimately have f: "qrep (MmFreeKernelMemory x s1) (Q(q := ns)) (A(q := xs))"
      "live (MmFreeKernelMemory x s1) = live s1 - {x}"
      using qrep_free [of s1 "Q(q := ns)" "A(q := xs)" x] s1(2) n x by auto
    have "guarded avail q (MmFreeKernelMemory x s1)" by (rule guard_stays(2) [OF _ _ _ _ s1(3)]) simp_all
    moreover have "owns del (Q(q := ns)) xs (MmFreeKernelMemory x s1)"
      unfolding owns_def f(2) s1(4) using o o(3) [of q] by (auto simp: n)
    ultimately show ?thesis using f rest MessageEraser by (simp add: run_del_func_def s1(4) n)
  qed
  have "k = length ((Q(q := ns)) q)" using Suc(2) n by simp
  from Suc(1) [of "Q(q := ns)" ?t "A(q := xs)"] this t obtain s' where
    "destroy_loop lk ul del q ?t = Some s'" "qrep s' (Q(q := [])) (A(q := []))" "guarded avail q s'"
    "live s' = live ?t - set ns - (if del = MessageEraser then set xs else {})"
    "q_use_sem (queues s' q) = q_use_sem (queues s q)" "q_semaphore (queues s' q) = q_semaphore (queues s q)"
    by auto
  with t st n x show ?case by auto
qed

end


lemma qrep_same_links:
  "(\<And>q. q_back (Qs q) = q_back (queues s q) \<and> q_front (Qs q) = q_front (queues s q)) \<Longrightarrow>
   qrep (s\<lparr>queues := Qs\<rparr>) Q A = qrep s Q A"
  by (simp add: qrep_def queues_ok_def links_ok_def elems_def)

lemma destroy_semaphore:
  assumes "waiters_none m s"
  shows "IpcDestroySemaphore m s = Some (s\<lparr>sem_value := (sem_value s)(m := 0),
     queues := (queues s)(WaitQueue m := (queues s (WaitQueue m))\<lparr>q_cur_num := q_cur_num (queues s (WaitQueue m)) - 1\<rparr>)\<rparr>)"
proof -
  let ?s = "s\<lparr>irq_enabled := False\<rparr>"
  have "RtlPopBackQueue no_lock no_lock (WaitQueue m) ?s = Some (0, ?s\<lparr>queues := (queues s)(WaitQueue m :=
      (queues s (WaitQueue m))\<lparr>q_cur_num := q_cur_num (queues s (WaitQueue m)) - 1\<rparr>)\<rparr>)"
    using assms by (simp add: waiters_none_def RtlPopBackQueue_def queue_lock_def unlink_back_def upd_queue_def)
  then show ?thesis
    by (simp add: IpcDestroySemaphore_def ArLocalSaveIrq_def ArLocalRestoreIrq_def wakeup_all.simps [of m ?s])
qed

lemma destroy_queue:
  assumes r: "qrep s Q A" and g: "guarded sem_free q s" and o: "owns (q_del_func (queues s q)) Q (A q) s"
    and u: "q_use_sem (queues s q)" and p: "p = q_semaphore (queues s q)" "p \<in> live s" "\<And>q. p \<notin> set (Q q)"
      "q_del_func (queues s q) = MessageEraser \<Longrightarrow> p \<notin> set (A q)"
  shows "\<exists>s'. RtlDestroyQueue (IpcLockSemaphore swapctx) IpcUnlockSemaphore IpcDestroySemaphore q s = Some s' \<and>
    qrep s' (Q(q := [])) (A(q := [])) \<and>
    live s' = live s - set (Q q) - (if q_del_func (queues s q) = MessageEraser then set (A q) else {}) - {p}"
proof -
  let ?d = "q_del_func (queues s q)" and ?s = "upd_queue q (\<lambda>r. r\<lparr>q_cur_num := 1, q_max_num := 0\<rparr>) s"
  have 1: "qrep ?s Q A" by (rule qrep_cong [where s = s]) (use r qrepD(1) [OF r] in auto)
  have 2: "guarded sem_free q ?s" by (rule sem.guard_stays(2) [OF _ _ _ _ g]) simp_all
  have 3: "owns ?d Q (A q) ?s" using o by (simp add: owns_def)
  from sem.destroy_loop [OF 1 2 3] u p(1) obtain t where t: "destroy_loop (IpcLockSemaphore swapctx) IpcUnlockSemaphore ?d q ?s = Some t"
    "qrep t (Q(q := [])) (A(q := []))" "guarded sem_free q t" "q_use_sem (queues t q)" "q_semaphore (queues t q) = p"
    "live t = live s - set (Q q) - (if ?d = MessageEraser then set (A q) else {})" by auto
  let ?m = "HeapSemaphore p"
  have w: "waiters_none ?m t" and ne: "q \<noteq> WaitQueue ?m" using t(3,4,5) by (auto simp: guarded_def sem_free_def)
  note d = destroy_semaphore [OF w]
  let ?Qs = "(queues t)(WaitQueue ?m := (queues t (WaitQueue ?m))\<lparr>q_cur_num := q_cur_num (queues t (WaitQueue ?m)) - 1\<rparr>)"
  let ?u = "t\<lparr>sem_value := (sem_value t)(?m := 0), queues := ?Qs\<rparr>"
  have "qrep ?u (Q(q := [])) (A(q := []))" using t(2) by (subst qrep_same_links) simp_all
  moreover have "p \<in> live ?u" using p t(6) by auto
  moreover have "p \<notin> set ((Q(q := [])) q')" for q' using p(3) [of q'] by simp
  ultimately have f: "qrep (MmFreeKernelMemory p ?u) (Q(q := [])) (A(q := []))"
      "live (MmFreeKernelMemory p ?u) = live ?u - {p}" by (rule qrep_free)+
  have "RtlDestroyQueue (IpcLockSemaphore swapctx) IpcUnlockSemaphore IpcDestroySemaphore q s = Some (MmFreeKernelMemory p ?u)"
    using t(1,4,5) d ne by (simp add: RtlDestroyQueue_def)
  with f t(6) show ?thesis by auto
qed

section \<open>First in, first out\<close>

text \<open>The interface a sender and a receiver share, and what follows from it for a run of sends and
  receives.\<close>

primrec push_all :: "('e \<Rightarrow> 's \<Rightarrow> (int \<times> 's) option) \<Rightarrow> 'e list \<Rightarrow> 's \<Rightarrow> 's option" where
  "push_all push [] s = Some s"
| "push_all push (x # xs) s = do { (r, s) \<leftarrow> push x s; if r = 0 then push_all push xs s else None }"

primrec pop_all :: "('s \<Rightarrow> ('e \<times> 's) option) \<Rightarrow> nat \<Rightarrow> 's \<Rightarrow> ('e list \<times> 's) option" where
  "pop_all pop 0 s = Some ([], s)"
| "pop_all pop (Suc n) s = do { (x, s) \<leftarrow> pop s; (xs, s) \<leftarrow> pop_all pop n s; Some (x # xs, s) }"

locale fifo =
  fixes holds :: "'s \<Rightarrow> 'e list \<Rightarrow> bool"
    and push :: "'e \<Rightarrow> 's \<Rightarrow> (int \<times> 's) option"
    and pop :: "'s \<Rightarrow> ('e \<times> 's) option"
  assumes push_holds: "holds s xs \<Longrightarrow> push x s = Some (0, s') \<Longrightarrow> holds s' (xs @ [x])"
    and pop_holds: "holds s (x # xs) \<Longrightarrow> \<exists>s'. pop s = Some (x, s') \<and> holds s' xs"
begin

lemma push_all_holds: "holds s ys \<Longrightarrow> push_all push xs s = Some s' \<Longrightarrow> holds s' (ys @ xs)"
proof (induction xs arbitrary: s ys)
  case (Cons x xs)
  then obtain t where "push x s = Some (0, t)" "push_all push xs t = Some s'"
    by (auto simp: bind_eq_Some_conv split: if_splits)
  with Cons.IH [of t "ys @ [x]"] push_holds [OF Cons.prems(1)] show ?case by simp
qed simp

lemma pop_all_holds: "holds s (xs @ ys) \<Longrightarrow> \<exists>s'. pop_all pop (length xs) s = Some (xs, s') \<and> holds s' ys"
proof (induction xs arbitrary: s)
  case (Cons x xs)
  from pop_holds [of s x "xs @ ys"] Cons.prems obtain t where "pop s = Some (x, t)" "holds t (xs @ ys)" by auto
  with Cons.IH [of t] show ?case by auto
qed simp

lemma order_kept:
  "holds s ys \<Longrightarrow> push_all push xs s = Some s' \<Longrightarrow>
   \<exists>t. pop_all pop (length ys + length xs) s' = Some (ys @ xs, t) \<and> holds t []"
  using push_all_holds [of s ys xs s'] pop_all_holds [of s' "ys @ xs" "[]"] by simp

end

text \<open>A queue and its semaphore as that interface.\<close>

definition queue_holds :: "qref \<Rightarrow> kernel \<Rightarrow> u32 list \<Rightarrow> bool" where
  "queue_holds q s xs \<longleftrightarrow> guarded sem_free q s \<and> (\<exists>Q A. qrep s Q A \<and> A q = xs)"

interpretation mq: fifo "queue_holds q" "RtlPushFrontQueue (IpcLockSemaphore swapctx) IpcUnlockSemaphore q"
  "RtlPopBackQueue (IpcLockSemaphore swapctx) IpcUnlockSemaphore q" for swapctx q
proof unfold_locales
  fix s s' xs x
  assume h: "queue_holds q s xs" and p: "RtlPushFrontQueue (IpcLockSemaphore swapctx) IpcUnlockSemaphore q x s = Some (0, s')"
  then obtain Q A where r: "qrep s Q A" "A q = xs" "guarded sem_free q s" by (auto simp: queue_holds_def)
  show "queue_holds q s' (xs @ [x])"
  proof (rule sem.push_front [OF r(1,3), of swapctx x])
    fix t assume "RtlPushFrontQueue (IpcLockSemaphore swapctx) IpcUnlockSemaphore q x s = Some (- ERR_NOMEM, t)"
    with p show ?thesis by simp
  next
    fix t nod
    assume "RtlPushFrontQueue (IpcLockSemaphore swapctx) IpcUnlockSemaphore q x s = Some (0, t)"
      and "qrep t (Q(q := Q q @ [nod])) (A(q := A q @ [x]))" and "guarded sem_free q t"
    with p r(2) show ?thesis unfolding queue_holds_def by fastforce
  qed
next
  fix s x and xs :: "u32 list"
  assume "queue_holds q s (x # xs)"
  then obtain Q A where r: "qrep s Q A" "A q = x # xs" "guarded sem_free q s" by (auto simp: queue_holds_def)
  obtain s' where "RtlPopBackQueue (IpcLockSemaphore swapctx) IpcUnlockSemaphore q s = Some (x, s')"
    "qrep s' (Q(q := tl (Q q))) (A(q := xs))" "guarded sem_free q s'"
    by (rule sem.pop_back [OF r(1,3), of swapctx]) (use r(2) in simp)
  then show "\<exists>s'. RtlPopBackQueue (IpcLockSemaphore swapctx) IpcUnlockSemaphore q s = Some (x, s') \<and> queue_holds q s' xs"
    unfolding queue_holds_def by fastforce
qed

section \<open>Properties\<close>

text \<open>A kernel with one message queue, of thread 5, whose semaphore is at address 7.\<close>

definition kernel_mq :: kernel where
  "kernel_mq = kernel0\<lparr>queues := (\<lambda>_. zero_queue)(MessageQueueOf 5 :=
     zero_queue\<lparr>q_max_num := 100, q_use_sem := True, q_semaphore := 7\<rparr>),
     sem_value := (\<lambda>_. 0)(HeapSemaphore 7 := 1)\<rparr>"

lemma kernel_mq_rep: "qrep kernel_mq (\<lambda>_. []) (\<lambda>_. [])"
  using kernel0_ok by (auto simp: qrep_def queues_ok_def links_ok_def elems_def kernel_mq_def zero_queue_def)

lemma kernel_mq_free: "guarded sem_free (MessageQueueOf 5) kernel_mq"
  by (simp add: guarded_def sem_free_def waiters_none_def kernel_mq_def zero_queue_def)

lemma kernel_mq_push:
  "\<exists>s. RtlPushFrontQueue (IpcLockSemaphore swapctx) IpcUnlockSemaphore (MessageQueueOf 5) x kernel_mq = Some (0, s)"
proof (rule sem.push_front [OF kernel_mq_rep kernel_mq_free, of swapctx x])
  assume "full (MessageQueueOf 5) kernel_mq \<or> (\<exists>t. MmAllocateKernelMemory SIZEOF_KQueueNode kernel_mq = Some (0, t))"
  moreover have "\<not> full (MessageQueueOf 5) kernel_mq" by (simp add: full_def kernel_mq_def zero_queue_def)
  moreover have "MmAllocateKernelMemory SIZEOF_KQueueNode kernel_mq = mm_alloc SIZEOF_KQueueNode kernel_mq"
    by (rule MmAllocateKernelMemory_boot)
      (simp_all add: MmGetCurrentSpace_def TmGetCurrentThread_def kernel_mq_def kernel_raw_def)
  moreover obtain p u where "mm_alloc SIZEOF_KQueueNode kernel_mq = Some (p, u)" "p \<noteq> 0"
    by (rule kernel0_alloc [of kernel_mq SIZEOF_KQueueNode]) (simp_all add: kernel_mq_def)
  ultimately show ?thesis by auto
qed blast

text \<open>
  (C13) A queue that owns a free semaphore is a list: pushing at the front appends to it or is refused and
  leaves it, pushing at the back prepends or is refused, popping at the back takes the first element
  and popping at the front of a queue that counts itself non-empty the last; no other queue changes,
  and the semaphore is free again.
\<close>

theorem queue_refines_list:
  assumes "qrep s Q A" and "guarded sem_free q s"
  shows "(\<exists>r s' Q'. RtlPushFrontQueue (IpcLockSemaphore swapctx) IpcUnlockSemaphore q x s = Some (r, s') \<and>
      qrep s' Q' (if r = 0 then A(q := A q @ [x]) else A) \<and> guarded sem_free q s') \<and>
    (\<exists>r s' Q'. RtlPushBackQueue (IpcLockSemaphore swapctx) IpcUnlockSemaphore q x s = Some (r, s') \<and>
      qrep s' Q' (if r = 0 then A(q := x # A q) else A) \<and> guarded sem_free q s') \<and>
    (\<exists>s' Q'. RtlPopBackQueue (IpcLockSemaphore swapctx) IpcUnlockSemaphore q s =
        Some (if A q = [] then 0 else hd (A q), s') \<and> qrep s' Q' (A(q := tl (A q))) \<and> guarded sem_free q s') \<and>
    (q_cur_num (queues s q) = 0 \<or>
     (\<exists>s' Q'. RtlPopFrontQueue (IpcLockSemaphore swapctx) IpcUnlockSemaphore q s =
        Some (if A q = [] then 0 else last (A q), s') \<and> qrep s' Q' (A(q := butlast (A q))) \<and> guarded sem_free q s'))"
proof (intro conjI)
  show "\<exists>r s' Q'. RtlPushFrontQueue (IpcLockSemaphore swapctx) IpcUnlockSemaphore q x s = Some (r, s') \<and>
      qrep s' Q' (if r = 0 then A(q := A q @ [x]) else A) \<and> guarded sem_free q s'"
    by (rule sem.push_front [OF assms, of swapctx x]) fastforce+
  show "\<exists>r s' Q'. RtlPushBackQueue (IpcLockSemaphore swapctx) IpcUnlockSemaphore q x s = Some (r, s') \<and>
      qrep s' Q' (if r = 0 then A(q := x # A q) else A) \<and> guarded sem_free q s'"
    by (rule sem.push_back [OF assms, of swapctx x]) fastforce+
  show "\<exists>s' Q'. RtlPopBackQueue (IpcLockSemaphore swapctx) IpcUnlockSemaphore q s =
        Some (if A q = [] then 0 else hd (A q), s') \<and> qrep s' Q' (A(q := tl (A q))) \<and> guarded sem_free q s'"
    by (rule sem.pop_back [OF assms, of swapctx]) blast
  show "q_cur_num (queues s q) = 0 \<or>
     (\<exists>s' Q'. RtlPopFrontQueue (IpcLockSemaphore swapctx) IpcUnlockSemaphore q s =
        Some (if A q = [] then 0 else last (A q), s') \<and> qrep s' Q' (A(q := butlast (A q))) \<and> guarded sem_free q s')"
  proof (cases "q_cur_num (queues s q) = 0")
    case False
    then show ?thesis by (rule sem.pop_front [OF assms, of swapctx]) blast
  qed simp
qed

theorem queue_refines_list_witness:
  "\<exists>s' Q'. RtlPopBackQueue (IpcLockSemaphore (\<lambda>s. None)) IpcUnlockSemaphore (MessageQueueOf 5) kernel_mq = Some (0, s') \<and>
     qrep s' Q' ((\<lambda>_. [])(MessageQueueOf 5 := []))"
  using queue_refines_list [OF kernel_mq_rep kernel_mq_free, of "\<lambda>s. None" 42] by auto

text \<open>
  (C14) A message queue is first in, first out: if every push of \<open>xs\<close> at the front is accepted, popping
  at the back as often as there are elements returns what was in the queue before and then \<open>xs\<close>, in
  that order.
\<close>

theorem queue_fifo:
  assumes "qrep s Q A" and "guarded sem_free q s"
    and "push_all (RtlPushFrontQueue (IpcLockSemaphore swapctx) IpcUnlockSemaphore q) xs s = Some s'"
  shows "\<exists>t. pop_all (RtlPopBackQueue (IpcLockSemaphore swapctx) IpcUnlockSemaphore q) (length (A q) + length xs) s' =
      Some (A q @ xs, t) \<and> RtlIsEmptyQueue q t"
proof -
  have "queue_holds q s (A q)" using assms(1,2) by (auto simp: queue_holds_def)
  from mq.order_kept [OF this assms(3)] obtain t where
    t: "pop_all (RtlPopBackQueue (IpcLockSemaphore swapctx) IpcUnlockSemaphore q) (length (A q) + length xs) s' = Some (A q @ xs, t)"
    "queue_holds q t []" by blast
  then obtain Q' A' where "qrep t Q' A'" "A' q = []" by (auto simp: queue_holds_def)
  with qrepD(4) [of t Q' A' q] have "RtlIsEmptyQueue q t" by (simp add: empty_iff)
  with t show ?thesis by blast
qed

theorem queue_fifo_witness:
  "\<exists>s t. pop_all (RtlPopBackQueue (IpcLockSemaphore (\<lambda>s. None)) IpcUnlockSemaphore (MessageQueueOf 5)) 1 s = Some ([42], t)"
proof -
  from kernel_mq_push [of "\<lambda>s. None" 42] obtain s where
    "RtlPushFrontQueue (IpcLockSemaphore (\<lambda>s. None)) IpcUnlockSemaphore (MessageQueueOf 5) 42 kernel_mq = Some (0, s)" by blast
  then have "push_all (RtlPushFrontQueue (IpcLockSemaphore (\<lambda>s. None)) IpcUnlockSemaphore (MessageQueueOf 5)) [42] kernel_mq = Some s"
    by simp
  from queue_fifo [OF kernel_mq_rep kernel_mq_free this] show ?thesis by auto
qed

text \<open>
  Searching returns the element nearest to the back that satisfies the search function, or nothing when
  no element does, and leaves every queue; removing the node it found takes exactly that
  element out and gives its memory back.
\<close>

theorem queue_search_remove:
  assumes "qrep s Q A" and "guarded sem_free q s" and "\<And>t. lframe s t \<Longrightarrow> search t = search s"
  shows "\<exists>p n s'. RtlSearchQueue (IpcLockSemaphore swapctx) IpcUnlockSemaphore q search s = Some (p, n, s') \<and>
     qrep s' Q A \<and> guarded sem_free q s' \<and>
     (case find (search s) (A q) of
        None \<Rightarrow> p = 0 \<and> n = 0
      | Some x \<Rightarrow> p = x \<and>
          (\<exists>t Q'. RtlRemoveQueueElement (IpcLockSemaphore swapctx) IpcUnlockSemaphore q n s' = Some t \<and>
             qrep t Q' (A(q := remove1 x (A q))) \<and> guarded sem_free q t \<and> live t = live s - {n}))"
proof (rule sem.search [OF assms(1,2), where search = search and swapctx = swapctx])
  show "\<And>t. lframe s t \<Longrightarrow> search t = search s" by (rule assms(3))
next
  fix s'
  assume "RtlSearchQueue (IpcLockSemaphore swapctx) IpcUnlockSemaphore q search s = Some (0, 0, s')"
    "qrep s' Q A" "guarded sem_free q s'" "\<forall>x\<in>set (A q). \<not> search s x"
  moreover from this(4) have "find (search s) (A q) = None" by (simp add: find_None_iff)
  ultimately show ?thesis by simp
next
  fix s' xs n ys
  let ?x = "qn_v (qnodes s n)"
  assume a: "RtlSearchQueue (IpcLockSemaphore swapctx) IpcUnlockSemaphore q search s = Some (?x, n, s')"
    "qrep s' Q A" "guarded sem_free q s'" "lframe s s'" "Q q = xs @ n # ys" "A q = elems s xs @ ?x # elems s ys"
    "search s ?x" "\<forall>x\<in>set (elems s xs). \<not> search s x"
  have f: "find (search s) (zs @ ?x # ws) = Some ?x" if "\<forall>x\<in>set zs. \<not> search s x" for zs ws
    using that a(7) by (induction zs) auto
  have r1: "remove1 ?x (A q) = elems s (xs @ ys)"
  proof -
    have "?x \<notin> set (elems s xs)" using a(7,8) by blast
    then show ?thesis by (simp add: a(6) remove1_append) (simp add: elems_def)
  qed
  obtain t where "RtlRemoveQueueElement (IpcLockSemaphore swapctx) IpcUnlockSemaphore q n s' = Some t"
    "qrep t (Q(q := xs @ ys)) (A(q := elems s' (xs @ ys)))" "guarded sem_free q t" "live t = live s' - {n}"
    by (rule sem.remove [OF a(2,3,5), of swapctx])
  then have "\<exists>t Q'. RtlRemoveQueueElement (IpcLockSemaphore swapctx) IpcUnlockSemaphore q n s' = Some t \<and>
      qrep t Q' (A(q := remove1 ?x (A q))) \<and> guarded sem_free q t \<and> live t = live s - {n}"
    unfolding r1 by (auto simp: lframe_queues(2) [OF a(4)] lframe_fields(2) [OF a(4)])
  moreover have "find (search s) (A q) = Some ?x" unfolding a(6) by (rule f [OF a(8)])
  ultimately show ?thesis using a(1-3) by (intro exI conjI) auto
qed

theorem queue_search_remove_witness:
  "\<exists>s'. RtlSearchQueue (IpcLockSemaphore (\<lambda>s. None)) IpcUnlockSemaphore (MessageQueueOf 5) (\<lambda>_ x. x = 3) kernel_mq = Some (0, 0, s')"
  using queue_search_remove [OF kernel_mq_rep kernel_mq_free, of "\<lambda>_ x. x = 3" "\<lambda>s. None"] by auto

text \<open>
  (C15) Destroying a queue returns, leaves it empty, and gives back exactly its nodes, its semaphore and,
  for a message queue, the messages that were still in it.
\<close>

theorem queue_destroy_frees:
  assumes "qrep s Q A" and "guarded sem_free q s" and "owns (q_del_func (queues s q)) Q (A q) s"
    and "q_use_sem (queues s q)" and "p = q_semaphore (queues s q)" and "p \<in> live s" and "\<And>q. p \<notin> set (Q q)"
    and "q_del_func (queues s q) = MessageEraser \<Longrightarrow> p \<notin> set (A q)"
  shows "\<exists>s'. RtlDestroyQueue (IpcLockSemaphore swapctx) IpcUnlockSemaphore IpcDestroySemaphore q s = Some s' \<and>
    qrep s' (Q(q := [])) (A(q := [])) \<and>
    live s' = live s - set (Q q) - (if q_del_func (queues s q) = MessageEraser then set (A q) else {}) - {p}"
  using assms by (rule destroy_queue)

theorem queue_destroy_frees_witness:
  "\<exists>s t. live s \<noteq> {} \<and> RtlDestroyQueue (IpcLockSemaphore (\<lambda>s. None)) IpcUnlockSemaphore IpcDestroySemaphore (MessageQueueOf 5) s = Some t \<and>
     live t = {}"
proof -
  obtain p u where u: "mm_alloc 48 kernel0 = Some (p, u)" "p \<noteq> 0" "live u = {p}" "heap_ok u"
    by (rule kernel0_alloc [of kernel0 48]) simp_all
  let ?s = "u\<lparr>queues := (\<lambda>_. zero_queue)(MessageQueueOf 5 := zero_queue\<lparr>q_max_num := 100, q_use_sem := True,
     q_semaphore := p, q_del_func := MessageEraser\<rparr>), sem_value := (\<lambda>_. 0)(HeapSemaphore p := 1)\<rparr>"
  have "qrep ?s (\<lambda>_. []) (\<lambda>_. [])" using u(4)
    by (auto simp: qrep_def queues_ok_def links_ok_def elems_def zero_queue_def)
  moreover have "guarded sem_free (MessageQueueOf 5) ?s"
    by (simp add: guarded_def sem_free_def waiters_none_def zero_queue_def)
  ultimately have "\<exists>t. RtlDestroyQueue (IpcLockSemaphore (\<lambda>s. None)) IpcUnlockSemaphore IpcDestroySemaphore (MessageQueueOf 5) ?s = Some t \<and>
     live t = {}"
    using queue_destroy_frees [of ?s "\<lambda>_. []" "\<lambda>_. []" "MessageQueueOf 5" p "\<lambda>s. None"] u(3) by (simp add: owns_def) blast
  moreover have "live ?s \<noteq> {}" using u(3) by simp
  ultimately show ?thesis by blast
qed

text \<open>
  Popping at the back of an empty queue still counts down: the counter becomes -1, and after the next
  push it is 0 although an element is in the queue, so popping at the front finds nothing.
\<close>

theorem queue_counter_underflow:
  assumes "qrep s Q A" and "guarded sem_free q s" and "A q = []" and "q_cur_num (queues s q) = 0"
    and "RtlPopBackQueue (IpcLockSemaphore swapctx) IpcUnlockSemaphore q s = Some (p, s1)"
    and "RtlPushFrontQueue (IpcLockSemaphore swapctx) IpcUnlockSemaphore q x s1 = Some (0, s2)"
  shows "sint (q_cur_num (queues s1 q)) = - 1 \<and> (\<exists>Q'. qrep s2 Q' (A(q := [x]))) \<and>
    RtlPopFrontQueue (IpcLockSemaphore swapctx) IpcUnlockSemaphore q s2 = Some (0, s2)"
proof -
  obtain t where t: "RtlPopBackQueue (IpcLockSemaphore swapctx) IpcUnlockSemaphore q s = Some (if A q = [] then 0 else hd (A q), t)"
    "qrep t (Q(q := tl (Q q))) (A(q := tl (A q)))" "guarded sem_free q t"
    "queue_rest (queues t q) = queue_rest ((queues s q)\<lparr>q_cur_num := q_cur_num (queues s q) - 1\<rparr>)"
    by (rule sem.pop_back [OF assms(1,2), of swapctx])
  with assms(5) have t1: "t = s1" by simp
  have c1: "q_cur_num (queues s1 q) = - 1"
    using arg_cong [OF t(4), of q_cur_num] assms(4) by (simp add: t1 queue_rest_def)
  have r1: "qrep s1 (Q(q := tl (Q q))) (A(q := tl (A q)))" "guarded sem_free q s1" using t by (simp_all add: t1)
  have "(\<exists>Q'. qrep s2 Q' (A(q := [x]))) \<and> q_cur_num (queues s2 q) = 0"
  proof (rule sem.push_front [OF r1, of swapctx x])
    fix t assume "RtlPushFrontQueue (IpcLockSemaphore swapctx) IpcUnlockSemaphore q x s1 = Some (- ERR_NOMEM, t)"
    with assms(6) show ?thesis by simp
  next
    fix t nod
    assume "RtlPushFrontQueue (IpcLockSemaphore swapctx) IpcUnlockSemaphore q x s1 = Some (0, t)"
      "qrep t ((Q(q := tl (Q q)))(q := (Q(q := tl (Q q))) q @ [nod])) ((A(q := tl (A q)))(q := (A(q := tl (A q))) q @ [x]))"
      "queue_rest (queues t q) = queue_rest ((queues s1 q)\<lparr>q_cur_num := q_cur_num (queues s1 q) + 1\<rparr>)"
    with assms(3,6) c1 show ?thesis
      by (auto simp: queue_rest_def dest: arg_cong [where f = q_cur_num])
  qed
  moreover have "sint (- 1 :: u32) = - 1" by simp
  ultimately show ?thesis using c1 by (simp add: RtlPopFrontQueue_def)
qed

theorem queue_counter_underflow_witness:
  "\<exists>(s1 :: kernel) s2. q_cur_num (queues s1 (MessageQueueOf 5)) = - 1 \<and>
     RtlPopFrontQueue (IpcLockSemaphore (\<lambda>s. None)) IpcUnlockSemaphore (MessageQueueOf 5) s2 = Some (0, s2)"
proof -
  let ?q = "MessageQueueOf 5" and ?l = "IpcLockSemaphore (\<lambda>s. None)"
  obtain s1 where s1: "RtlPopBackQueue ?l IpcUnlockSemaphore ?q kernel_mq = Some (0, s1)"
    "qrep s1 (\<lambda>_. []) (\<lambda>_. [])" "guarded sem_free ?q s1" "live s1 = {}"
    "queue_rest (queues s1 ?q) = queue_rest ((queues kernel_mq ?q)\<lparr>q_cur_num := - 1\<rparr>)"
    by (rule sem.pop_back [OF kernel_mq_rep kernel_mq_free, of "\<lambda>s. None"])
      (simp add: fun_upd_idem kernel_mq_def zero_queue_def kernel0_live)
  have s1e: "nodes s1 = nodes kernel0" "first_node s1 = first_node kernel0" "free_table s1 = free_table kernel0"
    "MmGetCurrentSpace s1 = 0"
    using s1(1) by (auto simp: RtlPopBackQueue_def queue_lock_def kernel_mq_def zero_queue_def IpcLockSemaphore_def
        IpcUnlockSemaphore_def ArLocalSaveIrq_def ArLocalRestoreIrq_def unlink_back_def Let_def upd_queue_def
        MmGetCurrentSpace_def TmGetCurrentThread_def kernel_raw_def)
  have c: "q_cur_num (queues s1 ?q) = - 1" "q_max_num (queues s1 ?q) = 100"
    using arg_cong [OF s1(5), of q_cur_num] arg_cong [OF s1(5), of q_max_num]
    by (simp_all add: queue_rest_def kernel_mq_def zero_queue_def)
  have "\<exists>s2. RtlPushFrontQueue ?l IpcUnlockSemaphore ?q 42 s1 = Some (0, s2)"
  proof (rule sem.push_front [OF s1(2,3), of "\<lambda>s. None" 42])
    assume "full ?q s1 \<or> (\<exists>t. MmAllocateKernelMemory SIZEOF_KQueueNode s1 = Some (0, t))"
    moreover have "\<not> full ?q s1" by (simp add: full_def c)
    moreover have "MmAllocateKernelMemory SIZEOF_KQueueNode s1 = mm_alloc SIZEOF_KQueueNode s1"
      by (rule MmAllocateKernelMemory_boot [OF s1e(4)]) simp
    moreover obtain p u where "mm_alloc SIZEOF_KQueueNode s1 = Some (p, u)" "p \<noteq> 0"
      by (rule kernel0_alloc [of s1 SIZEOF_KQueueNode]) (simp_all add: s1e)
    ultimately show ?thesis by auto
  qed blast
  then obtain s2 where "RtlPushFrontQueue ?l IpcUnlockSemaphore ?q 42 s1 = Some (0, s2)" by blast
  from queue_counter_underflow [OF kernel_mq_rep kernel_mq_free _ _ s1(1) this]
  have "RtlPopFrontQueue ?l IpcUnlockSemaphore ?q s2 = Some (0, s2)" by (simp add: kernel_mq_def zero_queue_def)
  with c(1) show ?thesis by blast
qed

text \<open>
  (C16) Unlocking a semaphore that threads wait for hands it to the one that has waited longest: it
  leaves the wait queue, becomes ready, the value goes up by one, and the other waiters stay in order.
\<close>

theorem unlock_wakes_longest:
  assumes "qrep s Q A" and "\<not> q_use_sem (queues s (WaitQueue m))" and "A (WaitQueue m) = t # ts" and "t \<noteq> 0"
    and "th_ThreadState (threads s t) = TS_SLEEP \<or> th_ThreadState (threads s t) = TS_WAIT"
  shows "\<exists>s' Q'. IpcUnlockSemaphore m s = Some s' \<and> qrep s' Q' (A(WaitQueue m := ts)) \<and>
    th_ThreadState (threads s' t) = TS_READY \<and> sem_value s' = (sem_value s)(m := sem_value s m + 1) \<and>
    irq_enabled s' = irq_enabled s"
  using assms by (rule unlock_wakes)

text \<open>A kernel in which thread 9 waits for the semaphore of thread 5.\<close>

lemma kernel_waiter:
  obtains s Q A where "qrep s Q A" "\<not> q_use_sem (queues s (WaitQueue (ThreadSemaphore 5)))"
    "A (WaitQueue (ThreadSemaphore 5)) = [9]" "th_ThreadState (threads s 9) = TS_SLEEP"
proof -
  let ?q = "WaitQueue (ThreadSemaphore 5)"
  let ?s = "kernel0\<lparr>queues := (\<lambda>_. zero_queue)(?q := zero_queue\<lparr>q_max_num := 100\<rparr>),
    threads := (\<lambda>_. zero_thread\<lparr>th_ThreadState := TS_SLEEP\<rparr>)\<rparr>"
  have r: "qrep ?s (\<lambda>_. []) (\<lambda>_. [])" using kernel0_ok
    by (auto simp: qrep_def queues_ok_def links_ok_def elems_def zero_queue_def)
  have g: "guarded (\<lambda>_ _. False) ?q ?s" by (simp add: zero_queue_def)
  show thesis
  proof (rule nolock.push_front [OF r g, of 9])
    assume "full ?q ?s \<or> (\<exists>t. MmAllocateKernelMemory SIZEOF_KQueueNode ?s = Some (0, t))"
    moreover have "\<not> full ?q ?s" by (simp add: full_def zero_queue_def)
    moreover have "MmAllocateKernelMemory SIZEOF_KQueueNode ?s = mm_alloc SIZEOF_KQueueNode ?s"
      by (rule MmAllocateKernelMemory_boot) (simp_all add: MmGetCurrentSpace_def TmGetCurrentThread_def kernel_raw_def)
    moreover obtain p u where "mm_alloc SIZEOF_KQueueNode ?s = Some (p, u)" "p \<noteq> 0"
      by (rule kernel0_alloc [of ?s SIZEOF_KQueueNode]) simp_all
    ultimately show thesis by auto
  next
    fix t nod
    assume t: "RtlPushFrontQueue no_lock no_lock ?q 9 ?s = Some (0, t)"
      "qrep t ((\<lambda>_. [])(?q := [] @ [nod])) ((\<lambda>_. [])(?q := [] @ [9]))" "guarded (\<lambda>_ _. False) ?q t"
    show thesis
      by (rule that [OF t(2)]) (use t(3) push_front_threads(1) [OF t(1)] in simp_all)
  qed
qed

theorem unlock_wakes_longest_witness:
  "\<exists>s s'. th_ThreadState (threads s 9) = TS_SLEEP \<and> IpcUnlockSemaphore (ThreadSemaphore 5) s = Some s' \<and>
     th_ThreadState (threads s' 9) = TS_READY"
proof -
  obtain s Q A where k: "qrep s Q A" "\<not> q_use_sem (queues s (WaitQueue (ThreadSemaphore 5)))"
    "A (WaitQueue (ThreadSemaphore 5)) = [9]" "th_ThreadState (threads s 9) = TS_SLEEP" by (rule kernel_waiter)
  from unlock_wakes_longest [OF k(1,2,3)] k(4) show ?thesis by auto
qed

text \<open>
  Locking a semaphore whose value is not 1 puts the calling thread at the end of the wait queue, with
  interrupts off and the value one lower, and then to sleep without a time limit; locking returns
  when that sleep returns, with the interrupt flag of the caller. So a value of 2 or more blocks, too.
\<close>

theorem lock_waits_in_order:
  assumes "qrep s Q A" and "\<not> q_use_sem (queues s (WaitQueue m))" and "sem_value s m \<noteq> 1"
    and "\<not> full (WaitQueue m) s"
    and "\<And>t. MmAllocateKernelMemory SIZEOF_KQueueNode (s\<lparr>irq_enabled := False,
         sem_value := (sem_value s)(m := sem_value s m - 1)\<rparr>) \<noteq> Some (0, t)"
  shows "\<exists>s' Q'. IpcLockSemaphore swapctx m s = do { t \<leftarrow> TmSleepThread swapctx (TmGetCurrentThread s) INFINITE s';
        Some (ArLocalRestoreIrq (irq_enabled s) t) } \<and>
      qrep s' Q' (A(WaitQueue m := A (WaitQueue m) @ [TmGetCurrentThread s])) \<and> threads s' = threads s \<and>
      sem_value s' = (sem_value s)(m := sem_value s m - 1) \<and> ThreadingBox s' = ThreadingBox s \<and> \<not> irq_enabled s'"
  using assms by (rule lock_waits)

theorem lock_waits_in_order_witness:
  "\<exists>s' Q' A'. qrep s' Q' A' \<and> A' (WaitQueue (ThreadSemaphore 5)) = [0] \<and> sem_value s' (ThreadSemaphore 5) = 1"
proof -
  let ?q = "WaitQueue (ThreadSemaphore 5)"
  let ?s = "kernel0\<lparr>queues := (\<lambda>_. zero_queue)(?q := zero_queue\<lparr>q_max_num := 100\<rparr>), sem_value := (\<lambda>_. 2)\<rparr>"
  have r: "qrep ?s (\<lambda>_. []) (\<lambda>_. [])" using kernel0_ok
    by (auto simp: qrep_def queues_ok_def links_ok_def elems_def zero_queue_def)
  let ?t = "?s\<lparr>irq_enabled := False, sem_value := (sem_value ?s)(ThreadSemaphore 5 := sem_value ?s (ThreadSemaphore 5) - 1)\<rparr>"
  have "MmAllocateKernelMemory SIZEOF_KQueueNode ?t = mm_alloc SIZEOF_KQueueNode ?t"
    by (rule MmAllocateKernelMemory_boot) (simp_all add: MmGetCurrentSpace_def TmGetCurrentThread_def kernel_raw_def)
  moreover obtain p u where "mm_alloc SIZEOF_KQueueNode ?t = Some (p, u)" "p \<noteq> 0"
    by (rule kernel0_alloc [of ?t SIZEOF_KQueueNode]) simp_all
  ultimately have "MmAllocateKernelMemory SIZEOF_KQueueNode ?t \<noteq> Some (0, x)" for x by simp
  from lock_waits_in_order [OF r _ _ _ this, of "\<lambda>s. None"] obtain s' Q' where
    "qrep s' Q' ((\<lambda>_. [])(?q := [0]))" "sem_value s' (ThreadSemaphore 5) = 1"
    by (auto simp: full_def zero_queue_def TmGetCurrentThread_def kernel_raw_def)
  then show ?thesis by (intro exI [of _ s'] exI [of _ Q'] exI [of _ "(\<lambda>_. [])(?q := [0])"]) simp
qed

end
