(* ===== verification/VirtMemInv.thy ===== *)
theory VirtMemInv
  imports VirtMem SemaphoreInv
begin

text \<open>
  What the operations of \<open>kernel/mm/virtual.c\<close> do to the list of areas. The areas of a range are ordered
  and disjoint; allocation at any address from below implements first fit on the list of intervals, a
  release takes out the interval that holds the address, and the two cancel. A request for a fixed
  address does not keep the areas disjoint. Two concrete kernels serve the instances.
\<close>

section \<open>Gaps between areas\<close>

text \<open>An area as its address and its size, unbounded; the areas of an address range, in order and
  without overlap; the first gap that holds \<open>n\<close> bytes, with the list that results.\<close>

type_synonym area = "nat \<times> nat"

fun ordered_areas :: "nat \<Rightarrow> area list \<Rightarrow> nat \<Rightarrow> bool" where
  "ordered_areas lo [] hi \<longleftrightarrow> lo \<le> hi"
| "ordered_areas lo ((a, k) # r) hi \<longleftrightarrow> lo \<le> a \<and> 0 < k \<and> ordered_areas (a + k) r hi"

fun first_fit :: "nat \<Rightarrow> nat \<Rightarrow> area list \<Rightarrow> nat \<Rightarrow> (nat \<times> area list) option" where
  "first_fit n lo [] hi = (if lo + n \<le> hi then Some (lo, [(lo, n)]) else None)"
| "first_fit n lo ((a, k) # r) hi =
     (if lo + n \<le> a then Some (lo, (lo, n) # (a, k) # r)
      else map_option (\<lambda>(p, r'). (p, (a, k) # r')) (first_fit n (a + k) r hi))"

fun area_at :: "nat \<Rightarrow> area list \<Rightarrow> area option" where
  "area_at x [] = None"
| "area_at x ((a, k) # r) = (if a \<le> x \<and> x < a + k then Some (a, k) else area_at x r)"

lemma ordered_areas_le: "ordered_areas lo A hi \<Longrightarrow> lo \<le> hi"
  by (induction lo A hi rule: ordered_areas.induct) auto

lemma ordered_areas_in: "ordered_areas lo A hi \<Longrightarrow> (a, k) \<in> set A \<Longrightarrow> lo \<le> a \<and> 0 < k \<and> a + k \<le> hi"
  by (induction lo A hi rule: ordered_areas.induct) (auto dest: ordered_areas_le)

lemma ordered_areas_append:
  "ordered_areas lo (A @ B) hi \<longleftrightarrow> (\<exists>m. ordered_areas lo A m \<and> ordered_areas m B hi)"
proof (induction lo A hi rule: ordered_areas.induct)
  case (1 lo hi)
  show ?case
  proof
    assume "ordered_areas lo ([] @ B) hi"
    then show "\<exists>m. ordered_areas lo [] m \<and> ordered_areas m B hi" by (intro exI [of _ lo]) simp
  next
    assume "\<exists>m. ordered_areas lo [] m \<and> ordered_areas m B hi"
    then show "ordered_areas lo ([] @ B) hi" by (cases B) (auto intro: le_trans)
  qed
qed auto

lemma ordered_areas_weaken: "ordered_areas m B hi \<Longrightarrow> lo \<le> m \<Longrightarrow> ordered_areas lo B hi"
  by (cases B) auto

lemma ordered_areas_drop: "ordered_areas lo (A @ x # B) hi \<Longrightarrow> ordered_areas lo (A @ B) hi"
proof (induction lo A hi rule: ordered_areas.induct)
  case (1 lo hi)
  obtain a k where "x = (a, k)" by (cases x)
  with 1 show ?case using ordered_areas_weaken [of "a + k" B hi lo] by simp
qed simp

lemma first_fit_shape:
  assumes "first_fit n lo A hi = Some (p, A')"
  shows "\<exists>as bs. A = as @ bs \<and> A' = as @ (p, n) # bs"
  using assms
proof (induction n lo A hi arbitrary: A' rule: first_fit.induct)
  case (1 n lo hi)
  then show ?case by (auto split: if_splits)
next
  case (2 n lo a k r hi)
  show ?case
  proof (cases "lo + n \<le> a")
    case True
    with 2(2) have "(a, k) # r = [] @ (a, k) # r \<and> A' = [] @ (p, n) # (a, k) # r" by auto
    then show ?thesis by blast
  next
    case False
    then obtain r' where r: "first_fit n (a + k) r hi = Some (p, r')" "A' = (a, k) # r'" using 2(2) by auto
    from 2(1) [OF False r(1)] obtain as bs where "r = as @ bs" "r' = as @ (p, n) # bs" by blast
    with r(2) show ?thesis by (intro exI [of _ "(a, k) # as"] exI [of _ bs]) simp
  qed
qed

text \<open>First fit keeps the order, so the new area meets no other; it fails only when no gap is large enough.\<close>

lemma first_fit_ordered:
  "first_fit n lo A hi = Some (p, A') \<Longrightarrow> 0 < n \<Longrightarrow> ordered_areas lo A hi \<Longrightarrow> ordered_areas lo A' hi"
  by (induction n lo A hi arbitrary: A' rule: first_fit.induct) (auto split: if_splits dest: ordered_areas_le)

lemma first_fit_None:
  "first_fit n lo A hi = None \<Longrightarrow> ordered_areas lo (as @ (p, n) # bs) hi \<Longrightarrow> A \<noteq> as @ bs"
proof (induction n lo A hi arbitrary: as rule: first_fit.induct)
  case (1 n lo hi)
  then show ?case by (auto split: if_splits)
next
  case (2 n lo a k r hi)
  show ?case
  proof (cases as)
    case Nil
    with 2 show ?thesis by (auto split: if_splits)
  next
    case (Cons c cs)
    with 2 show ?thesis by (cases c) (auto split: if_splits)
  qed
qed

lemma area_at_unique:
  "ordered_areas lo A hi \<Longrightarrow> (a, k) \<in> set A \<Longrightarrow> a \<le> x \<Longrightarrow> x < a + k \<Longrightarrow> area_at x A = Some (a, k)"
proof (induction lo A hi rule: ordered_areas.induct)
  case (2 lo b j r hi)
  then show ?case using ordered_areas_in [of "b + j" r hi a k] by auto
qed simp

lemma area_at_Some: "area_at x A = Some (a, k) \<Longrightarrow> (a, k) \<in> set A \<and> a \<le> x \<and> x < a + k"
  by (induction x A rule: area_at.induct) (auto split: if_splits)


section \<open>The list of areas in memory\<close>

definition area_of :: "(u32 \<Rightarrow> KVirtualMemoryAllocation) \<Rightarrow> u32 \<Rightarrow> area" where
  "area_of h x = (unat (va_VirtualAddress (h x)), unat (va_VirtualSize (h x)))"

text \<open>\<open>vm_list s vm xs\<close>: the areas of \<open>vm\<close> are the cells \<open>xs\<close>, in order of address, all of them live
  blocks of kernel memory. \<open>vm_rep s vm A\<close>: the same by their addresses and sizes.\<close>

definition vm_list :: "kernel \<Rightarrow> vmref \<Rightarrow> u32 list \<Rightarrow> bool" where
  "vm_list s vm xs \<longleftrightarrow>
     dlist (\<lambda>x. va_next (vmas s x)) (\<lambda>x. va_prev (vmas s x)) (vm_FirstAllocation (vms s vm)) (vm_LastAllocation (vms s vm)) xs \<and>
     set xs \<subseteq> live s \<and>
     ordered_areas (unat (vm_LowerLimit (vms s vm))) (map (area_of (vmas s)) xs) (unat (vm_UpperLimit (vms s vm)))"

definition vm_rep :: "kernel \<Rightarrow> vmref \<Rightarrow> area list \<Rightarrow> bool" where
  "vm_rep s vm A \<longleftrightarrow> (\<exists>xs. vm_list s vm xs \<and> A = map (area_of (vmas s)) xs)"

lemma scan_low_fits:
  assumes "dseg nx pv a p xs l 0" and "nx = (\<lambda>x. va_next (h x))"
    and "ordered_areas (unat addr) (map (area_of h) xs) hi" and "hi + unat siz < 2 ^ 32"
  shows "\<exists>ad as bs. scan_low h p addr siz = Some (if bs = [] then 0 else hd bs, ad) \<and> xs = as @ bs \<and> unat ad \<le> hi \<and>
     first_fit (unat siz) (unat addr) (map (area_of h) xs) hi =
       (if bs = [] \<and> hi < unat ad + unat siz then None
        else Some (unat ad, map (area_of h) as @ (unat ad, unat siz) # map (area_of h) bs))"
  using assms(1,3)
proof (induction xs arbitrary: a p addr)
  case Nil
  then show ?case by (simp add: scan_low.simps)
next
  case (Cons x xs)
  have lo: "unat addr \<le> hi" using Cons.prems(2) by (rule ordered_areas_le)
  then have w: "unat (addr + siz) = unat addr + unat siz" using assms(4) by (simp add: unat_plus_if')
  have p: "p = x" "x \<noteq> 0" "dseg nx pv x (va_next (h x)) xs l 0" using Cons.prems(1) assms(2) by auto
  let ?e = "va_VirtualAddress (h x) + va_VirtualSize (h x)"
  have o: "ordered_areas (fst (area_of h x) + snd (area_of h x)) (map (area_of h) xs) hi"
    using Cons.prems(2) by (simp add: area_of_def [of h x])
  then have "fst (area_of h x) + snd (area_of h x) \<le> hi" by (rule ordered_areas_le)
  then have e: "unat ?e = fst (area_of h x) + snd (area_of h x)"
    using assms(4) by (simp add: area_of_def unat_plus_if')
  show ?case
  proof (cases "addr + siz \<le> va_VirtualAddress (h x)")
    case True
    then have "scan_low h p addr siz = Some (x, addr)" using p by (simp add: scan_low.simps)
    moreover have "unat addr + unat siz \<le> fst (area_of h x)" using True w by (simp add: word_le_nat_alt area_of_def)
    ultimately show ?thesis using lo
      by (intro exI [of _ addr] exI [of _ "[]"] exI [of _ "x # xs"]) (simp add: area_of_def)
  next
    case False
    from Cons.IH [OF p(3), of ?e] o e obtain ad as bs where i:
      "scan_low h (va_next (h x)) ?e siz = Some (if bs = [] then 0 else hd bs, ad)" "xs = as @ bs" "unat ad \<le> hi"
      "first_fit (unat siz) (unat ?e) (map (area_of h) xs) hi =
       (if bs = [] \<and> hi < unat ad + unat siz then None
        else Some (unat ad, map (area_of h) as @ (unat ad, unat siz) # map (area_of h) bs))" by metis
    have "scan_low h p addr siz = Some (if bs = [] then 0 else hd bs, ad)" using p False i(1) by (simp add: scan_low.simps)
    moreover have "\<not> unat addr + unat siz \<le> fst (area_of h x)" using False w by (simp add: word_le_nat_alt area_of_def)
    ultimately show ?thesis using i e
      by (intro exI [of _ ad] exI [of _ "x # as"] exI [of _ bs]) (auto simp: area_of_def [of h x])
  qed
qed

text \<open>Linking an area in front of a given one, or at the end.\<close>

definition vma_before :: "kernel \<Rightarrow> vmref \<Rightarrow> u32 \<Rightarrow> u32" where
  "vma_before s vm x = (if x \<noteq> 0 then va_prev (vmas s x) else vm_LastAllocation (vms s vm))"

lemma InsertPreviousVma_links:
  assumes "v \<noteq> x" and "vma_before s vm x \<noteq> v" and "x = 0 \<or> vma_before s vm x \<noteq> x"
  shows "va_next (vmas (InsertPreviousVma vm v x s) z) =
      (if z = v then x else if z = vma_before s vm x \<and> vma_before s vm x \<noteq> 0 then v else va_next (vmas s z))"
    and "va_prev (vmas (InsertPreviousVma vm v x s) z) =
      (if z = v then vma_before s vm x else if z = x \<and> x \<noteq> 0 then v else va_prev (vmas s z))"
    and "vm_FirstAllocation (vms (InsertPreviousVma vm v x s) vm) =
      (if vma_before s vm x = 0 then v else vm_FirstAllocation (vms s vm))"
    and "vm_LastAllocation (vms (InsertPreviousVma vm v x s) vm) = (if x = 0 then v else vm_LastAllocation (vms s vm))"
proof -
  obtain p where p: "vma_before s vm x = p" by simp
  have n: "p \<noteq> v" "v \<noteq> x" "x \<noteq> 0 \<Longrightarrow> p \<noteq> x" using assms by (auto simp: p)
  have e: "InsertPreviousVma vm v x s = (if x \<noteq> 0 then upd_vma x (\<lambda>r. r\<lparr>va_prev := v\<rparr>) (upd_vma v (\<lambda>r. r\<lparr>va_prev := p\<rparr>)
      (let s = upd_vma v (\<lambda>r. r\<lparr>va_next := x\<rparr>) s in if p \<noteq> 0 then upd_vma p (\<lambda>r. r\<lparr>va_next := v\<rparr>) s
       else upd_vm vm (\<lambda>r. r\<lparr>vm_FirstAllocation := v\<rparr>) s))
    else upd_vm vm (\<lambda>r. r\<lparr>vm_LastAllocation := v\<rparr>)
      (let s = upd_vma v (\<lambda>r. r\<lparr>va_prev := p\<rparr>) (upd_vma v (\<lambda>r. r\<lparr>va_next := x\<rparr>) s) in
       if p \<noteq> 0 then upd_vma p (\<lambda>r. r\<lparr>va_next := v\<rparr>) s else upd_vm vm (\<lambda>r. r\<lparr>vm_FirstAllocation := v\<rparr>) s))"
  proof (cases "x = 0")
    case True
    with p show ?thesis by (simp add: InsertPreviousVma_def vma_before_def Let_def)
  next
    case False
    with p n have "va_prev (vmas s x) = p" "p \<noteq> x" by (simp_all add: vma_before_def)
    with False n show ?thesis by (simp add: InsertPreviousVma_def Let_def)
  qed
  show "va_next (vmas (InsertPreviousVma vm v x s) z) = (if z = v then x else if z = vma_before s vm x \<and> vma_before s vm x \<noteq> 0 then v else va_next (vmas s z))"
    and "va_prev (vmas (InsertPreviousVma vm v x s) z) =
      (if z = v then vma_before s vm x else if z = x \<and> x \<noteq> 0 then v else va_prev (vmas s z))"
    and "vm_FirstAllocation (vms (InsertPreviousVma vm v x s) vm) =
      (if vma_before s vm x = 0 then v else vm_FirstAllocation (vms s vm))"
    and "vm_LastAllocation (vms (InsertPreviousVma vm v x s) vm) = (if x = 0 then v else vm_LastAllocation (vms s vm))"
    unfolding p e using n by (cases "x = 0"; cases "p = 0"; simp add: Let_def)+
qed

lemma link_keeps:
  "va_VirtualAddress (vmas (upd_vma a (\<lambda>r. r\<lparr>va_next := x\<rparr>) s) z) = va_VirtualAddress (vmas s z)"
  "va_VirtualAddress (vmas (upd_vma a (\<lambda>r. r\<lparr>va_prev := x\<rparr>) s) z) = va_VirtualAddress (vmas s z)"
  "va_VirtualSize (vmas (upd_vma a (\<lambda>r. r\<lparr>va_next := x\<rparr>) s) z) = va_VirtualSize (vmas s z)"
  "va_VirtualSize (vmas (upd_vma a (\<lambda>r. r\<lparr>va_prev := x\<rparr>) s) z) = va_VirtualSize (vmas s z)"
  "vm_LowerLimit (vms (upd_vm v (\<lambda>r. r\<lparr>vm_FirstAllocation := x\<rparr>) s) w) = vm_LowerLimit (vms s w)"
  "vm_LowerLimit (vms (upd_vm v (\<lambda>r. r\<lparr>vm_LastAllocation := x\<rparr>) s) w) = vm_LowerLimit (vms s w)"
  "vm_UpperLimit (vms (upd_vm v (\<lambda>r. r\<lparr>vm_FirstAllocation := x\<rparr>) s) w) = vm_UpperLimit (vms s w)"
  "vm_UpperLimit (vms (upd_vm v (\<lambda>r. r\<lparr>vm_LastAllocation := x\<rparr>) s) w) = vm_UpperLimit (vms s w)"
  by simp_all

lemma InsertPreviousVma_keeps:
  "va_VirtualAddress (vmas (InsertPreviousVma vm v x s) z) = va_VirtualAddress (vmas s z)"
  "va_VirtualSize (vmas (InsertPreviousVma vm v x s) z) = va_VirtualSize (vmas s z)"
  "vm_LowerLimit (vms (InsertPreviousVma vm v x s) w) = vm_LowerLimit (vms s w)"
  "vm_UpperLimit (vms (InsertPreviousVma vm v x s) w) = vm_UpperLimit (vms s w)"
  "heap_ok (InsertPreviousVma vm v x s) = heap_ok s" "live (InsertPreviousVma vm v x s) = live s"
  "sem_value (InsertPreviousVma vm v x s) = sem_value s" "queues (InsertPreviousVma vm v x s) = queues s"
  "MmGetCurrentSpace (InsertPreviousVma vm v x s) = MmGetCurrentSpace s"
  by (simp_all add: InsertPreviousVma_def Let_def link_keeps MmGetCurrentSpace_def TmGetCurrentThread_def del: upd_get split: if_split)

lemma unlink_vma_links:
  assumes "v \<noteq> va_next (vmas s v)" and "v \<noteq> va_prev (vmas s v)"
  shows "z \<noteq> v \<Longrightarrow> va_next (vmas (unlink_vma vm v s) z) =
      (if z = va_prev (vmas s v) \<and> va_prev (vmas s v) \<noteq> 0 then va_next (vmas s v) else va_next (vmas s z))"
    and "z \<noteq> v \<Longrightarrow> va_prev (vmas (unlink_vma vm v s) z) =
      (if z = va_next (vmas s v) \<and> va_next (vmas s v) \<noteq> 0 then va_prev (vmas s v) else va_prev (vmas s z))"
    and "vm_FirstAllocation (vms (unlink_vma vm v s) vm) =
      (if va_prev (vmas s v) = 0 then va_next (vmas s v) else vm_FirstAllocation (vms s vm))"
    and "vm_LastAllocation (vms (unlink_vma vm v s) vm) =
      (if va_next (vmas s v) = 0 then va_prev (vmas s v) else vm_LastAllocation (vms s vm))"
proof -
  obtain p x where p: "va_prev (vmas s v) = p" "va_next (vmas s v) = x" by simp
  have n: "p \<noteq> v" "v \<noteq> x" using assms by (simp_all add: p)
  have e: "unlink_vma vm v s = (let s = (if p \<noteq> 0 then upd_vma p (\<lambda>r. r\<lparr>va_next := x\<rparr>) s else upd_vm vm (\<lambda>r. r\<lparr>vm_FirstAllocation := x\<rparr>) s)
     in if x \<noteq> 0 then upd_vma x (\<lambda>r. r\<lparr>va_prev := p\<rparr>) s else upd_vm vm (\<lambda>r. r\<lparr>vm_LastAllocation := p\<rparr>) s)"
    using p n by (cases "p = 0") (simp_all add: unlink_vma_def Let_def)
  show "z \<noteq> v \<Longrightarrow> va_next (vmas (unlink_vma vm v s) z) =
      (if z = va_prev (vmas s v) \<and> va_prev (vmas s v) \<noteq> 0 then va_next (vmas s v) else va_next (vmas s z))"
    and "z \<noteq> v \<Longrightarrow> va_prev (vmas (unlink_vma vm v s) z) =
      (if z = va_next (vmas s v) \<and> va_next (vmas s v) \<noteq> 0 then va_prev (vmas s v) else va_prev (vmas s z))"
    and "vm_FirstAllocation (vms (unlink_vma vm v s) vm) =
      (if va_prev (vmas s v) = 0 then va_next (vmas s v) else vm_FirstAllocation (vms s vm))"
    and "vm_LastAllocation (vms (unlink_vma vm v s) vm) =
      (if va_next (vmas s v) = 0 then va_prev (vmas s v) else vm_LastAllocation (vms s vm))"
    unfolding p e using n by (cases "x = 0"; cases "p = 0"; simp add: Let_def)+
qed

lemma unlink_vma_keeps:
  "va_VirtualAddress (vmas (unlink_vma vm v s) z) = va_VirtualAddress (vmas s z)"
  "va_VirtualSize (vmas (unlink_vma vm v s) z) = va_VirtualSize (vmas s z)"
  "vm_LowerLimit (vms (unlink_vma vm v s) w) = vm_LowerLimit (vms s w)"
  "vm_UpperLimit (vms (unlink_vma vm v s) w) = vm_UpperLimit (vms s w)"
  "heap_ok (unlink_vma vm v s) = heap_ok s" "live (unlink_vma vm v s) = live s"
  "sem_value (unlink_vma vm v s) = sem_value s" "queues (unlink_vma vm v s) = queues s"
  by (simp_all add: unlink_vma_def Let_def link_keeps del: upd_get split: if_split)

text \<open>Taking an area up and giving it back.\<close>

lemma vm_list_insert:
  assumes l: "vm_list s vm (as @ bs)" and v: "v \<noteq> 0" "v \<notin> set as" "v \<notin> set bs"
    and t: "t = InsertPreviousVma vm v (if bs = [] then 0 else hd bs) s"
  shows "dlist (\<lambda>x. va_next (vmas t x)) (\<lambda>x. va_prev (vmas t x)) (vm_FirstAllocation (vms t vm))
     (vm_LastAllocation (vms t vm)) (as @ v # bs)"
proof -
  let ?x = "if bs = [] then 0 else hd bs" let ?p = "if as = [] then 0 else last as"
  have d: "dlist (\<lambda>x. va_next (vmas s x)) (\<lambda>x. va_prev (vmas s x)) (vm_FirstAllocation (vms s vm)) (vm_LastAllocation (vms s vm)) (as @ bs)"
    using l by (simp add: vm_list_def)
  have nz: "0 \<notin> set as" "0 \<notin> set bs" "distinct (as @ bs)" using dlist_nonzero [OF d] dlist_distinct [OF d] by auto
  have p: "vma_before s vm ?x = ?p"
  proof (cases bs)
    case Nil
    then show ?thesis using dlist_ends(2) [OF d] by (simp add: vma_before_def)
  next
    case (Cons y ys)
    then show ?thesis using dlist_links(2) [OF d [unfolded Cons]] nz by (auto simp: vma_before_def)
  qed
  have m: "?p = 0 \<or> ?p \<in> set as" "?x = 0 \<or> ?x \<in> set bs" by auto
  have dj: "\<And>z. z \<in> set as \<Longrightarrow> z \<notin> set bs" using nz by auto
  have n: "v \<noteq> ?x" "vma_before s vm ?x \<noteq> v" "?x = 0 \<or> vma_before s vm ?x \<noteq> ?x"
    unfolding p using m v dj by metis+
  show ?thesis unfolding t InsertPreviousVma_links(3,4) [OF n]
    by (rule dlist_link [OF d v refl p]) (rule InsertPreviousVma_links(1,2) [OF n])+
qed

lemma vm_list_unlink:
  assumes l: "vm_list s vm (as @ v # bs)"
  shows "vm_list (unlink_vma vm v s) vm (as @ bs)"
proof -
  have d: "dlist (\<lambda>x. va_next (vmas s x)) (\<lambda>x. va_prev (vmas s x)) (vm_FirstAllocation (vms s vm)) (vm_LastAllocation (vms s vm)) (as @ v # bs)"
    using l by (simp add: vm_list_def)
  have nz: "0 \<notin> set (as @ v # bs)" "distinct (as @ v # bs)" using dlist_nonzero [OF d] dlist_distinct [OF d] by auto
  have n: "v \<noteq> va_next (vmas s v)" "v \<noteq> va_prev (vmas s v)"
    using nz dlist_links [OF d] by (auto split: if_splits)
  have a: "area_of (vmas (unlink_vma vm v s)) = area_of (vmas s)"
    by (rule ext) (simp add: area_of_def unlink_vma_keeps)
  have "ordered_areas lo (map f as @ f v # map f bs) hi \<Longrightarrow> ordered_areas lo (map f as @ map f bs) hi" for lo hi and f :: "u32 \<Rightarrow> area"
    by (rule ordered_areas_drop)
  then show ?thesis using l dlist_unlink [OF d unlink_vma_links(1,2) [OF n]]
    by (auto simp: vm_list_def unlink_vma_links(3,4) [OF n] unlink_vma_keeps a)
qed

section \<open>Finding an area\<close>

lemma area_word:
  assumes "ordered_areas lo (map (area_of h) xs) hi" and "hi < 2 ^ 32" and "y \<in> set xs"
  shows "(va_VirtualAddress (h y) \<le> x \<and> x < va_VirtualAddress (h y) + va_VirtualSize (h y)) \<longleftrightarrow>
    (fst (area_of h y) \<le> unat x \<and> unat x < fst (area_of h y) + snd (area_of h y))"
proof -
  have "(fst (area_of h y), snd (area_of h y)) \<in> set (map (area_of h) xs)" using assms(3) by simp
  from ordered_areas_in [OF assms(1) this] assms(2) show ?thesis
    by (simp add: area_of_def word_le_nat_alt word_less_nat_alt unat_plus_if')
qed

lemma scan_vma_find:
  assumes "dseg nx (\<lambda>x. va_prev (h x)) 0 p xs l z"
    and "\<And>y. y \<in> set xs \<Longrightarrow> (va_VirtualAddress (h y) \<le> x \<and> x < va_VirtualAddress (h y) + va_VirtualSize (h y)) \<longleftrightarrow> P y"
  shows "scan_vma h l x = Some (case find P (rev xs) of None \<Rightarrow> 0 | Some y \<Rightarrow> y)"
  using assms
proof (induction xs arbitrary: l z rule: rev_induct)
  case Nil
  then show ?case by (simp add: scan_vma.simps)
next
  case (snoc y xs)
  from snoc.prems(1) obtain m where m: "dseg nx (\<lambda>x. va_prev (h x)) 0 p xs m y" "y \<noteq> 0" "va_prev (h y) = m" "l = y"
    by (auto simp: dseg_snoc)
  have i: "scan_vma h m x = Some (case find P (rev xs) of None \<Rightarrow> 0 | Some y \<Rightarrow> y)"
    by (rule snoc.IH [OF m(1)]) (use snoc.prems(2) in auto)
  have "(va_VirtualAddress (h y) \<le> x \<and> x < va_VirtualAddress (h y) + va_VirtualSize (h y)) \<longleftrightarrow> P y"
    using snoc.prems(2) by simp
  then show ?case using m i by (subst scan_vma.simps) auto
qed

lemma find_in: "find P (rev xs) = Some y \<Longrightarrow> y \<in> set xs"
  by (metis find_Some_iff nth_mem set_rev length_rev)

lemma area_at_split:
  assumes "ordered_areas lo (map f xs) hi" and "find (\<lambda>y. fst (f y) \<le> x \<and> x < fst (f y) + snd (f y)) (rev xs) = r"
  shows "area_at x (map f xs) = map_option f r"
proof (cases r)
  case None
  then have n: "y \<in> set xs \<Longrightarrow> \<not> (fst (f y) \<le> x \<and> x < fst (f y) + snd (f y))" for y
    using assms(2) by (simp add: find_None_iff)
  have "area_at x (map f xs) = None"
  proof (rule ccontr)
    assume "area_at x (map f xs) \<noteq> None"
    then obtain a k where "area_at x (map f xs) = Some (a, k)" by auto
    from area_at_Some [OF this] obtain y where "y \<in> set xs" "f y = (a, k)" "a \<le> x" "x < a + k" by auto
    with n [of y] show False by simp
  qed
  with None show ?thesis by simp
next
  case (Some y)
  then have y: "y \<in> set xs" "fst (f y) \<le> x" "x < fst (f y) + snd (f y)"
    using assms(2) by (auto simp: find_Some_iff) (metis nth_mem set_rev length_rev)+
  then have "area_at x (map f xs) = Some (fst (f y), snd (f y))"
    by (intro area_at_unique [OF assms(1)]) auto
  with Some show ?thesis by simp
qed

lemma scan_vma_area:
  assumes "vm_list s vm xs"
  shows "\<exists>v. scan_vma (vmas s) (vm_LastAllocation (vms s vm)) x = Some v \<and> (v \<noteq> 0 \<longrightarrow> v \<in> set xs) \<and>
    area_at (unat x) (map (area_of (vmas s)) xs) = (if v = 0 then None else Some (area_of (vmas s) v))"
proof -
  let ?f = "area_of (vmas s)"
  let ?P = "\<lambda>y. fst (?f y) \<le> unat x \<and> unat x < fst (?f y) + snd (?f y)"
  have d: "dlist (\<lambda>x. va_next (vmas s x)) (\<lambda>x. va_prev (vmas s x)) (vm_FirstAllocation (vms s vm)) (vm_LastAllocation (vms s vm)) xs"
    and o: "ordered_areas (unat (vm_LowerLimit (vms s vm))) (map ?f xs) (unat (vm_UpperLimit (vms s vm)))"
    using assms by (simp_all add: vm_list_def)
  have u: "unat (vm_UpperLimit (vms s vm)) < 2 ^ 32" using unsigned_less [of "vm_UpperLimit (vms s vm)"] by simp
  have "scan_vma (vmas s) (vm_LastAllocation (vms s vm)) x = Some (case find ?P (rev xs) of None \<Rightarrow> 0 | Some y \<Rightarrow> y)"
    by (rule scan_vma_find [OF conjunct1 [OF d [unfolded dlist_def]] area_word [OF o u]])
  moreover have "area_at (unat x) (map ?f xs) = map_option ?f (find ?P (rev xs))"
    by (rule area_at_split [OF o refl])
  moreover have "find ?P (rev xs) = Some y \<Longrightarrow> y \<in> set xs" for y
    by (rule find_in)
  moreover have "y \<in> set xs \<Longrightarrow> y \<noteq> 0" for y using dlist_nonzero [OF d] by auto
  ultimately show ?thesis by (cases "find ?P (rev xs)") force+
qed

section \<open>The access lock\<close>

text \<open>The state after an uncontended critical section: only the bookkeeping of the lock differs.\<close>

definition lock_touched :: "semref \<Rightarrow> kernel \<Rightarrow> kernel" where
  "lock_touched m s = s\<lparr>sem_value := (sem_value s)(m := 1),
     queues := (queues s)(WaitQueue m := (queues s (WaitQueue m))\<lparr>q_cur_num := q_cur_num (queues s (WaitQueue m)) - 1\<rparr>)\<rparr>"

lemma lock_touched_keeps [simp]:
  "vmas (lock_touched m s) = vmas s" "vms (lock_touched m s) = vms s" "heap_ok (lock_touched m s) = heap_ok s"
  "live (lock_touched m s) = live s" "vm_list (lock_touched m s) vm xs = vm_list s vm xs"
  by (simp_all add: lock_touched_def vm_list_def)

lemma lock_touched_free: "sem_free m s \<Longrightarrow> sem_free m (lock_touched m s)"
  by (simp add: lock_touched_def sem_free_def waiters_none_def)

lemma lock_enter: "sem_free m s \<Longrightarrow> IpcLockSemaphore swapctx m s = Some (s\<lparr>sem_value := (sem_value s)(m := 0)\<rparr>)"
  by (simp add: sem_free_def lock_free)

lemma lock_leave:
  assumes "sem_free m s" and "sem_value t = (sem_value s)(m := 0)" and "queues t = queues s"
  shows "IpcUnlockSemaphore m t = Some (lock_touched m t)" and "sem_free m (lock_touched m t)"
  using assms by (simp_all add: unlock_no_waiters waiters_none_def sem_free_def lock_touched_def)

lemma MmGetVmaByAddress_spec:
  assumes "vm_list s vm xs" and "sem_free (AccessLock vm) s"
  shows "\<exists>v. MmGetVmaByAddress swapctx vm x s = Some (v, lock_touched (AccessLock vm) s) \<and> (v \<noteq> 0 \<longrightarrow> v \<in> set xs) \<and>
    area_at (unat x) (map (area_of (vmas s)) xs) = (if v = 0 then None else Some (area_of (vmas s) v))"
proof -
  from scan_vma_area [OF assms(1)] obtain v where v: "scan_vma (vmas s) (vm_LastAllocation (vms s vm)) x = Some v"
    "v \<noteq> 0 \<longrightarrow> v \<in> set xs" "area_at (unat x) (map (area_of (vmas s)) xs) = (if v = 0 then None else Some (area_of (vmas s) v))"
    by blast
  let ?t = "s\<lparr>sem_value := (sem_value s)(AccessLock vm := 0)\<rparr>"
  have "IpcUnlockSemaphore (AccessLock vm) ?t = Some (lock_touched (AccessLock vm) ?t)"
    by (rule lock_leave(1) [OF assms(2)]) simp_all
  moreover have "lock_touched (AccessLock vm) ?t = lock_touched (AccessLock vm) s" by (simp add: lock_touched_def)
  ultimately show ?thesis using v lock_enter [OF assms(2), of swapctx] by (simp add: MmGetVmaByAddress_def)
qed


section \<open>Allocating and releasing\<close>

lemma vm_list_cong:
  assumes "vms t = vms s" and "live t = live s" and "vmas t = vmas s"
  shows "vm_list t vm xs = vm_list s vm xs"
  using assms by (simp add: vm_list_def)

lemma vm_list_new:
  fixes attr flag :: u32
  assumes l: "vm_list s vm (as @ bs)" and v: "v \<noteq> 0" "v \<notin> set as" "v \<notin> set bs" "v \<in> live s"
    and a: "ordered_areas (unat (vm_LowerLimit (vms s vm)))
      (map (area_of (vmas s)) as @ (unat ad, unat siz) # map (area_of (vmas s)) bs) (unat (vm_UpperLimit (vms s vm)))"
  defines "t \<equiv> upd_vma v (\<lambda>r. r\<lparr>va_VirtualAddress := ad, va_VirtualSize := siz, va_MemoryAttribute := attr,
      va_AllocationFlag := flag\<rparr>) (InsertPreviousVma vm v (if bs = [] then 0 else hd bs) s)"
  shows "vm_list t vm (as @ v # bs)"
    and "map (area_of (vmas t)) (as @ v # bs) =
      map (area_of (vmas s)) as @ (unat ad, unat siz) # map (area_of (vmas s)) bs"
proof -
  let ?i = "InsertPreviousVma vm v (if bs = [] then 0 else hd bs) s"
  have e: "va_next (vmas t x) = va_next (vmas ?i x)" "va_prev (vmas t x) = va_prev (vmas ?i x)" "vms t = vms ?i"
    "live t = live s" for x
    by (simp_all add: t_def InsertPreviousVma_keeps)
  have f: "area_of (vmas t) x = (if x = v then (unat ad, unat siz) else area_of (vmas s) x)" for x
    by (simp add: t_def area_of_def InsertPreviousVma_keeps)
  show m: "map (area_of (vmas t)) (as @ v # bs) =
      map (area_of (vmas s)) as @ (unat ad, unat siz) # map (area_of (vmas s)) bs"
    using v by (auto simp: f)
  have "set (as @ bs) \<subseteq> live s" using l by (simp add: vm_list_def)
  then show "vm_list t vm (as @ v # bs)"
    unfolding vm_list_def m using vm_list_insert [OF l v(1-3) refl] a v(4)
    by (simp add: e InsertPreviousVma_keeps)
qed

lemma MmAllocateVirtualMemory_spec:
  assumes ok: "heap_ok s" and rep: "vm_rep s vm A" and lk: "sem_free (AccessLock vm) s"
    and flag: "flag AND ALLOC_RANDOM \<noteq> 0" "flag AND ALLOC_HIGHMEM = 0"
    and siz: "PAGE_SIZE \<le> siz" "siz mod PAGE_SIZE = 0"
    and bound: "unat (vm_UpperLimit (vms s vm)) + unat siz < 2 ^ 32"
  shows "\<exists>r s'. MmAllocateVirtualMemory swapctx vm addr siz attr flag s = Some (r, s') \<and> heap_ok s' \<and>
    sem_free (AccessLock vm) s' \<and>
    vm_LowerLimit (vms s' vm) = vm_LowerLimit (vms s vm) \<and> vm_UpperLimit (vms s' vm) = vm_UpperLimit (vms s vm) \<and>
    (case first_fit (unat siz) (unat (vm_LowerLimit (vms s vm))) A (unat (vm_UpperLimit (vms s vm))) of
      None \<Rightarrow> r = 0 \<and> vm_rep s' vm A
    | Some (p, A') \<Rightarrow> if \<exists>s1. MmAllocateKernelMemory SIZEOF_VMA s = Some (0, s1) then r = 0 \<and> vm_rep s' vm A
        else unat r = p \<and> vm_rep s' vm A')"
proof -
  let ?m = "AccessLock vm" let ?lo = "unat (vm_LowerLimit (vms s vm))" let ?hi = "unat (vm_UpperLimit (vms s vm))"
  obtain xs where xs: "vm_list s vm xs" "A = map (area_of (vmas s)) xs" using rep by (auto simp: vm_rep_def)
  have s0: "\<not> (siz < PAGE_SIZE \<or> siz mod PAGE_SIZE \<noteq> 0)" using siz by auto
  obtain v t where t: "MmAllocateKernelMemory SIZEOF_VMA s = Some (v, t)" using kmem.alloc_returns [OF ok] by blast
  note fr = MmAllocateKernelMemory_frame [OF t] and hp = MmAllocateKernelMemory_heap [OF ok t]
  show ?thesis
  proof (cases "v = 0")
    case True
    have l: "vm_list t vm xs" using xs(1) fr hp True by (simp add: vm_list_def)
    have "sem_free ?m t" using lk fr by (simp add: sem_free_def waiters_none_def)
    with l xs t True s0 hp(1) fr show ?thesis
      by (intro exI [of _ 0] exI [of _ t]) (auto simp: MmAllocateVirtualMemory_def vm_rep_def split: option.split)
  next
    case False
    then have lv: "v \<notin> live s" "live t = insert v (live s)" using hp by auto
    have vx: "v \<notin> set xs" using lv xs(1) by (auto simp: vm_list_def)
    have l: "vm_list t vm xs" using xs(1) fr lv by (auto simp: vm_list_def)
    have lkt: "sem_free ?m t" using lk fr by (simp add: sem_free_def waiters_none_def)
    let ?t = "t\<lparr>sem_value := (sem_value t)(?m := 0)\<rparr>"
    have lt: "vm_list ?t vm xs" using l by (simp add: vm_list_def)
    have dx: "dseg (\<lambda>x. va_next (vmas s x)) (\<lambda>x. va_prev (vmas s x)) 0 (vm_FirstAllocation (vms s vm)) xs (vm_LastAllocation (vms s vm)) 0"
      and ord: "ordered_areas ?lo (map (area_of (vmas s)) xs) ?hi"
      using xs(1) by (simp_all add: vm_list_def dlist_def)
    from scan_low_fits [OF dx refl ord bound] obtain ad as bs where sc:
      "scan_low (vmas s) (vm_FirstAllocation (vms s vm)) (vm_LowerLimit (vms s vm)) siz = Some (if bs = [] then 0 else hd bs, ad)"
      "xs = as @ bs" "unat ad \<le> ?hi"
      "first_fit (unat siz) ?lo (map (area_of (vmas s)) xs) ?hi =
       (if bs = [] \<and> ?hi < unat ad + unat siz then None
        else Some (unat ad, map (area_of (vmas s)) as @ (unat ad, unat siz) # map (area_of (vmas s)) bs))" by blast
    have add: "unat (ad + siz) = unat ad + unat siz" using sc(3) bound by (simp add: unat_plus_if')
    have b0: "bs \<noteq> [] \<Longrightarrow> hd bs \<noteq> 0" using dseg_nonzero [OF dx] sc(2) by (cases bs) auto
    have pl: "place_vma vm v addr siz flag ?t = (if bs = [] \<and> ?hi < unat ad + unat siz then Some (None, ?t)
        else Some (Some ad, InsertPreviousVma vm v (if bs = [] then 0 else hd bs) ?t))"
      using flag sc(1) add b0 by (auto simp: place_vma_def fr word_less_nat_alt)
    have ent: "IpcLockSemaphore swapctx ?m t = Some ?t" by (rule lock_enter [OF lkt])
    show ?thesis
    proof (cases "bs = [] \<and> ?hi < unat ad + unat siz")
      case True
      have u: "IpcUnlockSemaphore ?m ?t = Some (lock_touched ?m ?t)" "sem_free ?m (lock_touched ?m ?t)"
        by (rule lock_leave [OF lkt]; simp)+
      let ?r = "MmFreeKernelMemory v (lock_touched ?m ?t)"
      have "MmAllocateVirtualMemory swapctx vm addr siz attr flag s = Some (0, ?r)"
        using s0 t False ent pl True u(1) by (simp add: MmAllocateVirtualMemory_def)
      moreover have h: "heap_ok ?r" "live ?r = live s"
        using MmFreeKernelMemory_heap [of "lock_touched ?m ?t" v] hp lv by simp_all
      moreover have "sem_free ?m ?r" using u(2) by (simp add: sem_free_def waiters_none_def)
      moreover have "vm_list ?r vm xs" using xs(1) fr h by (simp add: vm_list_def)
      ultimately show ?thesis using True sc(4) xs(2) fr by (auto simp: vm_rep_def)
    next
      case False
      let ?i = "upd_vma v (\<lambda>r. r\<lparr>va_VirtualAddress := ad, va_VirtualSize := siz, va_MemoryAttribute := attr,
          va_AllocationFlag := flag\<rparr>) (InsertPreviousVma vm v (if bs = [] then 0 else hd bs) ?t)"
      let ?r = "lock_touched ?m ?i"
      have u: "IpcUnlockSemaphore ?m ?i = Some ?r" "sem_free ?m ?r"
        by (rule lock_leave [OF lkt]; simp add: InsertPreviousVma_keeps)+
      have "MmAllocateVirtualMemory swapctx vm addr siz attr flag s = Some (ad, ?r)"
        using s0 t \<open>v \<noteq> 0\<close> ent pl False u(1) by (simp add: MmAllocateVirtualMemory_def)
      moreover have ff: "first_fit (unat siz) ?lo A ?hi =
          Some (unat ad, map (area_of (vmas s)) as @ (unat ad, unat siz) # map (area_of (vmas s)) bs)"
        using sc(4) False xs(2) by simp
      moreover have "vm_rep ?r vm (map (area_of (vmas s)) as @ (unat ad, unat siz) # map (area_of (vmas s)) bs)"
      proof -
        have o: "ordered_areas ?lo (map (area_of (vmas s)) as @ (unat ad, unat siz) # map (area_of (vmas s)) bs) ?hi"
          using first_fit_ordered [OF ff] siz(1) ord xs(2) by (auto simp: word_le_nat_alt)
        have n: "v \<notin> set as" "v \<notin> set bs" "v \<in> live ?t" using vx sc(2) lv by auto
        have e: "vmas ?t = vmas s" "vms ?t = vms s" by (simp_all add: fr)
        have "vm_list ?t vm (as @ bs)" using lt sc(2) by simp
        note N = vm_list_new [OF this \<open>v \<noteq> 0\<close> n o [folded e]]
        have "vm_list ?i vm (as @ v # bs)" "map (area_of (vmas ?i)) (as @ v # bs) =
            map (area_of (vmas s)) as @ (unat ad, unat siz) # map (area_of (vmas s)) bs"
          using N(1) N(2) [unfolded e] by blast+
        then show ?thesis unfolding vm_rep_def by (metis lock_touched_keeps(1,5))
      qed
      moreover have "\<not> (\<exists>s1. MmAllocateKernelMemory SIZEOF_VMA s = Some (0, s1))" using t \<open>v \<noteq> 0\<close> by simp
      ultimately show ?thesis using u(2) hp(1) fr by (simp add: InsertPreviousVma_keeps)
    qed
  qed
qed

lemma ordered_areas_distinct: "ordered_areas lo A hi \<Longrightarrow> distinct A"
proof (induction lo A hi rule: ordered_areas.induct)
  case (2 lo a k r hi)
  then show ?case using ordered_areas_in [of "a + k" r hi a k] by auto
qed simp

text \<open>Releasing an area by any address inside it.\<close>

lemma MmFreeVirtualMemory_spec:
  assumes ok: "heap_ok s" and rep: "vm_rep s vm A" and lk: "sem_free (AccessLock vm) s"
  shows "\<exists>s'. MmFreeVirtualMemory swapctx vm p s =
      Some (case area_at (unat p) A of None \<Rightarrow> 0 | Some (a, k) \<Rightarrow> of_nat k, s') \<and> heap_ok s' \<and>
    sem_free (AccessLock vm) s' \<and>
    vm_LowerLimit (vms s' vm) = vm_LowerLimit (vms s vm) \<and> vm_UpperLimit (vms s' vm) = vm_UpperLimit (vms s vm) \<and>
    vm_rep s' vm (case area_at (unat p) A of None \<Rightarrow> A | Some x \<Rightarrow> remove1 x A)"
proof -
  let ?m = "AccessLock vm" let ?f = "area_of (vmas s)"
  obtain xs where xs: "vm_list s vm xs" "A = map ?f xs" using rep by (auto simp: vm_rep_def)
  define t where "t = lock_touched ?m s"
  from MmGetVmaByAddress_spec [OF xs(1) lk, of swapctx p] obtain v where
    v: "MmGetVmaByAddress swapctx vm p s = Some (v, t)" "v \<noteq> 0 \<longrightarrow> v \<in> set xs"
    "area_at (unat p) A = (if v = 0 then None else Some (?f v))" unfolding t_def xs(2) by blast
  have l: "vm_list t vm xs" "heap_ok t" "live t = live s" "vmas t = vmas s" "vms t = vms s" using xs(1) ok by (simp_all add: t_def)
  have lkt: "sem_free ?m t" using lk by (simp add: t_def lock_touched_free)
  show ?thesis
  proof (cases "v = 0")
    case True
    then have "MmFreeVirtualMemory swapctx vm p s = Some (0, t)" using v(1) by (simp add: MmFreeVirtualMemory_def)
    then show ?thesis using True v(3) l lkt xs(2) by (auto simp: vm_rep_def)
  next
    case False
    then obtain as bs where sp: "xs = as @ v # bs" using v(2) by (meson split_list)
    let ?t = "t\<lparr>sem_value := (sem_value t)(?m := 0)\<rparr>" let ?u = "unlink_vma vm v ?t"
    let ?r = "MmFreeKernelMemory v (lock_touched ?m ?u)"
    have lt: "vm_list ?t vm (as @ v # bs)" using l(1) sp by (simp add: vm_list_def)
    have ent: "IpcLockSemaphore swapctx ?m t = Some ?t" by (rule lock_enter [OF lkt])
    have u: "IpcUnlockSemaphore ?m ?u = Some (lock_touched ?m ?u)" "sem_free ?m (lock_touched ?m ?u)"
      by (rule lock_leave [OF lkt]; simp add: unlink_vma_keeps)+
    have vs: "va_VirtualSize (vmas ?u v) = va_VirtualSize (vmas s v)" by (simp add: unlink_vma_keeps l)
    have e: "MmFreeVirtualMemory swapctx vm p s = Some (va_VirtualSize (vmas s v), ?r)"
      using v(1) False ent u(1) vs by (simp add: MmFreeVirtualMemory_def)
    have lv: "v \<in> live t" using l(1) sp by (simp add: vm_list_def)
    have h: "heap_ok ?r" "live ?r = live t - {v}"
      using MmFreeKernelMemory_heap [of "lock_touched ?m ?u" v] lv l(2) by (simp_all add: unlink_vma_keeps)
    have d: "distinct xs" using xs(1) by (auto simp: vm_list_def dest: dlist_distinct)
    have "vm_list ?u vm (as @ bs)" by (rule vm_list_unlink [OF lt])
    then have lr: "vm_list ?r vm (as @ bs)" using h d sp by (auto simp: vm_list_def unlink_vma_keeps)
    have f: "area_of (vmas ?r) = ?f" by (rule ext) (simp add: area_of_def unlink_vma_keeps l)
    have "distinct A" using xs by (auto simp: vm_list_def dest: ordered_areas_distinct)
    then have rm: "remove1 (?f v) A = map ?f (as @ bs)" unfolding xs(2) sp by (simp add: remove1_append image_iff)
    have "vm_rep ?r vm (remove1 (?f v) A)" unfolding vm_rep_def using lr f rm by auto
    moreover have "sem_free ?m ?r" using u(2) by (simp add: sem_free_def waiters_none_def)
    moreover have "area_at (unat p) A = Some (?f v)" using v(3) False by simp
    moreover have "va_VirtualSize (vmas s v) = of_nat (snd (?f v))" by (simp add: area_of_def)
    ultimately show ?thesis using e h(1) l(5)
      by (intro exI [of _ ?r]) (simp add: unlink_vma_keeps split: prod.split)
  qed
qed

lemma remove1_mid: "distinct (as @ x # bs :: area list) \<Longrightarrow> remove1 x (as @ x # bs) = as @ bs"
  by (simp add: remove1_append)

section \<open>A concrete range\<close>

definition kernel_vm :: kernel where
  "kernel_vm = kernel0\<lparr>sem_value := (\<lambda>_. 1),
     vms := (\<lambda>_. \<lparr>vm_FirstAllocation = 0, vm_LastAllocation = 0, vm_LowerLimit = 0x40000000, vm_UpperLimit = 0x50000000\<rparr>)\<rparr>"

lemma kernel_vm_ok: "heap_ok kernel_vm" "vm_rep kernel_vm vm []" "sem_free (AccessLock vm) kernel_vm"
proof -
  show "heap_ok kernel_vm" using kernel0_ok heap_cong(2) [of kernel_vm kernel0] by (simp add: kernel_vm_def)
  show "vm_rep kernel_vm vm []" "sem_free (AccessLock vm) kernel_vm"
    by (simp_all add: vm_rep_def vm_list_def kernel_vm_def sem_free_def waiters_none_def kernel_raw_def zero_queue_def)
qed

lemma kernel_vm_alloc:
  obtains v t where "MmAllocateKernelMemory SIZEOF_VMA kernel_vm = Some (v, t)" "v \<noteq> 0" "v \<in> live t" "heap_ok t"
proof -
  have "MmGetCurrentSpace kernel_vm = 0" by (simp add: kernel_vm_def MmGetCurrentSpace_def TmGetCurrentThread_def kernel_raw_def)
  then have "MmAllocateKernelMemory SIZEOF_VMA kernel_vm = mm_alloc SIZEOF_VMA kernel_vm"
    by (rule MmAllocateKernelMemory_boot) simp
  moreover obtain v t where "mm_alloc SIZEOF_VMA kernel_vm = Some (v, t)" "v \<noteq> 0" "live t = {v}" "heap_ok t"
    by (rule kernel0_alloc [of kernel_vm SIZEOF_VMA]) (auto simp: kernel_vm_def)
  ultimately show thesis using that by auto
qed

lemma kernel_vm_rep: "vm_rep (kernel_vm) vm []" by (rule kernel_vm_ok)


lemma kernel_vm_pages: "(0x2000 :: u32) mod PAGE_SIZE = 0" "PAGE_SIZE \<le> (0x2000 :: u32)"
    "ALLOC_RANDOM AND ALLOC_RANDOM \<noteq> 0" "ALLOC_RANDOM AND ALLOC_HIGHMEM = 0"
    "unat (vm_UpperLimit (vms kernel_vm vm)) + unat (0x2000 :: u32) < 2 ^ 32"
  by (simp_all add: kernel_vm_def word_mod_def)

section \<open>Properties\<close>

text \<open>(C10) Allocating at any address (\<open>ALLOC_RANDOM\<close> without \<open>ALLOC_HIGHMEM\<close>) ends, and implements first fit: the
  list of areas becomes the list with the new area in the first gap that is large enough, the result is
  0 and the list stays as it is exactly when there is no such gap or the kernel memory refuses the
  descriptor. The range may not reach so close to the end of the address space that adding the size
  wraps around.\<close>
theorem vm_allocate_low:
  assumes ok: "heap_ok s" and rep: "vm_rep s vm A" and lk: "sem_free (AccessLock vm) s"
    and flag: "flag AND ALLOC_RANDOM \<noteq> 0" "flag AND ALLOC_HIGHMEM = 0"
    and siz: "PAGE_SIZE \<le> siz" "siz mod PAGE_SIZE = 0"
    and bound: "unat (vm_UpperLimit (vms s vm)) + unat siz < 2 ^ 32"
  shows "\<exists>r s'. MmAllocateVirtualMemory swapctx vm addr siz attr flag s = Some (r, s') \<and> heap_ok s' \<and>
    sem_free (AccessLock vm) s' \<and>
    vm_LowerLimit (vms s' vm) = vm_LowerLimit (vms s vm) \<and> vm_UpperLimit (vms s' vm) = vm_UpperLimit (vms s vm) \<and>
    (case first_fit (unat siz) (unat (vm_LowerLimit (vms s vm))) A (unat (vm_UpperLimit (vms s vm))) of
      None \<Rightarrow> r = 0 \<and> vm_rep s' vm A
    | Some (p, A') \<Rightarrow> if \<exists>s1. MmAllocateKernelMemory SIZEOF_VMA s = Some (0, s1) then r = 0 \<and> vm_rep s' vm A
        else unat r = p \<and> vm_rep s' vm A')"
  by (rule MmAllocateVirtualMemory_spec [OF assms])

lemma vm_allocate_low_witness:
  "\<exists>r s'. MmAllocateVirtualMemory Some KernelVirtualMemory 0 0x2000 0 ALLOC_RANDOM kernel_vm = Some (r, s') \<and>
     unat r = 0x40000000 \<and> vm_rep s' KernelVirtualMemory [(0x40000000, 0x2000)]"
proof -
  obtain v t where v: "MmAllocateKernelMemory SIZEOF_VMA kernel_vm = Some (v, t)" "v \<noteq> 0" by (rule kernel_vm_alloc)
  have l: "vm_LowerLimit (vms kernel_vm vm) = 0x40000000" "vm_UpperLimit (vms kernel_vm vm) = 0x50000000" for vm
    by (simp_all add: kernel_vm_def)
  show ?thesis
    using vm_allocate_low [where vm = KernelVirtualMemory and swapctx = Some and addr = 0 and attr = 0,
        OF kernel_vm_ok kernel_vm_pages(3,4,2,1,5)] v l by auto
qed

text \<open>(C11) An area allocated so and released by any address inside it leaves the list of areas, the heap and
  the lock as they were, and the release returns the size.\<close>
theorem vm_allocate_free:
  assumes ok: "heap_ok s" and rep: "vm_rep s vm A" and lk: "sem_free (AccessLock vm) s"
    and flag: "flag AND ALLOC_RANDOM \<noteq> 0" "flag AND ALLOC_HIGHMEM = 0"
    and siz: "PAGE_SIZE \<le> siz" "siz mod PAGE_SIZE = 0"
    and bound: "unat (vm_UpperLimit (vms s vm)) + unat siz < 2 ^ 32"
    and a: "MmAllocateVirtualMemory swapctx vm addr siz attr flag s = Some (r, s1)" and r: "r \<noteq> 0"
    and x: "unat r \<le> unat x" "unat x < unat r + unat siz"
  shows "\<exists>s2. MmFreeVirtualMemory swapctx vm x s1 = Some (siz, s2) \<and> heap_ok s2 \<and>
    sem_free (AccessLock vm) s2 \<and> vm_rep s2 vm A"
proof -
  let ?lo = "unat (vm_LowerLimit (vms s vm))" let ?hi = "unat (vm_UpperLimit (vms s vm))"
  have s1: "heap_ok s1" "sem_free (AccessLock vm) s1" and c: "case first_fit (unat siz) ?lo A ?hi of
      None \<Rightarrow> r = 0 \<and> vm_rep s1 vm A
    | Some (p, A') \<Rightarrow> if \<exists>s1. MmAllocateKernelMemory SIZEOF_VMA s = Some (0, s1) then r = 0 \<and> vm_rep s1 vm A
        else unat r = p \<and> vm_rep s1 vm A'"
    using MmAllocateVirtualMemory_spec [OF ok rep lk flag siz bound, of swapctx addr attr] a by auto
  from c r obtain p A' where f: "first_fit (unat siz) ?lo A ?hi = Some (p, A')" "unat r = p" "vm_rep s1 vm A'"
    by (auto split: option.splits if_splits)
  have ord: "ordered_areas ?lo A ?hi" using rep by (auto simp: vm_rep_def vm_list_def)
  have pos: "0 < unat siz" using siz(1) by (simp add: word_le_nat_alt)
  have o: "ordered_areas ?lo A' ?hi" by (rule first_fit_ordered [OF f(1) pos ord])
  obtain as bs where sp: "A = as @ bs" "A' = as @ (p, unat siz) # bs" using first_fit_shape [OF f(1)] by blast
  have "area_at (unat x) A' = Some (p, unat siz)"
    by (rule area_at_unique [OF o]) (use sp x f(2) in auto)
  moreover have "remove1 (p, unat siz) A' = A"
    using ordered_areas_distinct [OF o] unfolding sp by (rule remove1_mid)
  ultimately show ?thesis using MmFreeVirtualMemory_spec [OF s1(1) f(3) s1(2), of swapctx x] by auto
qed

lemma vm_allocate_free_witness:
  "\<exists>r s1 s2. MmAllocateVirtualMemory Some KernelVirtualMemory 0 0x2000 0 ALLOC_RANDOM kernel_vm = Some (r, s1) \<and>
     MmFreeVirtualMemory Some KernelVirtualMemory (r + 5) s1 = Some (0x2000, s2) \<and> vm_rep s2 KernelVirtualMemory []"
proof -
  obtain v t where v: "MmAllocateKernelMemory SIZEOF_VMA kernel_vm = Some (v, t)" "v \<noteq> 0" by (rule kernel_vm_alloc)
  have l: "vm_LowerLimit (vms kernel_vm vm) = 0x40000000" "vm_UpperLimit (vms kernel_vm vm) = 0x50000000" for vm
    by (simp_all add: kernel_vm_def)
  obtain r s1 where r: "unat r = 0x40000000"
    "MmAllocateVirtualMemory Some KernelVirtualMemory 0 0x2000 0 ALLOC_RANDOM kernel_vm = Some (r, s1)"
    using MmAllocateVirtualMemory_spec [where vm = KernelVirtualMemory and swapctx = Some and addr = 0 and attr = 0,
        OF kernel_vm_ok kernel_vm_pages(3,4,2,1,5)] v l by auto
  have x: "r \<noteq> 0" "unat (r + 5) = unat r + 5" using r(1) by (auto simp: unat_plus_if')
  have "unat r \<le> unat (r + 5)" "unat (r + 5) < unat r + unat (0x2000 :: u32)" using x by simp_all
  from vm_allocate_free [OF kernel_vm_ok kernel_vm_pages(3,4,2,1,5) r(2) x(1) this] r(2) show ?thesis by blast
qed

text \<open>(C12) A request for a fixed address looks only at the area that follows: it is granted inside an area that
  begins before it, so that two areas overlap.\<close>
theorem vm_fixed_overlap:
  assumes l: "vm_list s vm [x]" and ok: "heap_ok s" and lk: "sem_free (AccessLock vm) s"
    and v: "MmAllocateKernelMemory SIZEOF_VMA s = Some (v, t)" "v \<noteq> 0"
    and flag: "flag AND ALLOC_RANDOM = 0" and siz: "PAGE_SIZE \<le> siz" "siz mod PAGE_SIZE = 0"
    and addr: "va_VirtualAddress (vmas s x) < addr" "unat addr < unat (va_VirtualAddress (vmas s x)) + unat (va_VirtualSize (vmas s x))"
    and lim: "unat addr + unat siz \<le> unat (vm_UpperLimit (vms s vm))"
  shows "\<exists>s'. MmAllocateVirtualMemory swapctx vm addr siz attr flag s = Some (addr, s') \<and>
    area_of (vmas s') x = area_of (vmas s) x \<and> area_of (vmas s') v = (unat addr, unat siz) \<and>
    va_next (vmas s' x) = v \<and> vm_FirstAllocation (vms s' vm) = x"
proof -
  let ?m = "AccessLock vm" let ?t = "t\<lparr>sem_value := (sem_value t)(?m := 0)\<rparr>"
  note fr = MmAllocateKernelMemory_frame [OF v(1)]
  have d: "x \<noteq> 0" "va_next (vmas s x) = 0" "va_prev (vmas s x) = 0" "vm_FirstAllocation (vms s vm) = x" "vm_LastAllocation (vms s vm) = x"
    and lo: "unat (vm_LowerLimit (vms s vm)) \<le> unat (va_VirtualAddress (vmas s x))" and xl: "x \<in> live s"
    using l by (auto simp: vm_list_def dlist_def area_of_def)
  have vx: "v \<noteq> x" using kmem.alloc_fresh [OF ok v] xl by auto
  have s0: "\<not> (siz < PAGE_SIZE \<or> siz mod PAGE_SIZE \<noteq> 0)" using siz by auto
  have "unat (vm_UpperLimit (vms s vm)) < 2 ^ 32" using unsigned_less [of "vm_UpperLimit (vms s vm)"] by simp
  then have "unat addr + unat siz < 2 ^ 32" using lim by simp
  then have e: "unat (addr + siz) = unat addr + unat siz" by (simp add: unat_plus_if')
  have c: "\<not> addr < vm_LowerLimit (vms s vm)" "\<not> vm_UpperLimit (vms s vm) < addr + siz"
    using lo addr(1) lim e by (simp_all add: word_less_nat_alt)
  have lkt: "sem_free ?m t" using lk fr by (simp add: sem_free_def waiters_none_def)
  have ent: "IpcLockSemaphore swapctx ?m t = Some ?t" by (rule lock_enter [OF lkt])
  let ?i = "upd_vma v (\<lambda>r. r\<lparr>va_VirtualAddress := addr, va_VirtualSize := siz, va_MemoryAttribute := attr,
          va_AllocationFlag := flag\<rparr>) (InsertPreviousVma vm v 0 ?t)"
  have sc: "scan_fixed (vmas s) x addr = Some 0" using d addr(1) by (simp add: scan_fixed.simps)
  have pl: "place_vma vm v addr siz flag ?t = Some (Some addr, InsertPreviousVma vm v 0 ?t)"
    using flag c sc d by (simp add: place_vma_def fr)
  have b: "vma_before ?t vm 0 = x" by (simp add: vma_before_def fr d)
  have n: "v \<noteq> 0" "vma_before ?t vm 0 \<noteq> v" "(0 :: u32) = 0 \<or> vma_before ?t vm 0 \<noteq> 0" using v(2) vx b by auto
  have u: "IpcUnlockSemaphore ?m ?i = Some (lock_touched ?m ?i)"
    by (rule lock_leave(1) [OF lkt]; simp add: InsertPreviousVma_keeps)
  have "MmAllocateVirtualMemory swapctx vm addr siz attr flag s = Some (addr, lock_touched ?m ?i)"
    using s0 v ent pl u by (simp add: MmAllocateVirtualMemory_def)
  then show ?thesis
    using vx d InsertPreviousVma_links [OF n] b
    by (simp add: area_of_def InsertPreviousVma_keeps fr)
qed


text \<open>A kernel whose memory holds one block in use, the descriptor of an area of four pages.\<close>

definition kernel_one :: kernel where
  "kernel_one = kernel_vm\<lparr>first_node := 0x100000, free_table := (\<lambda>_. 0)(14 := 0x100030),
     nodes := (\<lambda>_. node0)(0x100000 := node0\<lparr>nd_next := 0x100030, nd_size := 24\<rparr>,
       0x100030 := node0\<lparr>nd_prev := 0x100000, nd_size := 0x80000, nd_attribute := 1\<rparr>),
     vmas := (\<lambda>_. \<lparr>va_next = 0, va_prev = 0, va_VirtualAddress = 0x40000000, va_VirtualSize = 0x4000,
       va_MemoryAttribute = 0, va_AllocationFlag = 8\<rparr>),
     vms := (\<lambda>_. \<lparr>vm_FirstAllocation = 0x100018, vm_LastAllocation = 0x100018,
       vm_LowerLimit = 0x40000000, vm_UpperLimit = 0x50000000\<rparr>)\<rparr>"

lemma kernel_one_inv: "heap_inv kernel_one 0x100000 0x180048 [0x100000, 0x100030]"
proof -
  have "adj_ok kernel_one [0x100000, 0x100030]" unfolding adj_ok_def
    by (rule exI [of _ "0x100030"]) (simp add: dlist_def kernel_one_def node0_def)
  moreover have "{b \<in> set [0x100000, 0x100030]. is_free kernel_one b} = {0x100030}"
    by (auto simp: kernel_one_def node0_def IS_FREE_NODE_def)
  moreover have "hash_ok kernel_one {0x100030}" unfolding hash_ok_def
  proof (intro allI impI)
    fix j :: nat assume "j < 15"
    have c: "size_class kernel_one 0x100030 = 14"
      by (simp add: size_class_def kernel_one_def calc_hash_index_large)
    show "\<exists>xs l. dlist (hnx_of kernel_one) (hpv_of kernel_one) (free_table kernel_one j) l xs \<and>
        set xs = {b \<in> {0x100030}. size_class kernel_one b = j}"
    proof (cases "j = 14")
      case True
      then show ?thesis using c
        by (intro exI [of _ "[0x100030]"] exI [of _ "0x100030"]) (auto simp: dlist_def kernel_one_def node0_def)
    next
      case False
      then show ?thesis using c by (intro exI [of _ "[]"] exI [of _ 0]) (auto simp: kernel_one_def)
    qed
  qed
  ultimately show ?thesis
    by (simp add: heap_inv_def) (simp add: kernel_one_def node0_def IS_FREE_NODE_def)
qed

lemma kernel_one_ok: "heap_ok kernel_one" "0x100018 \<in> live kernel_one" "vm_list kernel_one vm [0x100018]"
  "sem_free (AccessLock vm) kernel_one"
proof -
  show "heap_ok kernel_one" unfolding heap_ok_def using kernel_one_inv by blast
  have "\<not> is_free kernel_one 0x100000" by (simp add: kernel_one_def node0_def IS_FREE_NODE_def)
  then show l: "0x100018 \<in> live kernel_one" unfolding live_eq [OF kernel_one_inv] by force
  show "vm_list kernel_one vm [0x100018]"
    using l by (simp add: vm_list_def) (simp add: kernel_one_def dlist_def area_of_def)
  show "sem_free (AccessLock vm) kernel_one" using kernel_vm_ok(3) [of vm]
    by (simp add: kernel_one_def sem_free_def waiters_none_def)
qed

lemma kernel_one_alloc:
  obtains v t where "MmAllocateKernelMemory SIZEOF_VMA kernel_one = Some (v, t)" "v \<noteq> 0"
proof -
  have "MmGetCurrentSpace kernel_one = 0"
    by (simp add: kernel_one_def kernel_vm_def MmGetCurrentSpace_def TmGetCurrentThread_def kernel_raw_def)
  then have "MmAllocateKernelMemory SIZEOF_VMA kernel_one = mm_alloc SIZEOF_VMA kernel_one"
    by (rule MmAllocateKernelMemory_boot) simp
  moreover have "is_free kernel_one 0x100030 \<and> \<not> size_of kernel_one 0x100030 < 24"
    by (simp add: kernel_one_def node0_def IS_FREE_NODE_def)
  ultimately show thesis using that mm_alloc_spec [OF kernel_one_inv, of 24] by auto
qed

lemma vm_fixed_overlap_witness:
  "\<exists>v s'. MmAllocateVirtualMemory Some KernelVirtualMemory 0x40001000 0x2000 0 0 kernel_one = Some (0x40001000, s') \<and>
    area_of (vmas s') 0x100018 = (0x40000000, 0x4000) \<and> area_of (vmas s') v = (0x40001000, 0x2000)"
proof -
  obtain v t where v: "MmAllocateKernelMemory SIZEOF_VMA kernel_one = Some (v, t)" "v \<noteq> 0" by (rule kernel_one_alloc)
  have a: "va_VirtualAddress (vmas kernel_one x) = 0x40000000" "va_VirtualSize (vmas kernel_one x) = 0x4000"
    "vm_UpperLimit (vms kernel_one w) = 0x50000000" for x w by (simp_all add: kernel_one_def)
  show ?thesis
    using vm_fixed_overlap [where addr = "0x40001000" and swapctx = Some and attr = 0 and flag = 0 and vm = KernelVirtualMemory,
        OF kernel_one_ok(3,1,4) v _ kernel_vm_pages(2,1)] a by (auto simp: area_of_def)
qed

end
