(* ===== verification/PagingInv.thy ===== *)
theory PagingInv
  imports PageOps KernelHeap
begin

text \<open>
  The page tables of a space as a function from pages to entries: mapping and unmapping a range through
  the temporary window changes exactly the entries of the range, and the query reads them back. A new
  table is not zeroed as a whole.
\<close>

section \<open>Entries\<close>

lemma pte_put_bit: "bit (pte_put (push_bit k 1) b e) n \<longleftrightarrow> (if n = k then b \<and> n < 32 else bit e n)"
  by (auto simp: pte_put_def bit_simps dest: bit_imp_le_length)

lemma pte_flag_bit: "pte_flag (push_bit k 1) e \<longleftrightarrow> bit e k"
  by (simp add: pte_flag_def bit_iff_and_push_bit_not_eq_0)

lemma attr_masks: "(1 :: u32) = push_bit 0 1" "(2 :: u32) = push_bit 1 1" "(4 :: u32) = push_bit 2 1"
  by simp_all

lemma pte_put_bits:
  "bit (pte_put PAGE_ATTR_PRESENT b e) n \<longleftrightarrow> (if n = 0 then b else bit e n)"
  "bit (pte_put PAGE_ATTR_WRITE b e) n \<longleftrightarrow> (if n = 1 then b else bit e n)"
  "bit (pte_put PAGE_ATTR_USER b e) n \<longleftrightarrow> (if n = 2 then b else bit e n)"
  using pte_put_bit [of 0 b e n] pte_put_bit [of 1 b e n] pte_put_bit [of 2 b e n] by simp_all

lemma pte_flags:
  "pte_flag PAGE_ATTR_PRESENT e \<longleftrightarrow> bit e 0" "pte_flag PAGE_ATTR_WRITE e \<longleftrightarrow> bit e 1" "pte_flag PAGE_ATTR_USER e \<longleftrightarrow> bit e 2"
  using pte_flag_bit [of 0 e] pte_flag_bit [of 1 e] pte_flag_bit [of 2 e] by simp_all

lemma and_flags:
  "e AND PAGE_ATTR_PRESENT \<noteq> 0 \<longleftrightarrow> bit e 0" "e AND PAGE_ATTR_WRITE \<noteq> 0 \<longleftrightarrow> bit e 1" "e AND PAGE_ATTR_USER \<noteq> 0 \<longleftrightarrow> bit e 2"
  for e :: u32
  using pte_flags [of e] by (simp_all add: pte_flag_def)

lemma pte_set_frame_bit: "bit (pte_set_frame f e) n \<longleftrightarrow> (if n < 12 then bit e n else n < 32 \<and> bit f (n - 12))"
proof -
  have m: "(0xFFF :: u32) = mask 12" by (simp add: mask_eq_exp_minus_1)
  show ?thesis unfolding pte_set_frame_def m by (auto simp: bit_simps dest: bit_imp_le_length)
qed

text \<open>What \<open>ArQueryPageInformation\<close> reports of an entry.\<close>

definition pte_info :: "u32 \<Rightarrow> u32 \<times> u32" where
  "pte_info d = (push_bit 12 (pte_frame d), (if pte_flag PAGE_ATTR_USER d then PAGE_ATTR_USER else 0)
     OR (if pte_flag PAGE_ATTR_WRITE d then PAGE_ATTR_WRITE else 0)
     OR (if pte_flag PAGE_ATTR_PRESENT d then PAGE_ATTR_PRESENT else 0))"

lemma flag_bits: "bit ((if a then 4 else 0) OR (if b then 2 else 0) OR (if c then 1 else 0) :: u32) n \<longleftrightarrow>
    (n = 2 \<and> a) \<or> (n = 1 \<and> b) \<or> (n = 0 \<and> c)"
  using bit_push_bit_iff [of 2 "1 :: u32" n] bit_push_bit_iff [of 1 "1 :: u32" n]
  by (auto simp: bit_simps bit_1_iff)

lemma and_7_bits: "bit (a AND 7) n \<longleftrightarrow> bit a n \<and> n < 3" for a :: u32
proof -
  have m: "(7 :: u32) = mask 3" by (simp add: mask_eq_exp_minus_1)
  show ?thesis unfolding m by (auto simp: bit_simps dest: bit_imp_le_length)
qed

lemma less_3: "n < 3 \<longleftrightarrow> n = 0 \<or> n = 1 \<or> n = (2 :: nat)"
  by auto

lemma new_pte_info:
  assumes "phys_addr mod PAGE_SIZE = 0"
  shows "pte_info (new_pte phys_addr attr (MAP_ADDRESS OR MAP_ATTRIBUTE) e) = (phys_addr, attr AND 7)"
proof -
  define E where "E = new_pte phys_addr attr (MAP_ADDRESS OR MAP_ATTRIBUTE) e"
  have f: "(MAP_ADDRESS OR MAP_ATTRIBUTE) AND MAP_ADDRESS \<noteq> (0 :: u32)" "(MAP_ADDRESS OR MAP_ATTRIBUTE) AND MAP_ATTRIBUTE \<noteq> (0 :: u32)"
    by simp_all
  have b: "bit E n \<longleftrightarrow> (if n = 0 then bit attr 0 else if n = 1 then bit attr 1 else if n = 2 then bit attr 2
      else if n < 12 then bit e n else bit phys_addr n)" if "n < 32" for n
    using that unfolding E_def new_pte_def Let_def if_P [OF f(1)] if_P [OF f(2)]
    by (auto simp: pte_put_bits and_flags pte_set_frame_bit bit_simps)
  have "push_bit 12 (pte_frame E) = push_bit 12 (drop_bit 12 phys_addr)"
    by (rule bit_word_eqI) (auto simp: pte_frame_def bit_simps b dest: bit_imp_le_length)
  also have "\<dots> = phys_addr" using assms by (simp add: push_drop_page page_aligned_iff)
  finally have 1: "push_bit 12 (pte_frame E) = phys_addr" .
  have "snd (pte_info E) = attr AND 7"
    by (rule bit_word_eqI) (auto simp: pte_info_def flag_bits and_7_bits pte_flags b less_3)
  with 1 show ?thesis unfolding E_def [symmetric] by (simp add: pte_info_def)
qed

section \<open>The page table as a function\<close>

lemma table_index_less: "table_index v < 1024"
proof -
  have "table_index v = take_bit 10 (drop_bit 12 v)"
    by (rule bit_word_eqI) (auto simp: table_index_def bit_simps dest: bit_imp_le_length)
  then show ?thesis by (simp add: take_bit_eq_mod word_mod_less_divisor)
qed

text \<open>The physical word that holds the entry of a page, and the entry.\<close>

definition pte_word :: "u32 \<Rightarrow> u32 \<Rightarrow> u32" where
  "pte_word de v = pte_frame de * 1024 + table_index v"

definition pte_of :: "u32 \<Rightarrow> kernel \<Rightarrow> u32 \<Rightarrow> u32 option" where
  "pte_of space s v =
     (let de = dir_entry space (drop_bit 22 v) s in if de = 0 then None else Some (pmem s (pte_word de v)))"

lemma window_frame: "pte_frame (push_bit 12 (pte_frame de) OR 3) = pte_frame de"
proof -
  have "(3 :: u32) = mask 2" by (simp add: mask_eq_exp_minus_1)
  then show ?thesis unfolding pte_frame_def by (intro bit_word_eqI) (auto simp: bit_simps dest: bit_imp_le_length)
qed

lemma window_table:
  "window_word (ArMapTemporaryPage (push_bit 12 (pte_frame de)) s) (table_index v) = pte_word de v"
  using table_index_less [of v] by (simp add: window_word_def ArMapTemporaryPage_def window_frame pte_word_def)

lemma query_pte:
  assumes "v mod PAGE_SIZE = 0"
  shows "ArQueryPageInformation space v s = (case pte_of space s v of None \<Rightarrow> Some (- 1, None, s)
    | Some d \<Rightarrow> Some (0, Some (pte_info d), ArMapTemporaryPage (push_bit 12 (pte_frame (dir_entry space (drop_bit 22 v) s))) s))"
proof -
  have w: "window_word (ArMapTemporaryPage x (s\<lparr>irq_enabled := b\<rparr>)) y = window_word (ArMapTemporaryPage x s) y" for x y b
    by (simp add: window_word_def ArMapTemporaryPage_def)
  show ?thesis using assms
    by (simp add: ArQueryPageInformation_def pte_of_def Let_def ArLocalSaveIrq_def ArLocalRestoreIrq_def
        window_read_def w window_table pte_info_def)
      (simp add: ArMapTemporaryPage_def)
qed

lemma map_in_table_pte:
  assumes "flag AND MAP_ZERO = 0"
  shows "map_in_table de False v p attr flag s =
    (ArMapTemporaryPage (push_bit 12 (pte_frame de)) s)\<lparr>pmem :=
      (pmem s)(pte_word de v := new_pte p attr flag (pmem s (pte_word de v)))\<rparr>"
proof -
  have w: "window_word (ArMapTemporaryPage x (s\<lparr>irq_enabled := b\<rparr>)) y = window_word (ArMapTemporaryPage x s) y" for x y b
    by (simp add: window_word_def ArMapTemporaryPage_def)
  show ?thesis using assms
    by (simp add: map_in_table_def Let_def ArLocalSaveIrq_def ArLocalRestoreIrq_def window_read_def window_write_def w window_table)
      (simp add: ArMapTemporaryPage_def)
qed


section \<open>Mapping pages\<close>

text \<open>Different directory entries in use name different tables, so that the entries of different pages are
  different words.\<close>

definition tables_ok :: "u32 \<Rightarrow> kernel \<Rightarrow> bool" where
  "tables_ok space s \<longleftrightarrow> (\<forall>i j. dir_entry space i s \<noteq> 0 \<longrightarrow> dir_entry space j s \<noteq> 0 \<longrightarrow>
     pte_frame (dir_entry space i s) = pte_frame (dir_entry space j s) \<longrightarrow> i = j)"

lemma page_split: "push_bit 22 (drop_bit 22 v) OR push_bit 12 (table_index v) OR take_bit 12 v = v"
proof (rule bit_word_eqI)
  fix n assume "n < LENGTH(32)"
  then show "bit (push_bit 22 (drop_bit 22 v) OR push_bit 12 (table_index v) OR take_bit 12 v) n = bit v n"
    by (cases "22 \<le> n") (auto simp: table_index_def bit_simps)
qed

lemma page_eq:
  assumes "v mod PAGE_SIZE = 0" and "w mod PAGE_SIZE = 0" and "drop_bit 22 v = drop_bit 22 w" and "table_index v = table_index w"
  shows "v = w"
  using page_split [of v] page_split [of w] assms take_bit_eq_mod [of 12 v] take_bit_eq_mod [of 12 w] by simp

lemma digits_1024: "a * 1024 + b = c * 1024 + d \<Longrightarrow> b < 1024 \<Longrightarrow> d < 1024 \<Longrightarrow> a = c \<and> b = d" for a b c d :: nat
  by (rule context_conjI) linarith+

lemma pte_frame_less: "unat (pte_frame x) < 2 ^ 20"
proof -
  have "pte_frame x \<le> drop_bit 12 (- 1)" unfolding pte_frame_def by (rule drop_bit_mono) simp
  then have "unat (pte_frame x) \<le> unat (drop_bit 12 (- 1) :: u32)" by (simp only: word_le_nat_alt)
  then show ?thesis by (simp add: mask_eq_exp_minus_1)
qed

lemma frame_word: "unat f < 2 ^ 20 \<Longrightarrow> unat x < 1024 \<Longrightarrow> unat (f * 1024 + x) = unat f * 1024 + unat x" for f x :: u32
  by (simp add: unat_word_ariths take_bit_nat_eq_self)

lemma pte_word_inj:
  assumes "pte_word d v = pte_word e w"
  shows "pte_frame d = pte_frame e" and "table_index v = table_index w"
proof -
  have lt: "unat (table_index y) < 1024" for y using table_index_less [of y] by (simp add: word_less_nat_alt)
  have "unat (pte_frame d) * 1024 + unat (table_index v) = unat (pte_frame e) * 1024 + unat (table_index w)"
    using arg_cong [OF assms, of unat] unfolding pte_word_def by (simp only: frame_word [OF pte_frame_less lt])
  then have "unat (pte_frame d) = unat (pte_frame e) \<and> unat (table_index v) = unat (table_index w)"
    by (rule digits_1024) (rule lt)+
  then show "pte_frame d = pte_frame e" "table_index v = table_index w"
    by (simp_all add: word_unat_eq_iff)
qed

lemma map_one_page:
  assumes t: "tables_ok space s" and v: "v mod PAGE_SIZE = 0" and p: "p mod PAGE_SIZE = 0"
    and d: "dir_entry space (drop_bit 22 v) s \<noteq> 0" and z: "flag AND MAP_ZERO = 0"
  shows "\<exists>s'. ArMapOnePage space v p attr flag s = Some s' \<and> pdirs s' = pdirs s \<and> spaces s' = spaces s \<and>
    (\<forall>w. w mod PAGE_SIZE = 0 \<longrightarrow> pte_of space s' w =
       (if w = v then map_option (new_pte p attr flag) (pte_of space s v) else pte_of space s w))"
proof -
  let ?de = "dir_entry space (drop_bit 22 v) s"
  let ?s = "(ArMapTemporaryPage (push_bit 12 (pte_frame ?de)) s)\<lparr>pmem :=
      (pmem s)(pte_word ?de v := new_pte p attr flag (pmem s (pte_word ?de v)))\<rparr>"
  have m: "ArMapOnePage space v p attr flag s = Some ?s"
    using v p d map_in_table_pte [OF z] by (simp add: ArMapOnePage_def Let_def)
  have k: "pdirs ?s = pdirs s" "spaces ?s = spaces s" by (simp_all add: ArMapTemporaryPage_def)
  then have de: "dir_entry space i ?s = dir_entry space i s" for i by (simp only: dir_entry_def)
  have "pte_of space ?s w = (if w = v then map_option (new_pte p attr flag) (pte_of space s v) else pte_of space s w)"
    if w: "w mod PAGE_SIZE = 0" for w
  proof (cases "w = v")
    case True
    then show ?thesis using d by (simp add: pte_of_def Let_def de)
  next
    case False
    have "pte_word (dir_entry space (drop_bit 22 w) s) w \<noteq> pte_word ?de v" if "dir_entry space (drop_bit 22 w) s \<noteq> 0"
    proof
      assume e: "pte_word (dir_entry space (drop_bit 22 w) s) w = pte_word ?de v"
      then have "drop_bit 22 w = drop_bit 22 v"
        using t that d pte_word_inj(1) unfolding tables_ok_def by blast
      with False page_eq [OF w v] pte_word_inj(2) [OF e] show False by blast
    qed
    with False show ?thesis by (simp add: pte_of_def Let_def de)
  qed
  with m k show ?thesis by blast
qed

lemma page_step: "(a + of_nat k * PAGE_SIZE) mod PAGE_SIZE = 0" if "a mod PAGE_SIZE = 0" for a :: u32
proof -
  from that have "PAGE_SIZE dvd a" by (simp only: page_aligned_iff)
  then have "PAGE_SIZE dvd a + of_nat k * PAGE_SIZE" by (intro dvd_add dvd_triv_right)
  then show ?thesis by (simp only: page_aligned_iff)
qed

lemma page_next: "(a + PAGE_SIZE) mod PAGE_SIZE = 0" if "a mod PAGE_SIZE = 0" for a :: u32
  using page_step [OF that, of 1] by simp

lemma page_distinct:
  assumes "0 < k" and "k < 2 ^ 20" shows "(a :: u32) \<noteq> a + of_nat k * PAGE_SIZE"
proof
  assume "a = a + of_nat k * PAGE_SIZE"
  then have "of_nat k * PAGE_SIZE = (0 :: u32)" by simp
  then have "of_nat (k * 4096) = (0 :: u32)" by simp
  then have "2 ^ LENGTH(32) dvd k * 4096" by (simp only: word_of_nat_eq_0_iff)
  then show False using assms by (auto dest!: dvd_imp_le)
qed

lemma pte_of_cong: "pdirs t = pdirs s \<Longrightarrow> spaces t = spaces s \<Longrightarrow> pmem t = pmem s \<Longrightarrow> pte_of space t = pte_of space s"
  by (rule ext) (simp only: pte_of_def dir_entry_def)

lemma dir_entry_cong: "pdirs t = pdirs s \<Longrightarrow> spaces t = spaces s \<Longrightarrow> dir_entry space i t = dir_entry space i s"
  by (simp add: dir_entry_def)

lemma tables_ok_cong: "pdirs t = pdirs s \<Longrightarrow> spaces t = spaces s \<Longrightarrow> tables_ok space t = tables_ok space s"
  by (simp only: tables_ok_def dir_entry_def)

lemma step_page: "(a + PAGE_SIZE) + of_nat k * PAGE_SIZE = a + of_nat (Suc k) * PAGE_SIZE" for a :: u32
  by (simp add: algebra_simps)

text \<open>A loop over the pages of a range whose body changes one entry changes exactly the entries of the range.\<close>

lemma pages_loop:
  assumes loop: "\<And>v p s. L 0 v p s = Some s" "\<And>n v p s. L (Suc n) v p s = Option.bind (step v p s) (L n (v + PAGE_SIZE) (p + PAGE_SIZE))"
    and step: "\<And>v p s. tables_ok space s \<Longrightarrow> v mod PAGE_SIZE = 0 \<Longrightarrow> p mod PAGE_SIZE = 0 \<Longrightarrow>
      pre (dir_entry space (drop_bit 22 v) s) \<Longrightarrow> \<exists>s'. step v p s = Some s' \<and> pdirs s' = pdirs s \<and> spaces s' = spaces s \<and>
      (\<forall>w. w mod PAGE_SIZE = 0 \<longrightarrow> pte_of space s' w = (if w = v then map_option (g p) (pte_of space s v) else pte_of space s w))"
    and "tables_ok space s" and "v mod PAGE_SIZE = 0" and "p mod PAGE_SIZE = 0" and "n \<le> 2 ^ 20"
    and "\<And>k. k < n \<Longrightarrow> pre (dir_entry space (drop_bit 22 (v + of_nat k * PAGE_SIZE)) s)"
  shows "\<exists>s'. L n v p s = Some s' \<and> pdirs s' = pdirs s \<and> spaces s' = spaces s \<and>
    (\<forall>w. w mod PAGE_SIZE = 0 \<longrightarrow> (\<forall>k<n. w \<noteq> v + of_nat k * PAGE_SIZE) \<longrightarrow> pte_of space s' w = pte_of space s w) \<and>
    (\<forall>k<n. pte_of space s' (v + of_nat k * PAGE_SIZE) =
       map_option (g (p + of_nat k * PAGE_SIZE)) (pte_of space s (v + of_nat k * PAGE_SIZE)))"
  using assms(4-)
proof (induction n arbitrary: v p s)
  case 0
  then show ?case by (simp add: loop)
next
  case (Suc n)
  have d: "pre (dir_entry space (drop_bit 22 v) s)" using Suc.prems(5) [of 0] by simp
  from step [OF Suc.prems(1-3) d] obtain s1 where s1: "step v p s = Some s1"
    "pdirs s1 = pdirs s" "spaces s1 = spaces s" "\<forall>w. w mod PAGE_SIZE = 0 \<longrightarrow> pte_of space s1 w =
       (if w = v then map_option (g p) (pte_of space s v) else pte_of space s w)" by blast
  have t1: "tables_ok space s1" using Suc.prems(1) tables_ok_cong [OF s1(2,3)] by simp
  have n: "n \<le> 2 ^ 20" using Suc.prems(4) by simp
  have r: "pre (dir_entry space (drop_bit 22 (v + PAGE_SIZE + of_nat k * PAGE_SIZE)) s1)" if "k < n" for k
    unfolding step_page dir_entry_cong [OF s1(2,3)] by (rule Suc.prems(5)) (use that in simp)
  from Suc.IH [OF t1 page_next [OF Suc.prems(2)] page_next [OF Suc.prems(3)] n r] obtain s2 where
    s2: "L n (v + PAGE_SIZE) (p + PAGE_SIZE) s1 = Some s2" "pdirs s2 = pdirs s1" "spaces s2 = spaces s1"
    "\<forall>w. w mod PAGE_SIZE = 0 \<longrightarrow> (\<forall>k<n. w \<noteq> v + of_nat (Suc k) * PAGE_SIZE) \<longrightarrow> pte_of space s2 w = pte_of space s1 w"
    "\<forall>k<n. pte_of space s2 (v + of_nat (Suc k) * PAGE_SIZE) =
       map_option (g (p + of_nat (Suc k) * PAGE_SIZE)) (pte_of space s1 (v + of_nat (Suc k) * PAGE_SIZE))"
    unfolding step_page by blast
  have ne: "v \<noteq> v + of_nat (Suc k) * PAGE_SIZE" if "k < n" for k
    by (rule page_distinct) (use that Suc.prems(4) in simp_all)
  have 1: "pte_of space s2 w = pte_of space s w" if w: "w mod PAGE_SIZE = 0" "\<forall>k<Suc n. w \<noteq> v + of_nat k * PAGE_SIZE" for w
  proof -
    have "w \<noteq> v" using w(2)[rule_format, of 0] by simp
    moreover have "\<forall>k<n. w \<noteq> v + of_nat (Suc k) * PAGE_SIZE"
      by (intro allI impI) (rule w(2)[rule_format], simp)
    ultimately show ?thesis using s2(4) s1(4) w(1) by metis
  qed
  have 2: "pte_of space s2 (v + of_nat k * PAGE_SIZE) =
       map_option (g (p + of_nat k * PAGE_SIZE)) (pte_of space s (v + of_nat k * PAGE_SIZE))" if k: "k < Suc n" for k
  proof (cases k)
    case 0
    have "\<forall>k<n. v \<noteq> v + of_nat (Suc k) * PAGE_SIZE" using ne by blast
    with s2(4) Suc.prems(2) have "pte_of space s2 v = pte_of space s1 v" by metis
    then show ?thesis using 0 s1(4) Suc.prems(2) by simp
  next
    case (Suc j)
    then have j: "j < n" using k by simp
    have "pte_of space s1 (v + of_nat (Suc j) * PAGE_SIZE) = pte_of space s (v + of_nat (Suc j) * PAGE_SIZE)"
      using s1(4) ne [OF j] page_step [OF Suc.prems(2), of "Suc j"] by metis
    with s2(5) j Suc show ?thesis by metis
  qed
  have "L (Suc n) v p s = Some s2" using s1(1) s2(1) by (simp add: loop)
  with s2(2,3) s1(2,3) 1 2 show ?case by (intro exI [of _ s2] conjI allI impI) metis+
qed

definition range_mapped :: "u32 \<Rightarrow> (u32 \<Rightarrow> u32 \<Rightarrow> u32) \<Rightarrow> nat \<Rightarrow> u32 \<Rightarrow> u32 \<Rightarrow> kernel \<Rightarrow> kernel \<Rightarrow> bool" where
  "range_mapped space g n v p s s' \<longleftrightarrow> pdirs s' = pdirs s \<and> spaces s' = spaces s \<and>
    (\<forall>w. w mod PAGE_SIZE = 0 \<longrightarrow> (\<forall>k<n. w \<noteq> v + of_nat k * PAGE_SIZE) \<longrightarrow> pte_of space s' w = pte_of space s w) \<and>
    (\<forall>k<n. pte_of space s' (v + of_nat k * PAGE_SIZE) =
       map_option (g (p + of_nat k * PAGE_SIZE)) (pte_of space s (v + of_nat k * PAGE_SIZE)))"

lemma page_count: "unat (drop_bit 12 siz) \<le> 2 ^ 20" for siz :: u32
proof -
  have "drop_bit 12 siz \<le> drop_bit 12 (- 1)" by (rule drop_bit_mono) simp
  then have "unat (drop_bit 12 siz) \<le> unat (drop_bit 12 (- 1) :: u32)" by (simp only: word_le_nat_alt)
  then show ?thesis by (simp add: mask_eq_exp_minus_1)
qed

text \<open>The answer of a query, without the state of the window.\<close>

definition query_result :: "u32 \<Rightarrow> u32 \<Rightarrow> kernel \<Rightarrow> (int \<times> (u32 \<times> u32) option) option" where
  "query_result space v s = map_option (\<lambda>(r, i, _). (r, i)) (ArQueryPageInformation space v s)"

lemma query_result_pte:
  "v mod PAGE_SIZE = 0 \<Longrightarrow>
    query_result space v s = Some (case pte_of space s v of None \<Rightarrow> (- 1, None) | Some d \<Rightarrow> (0, Some (pte_info d)))"
  by (simp add: query_result_def query_pte split: option.split)

lemma map_zero_not: "(MAP_ADDRESS OR MAP_ATTRIBUTE) AND MAP_ZERO = (0 :: u32)"
  by simp

lemma pte_of_some: "dir_entry space (drop_bit 22 v) s \<noteq> 0 \<longleftrightarrow> (\<exists>e. pte_of space s v = Some e)"
  by (simp add: pte_of_def Let_def)

section \<open>Unmapping\<close>

lemma new_pte_unmapped: "pte_info (new_pte 0 0 (MAP_ADDRESS OR MAP_ATTRIBUTE) e) = (0, 0)"
  using new_pte_info [of 0 0 e] by simp

lemma unmap_one_page:
  assumes t: "tables_ok space s" and v: "v mod PAGE_SIZE = 0"
  shows "\<exists>s'. ArUnmapOnePage space v s = Some s' \<and> pdirs s' = pdirs s \<and> spaces s' = spaces s \<and>
    (\<forall>w. w mod PAGE_SIZE = 0 \<longrightarrow> pte_of space s' w =
       (if w = v then map_option (new_pte 0 0 (MAP_ADDRESS OR MAP_ATTRIBUTE)) (pte_of space s v) else pte_of space s w))"
proof (cases "pte_of space s v")
  case None
  then show ?thesis using query_pte [OF v, of space s] by (simp add: ArUnmapOnePage_def)
next
  case (Some d)
  let ?t = "ArMapTemporaryPage (push_bit 12 (pte_frame (dir_entry space (drop_bit 22 v) s))) s"
  have k: "pdirs ?t = pdirs s" "spaces ?t = spaces s" "pmem ?t = pmem s" by (simp_all add: ArMapTemporaryPage_def)
  have q: "ArQueryPageInformation space v s = Some (0, Some (pte_info d), ?t)" using query_pte [OF v, of space s] Some by simp
  have d: "dir_entry space (drop_bit 22 v) ?t \<noteq> 0" using Some pte_of_some dir_entry_cong [OF k(1,2)] by metis
  have "tables_ok space ?t" using t tables_ok_cong [OF k(1,2)] by simp
  from map_one_page [OF this v _ d map_zero_not, of 0 0] show ?thesis
    unfolding pte_of_cong [OF k] k using q by (simp add: ArUnmapOnePage_def)
qed


lemma unmap_pages_spec:
  assumes "tables_ok space s" and "v mod PAGE_SIZE = 0" and "n \<le> 2 ^ 20"
  shows "\<exists>s'. unmap_pages n space v s = Some s' \<and>
    range_mapped space (\<lambda>_. new_pte 0 0 (MAP_ADDRESS OR MAP_ATTRIBUTE)) n v 0 s s'"
  unfolding range_mapped_def
  by (rule pages_loop [where L = "\<lambda>n v p. unmap_pages n space v" and step = "\<lambda>v p. ArUnmapOnePage space v"
        and pre = "\<lambda>_. True" and p = 0, OF _ _ unmap_one_page assms(1,2) _ assms(3)]) simp_all

section \<open>A new table\<close>

text \<open>The words the zeroing of a new table reaches: from the entry of the page to the end of the table, then
  the page that follows the window.\<close>

lemma window_zero_other:
  assumes "\<And>k. k < n \<Longrightarrow> window_word s (w + of_nat k) \<noteq> x"
  shows "pmem (window_zero w n s) x = pmem s x"
  using assms
proof (induction n arbitrary: w s)
  case (Suc n)
  have "window_word (window_write w 0 s) y = window_word s y" for y by (simp add: window_word_def window_write_def)
  moreover have "window_word s (w + 1 + of_nat k) \<noteq> x" if "k < n" for k
    using Suc.prems [of "Suc k"] that by (simp add: algebra_simps)
  ultimately have "pmem (window_zero (w + 1) n (window_write w 0 s)) x = pmem (window_write w 0 s) x"
    by (intro Suc.IH) simp
  then show ?case using Suc.prems [of 0] by (simp add: window_write_def)
qed simp

lemma window_zero_rest:
  "pdirs (window_zero w n s) = pdirs s" "spaces (window_zero w n s) = spaces s" "temp_pte (window_zero w n s) = temp_pte s"
  by (induction n arbitrary: w s) (simp_all add: window_write_def)

lemma get_page_kernel:
  fixes s :: kernel
  assumes "phys_wf s" and "MmGetPhysicalPage s = (f, s1)" and "f \<noteq> 0"
  shows "pdirs s1 = pdirs s" and "spaces s1 = spaces s" and "pmem s1 = pmem s" and "f mod PAGE_SIZE = 0"
proof -
  have "(\<exists>i. f = push_bit 12 i) \<and> pdirs s1 = pdirs s \<and> spaces s1 = spaces s \<and> pmem s1 = pmem s"
    by (rule MmGetPhysicalPage_cases [OF assms(1)]) (use assms(2,3) in auto)
  then show "pdirs s1 = pdirs s" "spaces s1 = spaces s" "pmem s1 = pmem s" "f mod PAGE_SIZE = 0"
    by (auto simp: push_page_mod)
qed

lemma new_de_frame: "pte_frame (f OR PAGE_ATTR_USER OR PAGE_ATTR_WRITE OR PAGE_ATTR_PRESENT) = drop_bit 12 f"
proof -
  have m: "f OR PAGE_ATTR_USER OR PAGE_ATTR_WRITE OR PAGE_ATTR_PRESENT = f OR 7" by (simp add: or.assoc)
  have "(7 :: u32) = mask 3" by (simp add: mask_eq_exp_minus_1)
  then show ?thesis unfolding m pte_frame_def by (intro bit_word_eqI) (auto simp: bit_simps dest: bit_imp_le_length)
qed

lemma new_de_nonzero: "f OR PAGE_ATTR_USER OR PAGE_ATTR_WRITE OR PAGE_ATTR_PRESENT \<noteq> 0"
proof -
  have "bit (f OR PAGE_ATTR_USER OR PAGE_ATTR_WRITE OR PAGE_ATTR_PRESENT) 0" by (simp add: bit_simps)
  then show ?thesis by (metis bit_0_eq bot_apply bot_bool_def)
qed

lemma set_dir_entry_get:
  "dir_entry space j (set_dir_entry space i e s) = (if j = i then e else dir_entry space j s)"
  "spaces (set_dir_entry space i e s) = spaces s" "pmem (set_dir_entry space i e s) = pmem s"
  by (simp_all add: set_dir_entry_def dir_entry_def Let_def)

text \<open>The words of the first entries of the table are not reached.\<close>

lemma window_low_kept:
  assumes j: "j < te" and te: "te < 1024" and f: "pte_frame (temp_pte s) \<noteq> 0x304" and k: "k < 1024"
  shows "window_word s (te + of_nat k) \<noteq> pte_frame (temp_pte s) * 1024 + j"
proof -
  let ?f = "pte_frame (temp_pte s)"
  have u: "unat (te + of_nat k) = unat te + k" using te k by (simp add: unat_plus_if' word_less_nat_alt unat_of_nat take_bit_nat_eq_self)
  note fl = pte_frame_less [of "temp_pte s"]
  have lt: "unat j < unat te" "unat te < 1024" using j te by (simp_all add: word_less_nat_alt)
  show ?thesis
  proof (cases "te + of_nat k < 1024")
    case True
    then have "unat te + k < 1024" using u by (simp add: word_less_nat_alt)
    then show ?thesis using True frame_word [OF fl, of "te + of_nat k"] frame_word [OF fl, of j] u lt
      by (auto simp: window_word_def dest!: arg_cong [where f = unat])
  next
    case False
    then have "1024 \<le> unat te + k" using u by (simp add: word_less_nat_alt)
    then have e: "unat (te + of_nat k - 1024) = unat te + k - 1024" using u by (simp add: unat_sub word_le_nat_alt)
    have "unat (0x304 * 1024 + (te + of_nat k - 1024)) = 0x304 * 1024 + (unat te + k - 1024)"
      using frame_word [of "0x304" "te + of_nat k - 1024"] e lt k by simp
    moreover have "unat (?f * 1024 + j) = unat ?f * 1024 + unat j" using frame_word [OF fl, of j] lt by simp
    moreover have "unat ?f \<noteq> 0x304" using f by (simp add: word_unat_eq_iff)
    ultimately have "unat (0x304 * 1024 + (te + of_nat k - 1024)) \<noteq> unat (?f * 1024 + j)"
      using digits_1024 [of "0x304" "unat te + k - 1024" "unat ?f" "unat j"] lt k by auto
    then show ?thesis using False by (auto simp: window_word_def)
  qed
qed


lemma new_table_low_entry:
  assumes g: "MmGetPhysicalPage s = (f, s1)" "f \<noteq> 0" "phys_wf s" and far: "pte_frame f \<noteq> 0x304"
    and d: "dir_entry space (drop_bit 22 v) s = 0" and al: "v mod PAGE_SIZE = 0" "p mod PAGE_SIZE = 0"
    and w: "drop_bit 22 w = drop_bit 22 v" "table_index w < table_index v"
    and z: "flag AND MAP_ZERO = 0"
  shows "\<exists>s'. ArMapOnePage space v p attr flag s = Some s' \<and>
    pte_of space s' w = Some (pmem s (pte_frame f * 1024 + table_index w))"
proof -
  let ?i = "drop_bit 22 v"
  define de where "de = f OR PAGE_ATTR_USER OR PAGE_ATTR_WRITE OR PAGE_ATTR_PRESENT"
  note k = get_page_kernel [OF g(3,1,2)]
  let ?s2 = "set_dir_entry space ?i de (set_dir_entry space ?i f s1)"
  let ?m = "map_in_table de True v p attr flag ?s2"
  have m: "ArMapOnePage space v p attr flag s = Some ?m"
    using al d g(1,2) unfolding de_def by (simp add: ArMapOnePage_def Let_def)
  have pf: "pte_frame de = pte_frame f" using new_de_frame [of f] unfolding de_def by (simp only: pte_frame_def)
  let ?t = "ArMapTemporaryPage (push_bit 12 (pte_frame de)) (?s2\<lparr>irq_enabled := False\<rparr>)"
  let ?x = "pte_frame f * 1024 + table_index w"
  have tf: "pte_frame (temp_pte ?t) = pte_frame f" unfolding pf [symmetric] by (simp add: ArMapTemporaryPage_def window_frame)
  have zero: "pmem (window_zero (table_index v) 1024 ?t) ?x = pmem ?t ?x"
    by (rule window_zero_other) (use window_low_kept [OF w(2) table_index_less, of ?t] far in \<open>simp add: tf\<close>)
  have wt: "window_word (window_zero (table_index v) 1024 ?t) y = window_word ?t y" for y
    by (simp add: window_word_def window_zero_rest)
  have ne: "window_word ?t (table_index v) \<noteq> ?x"
    using window_low_kept [OF w(2) table_index_less, of ?t 0] far by (simp add: tf)
  have "pmem ?m = (pmem (window_zero (table_index v) 1024 ?t))(window_word ?t (table_index v) :=
      new_pte p attr flag (window_read (table_index v) (window_zero (table_index v) 1024 ?t)))"
    using z by (simp add: map_in_table_def Let_def ArLocalSaveIrq_def ArLocalRestoreIrq_def window_write_def wt)
  then have pm: "pmem ?m ?x = pmem s ?x" using zero ne k by (simp add: ArMapTemporaryPage_def set_dir_entry_get)
  have dm: "pdirs ?m = pdirs ?s2" "spaces ?m = spaces ?s2"
    using z by (simp_all add: map_in_table_def Let_def ArLocalSaveIrq_def ArLocalRestoreIrq_def window_write_def
        window_zero_rest ArMapTemporaryPage_def)
  have "dir_entry space (drop_bit 22 w) ?m = de"
    unfolding dir_entry_cong [OF dm] w(1) by (simp add: set_dir_entry_get)
  then have "pte_of space ?m w = Some (pmem ?m (pte_word de w))" using new_de_nonzero [of f, folded de_def] by (simp add: pte_of_def Let_def)
  with m pm show ?thesis by (simp add: pte_word_def pf)
qed

section \<open>Properties\<close>

text \<open>A kernel with one page table, in frame 0x200, for the first 4 MB of the space at address 0, and the
  pool of physical memory of \<open>phys0\<close>.\<close>

definition kernel_pt :: kernel where
  "kernel_pt = kernel0\<lparr>pdirs := (\<lambda>_ i. if i = 0 then 0x200007 else 0), pmem := (\<lambda>_. 7),
     total_pages := total_pages phys0, page_ref := page_ref phys0, page_used := page_used phys0,
     page_front := page_front phys0, page_it := page_it phys0\<rparr>"

lemma kernel_pt_tables: "tables_ok sp kernel_pt"
  by (simp add: tables_ok_def dir_entry_def kernel_pt_def)

lemma kernel_pt_dir: "dir_entry sp i kernel_pt = (if i = 0 then 0x200007 else 0)"
  by (simp add: dir_entry_def kernel_pt_def)

text \<open>(C8) After \<open>ArUnmapMultiplePages\<close> no page of the range is present: each is reported at address 0 without
  attributes, or has no page table; the pages outside the range are reported as before.\<close>
theorem unmap_clears:
  assumes "tables_ok space s" and "v mod PAGE_SIZE = 0"
  shows "\<exists>s'. ArUnmapMultiplePages space v siz s = Some s' \<and>
    (\<forall>k < unat (drop_bit 12 siz). query_result space (v + of_nat k * PAGE_SIZE) s' =
       Some (if dir_entry space (drop_bit 22 (v + of_nat k * PAGE_SIZE)) s = 0 then (- 1, None) else (0, Some (0, 0)))) \<and>
    (\<forall>w. w mod PAGE_SIZE = 0 \<longrightarrow> (\<forall>k < unat (drop_bit 12 siz). w \<noteq> v + of_nat k * PAGE_SIZE) \<longrightarrow>
       query_result space w s' = query_result space w s)"
proof -
  let ?n = "unat (drop_bit 12 siz)" let ?f = "MAP_ADDRESS OR MAP_ATTRIBUTE :: u32"
  from unmap_pages_spec [OF assms page_count, of siz] obtain s' where
    s': "unmap_pages ?n space v s = Some s'" "range_mapped space (\<lambda>_. new_pte 0 0 ?f) ?n v 0 s s'" by blast
  have "query_result space (v + of_nat k * PAGE_SIZE) s' =
      Some (if dir_entry space (drop_bit 22 (v + of_nat k * PAGE_SIZE)) s = 0 then (- 1, None) else (0, Some (0, 0)))"
    if k: "k < ?n" for k
  proof -
    have "pte_of space s' (v + of_nat k * PAGE_SIZE) = map_option (new_pte 0 0 ?f) (pte_of space s (v + of_nat k * PAGE_SIZE))"
      using s'(2) k by (simp add: range_mapped_def)
    then show ?thesis
      unfolding query_result_pte [OF page_step [OF assms(2)]] using new_pte_unmapped
      by (cases "dir_entry space (drop_bit 22 (v + of_nat k * PAGE_SIZE)) s = 0") (simp_all add: pte_of_def)
  qed
  moreover have "query_result space w s' = query_result space w s"
    if "w mod PAGE_SIZE = 0" "\<forall>k < ?n. w \<noteq> v + of_nat k * PAGE_SIZE" for w
    using s'(2) that query_result_pte [OF that(1)] by (simp only: range_mapped_def)
  ultimately show ?thesis using s'(1) by (auto simp: ArUnmapMultiplePages_def)
qed

lemma unmap_clears_witness:
  "\<exists>s'. ArUnmapMultiplePages 0 0x3000 0x1000 kernel_pt = Some s' \<and> query_result 0 0x3000 s' = Some (0, Some (0, 0))"
proof -
  have n: "unat (drop_bit 12 0x1000 :: u32) = 1" by (simp add: drop_bit_eq_div)
  have m: "(0x3000 :: u32) mod PAGE_SIZE = 0" by (simp add: word_mod_def)
  show ?thesis using unmap_clears [OF kernel_pt_tables m, of 0 "0x1000"] unfolding n kernel_pt_dir
    by (auto simp: drop_bit_eq_div)
qed

text \<open>(C9) A page table that \<open>ArMapOnePage\<close> creates is zeroed only from the entry of the page on: the entries
  before it keep what the frame held, and pages that nobody mapped are reported with that content.\<close>
theorem new_table_keeps_garbage:
  assumes "MmGetPhysicalPage s = (f, s1)" "f \<noteq> 0" "phys_wf s" and "pte_frame f \<noteq> 0x304"
    and "dir_entry space (drop_bit 22 v) s = 0" and "v mod PAGE_SIZE = 0" "p mod PAGE_SIZE = 0" "w mod PAGE_SIZE = 0"
    and "drop_bit 22 w = drop_bit 22 v" "table_index w < table_index v"
  shows "\<exists>s'. ArMapOnePage space v p attr (MAP_ADDRESS OR MAP_ATTRIBUTE) s = Some s' \<and>
    query_result space w s = Some (- 1, None) \<and>
    query_result space w s' = Some (0, Some (pte_info (pmem s (pte_frame f * 1024 + table_index w))))"
proof -
  from new_table_low_entry [OF assms(1-7,9,10) map_zero_not, of attr] obtain s' where
    "ArMapOnePage space v p attr (MAP_ADDRESS OR MAP_ATTRIBUTE) s = Some s'"
    "pte_of space s' w = Some (pmem s (pte_frame f * 1024 + table_index w))" by blast
  moreover have "pte_of space s w = None" using assms(5,9) by (simp add: pte_of_def)
  ultimately show ?thesis by (simp add: query_result_pte [OF assms(8)])
qed

lemma new_table_keeps_garbage_witness:
  "\<exists>s'. ArMapOnePage 0 0x403000 0x50000 3 (MAP_ADDRESS OR MAP_ATTRIBUTE) kernel_pt = Some s' \<and>
     query_result 0 0x401000 kernel_pt = Some (- 1, None) \<and> query_result 0 0x401000 s' = Some (0, Some (0, 7))"
proof -
  have wf: "phys_wf kernel_pt" using phys0_wf by (simp add: phys_wf_def kernel_pt_def)
  obtain i where i: "in_pool kernel_pt i"
    "MmGetPhysicalPage kernel_pt = (push_bit 12 i, kernel_pt\<lparr>page_ref := (page_ref kernel_pt)(i := 1), page_it := i + 1\<rparr>)"
  proof (rule MmGetPhysicalPage_cases [OF wf])
    fix it assume n: "\<And>i. in_pool kernel_pt i \<Longrightarrow> page_ref kernel_pt i \<noteq> 0"
    have "in_pool kernel_pt 0x401 \<and> page_ref kernel_pt 0x401 = 0"
      by (simp add: kernel_pt_def in_pool_def phys0_def MmInitializePhysicalMemoryManagement_def PHYS_ADDR_TO_PAGE_INDEX_def drop_bit_eq_div)
    with n show thesis by blast
  qed (use that in blast)
  have b: "0x400 \<le> i" "i < 0x404" using i(1)
    by (simp_all add: kernel_pt_def in_pool_def phys0_def MmInitializePhysicalMemoryManagement_def PHYS_ADDR_TO_PAGE_INDEX_def drop_bit_eq_div)
  have l: "i < 2 ^ 20" by (rule less_trans [OF b(2)]) simp
  have pf: "pte_frame (push_bit 12 i) = i" unfolding pte_frame_def by (rule drop_push_page [OF l])
  have far: "pte_frame (push_bit 12 i) \<noteq> 0x304" unfolding pf using b(1) by auto
  have f0: "push_bit 12 i \<noteq> 0"
  proof
    assume "push_bit 12 i = 0"
    then have "i = 0" using pf by (simp add: pte_frame_def)
    with b(1) show False by simp
  qed
  have m: "(0x403000 :: u32) mod PAGE_SIZE = 0" "(0x50000 :: u32) mod PAGE_SIZE = 0" "(0x401000 :: u32) mod PAGE_SIZE = 0"
    by (simp_all add: word_mod_def)
  have t: "drop_bit 22 (0x401000 :: u32) = drop_bit 22 0x403000" "table_index 0x401000 < table_index 0x403000"
    "dir_entry 0 (drop_bit 22 0x403000) kernel_pt = 0"
    by (simp_all add: table_index_def drop_bit_eq_div push_bit_eq_mult kernel_pt_dir)
  have p: "pte_info 7 = (0, 7)" by (simp add: pte_info_def pte_frame_def pte_flag_def drop_bit_eq_div)
  from new_table_keeps_garbage [OF i(2) f0 wf far t(3) m t(1,2), of 3] show ?thesis
    by (simp only: kernel_pt_def kernel.select_convs kernel.surjective kernel.update_convs p) (simp add: kernel_pt_def p)
qed

end
