(* ===== verification/PagingMap.thy ===== *)
theory PagingMap
  imports PagingInv
begin

text \<open>
  Mapping a range of pages, whether their page tables exist or are created on the way: \<open>maps_ok\<close> is what a space
  and the pool of frames keep, \<open>map_pages_all\<close> follows the loop.
\<close>

section \<open>The frames of page tables\<close>

text \<open>The tables of a space lie in frames of their own that are not free; the window reaches into frame 0x304.\<close>

definition held_frame :: "kernel \<Rightarrow> u32 \<Rightarrow> bool" where
  "held_frame s f \<longleftrightarrow> \<not> (in_pool s f \<and> page_ref s f = 0) \<and> f \<noteq> 0x304"

definition no_frame :: "kernel \<Rightarrow> bool" where
  "no_frame s \<longleftrightarrow> (\<forall>i. in_pool s i \<longrightarrow> page_ref s i \<noteq> 0)"

definition maps_ok :: "u32 \<Rightarrow> kernel \<Rightarrow> bool" where
  "maps_ok space s \<longleftrightarrow> phys_wf s \<and> \<not> in_pool s 0x304 \<and> tables_ok space s \<and>
     (\<forall>i. dir_entry space i s \<noteq> 0 \<longrightarrow> held_frame s (pte_frame (dir_entry space i s)))"

definition same_frames :: "kernel \<Rightarrow> kernel \<Rightarrow> bool" where
  "same_frames s t \<longleftrightarrow> page_ref t = page_ref s \<and> total_pages t = total_pages s \<and> page_front t = page_front s \<and>
     page_used t = page_used s \<and> page_it t = page_it s"

lemma same_frames_refl [simp]: "same_frames s s"
  by (simp add: same_frames_def)

lemma same_frames_trans: "same_frames s t \<Longrightarrow> same_frames t u \<Longrightarrow> same_frames s u"
  by (simp add: same_frames_def)

lemma same_framesD:
  assumes "same_frames s t"
  shows "in_pool t f = in_pool s f" "phys_wf t = phys_wf s" "held_frame t f = held_frame s f" "no_frame t = no_frame s"
  using assms by (simp_all add: same_frames_def in_pool_def phys_wf_def held_frame_def no_frame_def)

lemma window_frames [simp]:
  "same_frames s (window_zero w n t) = same_frames s t" "same_frames s (window_write w v t) = same_frames s t"
  "same_frames s (ArMapTemporaryPage p t) = same_frames s t" "same_frames s (set_dir_entry space i e t) = same_frames s t"
  by (induction n arbitrary: w t) (simp_all add: same_frames_def window_write_def ArMapTemporaryPage_def set_dir_entry_def Let_def)

lemma map_in_table_frames: "same_frames s (map_in_table de new v p attr flag s)"
proof -
  have irq: "same_frames s (t\<lparr>irq_enabled := b\<rparr>) = same_frames s t" for t b by (simp add: same_frames_def)
  show ?thesis by (simp add: map_in_table_def Let_def ArLocalSaveIrq_def ArLocalRestoreIrq_def irq)
qed

section \<open>One page\<close>

text \<open>What mapping the page \<open>v\<close> does: the entry is set, or there was no frame for its table; tables that exist keep
  their other entries.\<close>

definition page_mapped :: "u32 \<Rightarrow> (u32 \<Rightarrow> u32) \<Rightarrow> u32 \<Rightarrow> kernel \<Rightarrow> kernel \<Rightarrow> bool" where
  "page_mapped space g v s s' \<longleftrightarrow> (\<exists>e. pte_of space s' v = Some (g e)) \<or>
     dir_entry space (drop_bit 22 v) s = 0 \<and> dir_entry space (drop_bit 22 v) s' = 0 \<and> no_frame s'"

definition tables_kept :: "u32 \<Rightarrow> u32 set \<Rightarrow> kernel \<Rightarrow> kernel \<Rightarrow> bool" where
  "tables_kept space V s s' \<longleftrightarrow> maps_ok space s' \<and>
     (\<forall>i. dir_entry space i s \<noteq> 0 \<or> no_frame s \<or> i \<notin> drop_bit 22 ` V \<longrightarrow> dir_entry space i s' = dir_entry space i s) \<and>
     (\<forall>w. w mod PAGE_SIZE = 0 \<longrightarrow> w \<notin> V \<longrightarrow> dir_entry space (drop_bit 22 w) s \<noteq> 0 \<longrightarrow> pte_of space s' w = pte_of space s w) \<and>
     (no_frame s \<longrightarrow> no_frame s')"

lemma map_existing:
  assumes "maps_ok space s" and "v mod PAGE_SIZE = 0" and "p mod PAGE_SIZE = 0" and z: "flag AND MAP_ZERO = 0"
    and d: "dir_entry space (drop_bit 22 v) s \<noteq> 0"
  shows "\<exists>s'. ArMapOnePage space v p attr flag s = Some s' \<and> page_mapped space (new_pte p attr flag) v s s' \<and> tables_kept space {v} s s'"
proof -
  have t: "tables_ok space s" using assms(1) by (simp add: maps_ok_def)
  from map_one_page [OF t assms(2,3) d z, of attr] obtain s' where s': "ArMapOnePage space v p attr flag s = Some s'"
    "pdirs s' = pdirs s" "spaces s' = spaces s" "\<forall>w. w mod PAGE_SIZE = 0 \<longrightarrow> pte_of space s' w =
       (if w = v then map_option (new_pte p attr flag) (pte_of space s v) else pte_of space s w)" by blast
  have "s' = map_in_table (dir_entry space (drop_bit 22 v) s) False v p attr flag s"
    using s'(1) assms(2,3) d by (simp add: ArMapOnePage_def Let_def)
  then have f: "same_frames s s'" using map_in_table_frames by simp
  note de = dir_entry_cong [OF s'(2,3)]
  have "maps_ok space s'"
    using assms(1) tables_ok_cong [OF s'(2,3)] unfolding maps_ok_def same_framesD [OF f] de by simp
  moreover obtain e where "pte_of space s v = Some e" using d pte_of_some by blast
  ultimately show ?thesis
    using s'(1,4) assms(2) by (auto simp: page_mapped_def tables_kept_def de same_framesD [OF f])
qed

text \<open>A new table in frame \<open>f\<close>: zeroing it stays inside the frame and frame 0x304.\<close>

lemma window_outside:
  assumes "te < 1024" and "k < 1024" and "pte_frame de \<noteq> pte_frame (temp_pte t)" and "pte_frame de \<noteq> 0x304"
  shows "window_word t (te + of_nat k) \<noteq> pte_word de w"
proof
  assume e: "window_word t (te + of_nat k) = pte_word de w"
  have u: "unat (te + of_nat k) = unat te + k" using assms(1,2) by (simp add: unat_plus_if' word_less_nat_alt unat_of_nat take_bit_nat_eq_self)
  have te: "unat te < 1024" and ti: "unat (table_index w) < 1024" using assms(1) table_index_less [of w] by (simp_all add: word_less_nat_alt)
  have pw: "unat (pte_word de w) = unat (pte_frame de) * 1024 + unat (table_index w)"
    unfolding pte_word_def by (rule frame_word [OF pte_frame_less ti])
  show False
  proof (cases "te + of_nat k < 1024")
    case True
    then have lt: "unat (te + of_nat k) < 1024" by (simp add: word_less_nat_alt)
    have "unat (window_word t (te + of_nat k)) = unat (pte_frame (temp_pte t)) * 1024 + unat (te + of_nat k)"
      using True frame_word [OF pte_frame_less lt] by (simp add: window_word_def)
    with e pw digits_1024 [OF _ lt ti] have "unat (pte_frame (temp_pte t)) = unat (pte_frame de)" by metis
    with assms(3) show False by (simp add: word_unat_eq_iff)
  next
    case False
    then have "1024 \<le> unat te + k" using u by (simp add: word_less_nat_alt)
    then have o': "unat (te + of_nat k - 1024) = unat te + k - 1024" using u by (simp add: unat_sub word_le_nat_alt)
    then have lt: "unat (te + of_nat k - 1024) < 1024" using te assms(2) by simp
    have "unat (window_word t (te + of_nat k)) = unat (0x304 :: u32) * 1024 + unat (te + of_nat k - 1024)"
      using False frame_word [of "0x304" "te + of_nat k - 1024"] lt by (simp add: window_word_def)
    with e pw digits_1024 [OF _ lt ti] have "unat (0x304 :: u32) = unat (pte_frame de)" by metis
    with assms(4) show False by (simp only: word_unat_eq_iff)
  qed
qed

lemma map_in_new_table:
  fixes s :: kernel and de v p attr flag :: u32
  assumes "flag AND MAP_ZERO = 0"
  defines "s' \<equiv> map_in_table de True v p attr flag s"
  shows "pdirs s' = pdirs s" and "spaces s' = spaces s" and "\<exists>e. pmem s' (pte_word de v) = new_pte p attr flag e"
    and "pte_frame d \<noteq> pte_frame de \<Longrightarrow> pte_frame d \<noteq> 0x304 \<Longrightarrow> pmem s' (pte_word d w) = pmem s (pte_word d w)"
proof -
  let ?t = "ArMapTemporaryPage (push_bit 12 (pte_frame de)) (s\<lparr>irq_enabled := False\<rparr>)"
  let ?z = "window_zero (table_index v) 1024 ?t"
  have wt: "window_word ?z y = window_word ?t y" for y by (simp add: window_word_def window_zero_rest)
  have tw: "window_word ?t (table_index v) = pte_word de v" by (rule window_table)
  have pm: "pmem s' = (pmem ?z)(pte_word de v := new_pte p attr flag (window_read (table_index v) ?z))"
    using assms(1) by (simp add: s'_def map_in_table_def Let_def ArLocalSaveIrq_def ArLocalRestoreIrq_def window_write_def wt tw)
  show "pdirs s' = pdirs s" "spaces s' = spaces s"
    using assms(1) by (simp_all add: s'_def map_in_table_def Let_def ArLocalSaveIrq_def ArLocalRestoreIrq_def window_write_def
        window_zero_rest ArMapTemporaryPage_def)
  show "\<exists>e. pmem s' (pte_word de v) = new_pte p attr flag e" by (auto simp: pm)
  assume d: "pte_frame d \<noteq> pte_frame de" "pte_frame d \<noteq> 0x304"
  have tf: "pte_frame (temp_pte ?t) = pte_frame de" by (simp add: ArMapTemporaryPage_def window_frame)
  have "pmem ?z (pte_word d w) = pmem ?t (pte_word d w)"
    by (rule window_zero_other) (use window_outside [OF table_index_less, of _ d ?t v w] d tf in simp)
  moreover have "pte_word d w \<noteq> pte_word de v" using pte_word_inj(1) d(1) by blast
  ultimately show "pmem s' (pte_word d w) = pmem s (pte_word d w)" by (simp add: pm ArMapTemporaryPage_def)
qed

lemma map_new:
  assumes ok: "maps_ok space s" and "v mod PAGE_SIZE = 0" and "p mod PAGE_SIZE = 0" and z: "flag AND MAP_ZERO = 0"
    and d: "dir_entry space (drop_bit 22 v) s = 0"
  shows "\<exists>s'. ArMapOnePage space v p attr flag s = Some s' \<and> page_mapped space (new_pte p attr flag) v s s' \<and> tables_kept space {v} s s'"
proof -
  let ?i = "drop_bit 22 v"
  have wf: "phys_wf s" using ok by (simp add: maps_ok_def)
  show ?thesis
  proof (rule MmGetPhysicalPage_cases [OF wf])
    fix it assume full: "\<And>i. in_pool s i \<Longrightarrow> page_ref s i \<noteq> 0" and it: "it \<le> total_pages s"
      and g: "MmGetPhysicalPage s = (0, s\<lparr>page_it := it\<rparr>)"
    let ?s = "set_dir_entry space ?i 0 (s\<lparr>page_it := it\<rparr>)"
    have m: "ArMapOnePage space v p attr flag s = Some ?s" using assms(2,3) d g by (simp add: ArMapOnePage_def Let_def)
    have de: "dir_entry space j ?s = dir_entry space j s" for j
      using d by (simp add: set_dir_entry_get) (simp add: dir_entry_def)
    have fr: "in_pool ?s j = in_pool s j" "page_ref ?s = page_ref s" "pmem ?s = pmem s" "phys_wf ?s" for j
      using wf it by (simp_all add: in_pool_def phys_wf_def set_dir_entry_def Let_def)
    have nf: "no_frame ?s" using full by (simp add: no_frame_def fr)
    have "maps_ok space ?s" using ok by (simp add: maps_ok_def tables_ok_def held_frame_def de fr)
    moreover have "pte_of space ?s w = pte_of space s w" for w by (simp only: pte_of_def de fr)
    ultimately have "tables_kept space {v} s ?s" using nf by (simp add: tables_kept_def de)
    with m nf d show ?thesis by (auto simp: page_mapped_def de)
  next
    fix f assume f: "in_pool s f" "page_ref s f = 0"
      and g: "MmGetPhysicalPage s = (push_bit 12 f, s\<lparr>page_ref := (page_ref s)(f := 1), page_it := f + 1\<rparr>)"
    let ?s1 = "s\<lparr>page_ref := (page_ref s)(f := 1), page_it := f + 1\<rparr>"
    define de where "de = push_bit 12 f OR PAGE_ATTR_USER OR PAGE_ATTR_WRITE OR PAGE_ATTR_PRESENT"
    let ?s2 = "set_dir_entry space ?i de (set_dir_entry space ?i (push_bit 12 f) ?s1)"
    let ?s = "map_in_table de True v p attr flag ?s2"
    have pf: "pte_frame de = f"
      using new_de_frame [of "push_bit 12 f"] drop_push_page [OF in_pool_less [OF wf f(1)]] unfolding de_def by simp
    have m: "ArMapOnePage space v p attr flag s = Some ?s"
      using assms(2,3) d g page_addr_nonzero [OF wf f(1)] unfolding de_def by (simp add: ArMapOnePage_def Let_def)
    note mt = map_in_new_table [OF z, where de = de and v = v and p = p and attr = attr and s = ?s2]
    have ds: "dir_entry space j ?s = (if j = ?i then de else dir_entry space j s)" for j
      unfolding dir_entry_cong [OF mt(1,2)] by (simp add: set_dir_entry_get) (simp add: dir_entry_def)
    have sf: "same_frames ?s1 ?s" by (rule same_frames_trans [OF _ map_in_table_frames]) simp
    have "in_pool ?s j = in_pool s j" for j unfolding same_framesD [OF sf] by (simp add: in_pool_def)
    moreover have "page_ref ?s = (page_ref s)(f := 1)" using sf by (simp add: same_frames_def)
    moreover have "phys_wf ?s1" by (rule MmGetPhysicalPage_wf [OF wf g])
    ultimately have fr: "in_pool ?s j = in_pool s j" "page_ref ?s = (page_ref s)(f := 1)" "phys_wf ?s" for j
      unfolding same_framesD(2) [OF sf] by blast+
    have f304: "f \<noteq> 0x304" using ok f(1) by (auto simp: maps_ok_def)
    have old: "pte_frame (dir_entry space j s) \<noteq> f" "pte_frame (dir_entry space j s) \<noteq> 0x304" if "dir_entry space j s \<noteq> 0" for j
      using ok that f by (auto simp: maps_ok_def held_frame_def)
    have nz: "de \<noteq> 0" unfolding de_def by (rule new_de_nonzero)
    have "tables_ok space ?s" unfolding tables_ok_def ds
      using ok old(1) unfolding maps_ok_def tables_ok_def by (auto simp: pf)
    moreover have "held_frame ?s (pte_frame (dir_entry space j ?s))" if "dir_entry space j ?s \<noteq> 0" for j
      using that ok pf f304 unfolding ds held_frame_def fr by (auto simp: maps_ok_def held_frame_def split: if_splits)
    ultimately have "maps_ok space ?s" using ok fr by (simp add: maps_ok_def)
    moreover have "pte_of space ?s w = pte_of space s w" if w: "dir_entry space (drop_bit 22 w) s \<noteq> 0" for w
    proof -
      have "drop_bit 22 w \<noteq> ?i" using w d by auto
      then show ?thesis using w mt(4) [of "dir_entry space (drop_bit 22 w) s" w] old [OF w] pf
        by (simp add: pte_of_def ds set_dir_entry_get)
    qed
    moreover have "\<not> no_frame s" using f by (auto simp: no_frame_def)
    ultimately have "tables_kept space {v} s ?s" using d by (auto simp: tables_kept_def ds)
    moreover obtain e where "pmem ?s (pte_word de v) = new_pte p attr flag e" using mt(3) by blast
    then have "pte_of space ?s v = Some (new_pte p attr flag e)" using nz by (simp add: pte_of_def ds)
    ultimately show ?thesis using m by (auto simp: page_mapped_def)
  qed
qed

section \<open>A range of pages\<close>

definition page_range :: "u32 \<Rightarrow> nat \<Rightarrow> u32 set" where
  "page_range v n = (\<lambda>k. v + of_nat k * PAGE_SIZE) ` {..<n}"

lemma page_range_Suc: "page_range v (Suc n) = insert v (page_range (v + PAGE_SIZE) n)"
proof -
  have "{..<Suc n} = insert 0 (Suc ` {..<n})" by (auto simp: less_Suc_eq_0_disj)
  then show ?thesis unfolding page_range_def by (simp add: image_image algebra_simps)
qed

lemma page_range_fresh: "Suc n \<le> 2 ^ 20 \<Longrightarrow> v \<notin> page_range (v + PAGE_SIZE) n"
  using page_distinct [of "Suc _" v] unfolding page_range_def step_page by fastforce

lemma map_pages_all:
  assumes "maps_ok space s" and "v mod PAGE_SIZE = 0" and "p mod PAGE_SIZE = 0" and "n \<le> 2 ^ 20" and z: "flag AND MAP_ZERO = 0"
  shows "\<exists>s'. map_pages n space v p attr flag s = Some s' \<and> tables_kept space (page_range v n) s s' \<and>
    (\<forall>k<n. page_mapped space (new_pte (p + of_nat k * PAGE_SIZE) attr flag) (v + of_nat k * PAGE_SIZE) s s')"
  using assms(1-4)
proof (induction n arbitrary: v p s)
  case 0
  then show ?case by (simp add: tables_kept_def page_range_def)
next
  case (Suc n)
  obtain s1 where s1: "ArMapOnePage space v p attr flag s = Some s1" "page_mapped space (new_pte p attr flag) v s s1" "tables_kept space {v} s s1"
    using map_existing [OF Suc.prems(1-3) z, of attr] map_new [OF Suc.prems(1-3) z, of attr] by blast
  have ok: "maps_ok space s1" "n \<le> 2 ^ 20" using s1(3) Suc.prems(4) by (simp_all add: tables_kept_def)
  from Suc.IH [OF ok(1) page_next [OF Suc.prems(2)] page_next [OF Suc.prems(3)] ok(2)] obtain s2 where
    s2: "map_pages n space (v + PAGE_SIZE) (p + PAGE_SIZE) attr flag s1 = Some s2" "tables_kept space (page_range (v + PAGE_SIZE) n) s1 s2"
    "\<forall>k<n. page_mapped space (new_pte (p + of_nat (Suc k) * PAGE_SIZE) attr flag) (v + of_nat (Suc k) * PAGE_SIZE) s1 s2"
    unfolding step_page by blast
  have fresh: "v \<notin> page_range (v + PAGE_SIZE) n" by (rule page_range_fresh [OF Suc.prems(4)])
  have "tables_kept space (page_range v (Suc n)) s s2"
    using s1(3) s2(2) unfolding tables_kept_def page_range_Suc by (smt (verit) image_insert insert_iff image_empty empty_iff)
  moreover have first: "page_mapped space (new_pte p attr flag) v s s2"
  proof (cases "dir_entry space (drop_bit 22 v) s1 = 0")
    case True
    then have "pte_of space s1 v = None" by (simp add: pte_of_def)
    with s1(2) have "no_frame s1" "dir_entry space (drop_bit 22 v) s = 0" by (simp_all add: page_mapped_def)
    with True s2(2) show ?thesis by (simp add: page_mapped_def tables_kept_def)
  next
    case False
    with s1(2) obtain e where "pte_of space s1 v = Some (new_pte p attr flag e)" by (auto simp: page_mapped_def)
    with False fresh Suc.prems(2) s2(2) show ?thesis by (auto simp: page_mapped_def tables_kept_def)
  qed
  moreover have "page_mapped space g w s s2" if "page_mapped space g w s1 s2" for g w
    using that s1(3) unfolding page_mapped_def tables_kept_def by metis
  with s2(3) have "page_mapped space (new_pte (p + of_nat (Suc k) * PAGE_SIZE) attr flag) (v + of_nat (Suc k) * PAGE_SIZE) s s2" if "k < n" for k
    using that by blast
  then have "page_mapped space (new_pte (p + of_nat k * PAGE_SIZE) attr flag) (v + of_nat k * PAGE_SIZE) s s2" if "k < Suc n" for k
    using that first by (cases k) simp_all
  ultimately show ?case using s1(1) s2(1) by auto
qed

section \<open>The property\<close>

text \<open>(C7) \<open>ArMapMultiplePages\<close> followed by \<open>ArQueryPageInformation\<close>: after mapping a range, whether its page tables
  exist or are created on the way, every page of the range is reported at its physical address with the attributes
  asked for. The only exception is a page without a table once no frame is left: it is reported as not mapped, though
  the call reports nothing. Pages outside the range are reported as before if their page table existed or if no page of
  the range shares it; of the other pages in a table that is created nothing can be said, as the code does not clear it.
  The range may be the whole address space.\<close>
theorem map_query_roundtrip:
  assumes "maps_ok space s" and "v mod PAGE_SIZE = 0" and "p mod PAGE_SIZE = 0"
  shows "\<exists>s'. ArMapMultiplePages space v p siz attr (MAP_ADDRESS OR MAP_ATTRIBUTE) s = Some s' \<and> maps_ok space s' \<and>
    (\<forall>k < unat (drop_bit 12 siz). query_result space (v + of_nat k * PAGE_SIZE) s' = Some (0, Some (p + of_nat k * PAGE_SIZE, attr AND 7)) \<or>
       dir_entry space (drop_bit 22 (v + of_nat k * PAGE_SIZE)) s = 0 \<and> no_frame s' \<and>
       query_result space (v + of_nat k * PAGE_SIZE) s' = Some (- 1, None)) \<and>
    (\<forall>w. w mod PAGE_SIZE = 0 \<longrightarrow> (\<forall>k < unat (drop_bit 12 siz). w \<noteq> v + of_nat k * PAGE_SIZE) \<longrightarrow>
       dir_entry space (drop_bit 22 w) s \<noteq> 0 \<or> (\<forall>k < unat (drop_bit 12 siz). drop_bit 22 w \<noteq> drop_bit 22 (v + of_nat k * PAGE_SIZE)) \<longrightarrow>
       query_result space w s' = query_result space w s)"
proof -
  let ?n = "unat (drop_bit 12 siz)" let ?f = "MAP_ADDRESS OR MAP_ATTRIBUTE :: u32"
  from map_pages_all [OF assms page_count map_zero_not, of siz attr] obtain s' where
    s': "map_pages ?n space v p attr ?f s = Some s'" "tables_kept space (page_range v ?n) s s'"
    "\<forall>k<?n. page_mapped space (new_pte (p + of_nat k * PAGE_SIZE) attr ?f) (v + of_nat k * PAGE_SIZE) s s'" by blast
  have "query_result space (v + of_nat k * PAGE_SIZE) s' = Some (0, Some (p + of_nat k * PAGE_SIZE, attr AND 7)) \<or>
      dir_entry space (drop_bit 22 (v + of_nat k * PAGE_SIZE)) s = 0 \<and> no_frame s' \<and>
      query_result space (v + of_nat k * PAGE_SIZE) s' = Some (- 1, None)" if k: "k < ?n" for k
  proof -
    have "page_mapped space (new_pte (p + of_nat k * PAGE_SIZE) attr ?f) (v + of_nat k * PAGE_SIZE) s s'" using s'(3) k by blast
    then consider e where "pte_of space s' (v + of_nat k * PAGE_SIZE) = Some (new_pte (p + of_nat k * PAGE_SIZE) attr ?f e)"
      | "dir_entry space (drop_bit 22 (v + of_nat k * PAGE_SIZE)) s = 0" "no_frame s'" "pte_of space s' (v + of_nat k * PAGE_SIZE) = None"
      unfolding page_mapped_def by (auto simp: pte_of_def)
    then show ?thesis
      unfolding query_result_pte [OF page_step [OF assms(2)]] using new_pte_info [OF page_step [OF assms(3)]] by cases simp_all
  qed
  moreover have "query_result space w s' = query_result space w s"
    if w: "w mod PAGE_SIZE = 0" "\<forall>k < ?n. w \<noteq> v + of_nat k * PAGE_SIZE"
      and d: "dir_entry space (drop_bit 22 w) s \<noteq> 0 \<or> (\<forall>k < ?n. drop_bit 22 w \<noteq> drop_bit 22 (v + of_nat k * PAGE_SIZE))" for w
  proof -
    have "w \<notin> page_range v ?n" using w(2) by (auto simp: page_range_def)
    moreover have "dir_entry space (drop_bit 22 w) s' = dir_entry space (drop_bit 22 w) s"
      using d s'(2) unfolding tables_kept_def page_range_def by blast
    ultimately have "pte_of space s' w = pte_of space s w"
    proof (cases "dir_entry space (drop_bit 22 w) s = 0")
      case True
      with \<open>dir_entry space (drop_bit 22 w) s' = _\<close> show ?thesis by (simp add: pte_of_def)
    qed (use w(1) s'(2) \<open>w \<notin> _\<close> in \<open>simp add: tables_kept_def\<close>)
    then show ?thesis by (simp add: query_result_pte [OF w(1)])
  qed
  ultimately show ?thesis using s'(1,2) by (auto simp: ArMapMultiplePages_def tables_kept_def)
qed

lemma kernel_pt_maps: "maps_ok 0 kernel_pt"
  using phys0_wf kernel_pt_tables [of 0]
  by (simp add: maps_ok_def held_frame_def kernel_pt_dir pte_frame_def)
    (simp add: phys_wf_def kernel_pt_def in_pool_def phys0_def MmInitializePhysicalMemoryManagement_def PHYS_ADDR_TO_PAGE_INDEX_def drop_bit_eq_div)

text \<open>Two pages, the last of a table that exists and the first of one that does not.\<close>

theorem map_query_roundtrip_witness:
  "\<exists>s'. ArMapMultiplePages 0 0x3FF000 0x50000 0x2000 3 (MAP_ADDRESS OR MAP_ATTRIBUTE) kernel_pt = Some s' \<and>
     query_result 0 0x3FF000 s' = Some (0, Some (0x50000, 3)) \<and>
     (query_result 0 0x400000 s' = Some (0, Some (0x51000, 3)) \<or> no_frame s') \<and> query_result 0 0x3000 s' = Some (0, Some (0, 7))"
proof -
  have n: "unat (drop_bit 12 0x2000 :: u32) = 2" by (simp add: drop_bit_eq_div)
  have m: "(0x3FF000 :: u32) mod PAGE_SIZE = 0" "(0x50000 :: u32) mod PAGE_SIZE = 0" "(0x3000 :: u32) mod PAGE_SIZE = 0"
    by (simp_all add: word_mod_def)
  have d: "dir_entry 0 (drop_bit 22 0x3FF000) kernel_pt \<noteq> 0" "dir_entry 0 (drop_bit 22 0x3000) kernel_pt \<noteq> 0"
    unfolding kernel_pt_dir by (simp_all add: drop_bit_eq_div)
  have q: "query_result 0 0x3000 kernel_pt = Some (0, Some (0, 7))"
    unfolding query_result_pte [OF m(3)]
    by (simp add: pte_of_def kernel_pt_dir drop_bit_eq_div) (simp add: kernel_pt_def pte_info_def pte_frame_def pte_flag_def drop_bit_eq_div)
  from map_query_roundtrip [OF kernel_pt_maps m(1,2), of "0x2000" 3] obtain s' where s':
    "ArMapMultiplePages 0 0x3FF000 0x50000 0x2000 3 (MAP_ADDRESS OR MAP_ATTRIBUTE) kernel_pt = Some s'"
    "\<forall>k < unat (drop_bit 12 0x2000 :: u32). query_result 0 (0x3FF000 + of_nat k * PAGE_SIZE) s' = Some (0, Some (0x50000 + of_nat k * PAGE_SIZE, 3 AND 7)) \<or>
       dir_entry 0 (drop_bit 22 (0x3FF000 + of_nat k * PAGE_SIZE)) kernel_pt = 0 \<and> no_frame s' \<and>
       query_result 0 (0x3FF000 + of_nat k * PAGE_SIZE) s' = Some (- 1, None)"
    "\<forall>w. w mod PAGE_SIZE = 0 \<longrightarrow> (\<forall>k < unat (drop_bit 12 0x2000 :: u32). w \<noteq> 0x3FF000 + of_nat k * PAGE_SIZE) \<longrightarrow>
       dir_entry 0 (drop_bit 22 w) kernel_pt \<noteq> 0 \<or> (\<forall>k < unat (drop_bit 12 0x2000 :: u32). drop_bit 22 w \<noteq> drop_bit 22 (0x3FF000 + of_nat k * PAGE_SIZE)) \<longrightarrow>
       query_result 0 w s' = query_result 0 w kernel_pt" by blast
  have "query_result 0 0x3000 s' = query_result 0 0x3000 kernel_pt" using s'(3) m(3) d(2) by (simp add: n less_2_cases_iff)
  with s'(1) spec [OF s'(2), of 0] spec [OF s'(2), of 1] d(1) q show ?thesis by (auto simp: n)
qed

end
