(* ===== verification/CLib.thy ===== *)
theory CLib
  imports Prelude
begin

text \<open>
  The C library of the kernel: character classes (\<open>kernel/lib/ctype.c\<close>, \<open>kernel/include/ctype.h\<close>) and
  formatted output (\<open>kernel/lib/vsprintf.c\<close>). A C string is the list of its bytes before the terminating
  zero; the text \<open>vsprintf\<close> writes is the list of the bytes before the zero it appends.
  Field widths and precisions are integers: where their difference leaves 32 bits, the code has no defined meaning.
\<close>

section \<open>Character classes\<close>

abbreviation CT_U :: u8 where "CT_U \<equiv> 0x01"
abbreviation CT_L :: u8 where "CT_L \<equiv> 0x02"
abbreviation CT_D :: u8 where "CT_D \<equiv> 0x04"
abbreviation CT_C :: u8 where "CT_C \<equiv> 0x08"
abbreviation CT_P :: u8 where "CT_P \<equiv> 0x10"
abbreviation CT_S :: u8 where "CT_S \<equiv> 0x20"
abbreviation CT_X :: u8 where "CT_X \<equiv> 0x40"
abbreviation CT_SP :: u8 where "CT_SP \<equiv> 0x80"

definition ctype_table :: "u8 list" where
  "ctype_table = [0] @ replicate 9 CT_C @ replicate 5 (CT_C OR CT_S) @ replicate 18 CT_C @
     [CT_S OR CT_SP] @ replicate 15 CT_P @ replicate 10 CT_D @ replicate 7 CT_P @
     replicate 6 (CT_U OR CT_X) @ replicate 20 CT_U @ replicate 6 CT_P @
     replicate 6 (CT_L OR CT_X) @ replicate 20 CT_L @ replicate 4 CT_P @ [CT_C] @ replicate 128 0"

text \<open>The index of a character is its value as a signed \<open>char\<close> plus one; a character above 127 other than
  255 indexes memory before the table, which yields an unspecified value here.\<close>

definition ctype_of :: "u8 \<Rightarrow> u8" where
  "ctype_of c = ctype_table ! unat (scast c + 1 :: u32)"

definition isdigit :: "u8 \<Rightarrow> bool" where "isdigit c \<longleftrightarrow> ctype_of c AND CT_D \<noteq> 0"

definition isxdigit :: "u8 \<Rightarrow> bool" where "isxdigit c \<longleftrightarrow> ctype_of c AND (CT_D OR CT_X) \<noteq> 0"

definition islower :: "u8 \<Rightarrow> bool" where "islower c \<longleftrightarrow> ctype_of c AND CT_L \<noteq> 0"

definition isupper :: "u8 \<Rightarrow> bool" where "isupper c \<longleftrightarrow> ctype_of c AND CT_U \<noteq> 0"

text \<open>\<open>isprint\<close> is used on \<open>unsigned char\<close>.\<close>

definition isprint :: "u8 \<Rightarrow> bool" where
  "isprint c \<longleftrightarrow> ctype_table ! (unat c + 1) AND (CT_P OR CT_U OR CT_L OR CT_D OR CT_SP) \<noteq> 0"

definition tolower :: "u8 \<Rightarrow> u8" where "tolower c = (if isupper c then c + 32 else c)"

definition toupper :: "u8 \<Rightarrow> u8" where "toupper c = (if islower c then c - 32 else c)"

section \<open>Reading a number\<close>

definition digit_value :: "u8 \<Rightarrow> u32" where
  "digit_value c = (if isdigit c then ucast c - 48 else ucast (if islower c then toupper c else c) - 65 + 10)"

fun strtoul_loop :: "u32 \<Rightarrow> u32 \<Rightarrow> u8 list \<Rightarrow> u32 \<times> u8 list" where
  "strtoul_loop base result [] = (result, [])"
| "strtoul_loop base result (c # cp) =
     (if isxdigit c \<and> digit_value c < base then strtoul_loop base (result * base + digit_value c) cp
      else (result, c # cp))"

text \<open>The result is the value and where reading stopped. The \<open>0\<close> of a hexadecimal prefix is skipped in
  any case, the \<open>x\<close> only when a digit follows.\<close>

fun strtoul_base :: "u8 list \<Rightarrow> u32 \<times> u8 list" where
  "strtoul_base (c # x # d # cp) =
     (if c = 48 then if x = 0x78 \<and> isxdigit d then (16, d # cp) else (8, x # d # cp) else (10, c # x # d # cp))"
| "strtoul_base (c # cp) = (if c = 48 then (8, cp) else (10, c # cp))"
| "strtoul_base [] = (10, [])"

definition simple_strtoul :: "u8 list \<Rightarrow> u32 \<Rightarrow> u32 \<times> u8 list" where
  "simple_strtoul cp base =
     (let (base, cp) = (if base = 0 then strtoul_base cp else (base, cp)) in strtoul_loop base 0 cp)"

section \<open>Writing a number\<close>

abbreviation is_digit :: "u8 \<Rightarrow> bool" where "is_digit c \<equiv> 48 \<le> c \<and> c \<le> 57"

fun skip_atoi :: "u32 \<Rightarrow> u8 list \<Rightarrow> u32 \<times> u8 list" where
  "skip_atoi i [] = (i, [])"
| "skip_atoi i (c # s) = (if is_digit c then skip_atoi (i * 10 + ucast c - 48) s else (i, c # s))"

abbreviation ZEROPAD :: u32 where "ZEROPAD \<equiv> 1"
abbreviation SIGN :: u32 where "SIGN \<equiv> 2"
abbreviation PLUS :: u32 where "PLUS \<equiv> 4"
abbreviation SPACE :: u32 where "SPACE \<equiv> 8"
abbreviation LEFT :: u32 where "LEFT \<equiv> 16"
abbreviation SPECIAL :: u32 where "SPECIAL \<equiv> 32"
abbreviation SMALL :: u32 where "SMALL \<equiv> 64"

definition digit_chars :: "u32 \<Rightarrow> u8 list" where
  "digit_chars type =
     map word_of_nat [48..<58] @ map word_of_nat (if type AND SMALL \<noteq> 0 then [97..<123] else [65..<91])"

text \<open>The digits in \<open>tmp\<close>, the last one first. The base is between 2 and 36.\<close>

function tmp_digits :: "u8 list \<Rightarrow> u32 \<Rightarrow> u32 \<Rightarrow> u8 list" where
  "tmp_digits digits base num =
     (if num = 0 \<or> base < 2 then []
      else digits ! unat (num mod base) # tmp_digits digits base (num div base))"
  by pat_completeness auto
termination
  by (relation "measure (\<lambda>(_, _, num). unat num)")
    (auto simp: unat_div word_less_nat_alt unat_gt_0 intro!: div_less_dividend)

text \<open>The loops that count the rest of the field down leave it at -1, or below when it was negative.\<close>

abbreviation counted_down :: "int \<Rightarrow> int" where "counted_down n \<equiv> min n 0 - 1"

definition number :: "u32 \<Rightarrow> u32 \<Rightarrow> int \<Rightarrow> int \<Rightarrow> u32 \<Rightarrow> u8 list option" where
  "number num base fsize precision type =
     (let digits = digit_chars type;
          type = (if type AND LEFT \<noteq> 0 then type AND NOT ZEROPAD else type)
      in if base < 2 \<or> 36 < base then None
         else
           let c = (if type AND ZEROPAD \<noteq> 0 then 48 else 32);
               (sign, num) =
                 (if type AND SIGN \<noteq> 0 \<and> num <s 0 then ([45], - num)
                  else (if type AND PLUS \<noteq> 0 then [43] else if type AND SPACE \<noteq> 0 then [32] else [], num));
               fsize = (if sign \<noteq> [] then fsize - 1 else fsize);
               fsize = (if type AND SPECIAL \<noteq> 0
                       then (if base = 16 then fsize - 2 else if base = 8 then fsize - 1 else fsize) else fsize);
               tmp = (if num = 0 then [48] else tmp_digits digits base num);
               i = int (length tmp);
               precision = (if i > precision then i else precision);
               fsize = fsize - precision;
               (before, fsize) = (if type AND (ZEROPAD + LEFT) = 0
                                 then (replicate (nat fsize) 32, counted_down fsize) else ([], fsize));
               prefix = (if type AND SPECIAL \<noteq> 0
                         then (if base = 8 then [48] else if base = 16 then [48, digits ! 33] else []) else []);
               (pad, fsize) = (if type AND LEFT = 0
                              then (replicate (nat fsize) c, counted_down fsize) else ([], fsize));
               zeros = replicate (nat (precision - i)) 48;
               after = replicate (nat fsize) 32
           in Some (before @ sign @ prefix @ pad @ zeros @ rev tmp @ after))"

section \<open>Formatted output\<close>

text \<open>
  An argument is a word or the text a pointer leads to. Reading an argument that is not there, a text as
  a number or a number other than 0 as a text is undefined, which is \<open>None\<close>.
\<close>

datatype va = Arg u32 | Text "u8 list"

fun va_int :: "va list \<Rightarrow> (u32 \<times> va list) option" where
  "va_int (Arg n # args) = Some (n, args)"
| "va_int _ = None"

text \<open>\<open>&<NULL>\<close> is what a null pointer prints as.\<close>

fun va_text :: "va list \<Rightarrow> (u8 list \<times> va list) option" where
  "va_text (Text s # args) = Some (s, args)"
| "va_text (Arg n # args) = (if n = 0 then Some ([60, 78, 85, 76, 76, 62], args) else None)"
| "va_text [] = None"

fun format_flags :: "u32 \<Rightarrow> u8 list \<Rightarrow> u32 \<times> u8 list" where
  "format_flags flags [] = (flags, [])"
| "format_flags flags (c # fmt) =
     (if c = 45 then format_flags (flags OR LEFT) fmt
      else if c = 43 then format_flags (flags OR PLUS) fmt
      else if c = 32 then format_flags (flags OR SPACE) fmt
      else if c = 35 then format_flags (flags OR SPECIAL) fmt
      else if c = 48 then format_flags (flags OR ZEROPAD) fmt
      else (flags, c # fmt))"

text \<open>A number in the format, or the next argument for a \<open>*\<close>, or the default.\<close>

fun format_int :: "int \<Rightarrow> u8 list \<Rightarrow> va list \<Rightarrow> (int \<times> u8 list \<times> va list) option" where
  "format_int dflt [] args = Some (dflt, [], args)"
| "format_int dflt (c # fmt) args =
     (if is_digit c then let (i, fmt) = skip_atoi 0 (c # fmt) in Some (sint i, fmt, args)
      else if c = 42 then do { (n, args) \<leftarrow> va_int args; Some (sint n, fmt, args) }
      else Some (dflt, c # fmt, args))"

definition field_width :: "u32 \<Rightarrow> u8 list \<Rightarrow> va list \<Rightarrow> (u32 \<times> int \<times> u8 list \<times> va list) option" where
  "field_width flags fmt args =
     do { (w, rest, args) \<leftarrow> format_int (-1) fmt args;
          Some (if fmt \<noteq> [] \<and> hd fmt = 42 \<and> w < 0 then (flags OR LEFT, - w, rest, args)
                else (flags, w, rest, args)) }"

definition field_precision :: "u8 list \<Rightarrow> va list \<Rightarrow> (int \<times> u8 list \<times> va list) option" where
  "field_precision fmt args =
     (if fmt \<noteq> [] \<and> hd fmt = 46
      then do { (p, fmt, args) \<leftarrow> format_int (-1) (tl fmt) args; Some (max p 0, fmt, args) }
      else Some (-1, fmt, args))"

definition skip_qualifier :: "u8 list \<Rightarrow> u8 list" where
  "skip_qualifier fmt =
     (if fmt \<noteq> [] \<and> (hd fmt = 0x68 \<or> hd fmt = 0x6C \<or> hd fmt = 0x4C) then tl fmt else fmt)"

definition put_char :: "u32 \<Rightarrow> int \<Rightarrow> u32 \<Rightarrow> u8 list" where
  "put_char flags width n =
     (let (before, width) = (if flags AND LEFT = 0 then (replicate (nat (width - 1)) 32, min width 1 - 1) else ([], width))
      in before @ [ucast n] @ replicate (nat (width - 1)) 32)"

definition put_text :: "u32 \<Rightarrow> int \<Rightarrow> int \<Rightarrow> u8 list \<Rightarrow> u8 list" where
  "put_text flags width precision s =
     (let len = (if 0 \<le> precision \<and> precision < int (length s) then precision else int (length s));
          (before, width) = (if flags AND LEFT = 0
             then (replicate (nat (width - len)) 32, min width len - 1) else ([], width))
      in before @ take (nat len) s @ replicate (nat (width - len)) 32)"

text \<open>One conversion: the text it adds, the arguments left and the words it stores.\<close>

definition convert :: "u8 \<Rightarrow> u32 \<Rightarrow> int \<Rightarrow> int \<Rightarrow> nat \<Rightarrow> va list \<Rightarrow> (u8 list \<times> va list \<times> (u32 \<times> u32) list) option" where
  "convert c flags width precision written args =
     (if c = 0x63 then do { (n, args) \<leftarrow> va_int args; Some (put_char flags width n, args, []) }
      else if c = 0x73 then do { (s, args) \<leftarrow> va_text args; Some (put_text flags width precision s, args, []) }
      else if c = 0x6E then do { (ip, args) \<leftarrow> va_int args; Some ([], args, [(ip, of_nat written)]) }
      else do {
        (n, args) \<leftarrow> va_int args;
        txt \<leftarrow>
          (if c = 0x6F then number n 8 width precision flags
           else if c = 0x70 then
             (if width = -1 then number n 16 8 precision (flags OR ZEROPAD) else number n 16 width precision flags)
           else if c = 0x78 then number n 16 width precision (flags OR SMALL)
           else if c = 0x58 then number n 16 width precision flags
           else if c = 0x75 then number n 10 width precision flags
           else number n 10 width precision (flags OR SIGN));
        Some (txt, args, []) })"

abbreviation conversions :: "u8 list" where
  "conversions \<equiv> [0x63, 0x73, 0x6E, 0x6F, 0x70, 0x78, 0x58, 0x75, 0x64, 0x69]"

lemma format_flags_length: "length (snd (format_flags flags fmt)) \<le> length fmt"
  by (induction flags fmt rule: format_flags.induct) auto

lemma skip_atoi_length: "length (snd (skip_atoi i fmt)) \<le> length fmt"
  by (induction i fmt rule: skip_atoi.induct) auto

lemma format_int_length: "format_int d fmt args = Some (w, rest, args') \<Longrightarrow> length rest \<le> length fmt"
  using skip_atoi_length [of 0 fmt]
  by (cases fmt) (auto split: if_splits prod.splits simp: bind_eq_Some_conv simp del: skip_atoi.simps)

lemma field_width_length: "field_width flags fmt args = Some (f, w, rest, args') \<Longrightarrow> length rest \<le> length fmt"
  by (auto simp: field_width_def bind_eq_Some_conv split: if_splits dest: format_int_length)

lemma field_precision_length: "field_precision fmt args = Some (p, rest, args') \<Longrightarrow> length rest \<le> length fmt"
  by (fastforce simp: field_precision_def bind_eq_Some_conv split: if_splits dest: format_int_length)

lemma skip_qualifier_length: "length (skip_qualifier fmt) \<le> length fmt"
  by (simp add: skip_qualifier_def)

text \<open>Everything between the \<open>%\<close> and the conversion character.\<close>

definition field_spec :: "u8 list \<Rightarrow> va list \<Rightarrow> (u32 \<times> int \<times> int \<times> u8 list \<times> va list) option" where
  "field_spec fmt args =
     do { let (flags, fmt) = format_flags 0 fmt;
          (flags, width, fmt, args) \<leftarrow> field_width flags fmt args;
          (precision, fmt, args) \<leftarrow> field_precision fmt args;
          Some (flags, width, precision, skip_qualifier fmt, args) }"

lemma field_spec_length:
  assumes "field_spec fmt args = Some (flags, width, precision, rest, args')"
  shows "length rest \<le> length fmt"
proof -
  obtain f1 r1 where 1: "format_flags 0 fmt = (f1, r1)" by fastforce
  from assms 1 obtain r2 a2 r3 where 2: "field_width f1 r1 args = Some (flags, width, r2, a2)"
    and 3: "field_precision r2 a2 = Some (precision, r3, args')" and 4: "rest = skip_qualifier r3"
    by (auto simp: field_spec_def bind_eq_Some_conv)
  have "length r1 \<le> length fmt" using format_flags_length [of 0 fmt] 1 by simp
  with field_width_length [OF 2] field_precision_length [OF 3] skip_qualifier_length [of r3] 4 show ?thesis by simp
qed

function vsprintf_loop :: "u8 list \<Rightarrow> u8 list \<Rightarrow> va list \<Rightarrow> (u32 \<times> u32) list \<Rightarrow> (u8 list \<times> (u32 \<times> u32) list) option" where
  "vsprintf_loop [] str args stores = Some (str, stores)"
| "vsprintf_loop (c # fmt) str args stores =
     (if c \<noteq> 37 then vsprintf_loop fmt (str @ [c]) args stores
      else case field_spec fmt args of
        None \<Rightarrow> None
      | Some (flags, width, precision, [], args) \<Rightarrow> Some (str @ [37], stores)
      | Some (flags, width, precision, d # fmt, args) \<Rightarrow>
          (if d \<in> set conversions then
             case convert d flags width precision (length str) args of
               None \<Rightarrow> None
             | Some (txt, args, st) \<Rightarrow> vsprintf_loop fmt (str @ txt) args (stores @ st)
           else vsprintf_loop fmt (str @ (if d \<noteq> 37 then [37, d] else [37])) args stores))"
  by pat_completeness auto
termination
  by (relation "measure (\<lambda>(fmt, _). length fmt)") (auto dest: field_spec_length)

definition vsprintf :: "u8 list \<Rightarrow> va list \<Rightarrow> (u8 list \<times> (u32 \<times> u32) list) option" where
  "vsprintf fmt args = vsprintf_loop fmt [] args []"

definition sprintf :: "u8 list \<Rightarrow> va list \<Rightarrow> (u8 list \<times> (u32 \<times> u32) list) option" where
  "sprintf fmt args = vsprintf fmt args"

section \<open>Reading back what was printed\<close>

definition digits_ok :: "u8 list \<Rightarrow> bool" where
  "digits_ok ds \<longleftrightarrow> (\<forall>k\<in>set [0..<16]. isxdigit (ds ! k) \<and> digit_value (ds ! k) = of_nat k)"

lemma digit_chars_ok: "digits_ok (digit_chars type)"
proof -
  have 1: "digits_ok (map word_of_nat [48..<58] @ map word_of_nat [97..<123])" by code_simp
  have 2: "digits_ok (map word_of_nat [48..<58] @ map word_of_nat [65..<91])" by code_simp
  from 1 2 show ?thesis by (simp add: digit_chars_def)
qed

lemma digits_okD:
  assumes "digits_ok ds" and "d < 16"
  shows "isxdigit (ds ! unat d)" "digit_value (ds ! unat d) = d"
proof -
  have "unat d < 16" using assms(2) by (simp add: word_less_nat_alt)
  with assms(1) show "isxdigit (ds ! unat d)" "digit_value (ds ! unat d) = d" by (auto simp: digits_ok_def)
qed

lemma zero_char: "isxdigit 48" "digit_value 48 = 0" by code_simp+

lemma strtoul_append:
  "snd (strtoul_loop base r xs) = [] \<Longrightarrow>
    strtoul_loop base r (xs @ ys) = strtoul_loop base (fst (strtoul_loop base r xs)) ys"
  by (induction base r xs rule: strtoul_loop.induct) (auto split: if_splits)

lemma strtoul_zeros: "0 < base \<Longrightarrow> strtoul_loop base 0 (replicate k 48 @ xs) = strtoul_loop base 0 xs"
  by (induction k) (simp_all add: zero_char)

declare tmp_digits.simps [simp del]


lemma strtoul_digits:
  assumes "digits_ok ds" and "2 \<le> base" and "base \<le> 16"
  shows "strtoul_loop base 0 (rev (tmp_digits ds base num)) = (num, [])"
  using assms
proof (induction ds base num rule: tmp_digits.induct)
  case (1 ds base num)
  show ?case
  proof (cases "num = 0")
    case True
    then show ?thesis by (simp add: tmp_digits.simps)
  next
    case False
    have b: "\<not> base < 2" using 1(3) by simp
    let ?d = "num mod base"
    have "base \<noteq> 0" using b by auto
    then have "0 < base" by (simp add: word_neq_0_conv)
    then have d: "?d < base" by (simp add: word_less_nat_alt unat_mod)
    with 1(4) have d16: "?d < 16" by order
    have e: "tmp_digits ds base num = ds ! unat ?d # tmp_digits ds base (num div base)"
      using False b by (subst tmp_digits.simps) simp
    have IH: "strtoul_loop base 0 (rev (tmp_digits ds base (num div base))) = (num div base, [])"
      using 1(1) False b 1(2-4) by simp
    have "strtoul_loop base 0 (rev (tmp_digits ds base num)) = strtoul_loop base (num div base) [ds ! unat ?d]"
      unfolding e by (simp add: strtoul_append IH)
    also have "\<dots> = (num, [])" using digits_okD [OF 1(2) d16] d by (simp add: div_mult_mod_eq)
    finally show ?thesis .
  qed
qed

lemma flags_clear:
  assumes "flags AND (SIGN OR PLUS OR SPACE OR LEFT OR SPECIAL) = 0"
  shows "flags AND SIGN = 0" "flags AND PLUS = 0" "flags AND SPACE = 0" "flags AND LEFT = 0" "flags AND SPECIAL = 0"
proof -
  have "flags AND m = 0" if "m = m AND (SIGN OR PLUS OR SPACE OR LEFT OR SPECIAL)" for m
    by (subst that) (simp only: and.left_commute [of flags m] assms and_zero_eq)
  note m = this
  show "flags AND SIGN = 0" by (rule m) simp
  show "flags AND PLUS = 0" by (rule m) simp
  show "flags AND SPACE = 0" by (rule m) simp
  show "flags AND LEFT = 0" by (rule m) simp
  show "flags AND SPECIAL = 0" by (rule m) simp
qed

text \<open>The number of digits of \<open>n\<close> in base \<open>b\<close>; 0 has one.\<close>

definition digit_count :: "nat \<Rightarrow> nat \<Rightarrow> nat \<Rightarrow> bool" where
  "digit_count b n d \<longleftrightarrow> 0 < d \<and> n < b ^ d \<and> (d = 1 \<or> b ^ (d - 1) \<le> n)"

lemma digit_count_step: "0 < b \<Longrightarrow> n div b \<noteq> 0 \<Longrightarrow> digit_count b (n div b) d \<Longrightarrow> digit_count b n (Suc d)"
proof -
  assume b: "0 < b" "n div b \<noteq> 0" and d: "digit_count b (n div b) d"
  then have "n div b < b ^ d" "b ^ (d - 1) \<le> n div b" "0 < d" by (auto simp: digit_count_def)
  then have "n < b ^ d * b" "b ^ (d - 1) * b \<le> n" using b(1) by (simp_all add: div_less_iff_less_mult less_eq_div_iff_mult_less_eq)
  moreover have "b ^ (d - 1) * b = b ^ d" using \<open>0 < d\<close> by (cases d) simp_all
  ultimately show ?thesis by (simp add: digit_count_def ac_simps)
qed

lemma tmp_digits_count: "2 \<le> base \<Longrightarrow> num \<noteq> 0 \<Longrightarrow> digit_count (unat base) (unat num) (length (tmp_digits ds base num))"
proof (induction ds base num rule: tmp_digits.induct)
  case (1 ds base num)
  have b: "\<not> base < 2" using "1.prems"(1) by simp
  have b2: "0 < unat base" using "1.prems"(1) by (simp add: word_le_nat_alt)
  have e: "length (tmp_digits ds base num) = Suc (length (tmp_digits ds base (num div base)))"
    using "1.prems"(2) b by (subst tmp_digits.simps) simp
  show ?case
  proof (cases "num div base = 0")
    case True
    then have "unat num div unat base = 0" by (metis unat_div unat_0)
    then have "unat num < unat base" using b2 by (simp add: div_eq_0_iff)
    moreover have "length (tmp_digits ds base num) = 1" unfolding e True by (simp add: tmp_digits.simps)
    ultimately show ?thesis by (simp add: digit_count_def)
  next
    case False
    then have "unat num div unat base \<noteq> 0" by (metis unat_div unat_eq_0)
    with 1(1) "1.prems" b b2 False show ?thesis unfolding e by (intro digit_count_step) (simp_all add: unat_div)
  qed
qed

text \<open>
  (C23) What \<open>number\<close> prints of an unsigned number, and what of it \<open>simple_strtoul\<close> reads back, in every base from 2 to
  16, for every field width and precision and both letter cases, without the flags for signs, prefixes and left
  adjustment. With \<open>d\<close> the number of digits, the output is blanks that fill the width, none of them under \<open>ZEROPAD\<close>,
  and a text of exactly as many characters as width and precision ask for, which is read completely and gives the number.
  The whole output reads back exactly when it has no blanks: the reader does not skip them and gives 0 at the first.
\<close>

theorem print_parse:
  fixes n base flags :: u32 and width precision :: int
  assumes "2 \<le> base" and "base \<le> 16" and "flags AND (SIGN OR PLUS OR SPACE OR LEFT OR SPECIAL) = 0"
  shows "\<exists>d k txt. digit_count (unat base) (unat n) d \<and> number n base width precision flags = Some (replicate k 32 @ txt) \<and>
    k = (if flags AND ZEROPAD = 0 then nat (width - max (int d) precision) else 0) \<and>
    int (length txt) = (if flags AND ZEROPAD = 0 then max (int d) precision else max width (max (int d) precision)) \<and>
    simple_strtoul txt base = (n, []) \<and>
    simple_strtoul (replicate k 32 @ txt) base = (if k = 0 then (n, []) else (0, replicate k 32 @ txt))"
proof -
  note fl = flags_clear [OF assms(3)]
  have b: "\<not> base < 2" "\<not> 36 < base" "base \<noteq> 0" using assms(1,2) by (auto simp: word_less_nat_alt word_le_nat_alt)
  have pos: "0 < base" using b(3) by (simp add: word_neq_0_conv)
  define tmp where "tmp = (if n = 0 then [48] else tmp_digits (digit_chars flags) base n)"
  have t: "strtoul_loop base 0 (replicate m 48 @ rev tmp) = (n, [])" for m
    using strtoul_digits [OF digit_chars_ok assms(1,2), of flags n] pos zero_char
    by (simp add: tmp_def strtoul_zeros)
  have d: "digit_count (unat base) (unat n) (length tmp)"
    using tmp_digits_count [OF assms(1), of n] b(3) by (cases "n = 0") (auto simp: tmp_def digit_count_def word_neq_0_conv word_less_nat_alt)
  define p where "p = (if int (length tmp) > precision then int (length tmp) else precision)"
  have p: "p = max (int (length tmp)) precision" by (simp add: p_def)
  have z: "flags AND (ZEROPAD + LEFT) = 0 \<longleftrightarrow> flags AND ZEROPAD = 0"
  proof -
    have "flags AND (ZEROPAD + LEFT) = (flags AND ZEROPAD) OR (flags AND LEFT)"
      by (simp add: bit.conj_disj_distrib [symmetric])
    then show ?thesis using fl(4) by simp
  qed
  have e: "number n base width precision flags = Some (
      (if flags AND ZEROPAD = 0 then replicate (nat (width - p)) 32 else []) @
      (if flags AND ZEROPAD = 0 then [] else replicate (nat (width - p)) 48) @
      replicate (nat (p - int (length tmp))) 48 @ rev tmp)"
    unfolding number_def Let_def p_def tmp_def
    using b z by (simp add: fl)
  define k where "k = (if flags AND ZEROPAD = 0 then nat (width - p) else 0)"
  define m where "m = (if flags AND ZEROPAD = 0 then 0 else nat (width - p)) + nat (p - int (length tmp))"
  have "number n base width precision flags = Some (replicate k 32 @ replicate m 48 @ rev tmp)"
    unfolding e k_def m_def by (simp add: replicate_add)
  moreover have "int (length (replicate m 48 @ rev tmp)) = (if flags AND ZEROPAD = 0 then p else max width p)"
    unfolding m_def p by auto
  moreover have r: "simple_strtoul (replicate m 48 @ rev tmp) base = (n, [])" using t [of m] b by (simp add: simple_strtoul_def)
  moreover have "simple_strtoul (replicate k 32 @ replicate m 48 @ rev tmp) base =
      (if k = 0 then (n, []) else (0, replicate k 32 @ replicate m 48 @ rev tmp))"
  proof (cases k)
    case (Suc j)
    have "\<not> isxdigit 32" by code_simp
    with Suc b show ?thesis by (simp add: simple_strtoul_def)
  qed (use r in simp)
  ultimately show ?thesis using d unfolding k_def p by blast
qed

theorem print_parse_witness:
  "\<exists>k txt. number 0xBEEF 16 8 (-1) SMALL = Some (replicate k 32 @ txt) \<and> k + length txt = 8 \<and> simple_strtoul txt 16 = (0xBEEF, [])"
proof -
  have s: "(SMALL :: u32) AND ZEROPAD = 0" by simp
  obtain d k out where d: "digit_count (unat (16 :: u32)) (unat (0xBEEF :: u32)) d"
    "number 0xBEEF 16 8 (-1) SMALL = Some (replicate k 32 @ out)" "k = nat (8 - max (int d) (-1))" "int (length out) = max (int d) (-1)"
    "simple_strtoul out 16 = (0xBEEF, [])"
    using print_parse [of 16 SMALL "0xBEEF" 8 "-1"] s by auto
  have "d \<le> 8"
  proof (rule ccontr)
    assume "\<not> d \<le> 8"
    then have "(16 :: nat) ^ 8 \<le> 16 ^ (d - 1)" by (intro power_increasing) simp_all
    with d(1) \<open>\<not> d \<le> 8\<close> show False by (simp add: digit_count_def)
  qed
  then have "k + length out = 8" using d(3,4) by auto
  with d(2,5) show ?thesis by blast
qed

end
