(* ===== verification/KTime.thy ===== *)
theory KTime
  imports CLib "HOL-Library.Signed_Division"
begin

text \<open>
  Calendar time, \<open>kernel/lib/time.c\<close>. A \<open>time_t\<close> is the number of seconds since 1970 in an unsigned
  32-bit word. The signed \<open>int\<close> and \<open>long\<close> variables are integers, divided the way C does; the \<open>short\<close>
  variables of \<open>mktime\<close> are cut to 16 bits where they are assigned.
\<close>

section \<open>Operations\<close>

abbreviation SECS_PER_HOUR :: int where "SECS_PER_HOUR \<equiv> 3600"
abbreviation SECS_PER_DAY :: int where "SECS_PER_DAY \<equiv> 86400"

record tm =
  tm_sec :: int
  tm_min :: int
  tm_hour :: int
  tm_mday :: int
  tm_mon :: int
  tm_year :: int
  tm_wday :: int
  tm_yday :: int
  tm_isdst :: int

definition mon_yday :: "int list \<times> int list" where
  "mon_yday = ([0, 31, 59, 90, 120, 151, 181, 212, 243, 273, 304, 334, 365],
               [0, 31, 60, 91, 121, 152, 182, 213, 244, 274, 305, 335, 366])"

definition isleap :: "int \<Rightarrow> bool" where
  "isleap year \<longleftrightarrow> year smod 4 = 0 \<and> (year smod 100 \<noteq> 0 \<or> year smod 400 = 0)"

text \<open>The value \<open>time\<close> stores when its argument is not null, and its result.\<close>

definition time :: "bool \<Rightarrow> u32 \<Rightarrow> u32 option \<times> u32" where
  "time has_loc rtc_second = (if has_loc then Some rtc_second else None, rtc_second)"

abbreviation to_short :: "int \<Rightarrow> int" where "to_short \<equiv> signed_take_bit 15"

definition mktime :: "tm \<Rightarrow> u32" where
  "mktime t =
     (let month = to_short (tm_mon t);
          year = (if tm_year t < 70 then to_short (tm_year t + month sdiv 12 + 2000)
                  else to_short (tm_year t + month sdiv 12 + 1900));
          month = to_short (month smod 12);
          (year, month) = (if month < 0 then (to_short (year - 1), to_short (month + 12)) else (year, month));
          res = word_of_int ((year - 1970) * 365 + fst mon_yday ! nat month) :: u32;
          year = (if month \<le> 1 then to_short (year - 1) else year);
          res = res + word_of_int ((year - 1968) sdiv 4);
          res = res - word_of_int ((year - 1900) sdiv 100);
          res = res + word_of_int ((year - 1600) sdiv 400);
          res = res + word_of_int (tm_mday t);
          res = res - 1;
          res = res * 24;
          res = res + word_of_int (tm_hour t);
          res = res * 60;
          res = res + word_of_int (tm_min t);
          res = res * 60
      in res + word_of_int (tm_sec t))"

text \<open>The two loops that bring the seconds of the day into range, for an offset of either sign.\<close>

function below_zero :: "int \<Rightarrow> int \<Rightarrow> int \<times> int" where
  "below_zero days rem =
     (if rem < 0 then below_zero (days - 1) (rem + SECS_PER_DAY) else (days, rem))"
  by pat_completeness auto
termination by (relation "measure (\<lambda>(_, rem). nat (- rem))") auto

function above_day :: "int \<Rightarrow> int \<Rightarrow> int \<times> int" where
  "above_day days rem =
     (if SECS_PER_DAY \<le> rem then above_day (days + 1) (rem - SECS_PER_DAY) else (days, rem))"
  by pat_completeness auto
termination by (relation "measure (\<lambda>(_, rem). nat rem)") auto

definition DIV :: "int \<Rightarrow> int \<Rightarrow> int" where
  "DIV a b = a sdiv b - of_bool (a smod b < 0)"

definition LEAPS_THRU_END_OF :: "int \<Rightarrow> int" where
  "LEAPS_THRU_END_OF y = DIV y 4 - DIV y 100 + DIV y 400"

definition year_length :: "int \<Rightarrow> int" where
  "year_length y = (if isleap y then 366 else 365)"

partial_function (option) year_loop :: "int \<Rightarrow> int \<Rightarrow> (int \<times> int) option" where
  "year_loop days y =
     (if days < 0 \<or> year_length y \<le> days then
        let yg = y + days sdiv 365 - of_bool (days smod 365 < 0)
        in year_loop (days - ((yg - y) * 365 + LEAPS_THRU_END_OF (yg - 1) - LEAPS_THRU_END_OF (y - 1))) yg
      else Some (days, y))"

text \<open>The last month that does not begin after the day of the year. The first begins with day 0, where
  the loop stops.\<close>

fun month_loop :: "int list \<Rightarrow> int \<Rightarrow> nat \<Rightarrow> nat" where
  "month_loop ip days 0 = 0"
| "month_loop ip days (Suc y) = (if days < ip ! Suc y then month_loop ip days y else Suc y)"

text \<open>The C result is 1; it would be 0 if the year did not fit its field, which has the same type.\<close>

definition offtime :: "u32 \<Rightarrow> int \<Rightarrow> tm option" where
  "offtime t offset = do {
     let days = uint t div SECS_PER_DAY;
     let rem = uint t mod SECS_PER_DAY + offset;
     let (days, rem) = below_zero days rem;
     let (days, rem) = above_day days rem;
     let hour = rem sdiv SECS_PER_HOUR;
     let rem = rem smod SECS_PER_HOUR;
     let wday = (4 + days) smod 7;
     (yday, y) \<leftarrow> year_loop days 1970;
     let ip = (if isleap y then snd mon_yday else fst mon_yday);
     let mon = month_loop ip yday 11;
     Some \<lparr>tm_sec = rem smod 60, tm_min = rem sdiv 60, tm_hour = hour,
           tm_mday = yday - ip ! mon + 1, tm_mon = int mon, tm_year = y - 1900,
           tm_wday = (if wday < 0 then wday + 7 else wday), tm_yday = yday, tm_isdst = of_bool (isleap y)\<rparr> }"

definition gettime :: "u32 \<Rightarrow> tm option" where
  "gettime t = offtime t 0"

text \<open>The format is \<open>%d-%d-%d %.2d:%.2d:%.2d\<close>.\<close>

definition strtime_format :: "u8 list" where
  "strtime_format = [37, 100, 45, 37, 100, 45, 37, 100, 32, 37, 46, 50, 100, 58, 37, 46, 50, 100, 58, 37, 46, 50, 100]"

definition strtime :: "u32 \<Rightarrow> (u8 list \<times> (u32 \<times> u32) list) option" where
  "strtime t = do {
     m \<leftarrow> gettime t;
     sprintf strtime_format (map (Arg \<circ> word_of_int)
       [tm_year m + 1900, tm_mon m + 1, tm_mday m, tm_hour m, tm_min m, tm_sec m]) }"

declare year_loop.simps [code]

section \<open>C division\<close>

lemma sdiv_nonneg: "0 \<le> a \<Longrightarrow> 0 < b \<Longrightarrow> a sdiv b = a div b" for a b :: int
  by (cases "a = 0") (simp_all add: signed_divide_int_def)

lemma smod_nonneg: "0 \<le> a \<Longrightarrow> 0 < b \<Longrightarrow> a smod b = a mod b" for a b :: int
  by (cases "a = 0") (simp_all add: signed_modulo_int_def)

lemma div_floor: "0 < b \<Longrightarrow> a sdiv b - of_bool (a smod b < 0) = a div b" for a b :: int
proof (cases "0 \<le> a")
  case True
  moreover assume "0 < b"
  ultimately show ?thesis by (simp add: sdiv_nonneg smod_nonneg not_less)
next
  case False
  assume b: "0 < b"
  have q: "a sdiv b = - ((- a) div b)" using False b by (simp add: signed_divide_int_def)
  have r: "a smod b = - ((- a) mod b)" using False b by (simp add: signed_modulo_int_def)
  show ?thesis unfolding q r using zdiv_zminus1_eq_if [of b "- a"] b pos_mod_sign [of b "- a"]
    by (auto simp: less_le)
qed

section \<open>The calendar\<close>

definition leaps :: "int \<Rightarrow> int" where
  "leaps y = y div 4 - y div 100 + y div 400"

lemma LEAPS_eq: "LEAPS_THRU_END_OF y = leaps y"
  by (simp add: LEAPS_THRU_END_OF_def leaps_def DIV_def div_floor)

lemma div_step: "0 < n \<Longrightarrow> y div n - (y - 1) div n = of_bool (y mod n = 0)" for y n :: int
proof -
  assume n: "0 < n"
  have y: "y = n * (y div n) + y mod n" by simp
  show ?thesis
  proof (cases "y mod n = 0")
    case True
    with y have "y - 1 = n * (y div n) - 1" by linarith
    also have "\<dots> = n * (y div n - 1) + (n - 1)" by (simp only: right_diff_distrib mult_1_right)
    finally have "y - 1 = n * (y div n - 1) + (n - 1)" .
    from int_div_pos_eq [OF this] n True show ?thesis by simp
  next
    case False
    with pos_mod_sign [OF n, of y] have "0 \<le> y mod n - 1" by linarith
    moreover have "y - 1 = n * (y div n) + (y mod n - 1)" using y by linarith
    ultimately have "(y - 1) div n = y div n" using pos_mod_bound [OF n, of y] by (intro int_div_pos_eq [of _ _ _ "y mod n - 1"]) linarith+
    with False show ?thesis by simp
  qed
qed

lemma year_length_leaps: "0 \<le> y \<Longrightarrow> year_length y = 365 + leaps y - leaps (y - 1)"
proof -
  assume y: "0 \<le> y"
  have 1: "y mod 100 = 0 \<Longrightarrow> y mod 4 = 0" "y mod 400 = 0 \<Longrightarrow> y mod 100 = 0"
    using dvd_trans [of 4 100 y] dvd_trans [of 100 400 y] by (simp_all add: mod_eq_0_iff_dvd)
  have "leaps y - leaps (y - 1) = (y div 4 - (y - 1) div 4) - (y div 100 - (y - 1) div 100) + (y div 400 - (y - 1) div 400)"
    unfolding leaps_def by linarith
  also have "\<dots> = of_bool (y mod 4 = 0) - of_bool (y mod 100 = 0) + of_bool (y mod 400 = 0)"
    by (simp only: div_step zero_less_numeral)
  also have "\<dots> = of_bool (isleap y)" using 1
    unfolding isleap_def smod_nonneg [OF y zero_less_numeral] by (cases "y mod 100 = 0"; cases "y mod 400 = 0") simp_all
  finally show ?thesis by (simp add: year_length_def)
qed

text \<open>The day on which a year begins, counted from the first of January 1970.\<close>

definition year_start :: "int \<Rightarrow> int" where
  "year_start y = (y - 1970) * 365 + leaps (y - 1) - leaps 1969"

lemma year_start_Suc: "0 \<le> y \<Longrightarrow> year_start (y + 1) = year_start y + year_length y"
  by (simp add: year_start_def year_length_leaps algebra_simps)

lemma year_start_diff:
  "days - ((yg - y) * 365 + leaps (yg - 1) - leaps (y - 1)) = days + year_start y - year_start yg"
  unfolding year_start_def by (simp add: algebra_simps)

lemma year_loop_step:
  "days < 0 \<or> year_length y \<le> days \<Longrightarrow>
    year_loop days y = year_loop (days + year_start y - year_start (y + days div 365)) (y + days div 365)"
  by (subst year_loop.simps) (simp only: Let_def add_diff_eq [symmetric, of y] div_floor zero_less_numeral LEAPS_eq year_start_diff if_True)

lemma year_loop_stop: "0 \<le> days \<Longrightarrow> days < year_length y \<Longrightarrow> year_loop days y = Some (days, y)"
  by (subst year_loop.simps) simp

lemma year_length_bounds: "365 \<le> year_length y" "year_length y \<le> 366"
  by (simp_all add: year_length_def)

lemma year_loop_back:
  assumes "-365 \<le> days" "days < 0" "1 \<le> y"
  shows "year_loop days y = Some (days + year_length (y - 1), y - 1)"
proof -
  have "days div 365 = -1" by (rule int_div_pos_eq [of _ _ _ "days + 365"]) (use assms in simp_all)
  then have "year_loop days y = year_loop (days + year_length (y - 1)) (y - 1)"
    using year_loop_step [of days y] assms year_start_Suc [of "y - 1"] by simp
  also have "\<dots> = Some (days + year_length (y - 1), y - 1)"
    by (rule year_loop_stop) (use assms year_length_bounds [of "y - 1"] in linarith)+
  finally show ?thesis .
qed

lemma leaps_mono: "0 \<le> x \<Longrightarrow> x \<le> y \<Longrightarrow> leaps x \<le> leaps y"
proof (rotate_tac, induction y rule: int_ge_induct)
  case (step i)
  with year_length_leaps [of "i + 1"] year_length_bounds(1) [of "i + 1"] show ?case by simp
qed simp

lemma leaps_bounds:
  assumes "1969 \<le> y" "y \<le> 2105"
  shows "0 \<le> leaps y - leaps 1969" "leaps y - leaps 1969 \<le> 35"
proof -
  show "0 \<le> leaps y - leaps 1969" using leaps_mono [of 1969 y] assms(1) by simp
  have "y div 4 \<le> 526" "19 \<le> y div 100" "y div 400 \<le> 5" using assms by linarith+
  then show "leaps y - leaps 1969 \<le> 35" by (simp add: leaps_def)
qed

lemma year_loop_correct:
  assumes "0 \<le> d" and "d < 49711"
  obtains yday y where "year_loop d 1970 = Some (yday, y)" "year_start y + yday = d"
    "0 \<le> yday" "yday < year_length y" "1970 \<le> y" "y \<le> 2106"
proof (cases "d < year_length 1970")
  case True
  with that [of d 1970] assms show thesis by (simp add: year_loop_stop year_start_def)
next
  case False
  define y where "y = 1970 + d div 365"
  define d1 where "d1 = d - year_start y"
  have y: "1971 \<le> y" "y \<le> 2106" using False assms(2) year_length_bounds(1) [of 1970] unfolding y_def by linarith+
  have "d div 365 * 365 + d mod 365 = d" by simp
  moreover have "y - 1970 = d div 365" by (simp add: y_def)
  ultimately have "d1 = d mod 365 - (leaps (y - 1) - leaps 1969)" unfolding d1_def year_start_def by (simp add: algebra_simps)
  moreover have "0 \<le> d mod 365" "d mod 365 < 365" by simp_all
  ultimately have d1: "-35 \<le> d1" "d1 < 365" using leaps_bounds [of "y - 1"] y by linarith+
  have e: "year_loop d 1970 = year_loop d1 y"
    using year_loop_step [of d 1970] False by (simp add: d1_def y_def year_start_def)
  show thesis
  proof (cases "0 \<le> d1")
    case True
    show thesis
      by (rule that [of d1 y]) (use e True d1 y year_length_bounds(1) [of y] in \<open>simp_all add: year_loop_stop d1_def\<close>)
  next
    case neg: False
    show thesis
      by (rule that [of "d1 + year_length (y - 1)" "y - 1"])
        (use e neg d1 y year_length_bounds [of "y - 1"] year_start_Suc [of "y - 1"] in
          \<open>simp_all add: year_loop_back d1_def\<close>)
  qed
qed

lemma month_loop_correct:
  assumes "ip ! 0 \<le> days"
  shows "month_loop ip days n \<le> n" "ip ! month_loop ip days n \<le> days"
    "month_loop ip days n < n \<Longrightarrow> days < ip ! Suc (month_loop ip days n)"
proof -
  have "month_loop ip days n \<le> n \<and> ip ! month_loop ip days n \<le> days \<and>
      (month_loop ip days n < n \<longrightarrow> days < ip ! Suc (month_loop ip days n))"
    using assms by (induction n) (auto simp: le_Suc_eq less_Suc_eq_le)
  then show "month_loop ip days n \<le> n" "ip ! month_loop ip days n \<le> days"
    "month_loop ip days n < n \<Longrightarrow> days < ip ! Suc (month_loop ip days n)" by simp_all
qed

abbreviation month_table :: "int \<Rightarrow> int list" where
  "month_table y \<equiv> if isleap y then snd mon_yday else fst mon_yday"

lemma month_cases:
  assumes "m \<le> (11 :: nat)"
  shows "m \<in> set [0, 1, 2, 3, 4, 5, 6, 7, 8, 9, 10, 11]"
proof -
  have "[0, 1, 2, 3, 4, 5, 6, 7, 8, 9, 10, 11] = [0 ..< 12 :: nat]" by (simp add: upt_rec)
  with assms show ?thesis by (simp del: upt_rec_numeral)
qed

lemma month_lengths:
  assumes "m \<le> 11"
  shows "month_table y ! m = fst mon_yday ! m + of_bool (isleap y \<and> 2 \<le> m)"
    "month_table y ! Suc m - month_table y ! m \<le> 31"
    "month_table y ! Suc 11 = year_length y" "month_table y ! 0 = 0"
  using month_cases [OF assms] by (auto simp: mon_yday_def year_length_def)

lemma to_short_small: "-32768 \<le> x \<Longrightarrow> x < 32768 \<Longrightarrow> to_short x = x"
  by (rule signed_take_bit_int_eq_self) simp_all

text \<open>The date the fields stand for, and what \<open>gettime\<close> yields.\<close>

definition valid_tm :: "tm \<Rightarrow> bool" where
  "valid_tm m \<longleftrightarrow> 0 \<le> tm_sec m \<and> tm_sec m < 60 \<and> 0 \<le> tm_min m \<and> tm_min m < 60 \<and>
     0 \<le> tm_hour m \<and> tm_hour m < 24 \<and> 0 \<le> tm_mon m \<and> tm_mon m \<le> 11 \<and> 1 \<le> tm_mday m \<and> tm_mday m \<le> 31 \<and>
     70 \<le> tm_year m \<and> tm_year m \<le> 206 \<and> 0 \<le> tm_wday m \<and> tm_wday m \<le> 6 \<and>
     tm_yday m = month_table (tm_year m + 1900) ! nat (tm_mon m) + tm_mday m - 1 \<and>
     tm_yday m < year_length (tm_year m + 1900)"

lemma gettime_correct:
  obtains m where "gettime t = Some m" "valid_tm m"
    "uint t = (((year_start (tm_year m + 1900) + tm_yday m) * 24 + tm_hour m) * 60 + tm_min m) * 60 + tm_sec m"
    "tm_wday m = (4 + uint t div SECS_PER_DAY) mod 7"
proof -
  define d where "d = uint t div SECS_PER_DAY"
  define r where "r = uint t mod SECS_PER_DAY"
  have "uint t < 2 ^ LENGTH(32)" by (rule unsigned_less)
  then have t: "0 \<le> uint t" "uint t < 4294967296" by simp_all
  have d: "0 \<le> d" "d < 49711" using t unfolding d_def by (simp_all add: pos_imp_zdiv_nonneg_iff)
  have r: "0 \<le> r" "r < 86400" unfolding r_def by simp_all
  have td: "uint t = d * 86400 + r" unfolding d_def r_def by simp
  obtain yday y where y: "year_loop d 1970 = Some (yday, y)" "year_start y + yday = d"
    "0 \<le> yday" "yday < year_length y" "1970 \<le> y" "y \<le> 2106"
    using year_loop_correct [OF d] .
  let ?ip = "month_table y"
  define mon where "mon = month_loop ?ip yday 11"
  have "?ip ! 0 \<le> yday" using month_lengths(4) [of 0 y] y(3) by simp
  note m = month_loop_correct [OF this, of 11, folded mon_def]
  have m31: "yday - ?ip ! mon < 31"
  proof (cases "mon < 11")
    case True
    with m(3) month_lengths(2) [OF m(1), of y] show ?thesis by linarith
  next
    case False
    then have "mon = 11" using m(1) by simp
    with month_lengths(2) [of 11 y] month_lengths(3) [of 0 y] y(4) show ?thesis by simp
  qed
  have b: "below_zero d r = (d, r)" "above_day d r = (d, r)" using r by simp_all
  define se mi h wd where h: "se = r mod 3600 mod 60" "mi = r mod 3600 div 60" "h = r div 3600" "wd = (4 + d) mod 7"
  define tm where "tm = \<lparr>tm_sec = se, tm_min = mi, tm_hour = h,
      tm_mday = yday - ?ip ! mon + 1, tm_mon = int mon, tm_year = y - 1900, tm_wday = wd,
      tm_yday = yday, tm_isdst = of_bool (isleap y)\<rparr>"
  have w: "\<not> (4 + d) mod 7 < 0" by (simp add: not_less)
  have n: "0 \<le> r mod 3600" by simp
  have x: "0 \<le> x div 60 \<and> x div 60 < 60" if "0 \<le> x" "x < 3600" for x :: int using that by presburger
  have hms: "0 \<le> se" "se < 60" "0 \<le> mi" "mi < 60" "0 \<le> h" "h < 24" "0 \<le> wd" "wd \<le> 6"
    using x [of "r mod 3600"] r unfolding h by (simp_all add: pos_imp_zdiv_nonneg_iff)
  have rr: "(h * 60 + mi) * 60 + se = r" unfolding h by simp
  have "gettime t = Some tm"
    unfolding gettime_def offtime_def d_def [symmetric] r_def [symmetric]
    using y(1) d r n w
    by (simp add: b sdiv_nonneg smod_nonneg tm_def mon_def h Let_def del: below_zero.simps above_day.simps cong: if_cong)
  moreover have "valid_tm tm"
    unfolding valid_tm_def tm_def using y(3-6) m(1,2) m31 hms by simp
  moreover have "uint t = (((year_start (tm_year tm + 1900) + tm_yday tm) * 24 + tm_hour tm) * 60 + tm_min tm) * 60 + tm_sec tm"
    unfolding td using y(2) rr by (simp add: tm_def)
  moreover have "tm_wday tm = (4 + uint t div SECS_PER_DAY) mod 7" by (simp add: tm_def h d_def)
  ultimately show thesis using that by blast
qed

lemma mktime_correct:
  assumes "valid_tm m"
  shows "mktime m = word_of_int ((((year_start (tm_year m + 1900) + tm_yday m) * 24 + tm_hour m) * 60 + tm_min m) * 60 + tm_sec m)"
proof -
  define y where "y = tm_year m + 1900"
  define k where "k = nat (tm_mon m)"
  have v: "0 \<le> tm_mon m" "tm_mon m \<le> 11" "70 \<le> tm_year m" "tm_year m \<le> 206"
    "tm_yday m = month_table y ! k + tm_mday m - 1"
    using assms by (simp_all add: valid_tm_def y_def k_def)
  have s: "to_short (tm_mon m) = tm_mon m" "tm_mon m sdiv 12 = 0" "tm_mon m smod 12 = tm_mon m"
    using v(1,2) by (simp_all add: to_short_small sdiv_nonneg smod_nonneg)
  have y: "to_short (tm_year m + 1900) = y" "to_short (y - 1) = y - 1" "1970 \<le> y"
    using v(3,4) by (simp_all add: to_short_small y_def)
  define y' where "y' = (if tm_mon m \<le> 1 then y - 1 else y)"
  have y': "1969 \<le> y'" using y(3) by (simp add: y'_def)
  have lp: "(y' - 1968) sdiv 4 - (y' - 1900) sdiv 100 + (y' - 1600) sdiv 400 = leaps y' - leaps 1969"
  proof -
    have "(y' - 1968) div 4 = y' div 4 - 492" "(y' - 1900) div 100 = y' div 100 - 19" "(y' - 1600) div 400 = y' div 400 - 4"
      using div_mult_self1 [of 4 y' "-492"] div_mult_self1 [of 100 y' "-19"] div_mult_self1 [of 400 y' "-4"] by simp_all
    then show ?thesis using y' by (simp add: sdiv_nonneg leaps_def)
  qed
  have k: "k \<le> 11" "2 \<le> k \<longleftrightarrow> \<not> tm_mon m \<le> 1" using v(1,2) by (auto simp: k_def)
  have "leaps y' = leaps (y - 1) + of_bool (isleap y \<and> 2 \<le> k)"
    using year_length_leaps [of y] y(3) k(2) by (auto simp: y'_def year_length_def)
  then have days: "(y - 1970) * 365 + fst mon_yday ! k + (leaps y' - leaps 1969) + tm_mday m - 1 = year_start y + tm_yday m"
    using month_lengths(1) [OF k(1), of y] v(5) by (simp add: year_start_def)
  have n: "(tm_year m < 70) = False" "(tm_mon m < 0) = False" "tm_year m + 0 + 1900 = tm_year m + 1900"
    using v(1,3) by simp_all
  have alg: "a + b - c + d + e - 1 = a + (b - c + d) + e - 1" for a b c d e :: u32 by simp
  let ?A = "(y - 1970) * 365 + fst mon_yday ! k"
  have "mktime m = (((word_of_int ?A + word_of_int ((y' - 1968) sdiv 4) - word_of_int ((y' - 1900) sdiv 100) +
      word_of_int ((y' - 1600) sdiv 400) + word_of_int (tm_mday m) - 1) * 24 + word_of_int (tm_hour m)) * 60 +
      word_of_int (tm_min m)) * 60 + word_of_int (tm_sec m)"
    unfolding mktime_def Let_def s n y(1,2) y'_def [symmetric] if_False prod.case k_def ..
  also have "word_of_int ?A + word_of_int ((y' - 1968) sdiv 4) - word_of_int ((y' - 1900) sdiv 100) +
      word_of_int ((y' - 1600) sdiv 400) + word_of_int (tm_mday m) - 1 =
      (word_of_int (?A + ((y' - 1968) sdiv 4 - (y' - 1900) sdiv 100 + (y' - 1600) sdiv 400) + tm_mday m - 1) :: u32)"
    by (simp only: of_int_add of_int_diff of_int_1) (rule alg)
  also have "((word_of_int (?A + ((y' - 1968) sdiv 4 - (y' - 1900) sdiv 100 + (y' - 1600) sdiv 400) + tm_mday m - 1) * 24 + word_of_int (tm_hour m)) * 60 + word_of_int (tm_min m)) * 60 + word_of_int (tm_sec m) =
      (word_of_int ((((?A + ((y' - 1968) sdiv 4 - (y' - 1900) sdiv 100 + (y' - 1600) sdiv 400) +
      tm_mday m - 1) * 24 + tm_hour m) * 60 + tm_min m) * 60 + tm_sec m) :: u32)"
    by (simp only: of_int_add of_int_mult of_int_numeral)
  finally have "mktime m = word_of_int ((((?A + ((y' - 1968) sdiv 4 - (y' - 1900) sdiv 100 + (y' - 1600) sdiv 400) +
      tm_mday m - 1) * 24 + tm_hour m) * 60 + tm_min m) * 60 + tm_sec m)" .
  then have "mktime m = word_of_int ((((year_start y + tm_yday m) * 24 + tm_hour m) * 60 + tm_min m) * 60 + tm_sec m)" unfolding lp days .
  then show ?thesis unfolding y_def .
qed

text \<open>
  (C21) Calendar time round trip: for every time, \<open>gettime\<close> returns a date whose fields are in range, whose
  week day is right and which \<open>mktime\<close> turns back into that time, up to the last second of the 32-bit range.
\<close>

theorem time_roundtrip: "\<exists>m. gettime t = Some m \<and> valid_tm m \<and> mktime m = t \<and> tm_wday m = (4 + uint t div SECS_PER_DAY) mod 7"
proof -
  obtain m where m: "gettime t = Some m" "valid_tm m"
    "uint t = (((year_start (tm_year m + 1900) + tm_yday m) * 24 + tm_hour m) * 60 + tm_min m) * 60 + tm_sec m"
    "tm_wday m = (4 + uint t div SECS_PER_DAY) mod 7"
    by (rule gettime_correct)
  have "mktime m = t" using mktime_correct [OF m(2)] m(3) by (metis word_of_int_uint)
  with m show ?thesis by blast
qed

lemma let_returns: "(\<And>x. f x \<noteq> None) \<Longrightarrow> Let a f \<noteq> None"
  by (simp add: Let_def)

lemma pair_returns: "(\<And>x y. f x y \<noteq> None) \<Longrightarrow> (case p of (x, y) \<Rightarrow> f x y) \<noteq> None"
  by (cases p) simp

lemma number_returns:
  assumes "2 \<le> base" "base \<le> 36"
  obtains str where "number n base width precision flags = Some str"
proof -
  have b: "\<not> (base < 2 \<or> 36 < base)" using assms by auto
  have "number n base width precision flags \<noteq> None"
    unfolding number_def if_not_P [OF b] by (intro let_returns pair_returns option.discI [OF refl])
  then show thesis using that by auto
qed

lemma convert_decimal:
  "\<exists>txt. convert 100 flags width precision written (Arg n # args) = Some (txt, args, [])"
proof -
  obtain str where "number n 10 width precision (flags OR SIGN) = Some str"
    by (rule number_returns [of 10]) simp_all
  then show ?thesis by (simp add: convert_def)
qed

definition fields_return :: "u8 list \<Rightarrow> nat \<Rightarrow> bool" where
  "fields_return fmt k \<longleftrightarrow> (\<forall>str args st. length args = k \<longrightarrow> (\<exists>txt. vsprintf_loop fmt str (map Arg args) st = Some (txt, st)))"

lemma fields_return_plain: "c \<noteq> 37 \<Longrightarrow> fields_return fmt k \<Longrightarrow> fields_return (c # fmt) k"
  by (simp add: fields_return_def)

lemma fields_return_decimal:
  assumes spec: "\<And>args. field_spec fmt args = Some (flags, width, precision, 100 # rest, args)" and r: "fields_return rest k"
  shows "fields_return (37 # fmt) (Suc k)"
  unfolding fields_return_def
proof (intro allI impI)
  fix str :: "u8 list" and args :: "u32 list" and st :: "(u32 \<times> u32) list"
  assume "length args = Suc k"
  then obtain a as where a: "args = a # as" "length as = k" by (auto simp: length_Suc_conv)
  obtain out where "convert 100 flags width precision (length str) (Arg a # map Arg as) = Some (out, map Arg as, [])"
    using convert_decimal by blast
  then show "\<exists>txt. vsprintf_loop (37 # fmt) str (map Arg args) st = Some (txt, st)"
    using r a(2) by (simp add: a(1) spec fields_return_def)
qed

lemma field_plain: "field_spec (100 # rest) args = Some (0, -1, -1, 100 # rest, args)"
  by (simp add: field_spec_def field_width_def field_precision_def skip_qualifier_def)

lemma field_two: "field_spec (46 # 50 # 100 # rest) args = Some (0, -1, 2, 100 # rest, args)"
  by (simp add: field_spec_def field_width_def field_precision_def skip_qualifier_def)

lemma strtime_fields: "fields_return strtime_format 6"
proof -
  have "fields_return [] 0" by (simp add: fields_return_def)
  then have "fields_return strtime_format (Suc (Suc (Suc (Suc (Suc (Suc 0))))))" unfolding strtime_format_def
    by (intro fields_return_decimal [OF field_plain] fields_return_decimal [OF field_two] fields_return_plain) simp_all
  then show ?thesis by (simp add: eval_nat_numeral)
qed

lemma strtime_returns: "\<exists>str. strtime t = Some (str, [])"
proof -
  obtain m where m: "gettime t = Some m" using gettime_correct by blast
  from strtime_fields [unfolded fields_return_def, rule_format, of "map word_of_int
      [tm_year m + 1900, tm_mon m + 1, tm_mday m, tm_hour m, tm_min m, tm_sec m]" "[]" "[]"]
  show ?thesis by (simp add: strtime_def m sprintf_def vsprintf_def)
qed

end
