(* ===== verification/Clock.thy ===== *)
theory Clock
  imports Interrupts KTime
begin

text \<open>
  The start of the clock, \<open>ArStartRealTimeClock\<close> of \<open>kernel/arch/i386/clock/rtc.c\<close>: the date is read from
  the registers of the real time clock chip, two decimal digits each, and turned into seconds.
  The macro of the source reads each register twice; the chip is taken to answer the same both times.
\<close>

section \<open>Operations\<close>

definition BCD_TO_HEX :: "u8 \<Rightarrow> int" where
  "BCD_TO_HEX bcd = uint (bcd AND 0xf) + uint (drop_bit 4 bcd AND 0xf) * 10"

text \<open>\<open>cmos r\<close> is what the chip answers for register \<open>r\<close>. The week day, the day of the year and the leap
  flag are not initialised, and \<open>mktime\<close> does not read them.\<close>

definition read_clock :: "(u8 \<Rightarrow> u8) \<Rightarrow> tm" where
  "read_clock cmos =
     \<lparr>tm_sec = BCD_TO_HEX (cmos 0), tm_min = BCD_TO_HEX (cmos 2), tm_hour = BCD_TO_HEX (cmos 4),
      tm_mday = BCD_TO_HEX (cmos 7), tm_mon = BCD_TO_HEX (cmos 8) - 1, tm_year = BCD_TO_HEX (cmos 9),
      tm_wday = 0, tm_yday = 0, tm_isdst = 0\<rparr>"

text \<open>The result is the bytes written to the ports of the timer, the time text that is printed and the state.\<close>

definition ArStartRealTimeClock ::
  "(u8 \<Rightarrow> u8) \<Rightarrow> u32 \<Rightarrow> kernel \<Rightarrow> ((u16 \<times> u8) list \<times> u8 list \<times> kernel) option" where
  "ArStartRealTimeClock cmos handler s = do {
     let ports = ArSetRealTimeClockFrequency RTC_FREQUENCY;
     let (_, s) = ArInstallIrq RTC_INTERRUPT handler s;
     let s = ArSetIrqMask RTC_INTERRUPT True s;
     let second = mktime (read_clock cmos);
     let s = s\<lparr>rtc_second := second, rtc_time := 0, rtc_millisecond := second * 1000\<rparr>;
     (timestr, _) \<leftarrow> strtime (rtc_second s);
     Some (ports, timestr, s) }"

section \<open>Reading the chip\<close>

definition bcd :: "int \<Rightarrow> u8" where
  "bcd x = word_of_int (x div 10 * 16 + x mod 10)"

lemma bcd_read: "0 \<le> x \<Longrightarrow> x < 100 \<Longrightarrow> BCD_TO_HEX (bcd x) = x"
proof -
  assume x: "0 \<le> x" "x < 100"
  have "\<forall>k\<in>set [0..<100]. BCD_TO_HEX (bcd (int k)) = int k" by code_simp
  moreover have "nat x \<in> set [0..<100]" "int (nat x) = x" using x by auto
  ultimately show ?thesis by metis
qed

text \<open>The date the chip shows: the year without its century.\<close>

definition chip_shows :: "tm \<Rightarrow> (u8 \<Rightarrow> u8) \<Rightarrow> bool" where
  "chip_shows m cmos \<longleftrightarrow> cmos 0 = bcd (tm_sec m) \<and> cmos 2 = bcd (tm_min m) \<and> cmos 4 = bcd (tm_hour m) \<and>
     cmos 7 = bcd (tm_mday m) \<and> cmos 8 = bcd (tm_mon m + 1) \<and> cmos 9 = bcd (tm_year m mod 100)"

lemma mktime_century:
  assumes "valid_tm m" and "tm_year m < 170"
  shows "mktime (m\<lparr>tm_year := tm_year m mod 100\<rparr>) = mktime m"
proof -
  have y: "70 \<le> tm_year m" using assms(1) by (simp add: valid_tm_def)
  show ?thesis
  proof (cases "tm_year m < 100")
    case True
    then show ?thesis using y by (simp add: mod_pos_pos_trivial)
  next
    case False
    then have e: "tm_year m mod 100 = tm_year m - 100"
      using assms(2) int_mod_pos_eq [of "tm_year m" 100 1 "tm_year m - 100"] by simp
    have s: "tm_year m - 100 + tm_mon m sdiv 12 + 2000 = tm_year m + tm_mon m sdiv 12 + 1900"
      "to_short (tm_mon m) = tm_mon m"
      using assms(1) by (simp_all add: valid_tm_def to_short_small)
    have c: "(tm_year m - 100 < 70) = True" "(tm_year m < 70) = False" using assms(2) y by simp_all
    have u: "tm_sec (m\<lparr>tm_year := x\<rparr>) = tm_sec m" "tm_min (m\<lparr>tm_year := x\<rparr>) = tm_min m"
      "tm_hour (m\<lparr>tm_year := x\<rparr>) = tm_hour m" "tm_mday (m\<lparr>tm_year := x\<rparr>) = tm_mday m"
      "tm_mon (m\<lparr>tm_year := x\<rparr>) = tm_mon m" "tm_year (m\<lparr>tm_year := x\<rparr>) = x" for x
      by simp_all
    show ?thesis unfolding e mktime_def by (simp only: u Let_def c s if_True if_False)
  qed
qed

lemma mktime_fields:
  "tm_sec a = tm_sec b \<Longrightarrow> tm_min a = tm_min b \<Longrightarrow> tm_hour a = tm_hour b \<Longrightarrow> tm_mday a = tm_mday b \<Longrightarrow>
    tm_mon a = tm_mon b \<Longrightarrow> tm_year a = tm_year b \<Longrightarrow> mktime a = mktime b"
  by (simp only: mktime_def)

text \<open>
  (C22) The clock starts with the right time: when the chip shows the date of a time before 2070, the system
  time is set to that time, the tick counter to 0, and the clock interrupt is unmasked.
\<close>

theorem clock_start:
  assumes "gettime t = Some m" and "tm_year m < 170" and "chip_shows m cmos"
  shows "\<exists>timestr s'. strtime t = Some (timestr, []) \<and>
    ArStartRealTimeClock cmos handler s = Some (ArSetRealTimeClockFrequency 200, timestr, s') \<and>
    rtc_second s' = t \<and> rtc_time s' = 0 \<and> rtc_millisecond s' = t * 1000 \<and> \<not> bit (pic_mask s' False) 0"
proof -
  from time_roundtrip [of t] assms(1) have m: "valid_tm m" "mktime m = t" by auto
  have r: "BCD_TO_HEX (bcd (tm_sec m)) = tm_sec m" "BCD_TO_HEX (bcd (tm_min m)) = tm_min m"
    "BCD_TO_HEX (bcd (tm_hour m)) = tm_hour m" "BCD_TO_HEX (bcd (tm_mday m)) = tm_mday m"
    "BCD_TO_HEX (bcd (tm_mon m + 1)) = tm_mon m + 1" "BCD_TO_HEX (bcd (tm_year m mod 100)) = tm_year m mod 100"
    using m(1) by (auto simp: valid_tm_def intro!: bcd_read)
  have "mktime (read_clock cmos) = mktime (m\<lparr>tm_year := tm_year m mod 100\<rparr>)"
    using assms(3) by (intro mktime_fields) (simp_all add: read_clock_def chip_shows_def r)
  then have t: "mktime (read_clock cmos) = t" using mktime_century [OF m(1) assms(2)] m(2) by simp
  have b: "\<not> bit (w AND 0xFE :: u8) 0" for w by (simp add: bit_simps)
  let ?u = "ArSetIrqMask RTC_INTERRUPT True (snd (ArInstallIrq RTC_INTERRUPT handler s))"
  let ?s = "?u\<lparr>rtc_second := t, rtc_time := 0, rtc_millisecond := t * 1000\<rparr>"
  obtain str where str: "strtime t = Some (str, [])" using strtime_returns by blast
  have "ArStartRealTimeClock cmos handler s = Some (ArSetRealTimeClockFrequency 200, str, ?s)"
    unfolding ArStartRealTimeClock_def t by (simp add: Let_def split_beta str)
  moreover have "\<not> bit (pic_mask ?s False) 0" by (simp add: ArSetIrqMask_def mask_update_def b Let_def)
  ultimately show ?thesis using str by (intro exI [of _ str] exI [of _ ?s]) simp
qed

text \<open>A chip that shows 2009-06-18 12:30:45.\<close>

theorem clock_start_witness:
  "\<exists>timestr s'. ArStartRealTimeClock
      (\<lambda>r. if r = 0 then 0x45 else if r = 2 then 0x30 else if r = 4 then 0x12 else if r = 7 then 0x18
           else if r = 8 then 0x06 else 0x09) 0 kernel0 = Some (ArSetRealTimeClockFrequency 200, timestr, s') \<and>
    rtc_second s' = 1245328245"
proof -
  have "gettime 1245328245 = Some \<lparr>tm_sec = 45, tm_min = 30, tm_hour = 12, tm_mday = 18, tm_mon = 5, tm_year = 109,
      tm_wday = 4, tm_yday = 168, tm_isdst = 0\<rparr>" by code_simp
  from clock_start [OF this, of "\<lambda>r. if r = 0 then 0x45 else if r = 2 then 0x30 else if r = 4 then 0x12 else if r = 7 then 0x18
      else if r = 8 then 0x06 else 0x09" 0 kernel0]
  show ?thesis by (auto simp: chip_shows_def bcd_def)
qed

end
