(* ===== verification/Terminal.thy ===== *)
theory Terminal
  imports CLib
begin

text \<open>
  The text screen, \<open>kernel/arch/i386/io/terminal.c\<close>, and the debugger output of \<open>kernel/kd/debug.c\<close> on
  it. The screen buffer and the video memory are arrays of cells; their indices are integers, so that a
  store outside the 80 by 25 cells is a store at such an index. \<open>t_log\<close> is what has been written to the
  ports, the latest last.
\<close>

section \<open>State\<close>

record terminal =
  t_x :: int
  t_y :: int
  t_style :: u16
  t_buffer :: "int \<Rightarrow> u16"
  t_video :: "int \<Rightarrow> u16"
  t_log :: "(u16 \<times> u8) list"

abbreviation t_w :: int where "t_w \<equiv> 80"
abbreviation t_h :: int where "t_h \<equiv> 25"

section \<open>Operations\<close>

definition ArOutByte :: "u16 \<Rightarrow> u8 \<Rightarrow> terminal \<Rightarrow> terminal" where
  "ArOutByte port v t = t\<lparr>t_log := t_log t @ [(port, v)]\<rparr>"

text \<open>\<open>memcpy16\<close> to the video memory and inside the buffer, \<open>memset16\<close> of the buffer.\<close>

definition show_cells :: "int \<Rightarrow> int \<Rightarrow> terminal \<Rightarrow> terminal" where
  "show_cells start n t =
     t\<lparr>t_video := \<lambda>i. if start \<le> i \<and> i < start + n then t_buffer t i else t_video t i\<rparr>"

definition fill_cells :: "int \<Rightarrow> int \<Rightarrow> terminal \<Rightarrow> terminal" where
  "fill_cells start n t =
     t\<lparr>t_buffer := \<lambda>i. if start \<le> i \<and> i < start + n then t_style t else t_buffer t i\<rparr>"

definition put_cell :: "int \<Rightarrow> u16 \<Rightarrow> terminal \<Rightarrow> terminal" where
  "put_cell i v t = t\<lparr>t_buffer := (t_buffer t)(i := v)\<rparr>"

definition scroll_up :: "terminal \<Rightarrow> terminal" where
  "scroll_up t =
     (let t = t\<lparr>t_buffer := \<lambda>i. if 0 \<le> i \<and> i < t_w * (t_h - 1) then t_buffer t (i + t_w) else t_buffer t i\<rparr>;
          t = fill_cells (t_w * (t_h - 1)) t_w t;
          t = show_cells 0 (t_w * t_h) t
      in t\<lparr>t_y := t_y t - 1\<rparr>)"

definition next_line :: "terminal \<Rightarrow> terminal" where
  "next_line t =
     (let t = t\<lparr>t_x := 0, t_y := t_y t + 1\<rparr>
      in if t_h \<le> t_y t then scroll_up t else t)"

definition move_cursor :: "terminal \<Rightarrow> terminal" where
  "move_cursor t =
     (let offset = t_y t * t_w + t_x t;
          t = show_cells (t_y t * t_w) 80 t;
          t = ArOutByte 0x3D4 14 t;
          t = ArOutByte 0x3D5 (word_of_int (drop_bit 8 offset)) t;
          t = ArOutByte 0x3D4 15 t
      in ArOutByte 0x3D5 (word_of_int (offset AND 0xFF)) t)"

definition ArClearScreen :: "terminal \<Rightarrow> terminal" where
  "ArClearScreen t =
     (let t = fill_cells 0 (t_w * t_h) t;
          t = show_cells 0 (t_w * t_h) t
      in move_cursor (t\<lparr>t_x := 0, t_y := 0\<rparr>))"

text \<open>A character other than a tabulator: the colours it switches, the cell it changes, the line feed at the
  right margin and the cursor. The interrupt flag is saved and restored around it.\<close>

definition print_plain :: "u8 \<Rightarrow> terminal \<Rightarrow> terminal" where
  "print_plain ch t =
     (let t = ArOutByte 0xE9 ch t;
          t = (if ch = 0x23 then t\<lparr>t_style := 0x0C00\<rparr>
               else if ch = 0x5B then t\<lparr>t_style := 0x0200\<rparr> else t);
          t = (if ch = 10 then next_line t
               else if ch = 8 then put_cell (t_y t * t_w + (t_x t - 1)) (t_style t) (t\<lparr>t_x := t_x t - 1\<rparr>)
               else if isprint ch then (put_cell (t_y t * t_w + t_x t) (t_style t OR ucast ch) t)\<lparr>t_x := t_x t + 1\<rparr>
               else t);
          t = (if ch = 0x5D \<or> ch = 10 then t\<lparr>t_style := 0x0700\<rparr> else t);
          t = (if t_w \<le> t_x t then next_line t else t)
      in move_cursor t)"

text \<open>A tabulator prints blanks up to a column that is one past a multiple of four.\<close>

partial_function (option) tab_loop :: "terminal \<Rightarrow> terminal option" where
  "tab_loop t =
     (let t = print_plain 0x20 t
      in if (t_x t - 1) mod 4 = 0 then Some t else tab_loop t)"

declare tab_loop.simps [code]

definition ArPrintChar :: "u8 \<Rightarrow> terminal \<Rightarrow> terminal option" where
  "ArPrintChar ch t = (if ch = 9 then tab_loop (ArOutByte 0xE9 ch t) else Some (print_plain ch t))"

fun PrintString :: "u8 list \<Rightarrow> terminal \<Rightarrow> terminal option" where
  "PrintString [] t = Some t"
| "PrintString (c # buf) t = do { t \<leftarrow> ArPrintChar c t; PrintString buf t }"

text \<open>\<open>printbuf\<close> has 256 bytes; a text that does not fit with its zero overwrites the stack (\<open>None\<close>).\<close>

definition KdPrintf :: "u8 list \<Rightarrow> va list \<Rightarrow> terminal \<Rightarrow> terminal option" where
  "KdPrintf fmt args t = do {
     (printbuf, stores) \<leftarrow> vsprintf fmt args;
     if 256 \<le> length printbuf then None else PrintString printbuf t }"

section \<open>The cursor stays on the screen\<close>

definition on_screen :: "terminal \<Rightarrow> bool" where
  "on_screen t \<longleftrightarrow> 0 \<le> t_x t \<and> t_x t < t_w \<and> 0 \<le> t_y t \<and> t_y t < t_h"

definition outside_same :: "terminal \<Rightarrow> terminal \<Rightarrow> bool" where
  "outside_same t t' \<longleftrightarrow> (\<forall>i. i < 0 \<or> t_w * t_h \<le> i \<longrightarrow> t_buffer t' i = t_buffer t i \<and> t_video t' i = t_video t i)"

lemma outside_refl [simp]: "outside_same t t"
  by (simp add: outside_same_def)

lemma outside_trans: "outside_same s t \<Longrightarrow> outside_same t u \<Longrightarrow> outside_same s u"
  by (simp add: outside_same_def)

lemma terminal_fields [simp]:
  "t_x (ArOutByte p b t) = t_x t" "t_y (ArOutByte p b t) = t_y t" "t_style (ArOutByte p b t) = t_style t"
  "t_buffer (ArOutByte p b t) = t_buffer t" "t_video (ArOutByte p b t) = t_video t"
  "t_x (show_cells a n t) = t_x t" "t_y (show_cells a n t) = t_y t" "t_style (show_cells a n t) = t_style t"
  "t_buffer (show_cells a n t) = t_buffer t"
  "t_video (show_cells a n t) i = (if a \<le> i \<and> i < a + n then t_buffer t i else t_video t i)"
  "t_x (fill_cells a n t) = t_x t" "t_y (fill_cells a n t) = t_y t" "t_style (fill_cells a n t) = t_style t"
  "t_buffer (fill_cells a n t) i = (if a \<le> i \<and> i < a + n then t_style t else t_buffer t i)"
  "t_video (fill_cells a n t) = t_video t"
  "t_x (put_cell i v t) = t_x t" "t_y (put_cell i v t) = t_y t" "t_style (put_cell i v t) = t_style t"
  "t_buffer (put_cell i v t) = (t_buffer t)(i := v)" "t_video (put_cell i v t) = t_video t"
  by (simp_all add: ArOutByte_def show_cells_def fill_cells_def put_cell_def)

lemma move_cursor_fields [simp]:
  "t_x (move_cursor t) = t_x t" "t_y (move_cursor t) = t_y t" "t_style (move_cursor t) = t_style t"
  "t_buffer (move_cursor t) = t_buffer t"
  "t_video (move_cursor t) i = (if t_y t * 80 \<le> i \<and> i < t_y t * 80 + 80 then t_buffer t i else t_video t i)"
  by (simp_all add: move_cursor_def Let_def)

lemma scroll_fields:
  "t_x (scroll_up t) = t_x t" "t_y (scroll_up t) = t_y t - 1" "t_style (scroll_up t) = t_style t"
  "t_buffer (scroll_up t) i = (if 0 \<le> i \<and> i < 1920 then t_buffer t (i + 80)
     else if 1920 \<le> i \<and> i < 2000 then t_style t else t_buffer t i)"
  "t_video (scroll_up t) i = (if 0 \<le> i \<and> i < 2000 then t_buffer (scroll_up t) i else t_video t i)"
  by (simp_all add: scroll_up_def Let_def)

lemma next_line_fields:
  "t_x (next_line t) = 0" "t_y (next_line t) = (if 24 \<le> t_y t then t_y t else t_y t + 1)"
  "t_style (next_line t) = t_style t" "outside_same t (next_line t)"
  by (simp_all add: next_line_def Let_def scroll_fields outside_same_def)

lemma outside_move: "0 \<le> t_y t \<Longrightarrow> t_y t < t_h \<Longrightarrow> outside_same t (move_cursor t)"
  by (auto simp: outside_same_def)

lemma outside_put: "0 \<le> i \<Longrightarrow> i < t_w * t_h \<Longrightarrow> outside_same t (put_cell i v t)"
  by (auto simp: outside_same_def)

text \<open>The steps of \<open>print_plain\<close>.\<close>

definition colour_before :: "u8 \<Rightarrow> terminal \<Rightarrow> terminal" where
  "colour_before ch t = (if ch = 0x23 then t\<lparr>t_style := 0x0C00\<rparr> else if ch = 0x5B then t\<lparr>t_style := 0x0200\<rparr> else t)"

definition colour_after :: "u8 \<Rightarrow> terminal \<Rightarrow> terminal" where
  "colour_after ch t = (if ch = 0x5D \<or> ch = 10 then t\<lparr>t_style := 0x0700\<rparr> else t)"

definition cell_step :: "u8 \<Rightarrow> terminal \<Rightarrow> terminal" where
  "cell_step ch t = (if ch = 10 then next_line t
     else if ch = 8 then put_cell (t_y t * t_w + (t_x t - 1)) (t_style t) (t\<lparr>t_x := t_x t - 1\<rparr>)
     else if isprint ch then (put_cell (t_y t * t_w + t_x t) (t_style t OR ucast ch) t)\<lparr>t_x := t_x t + 1\<rparr>
     else t)"

definition wrap_line :: "terminal \<Rightarrow> terminal" where
  "wrap_line t = (if t_w \<le> t_x t then next_line t else t)"

lemma print_plain_steps:
  "print_plain ch t = move_cursor (wrap_line (colour_after ch (cell_step ch (colour_before ch (ArOutByte 0xE9 ch t)))))"
  unfolding print_plain_def Let_def colour_before_def [symmetric] cell_step_def [symmetric] colour_after_def [symmetric]
    wrap_line_def [symmetric] ..

lemma colour_fields [simp]:
  "t_x (colour_before ch t) = t_x t" "t_y (colour_before ch t) = t_y t" "t_buffer (colour_before ch t) = t_buffer t"
  "t_video (colour_before ch t) = t_video t"
  "t_x (colour_after ch t) = t_x t" "t_y (colour_after ch t) = t_y t" "t_buffer (colour_after ch t) = t_buffer t"
  "t_video (colour_after ch t) = t_video t"
  by (simp_all add: colour_before_def colour_after_def)

lemma outside_fields:
  "t_buffer t' = t_buffer t \<Longrightarrow> t_video t' = t_video t \<Longrightarrow> outside_same t t'"
  by (simp add: outside_same_def)

lemma outside_cong [simp]:
  "outside_same t (colour_before ch t)" "outside_same t (colour_after ch t)" "outside_same t (ArOutByte p v t)"
  by (rule outside_fields; simp)+

lemma cell_step_ok:
  assumes "on_screen t" and "ch \<noteq> 8"
  shows "0 \<le> t_x (cell_step ch t) \<and> t_x (cell_step ch t) \<le> 80 \<and> 0 \<le> t_y (cell_step ch t) \<and> t_y (cell_step ch t) < 25 \<and>
    outside_same t (cell_step ch t)"
proof -
  have t: "0 \<le> t_x t" "t_x t < 80" "0 \<le> t_y t" "t_y t < 25" using assms(1) by (simp_all add: on_screen_def)
  show ?thesis
  proof (cases "ch = 10")
    case True
    then show ?thesis using t by (simp add: cell_step_def next_line_fields)
  next
    case False
    have "outside_same t ((put_cell (t_y t * t_w + t_x t) v t)\<lparr>t_x := t_x t + 1\<rparr>)" for v
      using outside_put [of "t_y t * t_w + t_x t" t v] t by (simp add: outside_same_def)
    then show ?thesis using False t assms(2) by (simp add: cell_step_def)
  qed
qed

lemma print_plain_ok:
  assumes "on_screen t" and "ch \<noteq> 8"
  shows "on_screen (print_plain ch t)" "outside_same t (print_plain ch t)"
proof -
  let ?a = "cell_step ch (colour_before ch (ArOutByte 0xE9 ch t))"
  let ?b = "wrap_line (colour_after ch ?a)"
  have "on_screen (colour_before ch (ArOutByte 0xE9 ch t))" using assms(1) by (simp add: on_screen_def)
  note a = cell_step_ok [OF this assms(2)]
  have b: "0 \<le> t_x ?b" "t_x ?b < 80" "0 \<le> t_y ?b" "t_y ?b < 25"
    using a by (auto simp: wrap_line_def next_line_fields)
  then show "on_screen (print_plain ch t)" by (simp add: print_plain_steps on_screen_def)
  have "outside_same (colour_before ch (ArOutByte 0xE9 ch t)) ?a" using a by blast
  moreover have "outside_same (colour_after ch ?a) ?b" by (simp add: wrap_line_def next_line_fields)
  moreover have "outside_same ?b (move_cursor ?b)" by (rule outside_move) (use b in simp_all)
  ultimately show "outside_same t (print_plain ch t)"
    unfolding print_plain_steps by (meson outside_cong outside_trans)
qed

lemma isprint_blank: "isprint 0x20" by code_simp

text \<open>Each blank brings the column closer to the stop; the right margin is a stop away.\<close>

lemma blank_column:
  assumes "on_screen t"
  shows "t_x (print_plain 0x20 t) = (if t_x t = 79 then 0 else t_x t + 1)"
  using assms by (simp add: print_plain_steps cell_step_def isprint_blank wrap_line_def next_line_fields on_screen_def)

lemma tab_loop_ok:
  assumes "on_screen t"
  shows "\<exists>t'. tab_loop t = Some t' \<and> on_screen t' \<and> outside_same t t' \<and> (t_x t' - 1) mod 4 = 0"
  using assms
proof (induction "nat (if t_x t = 0 then 81 else (80 - t_x t) + 81)" arbitrary: t rule: less_induct)
  case less
  let ?t = "print_plain 0x20 t"
  have ok: "on_screen ?t" "outside_same t ?t" by (rule print_plain_ok [OF less.prems]; simp)+
  show ?case
  proof (cases "(t_x ?t - 1) mod 4 = 0")
    case True
    then show ?thesis using ok by (subst tab_loop.simps) (simp add: Let_def)
  next
    case False
    have x: "t_x t \<noteq> 0" using False blank_column [OF less.prems] by auto
    have "nat (if t_x ?t = 0 then 81 else (80 - t_x ?t) + 81) < nat (if t_x t = 0 then 81 else (80 - t_x t) + 81)"
      using blank_column [OF less.prems] x less.prems by (auto simp: on_screen_def)
    from less.hyps [OF this ok(1)] obtain t' where t': "tab_loop ?t = Some t'" "on_screen t'" "outside_same ?t t'"
      "(t_x t' - 1) mod 4 = 0" by (elim exE conjE)
    have "tab_loop t = Some t'" using False t'(1) by (simp only: tab_loop.simps [of t] Let_def if_False)
    with outside_trans [OF ok(2) t'(3)] t'(2,4) show ?thesis by (intro exI [of _ t'] conjI)
  qed
qed

lemma print_char_ok:
  assumes "on_screen t" and "ch \<noteq> 8"
  obtains t' where "ArPrintChar ch t = Some t'" "on_screen t'" "outside_same t t'"
proof (cases "ch = 9")
  case True
  have "on_screen (ArOutByte 0xE9 ch t)" using assms(1) by (simp add: on_screen_def)
  from tab_loop_ok [OF this] obtain t' where
    t': "tab_loop (ArOutByte 0xE9 ch t) = Some t'" "on_screen t'" "outside_same (ArOutByte 0xE9 ch t) t'" by blast
  have "outside_same t t'" by (rule outside_trans [OF outside_cong(3) t'(3)])
  with t'(1,2) True show thesis by (intro that [of t']) (simp_all add: ArPrintChar_def)
next
  case False
  then show thesis using print_plain_ok [OF assms] by (intro that [of "print_plain ch t"]) (simp_all add: ArPrintChar_def)
qed

text \<open>
  (C24) Printing text without backspaces ends (a tabulator stops, the screen scrolls), leaves the cursor on
  the screen and stores to no cell outside the screen buffer and the video memory.
\<close>

theorem print_stays_on_screen:
  assumes "on_screen t" and "8 \<notin> set buf"
  shows "\<exists>t'. PrintString buf t = Some t' \<and> on_screen t' \<and> outside_same t t'"
  using assms
proof (induction buf arbitrary: t)
  case (Cons c buf)
  from Cons.prems have "c \<noteq> 8" by auto
  with Cons.prems obtain u where u: "ArPrintChar c t = Some u" "on_screen u" "outside_same t u"
    by (metis print_char_ok)
  from Cons.IH [OF u(2)] Cons.prems obtain t' where "PrintString buf u = Some t'" "on_screen t'" "outside_same u t'" by auto
  with u show ?case by (auto intro: outside_trans)
qed simp

definition terminal0 :: terminal where
  "terminal0 = \<lparr>t_x = 0, t_y = 0, t_style = 0x0700, t_buffer = (\<lambda>_. 0), t_video = (\<lambda>_. 0), t_log = []\<rparr>"

theorem print_stays_on_screen_witness:
  "\<exists>t'. PrintString [65, 9, 10, 0x5B] terminal0 = Some t' \<and> on_screen t' \<and> outside_same terminal0 t'"
  by (rule print_stays_on_screen) (simp_all add: terminal0_def on_screen_def)

text \<open>
  A backspace is not checked: at the top left corner it stores to the cell before the screen buffer
  and leaves the cursor at column -1, and each further one goes one cell further down.
\<close>

theorem backspace_underruns:
  assumes "t_y t = 0" and "t_x t = - int n"
  shows "\<exists>t'. ArPrintChar 8 t = Some t' \<and> t_x t' = - int (Suc n) \<and> t_y t' = 0 \<and>
    t_buffer t' = (t_buffer t)(- int (Suc n) := t_style t)"
  using assms by (auto simp: ArPrintChar_def print_plain_steps cell_step_def wrap_line_def colour_before_def colour_after_def)

theorem backspace_underruns_witness:
  "\<exists>t'. ArPrintChar 8 terminal0 = Some t' \<and> t_x t' = -1 \<and> t_buffer t' (-1) = 0x0700"
  using backspace_underruns [of terminal0 0] by (auto simp: terminal0_def)

text \<open>
  A character printed in the last column of a line above the last goes to the buffer but not to the
  video memory: the cursor has moved to the next line, and only that line is shown again.
\<close>

theorem last_column_not_shown:
  assumes "t_x t = 79" and "0 \<le> t_y t" and "t_y t < 24" and "isprint ch" and "ch \<notin> {9, 10, 8, 0x23, 0x5B}"
  shows "\<exists>t'. ArPrintChar ch t = Some t' \<and> t_x t' = 0 \<and> t_y t' = t_y t + 1 \<and>
    t_buffer t' (t_y t * 80 + 79) = t_style t OR ucast ch \<and> t_video t' (t_y t * 80 + 79) = t_video t (t_y t * 80 + 79)"
  using assms
  by (auto simp: ArPrintChar_def print_plain_steps cell_step_def wrap_line_def colour_before_def colour_after_def next_line_def)

theorem last_column_not_shown_witness:
  "\<exists>t'. ArPrintChar 65 (terminal0\<lparr>t_x := 79\<rparr>) = Some t' \<and> t_buffer t' 79 = 0x0741 \<and> t_video t' 79 = 0"
proof -
  have "isprint 65" by code_simp
  with last_column_not_shown [of "terminal0\<lparr>t_x := 79\<rparr>" 65] show ?thesis by (auto simp: terminal0_def)
qed

lemma not_print: "\<not> isprint 8" "\<not> isprint 9" "\<not> isprint 10"
  by code_simp+

lemma print_plain_text:
  assumes "isprint c" "c \<notin> {0x23, 0x5B, 0x5D}" "t_x t + 1 < 80"
  shows "ArPrintChar c t = Some (print_plain c t)" "t_x (print_plain c t) = t_x t + 1" "t_y (print_plain c t) = t_y t"
    "t_style (print_plain c t) = t_style t"
    "t_buffer (print_plain c t) = (t_buffer t)(t_y t * 80 + t_x t := t_style t OR ucast c)"
proof -
  have "c \<noteq> 8" "c \<noteq> 9" "c \<noteq> 10" using assms(1) not_print by auto
  then show "ArPrintChar c t = Some (print_plain c t)" "t_x (print_plain c t) = t_x t + 1" "t_y (print_plain c t) = t_y t"
    "t_style (print_plain c t) = t_style t"
    "t_buffer (print_plain c t) = (t_buffer t)(t_y t * 80 + t_x t := t_style t OR ucast c)"
    using assms by (simp_all add: ArPrintChar_def print_plain_steps cell_step_def wrap_line_def colour_before_def colour_after_def)
qed

text \<open>
  A text of printable characters without the three that switch colours, which ends before the right
  margin, changes exactly its cells of the screen buffer, each to the character in the current colour,
  and moves the cursor behind it.
\<close>

theorem text_in_buffer:
  assumes "\<forall>c\<in>set buf. isprint c \<and> c \<notin> {0x23, 0x5B, 0x5D}" and "t_x t + int (length buf) < 80"
  shows "\<exists>t'. PrintString buf t = Some t' \<and> t_x t' = t_x t + int (length buf) \<and> t_y t' = t_y t \<and>
    (\<forall>i. t_buffer t' i = (let k = i - (t_y t * 80 + t_x t) in
      if 0 \<le> k \<and> k < int (length buf) then t_style t OR ucast (buf ! nat k) else t_buffer t i))"
  using assms
proof (induction buf arbitrary: t)
  case (Cons c buf)
  from Cons.prems have c: "isprint c" "c \<notin> {0x23, 0x5B, 0x5D}" "t_x t + 1 < 80" by auto
  note p = print_plain_text [OF c]
  have r: "\<forall>c\<in>set buf. isprint c \<and> c \<notin> {0x23, 0x5B, 0x5D}" "t_x (print_plain c t) + int (length buf) < 80"
    using Cons.prems p(2) by auto
  from Cons.IH [OF r, unfolded p(2-5)] obtain t' where t': "PrintString buf (print_plain c t) = Some t'" "t_x t' = t_x t + 1 + int (length buf)"
    "t_y t' = t_y t"
    "\<And>i. t_buffer t' i = (let k = i - (t_y t * 80 + (t_x t + 1)) in
      if 0 \<le> k \<and> k < int (length buf) then t_style t OR ucast (buf ! nat k)
      else ((t_buffer t)(t_y t * 80 + t_x t := t_style t OR ucast c)) i)"
    by blast
  have "t_buffer t' i = (let k = i - (t_y t * 80 + t_x t) in
      if 0 \<le> k \<and> k < int (length (c # buf)) then t_style t OR ucast ((c # buf) ! nat k) else t_buffer t i)" for i
  proof -
    define k where "k = i - (t_y t * 80 + t_x t)"
    have i: "i = t_y t * 80 + t_x t + k" by (simp add: k_def)
    show ?thesis unfolding t'(4) by (auto simp: i Let_def nth_Cons' nat_diff_distrib)
  qed
  with t' p(1) show ?case by (intro exI [of _ t']) simp
qed (auto simp: Let_def)

theorem text_in_buffer_witness:
  "\<exists>t'. PrintString [72, 105] terminal0 = Some t' \<and> t_x t' = 2 \<and> t_buffer t' 1 = 0x0769"
proof -
  have "isprint 72" "isprint 105" by code_simp+
  with text_in_buffer [of "[72, 105]" terminal0] show ?thesis by (auto simp: terminal0_def Let_def)
qed

text \<open>
  A line feed on the last line scrolls: every line takes the contents of the one below, the last one
  becomes blank in the current colour, and the whole screen is shown.
\<close>

theorem line_feed_scrolls:
  assumes "t_y t = 24"
  shows "\<exists>t'. ArPrintChar 10 t = Some t' \<and> t_x t' = 0 \<and> t_y t' = 24 \<and>
    (\<forall>i. 0 \<le> i \<and> i < 2000 \<longrightarrow> t_buffer t' i = (if i < 1920 then t_buffer t (i + 80) else t_style t) \<and> t_video t' i = t_buffer t' i)"
  using assms
  by (simp add: ArPrintChar_def print_plain_steps cell_step_def wrap_line_def colour_before_def colour_after_def
      next_line_def scroll_fields)

theorem line_feed_scrolls_witness:
  "\<exists>t'. ArPrintChar 10 (terminal0\<lparr>t_y := 24, t_buffer := \<lambda>i. if i = 85 then 0x0741 else 0\<rparr>) = Some t' \<and>
     t_video t' 5 = 0x0741 \<and> t_video t' 1999 = 0x0700"
proof -
  let ?t = "terminal0\<lparr>t_y := 24, t_buffer := \<lambda>i. if i = 85 then 0x0741 else 0\<rparr>"
  obtain t' where t': "ArPrintChar 10 ?t = Some t'" "\<forall>i. 0 \<le> i \<and> i < 2000 \<longrightarrow>
      t_buffer t' i = (if i < 1920 then t_buffer ?t (i + 80) else t_style ?t) \<and> t_video t' i = t_buffer t' i"
    using line_feed_scrolls [of ?t] by auto
  from t'(2) [rule_format, of 5] t'(2) [rule_format, of 1999] t'(1) show ?thesis by (simp add: terminal0_def)
qed

end
