(* ===== verification/UserString.thy ===== *)
theory UserString
  imports CLib
begin

text \<open>
  The string functions of the applications, \<open>api/string.c\<close>. Most are loops of the i386 string
  instructions in inline assembly; memory is a function from addresses to bytes, an address wraps at 32
  bits, and \<open>None\<close> is a loop that never ends (a string without a zero in the whole memory). The direction
  flag is explicit where the code sets it.
\<close>

type_synonym mem = "u32 \<Rightarrow> u8"

text \<open>Lists of bytes in memory; words are stored with the low byte first.\<close>

primrec store_list :: "mem \<Rightarrow> u32 \<Rightarrow> u8 list \<Rightarrow> mem" where
  "store_list m p [] = m"
| "store_list m p (x # xs) = store_list (m(p := x)) (p + 1) xs"

primrec load_list :: "nat \<Rightarrow> mem \<Rightarrow> u32 \<Rightarrow> u8 list" where
  "load_list 0 m p = []"
| "load_list (Suc n) m p = m p # load_list n m (p + 1)"

definition ld16 :: "mem \<Rightarrow> u32 \<Rightarrow> u16" where
  "ld16 m p = ucast (m p) OR push_bit 8 (ucast (m (p + 1)))"

definition ld32 :: "mem \<Rightarrow> u32 \<Rightarrow> u32" where
  "ld32 m p = ucast (m p) OR push_bit 8 (ucast (m (p + 1))) OR push_bit 16 (ucast (m (p + 2))) OR push_bit 24 (ucast (m (p + 3)))"

definition le16 :: "u16 \<Rightarrow> u8 list" where
  "le16 w = [ucast w, ucast (drop_bit 8 w)]"

definition le32 :: "u32 \<Rightarrow> u8 list" where
  "le32 w = [ucast w, ucast (drop_bit 8 w), ucast (drop_bit 16 w), ucast (drop_bit 24 w)]"

lemma unat_32: "unat a < 2 ^ 32" for a :: u32
proof -
  have "unat a < 2 ^ LENGTH(32)" by (rule unsigned_less)
  then show ?thesis by simp
qed

lemma ld32_le32: "ld32 (store_list m p (le32 w)) p = w"
proof -
  have d: "p + 1 \<noteq> p" "p + 2 \<noteq> p" "p + 3 \<noteq> p" "p + 2 \<noteq> p + 1" "p + 3 \<noteq> p + 1" "p + 3 \<noteq> p + 2" for p :: u32 by simp_all
  have e: "p + 1 + 1 = p + 2" "p + 2 + 1 = p + 3" for p :: u32 by simp_all
  have "ucast (ucast w :: u8) OR push_bit 8 (ucast (ucast (drop_bit 8 w) :: u8)) OR push_bit 16 (ucast (ucast (drop_bit 16 w) :: u8)) OR
      push_bit 24 (ucast (ucast (drop_bit 24 w) :: u8)) = w"
  proof (rule bit_word_eqI)
    fix n assume "n < LENGTH(32)"
    then consider "n < 8" | "8 \<le> n" "n < 16" | "16 \<le> n" "n < 24" | "24 \<le> n" "n < 32" by fastforce
    then show "bit (ucast (ucast w :: u8) OR push_bit 8 (ucast (ucast (drop_bit 8 w) :: u8)) OR push_bit 16 (ucast (ucast (drop_bit 16 w) :: u8)) OR
      push_bit 24 (ucast (ucast (drop_bit 24 w) :: u8)) :: u32) n = bit w n" by cases (auto simp: bit_simps)
  qed
  then show ?thesis by (simp add: ld32_def le32_def e d d [symmetric])
qed

section \<open>The string instructions\<close>

lemma ecx_less: "ecx \<noteq> 0 \<Longrightarrow> unat (ecx - 1) < unat ecx" for ecx :: u32
  by (simp add: unat_minus_one unat_gt_0)

text \<open>\<open>rep movsb\<close> and \<open>rep movsw\<close>; \<open>d\<close> is 1, or -1 after \<open>std\<close>.\<close>

function rep_movsb :: "u32 \<Rightarrow> u32 \<Rightarrow> u32 \<Rightarrow> u32 \<Rightarrow> mem \<Rightarrow> mem" where
  "rep_movsb d ecx esi edi m =
     (if ecx = 0 then m else rep_movsb d (ecx - 1) (esi + d) (edi + d) (m(edi := m esi)))"
  by pat_completeness auto
termination by (relation "measure (\<lambda>(_, ecx, _). unat ecx)") (simp_all add: ecx_less)

function rep_movsw :: "u32 \<Rightarrow> u32 \<Rightarrow> u32 \<Rightarrow> mem \<Rightarrow> mem" where
  "rep_movsw ecx esi edi m =
     (if ecx = 0 then m
      else rep_movsw (ecx - 1) (esi + 2) (edi + 2) (m(edi := m esi, edi + 1 := m (esi + 1))))"
  by pat_completeness auto
termination by (relation "measure (\<lambda>(ecx, _). unat ecx)") (simp_all add: ecx_less)

text \<open>\<open>rep stos\<close> of the low bytes of \<open>eax\<close>.\<close>

fun store_bytes :: "u32 \<Rightarrow> u8 list \<Rightarrow> mem \<Rightarrow> mem" where
  "store_bytes edi [] m = m"
| "store_bytes edi (b # bs) m = store_bytes (edi + 1) bs (m(edi := b))"

function rep_stos :: "u8 list \<Rightarrow> u32 \<Rightarrow> u32 \<Rightarrow> mem \<Rightarrow> mem" where
  "rep_stos bs ecx edi m =
     (if ecx = 0 then m else rep_stos bs (ecx - 1) (edi + of_nat (length bs)) (store_bytes edi bs m))"
  by pat_completeness auto
termination by (relation "measure (\<lambda>(_, ecx, _). unat ecx)") (simp_all add: ecx_less)

definition low_byte :: "u32 \<Rightarrow> nat \<Rightarrow> u8" where
  "low_byte eax k = ucast (drop_bit (8 * k) eax)"

text \<open>\<open>repne scasb\<close>: whether the zero flag is set at the end (\<open>z\<close> is the flag before, which stays when the
  count is 0), the count and the pointer. \<open>repe cmpsb\<close> in the same way, with the bytes compared last.\<close>

function repne_scasb :: "u8 \<Rightarrow> bool \<Rightarrow> u32 \<Rightarrow> u32 \<Rightarrow> mem \<Rightarrow> bool \<times> u32 \<times> u32" where
  "repne_scasb al z ecx edi m =
     (if ecx = 0 then (z, ecx, edi)
      else if m edi = al then (True, ecx - 1, edi + 1)
      else repne_scasb al False (ecx - 1) (edi + 1) m)"
  by pat_completeness auto
termination by (relation "measure (\<lambda>(_, _, ecx, _). unat ecx)") (simp_all add: ecx_less)

function repe_cmpsb :: "bool \<Rightarrow> u32 \<Rightarrow> u32 \<Rightarrow> u32 \<Rightarrow> mem \<Rightarrow> bool \<times> u32 \<times> u32" where
  "repe_cmpsb z ecx esi edi m =
     (if ecx = 0 then (z, esi, edi)
      else if m esi \<noteq> m edi then (False, esi + 1, edi + 1)
      else repe_cmpsb True (ecx - 1) (esi + 1) (edi + 1) m)"
  by pat_completeness auto
termination by (relation "measure (\<lambda>(_, ecx, _). unat ecx)") (simp_all add: ecx_less)

text \<open>The count after \<open>repne scasb\<close> from -1, \<open>notl\<close> and \<open>decl\<close>: the length of a string.\<close>

definition scan_length :: "u32 \<Rightarrow> mem \<Rightarrow> u32" where
  "scan_length ct m = (case repne_scasb 0 False 0xFFFFFFFF ct m of (_, ecx, _) \<Rightarrow> NOT ecx - 1)"

section \<open>Copying\<close>

partial_function (option) copy_loop :: "u32 \<Rightarrow> u32 \<Rightarrow> mem \<Rightarrow> mem option" where
  "copy_loop esi edi m =
     (let al = m esi; m = m(edi := al)
      in if al = 0 then Some m else copy_loop (esi + 1) (edi + 1) m)"

definition strcpy :: "u32 \<Rightarrow> u32 \<Rightarrow> mem \<Rightarrow> (u32 \<times> mem) option" where
  "strcpy dest src m = do { m \<leftarrow> copy_loop src dest m; Some (dest, m) }"

text \<open>\<open>decl\<close> and \<open>js\<close>: the loops over a count end when the count, decremented, is negative.\<close>

lemma count_less: "\<not> sint (ecx - 1) < 0 \<Longrightarrow> unat (ecx - 1) < unat ecx" for ecx :: u32
  by (rule ecx_less) auto

function strncpy_loop :: "u32 \<Rightarrow> u32 \<Rightarrow> u32 \<Rightarrow> mem \<Rightarrow> mem" where
  "strncpy_loop esi edi ecx m =
     (if sint (ecx - 1) < 0 then m
      else let al = m esi; m = m(edi := al)
           in if al = 0 then rep_stos [al] (ecx - 1) (edi + 1) m
              else strncpy_loop (esi + 1) (edi + 1) (ecx - 1) m)"
  by pat_completeness auto
termination by (relation "measure (\<lambda>(_, _, ecx, _). unat ecx)") (simp_all add: count_less)

definition strncpy :: "u32 \<Rightarrow> u32 \<Rightarrow> u32 \<Rightarrow> mem \<Rightarrow> u32 \<times> mem" where
  "strncpy dest src count m = (dest, strncpy_loop src dest count m)"

definition strcat :: "u32 \<Rightarrow> u32 \<Rightarrow> mem \<Rightarrow> (u32 \<times> mem) option" where
  "strcat dest src m = do {
     let (_, _, edi) = repne_scasb 0 False 0xFFFFFFFF dest m;
     m \<leftarrow> copy_loop src (edi - 1) m;
     Some (dest, m) }"

text \<open>The result of the copy loop is where a zero is stored in any case, behind the copied one if there was one.\<close>

function strncat_loop :: "u32 \<Rightarrow> u32 \<Rightarrow> u32 \<Rightarrow> mem \<Rightarrow> u32 \<times> mem" where
  "strncat_loop esi edi ecx m =
     (if sint (ecx - 1) < 0 then (edi, m)
      else let al = m esi; m = m(edi := al)
           in if al = 0 then (edi + 1, m) else strncat_loop (esi + 1) (edi + 1) (ecx - 1) m)"
  by pat_completeness auto
termination by (relation "measure (\<lambda>(_, _, ecx, _). unat ecx)") (simp_all add: count_less)

definition strncat :: "u32 \<Rightarrow> u32 \<Rightarrow> u32 \<Rightarrow> mem \<Rightarrow> u32 \<times> mem" where
  "strncat dest src count m =
     (let (_, _, edi) = repne_scasb 0 False 0xFFFFFFFF dest m;
          (edi, m) = strncat_loop src (edi - 1) count m
      in (dest, m(edi := 0)))"

definition memcpy :: "u32 \<Rightarrow> u32 \<Rightarrow> u32 \<Rightarrow> mem \<Rightarrow> u32 \<times> mem" where
  "memcpy dest src n m = (dest, rep_movsb 1 n src dest m)"

definition memcpyw :: "u32 \<Rightarrow> u32 \<Rightarrow> u32 \<Rightarrow> mem \<Rightarrow> u32 \<times> mem" where
  "memcpyw dest src n m = (dest, rep_movsw n src dest m)"

text \<open>The direction flag after the call is part of the result: the second branch leaves it set.\<close>

definition memmove :: "u32 \<Rightarrow> u32 \<Rightarrow> u32 \<Rightarrow> mem \<Rightarrow> u32 \<times> bool \<times> mem" where
  "memmove dest src n m =
     (if dest < src then (dest, False, rep_movsb 1 n src dest m)
      else (dest, True, rep_movsb (- 1) n (src + n - 1) (dest + n - 1) m))"

definition memset :: "u32 \<Rightarrow> u32 \<Rightarrow> u32 \<Rightarrow> mem \<Rightarrow> u32 \<times> mem" where
  "memset s c count m = (s, rep_stos [low_byte c 0] count s m)"

definition memsetw :: "u32 \<Rightarrow> u16 \<Rightarrow> u32 \<Rightarrow> mem \<Rightarrow> u32 \<times> mem" where
  "memsetw s n count m = (s, rep_stos [low_byte (ucast n) 0, low_byte (ucast n) 1] count s m)"

definition memsetd :: "u32 \<Rightarrow> u32 \<Rightarrow> u32 \<Rightarrow> mem \<Rightarrow> u32 \<times> mem" where
  "memsetd s n count m = (s, rep_stos [low_byte n 0, low_byte n 1, low_byte n 2, low_byte n 3] count s m)"

section \<open>Comparing\<close>

text \<open>\<open>scasb\<close> and \<open>cmpsb\<close> compare the byte at \<open>esi\<close>, the second argument, with the one at \<open>edi\<close>, as signed bytes.\<close>

definition less_result :: "u8 \<Rightarrow> u8 \<Rightarrow> int" where
  "less_result source destination = (if source <s destination then 1 else -1)"

partial_function (option) strcmp :: "u32 \<Rightarrow> u32 \<Rightarrow> mem \<Rightarrow> int option" where
  "strcmp cs ct m =
     (let al = m ct
      in if al \<noteq> m cs then Some (less_result al (m cs))
         else if al = 0 then Some 0 else strcmp (cs + 1) (ct + 1) m)"

function strncmp :: "u32 \<Rightarrow> u32 \<Rightarrow> u32 \<Rightarrow> mem \<Rightarrow> int" where
  "strncmp cs ct count m =
     (if sint (count - 1) < 0 then 0
      else let al = m ct
           in if al \<noteq> m cs then less_result al (m cs)
              else if al = 0 then 0 else strncmp (cs + 1) (ct + 1) (count - 1) m)"
  by pat_completeness auto
termination by (relation "measure (\<lambda>(_, _, count, _). unat count)") (simp_all add: count_less)

text \<open>For a count of 0 the flags are those of the instructions before the function: \<open>z\<close> and \<open>lt\<close>.\<close>

definition memcmp :: "bool \<Rightarrow> bool \<Rightarrow> u32 \<Rightarrow> u32 \<Rightarrow> u32 \<Rightarrow> mem \<Rightarrow> int" where
  "memcmp z lt cs ct count m =
     (let (z, esi, edi) = repe_cmpsb z count ct cs m
      in if z then 0
         else if count = 0 then (if lt then 1 else -1)
         else less_result (m (esi - 1)) (m (edi - 1)))"

text \<open>\<open>strlwr\<close> tests a byte and changes the next one; the \<open>strnicmp\<close> loop ends at the end of either string,
  whatever \<open>len\<close> is.\<close>

partial_function (option) strlwr_loop :: "u32 \<Rightarrow> mem \<Rightarrow> mem option" where
  "strlwr_loop p m =
     (if m p = 0 then Some m
      else let p = p + 1
           in strlwr_loop p (if 65 \<le> m p \<and> m p \<le> 90 then m(p := m p + 32) else m))"

definition strlwr :: "u32 \<Rightarrow> mem \<Rightarrow> (u32 \<times> mem) option" where
  "strlwr str m = do { m \<leftarrow> strlwr_loop str m; Some (str, m) }"

partial_function (option) nocase_loop :: "u32 \<Rightarrow> u32 \<Rightarrow> mem \<Rightarrow> (bool \<times> u32 \<times> u32) option" where
  "nocase_loop s1 s2 m =
     (if m s1 = 0 \<or> m s2 = 0 then Some (True, s1, s2)
      else if tolower (m s1) \<noteq> tolower (m s2) then Some (False, s1, s2)
      else nocase_loop (s1 + 1) (s2 + 1) m)"

definition strnicmp :: "u32 \<Rightarrow> u32 \<Rightarrow> u32 \<Rightarrow> mem \<Rightarrow> int option" where
  "strnicmp s1 s2 len m = do { (same, _, _) \<leftarrow> nocase_loop s1 s2 m; Some (if same then 0 else 1) }"

definition stricmp :: "u32 \<Rightarrow> u32 \<Rightarrow> mem \<Rightarrow> int option" where
  "stricmp s1 s2 m = do {
     (same, p1, p2) \<leftarrow> nocase_loop s1 s2 m;
     Some (if same \<and> m p1 = 0 \<and> m p2 = 0 then 0 else 1) }"

section \<open>Searching\<close>

partial_function (option) strlen_loop :: "u32 \<Rightarrow> u32 \<Rightarrow> mem \<Rightarrow> u32 option" where
  "strlen_loop s i m = (if m (s + i) = 0 then Some i else strlen_loop s (i + 1) m)"

definition strlen :: "u32 \<Rightarrow> mem \<Rightarrow> u32 option" where
  "strlen s m = strlen_loop s 0 m"

partial_function (option) strchr :: "u32 \<Rightarrow> u8 \<Rightarrow> mem \<Rightarrow> u32 option" where
  "strchr s c m =
     (if m s = c then Some s else if m s = 0 then Some 0 else strchr (s + 1) c m)"

partial_function (option) strrchr_loop :: "u32 \<Rightarrow> u8 \<Rightarrow> u32 \<Rightarrow> mem \<Rightarrow> u32 option" where
  "strrchr_loop s c found m =
     (let found = (if m s = c then s else found)
      in if m s = 0 then Some found else strrchr_loop (s + 1) c found m)"

definition strrchr :: "u32 \<Rightarrow> u8 \<Rightarrow> mem \<Rightarrow> u32 option" where
  "strrchr s c m = strrchr_loop s c 0 m"

text \<open>Whether a byte that is not zero is among the first \<open>n\<close> at \<open>ct\<close>; the flag before is clear.\<close>

definition in_set :: "u8 \<Rightarrow> u32 \<Rightarrow> u32 \<Rightarrow> mem \<Rightarrow> bool" where
  "in_set al n ct m = fst (repne_scasb al False n ct m)"

text \<open>The loops of \<open>strspn\<close> (\<open>keep\<close> is \<open>True\<close>) and \<open>strcspn\<close>: the byte that ends them.\<close>

partial_function (option) span_loop :: "bool \<Rightarrow> u32 \<Rightarrow> u32 \<Rightarrow> u32 \<Rightarrow> mem \<Rightarrow> u32 option" where
  "span_loop keep n ct esi m =
     (if m esi = 0 then Some esi
      else if in_set (m esi) n ct m = keep then span_loop keep n ct (esi + 1) m else Some esi)"

definition strspn :: "u32 \<Rightarrow> u32 \<Rightarrow> mem \<Rightarrow> u32 option" where
  "strspn cs ct m = do { esi \<leftarrow> span_loop True (scan_length ct m) ct cs m; Some (esi - cs) }"

definition strcspn :: "u32 \<Rightarrow> u32 \<Rightarrow> mem \<Rightarrow> u32 option" where
  "strcspn cs ct m = do { esi \<leftarrow> span_loop False (scan_length ct m) ct cs m; Some (esi - cs) }"

definition strpbrk :: "u32 \<Rightarrow> u32 \<Rightarrow> mem \<Rightarrow> u32 option" where
  "strpbrk cs ct m = do {
     esi \<leftarrow> span_loop False (scan_length ct m) ct cs m;
     Some (if m esi = 0 then 0 else esi) }"

text \<open>The zero flag before the comparison is that of the length.\<close>

partial_function (option) strstr_loop :: "u32 \<Rightarrow> u32 \<Rightarrow> u32 \<Rightarrow> mem \<Rightarrow> u32 option" where
  "strstr_loop n ct esi m =
     (case repe_cmpsb (n = 0) n esi ct m of (z, p, _) \<Rightarrow>
        if z then Some esi
        else if m (p - 1) = 0 then Some 0 else strstr_loop n ct (esi + 1) m)"

definition strstr :: "u32 \<Rightarrow> u32 \<Rightarrow> mem \<Rightarrow> u32 option" where
  "strstr cs ct m = strstr_loop (scan_length ct m) ct cs m"

text \<open>\<open>strtok\<close>: where the delimiters end and where the token ends; \<open>saved\<close> is \<open>___strtok\<close>. The results are the
  token (0 when there is none), the new \<open>___strtok\<close> and the memory with the token cut off.\<close>

definition strtok :: "u32 \<Rightarrow> u32 \<Rightarrow> u32 \<Rightarrow> mem \<Rightarrow> (u32 \<times> u32 \<times> mem) option" where
  "strtok s ct saved m =
     (if s = 0 \<and> saved = 0 then Some (0, 0, m)
      else
        let s = (if s = 0 then saved else s); n = scan_length ct m
        in if n = 0 then Some (0, 0, m)
           else do {
             token \<leftarrow> span_loop True n ct s m;
             if m token = 0 then Some (0, 0, m)
             else do {
               p \<leftarrow> span_loop False n ct token m;
               let (p, m) = (if m p = 0 then (0, m) else (p + 1, m(p := 0)));
               if m token = 0 then Some (0, 0, m) else Some (token, p, m) } })"

declare rep_movsb.simps [simp del]

section \<open>Strings in memory\<close>

fun cstr :: "mem \<Rightarrow> u32 \<Rightarrow> u8 list \<Rightarrow> bool" where
  "cstr m p [] \<longleftrightarrow> m p = 0"
| "cstr m p (c # cs) \<longleftrightarrow> m p = c \<and> c \<noteq> 0 \<and> cstr m (p + 1) cs"

lemma strlen_loop_cstr: "cstr m (s + i) cs \<Longrightarrow> strlen_loop s i m = Some (i + of_nat (length cs))"
proof (induction cs arbitrary: i)
  case (Cons c cs)
  then have "cstr m (s + (i + 1)) cs" by (simp add: add.assoc)
  from Cons.IH [OF this] Cons.prems show ?case by (simp add: strlen_loop.simps [of s i])
qed (simp add: strlen_loop.simps)

text \<open>
  \<open>strcmp\<close> ends on any two strings and compares them as sequences of signed bytes closed by a zero:
  0 exactly when they are equal, 1 when the first is the greater, -1 when it is the smaller.
\<close>

theorem strcmp_correct:
  assumes "cstr m a xs" and "cstr m b ys"
  shows "strcmp a b m = Some (if xs = ys then 0
    else if ord_class.lexordp (map sint (ys @ [0])) (map sint (xs @ [0])) then 1 else -1)"
  using assms
proof (induction xs arbitrary: a b ys)
  case Nil
  then show ?case
    by (cases ys) (auto simp: strcmp.simps less_result_def word_sless_alt)
next
  case (Cons x xs)
  show ?case
  proof (cases ys)
    case Nil
    have "sint x \<noteq> sint (0 :: u8)" using Cons.prems(1) by (metis cstr.simps(2) signed_0 signed_word_eqI)
    with Nil Cons.prems show ?thesis by (auto simp: strcmp.simps less_result_def word_sless_alt)
  next
    case (Cons y zs)
    with Cons.IH [of "a + 1" "b + 1" zs] Cons.prems show ?thesis
      by (auto simp: strcmp.simps [of a b] less_result_def word_sless_alt Let_def dest: signed_word_eqI)
  qed
qed

theorem strcmp_correct_witness:
  "strcmp 10 20 (\<lambda>p. if p = 10 \<or> p = 20 then 65 else if p = 11 then 66 else 0) = Some 1"
  using strcmp_correct [of "\<lambda>p. if p = 10 \<or> p = 20 then 65 else if p = 11 then 66 else 0" 10 "[65, 66]" 20 "[65]"] by simp

section \<open>Moving memory\<close>

lemma word_dec_less: "x \<noteq> 0 \<Longrightarrow> n \<noteq> 0 \<Longrightarrow> x - 1 < n - 1 \<longleftrightarrow> x < n" for x n :: u32
  by (simp add: word_less_nat_alt unat_minus_one) (metis Suc_pred less_Suc_eq_0_disj not_less_eq unat_gt_0)

lemma rep_movsb_forward:
  assumes "\<not> (di - si \<noteq> 0 \<and> di - si < n)"
  shows "rep_movsb 1 n si di m a = (if a - di < n then m (si + (a - di)) else m a)"
  using assms
proof (induction "unat n" arbitrary: n si di m)
  case 0
  then have "n = 0" by (simp add: unat_eq_0)
  then show ?case by (simp add: rep_movsb.simps)
next
  case (Suc k)
  then have n: "n \<noteq> 0" by auto
  have k: "k = unat (n - 1)" using Suc.hyps(2) n by (simp add: unat_minus_one)
  have lt: "x < n - 1 \<Longrightarrow> x < n" for x using n by (simp add: word_less_nat_alt unat_minus_one)
  let ?m = "m(di := m si)"
  have e: "rep_movsb 1 n si di m a = rep_movsb 1 (n - 1) (si + 1) (di + 1) ?m a"
    using n by (simp add: rep_movsb.simps [of 1 n])
  have IH: "rep_movsb 1 (n - 1) (si + 1) (di + 1) ?m a =
      (if a - (di + 1) < n - 1 then ?m (si + 1 + (a - (di + 1))) else ?m a)"
    by (rule Suc.hyps(1) [OF k]) (use Suc.prems lt in auto)
  show ?case
  proof (cases "a = di")
    case True
    have "\<not> (- 1 :: u32) < n - 1" by (simp add: not_less)
    with True n show ?thesis unfolding e IH by (simp add: word_gt_0)
  next
    case False
    have d: "a - (di + 1) = (a - di) - 1" by simp
    have "a - (di + 1) < n - 1 \<longleftrightarrow> a - di < n" unfolding d by (rule word_dec_less) (use False n in simp_all)
    moreover have "si + 1 + (a - (di + 1)) = si + (a - di)" by simp
    moreover have "si + (a - di) \<noteq> di" if "a - di < n"
    proof
      assume "si + (a - di) = di"
      then have "di - si = a - di" by (metis add_diff_cancel_left')
      with Suc.prems that False show False by simp
    qed
    ultimately show ?thesis unfolding e IH using False by simp
  qed
qed

lemma rep_movsb_backward:
  assumes "\<not> (si - di \<noteq> 0 \<and> si - di < n)"
  shows "rep_movsb (- 1) n (si + n - 1) (di + n - 1) m a = (if a - di < n then m (si + (a - di)) else m a)"
  using assms
proof (induction "unat n" arbitrary: n m)
  case 0
  then have "n = 0" by (simp add: unat_eq_0)
  then show ?case by (simp add: rep_movsb.simps)
next
  case (Suc k)
  then have n: "n \<noteq> 0" by auto
  have k: "k = unat (n - 1)" using Suc.hyps(2) n by (simp add: unat_minus_one)
  have lt: "x < n - 1 \<Longrightarrow> x < n" for x using n by (simp add: word_less_nat_alt unat_minus_one)
  let ?m = "m(di + n - 1 := m (si + n - 1))"
  have "rep_movsb (- 1) n (si + n - 1) (di + n - 1) m a = rep_movsb (- 1) (n - 1) (si + n - 1 + - 1) (di + n - 1 + - 1) ?m a"
    using n by (simp add: rep_movsb.simps [of "- 1" n])
  also have "\<dots> = rep_movsb (- 1) (n - 1) (si + (n - 1) - 1) (di + (n - 1) - 1) ?m a"
    by (simp add: algebra_simps)
  also have "\<dots> = (if a - di < n - 1 then ?m (si + (a - di)) else ?m a)"
    by (rule Suc.hyps(1) [OF k]) (use Suc.prems lt in auto)
  also have "\<dots> = (if a - di < n then m (si + (a - di)) else m a)"
  proof (cases "a - di < n - 1")
    case True
    have "si + (a - di) \<noteq> di + n - 1"
    proof
      assume "si + (a - di) = di + n - 1"
      then have "si - di = (n - 1) - (a - di)" by (simp add: algebra_simps)
      moreover have "(n - 1) - (a - di) \<noteq> 0" using True by auto
      moreover have "(n - 1) - (a - di) < n"
      proof (rule order_le_less_trans)
        show "(n - 1) - (a - di) \<le> n - 1" by (rule word_sub_le) (use True in simp)
        show "n - 1 < n" using ecx_less [OF n] by (simp only: word_less_nat_alt)
      qed
      ultimately show False using Suc.prems by metis
    qed
    then show ?thesis using True lt by simp
  next
    case False
    moreover have "unat n = Suc (unat (n - 1))" by (metis Suc_pred n unat_gt_0 unat_minus_one Suc_pred' One_nat_def)
    ultimately have "a - di < n \<longleftrightarrow> a - di = n - 1"
      by (simp only: word_less_nat_alt word_unat_eq_iff) linarith
    moreover have "a - di = n - 1 \<longleftrightarrow> a = di + n - 1" by (auto simp: algebra_simps)
    ultimately show ?thesis using \<open>\<not> a - di < n - 1\<close> by (cases "a = di + n - 1") (simp_all add: add_diff_eq)
  qed
  finally show ?case .
qed

text \<open>
  (C25) \<open>memmove\<close> copies correctly whether or not the two areas overlap, as long as neither wraps around the
  end of memory, and changes nothing else; but when the destination is not below the source it returns
  with the direction flag set, which its callers do not expect.
\<close>

theorem memmove_correct:
  assumes "unat src + unat n \<le> 2 ^ 32" and "unat dest + unat n \<le> 2 ^ 32"
  shows "\<exists>m'. memmove dest src n m = (dest, src \<le> dest, m') \<and>
    (\<forall>a. m' a = (if a - dest < n then m (src + (a - dest)) else m a))"
proof (cases "dest < src")
  case True
  have "\<not> dest - src < n"
    using True assms by (auto simp: word_less_nat_alt unat_sub_if')
  then have "\<not> (dest - src \<noteq> 0 \<and> dest - src < n)" by auto
  from rep_movsb_forward [OF this] True show ?thesis by (simp add: memmove_def not_le)
next
  case False
  have "\<not> (src - dest \<noteq> 0 \<and> src - dest < n)"
    using False assms by (auto simp: word_less_nat_alt unat_sub_if' word_unat_eq_iff)
  from rep_movsb_backward [OF this] False show ?thesis by (simp add: memmove_def not_less)
qed

theorem memmove_correct_witness:
  "\<exists>m'. memmove 101 100 3 (\<lambda>a. ucast a) = (101, True, m') \<and> m' 103 = 102"
  using memmove_correct [of 100 3 101 "\<lambda>a. ucast a"] by auto

text \<open>
  \<open>strnicmp\<close> does not look at its length: a string and any longer string that begins with it, in any
  letter case, compare as equal, whatever the length.
\<close>

theorem strnicmp_prefix_equal:
  assumes "cstr m a xs" and "cstr m b (ys @ zs)" and "map tolower xs = map tolower ys"
  shows "strnicmp a b len m = Some 0"
proof -
  have "\<exists>p q. nocase_loop a b m = Some (True, p, q)"
    using assms
  proof (induction xs arbitrary: a b ys)
    case Nil
    then show ?case by (simp add: nocase_loop.simps)
  next
    case (Cons x xs)
    then obtain y ys' where y: "ys = y # ys'" "tolower x = tolower y" "map tolower xs = map tolower ys'" by auto
    with Cons.IH [of "a + 1" "b + 1" ys'] Cons.prems show ?case by (auto simp: nocase_loop.simps [of a b])
  qed
  then show ?thesis by (auto simp: strnicmp_def)
qed

theorem strnicmp_prefix_equal_witness:
  "strnicmp 10 20 2 (\<lambda>p. if p = 10 then 65 else if p = 20 then 97 else if p = 21 then 98 else 0) = Some 0"
proof -
  have "tolower 65 = tolower 97" by code_simp
  with strnicmp_prefix_equal [of "\<lambda>p. if p = 10 then 65 else if p = 20 then 97 else if p = 21 then 98 else 0" 10 "[65]" 20 "[97]" "[98]" 2]
  show ?thesis by simp
qed

end
