(* ===== verification/UserAlloc.thy ===== *)
theory UserAlloc
  imports Allocator
begin

text \<open>
  The allocator of the applications, \<open>api/alloc.c\<close>, with \<open>api/math.c\<close>. It is a relative of the kernel's
  block allocator: blocks with the same header lie back to back, free blocks hang in a table by size. It
  takes its pool of 256 MB from the kernel at the first call, and guards the table by a counter instead of
  the interrupt flag. \<open>SysSleepThread\<close> and \<open>SysAllocateMemory\<close> are parameters: while a thread sleeps,
  others may change the allocator.
\<close>

section \<open>State\<close>

record uheap =
  u_nodes :: "u32 \<Rightarrow> node_t"
  u_first_node :: u32
  u_free_table :: "nat \<Rightarrow> u32"
  u_mutex :: u32

abbreviation U_MAX_HASH_ENTRY :: nat where "U_MAX_HASH_ENTRY \<equiv> 19"

definition u_upd :: "u32 \<Rightarrow> (node_t \<Rightarrow> node_t) \<Rightarrow> uheap \<Rightarrow> uheap" where
  "u_upd a f s = s\<lparr>u_nodes := (u_nodes s)(a := f (u_nodes s a))\<rparr>"

definition u_MAKE_FREE :: "u32 \<Rightarrow> uheap \<Rightarrow> uheap" where
  "u_MAKE_FREE a = u_upd a (\<lambda>n. n\<lparr>nd_attribute := nd_attribute n OR 1\<rparr>)"

definition u_MAKE_OCCUPIED :: "u32 \<Rightarrow> uheap \<Rightarrow> uheap" where
  "u_MAKE_OCCUPIED a = u_upd a (\<lambda>n. n\<lparr>nd_attribute := nd_attribute n AND NOT 1\<rparr>)"

definition u_HASH_APPEND :: "u32 \<Rightarrow> nat \<Rightarrow> uheap \<Rightarrow> uheap" where
  "u_HASH_APPEND i k s =
     (let l = u_free_table s k;
          s = u_upd i (\<lambda>n. n\<lparr>nd_hash_next := l\<rparr>) s;
          s = u_upd i (\<lambda>n. n\<lparr>nd_hash_prev := 0\<rparr>) s;
          s = (if l \<noteq> 0 then u_upd l (\<lambda>n. n\<lparr>nd_hash_prev := i\<rparr>) s else s)
      in s\<lparr>u_free_table := (u_free_table s)(k := i)\<rparr>)"

definition u_HASH_DELETE :: "u32 \<Rightarrow> nat \<Rightarrow> uheap \<Rightarrow> uheap" where
  "u_HASH_DELETE i k s =
     (let hp = nd_hash_prev (u_nodes s i);
          s = (if hp \<noteq> 0 then u_upd hp (\<lambda>n. n\<lparr>nd_hash_next := nd_hash_next (u_nodes s i)\<rparr>) s
               else s\<lparr>u_free_table := (u_free_table s)(k := nd_hash_next (u_nodes s i))\<rparr>);
          hn = nd_hash_next (u_nodes s i)
      in if hn \<noteq> 0 then u_upd hn (\<lambda>n. n\<lparr>nd_hash_prev := nd_hash_prev (u_nodes s i)\<rparr>) s else s)"

section \<open>Operations\<close>

text \<open>The loop that halves the size is that of the kernel's \<open>calc_hash_index\<close>; the table is longer.\<close>

definition u_calc_hash_index :: "u32 \<Rightarrow> nat" where
  "u_calc_hash_index k =
     (let i = hash_loop (drop_bit 5 k) 0
      in if U_MAX_HASH_ENTRY \<le> i then U_MAX_HASH_ENTRY - 1 else i)"

text \<open>\<open>lock\<close> counts down and, when that is not 0, counts up again and sleeps. \<open>sleep\<close> is what happens to the
  allocator during \<open>SysSleepThread(1)\<close>.\<close>

partial_function (option) u_lock :: "(uheap \<Rightarrow> uheap option) \<Rightarrow> uheap \<Rightarrow> uheap option" where
  "u_lock sleep s =
     (let s' = s\<lparr>u_mutex := u_mutex s - 1\<rparr>
      in if u_mutex s' = 0 then Some s'
         else do { s \<leftarrow> sleep (s'\<lparr>u_mutex := u_mutex s' + 1\<rparr>); u_lock sleep s })"

definition u_unlock :: "uheap \<Rightarrow> uheap" where
  "u_unlock s = s\<lparr>u_mutex := u_mutex s + 1\<rparr>"

text \<open>The pool the kernel gave; without one the application ends (\<open>None\<close>).\<close>

definition allocation_init :: "u32 \<Rightarrow> uheap \<Rightarrow> uheap option" where
  "allocation_init p s =
     (let size = 256 * 1024 * 1024; s = s\<lparr>u_free_table := (\<lambda>_. 0)\<rparr>
      in if p = 0 then None
         else
           let s = u_upd p (\<lambda>n. n\<lparr>nd_prev := 0, nd_next := 0\<rparr>) s;
               s = u_upd p (\<lambda>n. n\<lparr>nd_size := size - SIZEOF_NODE\<rparr>) s;
               s = u_HASH_APPEND p (U_MAX_HASH_ENTRY - 1) s;
               s = u_MAKE_FREE p s
           in Some (s\<lparr>u_first_node := p, u_mutex := 1\<rparr>))"

text \<open>The search loops are those of the kernel's \<open>mm_alloc\<close>; the remainder is compared unsigned.\<close>

definition u_split :: "u32 \<Rightarrow> u32 \<Rightarrow> u32 \<Rightarrow> u32 \<Rightarrow> uheap \<Rightarrow> uheap" where
  "u_split nod siz m rest s =
     (let nod2 = nod + m;
          s = u_upd nod2 (\<lambda>n. n\<lparr>nd_size := rest - SIZEOF_NODE\<rparr>) s;
          s = u_upd nod (\<lambda>n. n\<lparr>nd_size := siz\<rparr>) s;
          s = u_upd nod2 (\<lambda>n. n\<lparr>nd_next := nd_next (u_nodes s nod)\<rparr>) s;
          nx = nd_next (u_nodes s nod2);
          s = (if nx \<noteq> 0 then u_upd nx (\<lambda>n. n\<lparr>nd_prev := nod2\<rparr>) s else s);
          s = u_upd nod (\<lambda>n. n\<lparr>nd_next := nod2\<rparr>) s;
          s = u_upd nod2 (\<lambda>n. n\<lparr>nd_prev := nod\<rparr>) s;
          k = u_calc_hash_index rest;
          s = u_HASH_APPEND nod2 k s
      in u_MAKE_FREE nod2 s)"

definition malloc :: "(uheap \<Rightarrow> uheap option) \<Rightarrow> u32 \<Rightarrow> u32 \<Rightarrow> uheap \<Rightarrow> (u32 \<times> uheap) option" where
  "malloc sleep pool siz s =
     (if siz = 0 then Some (0, s)
      else do {
        s \<leftarrow> (if u_first_node s = 0 then allocation_init pool s else Some s);
        let siz = (if siz < 8 then 8 else siz);
        let m = siz + SIZEOF_NODE;
        let i = u_calc_hash_index m;
        s \<leftarrow> u_lock sleep s;
        (j, nod) \<leftarrow> table_scan (u_nodes s) (u_free_table s) siz [i..<U_MAX_HASH_ENTRY];
        if nod = 0 then Some (0, u_unlock s)
        else
          let rest = nd_size (u_nodes s nod) + SIZEOF_NODE - m;
              s = u_HASH_DELETE nod j s;
              s = u_MAKE_OCCUPIED nod s;
              s = (if 32 \<le> rest then u_split nod siz m rest s else s)
          in Some (nod + SIZEOF_NODE, u_unlock s) })"

definition u_merge :: "u32 \<Rightarrow> u32 \<Rightarrow> u32 \<Rightarrow> uheap \<Rightarrow> uheap" where
  "u_merge a b c s =
     (let k = u_calc_hash_index (nd_size (u_nodes s c) + SIZEOF_NODE);
          s = u_HASH_DELETE c k s;
          s = u_upd a (\<lambda>n. n\<lparr>nd_size := nd_size n + (nd_size (u_nodes s b) + SIZEOF_NODE)\<rparr>) s;
          s = u_upd a (\<lambda>n. n\<lparr>nd_next := nd_next (u_nodes s b)\<rparr>) s;
          nx = nd_next (u_nodes s a)
      in if nx \<noteq> 0 then u_upd nx (\<lambda>n. n\<lparr>nd_prev := a\<rparr>) s else s)"

text \<open>The block is marked free before the lock is taken. Freeing a free block prints an error.\<close>

definition free :: "(uheap \<Rightarrow> uheap option) \<Rightarrow> u32 \<Rightarrow> uheap \<Rightarrow> uheap option" where
  "free sleep p s =
     (if p = 0 then Some s
      else
        let nod = p - SIZEOF_NODE
        in if IS_FREE_NODE (u_nodes s nod) then Some s
           else do {
             let s = u_MAKE_FREE nod s;
             s \<leftarrow> u_lock sleep s;
             let pr = nd_prev (u_nodes s nod);
             let (nod, s) = (if pr \<noteq> 0 \<and> IS_FREE_NODE (u_nodes s pr) then (pr, u_merge pr nod pr s) else (nod, s));
             let nx = nd_next (u_nodes s nod);
             let s = (if nx \<noteq> 0 \<and> IS_FREE_NODE (u_nodes s nx) then u_merge nod nx nx s else s);
             let k = u_calc_hash_index (nd_size (u_nodes s nod) + SIZEOF_NODE);
             let s = u_HASH_APPEND nod k s;
             Some (u_unlock s) })"

definition calloc :: "(uheap \<Rightarrow> uheap option) \<Rightarrow> u32 \<Rightarrow> u32 \<Rightarrow> u32 \<Rightarrow> uheap \<Rightarrow> (u32 \<times> uheap) option" where
  "calloc sleep pool c n s = malloc sleep pool (c * n) s"

definition realloc :: "(uheap \<Rightarrow> uheap option) \<Rightarrow> u32 \<Rightarrow> u32 \<Rightarrow> u32 \<Rightarrow> uheap \<Rightarrow> (u32 \<times> uheap) option" where
  "realloc sleep pool p siz s = do { s \<leftarrow> free sleep p s; malloc sleep pool siz s }"

section \<open>Numbers\<close>

definition srand :: "u32 \<Rightarrow> u16" where
  "srand seed = ucast seed"

definition rand :: "u16 \<Rightarrow> u32 \<times> u16" where
  "rand rand_seed =
     (let r = ucast ((ucast rand_seed + 1) * 1103515245 + 12345 :: u32) :: u16 in (ucast r, r))"

text \<open>\<open>pow\<close> counts \<open>b\<close> down to 0, through all words when it is negative.\<close>

function power_loop :: "u32 \<Rightarrow> u32 \<Rightarrow> u32 \<Rightarrow> u32" where
  "power_loop a b rs = (if b = 0 then rs else power_loop a (b - 1) (rs * a))"
  by pat_completeness auto
termination
  by (relation "measure (\<lambda>(_, b, _). unat b)") (simp_all add: unat_minus_one unat_gt_0)

definition pow :: "u32 \<Rightarrow> u32 \<Rightarrow> u32" where
  "pow a b = power_loop a b 1"

declare power_loop.simps [simp del]

lemma power_loop_eq: "power_loop a b rs = rs * a ^ unat b"
proof (induction "unat b" arbitrary: b rs)
  case 0
  then have "b = 0" by (simp add: unat_eq_0)
  then show ?case by (simp add: power_loop.simps)
next
  case (Suc k)
  then have b: "b \<noteq> 0" by auto
  have k: "k = unat (b - 1)" using Suc.hyps(2) b by (simp add: unat_minus_one)
  have "power_loop a b rs = power_loop a (b - 1) (rs * a)" using b by (simp add: power_loop.simps [of a b])
  also have "\<dots> = rs * a * a ^ k" using Suc.hyps(1) [OF k, of "rs * a"] k by simp
  finally show ?case by (simp add: Suc.hyps(2) [symmetric] mult.assoc)
qed

lemma pow_power: "pow a b = a ^ unat b"
  by (simp add: pow_def power_loop_eq)

section \<open>The first block\<close>

lemma u_fields [simp]:
  "u_nodes (u_upd a f s) = (u_nodes s)(a := f (u_nodes s a))" "u_first_node (u_upd a f s) = u_first_node s"
  "u_free_table (u_upd a f s) = u_free_table s" "u_mutex (u_upd a f s) = u_mutex s"
  by (simp_all add: u_upd_def)

lemma u_lock_free: "u_mutex s = 1 \<Longrightarrow> u_lock sleep s = Some (s\<lparr>u_mutex := 0\<rparr>)"
  by (simp add: u_lock.simps Let_def)

lemma u_IS_FREE [simp]:
  "IS_FREE_NODE (n\<lparr>nd_attribute := a OR 1\<rparr>)"
  "\<not> IS_FREE_NODE (n\<lparr>nd_attribute := a AND - 2\<rparr>)"
  using and.assoc [of _ "- 2" 1] by (simp_all add: IS_FREE_NODE_def word_ao_dist bit.conj_disj_distrib2 and.assoc)

definition pool_size :: u32 where "pool_size = 256 * 1024 * 1024"

lemma pool_class: "u_calc_hash_index pool_size = 18" 
  unfolding pool_size_def by code_simp

text \<open>A heap that holds nothing but one free block.\<close>

definition one_block :: "u32 \<Rightarrow> uheap \<Rightarrow> bool" where
  "one_block p s \<longleftrightarrow> u_first_node s = p \<and> u_mutex s = 1 \<and> u_free_table s = (\<lambda>_. 0)(18 := p) \<and>
     IS_FREE_NODE (u_nodes s p) \<and> nd_size (u_nodes s p) = pool_size - 24 \<and> nd_prev (u_nodes s p) = 0 \<and>
     nd_next (u_nodes s p) = 0 \<and> nd_hash_prev (u_nodes s p) = 0 \<and> nd_hash_next (u_nodes s p) = 0"

lemma init_one_block:
  assumes "p \<noteq> 0"
  obtains s' where "allocation_init p s = Some s'" "one_block p s'"
  using assms that by (simp add: allocation_init_def u_HASH_APPEND_def u_MAKE_FREE_def Let_def one_block_def pool_size_def IS_FREE_NODE_def)

lemma class_bound: "u_calc_hash_index k \<le> 18"
  by (simp add: u_calc_hash_index_def Let_def)

lemma scan_one:
  assumes "i \<le> 18" "p \<noteq> 0" "\<not> nd_size (h p) < siz"
  shows "table_scan h ((\<lambda>_. 0)(18 := p)) siz [i..<U_MAX_HASH_ENTRY] = Some (18, p)"
proof -
  have e: "[i..<19] = [i..<18] @ [18]" using assms(1) upt_Suc_append [of i 18] by simp
  have "table_scan h tab siz (js @ [18]) = Some (18, p)" if "tab = (\<lambda>_. 0)(18 := p)" "\<forall>j\<in>set js. j < 18" for tab js
    using that assms by (induction js) (simp_all add: hash_scan.simps)
  then show ?thesis unfolding e by simp
qed

definition rest_of :: "u32 \<Rightarrow> u32" where "rest_of n = pool_size - (n + 24)"

lemma malloc_one:
  assumes s: "one_block p s" and p: "p \<noteq> 0" and siz: "siz \<noteq> 0" "siz \<le> pool_size - 24"
  defines "n \<equiv> (if siz < 8 then 8 else siz)"
  shows "malloc sleep pool siz s = Some (p + 24, u_unlock
    (if 32 \<le> rest_of n then u_split p n (n + 24) (rest_of n) (u_MAKE_OCCUPIED p (u_HASH_DELETE p 18 (s\<lparr>u_mutex := 0\<rparr>)))
     else u_MAKE_OCCUPIED p (u_HASH_DELETE p 18 (s\<lparr>u_mutex := 0\<rparr>))))"
proof -
  have n: "\<not> nd_size (u_nodes s p) < n" using s siz(2) by (simp add: one_block_def n_def pool_size_def not_less)
  have r: "pool_size - SIZEOF_NODE - n = rest_of n" by (simp add: rest_of_def algebra_simps)
  have t: "table_scan (u_nodes s) (u_free_table s) n [u_calc_hash_index (n + 24)..<U_MAX_HASH_ENTRY] = Some (18, p)"
    using s scan_one [where h = "u_nodes s" and i = "u_calc_hash_index (n + 24)", OF class_bound p n] by (simp add: one_block_def)
  show ?thesis
    using s p siz(1) u_lock_free [of s] t r
    by (simp add: malloc_def one_block_def n_def [symmetric] Let_def cong: if_cong)
qed

text \<open>A heap of an occupied block and the free rest behind it, or of an occupied block alone.\<close>

definition two_blocks :: "u32 \<Rightarrow> u32 \<Rightarrow> u32 \<Rightarrow> uheap \<Rightarrow> bool" where
  "two_blocks p n q s \<longleftrightarrow> u_first_node s = p \<and> u_mutex s = 1 \<and>
     u_free_table s = (\<lambda>_. 0)(u_calc_hash_index (rest_of n) := q) \<and>
     \<not> IS_FREE_NODE (u_nodes s p) \<and> nd_size (u_nodes s p) = n \<and> nd_prev (u_nodes s p) = 0 \<and> nd_next (u_nodes s p) = q \<and>
     IS_FREE_NODE (u_nodes s q) \<and> nd_size (u_nodes s q) = rest_of n - 24 \<and> nd_prev (u_nodes s q) = p \<and>
     nd_next (u_nodes s q) = 0 \<and> nd_hash_prev (u_nodes s q) = 0 \<and> nd_hash_next (u_nodes s q) = 0"

definition full_block :: "u32 \<Rightarrow> uheap \<Rightarrow> bool" where
  "full_block p s \<longleftrightarrow> u_first_node s = p \<and> u_mutex s = 1 \<and> u_free_table s = (\<lambda>_. 0) \<and>
     \<not> IS_FREE_NODE (u_nodes s p) \<and> nd_size (u_nodes s p) = pool_size - 24 \<and> nd_prev (u_nodes s p) = 0 \<and>
     nd_next (u_nodes s p) = 0"

lemma u_IS_FREE_upd [simp]:
  "IS_FREE_NODE (n\<lparr>nd_size := a\<rparr>) = IS_FREE_NODE n" "IS_FREE_NODE (n\<lparr>nd_next := a\<rparr>) = IS_FREE_NODE n"
  "IS_FREE_NODE (n\<lparr>nd_prev := a\<rparr>) = IS_FREE_NODE n" "IS_FREE_NODE (n\<lparr>nd_hash_next := a\<rparr>) = IS_FREE_NODE n"
  "IS_FREE_NODE (n\<lparr>nd_hash_prev := a\<rparr>) = IS_FREE_NODE n"
  by (simp_all add: IS_FREE_NODE_def)

lemma take_full: "one_block p s \<Longrightarrow> p \<noteq> 0 \<Longrightarrow> full_block p (u_unlock (u_MAKE_OCCUPIED p (u_HASH_DELETE p 18 (s\<lparr>u_mutex := 0\<rparr>))))"
proof -
  assume s: "one_block p s" and p: "p \<noteq> 0"
  let ?s = "s\<lparr>u_mutex := 0\<rparr>"
  have "u_HASH_DELETE p 18 ?s = ?s\<lparr>u_free_table := (\<lambda>_. 0)\<rparr>"
    using s p by (simp add: u_HASH_DELETE_def one_block_def fun_upd_idem)
  then show ?thesis using s by (simp add: full_block_def one_block_def u_unlock_def u_MAKE_OCCUPIED_def)
qed

lemma take_split:
  assumes "one_block p s" and "p \<noteq> 0" and q: "q = p + (n + 24)" "q \<noteq> 0" "q \<noteq> p"
  shows "two_blocks p n q (u_unlock (u_split p n (n + 24) (rest_of n)
    (u_MAKE_OCCUPIED p (u_HASH_DELETE p 18 (s\<lparr>u_mutex := 0\<rparr>)))))"
proof -
  let ?s = "s\<lparr>u_mutex := 0\<rparr>"
  have d: "u_HASH_DELETE p 18 ?s = ?s\<lparr>u_free_table := (\<lambda>_. 0)\<rparr>"
    using assms(1,2) by (simp add: u_HASH_DELETE_def one_block_def fun_upd_idem)
  show ?thesis
    using assms(1,2,4,5) unfolding d
    by (simp add: two_blocks_def one_block_def u_unlock_def u_MAKE_OCCUPIED_def u_MAKE_FREE_def u_split_def
        u_HASH_APPEND_def Let_def q(1) [symmetric])
qed

lemma free_full:
  assumes "full_block p s" and "p \<noteq> 0" and "p + 24 \<noteq> 0"
  obtains s' where "free sleep (p + 24) s = Some s'" "one_block p s'"
proof -
  let ?s = "(u_MAKE_FREE p s)\<lparr>u_mutex := 0\<rparr>"
  have "free sleep (p + 24) s = Some (u_unlock (u_HASH_APPEND p 18 ?s))"
    using assms pool_class by (simp add: free_def full_block_def u_lock_free u_MAKE_FREE_def Let_def)
  moreover have "one_block p (u_unlock (u_HASH_APPEND p 18 ?s))"
    using assms by (simp add: full_block_def one_block_def u_unlock_def u_HASH_APPEND_def u_MAKE_FREE_def Let_def)
  ultimately show thesis by (rule that)
qed

lemma free_two:
  assumes "two_blocks p n q s" and "p \<noteq> 0" and "p + 24 \<noteq> 0" and "q \<noteq> 0" "q \<noteq> p"
  obtains s' where "free sleep (p + 24) s = Some s'" "one_block p s'"
proof -
  let ?s = "(u_MAKE_FREE p s)\<lparr>u_mutex := 0\<rparr>"
  let ?t = "u_merge p q q ?s"
  have r: "rest_of n - 24 + 24 = rest_of n" "n + rest_of n = pool_size - 24" by (simp_all add: rest_of_def)
  have t: "u_nodes ?t p = (u_nodes ?s p)\<lparr>nd_size := pool_size - 24, nd_next := 0\<rparr>" "u_free_table ?t = (\<lambda>_. 0)"
    "u_first_node ?t = p" "u_mutex ?t = 0"
    using assms r by (simp_all add: fun_upd_idem u_merge_def two_blocks_def u_HASH_DELETE_def u_MAKE_FREE_def Let_def)
  have "free sleep (p + 24) s = Some (u_unlock (u_HASH_APPEND p 18 ?t))"
    using assms pool_class t by (simp add: free_def two_blocks_def u_lock_free u_MAKE_FREE_def Let_def)
  moreover have "one_block p (u_unlock (u_HASH_APPEND p 18 ?t))"
    using assms t by (simp add: two_blocks_def one_block_def u_unlock_def u_HASH_APPEND_def u_MAKE_FREE_def Let_def)
  ultimately show thesis by (rule that)
qed

text \<open>
  (C26) The first allocation and its release: a fresh heap takes the pool from the kernel, the block for
  every size that fits begins right behind the first header, and freeing it leaves the whole pool as one
  free block in the last entry of the table, with the lock open.
\<close>

theorem malloc_free_restores:
  assumes "u_first_node s = 0" and "p \<noteq> 0" and "unat p + 2 ^ 28 \<le> 2 ^ 32" and "siz \<noteq> 0" and "siz \<le> 2 ^ 28 - 24"
  shows "\<exists>s1 s2. malloc sleep p siz s = Some (p + 24, s1) \<and> \<not> IS_FREE_NODE (u_nodes s1 p) \<and>
    siz \<le> nd_size (u_nodes s1 p) \<and> free sleep (p + 24) s1 = Some s2 \<and> one_block p s2"
proof -
  obtain s0 where s0: "allocation_init p s = Some s0" "one_block p s0" by (rule init_one_block [OF assms(2)])
  have f: "u_first_node s0 = p" using s0(2) by (simp add: one_block_def)
  have e: "malloc sleep p siz s = malloc sleep p siz s0" using s0(1) f assms(1,2,4) by (simp add: malloc_def)
  define n where "n = (if siz < 8 then 8 else siz)"
  have ps: "siz \<le> pool_size - 24" using assms(5) by (simp add: pool_size_def)
  note m = malloc_one [OF s0(2) assms(2,4) ps, folded n_def]
  have un: "unat n + 24 \<le> 2 ^ 28" "siz \<le> n"
    using assms(5) by (auto simp: n_def word_le_nat_alt word_less_nat_alt)
  have p24: "p + 24 \<noteq> 0" 
  proof
    assume "p + 24 = 0"
    then have "p = - 24" by (simp add: eq_neg_iff_add_eq_0)
    with assms(3) show False by simp
  qed
  show ?thesis
  proof (cases "32 \<le> rest_of n")
    case True
    define q where "q = p + (n + 24)"
    have nw: "unat (n + 24) = unat n + 24" using un(1) by (simp add: unat_plus_if')
    have "n + 24 \<noteq> pool_size" using True by (auto simp: rest_of_def)
    then have "unat n + 24 < 2 ^ 28" using un(1) nw by (auto simp: pool_size_def word_unat_eq_iff)
    then have "unat q = unat p + (unat n + 24)" using assms(3) nw by (simp add: q_def unat_plus_if')
    then have q: "q \<noteq> 0" "q \<noteq> p" by auto
    note t = take_split [OF s0(2) assms(2) q_def q]
    obtain s2 where "free sleep (p + 24) (u_unlock (u_split p n (n + 24) (rest_of n)
      (u_MAKE_OCCUPIED p (u_HASH_DELETE p 18 (s0\<lparr>u_mutex := 0\<rparr>))))) = Some s2" "one_block p s2"
      by (rule free_two [OF t assms(2) p24 q])
    with m True t un(2) show ?thesis unfolding e by (auto simp: two_blocks_def)
  next
    case False
    note t = take_full [OF s0(2) assms(2)]
    obtain s2 where "free sleep (p + 24) (u_unlock (u_MAKE_OCCUPIED p (u_HASH_DELETE p 18 (s0\<lparr>u_mutex := 0\<rparr>)))) = Some s2"
      "one_block p s2" by (rule free_full [OF t assms(2) p24])
    with m False t ps show ?thesis unfolding e by (auto simp: full_block_def)
  qed
qed

definition uheap0 :: uheap where
  "uheap0 = \<lparr>u_nodes = (\<lambda>_. \<lparr>nd_prev = 0, nd_next = 0, nd_hash_prev = 0, nd_hash_next = 0, nd_attribute = 0, nd_size = 0\<rparr>),
     u_first_node = 0, u_free_table = (\<lambda>_. 0), u_mutex = 0\<rparr>"

theorem malloc_free_restores_witness:
  "\<exists>s1 s2. malloc Some 0x40000000 100 uheap0 = Some (0x40000018, s1) \<and> free Some 0x40000018 s1 = Some s2 \<and>
     one_block 0x40000000 s2"
  using malloc_free_restores [of uheap0 "0x40000000" 100 Some] by (auto simp: uheap0_def)

text \<open>
  \<open>calloc\<close> does not check its multiplication: 65537 elements of 65536 bytes, more than 4 GB, are granted
  from a fresh heap by a block of 65536 bytes.
\<close>

theorem calloc_overflows:
  assumes "one_block p s" and "p \<noteq> 0" and "p + 24 \<noteq> 0"
  shows "\<exists>s'. calloc sleep pool 65537 65536 s = Some (p + 24, s') \<and> nd_size (u_nodes s' p) = 65536"
proof -
  have ps: "(65536 :: u32) \<le> pool_size - 24" "32 \<le> rest_of 65536" by (simp_all add: pool_size_def rest_of_def)
  have m: "65537 * 65536 = (65536 :: u32)" by simp
  have "calloc sleep pool 65537 65536 s = Some (p + 24, u_unlock (u_split p 65536 (65536 + 24) (rest_of 65536)
    (u_MAKE_OCCUPIED p (u_HASH_DELETE p 18 (s\<lparr>u_mutex := 0\<rparr>)))))"
    using malloc_one [OF assms(1,2), of 65536] ps unfolding calloc_def m by simp
  moreover have "nd_size (u_nodes (u_split p 65536 (65536 + 24) r t) p) = 65536" for r t
    by (simp add: u_split_def Let_def u_HASH_APPEND_def u_MAKE_FREE_def)
  ultimately show ?thesis by (auto simp: u_unlock_def)
qed

theorem calloc_overflows_witness:
  "\<exists>s s'. allocation_init 0x40000000 uheap0 = Some s \<and> calloc Some 0 65537 65536 s = Some (0x40000018, s')"
proof -
  obtain s where s: "allocation_init 0x40000000 uheap0 = Some s" "one_block 0x40000000 s"
    by (rule init_one_block [of "0x40000000"]) simp
  from calloc_overflows [OF s(2), of Some 0] s(1) show ?thesis by auto
qed

end
