(* ===== verification/Buffer.thy ===== *)
theory Buffer
  imports Kernel
begin

text \<open>
  The disk buffers of the file system server, \<open>apps/fs/buffer.cpp\<close>. A buffer is in the list of its
  device while somebody refers to it and otherwise in the list of free buffers, from whose head it is
  taken for another block. The data of a buffer is a page of memory; the drivers are reached through the
  system calls \<open>Api_Send\<close> and \<open>Api_Receive\<close>, which are parameters (a driver writes what it reads from the
  disk into the page the message names), with their own state \<open>'io\<close>.
  The flag \<open>dirty\<close>, only ever 0 or 1, is a truth value, and the unused field \<open>ctime\<close> is left out.
\<close>

section \<open>State\<close>

record buffer_t =
  bf_next :: u32
  bf_prev :: u32
  bf_device :: u32
  bf_block :: u32
  bf_data :: u32
  bf_dirty :: bool
  bf_reference :: u16

record device_t =
  dv_thread :: u32
  dv_devID :: u32
  dv_firstBuffer :: u32
  dv_devFSInfo :: u32

type_synonym pages = "u32 \<Rightarrow> u32 \<Rightarrow> u8"

record 'io fs_state =
  buffers :: "u32 \<Rightarrow> buffer_t"
  devices :: "u32 \<Rightarrow> device_t"
  freebuf_head :: u32
  freebuf_tail :: u32
  page_data :: pages
  world :: 'io

text \<open>The result code of the call, the message received, the memory afterwards.\<close>

record 'io ipc =
  Api_Send :: "Message \<Rightarrow> u32 \<Rightarrow> pages \<Rightarrow> 'io \<Rightarrow> int \<times> pages \<times> 'io"
  Api_Receive :: "u32 \<Rightarrow> pages \<Rightarrow> 'io \<Rightarrow> int \<times> Message \<times> pages \<times> 'io"

abbreviation BLOCK_SIZE :: u32 where "BLOCK_SIZE \<equiv> 4096"
abbreviation INFINITE :: u32 where "INFINITE \<equiv> 0xFFFFFFFF"
abbreviation Device_ReadSector :: u32 where "Device_ReadSector \<equiv> 1"
abbreviation Device_WriteSector :: u32 where "Device_WriteSector \<equiv> 2"

definition BLOCK_TO_SECTOR :: "u32 \<Rightarrow> u32" where
  "BLOCK_TO_SECTOR n = n * (BLOCK_SIZE div 512)"

definition upd_buf :: "u32 \<Rightarrow> (buffer_t \<Rightarrow> buffer_t) \<Rightarrow> 'io fs_state \<Rightarrow> 'io fs_state" where
  "upd_buf b f s = s\<lparr>buffers := (buffers s)(b := f (buffers s b))\<rparr>"

definition upd_dev :: "u32 \<Rightarrow> (device_t \<Rightarrow> device_t) \<Rightarrow> 'io fs_state \<Rightarrow> 'io fs_state" where
  "upd_dev d f s = s\<lparr>devices := (devices s)(d := f (devices s d))\<rparr>"

section \<open>The list of free buffers\<close>

definition freebuf_get :: "'io fs_state \<Rightarrow> u32 \<times> 'io fs_state" where
  "freebuf_get s =
     (let buf = freebuf_head s
      in if buf = 0 then (0, s)
         else
           let nx = bf_next (buffers s buf);
               s = (if nx \<noteq> 0 then upd_buf nx (\<lambda>r. r\<lparr>bf_prev := 0\<rparr>) s else s\<lparr>freebuf_tail := 0\<rparr>)
           in (buf, s\<lparr>freebuf_head := bf_next (buffers s buf)\<rparr>))"

definition freebuf_put :: "u32 \<Rightarrow> 'io fs_state \<Rightarrow> 'io fs_state" where
  "freebuf_put buf s =
     (let s = (if freebuf_tail s \<noteq> 0 then upd_buf (freebuf_tail s) (\<lambda>r. r\<lparr>bf_next := buf\<rparr>) s else s);
          s = upd_buf buf (\<lambda>r. r\<lparr>bf_prev := freebuf_tail s, bf_next := 0\<rparr>) s;
          s = s\<lparr>freebuf_tail := buf\<rparr>
      in if freebuf_head s = 0 then s\<lparr>freebuf_head := freebuf_tail s\<rparr> else s)"

section \<open>Requests to the driver\<close>

definition block_message :: "u32 \<Rightarrow> u32 \<Rightarrow> 'io fs_state \<Rightarrow> Message" where
  "block_message command buf s =
     (let b = buffers s buf; d = devices s (bf_device b)
      in \<lparr>ms_ThreadId = dv_thread d, ms_Time = 0, ms_Command = command,
          ms_Arguments = (\<lambda>_. 0)(0 := dv_devID d, 1 := BLOCK_TO_SECTOR (bf_block b), 2 := BLOCK_TO_SECTOR 1),
          ms_Code = 0, ms_Large = (\<lambda>_. 0)(0 := bf_data b)\<rparr>)"

definition request_block :: "'io ipc \<Rightarrow> Message \<Rightarrow> 'io fs_state \<Rightarrow> int \<times> 'io fs_state" where
  "request_block ipc msg s =
     (let (result, p, w) = Api_Send ipc msg 0 (page_data s) (world s);
          s = s\<lparr>page_data := p, world := w\<rparr>
      in if result < 0 then (- ERR_UNKNOWN, s)
         else
           let (result, msg, p, w) = Api_Receive ipc INFINITE (page_data s) (world s);
               s = s\<lparr>page_data := p, world := w\<rparr>
           in if result < 0 then (result, s)
              else if sint (ms_Code msg) < 0 then (sint (ms_Code msg), s)
              else (0, s))"

definition readBlock :: "'io ipc \<Rightarrow> u32 \<Rightarrow> 'io fs_state \<Rightarrow> int \<times> 'io fs_state" where
  "readBlock ipc buf s = request_block ipc (block_message Device_ReadSector buf s) s"

definition writeBlock :: "'io ipc \<Rightarrow> u32 \<Rightarrow> 'io fs_state \<Rightarrow> int \<times> 'io fs_state" where
  "writeBlock ipc buf s = request_block ipc (block_message Device_WriteSector buf s) s"

section \<open>Operations\<close>

text \<open>\<open>malloc\<close> and \<open>SysAllocateMemory\<close> are parameters; the test after the second one looks at \<open>buf\<close> again,
  which is not null there.\<close>

primrec init_loop :: "nat \<Rightarrow> ('io \<Rightarrow> u32 \<times> 'io) \<Rightarrow> ('io \<Rightarrow> u32 \<times> 'io) \<Rightarrow> 'io fs_state \<Rightarrow> int \<times> 'io fs_state" where
  "init_loop 0 malloc sys_alloc s = (0, s)"
| "init_loop (Suc n) malloc sys_alloc s =
     (let (buf, w) = malloc (world s); s = s\<lparr>world := w\<rparr>
      in if buf = 0 then (- ERR_NOMEM, s)
         else
           let s = upd_buf buf (\<lambda>_. \<lparr>bf_next = 0, bf_prev = 0, bf_device = 0, bf_block = 0, bf_data = 0,
                     bf_dirty = False, bf_reference = 0\<rparr>) s;
               (p, w) = sys_alloc (world s);
               s = upd_buf buf (\<lambda>r. r\<lparr>bf_data := p\<rparr>) (s\<lparr>world := w\<rparr>)
           in if buf = 0 then (- ERR_NOMEM, s)
              else init_loop n malloc sys_alloc (freebuf_put buf s))"

definition buffer_init :: "('io \<Rightarrow> u32 \<times> 'io) \<Rightarrow> ('io \<Rightarrow> u32 \<times> 'io) \<Rightarrow> u32 \<Rightarrow> 'io fs_state \<Rightarrow> int \<times> 'io fs_state" where
  "buffer_init malloc sys_alloc buf_mem s =
     init_loop (unat (drop_bit 12 buf_mem)) malloc sys_alloc (s\<lparr>freebuf_head := 0, freebuf_tail := 0\<rparr>)"

text \<open>The search loops of \<open>buffer_get\<close>.\<close>

partial_function (option) find_in_device :: "(u32 \<Rightarrow> buffer_t) \<Rightarrow> u32 \<Rightarrow> u32 \<Rightarrow> u32 option" where
  "find_in_device h buf block =
     (if buf = 0 then Some 0
      else if bf_block (h buf) = block then Some buf
      else find_in_device h (bf_next (h buf)) block)"

partial_function (option) find_released :: "(u32 \<Rightarrow> buffer_t) \<Rightarrow> (u32 \<Rightarrow> device_t) \<Rightarrow> u32 \<Rightarrow> u32 \<Rightarrow> u32 \<Rightarrow> u32 option" where
  "find_released h d buf dev block =
     (if buf = 0 then Some 0
      else if bf_device (h buf) = dev \<and> dv_devID (d (bf_device (h buf))) = dv_devID (d dev) \<and> bf_block (h buf) = block
      then Some buf
      else find_released h d (bf_prev (h buf)) dev block)"

definition unlink_released :: "u32 \<Rightarrow> 'io fs_state \<Rightarrow> 'io fs_state" where
  "unlink_released buf s =
     (let nx = bf_next (buffers s buf);
          s = (if nx \<noteq> 0 then upd_buf nx (\<lambda>r. r\<lparr>bf_prev := bf_prev (buffers s buf)\<rparr>) s
               else s\<lparr>freebuf_tail := bf_prev (buffers s buf)\<rparr>);
          pr = bf_prev (buffers s buf)
      in if pr \<noteq> 0 then upd_buf pr (\<lambda>r. r\<lparr>bf_next := bf_next (buffers s buf)\<rparr>) s
         else s\<lparr>freebuf_head := bf_next (buffers s buf)\<rparr>)"

text \<open>From the label \<open>Found\<close> on.\<close>

definition add_to_device :: "u32 \<Rightarrow> u32 \<Rightarrow> 'io fs_state \<Rightarrow> 'io fs_state" where
  "add_to_device dev buf s =
     (let s = (if dv_firstBuffer (devices s dev) \<noteq> 0
               then upd_buf (dv_firstBuffer (devices s dev)) (\<lambda>r. r\<lparr>bf_prev := buf\<rparr>) s else s);
          s = upd_buf buf (\<lambda>r. r\<lparr>bf_next := dv_firstBuffer (devices s dev), bf_prev := 0\<rparr>) s;
          s = upd_dev dev (\<lambda>r. r\<lparr>dv_firstBuffer := buf\<rparr>) s
      in upd_buf buf (\<lambda>r. r\<lparr>bf_reference := bf_reference r + 1\<rparr>) s)"

definition buffer_get :: "'io ipc \<Rightarrow> u32 \<Rightarrow> u32 \<Rightarrow> 'io fs_state \<Rightarrow> (u32 \<times> 'io fs_state) option" where
  "buffer_get ipc dev block s =
     do {
       b \<leftarrow> find_in_device (buffers s) (dv_firstBuffer (devices s dev)) block;
       if b \<noteq> 0 then Some (b, upd_buf b (\<lambda>r. r\<lparr>bf_reference := bf_reference r + 1\<rparr>) s)
       else do {
         b \<leftarrow> find_released (buffers s) (devices s) (freebuf_tail s) dev block;
         if b \<noteq> 0 then Some (b, add_to_device dev b (unlink_released b s))
         else
           let (b, s) = freebuf_get s
           in if b = 0 then Some (0, s)
              else
                let s = (if bf_dirty (buffers s b) then snd (writeBlock ipc b s) else s);
                    s = upd_buf b (\<lambda>r. r\<lparr>bf_block := block, bf_device := dev, bf_reference := 0, bf_dirty := False\<rparr>) s;
                    (r, s) = readBlock ipc b s
                in if r < 0 then Some (0, freebuf_put b s)
                   else Some (b, add_to_device dev b s) } }"

definition CHAIN_DELETE :: "u32 \<Rightarrow> u32 \<Rightarrow> 'io fs_state \<Rightarrow> 'io fs_state" where
  "CHAIN_DELETE dev i s =
     (let pr = bf_prev (buffers s i);
          s = (if pr \<noteq> 0 then upd_buf pr (\<lambda>r. r\<lparr>bf_next := bf_next (buffers s i)\<rparr>) s
               else upd_dev dev (\<lambda>r. r\<lparr>dv_firstBuffer := bf_next (buffers s i)\<rparr>) s);
          nx = bf_next (buffers s i)
      in if nx \<noteq> 0 then upd_buf nx (\<lambda>r. r\<lparr>bf_prev := bf_prev (buffers s i)\<rparr>) s else s)"

definition buffer_put :: "u32 \<Rightarrow> 'io fs_state \<Rightarrow> 'io fs_state" where
  "buffer_put buf s =
     (let dev = bf_device (buffers s buf);
          s = upd_buf buf (\<lambda>r. r\<lparr>bf_reference := bf_reference r - 1\<rparr>) s
      in if bf_reference (buffers s buf) = 0 then freebuf_put buf (CHAIN_DELETE dev buf s) else s)"

partial_function (option) sync_loop :: "'io ipc \<Rightarrow> u32 \<Rightarrow> 'io fs_state \<Rightarrow> 'io fs_state option" where
  "sync_loop ipc buf s =
     (if buf = 0 then Some s
      else
        let s = (if bf_device (buffers s buf) \<noteq> 0 then
                   let s = (if bf_dirty (buffers s buf) then snd (writeBlock ipc buf s) else s)
                   in upd_buf buf (\<lambda>r. r\<lparr>bf_device := 0\<rparr>) s
                 else s)
        in sync_loop ipc (bf_next (buffers s buf)) s)"

definition buffer_sync :: "'io ipc \<Rightarrow> 'io fs_state \<Rightarrow> 'io fs_state option" where
  "buffer_sync ipc s = sync_loop ipc (freebuf_head s) s"

end
