(* ===== verification/BufferInv.thy ===== *)
theory BufferInv
  imports Buffer
begin

text \<open>
  The buffer cache of \<open>apps/fs/buffer.cpp\<close> as its clients see it. The lists of free and held buffers are
  followed through every operation (\<open>lists\<close>); a driver that works (\<open>driver_works\<close>) is assumed, with the
  content of the disks as a function of its state; \<open>block_data\<close> is the content of a block to a client,
  the buffer's when it is cached and the disk's otherwise. The runs of the server are an inductive
  relation (\<open>cache_run\<close>), and the invariant \<open>run_inv\<close> says that every block has the content last written.
\<close>

section \<open>The lists\<close>

abbreviation nxt :: "'io fs_state \<Rightarrow> u32 \<Rightarrow> u32" where "nxt s \<equiv> \<lambda>x. bf_next (buffers s x)"
abbreviation prv :: "'io fs_state \<Rightarrow> u32 \<Rightarrow> u32" where "prv s \<equiv> \<lambda>x. bf_prev (buffers s x)"

text \<open>\<open>lists s F D\<close>: the free buffers are \<open>F\<close> from the head on, those of device \<open>d\<close> are \<open>D d\<close>, and no
  buffer is in two lists.\<close>

definition lists :: "'io fs_state \<Rightarrow> u32 list \<Rightarrow> (u32 \<Rightarrow> u32 list) \<Rightarrow> bool" where
  "lists s F D \<longleftrightarrow> dlist (nxt s) (prv s) (freebuf_head s) (freebuf_tail s) F \<and>
     (\<forall>d. \<exists>l. dlist (nxt s) (prv s) (dv_firstBuffer (devices s d)) l (D d)) \<and>
     (\<forall>d. set (D d) \<inter> set F = {}) \<and> (\<forall>d e. d \<noteq> e \<longrightarrow> set (D d) \<inter> set (D e) = {})"

text \<open>What linking leaves alone.\<close>

definition core :: "buffer_t \<Rightarrow> u32 \<times> u32 \<times> u32 \<times> bool" where
  "core r = (bf_device r, bf_block r, bf_data r, bf_dirty r)"

definition relinked :: "'io fs_state \<Rightarrow> 'io fs_state \<Rightarrow> bool" where
  "relinked s t \<longleftrightarrow> (\<forall>x. core (buffers t x) = core (buffers s x)) \<and> page_data t = page_data s \<and> world t = world s \<and>
     (\<forall>d. dv_thread (devices t d) = dv_thread (devices s d) \<and> dv_devID (devices t d) = dv_devID (devices s d))"

lemma relinked_trans: "relinked s t \<Longrightarrow> relinked t u \<Longrightarrow> relinked s u"
  by (simp add: relinked_def)

lemma upd_buf_get [simp]: "buffers (upd_buf b f s) x = (if x = b then f (buffers s b) else buffers s x)"
  by (simp add: upd_buf_def)

lemma upd_buf_frame [simp]:
  "devices (upd_buf b f s) = devices s" "freebuf_head (upd_buf b f s) = freebuf_head s"
  "freebuf_tail (upd_buf b f s) = freebuf_tail s" "page_data (upd_buf b f s) = page_data s" "world (upd_buf b f s) = world s"
  by (simp_all add: upd_buf_def)

lemma upd_dev_get [simp]: "devices (upd_dev b f s) x = (if x = b then f (devices s b) else devices s x)"
  by (simp add: upd_dev_def)

lemma upd_dev_frame [simp]:
  "buffers (upd_dev b f s) = buffers s" "freebuf_head (upd_dev b f s) = freebuf_head s"
  "freebuf_tail (upd_dev b f s) = freebuf_tail s" "page_data (upd_dev b f s) = page_data s" "world (upd_dev b f s) = world s"
  by (simp_all add: upd_dev_def)

text \<open>The links as functions after each step.\<close>

lemma unlink_released_links:
  assumes "nxt s b \<noteq> b" and "prv s b \<noteq> b"
  defines "t \<equiv> unlink_released b s"
  shows "x \<noteq> b \<Longrightarrow> nxt t x = (if x = prv s b \<and> prv s b \<noteq> 0 then nxt s b else nxt s x)"
    and "x \<noteq> b \<Longrightarrow> prv t x = (if x = nxt s b \<and> nxt s b \<noteq> 0 then prv s b else prv s x)"
    and "freebuf_head t = (if prv s b = 0 then nxt s b else freebuf_head s)"
    and "freebuf_tail t = (if nxt s b = 0 then prv s b else freebuf_tail s)"
    and "devices t = devices s" and "relinked s t" and "bf_reference (buffers t y) = bf_reference (buffers s y)"
proof -
  obtain n p where np: "nxt s b = n" "prv s b = p" by simp
  have t: "t = (let s = (if n \<noteq> 0 then upd_buf n (\<lambda>r. r\<lparr>bf_prev := p\<rparr>) s else s\<lparr>freebuf_tail := p\<rparr>)
     in if p \<noteq> 0 then upd_buf p (\<lambda>r. r\<lparr>bf_next := n\<rparr>) s else s\<lparr>freebuf_head := n\<rparr>)"
    using assms(1,2) np by (cases "n = 0") (simp_all add: t_def unlink_released_def Let_def)
  show "x \<noteq> b \<Longrightarrow> nxt t x = (if x = prv s b \<and> prv s b \<noteq> 0 then nxt s b else nxt s x)"
    "x \<noteq> b \<Longrightarrow> prv t x = (if x = nxt s b \<and> nxt s b \<noteq> 0 then prv s b else prv s x)"
    "freebuf_head t = (if prv s b = 0 then nxt s b else freebuf_head s)"
    "freebuf_tail t = (if nxt s b = 0 then prv s b else freebuf_tail s)"
    "devices t = devices s" "relinked s t" "bf_reference (buffers t y) = bf_reference (buffers s y)"
    unfolding t np by (simp_all add: Let_def relinked_def core_def)
qed

lemma CHAIN_DELETE_links:
  fixes dev :: u32
  assumes "nxt s b \<noteq> b" and "prv s b \<noteq> b"
  defines "t \<equiv> CHAIN_DELETE dev b s"
  shows "x \<noteq> b \<Longrightarrow> nxt t x = (if x = prv s b \<and> prv s b \<noteq> 0 then nxt s b else nxt s x)"
    and "x \<noteq> b \<Longrightarrow> prv t x = (if x = nxt s b \<and> nxt s b \<noteq> 0 then prv s b else prv s x)"
    and "dv_firstBuffer (devices t d) = (if d = dev \<and> prv s b = 0 then nxt s b else dv_firstBuffer (devices s d))"
    and "freebuf_head t = freebuf_head s" and "freebuf_tail t = freebuf_tail s"
    and "relinked s t" and "bf_reference (buffers t y) = bf_reference (buffers s y)"
proof -
  obtain n p where np: "nxt s b = n" "prv s b = p" by simp
  have t: "t = (let s = (if p \<noteq> 0 then upd_buf p (\<lambda>r. r\<lparr>bf_next := n\<rparr>) s else upd_dev dev (\<lambda>r. r\<lparr>dv_firstBuffer := n\<rparr>) s)
     in if n \<noteq> 0 then upd_buf n (\<lambda>r. r\<lparr>bf_prev := p\<rparr>) s else s)"
    using assms(1,2) np by (cases "p = 0") (simp_all add: t_def CHAIN_DELETE_def Let_def)
  show "x \<noteq> b \<Longrightarrow> nxt t x = (if x = prv s b \<and> prv s b \<noteq> 0 then nxt s b else nxt s x)"
    "x \<noteq> b \<Longrightarrow> prv t x = (if x = nxt s b \<and> nxt s b \<noteq> 0 then prv s b else prv s x)"
    "dv_firstBuffer (devices t d) = (if d = dev \<and> prv s b = 0 then nxt s b else dv_firstBuffer (devices s d))"
    "freebuf_head t = freebuf_head s" "freebuf_tail t = freebuf_tail s"
    "relinked s t" "bf_reference (buffers t y) = bf_reference (buffers s y)"
    unfolding t np by (simp_all add: Let_def relinked_def core_def)
qed

lemma freebuf_put_links:
  assumes "freebuf_tail s \<noteq> b"
  defines "t \<equiv> freebuf_put b s"
  shows "nxt t x = (if x = b then 0 else if x = freebuf_tail s \<and> x \<noteq> 0 then b else nxt s x)"
    and "prv t x = (if x = b then freebuf_tail s else prv s x)"
    and "freebuf_head t = (if freebuf_head s = 0 then b else freebuf_head s)" and "freebuf_tail t = b"
    and "devices t = devices s" and "relinked s t" and "bf_reference (buffers t y) = bf_reference (buffers s y)"
  using assms(1) by (simp_all add: t_def freebuf_put_def Let_def relinked_def core_def)

lemma add_to_device_links:
  assumes "dv_firstBuffer (devices s dev) \<noteq> b"
  defines "t \<equiv> add_to_device dev b s"
  shows "nxt t x = (if x = b then dv_firstBuffer (devices s dev) else nxt s x)"
    and "prv t x = (if x = b then 0 else if x = dv_firstBuffer (devices s dev) \<and> x \<noteq> 0 then b else prv s x)"
    and "dv_firstBuffer (devices t d) = (if d = dev then b else dv_firstBuffer (devices s d))"
    and "freebuf_head t = freebuf_head s" and "freebuf_tail t = freebuf_tail s"
    and "relinked s t" and "bf_reference (buffers t y) = (if y = b then bf_reference (buffers s b) + 1 else bf_reference (buffers s y))"
  using assms(1) by (simp_all add: t_def add_to_device_def Let_def relinked_def core_def)

text \<open>The steps on the lists.\<close>

lemma dlist_self:
  assumes "dlist nx pv f l (xs @ b # ys)"
  shows "nx b \<noteq> b" and "pv b \<noteq> b" and "nx b \<notin> - set ys - {0}" and "pv b \<notin> - set xs - {0}"
  using dlist_links [OF assms] dlist_distinct [OF assms] dlist_nonzero [OF assms] by (auto split: if_splits)

lemma dlist_other:
  assumes "dlist nx pv f l zs" and "\<And>x. x \<in> set zs \<Longrightarrow> nx' x = nx x \<and> pv' x = pv x"
  shows "dlist nx' pv' f l zs"
  using assms(1) dlist_cong [of zs nx' nx pv' pv f l] assms(2) by simp

lemma unlink_released_lists:
  assumes l: "lists s (xs @ b # ys) D"
  shows "lists (unlink_released b s) (xs @ ys) D"
proof -
  have d: "dlist (nxt s) (prv s) (freebuf_head s) (freebuf_tail s) (xs @ b # ys)" using l by (simp add: lists_def)
  note self = dlist_self [OF d]
  note u = unlink_released_links [OF self(1,2)]
  have f: "dlist (nxt (unlink_released b s)) (prv (unlink_released b s)) (freebuf_head (unlink_released b s))
      (freebuf_tail (unlink_released b s)) (xs @ ys)"
    using dlist_unlink [OF d u(1,2)] unfolding u(3,4) .
  have o: "dlist (nxt (unlink_released b s)) (prv (unlink_released b s)) (dv_firstBuffer (devices s e)) k (D e)"
    if "dlist (nxt s) (prv s) (dv_firstBuffer (devices s e)) k (D e)" for e k
  proof (rule dlist_other [OF that])
    fix x assume "x \<in> set (D e)"
    then have x: "x \<noteq> b" "x \<notin> set xs" "x \<notin> set ys" "x \<noteq> 0" using l dlist_nonzero [OF that] by (auto simp: lists_def)
    then show "nxt (unlink_released b s) x = nxt s x \<and> prv (unlink_released b s) x = prv s x"
      using u(1,2) [of x] self(3,4) by auto
  qed
  have "\<exists>k. dlist (nxt (unlink_released b s)) (prv (unlink_released b s)) (dv_firstBuffer (devices (unlink_released b s) e)) k (D e)" for e
    using l o unfolding u(5) lists_def by blast
  with f l show ?thesis unfolding lists_def by auto
qed

lemma add_to_device_lists:
  assumes l: "lists s F D" and b: "b \<noteq> 0" "b \<notin> set F" "\<And>d. b \<notin> set (D d)"
  shows "lists (add_to_device dev b s) F (D(dev := b # D dev))"
proof -
  let ?t = "add_to_device dev b s"
  obtain k where k: "dlist (nxt s) (prv s) (dv_firstBuffer (devices s dev)) k (D dev)" using l unfolding lists_def by blast
  have ne: "dv_firstBuffer (devices s dev) \<noteq> b" using dlist_ends(1) [OF k] b(1) b(3) [of dev] by (cases "D dev") auto
  have fd: "dv_firstBuffer (devices s dev) = 0 \<or> dv_firstBuffer (devices s dev) \<in> set (D dev)"
    using dlist_ends(1) [OF k] by (cases "D dev") auto
  note a = add_to_device_links [OF ne]
  have o: "dlist (nxt ?t) (prv ?t) f m zs" if "dlist (nxt s) (prv s) f m zs" "b \<notin> set zs" "set (D dev) \<inter> set zs = {}" for f m zs
  proof (rule dlist_other [OF that(1)])
    fix x assume "x \<in> set zs"
    then have "x \<noteq> b" "x \<noteq> 0" "x \<noteq> dv_firstBuffer (devices s dev)" using that dlist_nonzero [OF that(1)] fd by auto
    then show "nxt ?t x = nxt s x \<and> prv ?t x = prv s x" by (simp add: a)
  qed
  have "dlist (nxt ?t) (prv ?t) (freebuf_head ?t) (freebuf_tail ?t) F"
    unfolding a(4,5) by (rule o) (use l b in \<open>auto simp: lists_def\<close>)
  moreover have "\<exists>m. dlist (nxt ?t) (prv ?t) (dv_firstBuffer (devices ?t d)) m ((D(dev := b # D dev)) d)" for d
  proof (cases "d = dev")
    case True
    have "dlist (nxt ?t) (prv ?t) b (if dv_firstBuffer (devices s dev) = 0 then b else k) (b # D dev)"
      by (rule dlist_push_head [OF k b(1,3)]) (use b(3) dlist_nonzero [OF k] in \<open>auto simp: a\<close>)
    with True show ?thesis by (auto simp: a)
  next
    case False
    obtain m where "dlist (nxt s) (prv s) (dv_firstBuffer (devices s d)) m (D d)" using l unfolding lists_def by blast
    from o [OF this] False l b(3) show ?thesis by (auto simp: a(3) lists_def)
  qed
  ultimately show ?thesis using l b unfolding lists_def by auto
qed


lemma freebuf_get_lists:
  assumes l: "lists s (b # ys) D"
  shows "fst (freebuf_get s) = b" and "lists (snd (freebuf_get s)) ys D" and "relinked s (snd (freebuf_get s))"
    and "bf_reference (buffers (snd (freebuf_get s)) y) = bf_reference (buffers s y)"
proof -
  have d: "dlist (nxt s) (prv s) (freebuf_head s) (freebuf_tail s) (b # ys)" using l by (simp add: lists_def)
  have h: "freebuf_head s = b" "b \<noteq> 0" "prv s b = 0" using d by (auto simp: dlist_def)
  note self = dlist_self [of _ _ _ _ "[]" b ys, simplified, OF d]
  have e: "freebuf_get s = (b, unlink_released b s)"
    using h self(1) by (simp add: freebuf_get_def unlink_released_def Let_def)
  show "fst (freebuf_get s) = b" "lists (snd (freebuf_get s)) ys D" "relinked s (snd (freebuf_get s))"
    "bf_reference (buffers (snd (freebuf_get s)) y) = bf_reference (buffers s y)"
    using unlink_released_lists [of s "[]" b ys D] l unlink_released_links(6,7) [OF self(1,2)] by (simp_all add: e)
qed

lemma freebuf_put_lists:
  assumes l: "lists s F D" and b: "b \<noteq> 0" "b \<notin> set F" "\<And>d. b \<notin> set (D d)"
  shows "lists (freebuf_put b s) (F @ [b]) D"
proof -
  let ?t = "freebuf_put b s"
  have k: "dlist (nxt s) (prv s) (freebuf_head s) (freebuf_tail s) F" using l by (simp add: lists_def)
  have tl: "freebuf_tail s = 0 \<or> freebuf_tail s \<in> set F" using dlist_ends(2) [OF k] by (cases "F = []") auto
  have ne: "freebuf_tail s \<noteq> b" using tl b by auto
  note a = freebuf_put_links [OF ne]
  have hd: "freebuf_head s = 0 \<longleftrightarrow> freebuf_tail s = 0" using dlist_empty_iff [OF k] dlist_empty_iff_last [OF k] by simp
  have "dlist (nxt ?t) (prv ?t) (freebuf_head ?t) (freebuf_tail ?t) (F @ [b])"
    unfolding a(3,4) hd
    by (rule dlist_push_tail [OF k b(1,2)]) (use b(2) dlist_nonzero [OF k] in \<open>auto simp: a\<close>)
  moreover have "\<exists>m. dlist (nxt ?t) (prv ?t) (dv_firstBuffer (devices ?t d)) m (D d)" for d
  proof -
    obtain m where m: "dlist (nxt s) (prv s) (dv_firstBuffer (devices s d)) m (D d)" using l unfolding lists_def by blast
    have "dlist (nxt ?t) (prv ?t) (dv_firstBuffer (devices s d)) m (D d)"
    proof (rule dlist_other [OF m])
      fix x assume x: "x \<in> set (D d)"
      then have "x \<noteq> b" "x \<noteq> 0" using b(3) dlist_nonzero [OF m] by auto
      moreover have "x \<noteq> freebuf_tail s" using tl x l dlist_nonzero [OF m] by (auto simp: lists_def)
      ultimately show "nxt ?t x = nxt s x \<and> prv ?t x = prv s x" by (simp add: a)
    qed
    then show ?thesis unfolding a(5) by blast
  qed
  ultimately show ?thesis using l b unfolding lists_def by auto
qed

lemma CHAIN_DELETE_lists:
  assumes l: "lists s F D" and b: "D dev = xs @ b # ys"
  shows "lists (CHAIN_DELETE dev b s) F (D(dev := xs @ ys))"
proof -
  let ?t = "CHAIN_DELETE dev b s"
  obtain k where d: "dlist (nxt s) (prv s) (dv_firstBuffer (devices s dev)) k (xs @ b # ys)"
    using l unfolding lists_def b [symmetric] by blast
  note self = dlist_self [OF d]
  note u = CHAIN_DELETE_links [where dev = dev, OF self(1,2)]
  have sub: "set xs \<union> {b} \<union> set ys = set (D dev)" using b by auto
  have o: "dlist (nxt ?t) (prv ?t) f m zs" if "dlist (nxt s) (prv s) f m zs" "set (D dev) \<inter> set zs = {}" for f m zs
  proof (rule dlist_other [OF that(1)])
    fix x assume "x \<in> set zs"
    then have x: "x \<noteq> b" "x \<notin> set xs" "x \<notin> set ys" "x \<noteq> 0" using that sub dlist_nonzero [OF that(1)] by auto
    then show "nxt ?t x = nxt s x \<and> prv ?t x = prv s x" using u(1,2) [where x = x] self(3,4) by auto
  qed
  have "dlist (nxt ?t) (prv ?t) (freebuf_head ?t) (freebuf_tail ?t) F"
    unfolding u(4,5) by (rule o) (use l in \<open>auto simp: lists_def\<close>)
  moreover have "\<exists>m. dlist (nxt ?t) (prv ?t) (dv_firstBuffer (devices ?t d)) m ((D(dev := xs @ ys)) d)" for d
  proof (cases "d = dev")
    case True
    show ?thesis using dlist_unlink [OF d u(1,2)] unfolding u(3) True by auto
  next
    case False
    obtain m where "dlist (nxt s) (prv s) (dv_firstBuffer (devices s d)) m (D d)" using l unfolding lists_def by blast
    from o [OF this] False l show ?thesis by (auto simp: u(3) lists_def)
  qed
  moreover have "set (xs @ ys) \<subseteq> set (D dev)" using b by auto
  ultimately show ?thesis using l unfolding lists_def by (auto, blast+)
qed

section \<open>The driver\<close>

type_synonym disk = "u32 \<times> u32 \<Rightarrow> u32 \<Rightarrow> u32 \<Rightarrow> u8"

text \<open>A driver that works: it reads the eight sectors of a block from the disk into the page the message
  names, writes them back, and never fails. \<open>disk\<close> is the content of the disks, by device and first
  sector, that the state of the drivers stands for.\<close>

definition driver_works :: "'io ipc \<Rightarrow> ('io \<Rightarrow> disk) \<Rightarrow> bool" where
  "driver_works ipc disk \<longleftrightarrow> (\<forall>m s. ms_Arguments m 2 = BLOCK_TO_SECTOR 1 \<longrightarrow>
     (let r = fst (request_block ipc m s); s' = snd (request_block ipc m s); key = (ms_ThreadId m, ms_Arguments m 0);
          sector = ms_Arguments m 1; page = ms_Large m 0
      in (ms_Command m = Device_ReadSector \<longrightarrow> r = 0 \<and> disk (world s') = disk (world s) \<and>
            page_data s' = (page_data s)(page := disk (world s) key sector)) \<and>
         (ms_Command m = Device_WriteSector \<longrightarrow> r = 0 \<and> page_data s' = page_data s \<and>
            disk (world s') = (disk (world s))(key := (disk (world s) key)(sector := page_data s page)))))"

lemma request_frame:
  "buffers (snd (request_block ipc m s)) = buffers s" "devices (snd (request_block ipc m s)) = devices s"
  "freebuf_head (snd (request_block ipc m s)) = freebuf_head s" "freebuf_tail (snd (request_block ipc m s)) = freebuf_tail s"
  by (simp_all add: request_block_def Let_def split: prod.split)

definition dkey :: "'io fs_state \<Rightarrow> u32 \<Rightarrow> u32 \<times> u32" where
  "dkey s d = (dv_thread (devices s d), dv_devID (devices s d))"

definition block_on_disk :: "('io \<Rightarrow> disk) \<Rightarrow> 'io fs_state \<Rightarrow> u32 \<Rightarrow> u32 \<Rightarrow> u32 \<Rightarrow> u8" where
  "block_on_disk disk s d k = disk (world s) (dkey s d) (BLOCK_TO_SECTOR k)"

lemma read_works:
  assumes "driver_works ipc disk"
  shows "fst (readBlock ipc b s) = 0" and "disk (world (snd (readBlock ipc b s))) = disk (world s)"
    and "page_data (snd (readBlock ipc b s)) =
      (page_data s)(bf_data (buffers s b) := block_on_disk disk s (bf_device (buffers s b)) (bf_block (buffers s b)))"
  using assms unfolding driver_works_def readBlock_def
  by (auto simp: block_message_def block_on_disk_def dkey_def Let_def dest!: spec [of _ "block_message Device_ReadSector b s"] spec [of _ s])

lemma write_works:
  assumes "driver_works ipc disk"
  shows "page_data (snd (writeBlock ipc b s)) = page_data s"
    and "disk (world (snd (writeBlock ipc b s))) = (disk (world s))(dkey s (bf_device (buffers s b)) :=
      (disk (world s) (dkey s (bf_device (buffers s b))))(BLOCK_TO_SECTOR (bf_block (buffers s b)) := page_data s (bf_data (buffers s b))))"
  using assms unfolding driver_works_def writeBlock_def
  by (auto simp: block_message_def dkey_def Let_def dest!: spec [of _ "block_message Device_WriteSector b s"] spec [of _ s])

lemma rw_frame:
  "buffers (snd (readBlock ipc b s)) = buffers s" "devices (snd (readBlock ipc b s)) = devices s"
  "freebuf_head (snd (readBlock ipc b s)) = freebuf_head s" "freebuf_tail (snd (readBlock ipc b s)) = freebuf_tail s"
  "buffers (snd (writeBlock ipc b s)) = buffers s" "devices (snd (writeBlock ipc b s)) = devices s"
  "freebuf_head (snd (writeBlock ipc b s)) = freebuf_head s" "freebuf_tail (snd (writeBlock ipc b s)) = freebuf_tail s"
  by (simp_all add: readBlock_def writeBlock_def request_frame)

section \<open>The contents of the cache\<close>

definition holds :: "'io fs_state \<Rightarrow> u32 \<Rightarrow> u32 \<Rightarrow> u32 \<Rightarrow> bool" where
  "holds s b d k \<longleftrightarrow> bf_device (buffers s b) = d \<and> bf_block (buffers s b) = k"

text \<open>\<open>contents_ok disk s V B\<close>: the buffers \<open>B\<close> have their own pages, no block of a device of \<open>V\<close> is in two
  of them, and a buffer that is not dirty has what the disk has. \<open>block_data disk s B d k c\<close>: to a client
  of the cache the content of block \<open>k\<close> of device \<open>d\<close> is \<open>c\<close>.\<close>

definition contents_ok :: "('io \<Rightarrow> disk) \<Rightarrow> 'io fs_state \<Rightarrow> u32 set \<Rightarrow> u32 set \<Rightarrow> bool" where
  "contents_ok disk s V B \<longleftrightarrow> 0 \<notin> V \<and> inj_on (dkey s) V \<and>
     (\<forall>b\<in>B. \<forall>c\<in>B. bf_data (buffers s b) = bf_data (buffers s c) \<longrightarrow> b = c) \<and>
     (\<forall>b\<in>B. \<forall>c\<in>B. bf_device (buffers s b) \<in> V \<and> holds s c (bf_device (buffers s b)) (bf_block (buffers s b)) \<longrightarrow> b = c) \<and>
     (\<forall>b\<in>B. bf_device (buffers s b) \<in> V \<and> bf_block (buffers s b) < 2 ^ 29 \<and>
          (\<not> bf_dirty (buffers s b) \<longrightarrow> page_data s (bf_data (buffers s b)) =
             block_on_disk disk s (bf_device (buffers s b)) (bf_block (buffers s b)))
        \<or> bf_device (buffers s b) = 0 \<and> \<not> bf_dirty (buffers s b))"

definition block_data :: "('io \<Rightarrow> disk) \<Rightarrow> 'io fs_state \<Rightarrow> u32 set \<Rightarrow> u32 \<Rightarrow> u32 \<Rightarrow> (u32 \<Rightarrow> u8) \<Rightarrow> bool" where
  "block_data disk s B d k c \<longleftrightarrow>
     (if \<exists>b\<in>B. holds s b d k then \<exists>b\<in>B. holds s b d k \<and> page_data s (bf_data (buffers s b)) = c
      else block_on_disk disk s d k = c)"

lemma relinked_core:
  assumes "relinked s t"
  shows "bf_device (buffers t b) = bf_device (buffers s b)" "bf_block (buffers t b) = bf_block (buffers s b)"
    "bf_data (buffers t b) = bf_data (buffers s b)" "bf_dirty (buffers t b) = bf_dirty (buffers s b)"
    "page_data t = page_data s" "world t = world s" "dkey t = dkey s"
  using assms by (auto simp: relinked_def core_def dkey_def)

lemma relinked_contents:
  assumes "relinked s t"
  shows "contents_ok disk t V B = contents_ok disk s V B" and "block_data disk t B d k c = block_data disk s B d k c"
    and "holds t b d k = holds s b d k"
  by (simp_all only: contents_ok_def block_data_def holds_def block_on_disk_def relinked_core [OF assms])

lemma sector_inj: "BLOCK_TO_SECTOR j = BLOCK_TO_SECTOR k \<Longrightarrow> j < 2 ^ 29 \<Longrightarrow> k < 2 ^ 29 \<Longrightarrow> j = k"
proof -
  assume e: "BLOCK_TO_SECTOR j = BLOCK_TO_SECTOR k" and l: "j < 2 ^ 29" "k < 2 ^ 29"
  have "unat (BLOCK_TO_SECTOR x) = unat x * 8" if "x < 2 ^ 29" for x
    using that by (simp add: BLOCK_TO_SECTOR_def word_less_nat_alt unat_word_ariths take_bit_nat_eq_self)
  with arg_cong [OF e, of unat] l show ?thesis by (simp add: word_unat_eq_iff)
qed

text \<open>Dropping a buffer from the cache, after its block has been written when it was dirty.\<close>

lemma evict:
  assumes c: "contents_ok disk s V B" and b: "b \<in> B" and w: "driver_works ipc disk"
  defines "t \<equiv> (if bf_dirty (buffers s b) then snd (writeBlock ipc b s) else s)"
  shows "contents_ok disk t V (B - {b})"
    and "d \<in> V \<Longrightarrow> k < 2 ^ 29 \<Longrightarrow> block_data disk t (B - {b}) d k x = block_data disk s B d k x"
proof -
  let ?d = "bf_device (buffers s b)" let ?k = "bf_block (buffers s b)"
  have t: "buffers t = buffers s" "devices t = devices s" "page_data t = page_data s"
    using write_works(1) [OF w] by (simp_all add: t_def rw_frame)
  have h: "holds t c d k = holds s c d k" "dkey t = dkey s" for c d k by (simp_all add: holds_def t dkey_def fun_eq_iff)
  have bb: "?d \<in> V \<and> ?k < 2 ^ 29 \<or> ?d = 0 \<and> \<not> bf_dirty (buffers s b)" using c b by (auto simp: contents_ok_def)
  have other: "block_on_disk disk t d k = block_on_disk disk s d k"
    if "d \<in> V" "k < 2 ^ 29" "\<not> holds s b d k" for d k
  proof (cases "bf_dirty (buffers s b)")
    case False
    then show ?thesis by (simp add: t_def)
  next
    case True
    then have dk: "?d \<in> V" "?k < 2 ^ 29" using bb by auto
    have "dkey s d \<noteq> dkey s ?d \<or> BLOCK_TO_SECTOR k \<noteq> BLOCK_TO_SECTOR ?k"
    proof (rule ccontr)
      assume "\<not> ?thesis"
      then have "d = ?d" "k = ?k" using c that dk sector_inj by (auto simp: contents_ok_def inj_on_def)
      with that(3) show False by (simp add: holds_def)
    qed
    then show ?thesis using True write_works(2) [OF w] h(2) by (auto simp: t_def block_on_disk_def)
  qed
  have own: "block_on_disk disk t ?d ?k = page_data s (bf_data (buffers s b))" if "?d \<in> V"
  proof (cases "bf_dirty (buffers s b)")
    case True
    then show ?thesis using write_works(2) [OF w] h(2) by (simp add: t_def block_on_disk_def)
  next
    case False
    then show ?thesis using c b that by (auto simp: t_def contents_ok_def)
  qed
  show "contents_ok disk t V (B - {b})"
    unfolding contents_ok_def
  proof (intro conjI ballI impI)
    fix a assume a: "a \<in> B - {b}"
    show "bf_device (buffers t a) \<in> V \<and> bf_block (buffers t a) < 2 ^ 29 \<and>
        (\<not> bf_dirty (buffers t a) \<longrightarrow> page_data t (bf_data (buffers t a)) =
           block_on_disk disk t (bf_device (buffers t a)) (bf_block (buffers t a)))
      \<or> bf_device (buffers t a) = 0 \<and> \<not> bf_dirty (buffers t a)"
    proof (cases "bf_device (buffers s a) \<in> V")
      case True
      have "\<not> holds s b (bf_device (buffers s a)) (bf_block (buffers s a))" using c a b True by (auto simp: contents_ok_def)
      with True c a other [OF True] show ?thesis by (auto simp: contents_ok_def t)
    next
      case False
      with c a show ?thesis by (auto simp: contents_ok_def t)
    qed
  qed (use c in \<open>auto simp: contents_ok_def t h\<close>)
  show "block_data disk t (B - {b}) d k x = block_data disk s B d k x" if "d \<in> V" "k < 2 ^ 29"
  proof (cases "holds s b d k")
    case True
    then have dk: "d = ?d" "k = ?k" by (auto simp: holds_def)
    have u: "a = b" if "a \<in> B" "holds s a d k" for a using c b that \<open>d \<in> V\<close> unfolding contents_ok_def dk by blast
    then have "\<not> (\<exists>a\<in>B - {b}. holds t a d k)" unfolding h by blast
    moreover have e: "(\<exists>a\<in>B. holds s a d k \<and> P a) \<longleftrightarrow> P b" for P using b True u by blast
    have "block_data disk s B d k x \<longleftrightarrow> page_data s (bf_data (buffers s b)) = x"
      using e [of "\<lambda>_. True"] e by (simp add: block_data_def)
    ultimately show ?thesis using own that(1) unfolding dk by (simp add: block_data_def)
  next
    case False
    then have "(\<exists>a\<in>B - {b}. holds t a d k \<and> P a) \<longleftrightarrow> (\<exists>a\<in>B. holds s a d k \<and> P a)" for P by (auto simp: h)
    from this [of "\<lambda>_. True"] this show ?thesis using other [OF that False] by (simp add: block_data_def t)
  qed
qed

text \<open>Reading a block into a buffer that is in no list.\<close>

lemma fill:
  assumes c: "contents_ok disk s V B" and b: "b \<notin> B" "bf_data (buffers s b) \<notin> (\<lambda>x. bf_data (buffers s x)) ` B"
    and w: "driver_works ipc disk" and d: "dev \<in> V" "blk < 2 ^ 29" and new: "\<forall>x\<in>B. \<not> holds s x dev blk"
  defines "u \<equiv> upd_buf b (\<lambda>r. r\<lparr>bf_block := blk, bf_device := dev, bf_reference := 0, bf_dirty := False\<rparr>) s"
  defines "t \<equiv> snd (readBlock ipc b u)"
  shows "contents_ok disk t V (insert b B)"
    and "block_data disk t (insert b B) d k x = block_data disk s B d k x"
    and "holds t b dev blk" and "block_data disk s B dev blk (page_data t (bf_data (buffers t b)))"
    and "fst (readBlock ipc b u) = 0"
proof -
  have bt: "buffers t = buffers u" "devices t = devices s" by (simp_all add: t_def rw_frame u_def)
  have bu: "buffers t x = (if x = b then (buffers s b)\<lparr>bf_block := blk, bf_device := dev, bf_reference := 0, bf_dirty := False\<rparr>
      else buffers s x)" for x by (simp add: bt u_def)
  have dk: "dkey t = dkey s" "dkey u = dkey s" by (simp_all add: dkey_def bt fun_eq_iff u_def)
  have dw: "disk (world t) = disk (world s)" using read_works(2) [OF w, of b u] by (simp add: t_def u_def)
  then have bd: "block_on_disk disk t = block_on_disk disk s" by (intro ext) (simp only: block_on_disk_def dk)
  have pd: "page_data t = (page_data s)(bf_data (buffers s b) := block_on_disk disk s dev blk)"
  proof -
    have e: "bf_data (buffers u b) = bf_data (buffers s b)" "bf_device (buffers u b) = dev" "bf_block (buffers u b) = blk"
      "page_data u = page_data s" "world u = world s" by (simp_all add: u_def)
    show ?thesis using read_works(3) [OF w, of b u] unfolding e block_on_disk_def dk e t_def [symmetric] .
  qed
  have hx: "holds t x d k = (if x = b then d = dev \<and> k = blk else holds s x d k)" for x d k by (auto simp: holds_def bu)
  have px: "page_data t (bf_data (buffers t x)) = page_data s (bf_data (buffers s x))" if "x \<in> B" for x
  proof -
    have "bf_data (buffers s x) \<in> (\<lambda>x. bf_data (buffers s x)) ` B" using that by (rule imageI)
    then have "x \<noteq> b" "bf_data (buffers s x) \<noteq> bf_data (buffers s b)" using b(2) by metis+
    then show ?thesis by (simp add: bu pd)
  qed
  have pb: "page_data t (bf_data (buffers t b)) = block_on_disk disk s dev blk" by (simp add: bu pd)
  show "holds t b dev blk" by (simp add: hx)
  show "fst (readBlock ipc b u) = 0" by (rule read_works(1) [OF w])
  have no: "\<not> (\<exists>x\<in>B. holds s x dev blk)" using new by blast
  show "block_data disk s B dev blk (page_data t (bf_data (buffers t b)))" using no pb by (simp add: block_data_def)
  show "block_data disk t (insert b B) d k x = block_data disk s B d k x"
  proof (cases "d = dev \<and> k = blk")
    case True
    then have e: "(\<exists>a\<in>insert b B. holds t a d k \<and> P a) \<longleftrightarrow> P b" for P using new b(1) by (auto simp: hx)
    have e1: "\<exists>a\<in>insert b B. holds t a d k" using True by (simp add: hx)
    have n1: "\<not> (\<exists>a\<in>B. holds s a d k)" using True no by simp
    show ?thesis unfolding block_data_def if_P [OF e1] if_not_P [OF n1] e using pb True by simp
  next
    case False
    then have "(\<exists>a\<in>insert b B. holds t a d k \<and> P a) \<longleftrightarrow> (\<exists>a\<in>B. holds s a d k \<and> P a)" for P using b(1) by (auto simp: hx)
    from this [of "\<lambda>_. True"] this [of "\<lambda>a. page_data t (bf_data (buffers t a)) = x"]
    show ?thesis using px bd by (auto simp: block_data_def)
  qed
  show "contents_ok disk t V (insert b B)"
    unfolding contents_ok_def
  proof (intro conjI ballI impI)
    show "0 \<notin> V" "inj_on (dkey t) V" using c by (simp_all add: contents_ok_def dk)
  next
    fix a e assume "a \<in> insert b B" "e \<in> insert b B" "bf_data (buffers t a) = bf_data (buffers t e)"
    then have ae: "a = b \<or> a \<in> B" "e = b \<or> e \<in> B" "bf_data (buffers s a) = bf_data (buffers s e)"
      by (auto simp: bu split: if_splits)
    have D: "x = y" if "x \<in> B" "y \<in> B" "bf_data (buffers s x) = bf_data (buffers s y)" for x y
      using c that unfolding contents_ok_def by blast
    have "bf_data (buffers s x) \<noteq> bf_data (buffers s b)" if "x \<in> B" for x
      using b(2) imageI [OF that, of "\<lambda>x. bf_data (buffers s x)"] by metis
    with D ae show "a = e" by metis
  next
    fix a e assume "a \<in> insert b B" "e \<in> insert b B"
      "bf_device (buffers t a) \<in> V \<and> holds t e (bf_device (buffers t a)) (bf_block (buffers t a))"
    then have ae: "a = b \<or> a \<in> B" "e = b \<or> e \<in> B" "bf_device (buffers t a) \<in> V"
      "holds t e (bf_device (buffers t a)) (bf_block (buffers t a))" by blast+
    have U: "x = y" if "x \<in> B" "y \<in> B" "bf_device (buffers s x) \<in> V" "holds s y (bf_device (buffers s x)) (bf_block (buffers s x))" for x y
      using c that unfolding contents_ok_def by blast
    have self: "holds s a (bf_device (buffers s a)) (bf_block (buffers s a))" by (simp add: holds_def)
    show "a = e"
    proof (rule ccontr)
      assume ne: "a \<noteq> e"
      show False
      proof (cases "a = b")
        case True
        then have "e \<in> B" "holds s e dev blk" using ae ne by (auto simp: bu hx)
        with new show False by blast
      next
        case False
        then have a: "a \<in> B" "holds t e (bf_device (buffers s a)) (bf_block (buffers s a))" "bf_device (buffers s a) \<in> V"
          using ae by (simp_all add: bu)
        show False
        proof (cases "e = b")
          case True
          then have "bf_device (buffers s a) = dev \<and> bf_block (buffers s a) = blk" using a(2) by (simp add: hx)
          then have "holds s a dev blk" by (simp add: holds_def)
          with new a(1) show False by blast
        next
          case False
          then show False using U [OF a(1) _ a(3)] a(2) ae(2) ne by (simp add: hx)
        qed
      qed
    qed
  next
    fix a assume a: "a \<in> insert b B"
    show "bf_device (buffers t a) \<in> V \<and> bf_block (buffers t a) < 2 ^ 29 \<and>
        (\<not> bf_dirty (buffers t a) \<longrightarrow> page_data t (bf_data (buffers t a)) =
           block_on_disk disk t (bf_device (buffers t a)) (bf_block (buffers t a)))
      \<or> bf_device (buffers t a) = 0 \<and> \<not> bf_dirty (buffers t a)"
    proof (cases "a = b")
      case True
      then show ?thesis using d pb by (simp add: bd) (simp add: bu)
    next
      case False
      then have "a \<in> B" "buffers t a = buffers s a" using a by (auto simp: bu)
      then show ?thesis using c px [of a] by (auto simp: contents_ok_def bd)
    qed
  qed
qed

section \<open>The search\<close>

lemma find_in_device_find:
  "dseg (\<lambda>x. bf_next (h x)) pv a p xs l 0 \<Longrightarrow>
    find_in_device h p k = Some (case find (\<lambda>b. bf_block (h b) = k) xs of None \<Rightarrow> 0 | Some b \<Rightarrow> b)"
proof (induction xs arbitrary: a p)
  case Nil
  then show ?case by (simp add: find_in_device.simps)
next
  case (Cons x xs)
  then have p: "p = x" "x \<noteq> 0" "dseg (\<lambda>x. bf_next (h x)) pv x (bf_next (h x)) xs l 0" by auto
  have "find_in_device h x k = (if bf_block (h x) = k then Some x else find_in_device h (bf_next (h x)) k)"
    using p(2) by (subst find_in_device.simps) simp
  then show ?case using Cons.IH [OF p(3)] p(1) by simp
qed

lemma find_released_find:
  "dseg nx (\<lambda>x. bf_prev (h x)) 0 p xs l z \<Longrightarrow>
    find_released h d l dev k = Some (case find (\<lambda>b. bf_device (h b) = dev \<and> bf_block (h b) = k) (rev xs) of None \<Rightarrow> 0 | Some b \<Rightarrow> b)"
proof (induction xs arbitrary: l z rule: rev_induct)
  case Nil
  then show ?case by (simp add: find_released.simps)
next
  case (snoc y xs)
  let ?P = "\<lambda>b. bf_device (h b) = dev \<and> bf_block (h b) = k"
  from snoc.prems obtain m where m: "dseg nx (\<lambda>x. bf_prev (h x)) 0 p xs m y" "y \<noteq> 0" "bf_prev (h y) = m" "l = y"
    by (auto simp: dseg_snoc)
  have i: "find_released h d m dev k = Some (case find ?P (rev xs) of None \<Rightarrow> 0 | Some b \<Rightarrow> b)" by (rule snoc.IH [OF m(1)])
  have "find_released h d y dev k = (if ?P y then Some y else find_released h d m dev k)"
    using m(2,3) by (subst find_released.simps) auto
  then show ?case using i m(4) by simp
qed

lemma find_SomeD: "find P xs = Some x \<Longrightarrow> x \<in> set xs \<and> P x"
  by (induction xs) (auto split: if_splits)

section \<open>The cache\<close>

definition cached :: "u32 list \<Rightarrow> (u32 \<Rightarrow> u32 list) \<Rightarrow> u32 set" where
  "cached F D = set F \<union> (\<Union>d. set (D d))"

definition cache_ok :: "('io \<Rightarrow> disk) \<Rightarrow> 'io fs_state \<Rightarrow> u32 set \<Rightarrow> u32 list \<Rightarrow> (u32 \<Rightarrow> u32 list) \<Rightarrow> bool" where
  "cache_ok disk s V F D \<longleftrightarrow> lists s F D \<and> contents_ok disk s V (cached F D) \<and>
     (\<forall>d. \<forall>b\<in>set (D d). d \<in> V \<and> bf_device (buffers s b) = d \<and> bf_reference (buffers s b) \<noteq> 0) \<and>
     (\<forall>b\<in>set F. bf_reference (buffers s b) = 0)"

lemma buffer_get_spec:
  assumes ok: "cache_ok disk s V F D" and w: "driver_works ipc disk" and dev: "dev \<in> V" "blk < 2 ^ 29"
    and room: "F \<noteq> [] \<or> (\<exists>b\<in>set (D dev). bf_block (buffers s b) = blk)"
    and refs: "\<forall>b\<in>set (D dev). bf_reference (buffers s b) \<noteq> 0xFFFF"
  shows "\<exists>b s' F' D'. buffer_get ipc dev blk s = Some (b, s') \<and> cache_ok disk s' V F' D' \<and>
    b \<in> set (D' dev) \<and> holds s' b dev blk \<and> block_data disk s (cached F D) dev blk (page_data s' (bf_data (buffers s' b))) \<and>
    (\<forall>d\<in>V. \<forall>k. \<forall>c. k < 2 ^ 29 \<longrightarrow> block_data disk s' (cached F' D') d k c = block_data disk s (cached F D) d k c) \<and>
    (\<forall>x. bf_reference (buffers s' x) = bf_reference (buffers s x) + (if x = b then 1 else 0)) \<and>
    (\<forall>d. set (D' d) = (if d = dev then insert b (set (D d)) else set (D d))) \<and> b \<in> cached F D \<and>
    cached F' D' = cached F D \<and> (\<forall>x. x \<notin> set F \<longrightarrow> core (buffers s' x) = core (buffers s x))"
proof -
  have l: "lists s F D" and c: "contents_ok disk s V (cached F D)" using ok by (simp_all add: cache_ok_def)
  obtain m where m: "dlist (nxt s) (prv s) (dv_firstBuffer (devices s dev)) m (D dev)" using l unfolding lists_def by blast
  have dF: "dlist (nxt s) (prv s) (freebuf_head s) (freebuf_tail s) F" using l by (simp add: lists_def)
  let ?v = "case find (\<lambda>b. bf_block (buffers s b) = blk) (D dev) of None \<Rightarrow> 0 | Some b \<Rightarrow> b"
  have f1: "find_in_device (buffers s) (dv_firstBuffer (devices s dev)) blk = Some ?v"
    by (rule find_in_device_find [OF conjunct1 [OF m [unfolded dlist_def]]])
  have dref: "\<And>b d. b \<in> set (D d) \<Longrightarrow> d \<in> V \<and> bf_device (buffers s b) = d \<and> bf_reference (buffers s b) \<noteq> 0"
    and fref: "\<And>b. b \<in> set F \<Longrightarrow> bf_reference (buffers s b) = 0" using ok by (auto simp: cache_ok_def)
  show ?thesis
  proof (cases "find (\<lambda>b. bf_block (buffers s b) = blk) (D dev)")
    case (Some b)
    then have b: "b \<in> set (D dev)" "bf_block (buffers s b) = blk" using find_SomeD [OF Some] by auto
    have b0: "b \<noteq> 0" using dlist_nonzero [OF m] b(1) by auto
    let ?t = "upd_buf b (\<lambda>r. r\<lparr>bf_reference := bf_reference r + 1\<rparr>) s"
    have g: "buffer_get ipc dev blk s = Some (b, ?t)" using f1 Some b0 by (simp add: buffer_get_def)
    have re: "relinked s ?t" by (simp add: relinked_def core_def)
    have "nxt ?t = nxt s" "prv ?t = prv s" by (simp_all add: fun_eq_iff)
    then have lt: "lists ?t F D" using l by (simp add: lists_def)
    have r: "bf_reference (buffers s b) + 1 \<noteq> 0"
    proof
      assume "bf_reference (buffers s b) + 1 = 0"
      then have "bf_reference (buffers s b) = - 1" by (simp add: eq_neg_iff_add_eq_0)
      moreover have "(- 1 :: u16) = 0xFFFF" by simp
      ultimately show False using refs b(1) by metis
    qed
    have "\<And>x d. x \<in> set (D d) \<Longrightarrow> bf_reference (buffers ?t x) \<noteq> 0" using dref r by auto
    moreover have "\<And>x. x \<in> set F \<Longrightarrow> bf_reference (buffers ?t x) = 0" using fref l b(1) by (auto simp: lists_def)
    ultimately have "cache_ok disk ?t V F D"
      using lt c dref unfolding cache_ok_def relinked_contents [OF re] relinked_core [OF re] by blast
    moreover have h: "holds s b dev blk" using dref [OF b(1)] b(2) by (simp add: holds_def)
    moreover have "block_data disk s (cached F D) dev blk (page_data s (bf_data (buffers s b)))"
      using h b(1) by (auto simp: block_data_def cached_def)
    ultimately show ?thesis using g b(1) relinked_contents [OF re] relinked_core [OF re]
      by (intro exI [of _ b] exI [of _ ?t] exI [of _ F] exI [of _ D]) (auto simp: insert_absorb cached_def core_def)
  next
    case None
    then have nd: "b \<in> set (D dev) \<Longrightarrow> bf_block (buffers s b) \<noteq> blk" for b by (auto simp: find_None_iff)
    then have F: "F \<noteq> []" using room by blast
    have nh: "\<not> holds s b dev blk" if "b \<in> set (D d)" for b d
      using that nd dref [OF that] by (auto simp: holds_def)
    let ?u = "case find (\<lambda>b. bf_device (buffers s b) = dev \<and> bf_block (buffers s b) = blk) (rev F) of None \<Rightarrow> 0 | Some b \<Rightarrow> b"
    have f2: "find_released (buffers s) (devices s) (freebuf_tail s) dev blk = Some ?u"
      by (rule find_released_find [OF conjunct1 [OF dF [unfolded dlist_def]]])
    show ?thesis
    proof (cases "find (\<lambda>b. bf_device (buffers s b) = dev \<and> bf_block (buffers s b) = blk) (rev F)")
      case (Some b)
      then have b: "b \<in> set F" "bf_device (buffers s b) = dev" "bf_block (buffers s b) = blk" using find_SomeD [OF Some] by auto
      then obtain xs ys where sp: "F = xs @ b # ys" by (meson split_list)
      have b0: "b \<noteq> 0" using dlist_nonzero [OF dF] b(1) by auto
      let ?r = "unlink_released b s" let ?t = "add_to_device dev b ?r" let ?D = "D(dev := b # D dev)"
      have g: "buffer_get ipc dev blk s = Some (b, ?t)" using f1 None f2 Some b0 by (simp add: buffer_get_def)
      note self = dlist_self [OF dF [unfolded sp]]
      have lr: "lists ?r (xs @ ys) D" by (rule unlink_released_lists) (use l sp in simp)
      have nb: "b \<notin> set (xs @ ys)" "\<And>d. b \<notin> set (D d)" using l dlist_distinct [OF dF] sp by (auto simp: lists_def)
      have lt: "lists ?t (xs @ ys) ?D" by (rule add_to_device_lists [OF lr b0 nb])
      have ne: "dv_firstBuffer (devices ?r dev) \<noteq> b"
      proof -
        obtain k where "dlist (nxt ?r) (prv ?r) (dv_firstBuffer (devices ?r dev)) k (D dev)" using lr unfolding lists_def by blast
        from dlist_ends(1) [OF this] b0 nb(2) [of dev] show ?thesis by (cases "D dev") auto
      qed
      have re: "relinked s ?t"
        by (rule relinked_trans [OF unlink_released_links(6) [OF self(1,2)] add_to_device_links(6) [OF ne]])
      have rf: "bf_reference (buffers ?t y) = (if y = b then 1 else bf_reference (buffers s y))" for y
        using add_to_device_links(7) [OF ne, of y] unlink_released_links(7) [OF self(1,2)] fref [OF b(1)] by auto
      have cs: "cached (xs @ ys) ?D = cached F D" by (auto simp: cached_def sp split: if_splits)
      have "cache_ok disk ?t V (xs @ ys) ?D"
        unfolding cache_ok_def cs relinked_contents [OF re] relinked_core [OF re] rf
        using lt c dref fref b dev(1) nb sp by auto
      moreover have h: "holds s b dev blk" using b by (simp add: holds_def)
      moreover have "block_data disk s (cached F D) dev blk (page_data s (bf_data (buffers s b)))"
        using h b(1) c dev(1) unfolding block_data_def contents_ok_def by (auto simp: cached_def)
      ultimately show ?thesis using g relinked_contents [OF re] relinked_core [OF re] cs fref [OF b(1)] b(1)
        by (intro exI [of _ b] exI [of _ ?t] exI [of _ "xs @ ys"] exI [of _ ?D]) (simp add: rf core_def, simp add: cached_def)
    next
      case nf: None
      then have nr: "b \<in> set F \<Longrightarrow> \<not> holds s b dev blk" for b by (auto simp: find_None_iff holds_def)
      obtain b ys where sp: "F = b # ys" using F by (cases F) auto
      have b0: "b \<noteq> 0" using dlist_nonzero [OF dF] sp by auto
      define s1 where "s1 = snd (freebuf_get s)"
      have ls: "lists s (b # ys) D" using l sp by simp
      note fg = freebuf_get_lists [OF ls, folded s1_def]
      have fge: "freebuf_get s = (b, s1)" using fg(1) by (simp add: s1_def prod_eq_iff)
      define s2 where "s2 = (if bf_dirty (buffers s1 b) then snd (writeBlock ipc b s1) else s1)"
      define s3 where "s3 = upd_buf b (\<lambda>r. r\<lparr>bf_block := blk, bf_device := dev, bf_reference := 0, bf_dirty := False\<rparr>) s2"
      define s4 where "s4 = snd (readBlock ipc b s3)"
      let ?t = "add_to_device dev b s4" let ?D = "D(dev := b # D dev)"
      have c1: "contents_ok disk s1 V (cached F D)" using c relinked_contents [OF fg(3)] by simp
      have bc: "b \<in> cached F D" by (simp add: cached_def sp)
      note ev = evict [OF c1 bc w, folded s2_def]
      have nb: "b \<notin> set ys" "\<And>d. b \<notin> set (D d)" using l dlist_distinct [OF dF] sp by (auto simp: lists_def)
      have B: "cached F D - {b} = cached ys D" using nb by (auto simp: cached_def sp)
      have s2b: "buffers s2 = buffers s1" "devices s2 = devices s1" "freebuf_head s2 = freebuf_head s1" "freebuf_tail s2 = freebuf_tail s1"
        by (simp_all add: s2_def rw_frame)
      have new: "\<forall>x\<in>cached F D - {b}. \<not> holds s2 x dev blk"
      proof
        fix x assume that: "x \<in> cached F D - {b}"
        have "\<not> holds s x dev blk" using that nh nr by (auto simp: cached_def)
        then show "\<not> holds s2 x dev blk" using relinked_contents(3) [OF fg(3)] by (simp add: holds_def s2b)
      qed
      have dd: "bf_data (buffers s2 b) \<notin> (\<lambda>x. bf_data (buffers s2 x)) ` (cached F D - {b})"
        using c1 bc by (auto simp: contents_ok_def s2b)
      have bB: "b \<notin> cached F D - {b}" by simp
      note fi = fill [OF ev(1) bB dd w dev new, folded s3_def, folded s4_def]
      have g: "buffer_get ipc dev blk s = Some (b, ?t)"
      proof -
        have rb: "readBlock ipc b s3 = (0, s4)" using fi(5) by (simp add: s4_def prod_eq_iff)
        have "find_in_device (buffers s) (dv_firstBuffer (devices s dev)) blk = Some 0" using f1 None by simp
        moreover have "find_released (buffers s) (devices s) (freebuf_tail s) dev blk = Some 0" using f2 nf by simp
        ultimately show ?thesis using b0 rb
          by (simp add: buffer_get_def fge Let_def s2_def [symmetric] s3_def [symmetric])
      qed
      have s4b: "buffers s4 = buffers s3" "devices s4 = devices s1" "freebuf_head s4 = freebuf_head s1" "freebuf_tail s4 = freebuf_tail s1"
        by (simp_all add: s4_def rw_frame s3_def s2b)
      have "nxt s4 = nxt s1" "prv s4 = prv s1" by (simp_all add: s4b s3_def s2b fun_eq_iff)
      then have l4: "lists s4 ys D" using fg(2) s4b by (simp add: lists_def)
      have lt: "lists ?t ys ?D" by (rule add_to_device_lists [OF l4 b0 nb])
      have ne: "dv_firstBuffer (devices s4 dev) \<noteq> b"
      proof -
        obtain k where "dlist (nxt s4) (prv s4) (dv_firstBuffer (devices s4 dev)) k (D dev)" using l4 unfolding lists_def by blast
        from dlist_ends(1) [OF this] b0 nb(2) [of dev] show ?thesis by (cases "D dev") auto
      qed
      note re = add_to_device_links(6) [OF ne]
      have rf: "bf_reference (buffers ?t y) = (if y = b then 1 else bf_reference (buffers s y))" for y
        using add_to_device_links(7) [OF ne, of y] fg(4) by (simp add: s4b s3_def s2b)
      have dv: "bf_device (buffers ?t y) = (if y = b then dev else bf_device (buffers s y))" for y
        using relinked_core(1) [OF re, of y] relinked_core(1) [OF fg(3), of y] by (simp add: s4b s3_def s2b)
      have cs: "cached ys ?D = insert b (cached F D - {b})" unfolding B by (auto simp: cached_def split: if_splits)
      have "cache_ok disk ?t V ys ?D"
        unfolding cache_ok_def cs relinked_contents [OF re] rf dv
        using lt fi(1) dref fref dev(1) nb sp by auto
      moreover have "block_data disk s (cached F D) dev blk (page_data ?t (bf_data (buffers ?t b)))"
        using fi(4) ev(2) [OF dev] relinked_contents(2) [OF fg(3)] relinked_core [OF re] by simp
      moreover have "block_data disk ?t (cached ys ?D) d k x = block_data disk s (cached F D) d k x" if "d \<in> V" "k < 2 ^ 29" for d k x
        unfolding cs relinked_contents(2) [OF re] fi(2) ev(2) [OF that] by (rule relinked_contents(2) [OF fg(3)])
      moreover have "holds ?t b dev blk" using fi(3) relinked_contents(3) [OF re] by simp
      moreover have "core (buffers ?t x) = core (buffers s x)" if "x \<notin> set F" for x
        using relinked_core(1-4) [OF re, of x] relinked_core(1-4) [OF fg(3), of x] that sp by (auto simp: core_def s4b s3_def s2b)
      moreover have "cached ys ?D = cached F D" unfolding cs using bc by blast
      ultimately show ?thesis using g fref [of b] sp bc
        by (intro exI [of _ b] exI [of _ ?t] exI [of _ ys] exI [of _ ?D]) (simp add: rf)
    qed
  qed
qed

text \<open>Without a free buffer a block that nobody holds cannot be had.\<close>

lemma buffer_get_refused:
  assumes ok: "cache_ok disk s V [] D" and no: "\<forall>b\<in>set (D dev). bf_block (buffers s b) \<noteq> blk"
  shows "buffer_get ipc dev blk s = Some (0, s)"
proof -
  have l: "lists s [] D" using ok by (simp add: cache_ok_def)
  obtain m where m: "dlist (nxt s) (prv s) (dv_firstBuffer (devices s dev)) m (D dev)" using l unfolding lists_def by blast
  have z: "freebuf_head s = 0" "freebuf_tail s = 0" using l by (simp_all add: lists_def)
  have "find (\<lambda>b. bf_block (buffers s b) = blk) (D dev) = None" using no by (simp add: find_None_iff)
  then have "find_in_device (buffers s) (dv_firstBuffer (devices s dev)) blk = Some 0"
    using find_in_device_find [OF conjunct1 [OF m [unfolded dlist_def]], of blk] by simp
  then show ?thesis using z by (simp add: buffer_get_def find_released.simps freebuf_get_def)
qed

section \<open>Giving a buffer back\<close>

lemma buffer_put_spec:
  assumes ok: "cache_ok disk s V F D" and b: "b \<in> set (D dev)"
  shows "\<exists>F' D'. cache_ok disk (buffer_put b s) V F' D' \<and> cached F' D' = cached F D \<and> relinked s (buffer_put b s) \<and>
    (bf_reference (buffers s b) = 1 \<longrightarrow> F' = F @ [b] \<and> D' = D(dev := remove1 b (D dev))) \<and>
    (bf_reference (buffers s b) \<noteq> 1 \<longrightarrow> F' = F \<and> D' = D) \<and>
    (\<forall>x. bf_reference (buffers (buffer_put b s) x) = bf_reference (buffers s x) - (if x = b then 1 else 0))"
proof -
  have l: "lists s F D" and c: "contents_ok disk s V (cached F D)" using ok by (simp_all add: cache_ok_def)
  have dref: "\<And>x d. x \<in> set (D d) \<Longrightarrow> d \<in> V \<and> bf_device (buffers s x) = d \<and> bf_reference (buffers s x) \<noteq> 0"
    and fref: "\<And>x. x \<in> set F \<Longrightarrow> bf_reference (buffers s x) = 0" using ok by (auto simp: cache_ok_def)
  have bd: "bf_device (buffers s b) = dev" using dref [OF b] by blast
  let ?t = "upd_buf b (\<lambda>r. r\<lparr>bf_reference := bf_reference r - 1\<rparr>) s"
  have ret: "relinked s ?t" by (simp add: relinked_def core_def)
  have "nxt ?t = nxt s" "prv ?t = prv s" by (simp_all add: fun_eq_iff)
  then have lt: "lists ?t F D" using l by (simp add: lists_def)
  show ?thesis
  proof (cases "bf_reference (buffers s b) = 1")
    case False
    then have r: "bf_reference (buffers s b) - 1 \<noteq> 0" by simp
    then have p: "buffer_put b s = ?t" by (simp add: buffer_put_def Let_def)
    have "\<And>x d. x \<in> set (D d) \<Longrightarrow> bf_reference (buffers ?t x) \<noteq> 0" using dref r by auto
    moreover have "\<And>x. x \<in> set F \<Longrightarrow> bf_reference (buffers ?t x) = 0" using fref l b by (auto simp: lists_def)
    ultimately have "cache_ok disk ?t V F D"
      using lt c dref unfolding cache_ok_def relinked_contents [OF ret] relinked_core [OF ret] by blast
    with p ret False show ?thesis by (intro exI [of _ F] exI [of _ D]) simp
  next
    case True
    obtain xs ys where sp: "D dev = xs @ b # ys" using b by (meson split_list)
    obtain k where dk: "dlist (nxt s) (prv s) (dv_firstBuffer (devices s dev)) k (xs @ b # ys)"
      using l unfolding lists_def sp [symmetric] by blast
    have b0: "b \<noteq> 0" using dlist_nonzero [OF dk] by auto
    let ?u = "CHAIN_DELETE dev b ?t" let ?v = "freebuf_put b ?u" let ?D = "D(dev := xs @ ys)"
    have p: "buffer_put b s = ?v" using True bd by (simp add: buffer_put_def Let_def)
    have lu: "lists ?u F ?D" by (rule CHAIN_DELETE_lists [OF lt sp])
    have nb: "b \<notin> set F" "\<And>d. b \<notin> set (?D d)"
      using l b dlist_distinct [OF dk] by (auto simp: lists_def) blast
    have lv: "lists ?v (F @ [b]) ?D" by (rule freebuf_put_lists [OF lu b0 nb])
    have self: "nxt ?t b \<noteq> b" "prv ?t b \<noteq> b" using dlist_self(1,2) [OF dk] by simp_all
    have tl: "freebuf_tail ?u \<noteq> b"
    proof -
      have "dlist (nxt ?u) (prv ?u) (freebuf_head ?u) (freebuf_tail ?u) F" using lu by (simp add: lists_def)
      from dlist_ends(2) [OF this] b0 nb(1) show ?thesis by (cases "F = []") auto
    qed
    have re: "relinked s ?v"
      by (rule relinked_trans [OF relinked_trans [OF ret CHAIN_DELETE_links(6) [OF self]] freebuf_put_links(6) [OF tl]])
    have rf: "bf_reference (buffers ?v x) = (if x = b then 0 else bf_reference (buffers s x))" for x
      using freebuf_put_links(7) [OF tl, of x] CHAIN_DELETE_links(7) [OF self, of dev x] True by simp
    have "set (D d) \<subseteq> set (?D d) \<union> {b}" "set (?D d) \<subseteq> set (D d)" for d using sp by (cases "d = dev"; auto)+
    then have "(\<Union>d. set (?D d)) \<union> {b} = (\<Union>d. set (D d))" using b by blast
    then have cs: "cached (F @ [b]) ?D = cached F D" by (auto simp: cached_def)
    have rm: "remove1 b (D dev) = xs @ ys" using dlist_distinct [OF dk] sp by (simp add: remove1_append)
    have "\<And>x d. x \<in> set (?D d) \<Longrightarrow> x \<in> set (D d)" using sp by (auto split: if_splits)
    then have "\<And>x d. x \<in> set (?D d) \<Longrightarrow> d \<in> V \<and> bf_device (buffers s x) = d \<and> bf_reference (buffers ?v x) \<noteq> 0"
      using dref nb(2) unfolding rf by metis
    moreover have "\<And>x. x \<in> set (F @ [b]) \<Longrightarrow> bf_reference (buffers ?v x) = 0" using fref unfolding rf by auto
    ultimately have "cache_ok disk ?v V (F @ [b]) ?D"
      using lv c unfolding cache_ok_def cs relinked_contents [OF re] relinked_core [OF re] by blast
    with p re cs rm True show ?thesis by (intro exI [of _ "F @ [b]"] exI [of _ ?D]) (simp add: rf)
  qed
qed

text \<open>What a client does with a buffer it holds: it changes the data and marks the buffer.\<close>

definition client_write :: "u32 \<Rightarrow> (u32 \<Rightarrow> u8) \<Rightarrow> 'io fs_state \<Rightarrow> 'io fs_state" where
  "client_write b c s = upd_buf b (\<lambda>r. r\<lparr>bf_dirty := True\<rparr>) (s\<lparr>page_data := (page_data s)(bf_data (buffers s b) := c)\<rparr>)"

lemma client_write_spec:
  assumes ok: "cache_ok disk s V F D" and b: "b \<in> set (D dev)"
  shows "cache_ok disk (client_write b c s) V F D"
    and "block_data disk (client_write b c s) (cached F D) d k x \<longleftrightarrow>
      (if holds s b d k then x = c else block_data disk s (cached F D) d k x)"
proof -
  let ?t = "client_write b c s" let ?B = "cached F D"
  have l: "lists s F D" and co: "contents_ok disk s V ?B" using ok by (simp_all add: cache_ok_def)
  have bB: "b \<in> ?B" using b by (auto simp: cached_def)
  have bu: "buffers ?t x = (if x = b then (buffers s b)\<lparr>bf_dirty := True\<rparr> else buffers s x)" for x by (simp add: client_write_def)
  have fr: "devices ?t = devices s" "freebuf_head ?t = freebuf_head s" "freebuf_tail ?t = freebuf_tail s" "world ?t = world s"
    by (simp_all add: client_write_def)
  have "nxt ?t = nxt s" "prv ?t = prv s" by (simp_all add: fun_eq_iff bu)
  then have lt: "lists ?t F D" using l fr by (simp add: lists_def)
  have same: "bf_device (buffers ?t x) = bf_device (buffers s x)" "bf_block (buffers ?t x) = bf_block (buffers s x)"
    "bf_data (buffers ?t x) = bf_data (buffers s x)" "bf_reference (buffers ?t x) = bf_reference (buffers s x)"
    "holds ?t x d k = holds s x d k" "dkey ?t = dkey s" for x d k by (simp_all add: bu holds_def dkey_def fr fun_eq_iff)
  have bod: "block_on_disk disk ?t = block_on_disk disk s" by (intro ext) (simp only: block_on_disk_def same fr)
  have D: "x = y" if "x \<in> ?B" "y \<in> ?B" "bf_data (buffers s x) = bf_data (buffers s y)" for x y
    using co that unfolding contents_ok_def by blast
  have pg: "page_data ?t (bf_data (buffers s x)) = (if x = b then c else page_data s (bf_data (buffers s x)))" if "x \<in> ?B" for x
    using D [OF that bB] by (auto simp: client_write_def)
  have bV: "bf_device (buffers s b) \<in> V" using ok b by (auto simp: cache_ok_def)
  have nz: "0 \<notin> V" using co by (simp add: contents_ok_def)
  have inv: "bf_device (buffers ?t a) \<in> V \<and> bf_block (buffers ?t a) < 2 ^ 29 \<and>
        (\<not> bf_dirty (buffers ?t a) \<longrightarrow> page_data ?t (bf_data (buffers ?t a)) =
           block_on_disk disk ?t (bf_device (buffers ?t a)) (bf_block (buffers ?t a)))
      \<or> bf_device (buffers ?t a) = 0 \<and> \<not> bf_dirty (buffers ?t a)" if a: "a \<in> ?B" for a
  proof (cases "a = b")
    case True
    have "bf_device (buffers s b) \<in> V \<and> bf_block (buffers s b) < 2 ^ 29" using co bB bV nz unfolding contents_ok_def by metis
    then show ?thesis using True by (simp add: bu)
  next
    case False
    then show ?thesis using co a pg [OF a] unfolding contents_ok_def same bod by (simp add: bu)
  qed
  have "contents_ok disk ?t V ?B"
    using co inv unfolding contents_ok_def same by blast
  then show "cache_ok disk ?t V F D" using lt ok unfolding cache_ok_def same by blast
  show "block_data disk ?t ?B d k x \<longleftrightarrow> (if holds s b d k then x = c else block_data disk s ?B d k x)"
  proof (cases "holds s b d k")
    case True
    have u: "a = b" if "a \<in> ?B" "holds s a d k" for a
      using co bB bV that True unfolding contents_ok_def holds_def by metis
    have e: "(\<exists>a\<in>?B. holds ?t a d k \<and> P a) \<longleftrightarrow> P b" for P using u bB True unfolding same by blast
    have e1: "\<exists>a\<in>?B. holds ?t a d k" using True bB unfolding same by blast
    show ?thesis unfolding block_data_def if_P [OF e1] e using True pg [OF bB] by (auto simp: same)
  next
    case False
    have "(\<exists>a\<in>?B. holds s a d k \<and> page_data ?t (bf_data (buffers s a)) = x) \<longleftrightarrow>
        (\<exists>a\<in>?B. holds s a d k \<and> page_data s (bf_data (buffers s a)) = x)" using pg False by fastforce
    then show ?thesis using False by (simp add: block_data_def same bod)
  qed
qed

section \<open>Sequences of operations\<close>

text \<open>The server at work: \<open>H\<close> are the buffers it holds, one entry per reference, and \<open>v\<close> the content it has
  been given or has written, by device and block.\<close>

inductive cache_run :: "'io ipc \<Rightarrow> u32 set \<Rightarrow> 'io fs_state \<Rightarrow> (u32 \<Rightarrow> u32 \<Rightarrow> u32 \<Rightarrow> u8) \<Rightarrow>
    'io fs_state \<Rightarrow> u32 list \<Rightarrow> (u32 \<Rightarrow> u32 \<Rightarrow> u32 \<Rightarrow> u8) \<Rightarrow> bool" for ipc V s0 v0 where
  start: "cache_run ipc V s0 v0 s0 [] v0"
| acquire: "cache_run ipc V s0 v0 s H v \<Longrightarrow> dev \<in> V \<Longrightarrow> blk < 2 ^ 29 \<Longrightarrow> length H < 0xFFFF \<Longrightarrow>
    buffer_get ipc dev blk s = Some (b, s') \<Longrightarrow> b \<noteq> 0 \<Longrightarrow> cache_run ipc V s0 v0 s' (b # H) v"
| refused: "cache_run ipc V s0 v0 s H v \<Longrightarrow> dev \<in> V \<Longrightarrow> blk < 2 ^ 29 \<Longrightarrow> length H < 0xFFFF \<Longrightarrow>
    buffer_get ipc dev blk s = Some (0, s') \<Longrightarrow> cache_run ipc V s0 v0 s' H v"
| modify: "cache_run ipc V s0 v0 s H v \<Longrightarrow> b \<in> set H \<Longrightarrow>
    cache_run ipc V s0 v0 (client_write b c s) H
      (v(bf_device (buffers s b) := (v (bf_device (buffers s b)))(bf_block (buffers s b) := c)))"
| release: "cache_run ipc V s0 v0 s H v \<Longrightarrow> b \<in> set H \<Longrightarrow> cache_run ipc V s0 v0 (buffer_put b s) (remove1 b H) v"

text \<open>The invariant of the runs: the cache is consistent, the reference of a buffer counts how often it is
  held, and the content of every block is the one last written.\<close>

definition run_inv :: "('io \<Rightarrow> disk) \<Rightarrow> u32 set \<Rightarrow> 'io fs_state \<Rightarrow> u32 list \<Rightarrow> (u32 \<Rightarrow> u32 \<Rightarrow> u32 \<Rightarrow> u8) \<Rightarrow>
    u32 list \<Rightarrow> (u32 \<Rightarrow> u32 list) \<Rightarrow> bool" where
  "run_inv disk V s H v F D \<longleftrightarrow> cache_ok disk s V F D \<and> set H = (\<Union>d. set (D d)) \<and> length H \<le> 0xFFFF \<and>
     (\<forall>b\<in>set H. bf_reference (buffers s b) = of_nat (count_list H b)) \<and>
     (\<forall>d\<in>V. \<forall>k. k < 2 ^ 29 \<longrightarrow> block_data disk s (cached F D) d k (v d k))"

lemma block_data_unique:
  assumes "contents_ok disk s V B" and "d \<in> V" and "block_data disk s B d k c" and "block_data disk s B d k c'"
  shows "c = c'"
proof (cases "\<exists>b\<in>B. holds s b d k")
  case True
  then obtain b where b: "b \<in> B" "holds s b d k" by blast
  have "a = b" if "a \<in> B" "holds s a d k" for a
    using assms(1,2) b that unfolding contents_ok_def holds_def by metis
  then have e: "(\<exists>a\<in>B. holds s a d k \<and> P a) \<longleftrightarrow> P b" for P using b by blast
  show ?thesis using assms(3,4) unfolding block_data_def if_P [OF True] e by simp
next
  case False
  then show ?thesis using assms(3,4) unfolding block_data_def by simp
qed

lemma run_inv_get:
  assumes inv: "run_inv disk V s H v F D" and w: "driver_works ipc disk" and dev: "dev \<in> V" "blk < 2 ^ 29"
    and H: "length H < 0xFFFF"
  shows "if F = [] \<and> (\<forall>b\<in>set (D dev). bf_block (buffers s b) \<noteq> blk) then buffer_get ipc dev blk s = Some (0, s)
    else \<exists>b s' F' D'. buffer_get ipc dev blk s = Some (b, s') \<and> b \<noteq> 0 \<and> page_data s' (bf_data (buffers s' b)) = v dev blk \<and>
      holds s' b dev blk \<and> run_inv disk V s' (b # H) v F' D' \<and> cached F' D' = cached F D \<and>
      (\<forall>x\<in>set H. core (buffers s' x) = core (buffers s x))"
proof -
  have ok: "cache_ok disk s V F D" and HD: "set H = (\<Union>d. set (D d))"
    and rf: "\<And>b. b \<in> set H \<Longrightarrow> bf_reference (buffers s b) = of_nat (count_list H b)"
    and bd: "\<And>d k. d \<in> V \<Longrightarrow> k < 2 ^ 29 \<Longrightarrow> block_data disk s (cached F D) d k (v d k)"
    using inv by (auto simp: run_inv_def)
  have cl: "count_list H b < 0xFFFF" for b using H count_le_length [of H b] by linarith
  show ?thesis
  proof (cases "F = [] \<and> (\<forall>b\<in>set (D dev). bf_block (buffers s b) \<noteq> blk)")
    case True
    then show ?thesis using buffer_get_refused [of disk s V D dev blk ipc] ok by simp
  next
    case False
    have "bf_reference (buffers s b) \<noteq> 0xFFFF" if "b \<in> set (D dev)" for b
    proof
      assume "bf_reference (buffers s b) = 0xFFFF"
      moreover have "b \<in> set H" using that HD by auto
      ultimately have "of_nat (count_list H b) = (0xFFFF :: u16)" using rf by simp
      then have "unat (of_nat (count_list H b) :: u16) = 0xFFFF" by simp
      with cl [of b] show False by (simp add: unat_of_nat)
    qed
    with buffer_get_spec [OF ok w dev] False obtain b s' F' D' where g: "buffer_get ipc dev blk s = Some (b, s')"
      "cache_ok disk s' V F' D'" "b \<in> set (D' dev)" "holds s' b dev blk"
      "block_data disk s (cached F D) dev blk (page_data s' (bf_data (buffers s' b)))"
      "\<forall>d\<in>V. \<forall>k. \<forall>c. k < 2 ^ 29 \<longrightarrow> block_data disk s' (cached F' D') d k c = block_data disk s (cached F D) d k c"
      "\<forall>x. bf_reference (buffers s' x) = bf_reference (buffers s x) + (if x = b then 1 else 0)"
      "\<forall>d. set (D' d) = (if d = dev then insert b (set (D d)) else set (D d))" "b \<in> cached F D"
      "cached F' D' = cached F D" "\<forall>x. x \<notin> set F \<longrightarrow> core (buffers s' x) = core (buffers s x)" by blast
    have keep: "\<forall>x\<in>set H. core (buffers s' x) = core (buffers s x)"
    proof
      fix x assume "x \<in> set H"
      then obtain d where "x \<in> set (D d)" using HD by auto
      then have "x \<notin> set F" using ok by (auto simp: cache_ok_def lists_def)
      then show "core (buffers s' x) = core (buffers s x)" using g(11) by blast
    qed
    have b0: "b \<noteq> 0"
    proof -
      have "lists s' F' D'" using g(2) by (simp add: cache_ok_def)
      then obtain m where "dlist (nxt s') (prv s') (dv_firstBuffer (devices s' dev)) m (D' dev)" unfolding lists_def by blast
      from dlist_nonzero [OF this] g(3) show ?thesis by auto
    qed
    have co: "contents_ok disk s V (cached F D)" using ok by (simp add: cache_ok_def)
    have pg: "page_data s' (bf_data (buffers s' b)) = v dev blk"
      by (rule block_data_unique [OF co dev(1) g(5) bd [OF dev]])
    have "set (D' d) \<subseteq> insert b (set (D d))" "set (D d) \<subseteq> set (D' d)" for d using g(8) by auto
    then have HD': "set (b # H) = (\<Union>d. set (D' d))" using HD g(3) by auto blast+
    have rf': "bf_reference (buffers s' x) = of_nat (count_list (b # H) x)" if x: "x \<in> set (b # H)" for x
    proof (cases "x \<in> set H")
      case True
      then show ?thesis using rf [OF True] g(7) by simp
    next
      case False
      then have "x = b" "count_list H b = 0" using x by (simp_all add: count_list_0_iff)
      moreover have "b \<in> set F" using False \<open>x = b\<close> HD g(9) by (auto simp: cached_def)
      moreover have "b \<in> set F \<Longrightarrow> bf_reference (buffers s b) = 0" using ok by (simp add: cache_ok_def)
      ultimately show ?thesis using g(7) by simp
    qed
    have "run_inv disk V s' (b # H) v F' D'"
      using g(2,6) HD' rf' bd H unfolding run_inv_def by simp
    then have "\<exists>b s' F' D'. buffer_get ipc dev blk s = Some (b, s') \<and> b \<noteq> 0 \<and> page_data s' (bf_data (buffers s' b)) = v dev blk \<and>
      holds s' b dev blk \<and> run_inv disk V s' (b # H) v F' D' \<and> cached F' D' = cached F D \<and>
      (\<forall>x\<in>set H. core (buffers s' x) = core (buffers s x))" using g(1,4,10) b0 pg keep by blast
    then show ?thesis using False by (simp only: if_False)
  qed
qed


lemma run_inv_put:
  assumes inv: "run_inv disk V s H v F D" and b: "b \<in> set H"
  shows "\<exists>F' D'. run_inv disk V (buffer_put b s) (remove1 b H) v F' D' \<and> cached F' D' = cached F D \<and> relinked s (buffer_put b s)"
proof -
  have ok: "cache_ok disk s V F D" and HD: "set H = (\<Union>d. set (D d))"
    and rf: "\<And>b. b \<in> set H \<Longrightarrow> bf_reference (buffers s b) = of_nat (count_list H b)"
    and bd: "\<And>d k. d \<in> V \<Longrightarrow> k < 2 ^ 29 \<Longrightarrow> block_data disk s (cached F D) d k (v d k)" and len: "length H \<le> 0xFFFF"
    using inv by (auto simp: run_inv_def)
  obtain dev where dev: "b \<in> set (D dev)" using b HD by auto
  from buffer_put_spec [OF ok dev] obtain F' D' where p: "cache_ok disk (buffer_put b s) V F' D'" "cached F' D' = cached F D"
    "relinked s (buffer_put b s)"
    "bf_reference (buffers s b) = 1 \<longrightarrow> F' = F @ [b] \<and> D' = D(dev := remove1 b (D dev))"
    "bf_reference (buffers s b) \<noteq> 1 \<longrightarrow> F' = F \<and> D' = D"
    "\<forall>x. bf_reference (buffers (buffer_put b s) x) = bf_reference (buffers s x) - (if x = b then 1 else 0)" by blast
  have c1: "bf_reference (buffers s b) = 1 \<longleftrightarrow> count_list H b = 1"
  proof -
    have "count_list H b \<le> 0xFFFF" using len count_le_length [of H b] by linarith
    then have "unat (of_nat (count_list H b) :: u16) = count_list H b" by (simp add: unat_of_nat)
    then show ?thesis unfolding rf [OF b] by (metis unat_1 of_nat_1)
  qed
  have l: "lists s F D" using ok by (simp add: cache_ok_def)
  have dis: "distinct (D d)" for d
  proof -
    obtain m where "dlist (nxt s) (prv s) (dv_firstBuffer (devices s d)) m (D d)" using l unfolding lists_def by blast
    then show ?thesis by (rule dlist_distinct)
  qed
  have cr: "count_list (remove1 b H) x = (if x = b then count_list H b - 1 else count_list H x)" for x
    by (induction H) auto
  have mem: "x \<in> set (remove1 b H) \<longleftrightarrow> x \<in> set H \<and> (x = b \<longrightarrow> count_list H b \<noteq> 1)" for x
  proof (cases "x = b")
    case True
    obtain n where n: "count_list H b = n" by simp
    have "n \<noteq> 0" using b n by (metis count_list_0_iff)
    moreover have "count_list (remove1 b H) b = n - 1" using cr n by simp
    moreover have "b \<in> set (remove1 b H) \<longleftrightarrow> count_list (remove1 b H) b \<noteq> 0" by (metis count_list_0_iff)
    ultimately have "b \<in> set (remove1 b H) \<longleftrightarrow> n \<noteq> 1" by (metis diff_is_0_eq le_eq_less_or_eq less_one)
    with True b n show ?thesis by simp
  next
    case False
    then show ?thesis by (simp add: in_set_remove1)
  qed
  have HD': "set (remove1 b H) = (\<Union>d. set (D' d))"
  proof (cases "count_list H b = 1")
    case True
    then have D': "D' = D(dev := remove1 b (D dev))" using c1 p(4) by blast
    have "x \<in> (\<Union>d. set (D' d)) \<longleftrightarrow> x \<noteq> b \<and> x \<in> (\<Union>d. set (D d))" for x
    proof -
      have "b \<notin> set (D d)" if "d \<noteq> dev" for d
      proof -
        have "set (D d) \<inter> set (D dev) = {}" using l that by (simp add: lists_def)
        with dev show ?thesis by blast
      qed
      then have "set (D' d) = set (D d) - {b}" for d
        using set_remove1_eq [OF dis [of dev], of b] by (cases "d = dev") (simp_all add: D')
      then show ?thesis by blast
    qed
    then show ?thesis using mem HD True by auto
  next
    case False
    then have "D' = D" using c1 p(5) by blast
    then show ?thesis using mem HD False by auto
  qed
  have "bf_reference (buffers (buffer_put b s) x) = of_nat (count_list (remove1 b H) x)" if x: "x \<in> set (remove1 b H)" for x
  proof -
    have "x \<in> set H" using x mem by blast
    moreover have "0 < count_list H b" using b by (simp add: count_list_0_iff flip: neq0_conv)
    ultimately show ?thesis using p(6) rf by (auto simp: cr of_nat_diff)
  qed
  moreover have "length (remove1 b H) \<le> 0xFFFF" using len length_remove1 [of b H] by (auto split: if_splits)
  ultimately have "run_inv disk V (buffer_put b s) (remove1 b H) v F' D'"
    using p(1,2) HD' bd relinked_contents(2) [OF p(3)] unfolding run_inv_def by simp
  then show ?thesis using p(2,3) by blast
qed

lemma run_inv_write:
  assumes inv: "run_inv disk V s H v F D" and b: "b \<in> set H"
  shows "run_inv disk V (client_write b c s) H
      (v(bf_device (buffers s b) := (v (bf_device (buffers s b)))(bf_block (buffers s b) := c))) F D"
proof -
  have ok: "cache_ok disk s V F D" and HD: "set H = (\<Union>d. set (D d))" using inv by (auto simp: run_inv_def)
  obtain dev where dev: "b \<in> set (D dev)" using b HD by auto
  have "bf_reference (buffers (client_write b c s) x) = bf_reference (buffers s x)" for x by (simp add: client_write_def)
  then show ?thesis using inv client_write_spec [OF ok dev] unfolding run_inv_def by (auto simp: holds_def)
qed

lemma cache_run_inv:
  assumes "cache_run ipc V s0 v0 s H v" and w: "driver_works ipc disk"
    and "run_inv disk V s0 [] v0 F0 D0"
  shows "\<exists>F D. run_inv disk V s H v F D"
  using assms(1)
proof (induction rule: cache_run.induct)
  case start
  then show ?case using assms(3) by blast
next
  case (acquire s H v dev blk s' b)
  then obtain F D where i: "run_inv disk V s H v F D" by blast
  from run_inv_get [OF i w acquire.hyps(2-4)] acquire.hyps(5,6) show ?case by (auto split: if_splits)
next
  case (refused s H v dev blk s')
  then obtain F D where i: "run_inv disk V s H v F D" by blast
  from run_inv_get [OF i w refused.hyps(2-4)] refused.hyps(5) i show ?case by (auto split: if_splits)
next
  case (modify s H v b c)
  then show ?case using run_inv_write by blast
next
  case (release s H v b)
  then show ?case using run_inv_put by blast
qed

section \<open>A concrete driver and cache\<close>

text \<open>A driver that remembers the message it is sent and serves it when the answer is fetched, one device,
  and two free buffers.\<close>

definition serve :: "pages \<Rightarrow> disk \<times> Message \<Rightarrow> int \<times> Message \<times> pages \<times> disk \<times> Message" where
  "serve p w = (let (d, m) = w; key = (ms_ThreadId m, ms_Arguments m 0); sector = ms_Arguments m 1; page = ms_Large m 0
     in if ms_Command m = Device_ReadSector then (0, m\<lparr>ms_Code := 0\<rparr>, p(page := d key sector), d, m)
        else (0, m\<lparr>ms_Code := 0\<rparr>, p, d(key := (d key)(sector := p page)), m))"

definition good_ipc :: "(disk \<times> Message) ipc" where
  "good_ipc = \<lparr>Api_Send = (\<lambda>m _ p w. (0, p, fst w, m)), Api_Receive = (\<lambda>_. serve)\<rparr>"

lemma good_ipc_works: "driver_works good_ipc fst"
  unfolding driver_works_def request_block_def good_ipc_def serve_def Let_def
  by (simp add: fun_eq_iff split: prod.split)

definition idle_message :: Message where
  "idle_message = \<lparr>ms_ThreadId = 0, ms_Time = 0, ms_Command = 0, ms_Arguments = (\<lambda>_. 0), ms_Code = 0, ms_Large = (\<lambda>_. 0)\<rparr>"

definition empty_buffer :: buffer_t where
  "empty_buffer = \<lparr>bf_next = 0, bf_prev = 0, bf_device = 0, bf_block = 0, bf_data = 0, bf_dirty = False, bf_reference = 0\<rparr>"

definition fs0 :: "(disk \<times> Message) fs_state" where
  "fs0 = \<lparr>buffers = (\<lambda>_. empty_buffer)(0x10 := empty_buffer\<lparr>bf_next := 0x20, bf_data := 0x1000\<rparr>,
       0x20 := empty_buffer\<lparr>bf_prev := 0x10, bf_data := 0x2000\<rparr>),
     devices = (\<lambda>_. \<lparr>dv_thread = 0, dv_devID = 0, dv_firstBuffer = 0, dv_devFSInfo = 0\<rparr>)(1 := \<lparr>dv_thread = 9, dv_devID = 0,
       dv_firstBuffer = 0, dv_devFSInfo = 0\<rparr>),
     freebuf_head = 0x10, freebuf_tail = 0x20, page_data = (\<lambda>_ _. 0), world = (\<lambda>_ sector _. ucast sector, idle_message)\<rparr>"

lemma fs0_inv: "run_inv fst {1} fs0 [] (\<lambda>d k. block_on_disk fst fs0 d k) [0x10, 0x20] (\<lambda>_. [])"
proof -
  have "lists fs0 [0x10, 0x20] (\<lambda>_. [])" by (simp add: lists_def dlist_def fs0_def empty_buffer_def)
  moreover have "contents_ok fst fs0 {1} {0x10, 0x20}" by (simp add: contents_ok_def fs0_def empty_buffer_def)
  moreover have c: "cached [0x10, 0x20] (\<lambda>_. []) = {0x10, 0x20}" by (simp add: cached_def)
  moreover have "block_data fst fs0 {0x10, 0x20} 1 k (block_on_disk fst fs0 1 k)" for k
    by (simp add: block_data_def holds_def fs0_def empty_buffer_def)
  ultimately show ?thesis unfolding run_inv_def cache_ok_def c by (simp add: fs0_def empty_buffer_def)
qed

section \<open>Properties\<close>

text \<open>(C27) Whatever the server has read, changed and released before, \<open>buffer_get\<close> answers with a buffer that
  holds the block asked for with the content last written to it, or, if it was never written, with that
  of the disk; it refuses only when no buffer is free and the block is not among those held. The driver
  is assumed to work and no buffer to be held 65535 times.\<close>
theorem cache_coherent:
  assumes "cache_run ipc V s0 v0 s H v" and "driver_works ipc disk" and "run_inv disk V s0 [] v0 F0 D0"
    and "dev \<in> V" and "blk < 2 ^ 29" and "length H < 0xFFFF"
  shows "\<exists>b s'. buffer_get ipc dev blk s = Some (b, s') \<and>
    (if b = 0 then s' = s \<and> freebuf_head s = 0 \<and> (\<forall>b\<in>set H. \<not> holds s b dev blk)
     else holds s' b dev blk \<and> page_data s' (bf_data (buffers s' b)) = v dev blk)"
proof -
  obtain F D where i: "run_inv disk V s H v F D" using cache_run_inv [OF assms(1-3)] by blast
  then have l: "lists s F D" and HD: "set H = (\<Union>d. set (D d))"
    and dv: "\<And>d b. b \<in> set (D d) \<Longrightarrow> bf_device (buffers s b) = d" by (auto simp: run_inv_def cache_ok_def)
  show ?thesis
  proof (cases "F = [] \<and> (\<forall>b\<in>set (D dev). bf_block (buffers s b) \<noteq> blk)")
    case True
    then have "buffer_get ipc dev blk s = Some (0, s)" using run_inv_get [OF i assms(2,4-6)] by simp
    moreover have "freebuf_head s = 0" using l True by (simp add: lists_def)
    moreover have "\<forall>b\<in>set H. \<not> holds s b dev blk" using True HD dv by (auto simp: holds_def)
    ultimately show ?thesis by (intro exI [of _ 0] exI [of _ s]) simp
  next
    case False
    then obtain b s' where "buffer_get ipc dev blk s = Some (b, s')" "b \<noteq> 0" "holds s' b dev blk"
      "page_data s' (bf_data (buffers s' b)) = v dev blk"
      using run_inv_get [OF i assms(2,4-6)] by (simp only: if_False) blast
    then show ?thesis by (intro exI [of _ b] exI [of _ s']) simp
  qed
qed

text \<open>On the two buffers: block 5 is read, changed and released, block 6 is read, and reading block 5 again gives
  what was written.\<close>
lemma cache_coherent_witness:
  "\<exists>b1 b2 b3 b4 s1 s2 s3 s4. buffer_get good_ipc 1 5 fs0 = Some (b1, s1) \<and> b1 \<noteq> 0 \<and>
     buffer_get good_ipc 1 6 (buffer_put b1 (client_write b1 (\<lambda>_. 77) s1)) = Some (b2, s2) \<and>
     (\<exists>b s'. buffer_get good_ipc 1 5 (buffer_put b2 s2) = Some (b, s') \<and> page_data s' (bf_data (buffers s' b)) = (\<lambda>_. 77))"
proof -
  let ?w = "\<lambda>d k. block_on_disk fst fs0 d k"
  have r0: "cache_run good_ipc {1} fs0 ?w fs0 [] ?w" by (rule cache_run.start)
  have k: "(1 :: u32) \<in> {1}" "(5 :: u32) < 2 ^ 29" "(6 :: u32) < 2 ^ 29" by simp_all
  obtain b1 s1 F1 D1 where 1: "buffer_get good_ipc 1 5 fs0 = Some (b1, s1)" "b1 \<noteq> 0" "holds s1 b1 1 5"
    "run_inv fst {1} s1 [b1] ?w F1 D1"
    using run_inv_get [OF fs0_inv good_ipc_works k(1,2)] by auto
  have r1: "cache_run good_ipc {1} fs0 ?w s1 [b1] ?w" by (rule cache_run.acquire [OF r0 k(1,2) _ 1(1,2)]) simp
  let ?v = "?w(1 := (?w 1)(5 := (\<lambda>_. 77)))"
  let ?s = "buffer_put b1 (client_write b1 (\<lambda>_. 77) s1)"
  have "cache_run good_ipc {1} fs0 ?w (client_write b1 (\<lambda>_. 77) s1) [b1] ?v"
    using cache_run.modify [OF r1, of b1 "\<lambda>_. 77"] 1(3) by (simp add: holds_def)
  from cache_run.release [OF this, of b1] have r2: "cache_run good_ipc {1} fs0 ?w ?s [] ?v" by simp
  obtain F2 D2 where i2: "run_inv fst {1} ?s [] ?v F2 D2" using cache_run_inv [OF r2 good_ipc_works fs0_inv] by blast
  have fr: "freebuf_head ?s \<noteq> 0"
  proof -
    have "freebuf_head (freebuf_put b x) \<noteq> 0" if "b \<noteq> 0" for b and x :: "(disk \<times> Message) fs_state"
      using that by (simp add: freebuf_put_def Let_def)
    moreover have "bf_reference (buffers (client_write b1 (\<lambda>_. 77) s1) b1) = 1"
      using 1(4) by (simp add: run_inv_def client_write_def)
    ultimately show ?thesis using 1(2) by (simp add: buffer_put_def Let_def)
  qed
  have F2: "F2 \<noteq> []" using i2 fr by (auto simp: run_inv_def cache_ok_def lists_def)
  from run_inv_get [OF i2 good_ipc_works k(1,3)] F2 obtain b2 s2 F3 D3 where
    2: "buffer_get good_ipc 1 6 ?s = Some (b2, s2)" "b2 \<noteq> 0" "run_inv fst {1} s2 [b2] ?v F3 D3" by auto
  have "cache_run good_ipc {1} fs0 ?w s2 [b2] ?v" by (rule cache_run.acquire [OF r2 k(1,3) _ 2(1,2)]) simp
  from cache_run.release [OF this, of b2] have r3: "cache_run good_ipc {1} fs0 ?w (buffer_put b2 s2) [] ?v" by simp
  have fr2: "freebuf_head (buffer_put b2 s2) \<noteq> 0"
  proof -
    have "freebuf_head (freebuf_put b x) \<noteq> 0" if "b \<noteq> 0" for b and x :: "(disk \<times> Message) fs_state"
      using that by (simp add: freebuf_put_def Let_def)
    moreover have "bf_reference (buffers s2 b2) = 1" using 2(3) by (simp add: run_inv_def)
    ultimately show ?thesis using 2(2) by (simp add: buffer_put_def Let_def)
  qed
  from cache_coherent [OF r3 good_ipc_works fs0_inv k(1,2)] fr2 obtain b s' where
    "buffer_get good_ipc 1 5 (buffer_put b2 s2) = Some (b, s')" "page_data s' (bf_data (buffers s' b)) = (\<lambda>_. 77)"
    by (auto split: if_splits)
  with 1(1,2) 2(1) show ?thesis by blast
qed


text \<open>A read that fails: the buffer goes back to the end of the list, with the device and the block of the request.\<close>

lemma failed_get:
  assumes l: "lists s (b # ys) D" and clean: "\<not> bf_dirty (buffers s b)"
    and miss: "\<forall>x\<in>cached (b # ys) D. \<not> holds s x dev blk" and D: "\<forall>x\<in>set (D dev). bf_block (buffers s x) \<noteq> blk"
    and fails: "\<forall>m t. fst (request_block ipc m t) < 0 \<and> page_data (snd (request_block ipc m t)) = page_data t"
  shows "\<exists>s4. buffer_get ipc dev blk s = Some (0, freebuf_put b s4) \<and> lists s4 ys D \<and> page_data s4 = page_data s \<and>
    bf_device (buffers s4 b) = dev \<and> bf_block (buffers s4 b) = blk \<and> (\<forall>x. bf_data (buffers s4 x) = bf_data (buffers s x)) \<and>
    (\<forall>x. x \<noteq> b \<longrightarrow> bf_block (buffers s4 x) = bf_block (buffers s x))"
proof -
  obtain m where m: "dlist (nxt s) (prv s) (dv_firstBuffer (devices s dev)) m (D dev)" using l unfolding lists_def by blast
  have dF: "dlist (nxt s) (prv s) (freebuf_head s) (freebuf_tail s) (b # ys)" using l by (simp add: lists_def)
  have b0: "b \<noteq> 0" using dlist_nonzero [OF dF] by auto
  have "find (\<lambda>b. bf_block (buffers s b) = blk) (D dev) = None" using D by (simp add: find_None_iff)
  then have f1: "find_in_device (buffers s) (dv_firstBuffer (devices s dev)) blk = Some 0"
    using find_in_device_find [OF conjunct1 [OF m [unfolded dlist_def]], of blk] by simp
  have "find (\<lambda>x. bf_device (buffers s x) = dev \<and> bf_block (buffers s x) = blk) (rev (b # ys)) = None"
    using miss by (auto simp: find_None_iff holds_def cached_def)
  then have f2: "find_released (buffers s) (devices s) (freebuf_tail s) dev blk = Some 0"
    using find_released_find [OF conjunct1 [OF dF [unfolded dlist_def]], of "devices s" dev blk] by simp
  define s1 where "s1 = snd (freebuf_get s)"
  note fg = freebuf_get_lists [OF l, folded s1_def]
  have fge: "freebuf_get s = (b, s1)" using fg(1) by (simp add: s1_def prod_eq_iff)
  define s3 where "s3 = upd_buf b (\<lambda>r. r\<lparr>bf_block := blk, bf_device := dev, bf_reference := 0, bf_dirty := False\<rparr>) s1"
  define s4 where "s4 = snd (readBlock ipc b s3)"
  have r: "fst (readBlock ipc b s3) < 0" "page_data s4 = page_data s1"
    using fails by (simp_all add: readBlock_def s4_def s3_def)
  have s4b: "buffers s4 = buffers s3" "devices s4 = devices s1" "freebuf_head s4 = freebuf_head s1" "freebuf_tail s4 = freebuf_tail s1"
    by (simp_all add: s4_def rw_frame s3_def)
  have "\<not> bf_dirty (buffers s1 b)" using clean relinked_core(4) [OF fg(3)] by simp
  moreover obtain q where "readBlock ipc b s3 = (q, s4)" "q < 0" using r(1) by (simp add: s4_def prod_eq_iff)
  ultimately have "buffer_get ipc dev blk s = Some (0, freebuf_put b s4)"
    using f1 f2 b0 by (simp add: buffer_get_def fge Let_def s3_def [symmetric])
  moreover have "nxt s4 = nxt s1" "prv s4 = prv s1" by (simp_all add: s4b s3_def fun_eq_iff)
  then have "lists s4 ys D" using fg(2) s4b by (simp add: lists_def)
  moreover have "page_data s4 = page_data s" using r(2) relinked_core(5) [OF fg(3)] by simp
  ultimately show ?thesis using relinked_core(2,3) [OF fg(3)] by (intro exI [of _ s4]) (simp add: s4b s3_def)
qed

text \<open>The buffer is found again, whatever it holds, and no request reaches the driver.\<close>

lemma stale_get:
  assumes l: "lists s ys D" and b: "b \<noteq> 0" "b \<notin> set ys" "\<And>d. b \<notin> set (D d)"
    and h: "bf_device (buffers s b) = dev" "bf_block (buffers s b) = blk" and D: "\<forall>x\<in>set (D dev). bf_block (buffers s x) \<noteq> blk"
  shows "relinked s (freebuf_put b s) \<and> (\<exists>u. relinked (freebuf_put b s) u \<and> (\<forall>ipc. buffer_get ipc dev blk (freebuf_put b s) = Some (b, u)))"
proof -
  let ?t = "freebuf_put b s" let ?u = "unlink_released b ?t" let ?w = "add_to_device dev b ?u"
  have lt: "lists ?t (ys @ [b]) D" by (rule freebuf_put_lists [OF l b])
  have tl: "freebuf_tail s \<noteq> b"
  proof -
    have "dlist (nxt s) (prv s) (freebuf_head s) (freebuf_tail s) ys" using l by (simp add: lists_def)
    from dlist_ends(2) [OF this] b(1,2) show ?thesis by (cases "ys = []") auto
  qed
  note pl = freebuf_put_links [OF tl]
  obtain n where n: "dlist (nxt ?t) (prv ?t) (dv_firstBuffer (devices ?t dev)) n (D dev)" using lt unfolding lists_def by blast
  have "find (\<lambda>b. bf_block (buffers ?t b) = blk) (D dev) = None" using D relinked_core(2) [OF pl(6)] by (auto simp: find_None_iff)
  then have h1: "find_in_device (buffers ?t) (dv_firstBuffer (devices ?t dev)) blk = Some 0"
    using find_in_device_find [OF conjunct1 [OF n [unfolded dlist_def]], of blk] by simp
  have h2: "find_released (buffers ?t) (devices ?t) (freebuf_tail ?t) dev blk = Some b"
    unfolding pl(4) using b(1) h relinked_core(1,2) [OF pl(6), of b] by (simp add: find_released.simps)
  have dF: "dlist (nxt ?t) (prv ?t) (freebuf_head ?t) (freebuf_tail ?t) (ys @ b # [])" using lt by (simp add: lists_def)
  have lu: "lists ?u ys D" using unlink_released_lists [of ?t ys b "[]" D] lt by simp
  have ne: "dv_firstBuffer (devices ?u dev) \<noteq> b"
  proof -
    obtain k where "dlist (nxt ?u) (prv ?u) (dv_firstBuffer (devices ?u dev)) k (D dev)" using lu unfolding lists_def by blast
    from dlist_ends(1) [OF this] b(1) b(3) [of dev] show ?thesis by (cases "D dev") auto
  qed
  have "relinked ?t ?w"
    by (rule relinked_trans [OF unlink_released_links(6) [OF dlist_self(1,2) [OF dF]] add_to_device_links(6) [OF ne]])
  moreover have "buffer_get ipc dev blk ?t = Some (b, ?w)" for ipc using h1 h2 b(1) by (simp add: buffer_get_def)
  ultimately show ?thesis using pl(6) by blast
qed

text \<open>(C28) A block whose reading failed is not forgotten: when the free buffer taken for a block that is not in the cache is
  unmodified and the driver fails, \<open>buffer_get\<close> reports the failure, but puts the
  buffer back into the free list with the device and the number of the block, and the next \<open>buffer_get\<close> finds it there and succeeds without
  asking the driver, with the data of whatever was in the buffer before.\<close>
theorem failed_read_served_later:
  assumes ok: "cache_ok disk s V (b # ys) D" and clean: "\<not> bf_dirty (buffers s b)"
    and miss: "\<forall>x\<in>cached (b # ys) D. \<not> holds s x dev blk" and D: "\<forall>x\<in>set (D dev). bf_block (buffers s x) \<noteq> blk"
    and fails: "\<forall>m t. fst (request_block ipc m t) < 0 \<and> page_data (snd (request_block ipc m t)) = page_data t"
  shows "\<exists>s1. buffer_get ipc dev blk s = Some (0, s1) \<and>
    (\<forall>ipc'. \<exists>s2. buffer_get ipc' dev blk s1 = Some (b, s2) \<and> world s2 = world s1 \<and>
       page_data s2 (bf_data (buffers s2 b)) = page_data s (bf_data (buffers s b)))"
proof -
  have l: "lists s (b # ys) D" using ok by (simp add: cache_ok_def)
  have dF: "dlist (nxt s) (prv s) (freebuf_head s) (freebuf_tail s) (b # ys)" using l by (simp add: lists_def)
  have b: "b \<noteq> 0" "b \<notin> set ys" "\<And>d. b \<notin> set (D d)" using dlist_nonzero [OF dF] l dlist_distinct [OF dF] by (auto simp: lists_def)
  obtain s4 where s4: "buffer_get ipc dev blk s = Some (0, freebuf_put b s4)" "lists s4 ys D" "page_data s4 = page_data s"
    "bf_device (buffers s4 b) = dev" "bf_block (buffers s4 b) = blk" "\<And>x. bf_data (buffers s4 x) = bf_data (buffers s x)"
    "\<And>x. x \<noteq> b \<Longrightarrow> bf_block (buffers s4 x) = bf_block (buffers s x)"
    using failed_get [OF l clean miss D fails] by blast
  have "\<forall>x\<in>set (D dev). bf_block (buffers s4 x) \<noteq> blk" using D s4(7) b(3) by metis
  from stale_get [OF s4(2) b s4(4,5) this] obtain u where u: "relinked s4 (freebuf_put b s4)" "relinked (freebuf_put b s4) u"
    "\<And>ipc'. buffer_get ipc' dev blk (freebuf_put b s4) = Some (b, u)" by blast
  show ?thesis using s4(1,3,6) u(3) relinked_core [OF u(1)] relinked_core [OF u(2)] by (intro exI [of _ "freebuf_put b s4"]) simp
qed

lemma failed_read_served_later_witness:
  "\<exists>s1 s2. buffer_get (good_ipc\<lparr>Api_Send := \<lambda>_ _ p w. (- 1, p, w)\<rparr>) 1 5 fs0 = Some (0, s1) \<and>
    buffer_get good_ipc 1 5 s1 = Some (0x10, s2) \<and> page_data s2 (bf_data (buffers s2 0x10)) = (\<lambda>_. 0)"
proof -
  have ok: "cache_ok fst fs0 {1} [0x10, 0x20] (\<lambda>_. [])" using fs0_inv by (simp add: run_inv_def)
  have a: "\<not> bf_dirty (buffers fs0 0x10)" "\<forall>x\<in>cached [0x10, 0x20] (\<lambda>_. []). \<not> holds fs0 x 1 5"
    "page_data fs0 (bf_data (buffers fs0 0x10)) = (\<lambda>_. 0)"
    by (simp_all add: fs0_def empty_buffer_def cached_def holds_def)
  have f: "\<forall>m (t :: (disk \<times> Message) fs_state). fst (request_block (good_ipc\<lparr>Api_Send := \<lambda>_ _ p w. (- 1, p, w)\<rparr>) m t) < 0 \<and>
      page_data (snd (request_block (good_ipc\<lparr>Api_Send := \<lambda>_ _ p w. (- 1, p, w)\<rparr>) m t)) = page_data t"
    by (simp add: request_block_def)
  from failed_read_served_later [OF ok a(1,2) _ f] a(3) show ?thesis by fastforce
qed

text \<open>\<open>buffer_sync\<close> writes the changed free buffers and takes them away from their devices, but leaves them
  marked as changed: the next use of such a buffer writes it again, through the null device.\<close>

lemma sync_loop_dirty:
  assumes "dseg (\<lambda>x. bf_next (buffers s x)) pv a p xs l 0" and "distinct xs"
  shows "\<exists>t. sync_loop ipc p s = Some t \<and> (\<forall>x\<in>set xs. bf_device (buffers t x) = 0 \<and> bf_dirty (buffers t x) = bf_dirty (buffers s x))
    \<and> (\<forall>x. x \<notin> set xs \<longrightarrow> buffers t x = buffers s x)"
  using assms
proof (induction xs arbitrary: a p s)
  case Nil
  then show ?case by (simp add: sync_loop.simps)
next
  case (Cons x xs)
  then have p: "p = x" "x \<noteq> 0" "dseg (nxt s) pv x (nxt s x) xs l 0" by auto
  define u where "u = (if bf_device (buffers s x) \<noteq> 0 then upd_buf x (\<lambda>r. r\<lparr>bf_device := 0\<rparr>)
      (if bf_dirty (buffers s x) then snd (writeBlock ipc x s) else s) else s)"
  have bu: "buffers u y = (if y = x then (buffers s x)\<lparr>bf_device := 0\<rparr> else buffers s y)" for y
    by (auto simp: u_def rw_frame)
  have "sync_loop ipc x s = sync_loop ipc (bf_next (buffers u x)) u" using p(2) by (subst sync_loop.simps) (simp add: u_def Let_def)
  then have e: "sync_loop ipc p s = sync_loop ipc (nxt s x) u" using p(1) by (simp add: bu)
  have "dseg (nxt u) pv x (nxt s x) xs l 0"
    using p(3) dseg_cong [of xs "nxt u" "nxt s" pv pv x "nxt s x" l 0] by (simp add: bu)
  from Cons.IH [OF this] Cons.prems(2) obtain t where t: "sync_loop ipc (nxt s x) u = Some t"
    "\<forall>y\<in>set xs. bf_device (buffers t y) = 0 \<and> bf_dirty (buffers t y) = bf_dirty (buffers u y)"
    "\<forall>y. y \<notin> set xs \<longrightarrow> buffers t y = buffers u y" by auto
  then show ?case using e Cons.prems(2) by (intro exI [of _ t]) (auto simp: bu)
qed


lemma sync_keeps_dirty:
  assumes "lists s F D"
  shows "\<exists>t. buffer_sync ipc s = Some t \<and>
    (\<forall>x\<in>set F. bf_device (buffers t x) = 0 \<and> bf_dirty (buffers t x) = bf_dirty (buffers s x))"
proof -
  have "dseg (nxt s) (prv s) 0 (freebuf_head s) F (freebuf_tail s) 0" "distinct F" using assms by (simp_all add: lists_def dlist_def)
  from sync_loop_dirty [OF this, of ipc] show ?thesis by (auto simp: buffer_sync_def)
qed

end
