(* ===== verification/Fat32.thy ===== *)
theory Fat32
  imports Buffer KTime UserString
begin

text \<open>
  The FAT32 file system of the file system server, \<open>apps/fs/fat32.c\<close> and \<open>unicode.c\<close>, on top of the buffer
  cache. Blocks and clusters are functions from offsets to bytes; words are stored with the low byte first.
  A C string is the list of its bytes before the closing zero. The file an operation works on is passed
  and returned as a record (a local copy, as \<open>memcpy\<close> makes, is then just another record); the directory it
  lies in is reached through its address in \<open>files\<close>. A division by zero and the use of the null pointer that
  a failed read of a cluster or of the first block gives end the server, so that the operation does not return. What fresh memory
  and uninitialised variables hold is a field of \<open>fat_env\<close>, and so are the drivers. Addresses of names in the
  server are below 2 GB. Apart from the one in \<open>fat32_init\<close>, which tests the result, requests for memory are
  granted; the code does not test them.
\<close>

section \<open>Bytes in memory\<close>

type_synonym bytes = "u32 \<Rightarrow> u8"

definition udiv :: "u32 \<Rightarrow> u32 \<Rightarrow> u32 option" where
  "udiv a b = (if b = 0 then None else Some (a div b))"

section \<open>Structures\<close>

record FAT32DEV =
  secPerFat :: u32
  bytPerSec :: u32
  secReserved :: u32
  rootClu :: u32
  fats :: u32
  secPerClu :: u32
  fatAddr :: u32
  rootAddr :: u32
  dataAddr :: u32
  bytPerClu :: u32
  newCluStart :: u32

record file_t =
  fl_name :: "u8 list"
  fl_device :: u32
  fl_dirty :: bool
  fl_mode :: u32
  fl_flag :: u32
  fl_attribute :: u32
  fl_dir :: u8
  fl_reference :: u16
  fl_size :: u32
  fl_pos :: u32
  fl_data :: u32
  fl_prev :: u32
  fl_next :: u32
  fl_parent :: u32
  fl_child :: u32
  fl_ctime :: u32
  fl_mtime :: u32

record 'io fat_state =
  cache :: "'io fs_state"
  fatdevs :: "u32 \<Rightarrow> FAT32DEV"
  files :: "u32 \<Rightarrow> file_t"

record 'io fat_env =
  fe_ipc :: "'io ipc"
  fe_fresh :: bytes
  fe_stack :: "nat \<Rightarrow> u8"
  fe_word :: u32

record FAT32_ENTRY =
  en_name :: "u8 list"
  en_extention :: "u8 list"
  en_attribute :: u8
  en_reserved :: u8
  en_ctime_tenth :: u8
  en_ctime :: u16
  en_cdate :: u16
  en_adate :: u16
  en_cluster_high :: u16
  en_mtime :: u16
  en_mdate :: u16
  en_cluster :: u16
  en_size :: u32

definition get_entry :: "bytes \<Rightarrow> u32 \<Rightarrow> FAT32_ENTRY" where
  "get_entry m p = \<lparr>en_name = load_list 8 m p, en_extention = load_list 3 m (p + 8), en_attribute = m (p + 11),
     en_reserved = m (p + 12), en_ctime_tenth = m (p + 13), en_ctime = ld16 m (p + 14), en_cdate = ld16 m (p + 16),
     en_adate = ld16 m (p + 18), en_cluster_high = ld16 m (p + 20), en_mtime = ld16 m (p + 22), en_mdate = ld16 m (p + 24),
     en_cluster = ld16 m (p + 26), en_size = ld32 m (p + 28)\<rparr>"

definition entry_bytes :: "FAT32_ENTRY \<Rightarrow> u8 list" where
  "entry_bytes e = en_name e @ en_extention e @ [en_attribute e, en_reserved e, en_ctime_tenth e] @ le16 (en_ctime e) @
     le16 (en_cdate e) @ le16 (en_adate e) @ le16 (en_cluster_high e) @ le16 (en_mtime e) @ le16 (en_mdate e) @
     le16 (en_cluster e) @ le32 (en_size e)"

definition put_entry :: "FAT32_ENTRY \<Rightarrow> u32 \<Rightarrow> bytes \<Rightarrow> bytes" where
  "put_entry e p m = store_list m p (entry_bytes e)"

text \<open>A long name entry: its number, its checksum and the 26 bytes of the three parts of the name.\<close>

record FAT32_NAME_ENTRY =
  ne_id :: u8
  ne_attr :: u8
  ne_checksum :: u8
  ne_name :: "u8 list"

definition get_name_entry :: "bytes \<Rightarrow> u32 \<Rightarrow> FAT32_NAME_ENTRY" where
  "get_name_entry m p = \<lparr>ne_id = m p, ne_attr = m (p + 11), ne_checksum = m (p + 13),
     ne_name = load_list 10 m (p + 1) @ load_list 12 m (p + 14) @ load_list 4 m (p + 28)\<rparr>"

definition put_name_entry :: "FAT32_NAME_ENTRY \<Rightarrow> u32 \<Rightarrow> bytes \<Rightarrow> bytes" where
  "put_name_entry e p m = store_list m p ([ne_id e] @ take 10 (ne_name e) @ [ne_attr e, 0, ne_checksum e] @
     take 12 (drop 10 (ne_name e)) @ [0, 0] @ drop 22 (ne_name e))"

definition IS_FAT32CLU_FREE :: "u32 \<Rightarrow> bool" where "IS_FAT32CLU_FREE c \<longleftrightarrow> c = 0"
definition IS_FAT32CLU_INUSE :: "u32 \<Rightarrow> bool" where "IS_FAT32CLU_INUSE c \<longleftrightarrow> 2 \<le> c \<and> c < 0x0FFFFFEF"
definition IS_FAT32CLU_END :: "u32 \<Rightarrow> bool" where "IS_FAT32CLU_END c \<longleftrightarrow> 0x0FFFFFF8 \<le> c"

abbreviation (input) RDONLY :: u8 where "RDONLY \<equiv> 1"
abbreviation (input) HIDDEN :: u8 where "HIDDEN \<equiv> 2"
abbreviation (input) SYSTEM :: u8 where "SYSTEM \<equiv> 4"
abbreviation (input) SUBDIR :: u8 where "SUBDIR \<equiv> 16"

abbreviation (input) FILE_ATTR_RDONLY :: u32 where "FILE_ATTR_RDONLY \<equiv> 1"
abbreviation (input) FILE_ATTR_DIR :: u32 where "FILE_ATTR_DIR \<equiv> 2"
abbreviation (input) FILE_ATTR_SYSTEM :: u32 where "FILE_ATTR_SYSTEM \<equiv> 4"
abbreviation (input) FILE_ATTR_HIDDEN :: u32 where "FILE_ATTR_HIDDEN \<equiv> 8"
abbreviation (input) FILE_FLAG_CREATE :: u32 where "FILE_FLAG_CREATE \<equiv> 1"
abbreviation (input) FILE_FLAG_DELETE :: u32 where "FILE_FLAG_DELETE \<equiv> 4"
abbreviation (input) FILE_NAME_LEN :: nat where "FILE_NAME_LEN \<equiv> 128"

definition FAT32_IS_LNAME :: "u8 \<Rightarrow> bool" where "FAT32_IS_LNAME a \<longleftrightarrow> a = 0xF"
definition FAT32_IS_SUBDIR :: "u8 \<Rightarrow> bool" where "FAT32_IS_SUBDIR a \<longleftrightarrow> a AND SUBDIR \<noteq> 0"
definition FAT32_IS_READONLY :: "u8 \<Rightarrow> bool" where "FAT32_IS_READONLY a \<longleftrightarrow> a AND RDONLY \<noteq> 0"
definition FAT32_IS_SYSTEM :: "u8 \<Rightarrow> bool" where "FAT32_IS_SYSTEM a \<longleftrightarrow> a AND SYSTEM \<noteq> 0"
definition FAT32_IS_HIDDEN :: "u8 \<Rightarrow> bool" where "FAT32_IS_HIDDEN a \<longleftrightarrow> a AND HIDDEN \<noteq> 0"

section \<open>Blocks\<close>

definition fat_of :: "file_t \<Rightarrow> 'io fat_state \<Rightarrow> FAT32DEV" where
  "fat_of f s = fatdevs s (dv_devFSInfo (devices (cache s) (fl_device f)))"

definition get_block :: "'io fat_env \<Rightarrow> u32 \<Rightarrow> u32 \<Rightarrow> 'io fat_state \<Rightarrow> (u32 \<times> 'io fat_state) option" where
  "get_block env dev block s =
     map_option (\<lambda>(b, c). (b, s\<lparr>cache := c\<rparr>)) (buffer_get (fe_ipc env) dev block (cache s))"

definition put_block :: "u32 \<Rightarrow> 'io fat_state \<Rightarrow> 'io fat_state" where
  "put_block b s = s\<lparr>cache := buffer_put b (cache s)\<rparr>"

definition buf_bytes :: "u32 \<Rightarrow> 'io fat_state \<Rightarrow> bytes" where
  "buf_bytes b s = page_data (cache s) (bf_data (buffers (cache s) b))"

definition set_bytes :: "u32 \<Rightarrow> bytes \<Rightarrow> 'io fat_state \<Rightarrow> 'io fat_state" where
  "set_bytes b m s = s\<lparr>cache := (cache s)\<lparr>page_data := (page_data (cache s))(bf_data (buffers (cache s) b) := m)\<rparr>\<rparr>"

definition mark_dirty :: "u32 \<Rightarrow> 'io fat_state \<Rightarrow> 'io fat_state" where
  "mark_dirty b s = s\<lparr>cache := upd_buf b (\<lambda>r. r\<lparr>bf_dirty := True\<rparr>) (cache s)\<rparr>"

section \<open>Mounting\<close>

definition fat32_init :: "'io fat_env \<Rightarrow> ('io \<Rightarrow> u32 \<times> 'io) \<Rightarrow> file_t \<Rightarrow> u32 \<Rightarrow> 'io fat_state \<Rightarrow>
    (int \<times> file_t \<times> 'io fat_state) option" where
  "fat32_init env malloc file dev s =
     (let (fat, w) = malloc (world (cache s)); s = s\<lparr>cache := (cache s)\<lparr>world := w\<rparr>\<rparr>
      in if fat = 0 then Some (- ERR_NOMEM, file, s)
         else do {
           (buf, s) \<leftarrow> get_block env dev 0 s;
           if buf = 0 then None else do {
           let boot = buf_bytes buf s;
           if boot 66 \<noteq> 0x28 \<and> boot 66 \<noteq> 0x29 then Some (- ERR_INVALID, file, put_block buf s)
           else
             let n = ucast (boot 16); spf = ld32 boot 36; bps = ucast (ld16 boot 11); res = ucast (ld16 boot 14);
                 spc = ucast (boot 13); root = ld32 boot 44;
                 s = put_block buf s;
                 s = s\<lparr>fatdevs := (fatdevs s)(fat := \<lparr>secPerFat = spf, bytPerSec = bps, secReserved = res, rootClu = root,
                   fats = n, secPerClu = spc, fatAddr = bps * res, rootAddr = 0, dataAddr = bps * res + n * spf * bps,
                   bytPerClu = bps * spc, newCluStart = 0\<rparr>)\<rparr>;
                 file = file\<lparr>fl_device := dev, fl_data := root, fl_attribute := FILE_ATTR_DIR, fl_dir := 1\<rparr>;
                 s = s\<lparr>cache := upd_dev dev (\<lambda>r. r\<lparr>dv_devFSInfo := fat\<rparr>) (cache s)\<rparr>
             in Some (0, file, s) } })"

section \<open>Times\<close>

text \<open>The result, and the time if it was set.\<close>

definition fat32_gettime :: "FAT32_ENTRY \<Rightarrow> u32 \<Rightarrow> nat \<Rightarrow> int \<times> u32" where
  "fat32_gettime ff t op =
     (let (d, c) = (if op = 0 then (en_cdate ff, en_ctime ff) else (en_mdate ff, en_mtime ff));
          year = uint (drop_bit 9 d) + 1980; mon = uint (drop_bit 5 d AND 0xF); mday = uint (d AND 0x1F);
          hour = uint (drop_bit 11 c); minute = uint (drop_bit 5 c AND 0x1F); sec = (2 * uint c) mod 32
      in if mon = 0 \<or> 12 < mon \<or> mday = 0 \<or> 31 < mday \<or> 23 < hour \<or> 59 < minute \<or> 59 < sec then (-1, t)
         else (0, mktime \<lparr>tm_sec = sec, tm_min = minute, tm_hour = hour, tm_mday = mday, tm_mon = mon, tm_year = year,
                 tm_wday = 0, tm_yday = 0, tm_isdst = 0\<rparr>))"

text \<open>The C result of \<open>gettime\<close> is never negative.\<close>

definition fat32_settime :: "FAT32_ENTRY \<Rightarrow> u32 \<Rightarrow> nat \<Rightarrow> (int \<times> FAT32_ENTRY) option" where
  "fat32_settime ff t op = do {
     m \<leftarrow> gettime t;
     if tm_year m < 1980 \<or> tm_mon m = 0 \<or> 12 < tm_mon m \<or> tm_mday m = 0 \<or> 31 < tm_mday m \<or>
        23 < tm_hour m \<or> 59 < tm_min m \<or> 59 < tm_sec m then Some (1, ff)
     else
       let d = word_of_int ((tm_year m - 1980) * 512 + tm_mon m * 32 + tm_mday m);
           c = word_of_int (tm_hour m * 2048 + tm_min m * 32 + tm_sec m div 2)
       in if op = 0 then Some (0, ff\<lparr>en_cdate := d, en_ctime := c\<rparr>)
          else
            let ff = ff\<lparr>en_mdate := d, en_mtime := c\<rparr>
            in Some (0, if op = 2 then ff\<lparr>en_cdate := en_mdate ff, en_ctime := en_mtime ff\<rparr> else ff) }"

section \<open>The chains of clusters\<close>

text \<open>The address of the entry of a cluster in the table, as a block and a position in it.\<close>

definition fat32_nextclu :: "'io fat_env \<Rightarrow> file_t \<Rightarrow> u32 \<Rightarrow> 'io fat_state \<Rightarrow> (u32 \<times> 'io fat_state) option" where
  "fat32_nextclu env f clu s =
     (let read_addr = fatAddr (fat_of f s) + clu * 4; block = read_addr div BLOCK_SIZE; pos = read_addr mod BLOCK_SIZE
      in do {
        (buf, s) \<leftarrow> get_block env (fl_device f) block s;
        if buf = 0 then Some (0xFFFFFFFF, s)
        else Some (ld32 (buf_bytes buf s) pos, put_block buf s) })"

text \<open>The loop over one block of the table: the first free entry, and the address and count where it stops.\<close>

primrec getclu_block :: "nat \<Rightarrow> bytes \<Rightarrow> u32 \<Rightarrow> u32 \<Rightarrow> u32 \<Rightarrow> (u32 \<times> u32) \<times> (u32 \<times> u32)" where
  "getclu_block 0 m pos read_addr count = ((0, 0), read_addr, count)"
| "getclu_block (Suc n) m pos read_addr count =
     (if IS_FAT32CLU_FREE (ld32 m pos) then ((1, pos), read_addr, count)
      else getclu_block n m (pos + 4) (read_addr + 4) (count - 4))"

partial_function (option) getclu_loop :: "'io fat_env \<Rightarrow> file_t \<Rightarrow> u32 \<Rightarrow> u32 \<Rightarrow> 'io fat_state \<Rightarrow> (u32 \<times> 'io fat_state) option" where
  "getclu_loop env f read_addr count s =
     (if count = 0 then Some (0, s)
      else
        let block = read_addr div BLOCK_SIZE; pos = read_addr mod BLOCK_SIZE
        in do {
          (buf, s) \<leftarrow> get_block env (fl_device f) block s;
          if buf = 0 then Some (0, s)
          else
            let r = getclu_block (unat (drop_bit 2 (BLOCK_SIZE - pos))) (buf_bytes buf s) pos read_addr count
            in if fst (fst r) = 1 then
                 let s = set_bytes buf (store_list (buf_bytes buf s) (snd (fst r)) (le32 0xFFFFFFFF)) s
                 in Some (drop_bit 2 (fst (snd r) - fatAddr (fat_of f s)), put_block buf (mark_dirty buf s))
               else getclu_loop env f (fst (snd r)) (snd (snd r)) (put_block buf s) })"

definition fat32_getclu :: "'io fat_env \<Rightarrow> file_t \<Rightarrow> 'io fat_state \<Rightarrow> (u32 \<times> 'io fat_state) option" where
  "fat32_getclu env f s =
     (let fat = fat_of f s in getclu_loop env f (fatAddr fat + newCluStart fat) (secPerFat fat * bytPerSec fat) s)"

partial_function (option) last_clu :: "'io fat_env \<Rightarrow> file_t \<Rightarrow> u32 \<Rightarrow> 'io fat_state \<Rightarrow> (u32 \<times> 'io fat_state) option" where
  "last_clu env f clu s = do {
     (tmp, s) \<leftarrow> fat32_nextclu env f clu s;
     if IS_FAT32CLU_INUSE tmp then last_clu env f tmp s else Some (clu, s) }"

definition fat32_allocclu :: "'io fat_env \<Rightarrow> file_t \<Rightarrow> 'io fat_state \<Rightarrow> (u32 \<times> 'io fat_state) option" where
  "fat32_allocclu env f s = do {
     (clu, s) \<leftarrow> last_clu env f (fl_data f) s;
     let read_addr = fatAddr (fat_of f s) + clu * 4;
     let block = read_addr div BLOCK_SIZE;
     let pos = read_addr mod BLOCK_SIZE;
     if BLOCK_SIZE - 4 < pos then Some (0, s)
     else do {
       (buf, s) \<leftarrow> get_block env (fl_device f) block s;
       if buf = 0 then Some (0, s)
       else do {
         s \<leftarrow> (if IS_FAT32CLU_END (ld32 (buf_bytes buf s) pos) then do {
                 (c, s) \<leftarrow> fat32_getclu env f s;
                 Some (set_bytes buf (store_list (buf_bytes buf s) pos (le32 c)) s) }
               else Some s);
         let s = mark_dirty buf s;
         let page = bf_data (buffers (cache s) buf);
         let s = put_block buf s;
         Some (ld32 (page_data (cache s) page) pos, s) } } }"

text \<open>The loop holds one buffer, \<open>buf\<close>, of block \<open>lastone\<close>.\<close>

partial_function (option) freeclu_loop :: "'io fat_env \<Rightarrow> file_t \<Rightarrow> u32 \<Rightarrow> u32 \<Rightarrow> u32 \<Rightarrow> 'io fat_state \<Rightarrow> (int \<times> 'io fat_state) option" where
  "freeclu_loop env f clu buf lastone s =
     (let read_addr = fatAddr (fat_of f s) + clu * 4; block = read_addr div BLOCK_SIZE; pos = read_addr mod BLOCK_SIZE
      in if 1020 < pos then Some (-1, s)
         else do {
           (buf, s) \<leftarrow> (if buf = 0 \<or> lastone \<noteq> block
                        then get_block env (fl_device f) block (if buf \<noteq> 0 then put_block buf s else s)
                        else Some (buf, s));
           if buf = 0 then Some (-1, s)
           else
             let m = buf_bytes buf s
             in if IS_FAT32CLU_INUSE (ld32 m pos)
                then freeclu_loop env f (ld32 m pos) buf block (set_bytes buf (store_list m pos (le32 0)) s)
                else Some (0, put_block buf s) })"

definition fat32_freeclu :: "'io fat_env \<Rightarrow> file_t \<Rightarrow> u32 \<Rightarrow> 'io fat_state \<Rightarrow> (int \<times> 'io fat_state) option" where
  "fat32_freeclu env f clu s = freeclu_loop env f clu 0 0 s"

primrec clu_loop :: "nat \<Rightarrow> 'io fat_env \<Rightarrow> file_t \<Rightarrow> u32 \<Rightarrow> 'io fat_state \<Rightarrow> (u32 \<times> 'io fat_state) option" where
  "clu_loop 0 env f clu s = Some (clu, s)"
| "clu_loop (Suc n) env f clu s = do {
     (clu, s) \<leftarrow> fat32_nextclu env f clu s;
     if \<not> IS_FAT32CLU_INUSE clu then Some (0, s) else clu_loop n env f clu s }"

definition fat32_get_clu_by_order :: "'io fat_env \<Rightarrow> file_t \<Rightarrow> u32 \<Rightarrow> int \<Rightarrow> 'io fat_state \<Rightarrow> (u32 \<times> 'io fat_state) option" where
  "fat32_get_clu_by_order env f clu no s = clu_loop (nat no) env f clu s"

section \<open>The data of a cluster\<close>

definition clu_block :: "FAT32DEV \<Rightarrow> u32 \<Rightarrow> u32 option" where
  "clu_block fat clu = do { d \<leftarrow> udiv (dataAddr fat) (bytPerSec fat); Some ((d + (clu - 2) * secPerClu fat) div 8) }"

definition clu_pos :: "FAT32DEV \<Rightarrow> u32 \<Rightarrow> u32" where
  "clu_pos fat clu = (dataAddr fat mod BLOCK_SIZE + (((clu - 2) mod BLOCK_SIZE) * bytPerClu fat) mod BLOCK_SIZE) mod BLOCK_SIZE"

definition copy_bytes :: "bytes \<Rightarrow> u32 \<Rightarrow> bytes \<Rightarrow> u32 \<Rightarrow> u32 \<Rightarrow> bytes" where
  "copy_bytes dest d src p n = (\<lambda>x. if x - d < n then src (p + (x - d)) else dest x)"

partial_function (option) writeclu_loop :: "'io fat_env \<Rightarrow> file_t \<Rightarrow> u32 \<Rightarrow> u32 \<Rightarrow> u32 \<Rightarrow> bytes \<Rightarrow> u32 \<Rightarrow> 'io fat_state \<Rightarrow>
    (int \<times> 'io fat_state) option" where
  "writeclu_loop env f block pos write_size data off s =
     (if write_size = 0 then Some (0, s)
      else
        let n = min (BLOCK_SIZE - pos) write_size
        in do {
          (buf, s) \<leftarrow> get_block env (fl_device f) block s;
          if buf = 0 then Some (-1, s)
          else
            let s = set_bytes buf (copy_bytes (buf_bytes buf s) pos data off n) s;
                s = put_block buf (mark_dirty buf s)
            in writeclu_loop env f (block + 1) 0 (write_size - n) data (off + n) s })"

definition fat32_writeclu :: "'io fat_env \<Rightarrow> file_t \<Rightarrow> u32 \<Rightarrow> bytes \<Rightarrow> 'io fat_state \<Rightarrow> (int \<times> 'io fat_state) option" where
  "fat32_writeclu env f clu data s = do {
     let fat = fat_of f s;
     block \<leftarrow> clu_block fat clu;
     writeclu_loop env f block (clu_pos fat clu) (bytPerClu fat) data 0 s }"

text \<open>\<open>None\<close> in the result is the null pointer.\<close>

partial_function (option) readclu_loop :: "'io fat_env \<Rightarrow> file_t \<Rightarrow> u32 \<Rightarrow> u32 \<Rightarrow> u32 \<Rightarrow> bytes \<Rightarrow> u32 \<Rightarrow> 'io fat_state \<Rightarrow>
    (bytes option \<times> 'io fat_state) option" where
  "readclu_loop env f block pos read_size data off s =
     (if read_size = 0 then Some (Some data, s)
      else
        let n = min (BLOCK_SIZE - pos) read_size
        in do {
          (buf, s) \<leftarrow> get_block env (fl_device f) block s;
          if buf = 0 then Some (None, s)
          else readclu_loop env f (block + 1) 0 (read_size - n) (copy_bytes data off (buf_bytes buf s) pos n) (off + n)
                 (put_block buf s) })"

definition fat32_readclu :: "'io fat_env \<Rightarrow> file_t \<Rightarrow> u32 \<Rightarrow> 'io fat_state \<Rightarrow> (bytes option \<times> 'io fat_state) option" where
  "fat32_readclu env f clu s = do {
     let fat = fat_of f s;
     block \<leftarrow> clu_block fat clu;
     readclu_loop env f block (clu_pos fat clu) (bytPerClu fat) (fe_fresh env) 0 s }"

text \<open>A cluster that the caller uses at once: the null pointer ends the server.\<close>

definition need_clu :: "'io fat_env \<Rightarrow> file_t \<Rightarrow> u32 \<Rightarrow> 'io fat_state \<Rightarrow> (bytes \<times> 'io fat_state) option" where
  "need_clu env f clu s = do { (d, s) \<leftarrow> fat32_readclu env f clu s; d \<leftarrow> d; Some (d, s) }"

end
