(* ===== verification/FatInv.thy ===== *)
theory FatInv
  imports BufferInv Fat32
begin

text \<open>
  The table of clusters of \<open>apps/fs/fat32.c\<close>. The locale \<open>block_store\<close> states what the file system relies on:
  buffers that are taken hold the content of a block, \<open>v\<close>, and changing a held buffer changes that block.
  The buffer cache under a driver that works interprets it. On top of it the operations on the table are
  functions of \<open>v\<close>: following, extending and allocating in the chains of clusters.
\<close>

section \<open>A store of blocks\<close>

type_synonym view = "u32 \<Rightarrow> u32 \<Rightarrow> bytes"

abbreviation (input) set_blk :: "view \<Rightarrow> u32 \<Rightarrow> u32 \<Rightarrow> bytes \<Rightarrow> view" where
  "set_blk v d k m \<equiv> v(d := (v d)(k := m))"

text \<open>\<open>ready s H v\<close>: in state \<open>s\<close> the buffers \<open>H\<close> are held and the blocks contain \<open>v\<close>; \<open>place s b\<close> is the block
  of a held buffer. At most \<open>room\<close> buffers can be held.\<close>

locale block_store =
  fixes ready :: "'s \<Rightarrow> u32 list \<Rightarrow> view \<Rightarrow> bool" and get :: "u32 \<Rightarrow> u32 \<Rightarrow> 's \<Rightarrow> (u32 \<times> 's) option"
    and put :: "u32 \<Rightarrow> 's \<Rightarrow> 's" and peek :: "u32 \<Rightarrow> 's \<Rightarrow> bytes" and change :: "u32 \<Rightarrow> bytes \<Rightarrow> 's \<Rightarrow> 's"
    and place :: "'s \<Rightarrow> u32 \<Rightarrow> u32 \<times> u32" and V :: "u32 set" and room :: nat
  assumes acquire: "ready s H v \<Longrightarrow> length H < room \<Longrightarrow> d \<in> V \<Longrightarrow> k < 2 ^ 29 \<Longrightarrow>
      \<exists>b s'. get d k s = Some (b, s') \<and> b \<noteq> 0 \<and> ready s' (b # H) v \<and> place s' b = (d, k) \<and> (\<forall>x\<in>set H. place s' x = place s x)"
    and release: "ready s H v \<Longrightarrow> b \<in> set H \<Longrightarrow> ready (put b s) (remove1 b H) v \<and> (\<forall>x. place (put b s) x = place s x)"
    and content: "ready s H v \<Longrightarrow> b \<in> set H \<Longrightarrow> peek b s = v (fst (place s b)) (snd (place s b))"
    and update: "ready s H v \<Longrightarrow> b \<in> set H \<Longrightarrow>
      ready (change b m s) H (set_blk v (fst (place s b)) (snd (place s b)) m) \<and> (\<forall>x. place (change b m s) x = place s x)"
begin

lemma hold:
  assumes "ready s H v" and "length H < room" and "d \<in> V" and "k < 2 ^ 29"
  shows "\<exists>b s'. get d k s = Some (b, s') \<and> b \<noteq> 0 \<and> peek b s' = v d k \<and> place s' b = (d, k) \<and>
    ready s' (b # H) v \<and> ready (put b s') H v \<and> (\<forall>x\<in>set H. place s' x = place s x \<and> place (put b s') x = place s x)"
proof -
  obtain b s' where g: "get d k s = Some (b, s')" "b \<noteq> 0" "ready s' (b # H) v" "place s' b = (d, k)"
    "\<forall>x\<in>set H. place s' x = place s x" using acquire [OF assms] by blast
  then show ?thesis using content [OF g(3), of b] release [OF g(3), of b] by simp
qed

lemma modify:
  assumes "ready s' (b # H) v" and "place s' b = (d, k)"
  shows "ready (change b m s') (b # H) (set_blk v d k m)" and "ready (put b (change b m s')) H (set_blk v d k m)"
    and "place (change b m s') x = place s' x" and "place (put b (change b m s')) x = place s' x"
proof -
  have u: "ready (change b m s') (b # H) (set_blk v d k m)" "\<forall>x. place (change b m s') x = place s' x"
    using update [OF assms(1), of b m] assms(2) by simp_all
  then show "ready (change b m s') (b # H) (set_blk v d k m)" "ready (put b (change b m s')) H (set_blk v d k m)"
    "place (change b m s') x = place s' x" "place (put b (change b m s')) x = place s' x"
    using release [OF u(1), of b] by simp_all
qed

end

section \<open>The buffer cache as a store of blocks\<close>

lemma add_to_device_fs: "dv_devFSInfo (devices (add_to_device dev b s) d) = dv_devFSInfo (devices s d)"
  by (simp add: add_to_device_def Let_def)

lemma unlink_released_devices: "devices (unlink_released b s) = devices s"
  by (simp add: unlink_released_def Let_def)

lemma freebuf_devices: "devices (snd (freebuf_get s)) = devices s" "devices (freebuf_put b s) = devices s"
  by (simp_all add: freebuf_get_def freebuf_put_def Let_def)

lemma buffer_get_fs:
  assumes "buffer_get ipc dev blk s = Some (b, s')"
  shows "dv_devFSInfo (devices s' d) = dv_devFSInfo (devices s d)"
proof -
  obtain c where c: "find_in_device (buffers s) (dv_firstBuffer (devices s dev)) blk = Some c"
    using assms by (auto simp: buffer_get_def split: Option.bind_splits)
  show ?thesis
  proof (cases "c = 0")
    case False
    with assms c show ?thesis by (auto simp: buffer_get_def)
  next
    case True
    with assms c obtain e where e: "find_released (buffers s) (devices s) (freebuf_tail s) dev blk = Some e"
      by (auto simp: buffer_get_def split: Option.bind_splits)
    show ?thesis
    proof (cases "e = 0")
      case False
      with assms c True e show ?thesis by (auto simp: buffer_get_def add_to_device_fs unlink_released_devices)
    next
      case True
      obtain x t where ft: "freebuf_get s = (x, t)" by (cases "freebuf_get s")
      then have dt: "devices t = devices s" using freebuf_devices(1) [of s] by simp
      define u where "u = upd_buf x (\<lambda>r. r\<lparr>bf_block := blk, bf_device := dev, bf_reference := 0, bf_dirty := False\<rparr>)
         (if bf_dirty (buffers t x) then snd (writeBlock ipc x t) else t)"
      have du: "devices u = devices s" by (simp add: u_def rw_frame dt)
      show ?thesis
        using assms c e True \<open>c = 0\<close> ft dt du rw_frame(2) [of ipc x u]
        by (auto simp: buffer_get_def u_def [symmetric] Let_def add_to_device_fs freebuf_devices split: if_splits prod.splits)
    qed
  qed
qed

lemma buffer_put_fs: "dv_devFSInfo (devices (buffer_put b s) d) = dv_devFSInfo (devices s d)"
  by (simp add: buffer_put_def CHAIN_DELETE_def freebuf_devices Let_def)

text \<open>The state of the file system between two accesses: the cache is consistent, has more than \<open>room\<close>
  buffers, and the parameters of the mounted file systems and the files are \<open>G\<close> and \<open>P\<close>.\<close>

definition fat_ready :: "('io \<Rightarrow> disk) \<Rightarrow> u32 set \<Rightarrow> 'io fat_env \<Rightarrow> nat \<Rightarrow> (u32 \<Rightarrow> FAT32DEV) \<Rightarrow> (u32 \<Rightarrow> file_t) \<Rightarrow>
    'io fat_state \<Rightarrow> u32 list \<Rightarrow> view \<Rightarrow> bool" where
  "fat_ready disk V env room G P s H v \<longleftrightarrow> driver_works (fe_ipc env) disk \<and> room < 0xFFFF \<and>
     (\<exists>F D. run_inv disk V (cache s) H v F D \<and> room \<le> card (cached F D)) \<and>
     (\<forall>d. fatdevs s (dv_devFSInfo (devices (cache s) d)) = G d) \<and> files s = P"

definition buf_place :: "'io fat_state \<Rightarrow> u32 \<Rightarrow> u32 \<times> u32" where
  "buf_place s b = (bf_device (buffers (cache s) b), bf_block (buffers (cache s) b))"

definition change_buf :: "u32 \<Rightarrow> bytes \<Rightarrow> 'io fat_state \<Rightarrow> 'io fat_state" where
  "change_buf b m s = mark_dirty b (set_bytes b m s)"

lemma fat_ready_fat: "fat_ready disk V env room G P s H v \<Longrightarrow> fat_of f s = G (fl_device f)"
  by (simp add: fat_ready_def fat_of_def)

lemma change_buf_cache: "change_buf b m s = s\<lparr>cache := client_write b m (cache s)\<rparr>"
  by (simp add: change_buf_def mark_dirty_def set_bytes_def client_write_def)

lemma run_inv_held:
  assumes inv: "run_inv disk V s H v F D" and b: "b \<in> set H"
  shows "bf_device (buffers s b) \<in> V" and "bf_block (buffers s b) < 2 ^ 29"
    and "page_data s (bf_data (buffers s b)) = v (bf_device (buffers s b)) (bf_block (buffers s b))"
proof -
  have ok: "cache_ok disk s V F D" and "set H = (\<Union>d. set (D d))"
    and bd: "\<And>d k. d \<in> V \<Longrightarrow> k < 2 ^ 29 \<Longrightarrow> block_data disk s (cached F D) d k (v d k)" using inv by (auto simp: run_inv_def)
  then obtain d where d: "b \<in> set (D d)" using b by auto
  then show V: "bf_device (buffers s b) \<in> V" using ok by (auto simp: cache_ok_def)
  have bc: "b \<in> cached F D" using d by (auto simp: cached_def)
  have co: "contents_ok disk s V (cached F D)" using ok by (simp add: cache_ok_def)
  then show k: "bf_block (buffers s b) < 2 ^ 29" using bc V unfolding contents_ok_def by metis
  have "block_data disk s (cached F D) (bf_device (buffers s b)) (bf_block (buffers s b)) (page_data s (bf_data (buffers s b)))"
    using co bc V unfolding block_data_def contents_ok_def by (auto simp: holds_def)
  then show "page_data s (bf_data (buffers s b)) = v (bf_device (buffers s b)) (bf_block (buffers s b))"
    using block_data_unique [OF co V _ bd [OF V k]] by blast
qed

lemma fat_readyI:
  assumes "fat_ready disk V env room G P s H v" and "run_inv disk V (cache t) H' v' F D" and "room \<le> card (cached F D)"
    and "\<And>d. dv_devFSInfo (devices (cache t) d) = dv_devFSInfo (devices (cache s) d)"
    and "fatdevs t = fatdevs s" and "files t = files s"
  shows "fat_ready disk V env room G P t H' v'"
  using assms unfolding fat_ready_def by auto

lemma fat_get:
  assumes r: "fat_ready disk V env room G P s H v" and H: "length H < room" and d: "d \<in> V" "k < 2 ^ 29"
  shows "\<exists>b s'. get_block env d k s = Some (b, s') \<and> b \<noteq> 0 \<and> fat_ready disk V env room G P s' (b # H) v \<and>
    buf_place s' b = (d, k) \<and> (\<forall>x\<in>set H. buf_place s' x = buf_place s x)"
proof -
  obtain F D where i: "run_inv disk V (cache s) H v F D" "room \<le> card (cached F D)" using r by (auto simp: fat_ready_def)
  have w: "driver_works (fe_ipc env) disk" and l: "length H < 0xFFFF" using r H by (auto simp: fat_ready_def)
  have "F \<noteq> []"
  proof
    assume "F = []"
    then have "cached F D = set H" using i(1) by (simp add: cached_def run_inv_def)
    then show False using i(2) H card_length [of H] by simp
  qed
  then obtain b c F' D' where g: "buffer_get (fe_ipc env) d k (cache s) = Some (b, c)" "b \<noteq> 0" "holds c b d k"
      "run_inv disk V c (b # H) v F' D'" "cached F' D' = cached F D" "\<forall>x\<in>set H. core (buffers c x) = core (buffers (cache s) x)"
    using run_inv_get [OF i(1) w d l] by (auto split: if_splits)
  let ?s = "s\<lparr>cache := c\<rparr>"
  have "get_block env d k s = Some (b, ?s)" using g(1) by (simp add: get_block_def)
  moreover have "fat_ready disk V env room G P ?s (b # H) v"
    by (rule fat_readyI [OF r, where F = F' and D = D']) (use g(4,5) i(2) buffer_get_fs [OF g(1)] in \<open>simp_all\<close>)
  moreover have "buf_place ?s b = (d, k)" using g(3) by (simp add: buf_place_def holds_def)
  moreover have "buf_place ?s x = buf_place s x" if "x \<in> set H" for x
    using g(6) that by (auto simp: buf_place_def core_def)
  ultimately show ?thesis using g(2) by blast
qed

lemma fat_put:
  assumes r: "fat_ready disk V env room G P s H v" and b: "b \<in> set H"
  shows "fat_ready disk V env room G P (put_block b s) (remove1 b H) v \<and> (\<forall>x. buf_place (put_block b s) x = buf_place s x)"
proof -
  obtain F D where i: "run_inv disk V (cache s) H v F D" "room \<le> card (cached F D)" using r by (auto simp: fat_ready_def)
  from run_inv_put [OF i(1) b] obtain F' D' where p: "run_inv disk V (buffer_put b (cache s)) (remove1 b H) v F' D'"
    "cached F' D' = cached F D" "relinked (cache s) (buffer_put b (cache s))" by blast
  have "fat_ready disk V env room G P (put_block b s) (remove1 b H) v"
    by (rule fat_readyI [OF r, where F = F' and D = D']) (use p(1,2) i(2) in \<open>simp_all add: put_block_def buffer_put_fs\<close>)
  then show ?thesis using relinked_core(1,2) [OF p(3)] by (simp add: put_block_def buf_place_def)
qed

lemma fat_peek:
  assumes "fat_ready disk V env room G P s H v" and "b \<in> set H"
  shows "buf_bytes b s = v (fst (buf_place s b)) (snd (buf_place s b))"
  using assms run_inv_held(3) by (auto simp: fat_ready_def buf_bytes_def buf_place_def)

lemma fat_change:
  assumes r: "fat_ready disk V env room G P s H v" and b: "b \<in> set H"
  shows "fat_ready disk V env room G P (change_buf b m s) H (set_blk v (fst (buf_place s b)) (snd (buf_place s b)) m) \<and>
    (\<forall>x. buf_place (change_buf b m s) x = buf_place s x)"
proof -
  obtain F D where i: "run_inv disk V (cache s) H v F D" "room \<le> card (cached F D)" using r by (auto simp: fat_ready_def)
  have "fat_ready disk V env room G P (change_buf b m s) H (set_blk v (fst (buf_place s b)) (snd (buf_place s b)) m)"
    by (rule fat_readyI [OF r _ i(2)])
      (use run_inv_write [OF i(1) b, of m] in \<open>simp_all add: change_buf_cache buf_place_def client_write_def\<close>)
  then show ?thesis by (simp add: change_buf_cache buf_place_def client_write_def)
qed

interpretation fs: block_store "fat_ready disk V env room G P" "get_block env" put_block buf_bytes change_buf buf_place V room
  by unfold_locales (fact fat_get fat_put fat_peek fat_change)+

end
