(* ===== verification/FatChain.thy ===== *)
theory FatChain
  imports FatInv
begin

text \<open>
  The operations on the table of clusters as functions on what the blocks contain: \<open>fat_entry\<close> reads an
  entry, \<open>fat_chain\<close> says that a list of clusters is a whole chain. The search for a free cluster is followed
  word by word; its end is only tested between two blocks.
\<close>

section \<open>Words in blocks\<close>

lemma ld32_other:
  assumes "3 < q - p" and "3 < p - q"
  shows "ld32 (store_list m p (le32 w)) q = ld32 m q"
proof -
  have "q + i \<noteq> p + j" if "i \<le> 3" "j \<le> 3" for i j :: u32
  proof
    assume "q + i = p + j"
    then have "q - p = j - i" by (simp add: algebra_simps eq_diff_eq)
    moreover have "p - q = i - j" using \<open>q + i = p + j\<close> by (metis add_diff_cancel_left' diff_add_cancel diff_diff_eq2)
    moreover have "j - i \<le> 3 \<or> i - j \<le> 3" using that by unat_arith
    ultimately show False using assms by auto
  qed
  note d = this [of 0 0] this [of 0 1] this [of 0 2] this [of 0 3] this [of 1 0] this [of 1 1] this [of 1 2] this [of 1 3]
    this [of 2 0] this [of 2 1] this [of 2 2] this [of 2 3] this [of 3 0] this [of 3 1] this [of 3 2] this [of 3 3]
  show ?thesis using d by (simp add: ld32_def le32_def add.assoc)
qed

definition tbl_word :: "(u32 \<Rightarrow> bytes) \<Rightarrow> u32 \<Rightarrow> u32" where
  "tbl_word v a = ld32 (v (a div BLOCK_SIZE)) (a mod BLOCK_SIZE)"

definition put_word :: "u32 \<Rightarrow> u32 \<Rightarrow> (u32 \<Rightarrow> bytes) \<Rightarrow> u32 \<Rightarrow> bytes" where
  "put_word a w v = v(a div BLOCK_SIZE := store_list (v (a div BLOCK_SIZE)) (a mod BLOCK_SIZE) (le32 w))"

lemma block_small: "a div BLOCK_SIZE < 2 ^ 29" for a :: u32
proof -
  have "unat a < 2 ^ 29 * 4096" using unat_32 [of a] by simp
  then have "unat a div 4096 < 2 ^ 29" by (rule less_mult_imp_div_less)
  then show ?thesis by (simp add: word_less_nat_alt unat_div)
qed

lemma aligned_far:
  fixes a b :: u32
  assumes "a mod 4 = 0" and "b mod 4 = 0" and "a \<noteq> b" and "a div 4096 = b div 4096"
  shows "3 < a mod 4096 - b mod 4096" and "3 < b mod 4096 - a mod 4096"
proof -
  have e: "unat x = 4096 * unat (x div 4096) + unat (x mod 4096)" for x :: u32
    by (simp add: unat_div unat_mod)
  have m: "unat (x mod 4096) mod 4 = 0" if "x mod 4 = 0" for x :: u32
  proof -
    have "unat (x mod 4) = 0" using that by simp
    then have "unat x mod 4 = 0" by (simp only: unat_mod) simp
    then show ?thesis by (simp add: unat_mod mod_mod_cancel)
  qed
  have l: "unat (x mod 4096) < 4096" for x :: u32 by (simp add: unat_mod)
  have ne: "unat (a mod 4096) \<noteq> unat (b mod 4096)" using e [of a] e [of b] assms(3,4) by (metis word_unat_eq_iff)
  have f: "3 < x - y" if "unat x mod 4 = 0" "unat y mod 4 = 0" "unat x \<noteq> unat y" "unat x < 4096" "unat y < 4096" for x y :: u32
  proof (cases "unat y \<le> unat x")
    case True
    then have "unat (x - y) = unat x - unat y" by (simp add: unat_sub word_le_nat_alt)
    moreover have "3 < unat x - unat y" using that True by presburger
    ultimately show ?thesis by (simp add: word_less_nat_alt)
  next
    case False
    then have "unat (x - y) = 2 ^ 32 + unat x - unat y" by (simp add: unat_sub_if' word_le_nat_alt)
    then show ?thesis using that by (simp add: word_less_nat_alt)
  qed
  show "3 < a mod 4096 - b mod 4096" "3 < b mod 4096 - a mod 4096"
    using f [OF m [OF assms(1)] m [OF assms(2)] ne l l] f [OF m [OF assms(2)] m [OF assms(1)] ne [symmetric] l l] by auto
qed

lemma tbl_word_put:
  assumes "a mod 4 = 0" and "b mod 4 = 0"
  shows "tbl_word (put_word a w v) b = (if b = a then w else tbl_word v b)"
proof (cases "b = a")
  case True
  then show ?thesis by (simp add: tbl_word_def put_word_def ld32_le32)
next
  case False
  then show ?thesis using aligned_far [OF assms(2,1) False] aligned_far [OF assms False [symmetric]]
    by (auto simp: tbl_word_def put_word_def ld32_other)
qed

text \<open>The table of a file system: the entry of a cluster.\<close>

definition fat_entry :: "FAT32DEV \<Rightarrow> (u32 \<Rightarrow> bytes) \<Rightarrow> u32 \<Rightarrow> u32" where
  "fat_entry g v c = tbl_word v (fatAddr g + c * 4)"

lemma nextclu_spec:
  assumes r: "fat_ready disk V env room G P s H v" and H: "length H < room" and d: "fl_device f \<in> V"
  shows "\<exists>s'. fat32_nextclu env f c s = Some (fat_entry (G (fl_device f)) (v (fl_device f)) c, s') \<and>
    fat_ready disk V env room G P s' H v"
proof -
  let ?a = "fatAddr (G (fl_device f)) + c * 4"
  obtain b s' where "get_block env (fl_device f) (?a div BLOCK_SIZE) s = Some (b, s')" "b \<noteq> 0"
    "buf_bytes b s' = v (fl_device f) (?a div BLOCK_SIZE)" "fat_ready disk V env room G P (put_block b s') H v"
    using fs.hold [OF r H d block_small] by blast
  then show ?thesis by (auto simp: fat32_nextclu_def fat_ready_fat [OF r] fat_entry_def tbl_word_def Let_def)
qed

text \<open>Following a chain, with 0 where it ends too early.\<close>

fun nth_clu :: "(u32 \<Rightarrow> u32) \<Rightarrow> nat \<Rightarrow> u32 \<Rightarrow> u32" where
  "nth_clu e 0 c = c"
| "nth_clu e (Suc n) c = (if IS_FAT32CLU_INUSE (e c) then nth_clu e n (e c) else 0)"

lemma clu_loop_spec:
  assumes "fat_ready disk V env room G P s H v" and "length H < room" and "fl_device f \<in> V"
  shows "\<exists>s'. clu_loop n env f c s = Some (nth_clu (fat_entry (G (fl_device f)) (v (fl_device f))) n c, s') \<and>
    fat_ready disk V env room G P s' H v"
  using assms
proof (induction n arbitrary: c s)
  case (Suc n)
  obtain s' where s': "fat32_nextclu env f c s = Some (fat_entry (G (fl_device f)) (v (fl_device f)) c, s')"
    "fat_ready disk V env room G P s' H v" using nextclu_spec [OF Suc.prems] by blast
  with Suc.IH [OF s'(2) Suc.prems(2,3)] show ?case by auto
qed auto

text \<open>A chain: its clusters in order, the last of which has no successor in use.\<close>

fun fat_chain :: "(u32 \<Rightarrow> u32) \<Rightarrow> u32 list \<Rightarrow> bool" where
  "fat_chain e [] \<longleftrightarrow> False"
| "fat_chain e [c] \<longleftrightarrow> \<not> IS_FAT32CLU_INUSE (e c)"
| "fat_chain e (c # d # cs) \<longleftrightarrow> e c = d \<and> IS_FAT32CLU_INUSE d \<and> fat_chain e (d # cs)"

lemma nth_clu_chain: "fat_chain e (c # cs) \<Longrightarrow> n \<le> length cs \<Longrightarrow> nth_clu e n c = (c # cs) ! n"
proof (induction cs arbitrary: c n)
  case (Cons d cs)
  then show ?case by (cases n) auto
qed simp

lemma last_clu_spec:
  assumes "fat_ready disk V env room G P s H v" and "length H < room" and "fl_device f \<in> V"
    and "fat_chain (fat_entry (G (fl_device f)) (v (fl_device f))) (c # cs)"
  shows "\<exists>s'. last_clu env f c s = Some (last (c # cs), s') \<and> fat_ready disk V env room G P s' H v"
  using assms
proof (induction cs arbitrary: c s)
  case Nil
  then obtain s' where s': "fat32_nextclu env f c s = Some (fat_entry (G (fl_device f)) (v (fl_device f)) c, s')"
    "fat_ready disk V env room G P s' H v" using nextclu_spec [OF Nil.prems(1-3)] by blast
  with Nil show ?case by (auto simp: last_clu.simps)
next
  case (Cons d cs)
  then have "fat_entry (G (fl_device f)) (v (fl_device f)) c = d" by simp
  with nextclu_spec [OF Cons.prems(1-3), of c] obtain s' where s': "fat32_nextclu env f c s = Some (d, s')"
    "fat_ready disk V env room G P s' H v" by blast
  with Cons.IH [OF s'(2) Cons.prems(2,3), of d] Cons.prems(4) show ?case by (auto simp: last_clu.simps [of env f c])
qed


section \<open>Looking for a free cluster\<close>

lemma getclu_block_none:
  "\<forall>i<k. ld32 m (pos + 4 * of_nat i) \<noteq> 0 \<Longrightarrow>
    getclu_block k m pos ra cnt = ((0, 0), ra + 4 * of_nat k, cnt - 4 * of_nat k)"
proof (induction k arbitrary: pos ra cnt)
  case (Suc k)
  have "ld32 m (pos + 4 + 4 * of_nat i) \<noteq> 0" if "i < k" for i
    using Suc.prems that by (auto dest!: spec [of _ "Suc i"] simp: algebra_simps)
  moreover have "ld32 m pos \<noteq> 0" using Suc.prems by (auto dest!: spec [of _ 0])
  ultimately show ?case using Suc.IH [of "pos + 4" "ra + 4" "cnt - 4"] by (simp add: IS_FAT32CLU_FREE_def algebra_simps)
qed simp

lemma getclu_block_found:
  "i < k \<Longrightarrow> \<forall>j<i. ld32 m (pos + 4 * of_nat j) \<noteq> 0 \<Longrightarrow> ld32 m (pos + 4 * of_nat i) = 0 \<Longrightarrow>
    getclu_block k m pos ra cnt = ((1, pos + 4 * of_nat i), ra + 4 * of_nat i, cnt - 4 * of_nat i)"
proof (induction k arbitrary: pos ra cnt i)
  case (Suc k)
  show ?case
  proof (cases i)
    case 0
    then show ?thesis using Suc.prems by (simp add: IS_FAT32CLU_FREE_def)
  next
    case (Suc j)
    have "ld32 m (pos + 4 + 4 * of_nat l) \<noteq> 0" if "l < j" for l
      using Suc.prems(2) Suc that by (auto dest!: spec [of _ "Suc l"] simp: algebra_simps)
    moreover have "ld32 m pos \<noteq> 0" using Suc.prems(2) Suc by (auto dest!: spec [of _ 0])
    ultimately show ?thesis using Suc.IH [of j "pos + 4" "ra + 4" "cnt - 4"] Suc.prems(1,3) Suc
      by (simp add: IS_FAT32CLU_FREE_def algebra_simps)
  qed
qed simp

text \<open>The words of a block from an address on.\<close>

definition words_left :: "u32 \<Rightarrow> nat" where
  "words_left a = (4096 - unat a mod 4096) div 4"

lemma mod4_nat: "a mod 4 = 0 \<longleftrightarrow> unat a mod 4 = 0" for a :: u32
proof -
  have "a mod 4 = 0 \<longleftrightarrow> unat (a mod 4) = 0" by (simp only: unat_eq_0)
  then show ?thesis by (simp add: unat_mod)
qed

lemma mod4096_nat: "a mod 4096 = 0 \<longleftrightarrow> unat a mod 4096 = 0" for a :: u32
proof -
  have "a mod 4096 = 0 \<longleftrightarrow> unat (a mod 4096) = 0" by (simp only: unat_eq_0)
  then show ?thesis by (simp add: unat_mod)
qed

lemma mod4096_mod4:
  fixes a :: u32
  assumes "a mod 4096 = 0"
  shows "a mod 4 = 0"
proof -
  have "unat a mod 4096 mod 4 = 0" using assms mod4096_nat by simp
  then have "unat a mod 4 = 0" by (simp add: mod_mod_cancel)
  then show ?thesis using mod4_nat by simp
qed

lemma block_words:
  fixes a :: u32
  assumes a: "a mod 4 = 0"
  shows "unat (drop_bit 2 (4096 - a mod 4096)) = words_left a" and "0 < words_left a"
    and "i < words_left a \<Longrightarrow> (a + 4 * of_nat i) div 4096 = a div 4096"
    and "i < words_left a \<Longrightarrow> (a + 4 * of_nat i) mod 4096 = a mod 4096 + 4 * of_nat i"
    and "(a + 4 * of_nat (words_left a)) mod 4096 = 0"
    and "i < words_left a \<Longrightarrow> unat (a mod 4096 + 4 * of_nat i) = unat a mod 4096 + 4 * i"
proof -
  have m: "unat a mod 4 = 0" using a mod4_nat by simp
  have ml: "unat (a mod 4096) < 4096" by (simp add: unat_mod)
  have "unat (4096 - a mod 4096) = 4096 - unat a mod 4096"
    using ml by (simp add: unat_sub word_le_nat_alt unat_mod)
  then show "unat (drop_bit 2 (4096 - a mod 4096)) = words_left a"
    by (simp add: words_left_def unat_drop_bit_eq drop_bit_eq_div unat_div)
  have m4: "unat a mod 4096 mod 4 = 0" using m by (simp add: mod_mod_cancel)
  then obtain q where q: "unat a mod 4096 = 4 * q" by auto
  then have q1: "q < 1024" using mod_less_divisor [of 4096 "unat a"] by linarith
  have wl: "words_left a = 1024 - q" using q q1 by (simp add: words_left_def)
  then show "0 < words_left a" using q1 by simp
  have w: "4 * words_left a = 4096 - 4 * q" using wl by simp
  have e: "unat a = unat a div 4096 * 4096 + unat a mod 4096" by simp
  have b: "unat a div 4096 < 2 ^ 20" using unat_32 [of a] by (simp add: less_mult_imp_div_less)
  have u4: "unat (4 * of_nat i :: u32) = 4 * i" if "i \<le> 1024" for i
    using that by (simp add: unat_word_ariths unat_of_nat)
  { assume i: "i < words_left a"
    then have i4: "unat a mod 4096 + 4 * i < 4096" and i1: "i \<le> 1024" using w q q1 wl by linarith+
    have "unat a div 4096 * 4096 \<le> 4294963200" using b by simp
    with e i4 have "unat a + 4 * i < 4294967296" by linarith
    then have u: "unat (a + 4 * of_nat i) = unat a + 4 * i" using u4 [OF i1] by (simp add: unat_word_ariths)
    have d: "(unat a + 4 * i) div 4096 = unat a div 4096" "(unat a + 4 * i) mod 4096 = unat a mod 4096 + 4 * i"
      using i4 by (simp_all add: div_add1_eq [of "unat a"] mod_add_eq [symmetric, of "unat a"])
    show "(a + 4 * of_nat i) div 4096 = a div 4096" by (rule word_unat_eq_iff [THEN iffD2]) (simp add: unat_div u d)
    show "unat (a mod 4096 + 4 * of_nat i) = unat a mod 4096 + 4 * i"
      using u4 [OF i1] i4 by (simp add: unat_word_ariths unat_mod)
    then show "(a + 4 * of_nat i) mod 4096 = a mod 4096 + 4 * of_nat i"
      by (intro word_unat_eq_iff [THEN iffD2]) (simp add: unat_mod u d) }
  have "words_left a \<le> 1024" using wl by simp
  then have "unat (a + 4 * of_nat (words_left a)) = (unat a + 4 * words_left a) mod 2 ^ 32"
    using u4 by (simp add: unat_word_ariths)
  then have "unat (a + 4 * of_nat (words_left a)) mod 4096 = (unat a + 4 * words_left a) mod 4096" by (simp add: mod_mod_cancel)
  also have "\<dots> = (4 * q + (4096 - 4 * q)) mod 4096" using w q by (metis mod_add_left_eq)
  also have "\<dots> = 0" using q1 by simp
  finally show "(a + 4 * of_nat (words_left a)) mod 4096 = 0"
    by (intro word_unat_eq_iff [THEN iffD2]) (simp add: unat_mod)
qed


lemma fat_of_set: "fat_of f (set_bytes b m s) = fat_of f s"
  by (simp add: fat_of_def set_bytes_def)

lemma getclu_scan:
  assumes "fat_ready disk V env room G P s H v" and "length H < room" and "fl_device f \<in> V"
    and "a mod 4 = 0" and "\<forall>i<n. tbl_word (v (fl_device f)) (a + 4 * of_nat i) \<noteq> 0"
    and "tbl_word (v (fl_device f)) (a + 4 * of_nat n) = 0"
    and "\<forall>i\<le>n. i = 0 \<or> (a + 4 * of_nat i) mod 4096 = 0 \<longrightarrow> count \<noteq> 4 * of_nat i"
  shows "\<exists>s'. getclu_loop env f a count s = Some (drop_bit 2 (a + 4 * of_nat n - fatAddr (G (fl_device f))), s') \<and>
    fat_ready disk V env room G P s' H (v(fl_device f := put_word (a + 4 * of_nat n) 0xFFFFFFFF (v (fl_device f)))) \<and>
    (\<forall>x\<in>set H. buf_place s' x = buf_place s x)"
  using assms
proof (induction n arbitrary: a count s rule: less_induct)
  case (less n)
  let ?d = "fl_device f" let ?k = "words_left a" let ?m = "v ?d (a div BLOCK_SIZE)"
  note bw = block_words [OF less.prems(4)]
  have c0: "count \<noteq> 0" using less.prems(7) by auto
  obtain b s' where g: "get_block env ?d (a div BLOCK_SIZE) s = Some (b, s')" "b \<noteq> 0" "buf_bytes b s' = ?m"
    "buf_place s' b = (?d, a div BLOCK_SIZE)" "fat_ready disk V env room G P s' (b # H) v"
    "fat_ready disk V env room G P (put_block b s') H v"
    "\<forall>x\<in>set H. buf_place s' x = buf_place s x \<and> buf_place (put_block b s') x = buf_place s x"
    using fs.hold [OF less.prems(1-3) block_small] by blast
  have word: "tbl_word (v ?d) (a + 4 * of_nat i) = ld32 ?m (a mod 4096 + 4 * of_nat i)" if "i < ?k" for i
    using bw(3,4) [OF that] by (simp add: tbl_word_def)
  note step = getclu_loop.simps [of env f a count s] c0 g(1,2,3) bw(1)
  show ?case
  proof (cases "n < ?k")
    case True
    have "getclu_block ?k ?m (a mod 4096) a count = ((1, a mod 4096 + 4 * of_nat n), a + 4 * of_nat n, count - 4 * of_nat n)"
      by (rule getclu_block_found) (use True less.prems(5,6) in \<open>auto simp: word [symmetric]\<close>)
    then have "getclu_loop env f a count s = Some (drop_bit 2 (a + 4 * of_nat n - fatAddr (G ?d)),
        put_block b (change_buf b (store_list ?m (a mod 4096 + 4 * of_nat n) (le32 0xFFFFFFFF)) s'))"
      by (simp add: step Let_def change_buf_def fat_of_set fat_ready_fat [OF g(5)])
    moreover note fs.modify(2,4) [OF g(5,4), of "store_list ?m (a mod 4096 + 4 * of_nat n) (le32 0xFFFFFFFF)"]
    moreover have "put_word (a + 4 * of_nat n) 0xFFFFFFFF (v ?d) =
        (v ?d)(a div BLOCK_SIZE := store_list ?m (a mod 4096 + 4 * of_nat n) (le32 0xFFFFFFFF))"
      using bw(3,4) [OF True] by (simp add: put_word_def)
    ultimately show ?thesis using g(7)
      by (intro exI [of _ "put_block b (change_buf b (store_list ?m (a mod 4096 + 4 * of_nat n) (le32 0xFFFFFFFF)) s')"] conjI ballI)
        (simp_all only:)
  next
    case False
    have nz: "\<forall>i<?k. ld32 ?m (a mod 4096 + 4 * of_nat i) \<noteq> 0"
    proof (intro allI impI)
      fix i assume i: "i < ?k"
      then have "tbl_word (v ?d) (a + 4 * of_nat i) \<noteq> 0" using less.prems(5) False by simp
      then show "ld32 ?m (a mod 4096 + 4 * of_nat i) \<noteq> 0" unfolding word [OF i] .
    qed
    note blk = getclu_block_none [OF nz, of a count]
    have l: "getclu_loop env f a count s = getclu_loop env f (a + 4 * of_nat ?k) (count - 4 * of_nat ?k) (put_block b s')"
      unfolding getclu_loop.simps [of env f a count s] using c0 g(2) by (simp only: g(1,3) bw(1) blk Let_def if_False Option.bind.simps prod.case fst_conv snd_conv zero_neq_one)
    have sh: "a + 4 * of_nat ?k + 4 * of_nat i = a + 4 * of_nat (?k + i)" for i by (simp add: algebra_simps)
    have "a + 4 * of_nat ?k + 4 * of_nat (n - ?k) = a + 4 * of_nat n" using False by (simp add: sh)
    moreover have "(a + 4 * of_nat ?k) mod 4 = 0"
      by (rule mod4096_mod4 [OF bw(5)])
    moreover have "\<forall>i\<le>n - ?k. i = 0 \<or> (a + 4 * of_nat ?k + 4 * of_nat i) mod 4096 = 0 \<longrightarrow> count - 4 * of_nat ?k \<noteq> 4 * of_nat i"
    proof (intro allI impI)
      fix i assume i: "i \<le> n - ?k" "i = 0 \<or> (a + 4 * of_nat ?k + 4 * of_nat i) mod 4096 = 0"
      have "(a + 4 * of_nat ?k + 4 * of_nat i) mod 4096 = 0" using i(2) bw(5) by (cases "i = 0") simp_all
      then have "(a + 4 * of_nat (?k + i)) mod 4096 = 0" unfolding sh .
      moreover have "?k + i \<le> n" using i(1) False by simp
      ultimately have "count \<noteq> 4 * of_nat (?k + i)" using less.prems(7) [rule_format, of "?k + i"] by (simp only: simp_thms)
      then have ne: "count \<noteq> 4 * of_nat ?k + 4 * of_nat i" by (simp only: of_nat_add distrib_left not_False_eq_True)
      show "count - 4 * of_nat ?k \<noteq> 4 * of_nat i"
      proof
        assume "count - 4 * of_nat ?k = 4 * of_nat i"
        then have "count = 4 * of_nat i + 4 * of_nat ?k" by (simp only: diff_eq_eq)
        with ne show False by (simp only: add.commute)
      qed
    qed
    moreover have "\<forall>i<n - ?k. tbl_word (v ?d) (a + 4 * of_nat ?k + 4 * of_nat i) \<noteq> 0"
      using less.prems(5) unfolding sh by (metis less_diff_conv add.commute)
    ultimately show ?thesis
      using less.IH [OF _ g(6) less.prems(2,3), of "n - ?k" "a + 4 * of_nat ?k" "count - 4 * of_nat ?k"] bw(2) False less.prems(6) l g(7)
      by (simp split: if_splits)
  qed
qed

lemma getclu_full:
  assumes "fat_ready disk V env room G P s H v" and "length H < room" and "fl_device f \<in> V"
    and "a mod 4 = 0" and "\<forall>i<n. tbl_word (v (fl_device f)) (a + 4 * of_nat i) \<noteq> 0" and "count = 4 * of_nat n"
    and "(a + 4 * of_nat n) mod 4096 = 0" and "n < 2 ^ 30"
  shows "\<exists>s'. getclu_loop env f a count s = Some (0, s') \<and> fat_ready disk V env room G P s' H v \<and>
    (\<forall>x\<in>set H. buf_place s' x = buf_place s x)"
  using assms
proof (induction n arbitrary: a count s rule: less_induct)
  case (less n)
  let ?d = "fl_device f" let ?k = "words_left a" let ?m = "v ?d (a div BLOCK_SIZE)"
  show ?case
  proof (cases "n = 0")
    case True
    then show ?thesis using less.prems(1,6) by (simp add: getclu_loop.simps)
  next
    case n: False
    note bw = block_words [OF less.prems(4)]
    have u4: "unat (4 * of_nat n :: u32) = 4 * n" using less.prems(8) by (simp add: unat_word_ariths unat_of_nat)
    then have c0: "count \<noteq> 0" using n less.prems(6) by (metis mult_is_0 unat_0 zero_neq_numeral)
    obtain b s' where g: "get_block env ?d (a div BLOCK_SIZE) s = Some (b, s')" "b \<noteq> 0" "buf_bytes b s' = ?m"
      "buf_place s' b = (?d, a div BLOCK_SIZE)" "fat_ready disk V env room G P s' (b # H) v"
      "fat_ready disk V env room G P (put_block b s') H v" "\<forall>x\<in>set H. buf_place (put_block b s') x = buf_place s x"
      using fs.hold [OF less.prems(1-3) block_small] by blast
    have k: "?k \<le> n"
    proof (rule ccontr)
      assume "\<not> ?k \<le> n"
      then have l: "n < ?k" by simp
      then have "a mod 4096 + 4 * of_nat n = 0" using bw(4) less.prems(7) by simp
      with bw(6) [OF l] n show False by simp
    qed
    have word: "tbl_word (v ?d) (a + 4 * of_nat i) = ld32 ?m (a mod 4096 + 4 * of_nat i)" if "i < ?k" for i
      using bw(3,4) [OF that] by (simp add: tbl_word_def)
    have nz: "\<forall>i<?k. ld32 ?m (a mod 4096 + 4 * of_nat i) \<noteq> 0"
    proof (intro allI impI)
      fix i assume i: "i < ?k"
      then have "tbl_word (v ?d) (a + 4 * of_nat i) \<noteq> 0" using less.prems(5) k by simp
      then show "ld32 ?m (a mod 4096 + 4 * of_nat i) \<noteq> 0" unfolding word [OF i] .
    qed
    note blk = getclu_block_none [OF nz, of a count]
    have l: "getclu_loop env f a count s = getclu_loop env f (a + 4 * of_nat ?k) (count - 4 * of_nat ?k) (put_block b s')"
      unfolding getclu_loop.simps [of env f a count s] using c0 g(2) by (simp only: g(1,3) bw(1) blk Let_def if_False Option.bind.simps prod.case fst_conv snd_conv zero_neq_one)
    have sh: "a + 4 * of_nat ?k + 4 * of_nat i = a + 4 * of_nat (?k + i)" for i by (simp add: algebra_simps)
    have e: "a + 4 * of_nat ?k + 4 * of_nat (n - ?k) = a + 4 * of_nat n" using k by (simp add: sh)
    note m4 = mod4096_mod4 [OF bw(5)]
    have nz: "\<forall>i<n - ?k. tbl_word (v ?d) (a + 4 * of_nat ?k + 4 * of_nat i) \<noteq> 0"
      using less.prems(5) unfolding sh by (metis less_diff_conv add.commute)
    have ct: "count - 4 * of_nat ?k = 4 * of_nat (n - ?k)"
      using k less.prems(6) by (simp add: of_nat_diff algebra_simps)
    show ?thesis
      using less.IH [OF _ g(6) less.prems(2,3) m4 nz ct] bw(2) n less.prems(7,8) l e g(7) by simp
  qed
qed


section \<open>Allocating\<close>

definition fat_set :: "FAT32DEV \<Rightarrow> u32 \<Rightarrow> u32 \<Rightarrow> (u32 \<Rightarrow> bytes) \<Rightarrow> u32 \<Rightarrow> bytes" where
  "fat_set g c w v = put_word (fatAddr g + c * 4) w v"

lemma cluster_small: "unat c < 2 ^ 30 \<Longrightarrow> unat (4 * c) = 4 * unat c" for c :: u32
  by (simp add: unat_word_ariths)

lemma cluster_addr:
  fixes b c :: u32
  assumes "b mod 4 = 0"
  shows "(b + c * 4) mod 4 = 0"
proof -
  have "unat b mod 4 = 0" using assms mod4_nat by simp
  moreover have "unat (b + c * 4) mod 4 = (unat b + unat c * 4) mod 4"
    by (simp add: unat_word_ariths mod_mod_cancel mod_simps)
  ultimately have "unat (b + c * 4) mod 4 = 0" by presburger
  then show ?thesis using mod4_nat by simp
qed

lemma cluster_inj:
  fixes c d :: u32
  assumes "unat c < 2 ^ 30" and "unat d < 2 ^ 30" and "b + c * 4 = b + d * 4"
  shows "c = d"
proof -
  have "unat (4 * c) = unat (4 * d)" using assms(3) by (simp add: mult.commute)
  then show ?thesis using cluster_small assms(1,2) by (simp add: word_unat_eq_iff)
qed

lemma fat_entry_set:
  assumes "fatAddr g mod 4 = 0" and "unat c < 2 ^ 30" and "unat d < 2 ^ 30"
  shows "fat_entry g (fat_set g c w v) d = (if d = c then w else fat_entry g v d)"
  using tbl_word_put [OF cluster_addr [OF assms(1)] cluster_addr [OF assms(1)]] cluster_inj [OF assms(3,2), of "fatAddr g"]
  by (auto simp: fat_entry_def fat_set_def)

lemma getclu_found:
  assumes r: "fat_ready disk V env room G P s H v" "length H < room" "fl_device f \<in> V"
    and g: "G (fl_device f) = g" "fatAddr g mod 4 = 0" "newCluStart g = 0" "unat (secPerFat g * bytPerSec g) = 4 * m" "n < 2 ^ 30"
    and m: "0 < m" "n < m \<or> (fatAddr g + 4 * of_nat m) mod 4096 \<noteq> 0"
    and used: "\<forall>i<n. fat_entry g (v (fl_device f)) (of_nat i) \<noteq> 0" and free: "fat_entry g (v (fl_device f)) (of_nat n) = 0"
  shows "\<exists>s'. fat32_getclu env f s = Some (of_nat n, s') \<and>
    fat_ready disk V env room G P s' H (v(fl_device f := fat_set g (of_nat n) 0xFFFFFFFF (v (fl_device f)))) \<and>
    (\<forall>x\<in>set H. buf_place s' x = buf_place s x)"
proof -
  have u4: "unat (4 * of_nat i :: u32) = 4 * i" if "i \<le> n" for i
    using that g(5) by (simp add: unat_word_ariths unat_of_nat)
  have "secPerFat g * bytPerSec g \<noteq> 4 * of_nat i" if "i \<le> n" "i = 0 \<or> (fatAddr g + 4 * of_nat i) mod 4096 = 0" for i
  proof
    assume "secPerFat g * bytPerSec g = 4 * of_nat i"
    then have "m = i" using u4 [OF that(1)] g(4) by simp
    with m that show False by auto
  qed
  moreover have "drop_bit 2 (4 * of_nat n :: u32) = of_nat n"
  proof -
    have "unat (drop_bit 2 (4 * of_nat n :: u32)) = unat (of_nat n :: u32)"
      using u4 [of n] g(5) by (simp add: drop_bit_eq_div unat_div unat_of_nat)
    then show ?thesis by (simp add: word_unat_eq_iff)
  qed
  ultimately show ?thesis
    using getclu_scan [OF r g(2) [folded g(1)], of n "secPerFat g * bytPerSec g"] used free g(1,3)
    by (simp add: fat32_getclu_def fat_ready_fat [OF r(1)] fat_entry_def fat_set_def mult.commute)
qed

lemma getclu_none:
  assumes r: "fat_ready disk V env room G P s H v" "length H < room" "fl_device f \<in> V"
    and g: "G (fl_device f) = g" "fatAddr g mod 4 = 0" "newCluStart g = 0" "secPerFat g * bytPerSec g = 4 * of_nat n" "n < 2 ^ 30"
    and full: "\<forall>i<n. fat_entry g (v (fl_device f)) (of_nat i) \<noteq> 0" and "(fatAddr g + 4 * of_nat n) mod 4096 = 0"
  shows "\<exists>s'. fat32_getclu env f s = Some (0, s') \<and> fat_ready disk V env room G P s' H v \<and>
    (\<forall>x\<in>set H. buf_place s' x = buf_place s x)"
  using getclu_full [OF r g(2) [folded g(1)], of n "secPerFat g * bytPerSec g"] full g assms(10)
  by (simp add: fat32_getclu_def fat_ready_fat [OF r(1)] fat_entry_def mult.commute)


lemma allocclu_with:
  assumes r: "fat_ready disk V env room G P s H v" "Suc (length H) < room" "fl_device f \<in> V"
    and g: "G (fl_device f) = g" "fatAddr g mod 4 = 0"
    and ch: "fat_chain (fat_entry g (v (fl_device f))) (fl_data f # cs)"
    and l: "last (fl_data f # cs) = l" "IS_FAT32CLU_END (fat_entry g (v (fl_device f)) l)"
    and new: "\<And>b s1. fat_ready disk V env room G P s1 (b # H) v \<Longrightarrow> \<exists>s2. fat32_getclu env f s1 = Some (n, s2) \<and>
        fat_ready disk V env room G P s2 (b # H) (v(fl_device f := w)) \<and> (\<forall>x\<in>set (b # H). buf_place s2 x = buf_place s1 x)"
  shows "\<exists>s'. fat32_allocclu env f s = Some (n, s') \<and>
    fat_ready disk V env room G P s' H (v(fl_device f := fat_set g l n w))"
proof -
  let ?d = "fl_device f" let ?a = "fatAddr g + l * 4" let ?k = "?a div BLOCK_SIZE" let ?pos = "?a mod BLOCK_SIZE"
  have H: "length H < room" using r(2) by simp
  obtain s0 where s0: "last_clu env f (fl_data f) s = Some (l, s0)" "fat_ready disk V env room G P s0 H v"
    using last_clu_spec [OF r(1) H r(3), of "fl_data f" cs] g(1) ch l(1) by auto
  have pos: "\<not> BLOCK_SIZE - 4 < ?pos"
  proof -
    have "unat ?a mod 4 = 0" using cluster_addr [OF g(2)] mod4_nat by blast
    then have "unat ?a mod 4096 mod 4 = 0" by (simp add: mod_mod_cancel)
    then obtain q where q: "unat ?a mod 4096 = 4 * q" by auto
    then have "4 * q < 4096" by (metis mod_less_divisor zero_less_numeral)
    then have "q \<le> 1023" by simp
    with q have "unat ?a mod 4096 \<le> 4092" by linarith
    then show ?thesis by (simp add: word_less_nat_alt unat_mod)
  qed
  obtain b s1 where b: "get_block env ?d ?k s0 = Some (b, s1)" "b \<noteq> 0" "buf_bytes b s1 = v ?d ?k"
      "buf_place s1 b = (?d, ?k)" "fat_ready disk V env room G P s1 (b # H) v"
    using fs.hold [OF s0(2) H r(3) block_small] by blast
  obtain s2 where s2: "fat32_getclu env f s1 = Some (n, s2)" "fat_ready disk V env room G P s2 (b # H) (v(?d := w))"
      "buf_place s2 b = (?d, ?k)" using new [OF b(5)] b(4) by auto
  have m: "buf_bytes b s2 = w ?k" using fs.content [OF s2(2), of b] s2(3) by simp
  let ?m = "store_list (w ?k) ?pos (le32 n)"
  define s3 where "s3 = change_buf b ?m s2"
  have "(v(?d := w))(?d := ((v(?d := w)) ?d)(?k := ?m)) = v(?d := fat_set g l n w)" by (simp add: fat_set_def put_word_def)
  then have ready: "fat_ready disk V env room G P (put_block b s3) H (v(?d := fat_set g l n w))"
    using fs.modify(2) [OF s2(2,3), of ?m] by (simp add: s3_def)
  have pd: "page_data (cache (put_block b t)) = page_data (cache t)" for t
    by (simp add: put_block_def buffer_put_def CHAIN_DELETE_def freebuf_put_def Let_def)
  have "page_data (cache s3) (bf_data (buffers (cache s3) b)) = ?m"
    by (simp add: s3_def change_buf_cache client_write_def)
  then have res: "ld32 (page_data (cache (put_block b s3)) (bf_data (buffers (cache s3) b))) ?pos = n"
    unfolding pd by (simp only: ld32_le32)
  have e: "IS_FAT32CLU_END (ld32 (buf_bytes b s1) ?pos)" using l(2) b(3) by (simp add: fat_entry_def tbl_word_def)
  have "fat32_allocclu env f s = Some (n, put_block b s3)"
    using res pos unfolding fat32_allocclu_def s3_def change_buf_def
    by (simp add: s0(1) fat_ready_fat [OF s0(2)] g(1) b(1,2) e s2(1) m Let_def)
  with ready show ?thesis by blast
qed


lemma end_not_inuse: "IS_FAT32CLU_END c \<Longrightarrow> \<not> IS_FAT32CLU_INUSE c"
  by (simp add: IS_FAT32CLU_END_def IS_FAT32CLU_INUSE_def word_less_nat_alt word_le_nat_alt)

lemma chain_extend:
  assumes "fat_chain e (c # cs)" and "last (c # cs) = l" and "IS_FAT32CLU_END (e l)" and "e n = 0" and "IS_FAT32CLU_INUSE n"
    and "\<And>x. x \<in> set (c # cs) \<Longrightarrow> x \<noteq> l \<Longrightarrow> x \<noteq> n \<Longrightarrow> e' x = e x" and "e' l = n" and "\<not> IS_FAT32CLU_INUSE (e' n)"
  shows "fat_chain e' (c # cs @ [n])"
  using assms
proof (induction cs arbitrary: c)
  case Nil
  then show ?case by simp
next
  case (Cons d cs)
  then have "c \<noteq> l" "c \<noteq> n" using end_not_inuse [of "e c"] by (auto simp: IS_FAT32CLU_INUSE_def)
  then have "e' c = d" using Cons.prems by simp
  with Cons show ?case by auto
qed

lemma fat_entry_set_other:
  assumes "fatAddr g mod 4 = 0" and "unat c < 2 ^ 30" and "unat n < 2 ^ 30" and "unat l < 2 ^ 30"
  shows "fat_entry g (fat_set g l a (fat_set g n b w)) c = (if c = l then a else if c = n then b else fat_entry g w c)"
  using assms by (simp add: fat_entry_set)

lemma chain_small: "fat_chain e (c # cs) \<Longrightarrow> unat c < 2 ^ 30 \<Longrightarrow> x \<in> set (c # cs) \<Longrightarrow> unat x < 2 ^ 30"
proof (induction cs arbitrary: c)
  case (Cons d cs)
  moreover have "IS_FAT32CLU_INUSE d \<Longrightarrow> unat d < 2 ^ 30" by (simp add: IS_FAT32CLU_INUSE_def word_less_nat_alt)
  ultimately show ?case by auto
qed simp

section \<open>Concrete states\<close>

text \<open>The cache with two buffers of \<open>BufferInv\<close>, over a disk with the given blocks on device 1.\<close>

definition wit_file :: file_t where
  "wit_file = \<lparr>fl_name = [], fl_device = 1, fl_dirty = False, fl_mode = 0, fl_flag = 0, fl_attribute = 0, fl_dir = 0,
     fl_reference = 1, fl_size = 0, fl_pos = 0, fl_data = 2, fl_prev = 0, fl_next = 0, fl_parent = 0, fl_child = 0, fl_ctime = 0, fl_mtime = 0\<rparr>"

definition wit_dev :: FAT32DEV where
  "wit_dev = \<lparr>secPerFat = 8, bytPerSec = 512, secReserved = 8, rootClu = 2, fats = 1, secPerClu = 1, fatAddr = 0x1000,
     rootAddr = 0, dataAddr = 0x2000, bytPerClu = 512, newCluStart = 0\<rparr>"

definition wit_env :: "(disk \<times> Message) fat_env" where
  "wit_env = \<lparr>fe_ipc = good_ipc, fe_fresh = (\<lambda>_. 0xCC), fe_stack = (\<lambda>_. 0), fe_word = 0\<rparr>"

definition wit_state :: "FAT32DEV \<Rightarrow> disk \<Rightarrow> (disk \<times> Message) fat_state" where
  "wit_state g disk = \<lparr>cache = fs0\<lparr>world := (disk, idle_message)\<rparr>, fatdevs = (\<lambda>_. g), files = (\<lambda>_. wit_file)\<rparr>"

definition wit_view :: "disk \<Rightarrow> view" where
  "wit_view disk d k = block_on_disk fst (fs0\<lparr>world := (disk, idle_message)\<rparr>) d k"

lemma wit_view_1: "wit_view disk 1 k = disk (9, 0) (BLOCK_TO_SECTOR k)"
  by (simp add: wit_view_def block_on_disk_def dkey_def fs0_def)

lemma wit_ready: "fat_ready fst {1} wit_env 2 (\<lambda>_. g) (\<lambda>_. wit_file) (wit_state g disk) [] (wit_view disk)"
proof -
  let ?s = "fs0\<lparr>world := (disk, idle_message)\<rparr>"
  have "lists ?s [0x10, 0x20] (\<lambda>_. [])" by (simp add: lists_def dlist_def fs0_def empty_buffer_def)
  moreover have "contents_ok fst ?s {1} {0x10, 0x20}" by (simp add: contents_ok_def fs0_def empty_buffer_def dkey_def)
  moreover have c: "cached [0x10, 0x20] (\<lambda>_. []) = {0x10, 0x20}" by (simp add: cached_def)
  moreover have "block_data fst ?s {0x10, 0x20} 1 k (wit_view disk 1 k)" for k
    by (simp add: block_data_def holds_def wit_view_def fs0_def empty_buffer_def)
  ultimately have "run_inv fst {1} ?s [] (wit_view disk) [0x10, 0x20] (\<lambda>_. [])"
    unfolding run_inv_def cache_ok_def c by (simp add: fs0_def empty_buffer_def)
  moreover have "2 \<le> card (cached [0x10, 0x20] (\<lambda>_. []))" unfolding c by simp
  ultimately show ?thesis using good_ipc_works unfolding fat_ready_def wit_state_def wit_env_def by auto
qed

text \<open>A disk all of whose blocks have the same content; the table begins with block 1.\<close>

lemma wit_view_same: "wit_view (\<lambda>_ _. t) 1 = (\<lambda>_. t)"
  by (simp add: wit_view_1 fun_eq_iff)

lemma wit_entry: "fatAddr g = 0x1000 \<Longrightarrow> i < 1024 \<Longrightarrow> fat_entry g (\<lambda>_. t) (of_nat i) = ld32 t (4 * of_nat i)"
  using block_words(4) [of "0x1000" i] by (simp add: fat_entry_def tbl_word_def words_left_def mult.commute)

lemma ld32_const: "t p = 0xFF \<Longrightarrow> t (p + 1) = 0xFF \<Longrightarrow> t (p + 2) = 0xFF \<Longrightarrow> t (p + 3) = 0xFF \<Longrightarrow> ld32 t p = 0xFFFFFFFF"
  by (simp add: ld32_def)

section \<open>Properties\<close>

text \<open>(C29) \<open>fat32_allocclu\<close> on a file whose chain ends properly takes the first free cluster of the table and
  appends it to the chain; no other entry of the table changes, and nothing on any other device.\<close>
theorem alloc_extends_chain:
  fixes f :: file_t and v :: view
  defines "d \<equiv> fl_device f"
  assumes r: "fat_ready disk V env room G P s H v" "Suc (length H) < room" "d \<in> V"
    and g: "G d = g" "fatAddr g mod 4 = 0" "newCluStart g = 0" "unat (secPerFat g * bytPerSec g) = 4 * m" "n < m"
    and used: "\<forall>i<n. fat_entry g (v d) (of_nat i) \<noteq> 0" and free: "fat_entry g (v d) (of_nat n) = 0"
    and n: "IS_FAT32CLU_INUSE (of_nat n)" "n < 2 ^ 30"
    and ch: "fat_chain (fat_entry g (v d)) (fl_data f # cs)" "unat (fl_data f) < 2 ^ 30"
    and e: "IS_FAT32CLU_END (fat_entry g (v d) (last (fl_data f # cs)))"
  shows "\<exists>s' w. fat32_allocclu env f s = Some (of_nat n, s') \<and> fat_ready disk V env room G P s' H (v(d := w)) \<and>
    fat_chain (fat_entry g w) (fl_data f # cs @ [of_nat n]) \<and>
    (\<forall>c. unat c < 2 ^ 30 \<and> c \<noteq> of_nat n \<and> c \<noteq> last (fl_data f # cs) \<longrightarrow> fat_entry g w c = fat_entry g (v d) c)"
proof -
  let ?l = "last (fl_data f # cs)" and ?n = "of_nat n :: u32"
  let ?w = "fat_set g ?n 0xFFFFFFFF (v d)"
  have un: "unat ?n < 2 ^ 30" using n(2) by (simp add: unat_of_nat)
  have ul: "unat ?l < 2 ^ 30" using chain_small [OF ch, of ?l] by simp
  have ln: "?l \<noteq> ?n" using e free by (auto simp: IS_FAT32CLU_END_def simp del: last.simps)
  note set = fat_entry_set_other [OF g(2) _ un ul, of _ ?n "0xFFFFFFFF" "v d"]
  have new: "\<exists>s2. fat32_getclu env f s1 = Some (?n, s2) \<and> fat_ready disk V env room G P s2 (b # H) (v(fl_device f := ?w)) \<and>
      (\<forall>x\<in>set (b # H). buf_place s2 x = buf_place s1 x)" if "fat_ready disk V env room G P s1 (b # H) v" for b s1
    using getclu_found [OF that _ r(3) [unfolded d_def] g(1-4) [unfolded d_def] n(2) _ _ used [unfolded d_def] free [unfolded d_def]] r(2) g(5)
    by (simp add: d_def)
  obtain s' where s': "fat32_allocclu env f s = Some (?n, s')"
      "fat_ready disk V env room G P s' H (v(d := fat_set g ?l ?n ?w))"
    using allocclu_with [OF r(1,2) r(3) [unfolded d_def] g(1,2) [unfolded d_def] ch(1) [unfolded d_def] refl e [unfolded d_def] new]
    unfolding d_def by blast
  have "fat_chain (fat_entry g (fat_set g ?l ?n ?w)) (fl_data f # cs @ [?n])"
    by (rule chain_extend [OF ch(1) refl e free n(1)])
      (use set chain_small [OF ch] ln un ul in \<open>simp_all add: IS_FAT32CLU_INUSE_def del: last.simps\<close>)
  moreover have "\<forall>c. unat c < 2 ^ 30 \<and> c \<noteq> ?n \<and> c \<noteq> ?l \<longrightarrow> fat_entry g (fat_set g ?l ?n ?w) c = fat_entry g (v d) c"
    using set by simp
  ultimately show ?thesis using s' by blast
qed

text \<open>A file of clusters 2 and 3 gets cluster 4.\<close>
lemma alloc_extends_chain_witness:
  "\<exists>s' w. fat32_allocclu wit_env wit_file (wit_state wit_dev (\<lambda>_ _ x. if x = 8 then 3 else if x < 9 \<or> 12 \<le> x \<and> x < 16 then 0xFF else 0)) =
     Some (4, s') \<and> fat_chain (fat_entry wit_dev w) [2, 3, 4]"
proof -
  let ?t = "\<lambda>x :: u32. if x = 8 then 3 else if x < 9 \<or> 12 \<le> x \<and> x < 16 then 0xFF else 0 :: u8"
  have e: "fat_entry wit_dev (\<lambda>_. ?t) 0 = 0xFFFFFFFF" "fat_entry wit_dev (\<lambda>_. ?t) 1 = 0xFFFFFFFF" "fat_entry wit_dev (\<lambda>_. ?t) 3 = 0xFFFFFFFF"
    "fat_entry wit_dev (\<lambda>_. ?t) 4 = 0"
    by (simp_all add: fat_entry_def tbl_word_def ld32_def wit_dev_def)
  have e2: "fat_entry wit_dev (\<lambda>_. ?t) 2 = 3"
    by (simp add: fat_entry_def tbl_word_def ld32_def wit_dev_def)
  have used: "\<forall>i<4. fat_entry wit_dev (\<lambda>_. ?t) (of_nat i) \<noteq> 0"
  proof (intro allI impI)
    fix i :: nat assume "i < 4"
    then have "i = 0 \<or> i = 1 \<or> i = 2 \<or> i = 3" by auto
    then show "fat_entry wit_dev (\<lambda>_. ?t) (of_nat i) \<noteq> 0" by (elim disjE) (simp_all add: e e2)
  qed
  have f: "fl_device wit_file = 1" "fl_data wit_file = 2" by (simp_all add: wit_file_def)
  show ?thesis
    using alloc_extends_chain [OF wit_ready [where g = wit_dev and disk = "\<lambda>_ _. ?t"], of wit_file wit_dev 1024 4 "[3]"]
      used e e2 unfolding f wit_view_same
    by (simp add: wit_dev_def IS_FAT32CLU_INUSE_def IS_FAT32CLU_END_def) blast
qed

text \<open>(C30) When no entry of a table that ends with a block is free, \<open>fat32_allocclu\<close> reports the failure, but it has written the 0 that \<open>fat32_getclu\<close>
  returned into the entry of the last cluster of the file: that cluster is marked as free, and a later
  allocation gives it to another file. (A full table that ends inside a block is left by the search instead, see below.)\<close>
theorem alloc_full_frees_last:
  fixes f :: file_t and v :: view
  defines "d \<equiv> fl_device f"
  assumes r: "fat_ready disk V env room G P s H v" "Suc (length H) < room" "d \<in> V"
    and g: "G d = g" "fatAddr g mod 4 = 0" "newCluStart g = 0" "secPerFat g * bytPerSec g = 4 * of_nat m" "m < 2 ^ 30"
    and full: "\<forall>i<m. fat_entry g (v d) (of_nat i) \<noteq> 0" "(fatAddr g + 4 * of_nat m) mod 4096 = 0"
    and ch: "fat_chain (fat_entry g (v d)) (fl_data f # cs)" "unat (fl_data f) < 2 ^ 30"
    and e: "IS_FAT32CLU_END (fat_entry g (v d) (last (fl_data f # cs)))"
  shows "\<exists>s' w. fat32_allocclu env f s = Some (0, s') \<and> fat_ready disk V env room G P s' H (v(d := w)) \<and>
    IS_FAT32CLU_FREE (fat_entry g w (last (fl_data f # cs)))"
proof -
  let ?l = "last (fl_data f # cs)"
  have ul: "unat ?l < 2 ^ 30" using chain_small [OF ch, of ?l] by simp
  have new: "\<exists>s2. fat32_getclu env f s1 = Some (0, s2) \<and> fat_ready disk V env room G P s2 (b # H) (v(fl_device f := v d)) \<and>
      (\<forall>x\<in>set (b # H). buf_place s2 x = buf_place s1 x)" if "fat_ready disk V env room G P s1 (b # H) v" for b s1
    using getclu_none [OF that _ r(3) [unfolded d_def] g [unfolded d_def] full [unfolded d_def]] r(2) by (simp add: d_def)
  obtain s' where s': "fat32_allocclu env f s = Some (0, s')"
      "fat_ready disk V env room G P s' H (v(d := fat_set g ?l 0 (v d)))"
    using allocclu_with [OF r(1,2) r(3) [unfolded d_def] g(1,2) [unfolded d_def] ch(1) [unfolded d_def] refl e [unfolded d_def] new]
    unfolding d_def by blast
  then show ?thesis using fat_entry_set [OF g(2) ul ul, of 0 "v d"] by (auto simp: IS_FAT32CLU_FREE_def)
qed

text \<open>A table without a free entry, and a file of one cluster.\<close>
lemma alloc_full_frees_last_witness:
  "\<exists>s' w. fat32_allocclu wit_env wit_file (wit_state wit_dev (\<lambda>_ _ _. 0xFF)) = Some (0, s') \<and> IS_FAT32CLU_FREE (fat_entry wit_dev w 2)"
proof -
  have e: "fat_entry wit_dev (\<lambda>_ _. 0xFF) c = 0xFFFFFFFF" for c
    by (simp add: fat_entry_def tbl_word_def ld32_def)
  have f: "fl_device wit_file = 1" "fl_data wit_file = 2" by (simp_all add: wit_file_def)
  show ?thesis
    using alloc_full_frees_last [OF wit_ready [where g = wit_dev and disk = "\<lambda>_ _ _. 0xFF"], of wit_file wit_dev 1024 "[]"]
      unfolding f wit_view_same e
    by (simp add: wit_dev_def IS_FAT32CLU_INUSE_def IS_FAT32CLU_END_def) blast
qed

text \<open>(C31) When the table does not end at the end of a block, \<open>fat32_getclu\<close> does not notice its end: with no
  free entry left it goes on behind the table and returns the number of the first zero word there, which
  belongs to no cluster, after overwriting that word.\<close>
theorem getclu_leaves_table:
  fixes f :: file_t and v :: view
  defines "d \<equiv> fl_device f"
  assumes r: "fat_ready disk V env room G P s H v" "length H < room" "d \<in> V"
    and g: "G d = g" "fatAddr g mod 4 = 0" "newCluStart g = 0" "unat (secPerFat g * bytPerSec g) = 4 * m" "0 < m"
    and part: "(fatAddr g + 4 * of_nat m) mod 4096 \<noteq> 0" and n: "m \<le> n" "n < 2 ^ 30"
    and used: "\<forall>i<n. fat_entry g (v d) (of_nat i) \<noteq> 0" and zero: "fat_entry g (v d) (of_nat n) = 0"
  shows "\<exists>s' w. fat32_getclu env f s = Some (of_nat n, s') \<and> fat_ready disk V env room G P s' H (v(d := w)) \<and>
    fat_entry g w (of_nat n) = 0xFFFFFFFF"
proof -
  have un: "unat (of_nat n :: u32) < 2 ^ 30" using n(2) by (simp add: unat_of_nat)
  show ?thesis
    using getclu_found [OF r(1,2) r(3) [unfolded d_def] g(1-4) [unfolded d_def] n(2) g(5) _ used [unfolded d_def] zero [unfolded d_def]]
      part fat_entry_set [OF g(2) un un, of "0xFFFFFFFF" "v d"] unfolding d_def by auto
qed

text \<open>A table of 512 full entries in the first half of a block: the cluster returned has number 512.\<close>
lemma getclu_leaves_table_witness:
  "\<exists>s'. fat32_getclu wit_env wit_file (wit_state (wit_dev\<lparr>secPerFat := 4\<rparr>) (\<lambda>_ _ x. if x < 2048 then 0xFF else 0)) = Some (512, s')"
proof -
  let ?t = "\<lambda>x :: u32. if x < 2048 then 0xFF else 0 :: u8" and ?g = "wit_dev\<lparr>secPerFat := 4\<rparr>"
  have g: "fatAddr ?g = 0x1000" by (simp add: wit_dev_def)
  have used: "\<forall>i<512. fat_entry ?g (\<lambda>_. ?t) (of_nat i) \<noteq> 0"
  proof (intro allI impI)
    fix i :: nat assume i: "i < 512"
    then have u: "unat (4 * of_nat i :: u32) = 4 * i" by (simp add: unat_word_ariths unat_of_nat)
    have "4 * of_nat i + j < (2048 :: u32)" if "j \<le> 3" for j :: u32
      using that u i by unat_arith
    from this [of 0] this [of 1] this [of 2] this [of 3] have "ld32 ?t (4 * of_nat i) = 0xFFFFFFFF" by (intro ld32_const) simp_all
    then show "fat_entry ?g (\<lambda>_. ?t) (of_nat i) \<noteq> 0" using wit_entry [OF g, of i ?t] i by simp
  qed
  have zero: "fat_entry ?g (\<lambda>_. ?t) (of_nat 512) = 0"
    using wit_entry [OF g, of 512 ?t] by (simp add: ld32_def)
  have f: "fl_device wit_file = 1" by (simp add: wit_file_def)
  show ?thesis
    using getclu_leaves_table [OF wit_ready [where g = ?g and disk = "\<lambda>_ _. ?t"], of wit_file ?g 512 512]
      used zero unfolding f wit_view_same
    by (simp add: wit_dev_def) blast
qed

end
