(* ===== verification/FatDir.thy ===== *)
theory FatDir
  imports Fat32
begin

text \<open>
  The names and the directories of \<open>apps/fs/fat32.c\<close>, and \<open>unicode.c\<close>: long and short names, the
  enumeration of the entries of a directory with the enumerators that open, remove and save, the
  construction of a short name, the creation of an entry. The loop over the entries of a cluster reads
  as many entries as a cluster has even when it starts in the middle; what lies behind the cluster is
  what fresh memory holds.
\<close>

section \<open>Names\<close>

text \<open>\<open>strnicmp\<close> on two strings: the comparison ends with the shorter one.\<close>

fun same_name :: "u8 list \<Rightarrow> u8 list \<Rightarrow> bool" where
  "same_name (x # xs) (y # ys) \<longleftrightarrow> tolower x = tolower y \<and> same_name xs ys"
| "same_name xs ys \<longleftrightarrow> True"

text \<open>The table of wide characters is never loaded.\<close>

definition unicodeDB :: "(int \<Rightarrow> u8) option" where
  "unicodeDB = None"

definition wide :: "(nat \<Rightarrow> u8) \<Rightarrow> nat \<Rightarrow> u16" where
  "wide a i = ucast (a (2 * i)) OR push_bit 8 (ucast (a (2 * i + 1)))"

primrec decode_loop :: "nat \<Rightarrow> (nat \<Rightarrow> u8) \<Rightarrow> nat \<Rightarrow> u8 list \<Rightarrow> nat \<Rightarrow> u8 list" where
  "decode_loop 0 a i out outputLen = out"
| "decode_loop (Suc n) a i out outputLen =
     (let w = wide a i
      in if w = 0 \<or> outputLen \<le> length out then out
         else if w < 0x80 then decode_loop n a (i + 1) (out @ [ucast w]) outputLen
         else case unicodeDB of
             None \<Rightarrow> decode_loop n a (i + 1) out outputLen
           | Some db \<Rightarrow> decode_loop n a (i + 1) (out @ [db ((uint w - 0x4E00) * 2), db ((uint w - 0x4E00) * 2 + 1)]) outputLen)"

definition unicode_decode :: "(nat \<Rightarrow> u8) \<Rightarrow> nat \<Rightarrow> nat \<Rightarrow> u8 list" where
  "unicode_decode input inputLen outputLen = decode_loop (inputLen - 1) input 0 [] outputLen"

fun encode_loop :: "nat \<Rightarrow> nat \<Rightarrow> u8 list \<Rightarrow> nat \<Rightarrow> u16 list \<Rightarrow> u16 list" where
  "encode_loop inputLen outputLen [] i out = out"
| "encode_loop inputLen outputLen (x # xs) i out =
     (if inputLen \<le> i \<or> outputLen \<le> length out + 1 then out
      else if x < 0x80 then encode_loop inputLen outputLen xs (i + 1) (out @ [ucast x AND 0x7F])
      else case unicodeDB of
          None \<Rightarrow> encode_loop inputLen outputLen xs (i + 1) out
        | Some _ \<Rightarrow> encode_loop inputLen outputLen xs (i + 1) (out @ [0x5F]))"

definition unicode_encode :: "u8 list \<Rightarrow> nat \<Rightarrow> nat \<Rightarrow> u16 list" where
  "unicode_encode input inputLen outputLen = encode_loop inputLen outputLen input 0 []"

text \<open>The parts of a long name are put together in \<open>fname\<close>, decoded and copied back.\<close>

primrec filename_loop :: "nat \<Rightarrow> nat \<Rightarrow> nat \<Rightarrow> (int \<Rightarrow> u8 list) \<Rightarrow> (nat \<Rightarrow> u8) \<Rightarrow> bool \<times> (nat \<Rightarrow> u8)" where
  "filename_loop 0 i name_len long_name fname = (True, fname)"
| "filename_loop (Suc n) i name_len long_name fname =
     (if name_len \<le> (i + 1) * 26 then (False, fname)
      else filename_loop n (i + 1) name_len long_name
        (\<lambda>k. if i * 26 \<le> k \<and> k < i * 26 + 26 then long_name (int i) ! (k - i * 26) else fname k))"

definition fat32_build_filename :: "'io fat_env \<Rightarrow> nat \<Rightarrow> (int \<Rightarrow> u8 list) \<Rightarrow> nat \<Rightarrow> int \<times> u8 list" where
  "fat32_build_filename env name_len long_name name_entries =
     (let (ok, fname) = filename_loop name_entries 0 name_len long_name ((fe_stack env)(0 := 0))
      in if ok then (0, take FILE_NAME_LEN (unicode_decode fname name_len FILE_NAME_LEN))
         else (-1, takeWhile (\<lambda>c. c \<noteq> 0) (map fname [0..<FILE_NAME_LEN])))"

definition name_part :: "u8 list \<Rightarrow> u8 list" where
  "name_part = takeWhile (\<lambda>c. c \<noteq> 0 \<and> c \<noteq> 0x20)"

definition fat32_get_shortname :: "FAT32_ENTRY \<Rightarrow> bool \<times> u8 list" where
  "fat32_get_shortname ff =
     (let name = name_part (take 8 (en_name ff)) @
            (if FAT32_IS_SUBDIR (en_attribute ff) then [] else 0x2E # name_part (take 3 (en_extention ff)))
      in (name \<noteq> [], name))"

definition toupper_char :: "u8 \<Rightarrow> u8" where
  "toupper_char t = (if 0x61 \<le> t \<and> t \<le> 0x7A then t - 0x61 + 0x41 else t)"

section \<open>Directories\<close>

record DIRENTRY =
  de_name :: "u8 list"
  de_size :: u32
  de_attr :: u32
  de_ctime :: u32
  de_mtime :: u32

text \<open>What an enumerator works on: the file it fills in, the name it looks for, and for \<open>readdir\<close> the
  space that remains and the entries written.\<close>

record enum_arg =
  ea_new :: file_t
  ea_name :: "u8 list"
  ea_remain :: u32
  ea_dir :: "DIRENTRY list"

record file_info =
  fi_name :: "u8 list"
  fi_size :: u32
  fi_ctime :: u32
  fi_mtime :: u32
  fi_attr :: u32
  fi_cluster :: u32

type_synonym enumerator = "file_info \<Rightarrow> enum_arg \<Rightarrow> int \<times> enum_arg"

record enum_vars =
  ev_checksum :: int
  ev_id :: int
  ev_entries :: nat
  ev_long :: "int \<Rightarrow> u8 list"

definition file_attr :: "u8 \<Rightarrow> u32" where
  "file_attr a = (if FAT32_IS_READONLY a then FILE_ATTR_RDONLY else 0) OR (if FAT32_IS_SYSTEM a then FILE_ATTR_SYSTEM else 0) OR
     (if FAT32_IS_SUBDIR a then FILE_ATTR_DIR else 0) OR (if FAT32_IS_HIDDEN a then FILE_ATTR_HIDDEN else 0)"

definition add_attr :: "u32 \<Rightarrow> u8 \<Rightarrow> u8" where
  "add_attr f a = a OR (if f AND FILE_ATTR_RDONLY \<noteq> 0 then RDONLY else 0) OR (if f AND FILE_ATTR_SYSTEM \<noteq> 0 then SYSTEM else 0) OR
     (if f AND FILE_ATTR_DIR \<noteq> 0 then SUBDIR else 0) OR (if f AND FILE_ATTR_HIDDEN \<noteq> 0 then HIDDEN else 0)"

definition long_entry :: "FAT32_NAME_ENTRY \<Rightarrow> enum_vars \<Rightarrow> enum_vars" where
  "long_entry lne v =
     (let store = (\<lambda>v. v\<lparr>ev_long := (ev_long v)(ev_id v := ne_name lne)\<rparr>)
      in if ne_id lne AND 0x40 \<noteq> 0 then
           let id = uint (ne_id lne AND 0x1F);
               v = v\<lparr>ev_checksum := uint (ne_checksum lne), ev_id := id, ev_entries := nat id\<rparr>
           in if FILE_NAME_LEN div 26 < ev_entries v then v\<lparr>ev_entries := 0\<rparr>
              else store (v\<lparr>ev_id := id - 1\<rparr>)
         else if uint (ne_checksum lne) \<noteq> ev_checksum v \<or> uint (ne_id lne) \<noteq> ev_id v then v
         else store (v\<lparr>ev_id := ev_id v - 1\<rparr>))"

definition entry_info :: "'io fat_env \<Rightarrow> enum_vars \<Rightarrow> FAT32_ENTRY \<Rightarrow> file_info" where
  "entry_info env v ff = \<lparr>fi_name = (if ev_entries v \<noteq> 0 then snd (fat32_build_filename env FILE_NAME_LEN (ev_long v) (ev_entries v))
        else snd (fat32_get_shortname ff)),
     fi_size = en_size ff, fi_ctime = snd (fat32_gettime ff (fe_word env) 0), fi_mtime = snd (fat32_gettime ff (fe_word env) 1),
     fi_attr = file_attr (en_attribute ff), fi_cluster = push_bit 16 (ucast (en_cluster_high ff)) OR ucast (en_cluster ff)\<rparr>"

primrec delete_entries :: "nat \<Rightarrow> u32 \<Rightarrow> bytes \<Rightarrow> bytes" where
  "delete_entries 0 off m = m(off := 0xE5)"
| "delete_entries (Suc n) off m = delete_entries n off (m(off - 32 * of_nat (Suc n) := 0xE5))"

definition save_entry :: "file_t \<Rightarrow> FAT32_ENTRY \<Rightarrow> FAT32_ENTRY option" where
  "save_entry f_new ff = do {
     let ff = ff\<lparr>en_size := fl_size f_new\<rparr>;
     (_, ff) \<leftarrow> fat32_settime ff (fl_ctime f_new) 0;
     (_, ff) \<leftarrow> fat32_settime ff (fl_mtime f_new) 1;
     Some (ff\<lparr>en_attribute := add_attr (fl_attribute f_new) (en_attribute ff),
              en_cluster_high := ucast (drop_bit 16 (fl_data f_new)), en_cluster := ucast (fl_data f_new)\<rparr>) }"

text \<open>One turn of the loop over the entries of a cluster; the result is \<open>None\<close> when the loop goes on.\<close>

definition enum_entry :: "'io fat_env \<Rightarrow> file_t \<Rightarrow> u32 \<Rightarrow> enumerator \<Rightarrow> bytes \<Rightarrow> u32 \<Rightarrow> enum_vars \<Rightarrow> enum_arg \<Rightarrow> 'io fat_state \<Rightarrow>
    (int option \<times> enum_vars \<times> enum_arg \<times> 'io fat_state) option" where
  "enum_entry env f clu enumf data off v a s =
     (let ff = get_entry data off
      in if data off = 0xE5 \<or> data off = 0 then Some (None, v, a, s)
         else if FAT32_IS_LNAME (en_attribute ff) then Some (None, long_entry (get_name_entry data off) v, a, s)
         else
           let (ret, a) = enumf (entry_info env v ff) a
           in if ret = 1 then Some (Some 1, v, a, s)
              else if ret = 2 then do {
                (_, s) \<leftarrow> fat32_writeclu env f clu (delete_entries (ev_entries v) off data) s;
                Some (Some 2, v, a, s) }
              else if ret = 3 then do {
                ff \<leftarrow> save_entry (ea_new a) ff;
                (_, s) \<leftarrow> fat32_writeclu env f clu (put_entry ff off data) s;
                Some (Some 3, v, a, s) }
              else Some (None, v\<lparr>ev_entries := 0\<rparr>, a, s))"

primrec enum_loop :: "nat \<Rightarrow> 'io fat_env \<Rightarrow> file_t \<Rightarrow> u32 \<Rightarrow> enumerator \<Rightarrow> bytes \<Rightarrow> u32 \<Rightarrow> enum_vars \<Rightarrow> enum_arg \<Rightarrow> 'io fat_state \<Rightarrow>
    (int option \<times> enum_vars \<times> enum_arg \<times> 'io fat_state) option" where
  "enum_loop 0 env f clu enumf data off v a s = Some (None, v, a, s)"
| "enum_loop (Suc n) env f clu enumf data off v a s = do {
     (r, v, a, s) \<leftarrow> enum_entry env f clu enumf data off v a s;
     if r \<noteq> None then Some (r, v, a, s) else enum_loop n env f clu enumf data (off + 32) v a s }"

partial_function (option) enum_clusters :: "'io fat_env \<Rightarrow> file_t \<Rightarrow> u32 \<Rightarrow> u32 \<Rightarrow> enumerator \<Rightarrow> enum_vars \<Rightarrow> enum_arg \<Rightarrow> 'io fat_state \<Rightarrow>
    (int \<times> enum_arg \<times> 'io fat_state) option" where
  "enum_clusters env f clu pos enumf v a s = do {
     (data, s) \<leftarrow> need_clu env f clu s;
     (r, v, a, s) \<leftarrow> enum_loop (unat (bytPerClu (fat_of f s) div 32)) env f clu enumf data pos v a s;
     if r \<noteq> None then Some (the r, a, s)
     else do {
       (clu, s) \<leftarrow> fat32_nextclu env f clu s;
       if IS_FAT32CLU_INUSE clu then enum_clusters env f clu 0 enumf v a s else Some (-1, a, s) } }"

definition fat32_enum_ent :: "'io fat_env \<Rightarrow> file_t \<Rightarrow> enumerator \<Rightarrow> enum_arg \<Rightarrow> 'io fat_state \<Rightarrow> (int \<times> enum_arg \<times> 'io fat_state) option" where
  "fat32_enum_ent env f enumf a s = do {
     no \<leftarrow> udiv (fl_pos f) (bytPerClu (fat_of f s));
     let pos = fl_pos f mod bytPerClu (fat_of f s);
     (clu, s) \<leftarrow> fat32_get_clu_by_order env f (fl_data f) (sint no) s;
     enum_clusters env f clu pos enumf \<lparr>ev_checksum = sint (fe_word env), ev_id = sint (fe_word env), ev_entries = 0,
       ev_long = (\<lambda>_. map (fe_stack env) [0..<26])\<rparr> a s }"

definition file_arg :: "file_t \<Rightarrow> u8 list \<Rightarrow> enum_arg" where
  "file_arg f name = \<lparr>ea_new = f, ea_name = name, ea_remain = 0, ea_dir = []\<rparr>"

text \<open>The directory of a file, enumerated from its first entry.\<close>

definition rewind_parent :: "file_t \<Rightarrow> 'io fat_state \<Rightarrow> 'io fat_state" where
  "rewind_parent f s = s\<lparr>files := (files s)(fl_parent f := (files s (fl_parent f))\<lparr>fl_pos := 0\<rparr>)\<rparr>"

definition remove_enumerator :: enumerator where
  "remove_enumerator i a = (if same_name (fi_name i) (ea_name a) then 2 else 0, a)"

definition fat32_remove_ent :: "'io fat_env \<Rightarrow> file_t \<Rightarrow> 'io fat_state \<Rightarrow> (int \<times> 'io fat_state) option" where
  "fat32_remove_ent env f s = do {
     let s = rewind_parent f s;
     (ret, _, s) \<leftarrow> fat32_enum_ent env (files s (fl_parent f)) remove_enumerator (file_arg f (fl_name f)) s;
     Some (if ret = 2 then 0 else -1, s) }"

definition open_enumerator :: enumerator where
  "open_enumerator i a =
     (if same_name (fi_name i) (ea_name a)
      then (1, a\<lparr>ea_new := (ea_new a)\<lparr>fl_pos := 0, fl_size := fi_size i, fl_ctime := fi_ctime i, fl_mtime := fi_mtime i,
              fl_data := fi_cluster i, fl_attribute := fi_attr i\<rparr>\<rparr>)
      else (0, a))"

text \<open>The part of \<open>fat32_open\<close> that looks for the name; without the flag to create the file it is the whole of it.\<close>

definition open_lookup :: "'io fat_env \<Rightarrow> file_t \<Rightarrow> u8 list \<Rightarrow> 'io fat_state \<Rightarrow> (int \<times> file_t \<times> 'io fat_state) option" where
  "open_lookup env f name s = do {
     let s = rewind_parent f s;
     (ret, a, s) \<leftarrow> fat32_enum_ent env (files s (fl_parent f)) open_enumerator (file_arg f name) s;
     if 0 < ret then Some (0, (ea_new a)\<lparr>fl_name := take FILE_NAME_LEN name\<rparr>, s) else Some (-1, ea_new a, s) }"

text \<open>The last dot of a name. The name is scanned further at every attempt, as the C loop moves its pointer.\<close>

fun last_dot :: "u8 list \<Rightarrow> nat option" where
  "last_dot [] = None"
| "last_dot (x # xs) = (case last_dot xs of Some i \<Rightarrow> Some (Suc i) | None \<Rightarrow> if x = 0x2E then Some 0 else None)"

definition pad :: "nat \<Rightarrow> u8 list \<Rightarrow> u8 list" where
  "pad n xs = xs @ replicate (n - length xs) 0x20"

definition short_try :: "u8 list \<Rightarrow> u8 \<Rightarrow> u8 \<Rightarrow> FAT32_ENTRY \<Rightarrow> FAT32_ENTRY \<times> u8 list" where
  "short_try name longSignChar trychar ff =
     (let ext = last_dot name;
          (base, rest) =
            (if (case ext of Some e \<Rightarrow> 8 < e | None \<Rightarrow> False)
             then (map toupper_char (take 6 name) @ [longSignChar, trychar], drop 6 name)
             else let k = min 8 (case ext of Some e \<Rightarrow> e | None \<Rightarrow> length name)
                  in (map toupper_char (take k name), drop k name));
          extension = (case ext of Some e \<Rightarrow> map toupper_char (take 3 (drop (Suc e) name)) | None \<Rightarrow> [])
      in (ff\<lparr>en_name := pad 8 base, en_extention := pad 3 extension\<rparr>, rest))"

partial_function (option) fat32_build_shortname :: "'io fat_env \<Rightarrow> file_t \<Rightarrow> u8 list \<Rightarrow> u8 \<Rightarrow> u8 \<Rightarrow> FAT32_ENTRY \<Rightarrow> 'io fat_state \<Rightarrow>
    (FAT32_ENTRY \<times> 'io fat_state) option" where
  "fat32_build_shortname env f name longSignChar trychar ff s =
     (let p = short_try name longSignChar trychar ff; ff = fst p
      in do {
        (r, _, s) \<leftarrow> open_lookup env (f\<lparr>fl_flag := 0\<rparr>) (snd (fat32_get_shortname ff)) s;
        if r = 0 then
          if trychar = 0x36 then fat32_build_shortname env f (snd p) (longSignChar + 1) 0x31 ff s
          else fat32_build_shortname env f (snd p) longSignChar (trychar + 1) ff s
        else Some (ff, s) })"

primrec find_room :: "nat \<Rightarrow> bytes \<Rightarrow> u32 \<Rightarrow> nat \<Rightarrow> nat \<Rightarrow> u32 option" where
  "find_room 0 m off found name_entries = None"
| "find_room (Suc n) m off found name_entries =
     (if m off = 0xE5 \<or> m off = 0
      then if found + 1 = name_entries then Some off else find_room n m (off + 32) (found + 1) name_entries
      else find_room n m (off + 32) 0 name_entries)"

definition name_checksum :: "u8 list \<Rightarrow> u8" where
  "name_checksum = foldl (\<lambda>c x. (push_bit 7 c OR drop_bit 1 c) + x) 0"

definition uni_bytes :: "'io fat_env \<Rightarrow> u16 list \<Rightarrow> nat \<Rightarrow> u8" where
  "uni_bytes env w k = (let bs = concat (map le16 (w @ [0])) in
     if k < length bs then bs ! k else if k < FILE_NAME_LEN then 0xFF else fe_stack env k)"

definition put_long_name :: "nat \<Rightarrow> (nat \<Rightarrow> u8) \<Rightarrow> u8 \<Rightarrow> u32 \<Rightarrow> bytes \<Rightarrow> bytes" where
  "put_long_name name_entries uni_name checksum off =
     fold (\<lambda>j. put_name_entry \<lparr>ne_id = of_nat j OR (if j = name_entries - 1 then 0x40 else 0), ne_attr = 0xF, ne_checksum = checksum,
         ne_name = map uni_name [(j - 1) * 26..<j * 26]\<rparr> (off - 32 * of_nat j))
       [1..<name_entries]"

definition zero_entry :: FAT32_ENTRY where
  "zero_entry = \<lparr>en_name = replicate 8 0, en_extention = replicate 3 0, en_attribute = 0, en_reserved = 0, en_ctime_tenth = 0,
     en_ctime = 0, en_cdate = 0, en_adate = 0, en_cluster_high = 0, en_mtime = 0, en_mdate = 0, en_cluster = 0, en_size = 0\<rparr>"

definition new_entry :: "'io fat_env \<Rightarrow> file_t \<Rightarrow> 'io fat_state \<Rightarrow> (FAT32_ENTRY \<times> 'io fat_state) option" where
  "new_entry env fsave s = do {
     (ff, s) \<leftarrow> fat32_build_shortname env fsave (fl_name fsave) 0x7E 0x31 zero_entry s;
     (_, ff) \<leftarrow> fat32_settime ff (fl_mtime fsave) 2;
     Some (ff\<lparr>en_size := fl_size fsave, en_attribute := add_attr (fl_attribute fsave) (en_attribute ff),
              en_cluster_high := ucast (drop_bit 16 (fl_data fsave)), en_cluster := ucast (fl_data fsave)\<rparr>, s) }"

partial_function (option) create_loop :: "'io fat_env \<Rightarrow> file_t \<Rightarrow> file_t \<Rightarrow> u16 list \<Rightarrow> nat \<Rightarrow> u32 \<Rightarrow> u32 \<Rightarrow> bytes \<Rightarrow> 'io fat_state \<Rightarrow>
    (int \<times> 'io fat_state) option" where
  "create_loop env fsave f uni name_entries clu pos data s =
     (let fat = fat_of f s; room = find_room (unat (bytPerClu fat div 32)) data pos 0 name_entries
      in if room \<noteq> None then do {
           let off = the room;
           (ff, s) \<leftarrow> new_entry env fsave s;
           let data = put_entry ff off data;
           let data = (if uni \<noteq> [] then put_long_name name_entries (uni_bytes env uni) (name_checksum (en_name ff @ en_extention ff)) off data
                       else data);
           (_, s) \<leftarrow> fat32_writeclu env f clu data s;
           Some (0, s) }
         else do {
           (clu, s) \<leftarrow> fat32_nextclu env f clu s;
           if IS_FAT32CLU_INUSE clu then do {
             (data, s) \<leftarrow> need_clu env f clu s;
             create_loop env fsave f uni name_entries clu 0 data s }
           else if IS_FAT32CLU_END clu then do {
             (clu, s) \<leftarrow> fat32_allocclu env f s;
             if \<not> IS_FAT32CLU_INUSE clu then Some (-1, s)
             else create_loop env fsave f uni name_entries clu 0 (\<lambda>x. if x < bytPerClu fat then 0 else fe_fresh env x) s }
           else Some (-1, s) })"

definition fat32_create_ent :: "'io fat_env \<Rightarrow> file_t \<Rightarrow> 'io fat_state \<Rightarrow> (int \<times> 'io fat_state) option" where
  "fat32_create_ent env fsave s = do {
     let f = files s (fl_parent fsave);
     no \<leftarrow> udiv (fl_pos f) (bytPerClu (fat_of f s));
     let pos = fl_pos f mod bytPerClu (fat_of f s);
     (clu, s) \<leftarrow> fat32_get_clu_by_order env f (fl_data f) (sint no) s;
     let uni = (if 11 < length (fl_name fsave) then unicode_encode (fl_name fsave) FILE_NAME_LEN FILE_NAME_LEN else []);
     let name_entries = (if 11 < length (fl_name fsave) then length uni div 13 + 2 else 1);
     (data, s) \<leftarrow> need_clu env f clu s;
     create_loop env fsave f uni name_entries clu pos data s }"

end
