(* ===== verification/FatFile.thy ===== *)
theory FatFile
  imports FatDir
begin

text \<open>The operations that \<open>apps/fs/fat32.c\<close> registers with the virtual file system (\<open>fs_fat32\<close>).\<close>

section \<open>Opening\<close>

definition fat32_open :: "'io fat_env \<Rightarrow> file_t \<Rightarrow> u8 list \<Rightarrow> 'io fat_state \<Rightarrow> (int \<times> file_t \<times> 'io fat_state) option" where
  "fat32_open env f name s = do {
     (r, f, s) \<leftarrow> open_lookup env f name s;
     if r = 0 then Some (0, f, s)
     else if fl_flag f AND FILE_FLAG_CREATE \<noteq> 0 then do {
       let f = f\<lparr>fl_name := take FILE_NAME_LEN name, fl_size := 0\<rparr>;
       (clu, s) \<leftarrow> fat32_getclu env f s;
       let f = f\<lparr>fl_data := clu\<rparr>;
       (ret, s) \<leftarrow> fat32_create_ent env f s;
       Some (if ret = 0 then 0 else -1, f, s) }
     else Some (-1, f, s) }"

section \<open>Reading and writing\<close>

text \<open>\<open>buf\<close> is the caller's memory from the address of its buffer on.\<close>

partial_function (option) read_loop :: "'io fat_env \<Rightarrow> file_t \<Rightarrow> u32 \<Rightarrow> u32 \<Rightarrow> u32 \<Rightarrow> u32 \<Rightarrow> bytes \<Rightarrow> 'io fat_state \<Rightarrow>
    (int \<times> file_t \<times> bytes \<times> 'io fat_state) option" where
  "read_loop env f clu pos count read_no buf s =
     (if count = 0 then Some (sint read_no, f, buf, s)
      else
        let n = min (bytPerClu (fat_of f s) - pos) count
        in if \<not> IS_FAT32CLU_INUSE clu then Some (0, f, buf, s)
           else do {
             (data, s) \<leftarrow> need_clu env f clu s;
             let buf = copy_bytes buf read_no data pos n;
             let f = f\<lparr>fl_pos := fl_pos f + n\<rparr>;
             (clu, s) \<leftarrow> (if 0 < count - n then fat32_nextclu env f clu s else Some (clu, s));
             read_loop env f clu 0 (count - n) (read_no + n) buf s })"

definition fat32_read :: "'io fat_env \<Rightarrow> file_t \<Rightarrow> bytes \<Rightarrow> u32 \<Rightarrow> 'io fat_state \<Rightarrow> (int \<times> file_t \<times> bytes \<times> 'io fat_state) option" where
  "fat32_read env f buf count s = do {
     let count = (if fl_size f - fl_pos f < count then fl_size f - fl_pos f else count);
     no \<leftarrow> udiv (fl_pos f) (bytPerClu (fat_of f s));
     (clu, s) \<leftarrow> fat32_get_clu_by_order env f (fl_data f) (sint no) s;
     read_loop env f clu (fl_pos f mod bytPerClu (fat_of f s)) count 0 buf s }"

partial_function (option) write_loop :: "'io fat_env \<Rightarrow> file_t \<Rightarrow> u32 \<Rightarrow> u32 \<Rightarrow> u32 \<Rightarrow> u32 \<Rightarrow> bytes \<Rightarrow> 'io fat_state \<Rightarrow>
    (int option \<times> u32 \<times> 'io fat_state) option" where
  "write_loop env f clu pos count written buf s =
     (if count = 0 then Some (None, written, s)
      else
        let n = min (bytPerClu (fat_of f s) - pos) count
        in do {
          (r, clu, s) \<leftarrow> (if \<not> IS_FAT32CLU_INUSE clu then
               if IS_FAT32CLU_END clu then do {
                 (tmp, s) \<leftarrow> fat32_allocclu env f s;
                 Some (if \<not> IS_FAT32CLU_INUSE tmp then Some (-1) else None, tmp, s) }
               else Some (Some 0, clu, s)
             else Some (None, clu, s));
          if r \<noteq> None then Some (r, written, s)
          else do {
            (data, s) \<leftarrow> (if pos \<noteq> 0 then need_clu env f clu s else Some (fe_fresh env, s));
            (_, s) \<leftarrow> fat32_writeclu env f clu (copy_bytes data pos buf written n) s;
            (clu, s) \<leftarrow> (if 0 < count - n then fat32_nextclu env f clu s else Some (clu, s));
            write_loop env f clu 0 (count - n) (written + n) buf s } })"

definition fat32_write :: "'io fat_env \<Rightarrow> file_t \<Rightarrow> bytes \<Rightarrow> u32 \<Rightarrow> 'io fat_state \<Rightarrow> (int \<times> file_t \<times> 'io fat_state) option" where
  "fat32_write env f buf count s = do {
     no \<leftarrow> udiv (fl_pos f) (bytPerClu (fat_of f s));
     (clu, s) \<leftarrow> fat32_get_clu_by_order env f (fl_data f) (sint no) s;
     (r, written, s) \<leftarrow> write_loop env f clu (fl_pos f mod bytPerClu (fat_of f s)) count 0 buf s;
     if r \<noteq> None then Some (the r, f, s)
     else if written \<noteq> 0 then
       let f = f\<lparr>fl_pos := fl_pos f + written\<rparr>
       in Some (sint written, if fl_size f < fl_pos f then f\<lparr>fl_size := fl_pos f, fl_dirty := True\<rparr> else f, s)
     else Some (sint written, f, s) }"

section \<open>Directories\<close>

definition fat32_readdir_enumerator :: enumerator where
  "fat32_readdir_enumerator i a =
     (if ea_remain a < 144 then (1, a)
      else (0, a\<lparr>ea_dir := ea_dir a @ [\<lparr>de_name = take FILE_NAME_LEN (fi_name i), de_size = fi_size i, de_attr = fi_attr i,
                    de_ctime = fi_ctime i, de_mtime = fi_mtime i\<rparr>], ea_remain := ea_remain a - 144\<rparr>))"

definition fat32_readdir :: "'io fat_env \<Rightarrow> file_t \<Rightarrow> u32 \<Rightarrow> 'io fat_state \<Rightarrow> (int \<times> DIRENTRY list \<times> 'io fat_state) option" where
  "fat32_readdir env f siz s = do {
     (_, a, s) \<leftarrow> fat32_enum_ent env f fat32_readdir_enumerator ((file_arg f [])\<lparr>ea_remain := siz\<rparr>) s;
     Some (sint (siz - ea_remain a), ea_dir a, s) }"

section \<open>Renaming, removing, closing\<close>

definition fat32_rename :: "'io fat_env \<Rightarrow> file_t \<Rightarrow> u8 list \<Rightarrow> 'io fat_state \<Rightarrow> (int \<times> file_t \<times> 'io fat_state) option" where
  "fat32_rename env f name s = do {
     (r, _, s) \<leftarrow> fat32_open env (f\<lparr>fl_flag := 0\<rparr>) name s;
     if r = 0 then Some (-1, f, s)
     else do {
       (ret, s) \<leftarrow> fat32_remove_ent env f s;
       if ret < 0 then Some (-1, f, s)
       else do {
         let f = f\<lparr>fl_name := take FILE_NAME_LEN name\<rparr>;
         (ret, s) \<leftarrow> fat32_create_ent env f s;
         Some (if ret < 0 then -1 else 0, f, s) } } }"

definition fat32_remove :: "'io fat_env \<Rightarrow> file_t \<Rightarrow> 'io fat_state \<Rightarrow> 'io fat_state option" where
  "fat32_remove env f s = do {
     (_, s) \<leftarrow> fat32_freeclu env f (fl_data f) s;
     (_, s) \<leftarrow> fat32_remove_ent env f s;
     Some s }"

definition saveinfo_enumerator :: enumerator where
  "saveinfo_enumerator i a = (if same_name (fi_name i) (ea_name a) then 3 else 0, a)"

definition fat32_saveinfo :: "'io fat_env \<Rightarrow> file_t \<Rightarrow> 'io fat_state \<Rightarrow> (int \<times> 'io fat_state) option" where
  "fat32_saveinfo env f s = do {
     let s = rewind_parent f s;
     (ret, _, s) \<leftarrow> fat32_enum_ent env (files s (fl_parent f)) saveinfo_enumerator (file_arg f (fl_name f)) s;
     Some (if ret = 3 then 0 else -1, s) }"

definition fat32_close :: "'io fat_env \<Rightarrow> file_t \<Rightarrow> 'io fat_state \<Rightarrow> (int \<times> file_t \<times> 'io fat_state) option" where
  "fat32_close env f s =
     (if fl_flag f AND FILE_FLAG_DELETE \<noteq> 0 then do { s \<leftarrow> fat32_remove env f s; Some (0, f, s) }
      else if fl_dirty f then do {
        (ret, s) \<leftarrow> fat32_saveinfo env f s;
        let f = f\<lparr>fl_dirty := False\<rparr>;
        Some (if ret < 0 then ret else 0, f, s) }
      else Some (0, f, s))"

section \<open>The size\<close>

primrec grow_loop :: "nat \<Rightarrow> 'io fat_env \<Rightarrow> file_t \<Rightarrow> 'io fat_state \<Rightarrow> (bool \<times> 'io fat_state) option" where
  "grow_loop 0 env f s = Some (True, s)"
| "grow_loop (Suc n) env f s = do {
     (clu, s) \<leftarrow> fat32_allocclu env f s;
     if clu \<noteq> 0 then grow_loop n env f s else Some (False, s) }"

definition fat32_setsize :: "'io fat_env \<Rightarrow> file_t \<Rightarrow> u32 \<Rightarrow> 'io fat_state \<Rightarrow> (int \<times> file_t \<times> 'io fat_state) option" where
  "fat32_setsize env f new_size s = do {
     a \<leftarrow> udiv new_size (bytPerClu (fat_of f s));
     b \<leftarrow> udiv (fl_size f) (bytPerClu (fat_of f s));
     let new_no = sint (a + 1);
     let old_no = sint (b + 1);
     if new_no < old_no then do {
       (clu, s) \<leftarrow> fat32_get_clu_by_order env f (fl_data f) new_no s;
       s \<leftarrow> (if clu \<noteq> 0 then do { (_, s) \<leftarrow> fat32_freeclu env f clu s; Some s } else Some s);
       Some (0, f\<lparr>fl_size := new_size\<rparr>, s) }
     else do {
       (ok, s) \<leftarrow> grow_loop (nat (new_no - old_no)) env f s;
       if ok then Some (0, f\<lparr>fl_size := new_size\<rparr>, s) else Some (-1, f, s) } }"

end
