(* ===== verification/FatData.thy ===== *)
theory FatData
  imports FatChain FatFile
begin

text \<open>
  The data of clusters and files. A device is read as one sequence of bytes (\<open>lin\<close>); a cluster is a range of
  it (\<open>clu_byte\<close>), reading and writing a cluster are reading and writing that range, and the clusters of a
  chain one after the other are the content of a file.
\<close>

section \<open>A device as a sequence of bytes\<close>

definition lin :: "(u32 \<Rightarrow> bytes) \<Rightarrow> nat \<Rightarrow> u8" where
  "lin v a = v (of_nat (a div 4096)) (of_nat (a mod 4096))"

lemma lin_block:
  assumes "y < 4096 - pos" and "pos < 4096"
  shows "lin v (unat k * 4096 + unat pos + unat y) = v k (pos + y)"
proof -
  have l: "unat pos + unat y < 4096" using assms by unat_arith
  have "(unat k * 4096 + (unat pos + unat y)) div 4096 = unat k" "(unat k * 4096 + (unat pos + unat y)) mod 4096 = unat pos + unat y"
    using l by (simp_all add: div_mult_self3)
  then show ?thesis by (simp add: lin_def add.assoc)
qed

lemma sub_less_iff:
  fixes y n m :: u32
  assumes "n \<le> m"
  shows "y - n < m - n \<longleftrightarrow> n \<le> y \<and> y < m"
proof -
  have m: "unat (m - n) = unat m - unat n" "unat n \<le> unat m" using assms by (simp_all add: unat_sub word_le_nat_alt)
  show ?thesis
  proof (cases "n \<le> y")
    case True
    then have "unat (y - n) = unat y - unat n" "unat n \<le> unat y" by (simp_all add: unat_sub word_le_nat_alt)
    with m show ?thesis using True by (auto simp: word_less_nat_alt)
  next
    case False
    then have "unat (y - n) = 2 ^ 32 + unat y - unat n" by (simp add: unat_sub_if' word_le_nat_alt)
    moreover have "unat m < 2 ^ 32" by (rule unat_32)
    ultimately have "\<not> unat (y - n) < unat (m - n)" using m by simp
    then show ?thesis using False by (simp add: word_less_nat_alt)
  qed
qed

lemma readclu_loop_spec:
  assumes "fat_ready disk V env room G P s H v" and "length H < room" and "fl_device f \<in> V" and "pos < 4096"
    and "unat k * 4096 + unat pos + unat sz \<le> 2 ^ 41" and "unat off + unat sz < 2 ^ 32"
  shows "\<exists>s' m'. readclu_loop env f k pos sz m off s = Some (Some m', s') \<and> fat_ready disk V env room G P s' H v \<and>
    (\<forall>x. m' x = (if x - off < sz then lin (v (fl_device f)) (unat k * 4096 + unat pos + unat (x - off)) else m x))"
  using assms
proof (induction "unat sz" arbitrary: k pos sz m off s rule: less_induct)
  case less
  let ?d = "fl_device f"
  show ?case
  proof (cases "sz = 0")
    case True
    then show ?thesis using less.prems(1) by (simp add: readclu_loop.simps)
  next
    case False
    define n where "n = min (4096 - pos) sz"
    have n: "n \<noteq> 0" "n \<le> sz" "n \<le> 4096 - pos" using False less.prems(4) by (auto simp: n_def min_def word_le_nat_alt unat_sub word_less_nat_alt)
    have k: "k < 2 ^ 29"
    proof -
      have "unat sz \<noteq> 0" using False by (simp add: unat_eq_0)
      then have "unat k * 4096 < 2 ^ 29 * 4096" using less.prems(5) by simp
      then have "unat k < 2 ^ 29" by simp
      then show ?thesis by (simp add: word_less_nat_alt)
    qed
    obtain b s1 where b: "get_block env ?d k s = Some (b, s1)" "b \<noteq> 0" "buf_bytes b s1 = v ?d k"
        "fat_ready disk V env room G P (put_block b s1) H v"
      using fs.hold [OF less.prems(1-3) k] by blast
    let ?m = "copy_bytes m off (v ?d k) pos n"
    have un: "unat (sz - n) = unat sz - unat n" using n(2) by (simp add: unat_sub)
    have less': "unat (sz - n) < unat sz" 
    proof -
      have "0 < unat n" using n(1) by (simp add: unat_eq_0 flip: neq0_conv)
      moreover have "unat n \<le> unat sz" using n(2) by (simp add: word_le_nat_alt)
      ultimately show ?thesis unfolding un by simp
    qed
    have on: "unat (off + n) = unat off + unat n" using less.prems(6) n(2) by (simp add: unat_word_ariths word_le_nat_alt)
    have step: "readclu_loop env f k pos sz m off s = readclu_loop env f (k + 1) 0 (sz - n) ?m (off + n) (put_block b s1)"
      unfolding readclu_loop.simps [of env f k pos sz m off s] using False b by (simp add: n_def Let_def)
    show ?thesis
    proof (cases "n = sz")
      case True
      have "\<forall>x. ?m x = (if x - off < sz then lin (v ?d) (unat k * 4096 + unat pos + unat (x - off)) else m x)"
      proof
        fix x
        show "?m x = (if x - off < sz then lin (v ?d) (unat k * 4096 + unat pos + unat (x - off)) else m x)"
          using lin_block [of "x - off" pos "v ?d" k] n(3) True less.prems(4) by (auto simp: copy_bytes_def)
      qed
      then show ?thesis using step True b(4) by (simp add: readclu_loop.simps)
    next
      case nf: False
      have full: "n = 4096 - pos" using nf by (auto simp: n_def min_def)
      have up: "unat n = 4096 - unat pos" "unat pos < 4096" using full less.prems(4) by (simp_all add: unat_sub word_less_nat_alt word_le_nat_alt)
      have k1: "unat (k + 1) = unat k + 1"
        using k by (simp add: unat_word_ariths word_less_nat_alt)
      have L: "unat (k + 1) * 4096 = unat k * 4096 + unat pos + unat n" using up k1 by simp
      obtain s' m' where r: "readclu_loop env f (k + 1) 0 (sz - n) ?m (off + n) (put_block b s1) = Some (Some m', s')"
        "fat_ready disk V env room G P s' H v"
        "\<forall>x. m' x = (if x - (off + n) < sz - n then lin (v ?d) (unat (k + 1) * 4096 + unat (0 :: u32) + unat (x - (off + n))) else ?m x)"
        using less.hyps [OF less' b(4) less.prems(2,3), of 0 "k + 1" "off + n" ?m] less.prems(5,6) L un on n(2)
        by (auto simp: word_le_nat_alt)
      have "m' x = (if x - off < sz then lin (v ?d) (unat k * 4096 + unat pos + unat (x - off)) else m x)" for x
      proof -
        have e: "x - (off + n) = x - off - n" by simp
        note r3 = r(3) [rule_format, of x, unfolded e sub_less_iff [OF n(2)]]
        show ?thesis
        proof (cases "n \<le> x - off \<and> x - off < sz")
          case True
          then have "m' x = lin (v ?d) (unat (k + 1) * 4096 + unat (0 :: u32) + unat (x - off - n))" using r3 by (simp only: if_True simp_thms)
          moreover from True have "unat (x - off - n) = unat (x - off) - unat n" "unat n \<le> unat (x - off)"
            by (simp_all add: unat_sub word_le_nat_alt)
          ultimately show ?thesis using True L by (simp add: add.assoc del: diff_diff_eq diff_diff_add)
        next
          case out: False
          then have "m' x = ?m x" using r3 by (simp only: if_False simp_thms)
          moreover have "x - off < n \<Longrightarrow> x - off < sz" "\<not> x - off < n \<Longrightarrow> \<not> x - off < sz"
            using out n(2) by (auto simp: not_less)
          ultimately show ?thesis using n(3) lin_block [of "x - off" pos "v ?d" k] less.prems(4) by (auto simp: copy_bytes_def)
        qed
      qed
      then show ?thesis using step r(1,2) by auto
    qed
  qed
qed


lemma lin_write:
  fixes k pos n off :: u32 and m :: bytes
  assumes n: "n \<le> 4096 - pos" and pos: "pos < 4096" and a: "a < 2 ^ 44"
  defines "L \<equiv> unat k * 4096 + unat pos"
  shows "lin (v(k := copy_bytes (v k) pos m off n)) a = (if L \<le> a \<and> a < L + unat n then m (off + of_nat (a - L)) else lin v a)"
proof -
  have pn: "unat pos + unat n \<le> 4096" using n pos by (simp add: word_le_nat_alt word_less_nat_alt unat_sub)
  have ak: "a div 4096 < 2 ^ 32" using a by (simp add: less_mult_imp_div_less)
  have kk: "of_nat (a div 4096) = k \<longleftrightarrow> a div 4096 = unat k"
    using ak by (simp add: word_unat_eq_iff unat_of_nat)
  show ?thesis
  proof (cases "a div 4096 = unat k")
    case True
    let ?i = "of_nat (a mod 4096) :: u32"
    have i: "unat ?i = a mod 4096" by (simp add: unat_of_nat)
    have ae: "a = unat k * 4096 + a mod 4096" using True by (metis div_mult_mod_eq)
    have up: "unat (pos + n) = unat pos + unat n" using pn by (simp add: unat_word_ariths)
    have "?i - pos < n \<longleftrightarrow> ?i - pos < (pos + n) - pos" by simp
    also have "\<dots> \<longleftrightarrow> pos \<le> ?i \<and> ?i < pos + n" by (rule sub_less_iff) (simp add: word_le_nat_alt up)
    also have "\<dots> \<longleftrightarrow> L \<le> a \<and> a < L + unat n"
      using ae unfolding word_le_nat_alt word_less_nat_alt up i L_def by linarith
    finally have c: "?i - pos < n \<longleftrightarrow> L \<le> a \<and> a < L + unat n" .
    have "?i - pos = of_nat (a - L)" if "L \<le> a"
    proof -
      have "a - L = a mod 4096 - unat pos" "unat pos \<le> a mod 4096" using ae that unfolding L_def by linarith+
      then show ?thesis by (simp add: of_nat_diff)
    qed
    moreover have "of_nat (a div 4096) = k" using kk True by simp
    ultimately show ?thesis using c by (auto simp: lin_def copy_bytes_def)
  next
    case False
    have "\<not> (L \<le> a \<and> a < L + unat n)"
    proof
      assume "L \<le> a \<and> a < L + unat n"
      then have "unat k * 4096 \<le> a" "a < unat k * 4096 + 4096" using pn unfolding L_def by linarith+
      then have "a div 4096 = unat k" by (intro div_nat_eqI) simp_all
      with False show False by simp
    qed
    then show ?thesis using False kk by (auto simp: lin_def)
  qed
qed

lemma writeclu_loop_spec:
  assumes "fat_ready disk V env room G P s H v" and "length H < room" and "fl_device f \<in> V" and "pos < 4096"
    and "unat k * 4096 + unat pos + unat sz \<le> 2 ^ 41" and "unat off + unat sz < 2 ^ 32"
  shows "\<exists>s' w. writeclu_loop env f k pos sz m off s = Some (0, s') \<and> fat_ready disk V env room G P s' H (v(fl_device f := w)) \<and>
    (\<forall>a<2 ^ 44. lin w a = (if unat k * 4096 + unat pos \<le> a \<and> a < unat k * 4096 + unat pos + unat sz
       then m (off + of_nat (a - (unat k * 4096 + unat pos))) else lin (v (fl_device f)) a))"
  using assms
proof (induction "unat sz" arbitrary: k pos sz off s v rule: less_induct)
  case less
  let ?d = "fl_device f"
  show ?case
  proof (cases "sz = 0")
    case True
    then show ?thesis using less.prems(1) by (intro exI [of _ s] exI [of _ "v ?d"]) (auto simp: writeclu_loop.simps)
  next
    case False
    define n where "n = min (4096 - pos) sz"
    have n: "n \<noteq> 0" "n \<le> sz" "n \<le> 4096 - pos" using False less.prems(4) by (auto simp: n_def min_def word_le_nat_alt unat_sub word_less_nat_alt)
    have k: "k < 2 ^ 29"
    proof -
      have "unat sz \<noteq> 0" using False by (simp add: unat_eq_0)
      then have "unat k * 4096 < 2 ^ 29 * 4096" using less.prems(5) by simp
      then have "unat k < 2 ^ 29" by simp
      then show ?thesis by (simp add: word_less_nat_alt)
    qed
    obtain b s1 where b: "get_block env ?d k s = Some (b, s1)" "b \<noteq> 0" "buf_bytes b s1 = v ?d k"
        "buf_place s1 b = (?d, k)" "fat_ready disk V env room G P s1 (b # H) v"
      using fs.hold [OF less.prems(1-3) k] by blast
    let ?c = "copy_bytes (v ?d k) pos m off n"
    define s2 where "s2 = put_block b (change_buf b ?c s1)"
    define u where "u = v(?d := (v ?d)(k := ?c))"
    have s2: "fat_ready disk V env room G P s2 H u" using fs.modify(2) [OF b(5,4), of ?c] by (simp add: s2_def u_def)
    have un: "unat (sz - n) = unat sz - unat n" "unat n \<le> unat sz" using n(2) by (simp_all add: unat_sub word_le_nat_alt)
    have less': "unat (sz - n) < unat sz"
    proof -
      have "0 < unat n" using n(1) by (simp add: unat_eq_0 flip: neq0_conv)
      then show ?thesis using un by simp
    qed
    have on: "unat (off + n) = unat off + unat n" using less.prems(6) un(2) by (simp add: unat_word_ariths)
    have step: "writeclu_loop env f k pos sz m off s = writeclu_loop env f (k + 1) 0 (sz - n) m (off + n) s2"
      unfolding writeclu_loop.simps [of env f k pos sz m off s] s2_def change_buf_def
      using False b(1-3) by (simp add: n_def Let_def)
    let ?L = "unat k * 4096 + unat pos"
    note one = lin_write [OF n(3) less.prems(4), of _ "v ?d" k m off]
    show ?thesis
    proof (cases "n = sz")
      case True
      then show ?thesis using step s2 one by (intro exI [of _ s2] exI [of _ "u ?d"]) (simp add: writeclu_loop.simps u_def)
    next
      case nf: False
      have full: "n = 4096 - pos" using nf by (auto simp: n_def min_def)
      have up: "unat n = 4096 - unat pos" "unat pos < 4096" using full less.prems(4) by (simp_all add: unat_sub word_less_nat_alt word_le_nat_alt)
      have k1: "unat (k + 1) = unat k + 1" using k by (simp add: unat_word_ariths word_less_nat_alt)
      have L: "unat (k + 1) * 4096 + unat (0 :: u32) = ?L + unat n" using up k1 by simp
      obtain s' w where r: "writeclu_loop env f (k + 1) 0 (sz - n) m (off + n) s2 = Some (0, s')"
        "fat_ready disk V env room G P s' H (u(?d := w))"
        "\<forall>a<2 ^ 44. lin w a = (if ?L + unat n \<le> a \<and> a < ?L + unat n + unat (sz - n)
           then m (off + n + of_nat (a - (?L + unat n))) else lin (u ?d) a)"
        using less.hyps [OF less' s2 less.prems(2,3), of 0 "k + 1" "off + n"] less.prems(5,6) un on unfolding L by auto
      have "lin w a = (if ?L \<le> a \<and> a < ?L + unat sz then m (off + of_nat (a - ?L)) else lin (v ?d) a)" if a: "a < 2 ^ 44" for a
      proof (cases "?L + unat n \<le> a")
        case True
        then have "a - ?L = unat n + (a - (?L + unat n))" by linarith
        then have "(of_nat (a - ?L) :: u32) = n + of_nat (a - (?L + unat n))" by (simp only: of_nat_add) simp
        then have "m (off + n + of_nat (a - (?L + unat n))) = m (off + of_nat (a - ?L))" by (simp only: add.assoc)
        then show ?thesis using r(3) [rule_format, OF a] True un one [OF a]
          by (cases "a < ?L + unat sz") (simp_all only: u_def fun_upd_same if_True if_False simp_thms le_add_diff_inverse add.assoc, simp_all)
      next
        case lt: False
        then show ?thesis using r(3) a un one [OF a] by (simp add: u_def)
      qed
      then show ?thesis using step r(1,2) by (intro exI [of _ s'] exI [of _ w]) (simp add: u_def)
    qed
  qed
qed


section \<open>Clusters\<close>

text \<open>Sectors of 512 bytes, at most 128 of them in a cluster. The address of a cluster is a number of bytes on
  the device, which need not fit in 32 bits.\<close>

definition data_ok :: "FAT32DEV \<Rightarrow> bool" where
  "data_ok g \<longleftrightarrow> bytPerSec g = 512 \<and> unat (dataAddr g) mod 512 = 0 \<and> 0 < secPerClu g \<and> secPerClu g \<le> 128 \<and>
     bytPerClu g = 512 * secPerClu g"

definition clu_addr :: "FAT32DEV \<Rightarrow> u32 \<Rightarrow> nat" where
  "clu_addr g c = unat (dataAddr g) + (unat c - 2) * unat (bytPerClu g)"

definition clu_ok :: "FAT32DEV \<Rightarrow> u32 \<Rightarrow> bool" where
  "clu_ok g c \<longleftrightarrow> IS_FAT32CLU_INUSE c \<and> clu_addr g c + unat (bytPerClu g) \<le> 2 ^ 41"

definition clu_byte :: "FAT32DEV \<Rightarrow> (u32 \<Rightarrow> bytes) \<Rightarrow> u32 \<Rightarrow> nat \<Rightarrow> u8" where
  "clu_byte g v c i = lin v (clu_addr g c + i)"

lemma bytPerClu_nat: "data_ok g \<Longrightarrow> unat (bytPerClu g) = 512 * unat (secPerClu g) \<and> 0 < unat (secPerClu g) \<and> unat (secPerClu g) \<le> 128"
  by (simp add: data_ok_def word_le_nat_alt word_less_nat_alt unat_word_ariths)

text \<open>The block and the position that the code computes are those of the byte address.\<close>

lemma clu_place:
  assumes g: "data_ok g" and c: "clu_ok g c"
  shows "\<exists>k. clu_block g c = Some k \<and> unat k = clu_addr g c div 4096" and "unat (clu_pos g c) = clu_addr g c mod 4096"
proof -
  let ?d = "unat (dataAddr g)" and ?c = "unat c - 2" and ?p = "unat (secPerClu g)"
  note b = bytPerClu_nat [OF g]
  have c2: "unat (c - 2) = ?c" using c by (simp add: clu_ok_def IS_FAT32CLU_INUSE_def unat_sub word_le_nat_alt)
  obtain q where q: "?d = 512 * q" using g by (auto simp: data_ok_def dvd_def mod_eq_0_iff_dvd)
  let ?s = "q + ?c * ?p"
  have adr: "clu_addr g c = 512 * ?s" using q b by (simp add: clu_addr_def algebra_simps)
  have lim: "?s < 2 ^ 32" using c b unfolding clu_ok_def adr by simp
  have m: "unat ((c - 2) * secPerClu g) = ?c * ?p" using lim by (simp add: unat_word_ariths c2)
  have "unat (dataAddr g div 512) = q" using q by (simp add: unat_div)
  then have "unat (dataAddr g div 512 + (c - 2) * secPerClu g) = ?s" using lim m by (simp add: unat_word_ariths)
  moreover have "?s div 8 = clu_addr g c div 4096" using div_mult_mult1 [of 512 ?s 8] unfolding adr by simp
  ultimately show "\<exists>k. clu_block g c = Some k \<and> unat k = clu_addr g c div 4096"
    using g by (simp add: clu_block_def udiv_def data_ok_def unat_div)
  have "?c mod 4096 * (512 * ?p) < 2 ^ 32"
  proof -
    have "?c mod 4096 \<le> 4096" by (meson mod_less_divisor less_imp_le zero_less_numeral)
    then have "?c mod 4096 * (512 * ?p) \<le> 4096 * (512 * 128)" using b by (intro mult_le_mono) simp_all
    then show ?thesis by simp
  qed
  then have "unat ((c - 2) mod 4096 * bytPerClu g) = ?c mod 4096 * (512 * ?p)"
    using b by (simp add: unat_word_ariths unat_mod c2)
  moreover have "x mod 4096 + y mod 4096 < 2 ^ 32" for x y :: nat
    using mod_less_divisor [of 4096 x] mod_less_divisor [of 4096 y] by simp
  ultimately have "unat (clu_pos g c) = (?d mod 4096 + ?c mod 4096 * (512 * ?p) mod 4096) mod 4096"
    by (simp add: clu_pos_def unat_mod unat_word_ariths)
  also have "\<dots> = (?d + ?c * (512 * ?p)) mod 4096" by (simp add: mod_simps)
  finally show "unat (clu_pos g c) = clu_addr g c mod 4096" using b by (simp add: clu_addr_def)
qed

lemma readclu_spec:
  assumes r: "fat_ready disk V env room G P s H v" "length H < room" "fl_device f \<in> V"
    and g: "G (fl_device f) = g" "data_ok g" "clu_ok g c"
  shows "\<exists>s' m. fat32_readclu env f c s = Some (Some m, s') \<and> fat_ready disk V env room G P s' H v \<and>
    (\<forall>i<unat (bytPerClu g). m (of_nat i) = clu_byte g (v (fl_device f)) c i)"
proof -
  obtain k where k: "clu_block g c = Some k" "unat k = clu_addr g c div 4096" using clu_place(1) [OF g(2,3)] by blast
  note p = clu_place(2) [OF g(2,3)]
  have e: "unat k * 4096 + unat (clu_pos g c) = clu_addr g c" using k(2) p by simp
  have pl: "clu_pos g c < 4096" using p by (simp add: word_less_nat_alt)
  have lim: "unat k * 4096 + unat (clu_pos g c) + unat (bytPerClu g) \<le> 2 ^ 41" using g(3) unfolding e clu_ok_def by simp
  have bl: "unat (0 :: u32) + unat (bytPerClu g) < 2 ^ 32" using unat_32 by simp
  obtain s' m where m: "readclu_loop env f k (clu_pos g c) (bytPerClu g) (fe_fresh env) 0 s = Some (Some m, s')"
    "fat_ready disk V env room G P s' H v"
    "\<forall>x. m x = (if x - 0 < bytPerClu g then lin (v (fl_device f)) (unat k * 4096 + unat (clu_pos g c) + unat (x - 0)) else fe_fresh env x)"
    using readclu_loop_spec [OF r pl lim bl, of "fe_fresh env"] by blast
  have "m (of_nat i) = clu_byte g (v (fl_device f)) c i" if i: "i < unat (bytPerClu g)" for i
  proof -
    have "i < 2 ^ 32" using i unat_32 [of "bytPerClu g"] by linarith
    then have "unat (of_nat i :: u32) = i" by (simp add: unat_of_nat)
    then show ?thesis using m(3) i e by (simp add: clu_byte_def word_less_nat_alt)
  qed
  then show ?thesis using m(1,2) k(1) by (auto simp: fat32_readclu_def fat_ready_fat [OF r(1)] g(1))
qed

lemma need_clu_spec:
  assumes "fat_ready disk V env room G P s H v" and "length H < room" and "fl_device f \<in> V"
    and "G (fl_device f) = g" and "data_ok g" and "clu_ok g c"
  shows "\<exists>s' m. need_clu env f c s = Some (m, s') \<and> fat_ready disk V env room G P s' H v \<and>
    (\<forall>i<unat (bytPerClu g). m (of_nat i) = clu_byte g (v (fl_device f)) c i)"
  using readclu_spec [OF assms] by (fastforce simp: need_clu_def)

text \<open>Writing a cluster replaces its bytes and no others.\<close>

lemma writeclu_spec:
  assumes r: "fat_ready disk V env room G P s H v" "length H < room" "fl_device f \<in> V"
    and g: "G (fl_device f) = g" "data_ok g" "clu_ok g c"
  shows "\<exists>s' w. fat32_writeclu env f c m s = Some (0, s') \<and> fat_ready disk V env room G P s' H (v(fl_device f := w)) \<and>
    (\<forall>a<2 ^ 44. lin w a = (if clu_addr g c \<le> a \<and> a < clu_addr g c + unat (bytPerClu g) then m (of_nat (a - clu_addr g c))
       else lin (v (fl_device f)) a))"
proof -
  obtain k where k: "clu_block g c = Some k" "unat k = clu_addr g c div 4096" using clu_place(1) [OF g(2,3)] by blast
  note p = clu_place(2) [OF g(2,3)]
  have e: "unat k * 4096 + unat (clu_pos g c) = clu_addr g c" using k(2) p by simp
  have pl: "clu_pos g c < 4096" using p by (simp add: word_less_nat_alt)
  have lim: "unat k * 4096 + unat (clu_pos g c) + unat (bytPerClu g) \<le> 2 ^ 41" using g(3) unfolding e clu_ok_def by simp
  have bl: "unat (0 :: u32) + unat (bytPerClu g) < 2 ^ 32" using unat_32 by simp
  obtain s' w where "writeclu_loop env f k (clu_pos g c) (bytPerClu g) m 0 s = Some (0, s')"
    "fat_ready disk V env room G P s' H (v(fl_device f := w))"
    "\<forall>a<2 ^ 44. lin w a = (if clu_addr g c \<le> a \<and> a < clu_addr g c + unat (bytPerClu g) then m (0 + of_nat (a - clu_addr g c))
       else lin (v (fl_device f)) a)" using writeclu_loop_spec [OF r pl lim bl, of m] unfolding e by blast
  moreover have "fat32_writeclu env f c m s = writeclu_loop env f k (clu_pos g c) (bytPerClu g) m 0 s"
    using k(1) by (simp add: fat32_writeclu_def fat_ready_fat [OF r(1)] g(1))
  ultimately show ?thesis unfolding add_0_left by metis
qed


text \<open>Clusters do not overlap.\<close>

lemma clu_addr_disjoint:
  assumes "clu_ok g c" and "clu_ok g d" and "c \<noteq> d" and "clu_addr g c \<le> a" and "a < clu_addr g c + unat (bytPerClu g)"
  shows "\<not> (clu_addr g d \<le> a \<and> a < clu_addr g d + unat (bytPerClu g))"
proof -
  have c2: "2 \<le> unat x" if "clu_ok g x" for x using that by (simp add: clu_ok_def IS_FAT32CLU_INUSE_def word_le_nat_alt)
  have ne: "unat c \<noteq> unat d" using assms(3) by (simp add: word_unat_eq_iff)
  have sep: "clu_addr g x + unat (bytPerClu g) \<le> clu_addr g y" if "unat x < unat y" "2 \<le> unat x" for x y
  proof -
    have "(unat x - 2 + 1) * unat (bytPerClu g) \<le> (unat y - 2) * unat (bytPerClu g)" using that by (intro mult_le_mono1) simp
    then show ?thesis unfolding clu_addr_def by simp
  qed
  show ?thesis using sep [of c d] sep [of d c] c2 [OF assms(1)] c2 [OF assms(2)] ne assms(4,5) by (cases "unat c < unat d") auto
qed

lemma clu_small: "clu_ok g c \<Longrightarrow> i < unat (bytPerClu g) \<Longrightarrow> clu_addr g c + i < 2 ^ 44"
  by (simp add: clu_ok_def)

lemma clu_byte_written:
  assumes w: "\<forall>a<2 ^ 44. lin w a = (if clu_addr g c \<le> a \<and> a < clu_addr g c + unat (bytPerClu g) then m (of_nat (a - clu_addr g c))
       else lin v a)" and d: "clu_ok g c" "clu_ok g d" and i: "i < unat (bytPerClu g)"
  shows "clu_byte g w d i = (if d = c then m (of_nat i) else clu_byte g v d i)"
proof (cases "d = c")
  case True
  then show ?thesis using w clu_small [OF d(1) i] i by (simp add: clu_byte_def)
next
  case False
  have "\<not> (clu_addr g c \<le> clu_addr g d + i \<and> clu_addr g d + i < clu_addr g c + unat (bytPerClu g))"
    using clu_addr_disjoint [OF d(2,1) False, of "clu_addr g d + i"] i by simp
  then show ?thesis using w clu_small [OF d(2) i] False by (auto simp: clu_byte_def)
qed

section \<open>Files\<close>

definition file_byte :: "FAT32DEV \<Rightarrow> (u32 \<Rightarrow> bytes) \<Rightarrow> u32 list \<Rightarrow> nat \<Rightarrow> u8" where
  "file_byte g v cs k = clu_byte g v (cs ! (k div unat (bytPerClu g))) (k mod unat (bytPerClu g))"

lemma file_byte_head: "k < unat (bytPerClu g) \<Longrightarrow> file_byte g v (c # cs) k = clu_byte g v c k"
  by (simp add: file_byte_def)

lemma file_byte_tail: "0 < unat (bytPerClu g) \<Longrightarrow> file_byte g v (c # cs) (unat (bytPerClu g) + k) = file_byte g v cs k"
  by (simp add: file_byte_def div_add_self1)

lemma file_byte_drop: "0 < unat (bytPerClu g) \<Longrightarrow> j \<le> length cs \<Longrightarrow>
    file_byte g v cs (j * unat (bytPerClu g) + k) = file_byte g v (drop j cs) k"
  by (simp add: file_byte_def)

lemma fat_chain_drop: "fat_chain e cs \<Longrightarrow> j < length cs \<Longrightarrow> fat_chain e (drop j cs)"
proof (induction j arbitrary: cs)
  case (Suc j)
  then obtain c d ds where "cs = c # d # ds" by (metis Suc_less_eq length_Suc_conv list.exhaust list.size(3) not_less0 Suc_lessE)
  with Suc show ?case by simp
qed simp

text \<open>One turn of the loop over the clusters.\<close>

lemma read_turn:
  assumes r: "fat_ready disk V env room G P s H v" "length H < room" "fl_device f = d" "d \<in> V"
    and g: "G d = g" "data_ok g" "clu_ok g c" and cnt: "cnt \<noteq> 0" and n: "n = min (bytPerClu g - pos) cnt" "pos < bytPerClu g"
  shows "\<exists>s1 buf1. fat_ready disk V env room G P s1 H v \<and>
    read_loop env f c pos cnt rn buf s = do {
      (clu, s) \<leftarrow> (if 0 < cnt - n then fat32_nextclu env (f\<lparr>fl_pos := fl_pos f + n\<rparr>) c s1 else Some (c, s1));
      read_loop env (f\<lparr>fl_pos := fl_pos f + n\<rparr>) clu 0 (cnt - n) (rn + n) buf1 s } \<and>
    (\<forall>x. buf1 x = (if x - rn < n then clu_byte g (v d) c (unat pos + unat (x - rn)) else buf x))"
proof -
  obtain s1 m where m: "need_clu env f c s = Some (m, s1)" "fat_ready disk V env room G P s1 H v"
    "\<forall>i<unat (bytPerClu g). m (of_nat i) = clu_byte g (v d) c i"
    using need_clu_spec [OF r(1,2) r(4) [folded r(3)] g(1) [folded r(3)] g(2,3)] r(3) by auto
  have "IS_FAT32CLU_INUSE c" using g(3) by (simp add: clu_ok_def)
  then have "read_loop env f c pos cnt rn buf s = do {
      (clu, s) \<leftarrow> (if 0 < cnt - n then fat32_nextclu env (f\<lparr>fl_pos := fl_pos f + n\<rparr>) c s1 else Some (c, s1));
      read_loop env (f\<lparr>fl_pos := fl_pos f + n\<rparr>) clu 0 (cnt - n) (rn + n) (copy_bytes buf rn m pos n) s }"
    using cnt m(1) unfolding read_loop.simps [of env f c pos cnt rn buf s]
    by (simp add: fat_ready_fat [OF r(1)] r(3) g(1) n(1) Let_def)
  moreover have "copy_bytes buf rn m pos n x = (if x - rn < n then clu_byte g (v d) c (unat pos + unat (x - rn)) else buf x)" for x
  proof (cases "x - rn < n")
    case True
    have "unat pos + unat (x - rn) < unat (bytPerClu g)"
    proof -
      have "x - rn < bytPerClu g - pos" using True n(1) by (metis min.strict_boundedE)
      then have "unat (x - rn) < unat (bytPerClu g - pos)" by (simp add: word_less_nat_alt)
      then show ?thesis using n(2) by (simp add: unat_sub word_le_nat_alt word_less_nat_alt)
    qed
    then have "m (of_nat (unat pos + unat (x - rn))) = clu_byte g (v d) c (unat pos + unat (x - rn))" using m(3) by blast
    then show ?thesis using True by (simp add: copy_bytes_def)
  qed (simp add: copy_bytes_def)
  ultimately show ?thesis using m(2) by blast
qed

lemma read_last:
  assumes r: "fat_ready disk V env room G P s H v" "length H < room" "fl_device f = d" "d \<in> V"
    and g: "G d = g" "data_ok g" "clu_ok g c"
    and n: "pos < bytPerClu g" "unat pos + unat cnt \<le> unat (bytPerClu g)"
  shows "\<exists>s' buf'. read_loop env f c pos cnt rn buf s = Some (sint (rn + cnt), f\<lparr>fl_pos := fl_pos f + cnt\<rparr>, buf', s') \<and>
    fat_ready disk V env room G P s' H v \<and>
    (\<forall>x. buf' x = (if x - rn < cnt then file_byte g (v d) (c # cs) (unat pos + unat (x - rn)) else buf x))"
proof (cases "cnt = 0")
  case True
  then show ?thesis using r(1) by (simp add: read_loop.simps)
next
  case False
  have "unat cnt \<le> unat (bytPerClu g - pos)" using n by (simp add: unat_sub word_less_nat_alt word_le_nat_alt)
  then have m: "cnt = min (bytPerClu g - pos) cnt" by (simp add: min_absorb2 word_le_nat_alt)
  obtain s1 buf1 where t: "fat_ready disk V env room G P s1 H v"
    "read_loop env f c pos cnt rn buf s = read_loop env (f\<lparr>fl_pos := fl_pos f + cnt\<rparr>) c 0 0 (rn + cnt) buf1 s1"
    "\<forall>x. buf1 x = (if x - rn < cnt then clu_byte g (v d) c (unat pos + unat (x - rn)) else buf x)"
    using read_turn [OF r g False m n(1), of rn buf] by auto
  have "clu_byte g (v d) c (unat pos + unat (x - rn)) = file_byte g (v d) (c # cs) (unat pos + unat (x - rn))" if "x - rn < cnt" for x
    using that n(2) by (intro file_byte_head [symmetric]) (simp add: word_less_nat_alt)
  then show ?thesis using t by (simp add: read_loop.simps)
qed

lemma read_loop_spec:
  assumes "fat_ready disk V env room G P s H v" and "length H < room" and "fl_device f = d" and "d \<in> V"
    and "G d = g" and "data_ok g" and "fat_chain (fat_entry g (v d)) (c # cs)" and "\<forall>x\<in>set (c # cs). clu_ok g x"
    and "pos < bytPerClu g" and "unat pos + unat cnt \<le> length (c # cs) * unat (bytPerClu g)"
    and "unat rn + unat cnt < 2 ^ 32"
  shows "\<exists>s' buf'. read_loop env f c pos cnt rn buf s = Some (sint (rn + cnt), f\<lparr>fl_pos := fl_pos f + cnt\<rparr>, buf', s') \<and>
    fat_ready disk V env room G P s' H v \<and>
    (\<forall>x. buf' x = (if x - rn < cnt then file_byte g (v d) (c # cs) (unat pos + unat (x - rn)) else buf x))"
  using assms
proof (induction cs arbitrary: c pos cnt rn buf s f)
  case Nil
  then show ?case by (intro read_last) simp_all
next
  case (Cons e cs)
  let ?b = "unat (bytPerClu g)" let ?n = "bytPerClu g - pos"
  have c: "clu_ok g c" using Cons.prems(8) by simp
  show ?case
  proof (cases "unat pos + unat cnt \<le> ?b")
    case True
    then show ?thesis using Cons.prems c by (intro read_last) simp_all
  next
    case False
    have up: "unat ?n = ?b - unat pos" "unat pos < ?b" using Cons.prems(9) by (simp_all add: unat_sub word_less_nat_alt word_le_nat_alt)
    have nc: "?n < cnt" using False up by (simp add: word_less_nat_alt)
    then have m: "?n = min (bytPerClu g - pos) cnt" and ne: "cnt \<noteq> 0" and gt: "0 < cnt - ?n"
      by (auto simp: min_def word_gt_0 dest: less_imp_le)
    let ?f = "f\<lparr>fl_pos := fl_pos f + ?n\<rparr>"
    obtain s1 buf1 where t: "fat_ready disk V env room G P s1 H v"
      "read_loop env f c pos cnt rn buf s = do { (clu, s) \<leftarrow> fat32_nextclu env ?f c s1; read_loop env ?f clu 0 (cnt - ?n) (rn + ?n) buf1 s }"
      "\<forall>x. buf1 x = (if x - rn < ?n then clu_byte g (v d) c (unat pos + unat (x - rn)) else buf x)"
      using read_turn [OF Cons.prems(1-6) c ne m Cons.prems(9), of rn buf] gt by auto
    have ec: "fat_entry g (v d) c = e" and ch: "fat_chain (fat_entry g (v d)) (e # cs)" using Cons.prems(7) by simp_all
    obtain s2 where s2: "fat32_nextclu env ?f c s1 = Some (e, s2)" "fat_ready disk V env room G P s2 H v"
      using nextclu_spec [OF t(1) Cons.prems(2), of ?f c] Cons.prems(3-5) ec by auto
    have un: "unat (cnt - ?n) = unat cnt - unat ?n" using nc by (simp add: unat_sub less_imp_le)
    have ur: "unat (rn + ?n) = unat rn + unat ?n" using Cons.prems(11) nc by (simp add: unat_word_ariths word_less_nat_alt)
    have z: "(0 :: u32) < bytPerClu g" using Cons.prems(9) by (simp add: word_less_nat_alt)
    have l: "unat (0 :: u32) + unat (cnt - ?n) \<le> length (e # cs) * ?b" using Cons.prems(10) un up by simp
    have l2: "unat (rn + ?n) + unat (cnt - ?n) < 2 ^ 32" using Cons.prems(11) un ur nc by (simp add: word_less_nat_alt)
    obtain s' buf' where r: "read_loop env ?f e 0 (cnt - ?n) (rn + ?n) buf1 s2 =
        Some (sint (rn + ?n + (cnt - ?n)), ?f\<lparr>fl_pos := fl_pos ?f + (cnt - ?n)\<rparr>, buf', s')"
      "fat_ready disk V env room G P s' H v"
      "\<forall>x. buf' x = (if x - (rn + ?n) < cnt - ?n then file_byte g (v d) (e # cs) (unat (0 :: u32) + unat (x - (rn + ?n))) else buf1 x)"
      using Cons.IH [OF s2(2) Cons.prems(2) _ Cons.prems(4-6) ch _ z l l2, of ?f buf1] Cons.prems(3,8) by auto
    have "buf' x = (if x - rn < cnt then file_byte g (v d) (c # e # cs) (unat pos + unat (x - rn)) else buf x)" for x
    proof -
      have e: "x - (rn + ?n) = x - rn - ?n" by simp
      note r3 = r(3) [rule_format, of x, unfolded e sub_less_iff [OF less_imp_le [OF nc]]]
      show ?thesis
      proof (cases "?n \<le> x - rn \<and> x - rn < cnt")
        case True
        then have "unat (x - rn - ?n) = unat (x - rn) - unat ?n" "unat ?n \<le> unat (x - rn)" by (simp_all add: unat_sub word_le_nat_alt)
        then have "unat pos + unat (x - rn) = ?b + unat (x - rn - ?n)" using up by simp
        then have "file_byte g (v d) (c # e # cs) (unat pos + unat (x - rn)) = file_byte g (v d) (e # cs) (unat (x - rn - ?n))"
          using file_byte_tail [of g "v d" c "e # cs" "unat (x - rn - ?n)"] up(2) by simp
        moreover have "buf' x = file_byte g (v d) (e # cs) (unat (0 :: u32) + unat (x - rn - ?n))" using r3 True by (simp only: if_True simp_thms)
        ultimately show ?thesis using True by simp
      next
        case out: False
        then have b1: "buf' x = buf1 x" using r3 by (simp only: if_False simp_thms)
        show ?thesis
        proof (cases "x - rn < ?n")
          case True
          then have "x - rn < cnt" "unat pos + unat (x - rn) < ?b" using nc up by (auto simp: word_less_nat_alt)
          then show ?thesis using b1 t(3) True by (simp add: file_byte_head)
        next
          case False
          then have "\<not> x - rn < cnt" using out by (auto simp: not_less)
          then show ?thesis using b1 t(3) False by simp
        qed
      qed
    qed
    then show ?thesis using t(2) s2(1) r(1,2) by auto
  qed
qed


text \<open>The cluster in which a position lies, and the rest of the chain from there.\<close>

lemma position_clu:
  assumes r: "fat_ready disk V env room G P s H v" "length H < room" "fl_device f = d" "d \<in> V"
    and g: "G d = g" "data_ok g" and ch: "fat_chain (fat_entry g (v d)) (fl_data f # cs)"
    and j: "unat (fl_pos f) div unat (bytPerClu g) < length (fl_data f # cs)"
  defines "no \<equiv> unat (fl_pos f) div unat (bytPerClu g)"
  shows "\<exists>s1 c ds. udiv (fl_pos f) (bytPerClu g) = Some (fl_pos f div bytPerClu g) \<and>
    fat32_get_clu_by_order env f (fl_data f) (sint (fl_pos f div bytPerClu g)) s = Some (c, s1) \<and>
    fat_ready disk V env room G P s1 H v \<and> drop no (fl_data f # cs) = c # ds \<and> fat_chain (fat_entry g (v d)) (c # ds)"
proof -
  let ?cs = "fl_data f # cs"
  have b: "0 < unat (bytPerClu g)" "512 \<le> unat (bytPerClu g)" using bytPerClu_nat [OF g(2)] by auto
  have u: "unat (fl_pos f div bytPerClu g) = no" by (simp add: unat_div no_def)
  have "no \<le> unat (fl_pos f) div 512" unfolding no_def using b(2) by (intro div_le_mono2) simp_all
  also have "\<dots> < 2 ^ 31" using unat_32 [of "fl_pos f"] by (simp add: less_mult_imp_div_less)
  finally have n: "nat (sint (fl_pos f div bytPerClu g)) = no" using u by (simp add: sint_small)
  obtain s1 where s1: "clu_loop no env f (fl_data f) s = Some (nth_clu (fat_entry g (v d)) no (fl_data f), s1)"
    "fat_ready disk V env room G P s1 H v"
    using clu_loop_spec [OF r(1,2) r(4) [folded r(3)], of no "fl_data f"] r(3) g(1) by auto
  have jl: "no < length ?cs" using j by (simp add: no_def)
  then have nth: "nth_clu (fat_entry g (v d)) no (fl_data f) = ?cs ! no" by (intro nth_clu_chain [OF ch]) simp
  have dr: "drop no ?cs = ?cs ! no # drop (Suc no) ?cs" using jl by (simp only: Cons_nth_drop_Suc)
  then have "fat_chain (fat_entry g (v d)) (?cs ! no # drop (Suc no) ?cs)" using fat_chain_drop [OF ch jl] by simp
  then show ?thesis using s1 nth dr n b by (auto simp: fat32_get_clu_by_order_def udiv_def)
qed

lemma fat32_read_spec:
  fixes count :: u32
  assumes r: "fat_ready disk V env room G P s H v" "length H < room" "fl_device f = d" "d \<in> V"
    and g: "G d = g" "data_ok g" and ch: "fat_chain (fat_entry g (v d)) (fl_data f # cs)" "\<forall>x\<in>set (fl_data f # cs). clu_ok g x"
    and sz: "fl_pos f \<le> fl_size f" "unat (fl_size f) \<le> length (fl_data f # cs) * unat (bytPerClu g)"
  defines "n \<equiv> min count (fl_size f - fl_pos f)"
  shows "\<exists>s' buf'. fat32_read env f buf count s = Some (sint n, f\<lparr>fl_pos := fl_pos f + n\<rparr>, buf', s') \<and>
    fat_ready disk V env room G P s' H v \<and>
    (\<forall>x. buf' x = (if x < n then file_byte g (v d) (fl_data f # cs) (unat (fl_pos f) + unat x) else buf x))"
proof -
  let ?cs = "fl_data f # cs" let ?b = "unat (bytPerClu g)" let ?j = "unat (fl_pos f) div ?b"
  have b: "0 < ?b" using bytPerClu_nat [OF g(2)] by auto
  have un: "unat n \<le> unat (fl_size f) - unat (fl_pos f)" using sz(1) unfolding n_def
    by (simp add: min_def word_le_nat_alt unat_sub split: if_splits)
  have mn: "(if fl_size f - fl_pos f < count then fl_size f - fl_pos f else count) = n" by (auto simp: n_def min_def)
  have ps: "unat (fl_pos f) \<le> unat (fl_size f)" using sz(1) by (simp add: word_le_nat_alt)
  show ?thesis
  proof (cases "?j < length ?cs")
    case True
    then obtain s1 c ds where c: "udiv (fl_pos f) (bytPerClu g) = Some (fl_pos f div bytPerClu g)"
      "fat32_get_clu_by_order env f (fl_data f) (sint (fl_pos f div bytPerClu g)) s = Some (c, s1)"
      "fat_ready disk V env room G P s1 H v" "drop ?j ?cs = c # ds" "fat_chain (fat_entry g (v d)) (c # ds)"
      using position_clu [OF r g ch(1)] by blast
    have ok: "\<forall>x\<in>set (c # ds). clu_ok g x" using ch(2) c(4) by (metis in_set_dropD)
    let ?p = "fl_pos f mod bytPerClu g"
    have up: "unat ?p = unat (fl_pos f) mod ?b" by (simp add: unat_mod)
    have pl: "?p < bytPerClu g" using up b by (simp add: word_less_nat_alt)
    have len: "length (c # ds) = length ?cs - ?j" using c(4) by (metis length_drop)
    have pos: "unat (fl_pos f) = ?j * ?b + unat (fl_pos f) mod ?b" by simp
    have fit: "unat ?p + unat n \<le> length (c # ds) * ?b"
    proof -
      have "?j * ?b + (unat ?p + unat n) \<le> length ?cs * ?b" using un ps sz(2) pos up by linarith
      moreover have "length ?cs * ?b = ?j * ?b + length (c # ds) * ?b" using True by (simp add: len add_mult_distrib [symmetric] del: list.size)
      ultimately show ?thesis by linarith
    qed
    have z: "unat (0 :: u32) + unat n < 2 ^ 32" using unat_32 [of n] by simp
    obtain s' buf' where l: "read_loop env f c ?p n 0 buf s1 = Some (sint (0 + n), f\<lparr>fl_pos := fl_pos f + n\<rparr>, buf', s')"
      "fat_ready disk V env room G P s' H v"
      "\<forall>x. buf' x = (if x - 0 < n then file_byte g (v d) (c # ds) (unat ?p + unat (x - 0)) else buf x)"
      using read_loop_spec [OF c(3) r(2-4) g c(5) ok pl fit z] by blast
    have "file_byte g (v d) (c # ds) (unat ?p + k) = file_byte g (v d) ?cs (unat (fl_pos f) + k)" for k
      using file_byte_drop [OF b, of ?j ?cs "v d" "unat ?p + k"] True pos up unfolding c(4) by (simp add: add.assoc)
    then show ?thesis using l c(1,2) mn by (simp add: fat32_read_def fat_ready_fat [OF r(1)] fat_ready_fat [OF c(3)] r(3) g(1))
  next
    case False
    then have "length ?cs * ?b \<le> ?j * ?b" by (intro mult_le_mono1) simp
    also have "\<dots> \<le> unat (fl_pos f)" by simp
    finally have "unat n = 0" using un sz(2) by simp
    then have n0: "n = 0" by (simp add: unat_eq_0)
    obtain c s1 where "fat32_get_clu_by_order env f (fl_data f) (sint (fl_pos f div bytPerClu g)) s = Some (c, s1)"
      "fat_ready disk V env room G P s1 H v"
      using clu_loop_spec [OF r(1,2) r(4) [folded r(3)]] unfolding fat32_get_clu_by_order_def by blast
    then show ?thesis using mn n0 b
      by (auto simp: fat32_read_def fat_ready_fat [OF r(1)] r(3) g(1) udiv_def read_loop.simps)
  qed
qed


section \<open>Writing files\<close>

text \<open>The entry of a cluster lies in front of the data.\<close>

definition in_table :: "FAT32DEV \<Rightarrow> u32 \<Rightarrow> bool" where
  "in_table g x \<longleftrightarrow> unat (fatAddr g + x * 4) + 4 \<le> unat (dataAddr g)"

lemma tbl_word_lin:
  assumes a: "a mod 4 = 0" and e: "\<forall>i<4. lin w (unat a + i) = lin v (unat a + i)"
  shows "tbl_word w a = tbl_word v a"
proof -
  have "unat a mod 4096 mod 4 = 0" using a mod4_nat [of a] by (simp add: mod_mod_cancel)
  then obtain q where q: "unat a mod 4096 = 4 * q" by auto
  then have q1: "4 * q + 4 \<le> 4096" using mod_less_divisor [of 4096 "unat a"] by (cases "q < 1024") auto
  have b: "u (a div 4096) (a mod 4096 + of_nat i) = lin u (unat a + i)" if "i < 4" for i u
  proof -
    have "(unat a + i) div 4096 = unat a div 4096" "(unat a + i) mod 4096 = unat a mod 4096 + i"
      using q q1 that by (simp_all add: div_add1_eq [of "unat a"] mod_add_eq [symmetric, of "unat a"])
    moreover have "(of_nat (unat a div 4096) :: u32) = a div 4096"
      using le_less_trans [OF div_le_dividend unat_32, of a 4096] by (simp add: word_unat_eq_iff unat_div unat_of_nat)
    moreover have "(of_nat (unat a mod 4096 + i) :: u32) = a mod 4096 + of_nat i" by (simp add: word_unat_eq_iff unat_mod unat_of_nat unat_word_ariths)
    ultimately show ?thesis by (simp add: lin_def)
  qed
  have "w (a div 4096) (a mod 4096 + of_nat i) = v (a div 4096) (a mod 4096 + of_nat i)" if "i < 4" for i
    using b [OF that, of w] b [OF that, of v] e that by simp
  from this [of 0] this [of 1] this [of 2] this [of 3] show ?thesis by (simp add: tbl_word_def ld32_def)
qed

lemma fat_entry_lin:
  assumes "fatAddr g mod 4 = 0" and "in_table g x" and "\<forall>a<2 ^ 44. (\<forall>y\<in>C. \<not> (clu_addr g y \<le> a \<and> a < clu_addr g y + unat (bytPerClu g))) \<longrightarrow> lin w a = lin v a"
  shows "fat_entry g w x = fat_entry g v x"
proof -
  have "lin w (unat (fatAddr g + x * 4) + i) = lin v (unat (fatAddr g + x * 4) + i)" if "i < 4" for i
  proof -
    let ?a = "unat (fatAddr g + x * 4) + i"
    have lt: "?a < unat (dataAddr g)" using assms(2) that by (simp add: in_table_def)
    then have "\<forall>y\<in>C. \<not> (clu_addr g y \<le> ?a \<and> ?a < clu_addr g y + unat (bytPerClu g))" by (auto simp: clu_addr_def)
    moreover have "?a < 2 ^ 44" using lt unat_32 [of "dataAddr g"] by simp
    ultimately show ?thesis using assms(3) by blast
  qed
  then show ?thesis unfolding fat_entry_def using tbl_word_lin [OF cluster_addr [OF assms(1)]] by blast
qed

lemma fat_chain_cong: "\<forall>x\<in>set cs. e' x = e x \<Longrightarrow> fat_chain e' cs = fat_chain e cs"
  by (induction e cs rule: fat_chain.induct) auto

lemma write_turn:
  assumes r: "fat_ready disk V env room G P s H v" "length H < room" "fl_device f = d" "d \<in> V"
    and g: "G d = g" "data_ok g" "clu_ok g c" and cnt: "cnt \<noteq> 0" and n: "n = min (bytPerClu g - pos) cnt" "pos < bytPerClu g"
  shows "\<exists>s1 w. fat_ready disk V env room G P s1 H (v(d := w)) \<and>
    write_loop env f c pos cnt wn buf s = do {
      (clu, s) \<leftarrow> (if 0 < cnt - n then fat32_nextclu env f c s1 else Some (c, s1));
      write_loop env f clu 0 (cnt - n) (wn + n) buf s } \<and>
    (\<forall>i<unat (bytPerClu g). clu_byte g w c i =
       (if unat pos \<le> i \<and> i < unat pos + unat n then buf (wn + of_nat (i - unat pos))
        else if pos \<noteq> 0 then clu_byte g (v d) c i else fe_fresh env (of_nat i))) \<and>
    (\<forall>a<2 ^ 44. \<not> (clu_addr g c \<le> a \<and> a < clu_addr g c + unat (bytPerClu g)) \<longrightarrow> lin w a = lin (v d) a)"
proof -
  obtain s0 m where m: "(if pos \<noteq> 0 then need_clu env f c s else Some (fe_fresh env, s)) = Some (m, s0)"
    "fat_ready disk V env room G P s0 H v" "\<forall>i<unat (bytPerClu g). m (of_nat i) = (if pos \<noteq> 0 then clu_byte g (v d) c i else fe_fresh env (of_nat i))"
    using need_clu_spec [OF r(1,2) r(4) [folded r(3)] g(1) [folded r(3)] g(2,3)] r(1,3) by (cases "pos = 0") auto
  let ?m = "copy_bytes m pos buf wn n"
  obtain s1 w where w: "fat32_writeclu env f c ?m s0 = Some (0, s1)" "fat_ready disk V env room G P s1 H (v(d := w))"
    "\<forall>a<2 ^ 44. lin w a = (if clu_addr g c \<le> a \<and> a < clu_addr g c + unat (bytPerClu g) then ?m (of_nat (a - clu_addr g c)) else lin (v d) a)"
    using writeclu_spec [OF m(2) r(2) r(4) [folded r(3)] g(1) [folded r(3)] g(2,3), of ?m] r(3) by auto
  have "IS_FAT32CLU_INUSE c" using g(3) by (simp add: clu_ok_def)
  then have "write_loop env f c pos cnt wn buf s = do {
      (clu, s) \<leftarrow> (if 0 < cnt - n then fat32_nextclu env f c s1 else Some (c, s1));
      write_loop env f clu 0 (cnt - n) (wn + n) buf s }"
    using cnt m(1) w(1) unfolding write_loop.simps [of env f c pos cnt wn buf s]
    by (simp add: fat_ready_fat [OF r(1)] r(3) g(1) n(1) [symmetric] Let_def)
  moreover have "clu_byte g w c i = (if unat pos \<le> i \<and> i < unat pos + unat n then buf (wn + of_nat (i - unat pos))
        else if pos \<noteq> 0 then clu_byte g (v d) c i else fe_fresh env (of_nat i))" if i: "i < unat (bytPerClu g)" for i
  proof -
    have u: "unat (of_nat i :: u32) = i" using i unat_32 [of "bytPerClu g"] by (simp add: unat_of_nat)
    have np: "n \<le> bytPerClu g - pos" using n(1) by simp
    then have up: "unat (pos + n) = unat pos + unat n"
      using n(2) unat_32 [of "bytPerClu g"] by (simp add: word_le_nat_alt word_less_nat_alt unat_sub unat_word_ariths)
    have "of_nat i - pos < n \<longleftrightarrow> of_nat i - pos < (pos + n) - pos" by simp
    also have "\<dots> \<longleftrightarrow> pos \<le> of_nat i \<and> of_nat i < pos + n" by (rule sub_less_iff) (simp add: word_le_nat_alt up)
    also have "\<dots> \<longleftrightarrow> unat pos \<le> i \<and> i < unat pos + unat n" by (simp add: word_le_nat_alt word_less_nat_alt up u)
    finally have c: "of_nat i - pos < n \<longleftrightarrow> unat pos \<le> i \<and> i < unat pos + unat n" .
    have "of_nat i - pos = of_nat (i - unat pos)" if "unat pos \<le> i" using that by (simp add: of_nat_diff)
    then have "?m (of_nat i) = (if unat pos \<le> i \<and> i < unat pos + unat n then buf (wn + of_nat (i - unat pos)) else m (of_nat i))"
      using c by (auto simp: copy_bytes_def)
    moreover have "clu_byte g w c i = ?m (of_nat i)" using clu_byte_written [OF w(3) g(3) g(3) i] by simp
    ultimately show ?thesis using m(3) i by simp
  qed
  moreover have "\<forall>a<2 ^ 44. \<not> (clu_addr g c \<le> a \<and> a < clu_addr g c + unat (bytPerClu g)) \<longrightarrow> lin w a = lin (v d) a"
    using w(3) by simp
  ultimately show ?thesis using w(2) by blast
qed


text \<open>What a write has done: the bytes are in the file, those before the position are unchanged, the chain is
  the same, and nothing outside its clusters has changed.\<close>

definition written :: "FAT32DEV \<Rightarrow> u32 list \<Rightarrow> (u32 \<Rightarrow> bytes) \<Rightarrow> nat \<Rightarrow> nat \<Rightarrow> (nat \<Rightarrow> u8) \<Rightarrow> (u32 \<Rightarrow> bytes) \<Rightarrow> bool" where
  "written g cs u p n b w \<longleftrightarrow> (\<forall>k<n. file_byte g w cs (p + k) = b k) \<and> (\<forall>k<p. file_byte g w cs k = file_byte g u cs k) \<and>
     (\<forall>a<2 ^ 44. (\<forall>y\<in>set cs. \<not> (clu_addr g y \<le> a \<and> a < clu_addr g y + unat (bytPerClu g))) \<longrightarrow> lin w a = lin u a)"

lemma written_last:
  assumes r: "fat_ready disk V env room G P s H v" "length H < room" "fl_device f = d" "d \<in> V"
    and g: "G d = g" "data_ok g" "clu_ok g c"
    and n: "pos < bytPerClu g" "unat pos + unat cnt \<le> unat (bytPerClu g)"
    and cs: "\<forall>x\<in>set cs. clu_ok g x" "c \<notin> set cs"
  shows "\<exists>s' w. write_loop env f c pos cnt wn buf s = Some (None, wn + cnt, s') \<and>
    fat_ready disk V env room G P s' H (v(d := w)) \<and> written g (c # cs) (v d) (unat pos) (unat cnt) (\<lambda>k. buf (wn + of_nat k)) w"
proof (cases "cnt = 0")
  case True
  then show ?thesis using r(1) by (intro exI [of _ s] exI [of _ "v d"]) (simp add: write_loop.simps written_def)
next
  case False
  have "unat cnt \<le> unat (bytPerClu g - pos)" using n by (simp add: unat_sub word_less_nat_alt word_le_nat_alt)
  then have m: "cnt = min (bytPerClu g - pos) cnt" by (simp add: min_absorb2 word_le_nat_alt)
  obtain s1 w where t: "fat_ready disk V env room G P s1 H (v(d := w))"
    "write_loop env f c pos cnt wn buf s = write_loop env f c 0 0 (wn + cnt) buf s1"
    "\<forall>i<unat (bytPerClu g). clu_byte g w c i = (if unat pos \<le> i \<and> i < unat pos + unat cnt then buf (wn + of_nat (i - unat pos))
        else if pos \<noteq> 0 then clu_byte g (v d) c i else fe_fresh env (of_nat i))"
    "\<forall>a<2 ^ 44. \<not> (clu_addr g c \<le> a \<and> a < clu_addr g c + unat (bytPerClu g)) \<longrightarrow> lin w a = lin (v d) a"
    using write_turn [OF r g False m n(1), of wn buf] by auto
  have "file_byte g w (c # cs) (unat pos + k) = buf (wn + of_nat k)" if "k < unat cnt" for k
    using t(3) that n(2) by (simp add: file_byte_head)
  moreover have "file_byte g w (c # cs) k = file_byte g (v d) (c # cs) k" if "k < unat pos" for k
    using t(3) that n(1) by (auto simp: file_byte_head word_less_nat_alt unat_eq_0)
  ultimately have "written g (c # cs) (v d) (unat pos) (unat cnt) (\<lambda>k. buf (wn + of_nat k)) w"
    using t(4) unfolding written_def by auto
  then show ?thesis using t(1,2) by (auto simp: write_loop.simps)
qed

lemma write_loop_spec:
  assumes "fat_ready disk V env room G P s H v" and "length H < room" and "fl_device f = d" and "d \<in> V"
    and "G d = g" and "data_ok g" and "fatAddr g mod 4 = 0" and "fat_chain (fat_entry g (v d)) (c # cs)"
    and "\<forall>x\<in>set (c # cs). clu_ok g x \<and> in_table g x" and "distinct (c # cs)"
    and "pos < bytPerClu g" and "unat pos + unat cnt \<le> length (c # cs) * unat (bytPerClu g)"
  shows "\<exists>s' w. write_loop env f c pos cnt wn buf s = Some (None, wn + cnt, s') \<and>
    fat_ready disk V env room G P s' H (v(d := w)) \<and> written g (c # cs) (v d) (unat pos) (unat cnt) (\<lambda>k. buf (wn + of_nat k)) w"
  using assms
proof (induction cs arbitrary: c pos cnt wn s v)
  case Nil
  then show ?case by (intro written_last) simp_all
next
  case (Cons e cs)
  let ?b = "unat (bytPerClu g)" let ?n = "bytPerClu g - pos"
  have c: "clu_ok g c" using Cons.prems(9) by simp
  show ?case
  proof (cases "unat pos + unat cnt \<le> ?b")
    case True
    then show ?thesis using Cons.prems c by (intro written_last) auto
  next
    case False
    have up: "unat ?n = ?b - unat pos" "unat pos < ?b" using Cons.prems(11) by (simp_all add: unat_sub word_less_nat_alt word_le_nat_alt)
    have nc: "?n < cnt" using False up by (simp add: word_less_nat_alt)
    then have m: "?n = min (bytPerClu g - pos) cnt" and ne: "cnt \<noteq> 0" and gt: "0 < cnt - ?n"
      by (auto simp: min_def word_gt_0 dest: less_imp_le)
    obtain s1 w1 where t: "fat_ready disk V env room G P s1 H (v(d := w1))"
      "write_loop env f c pos cnt wn buf s = do { (clu, s) \<leftarrow> fat32_nextclu env f c s1; write_loop env f clu 0 (cnt - ?n) (wn + ?n) buf s }"
      "\<forall>i<?b. clu_byte g w1 c i = (if unat pos \<le> i \<and> i < unat pos + unat ?n then buf (wn + of_nat (i - unat pos))
        else if pos \<noteq> 0 then clu_byte g (v d) c i else fe_fresh env (of_nat i))"
      "\<forall>a<2 ^ 44. \<not> (clu_addr g c \<le> a \<and> a < clu_addr g c + ?b) \<longrightarrow> lin w1 a = lin (v d) a"
      using write_turn [OF Cons.prems(1-6) c ne m Cons.prems(11), of wn buf] gt by auto
    have same: "fat_entry g w1 x = fat_entry g (v d) x" if "in_table g x" for x
      by (rule fat_entry_lin [OF Cons.prems(7) that, of "{c}"]) (use t(4) in simp)
    have "fat_chain (fat_entry g w1) (c # e # cs)"
      using Cons.prems(8,9) fat_chain_cong [of "c # e # cs" "fat_entry g w1" "fat_entry g (v d)"] same by simp
    then have ec: "fat_entry g w1 c = e" and ch: "fat_chain (fat_entry g ((v(d := w1)) d)) (e # cs)" by simp_all
    obtain s2 where s2: "fat32_nextclu env f c s1 = Some (e, s2)" "fat_ready disk V env room G P s2 H (v(d := w1))"
      using nextclu_spec [OF t(1) Cons.prems(2), of f c] Cons.prems(3-5) ec by auto
    have un: "unat (cnt - ?n) = unat cnt - unat ?n" using nc by (simp add: unat_sub less_imp_le)
    have z: "(0 :: u32) < bytPerClu g" using Cons.prems(11) by (simp add: word_less_nat_alt)
    have l: "unat (0 :: u32) + unat (cnt - ?n) \<le> length (e # cs) * ?b" using Cons.prems(12) un up by simp
    have ok: "\<forall>x\<in>set (e # cs). clu_ok g x \<and> in_table g x" and dis: "distinct (e # cs)" using Cons.prems(9,10) by simp_all
    obtain s' w where r: "write_loop env f e 0 (cnt - ?n) (wn + ?n) buf s2 = Some (None, wn + ?n + (cnt - ?n), s')"
      "fat_ready disk V env room G P s' H (v(d := w1, d := w))"
      "written g (e # cs) ((v(d := w1)) d) (unat (0 :: u32)) (unat (cnt - ?n)) (\<lambda>k. buf (wn + ?n + of_nat k)) w"
      using Cons.IH [OF s2(2) Cons.prems(2-7) ch ok dis z l] by blast
    have out: "\<not> (clu_addr g y \<le> clu_addr g c + i \<and> clu_addr g c + i < clu_addr g y + ?b)" if "y \<in> set (e # cs)" "i < ?b" for y i
      using clu_addr_disjoint [OF c, of y "clu_addr g c + i"] that Cons.prems(9,10) by auto
    have cw: "clu_byte g w c i = clu_byte g w1 c i" if "i < ?b" for i
      using r(3) out that clu_small [OF c that] unfolding written_def clu_byte_def by simp
    have "file_byte g w (c # e # cs) (unat pos + k) = buf (wn + of_nat k)" if k: "k < unat cnt" for k
    proof (cases "unat pos + k < ?b")
      case True
      then show ?thesis using cw t(3) up by (simp add: file_byte_head)
    next
      case False
      then obtain j where j: "unat pos + k = ?b + j" by (metis le_add_diff_inverse not_less)
      then have kj: "k = unat ?n + j" "j < unat (cnt - ?n)" using up k un by auto
      have "file_byte g w (e # cs) j = buf (wn + ?n + of_nat j)" using r(3) kj(2) unfolding written_def by auto
      moreover have "(of_nat k :: u32) = ?n + of_nat j" unfolding kj(1) by (simp only: of_nat_add) simp
      ultimately show ?thesis using file_byte_tail [of g w c "e # cs" j] up(2) unfolding j by (simp add: add.assoc)
    qed
    moreover have "file_byte g w (c # e # cs) k = file_byte g (v d) (c # e # cs) k" if "k < unat pos" for k
      using t(3) that up(2) cw by (auto simp: file_byte_head unat_eq_0)
    moreover have "\<forall>a<2 ^ 44. (\<forall>y\<in>set (c # e # cs). \<not> (clu_addr g y \<le> a \<and> a < clu_addr g y + ?b)) \<longrightarrow> lin w a = lin (v d) a"
      using r(3) t(4) unfolding written_def by simp
    ultimately have "written g (c # e # cs) (v d) (unat pos) (unat cnt) (\<lambda>k. buf (wn + of_nat k)) w"
      unfolding written_def by blast
    moreover have "write_loop env f c pos cnt wn buf s = Some (None, wn + cnt, s')" using t(2) s2(1) r(1) by simp
    moreover have "fat_ready disk V env room G P s' H (v(d := w))" using r(2) by (simp only: fun_upd_upd)
    ultimately show ?thesis by blast
  qed
qed


lemma written_drop:
  assumes b: "0 < unat (bytPerClu g)" and j: "j < length cs" and ok: "\<forall>x\<in>set cs. clu_ok g x" "distinct cs"
    and w: "written g (drop j cs) u p n b w"
  shows "written g cs u (j * unat (bytPerClu g) + p) n b w"
proof -
  let ?b = "unat (bytPerClu g)"
  have "file_byte g w cs (j * ?b + p + k) = b k" if "k < n" for k
    using w that file_byte_drop [OF b less_imp_le [OF j], of w "p + k"] by (simp add: written_def add.assoc)
  moreover have "file_byte g w cs k = file_byte g u cs k" if k: "k < j * ?b + p" for k
  proof (cases "j * ?b \<le> k")
    case True
    then obtain i where i: "k = j * ?b + i" by (metis le_add_diff_inverse)
    then have "i < p" using k by simp
    then show ?thesis using w file_byte_drop [OF b less_imp_le [OF j]] unfolding i by (simp add: written_def)
  next
    case False
    let ?i = "k div ?b" let ?y = "cs ! ?i"
    have i: "?i < j" using False b by (simp add: less_mult_imp_div_less)
    have m: "k mod ?b < ?b" using b by simp
    have y: "?y \<in> set cs" using i j by simp
    have "?y \<notin> set (drop j cs)"
    proof
      assume "?y \<in> set (drop j cs)"
      then obtain l where "l < length cs - j" "cs ! (j + l) = ?y" using j by (auto simp: in_set_conv_nth)
      then show False using ok(2) i j by (auto simp: distinct_conv_nth)
    qed
    then have "\<forall>x\<in>set (drop j cs). \<not> (clu_addr g x \<le> clu_addr g ?y + k mod ?b \<and> clu_addr g ?y + k mod ?b < clu_addr g x + ?b)"
      using clu_addr_disjoint [of g ?y _ "clu_addr g ?y + k mod ?b"] ok(1) y m by (metis in_set_dropD le_add1 nat_add_left_cancel_less)
    moreover have "clu_addr g ?y + k mod ?b < 2 ^ 44" using clu_small [OF bspec [OF ok(1) y] m] .
    ultimately show ?thesis using w by (simp add: written_def file_byte_def clu_byte_def)
  qed
  moreover have "lin w a = lin u a" if "a < 2 ^ 44" "\<forall>y\<in>set cs. \<not> (clu_addr g y \<le> a \<and> a < clu_addr g y + ?b)" for a
    using w that unfolding written_def by (meson in_set_dropD)
  ultimately show ?thesis unfolding written_def by blast
qed

lemma fat32_write_spec:
  assumes r: "fat_ready disk V env room G P s H v" "length H < room" "fl_device f = d" "d \<in> V"
    and g: "G d = g" "data_ok g" "fatAddr g mod 4 = 0" and ch: "fat_chain (fat_entry g (v d)) (fl_data f # cs)"
    and ok: "\<forall>x\<in>set (fl_data f # cs). clu_ok g x \<and> in_table g x" "distinct (fl_data f # cs)"
    and cnt: "cnt \<noteq> 0" "unat (fl_pos f) + unat cnt \<le> unat (fl_size f)"
    and sz: "unat (fl_size f) \<le> length (fl_data f # cs) * unat (bytPerClu g)"
  shows "\<exists>s' w. fat32_write env f buf cnt s = Some (sint cnt, f\<lparr>fl_pos := fl_pos f + cnt\<rparr>, s') \<and>
    fat_ready disk V env room G P s' H (v(d := w)) \<and>
    written g (fl_data f # cs) (v d) (unat (fl_pos f)) (unat cnt) (\<lambda>k. buf (of_nat k)) w"
proof -
  let ?cs = "fl_data f # cs" let ?b = "unat (bytPerClu g)" let ?j = "unat (fl_pos f) div ?b" let ?p = "fl_pos f mod bytPerClu g"
  have b: "0 < ?b" using bytPerClu_nat [OF g(2)] by auto
  have c0: "0 < unat cnt" using cnt(1) by (simp add: unat_eq_0 flip: neq0_conv)
  have j: "?j < length ?cs"
  proof -
    have "unat (fl_pos f) < length ?cs * ?b" using c0 cnt(2) sz by linarith
    then show ?thesis by (rule less_mult_imp_div_less)
  qed
  obtain s1 c ds where c: "udiv (fl_pos f) (bytPerClu g) = Some (fl_pos f div bytPerClu g)"
    "fat32_get_clu_by_order env f (fl_data f) (sint (fl_pos f div bytPerClu g)) s = Some (c, s1)"
    "fat_ready disk V env room G P s1 H v" "drop ?j ?cs = c # ds" "fat_chain (fat_entry g (v d)) (c # ds)"
    using position_clu [OF r g(1,2) ch j] by blast
  have ok': "\<forall>x\<in>set (c # ds). clu_ok g x \<and> in_table g x" "distinct (c # ds)"
    using ok c(4) by (metis in_set_dropD, metis distinct_drop)
  have up: "unat ?p = unat (fl_pos f) mod ?b" by (simp add: unat_mod)
  have pl: "?p < bytPerClu g" using up b by (simp add: word_less_nat_alt)
  have pos: "unat (fl_pos f) = ?j * ?b + unat ?p" unfolding up by simp
  have fit: "unat ?p + unat cnt \<le> length (c # ds) * ?b"
  proof -
    have "length (c # ds) = length ?cs - ?j" using c(4) by (metis length_drop)
    then have "length ?cs * ?b = ?j * ?b + length (c # ds) * ?b" using j by (simp add: add_mult_distrib [symmetric] del: list.size)
    then show ?thesis using cnt(2) sz pos by linarith
  qed
  obtain s' w where l: "write_loop env f c ?p cnt 0 buf s1 = Some (None, 0 + cnt, s')"
    "fat_ready disk V env room G P s' H (v(d := w))"
    "written g (c # ds) (v d) (unat ?p) (unat cnt) (\<lambda>k. buf (0 + of_nat k)) w"
    using write_loop_spec [OF c(3) r(2-4) g c(5) ok' pl fit] by blast
  have "written g ?cs (v d) (?j * ?b + unat ?p) (unat cnt) (\<lambda>k. buf (of_nat k)) w"
    by (rule written_drop [OF b j _ ok(2)]) (use ok(1) l(3) c(4) in auto)
  then have "written g ?cs (v d) (unat (fl_pos f)) (unat cnt) (\<lambda>k. buf (of_nat k)) w" using pos by simp
  moreover have "\<not> fl_size f < fl_pos f + cnt"
  proof -
    have "unat (fl_pos f) + unat cnt < 2 ^ 32" using cnt(2) unat_32 [of "fl_size f"] by simp
    then have "unat (fl_pos f + cnt) = unat (fl_pos f) + unat cnt" by (simp add: unat_word_ariths)
    then show ?thesis using cnt(2) by (simp add: word_less_nat_alt)
  qed
  ultimately show ?thesis using l(1,2) c(1,2) cnt(1)
    by (intro exI [of _ s'] exI [of _ w]) (simp add: fat32_write_def fat_ready_fat [OF r(1)] fat_ready_fat [OF c(3)] r(3) g(1))
qed

text \<open>Files without a common cluster do not touch each other.\<close>

lemma written_other:
  assumes b: "0 < unat (bytPerClu g)" and w: "written g cs u p n b w" and cs: "\<forall>x\<in>set cs. clu_ok g x"
    and ds: "\<forall>x\<in>set ds. clu_ok g x \<and> x \<notin> set cs" and k: "k < length ds * unat (bytPerClu g)"
  shows "file_byte g w ds k = file_byte g u ds k"
proof -
  let ?b = "unat (bytPerClu g)" let ?y = "ds ! (k div ?b)"
  have "k div ?b < length ds" using k by (rule less_mult_imp_div_less)
  then have y: "clu_ok g ?y" "?y \<notin> set cs" using ds by simp_all
  have m: "k mod ?b < ?b" using b by simp
  have "\<not> (clu_addr g x \<le> clu_addr g ?y + k mod ?b \<and> clu_addr g ?y + k mod ?b < clu_addr g x + ?b)" if "x \<in> set cs" for x
    using clu_addr_disjoint [OF y(1), of x "clu_addr g ?y + k mod ?b"] cs y(2) that m by auto
  then show ?thesis using w clu_small [OF y(1) m] by (simp add: written_def file_byte_def clu_byte_def)
qed


section \<open>Properties\<close>

text \<open>(C34) The block number and the position in it that \<open>fat32_readclu\<close> and \<open>fat32_writeclu\<close> compute with 32-bit
  words, the one in sectors, the other by an expression with three remainders, are together the byte
  address of the cluster, computed without bounds, for every cluster in the first two terabytes of a disk.\<close>
theorem cluster_address_exact:
  assumes "data_ok g" and "clu_ok g c"
  shows "\<exists>k. clu_block g c = Some k \<and> unat k * 4096 + unat (clu_pos g c) = unat (dataAddr g) + (unat c - 2) * unat (bytPerClu g) \<and>
    unat (clu_pos g c) < 4096"
proof -
  obtain k where k: "clu_block g c = Some k" "unat k = clu_addr g c div 4096" using clu_place(1) [OF assms] by blast
  then have "unat k * 4096 + unat (clu_pos g c) = clu_addr g c" using clu_place(2) [OF assms] by simp
  moreover have "unat (clu_pos g c) < 4096" unfolding clu_place(2) [OF assms] by simp
  ultimately show ?thesis using k(1) by (auto simp: clu_addr_def)
qed

text \<open>A cluster behind the first four gigabytes of a large disk.\<close>
lemma cluster_address_exact_witness:
  "\<exists>k. clu_block (wit_dev\<lparr>secPerClu := 64, bytPerClu := 0x8000\<rparr>) 1000002 = Some k \<and>
     unat k * 4096 + unat (clu_pos (wit_dev\<lparr>secPerClu := 64, bytPerClu := 0x8000\<rparr>) 1000002) = 32768008192"
  using cluster_address_exact [of "wit_dev\<lparr>secPerClu := 64, bytPerClu := 0x8000\<rparr>" 1000002]
  by (auto simp: data_ok_def clu_ok_def clu_addr_def wit_dev_def IS_FAT32CLU_INUSE_def)

text \<open>(C32) \<open>fat32_read\<close> refines reading from a sequence of bytes: for a file whose chain of clusters is long
  enough for its size it returns as many bytes as were asked for and are left, puts exactly the bytes of
  the file from the position on into the buffer, advances the position and changes nothing on the disk.\<close>
theorem read_returns_content:
  fixes count :: u32
  assumes "fat_ready disk V env room G P s H v" and "length H < room" and "fl_device f = d" and "d \<in> V"
    and "G d = g" and "data_ok g" and "fat_chain (fat_entry g (v d)) (fl_data f # cs)" and "\<forall>x\<in>set (fl_data f # cs). clu_ok g x"
    and "fl_pos f \<le> fl_size f" and "unat (fl_size f) \<le> length (fl_data f # cs) * unat (bytPerClu g)"
    and "n = min count (fl_size f - fl_pos f)"
  shows "\<exists>s' buf'. fat32_read env f buf count s = Some (sint n, f\<lparr>fl_pos := fl_pos f + n\<rparr>, buf', s') \<and>
    fat_ready disk V env room G P s' H v \<and>
    (\<forall>x. buf' x = (if x < n then file_byte g (v d) (fl_data f # cs) (unat (fl_pos f) + unat x) else buf x))"
  unfolding assms(11) by (rule fat32_read_spec [OF assms(1-10)])

text \<open>A file of clusters 2 and 3 with 1024 bytes, on the disk with the same content in every block; the table is
  the content as well.\<close>

definition wit_bytes :: bytes where
  "wit_bytes x = (if x = 8 then 3 else if x < 9 \<or> 12 \<le> x \<and> x < 16 then 0xFF else 0)"

lemma wit_chain: "fat_chain (fat_entry wit_dev (wit_view (\<lambda>_ _. wit_bytes) 1)) [2, 3]"
  by (simp add: wit_view_same fat_entry_def tbl_word_def ld32_def wit_dev_def wit_bytes_def IS_FAT32CLU_INUSE_def)

lemma wit_geometry: "data_ok wit_dev" "\<forall>x\<in>set [2, 3]. clu_ok wit_dev x \<and> in_table wit_dev x" "bytPerClu wit_dev = 512"
  by (simp_all add: data_ok_def clu_ok_def in_table_def clu_addr_def wit_dev_def IS_FAT32CLU_INUSE_def)

lemma wit_content:
  assumes "k < 1024"
  shows "file_byte wit_dev (wit_view (\<lambda>_ _. wit_bytes) 1) [2, 3] k = wit_bytes (of_nat k)"
proof -
  have e: "k = k div 512 * 512 + k mod 512" by simp
  have m: "(8192 + k) mod 4096 = k" using assms by (simp add: mod_add_eq [symmetric, of 8192])
  have "k div 512 = 0 \<or> k div 512 = 1" using assms by auto
  then have "clu_addr wit_dev ([2, 3] ! (k div 512)) + k mod 512 = 8192 + k"
  proof
    assume z: "k div 512 = 0"
    have "k = 0 * 512 + k mod 512" using e unfolding z .
    then show ?thesis by (simp add: z clu_addr_def wit_dev_def)
  next
    assume z: "k div 512 = 1"
    have "k = 1 * 512 + k mod 512" using e unfolding z .
    then have "8192 + 512 + k mod 512 = 8192 + k" by linarith
    then show ?thesis by (simp add: z clu_addr_def wit_dev_def)
  qed
  then show ?thesis using m by (simp add: file_byte_def clu_byte_def wit_geometry(3) lin_def wit_view_same)
qed

definition wit_open :: file_t where
  "wit_open = wit_file\<lparr>fl_size := 1024, fl_pos := 8\<rparr>"

lemma wit_open_simps [simp]: "fl_device wit_open = 1" "fl_data wit_open = 2" "fl_pos wit_open = 8" "fl_size wit_open = 1024"
  by (simp_all add: wit_open_def wit_file_def)

lemma read_returns_content_witness:
  "\<exists>s' buf'. fat32_read wit_env wit_open (\<lambda>_. 7) 2000 (wit_state wit_dev (\<lambda>_ _. wit_bytes)) =
     Some (1016, wit_open\<lparr>fl_pos := 1024\<rparr>, buf', s') \<and> buf' 0 = 3 \<and> buf' 4 = 0xFF \<and> buf' 1016 = 7"
proof -
  have n: "(1016 :: u32) = min 2000 (fl_size wit_open - fl_pos wit_open)" by (simp add: min_def)
  have "sint (1016 :: u32) = 1016" by (simp add: sint_small)
  then show ?thesis
    using read_returns_content [OF wit_ready [where g = wit_dev and disk = "\<lambda>_ _. wit_bytes"] _ _ _ _ wit_geometry(1) _ _ _ _ n,
        where d = 1 and cs = "[3]" and buf = "\<lambda>_. 7"] wit_chain wit_geometry(2,3) wit_content [of 8] wit_content [of 12]
    by (auto simp: wit_bytes_def)
qed

text \<open>(C33) Overwriting bytes inside a file: \<open>fat32_write\<close> accepts all of them, a \<open>fat32_read\<close> from the same position
  returns exactly them, the file before the position is as it was, and no file that shares no cluster with
  it has changed.\<close>
theorem write_then_read:
  assumes r: "fat_ready disk V env room G P s H v" "length H < room" "fl_device f = d" "d \<in> V"
    and g: "G d = g" "data_ok g" "fatAddr g mod 4 = 0" and ch: "fat_chain (fat_entry g (v d)) (fl_data f # cs)"
    and ok: "\<forall>x\<in>set (fl_data f # cs). clu_ok g x \<and> in_table g x" "distinct (fl_data f # cs)"
    and cnt: "cnt \<noteq> 0" "unat (fl_pos f) + unat cnt \<le> unat (fl_size f)"
    and sz: "unat (fl_size f) \<le> length (fl_data f # cs) * unat (bytPerClu g)"
  shows "\<exists>s1 w s2 buf'. fat32_write env f data cnt s = Some (sint cnt, f\<lparr>fl_pos := fl_pos f + cnt\<rparr>, s1) \<and>
    fat_ready disk V env room G P s1 H (v(d := w)) \<and>
    fat32_read env f buf cnt s1 = Some (sint cnt, f\<lparr>fl_pos := fl_pos f + cnt\<rparr>, buf', s2) \<and> (\<forall>x<cnt. buf' x = data x) \<and>
    (\<forall>k<unat (fl_pos f). file_byte g w (fl_data f # cs) k = file_byte g (v d) (fl_data f # cs) k) \<and>
    (\<forall>ds. (\<forall>x\<in>set ds. clu_ok g x \<and> x \<notin> set (fl_data f # cs)) \<longrightarrow>
       (\<forall>k<length ds * unat (bytPerClu g). file_byte g w ds k = file_byte g (v d) ds k))"
proof -
  let ?cs = "fl_data f # cs"
  obtain s1 w where w: "fat32_write env f data cnt s = Some (sint cnt, f\<lparr>fl_pos := fl_pos f + cnt\<rparr>, s1)"
    "fat_ready disk V env room G P s1 H (v(d := w))" "written g ?cs (v d) (unat (fl_pos f)) (unat cnt) (\<lambda>k. data (of_nat k)) w"
    using fat32_write_spec [OF r g ch ok cnt sz] by blast
  have same: "fat_entry g w x = fat_entry g (v d) x" if "in_table g x" for x
    by (rule fat_entry_lin [OF g(3) that, of "set ?cs"]) (use w(3) in \<open>simp add: written_def\<close>)
  have ch': "fat_chain (fat_entry g ((v(d := w)) d)) ?cs"
    using ch ok(1) fat_chain_cong [of ?cs "fat_entry g w" "fat_entry g (v d)"] same by (simp del: fat_chain.simps)
  have ok': "\<forall>x\<in>set ?cs. clu_ok g x" using ok(1) by blast
  have ps: "fl_pos f \<le> fl_size f" using cnt(2) by (simp add: word_le_nat_alt)
  have mn: "min cnt (fl_size f - fl_pos f) = cnt"
  proof -
    have "unat cnt \<le> unat (fl_size f - fl_pos f)" using cnt(2) ps by (simp add: unat_sub)
    then show ?thesis by (simp add: min_absorb1 word_le_nat_alt)
  qed
  obtain s2 buf' where b: "fat32_read env f buf cnt s1 = Some (sint cnt, f\<lparr>fl_pos := fl_pos f + cnt\<rparr>, buf', s2)"
    "\<forall>x. buf' x = (if x < cnt then file_byte g ((v(d := w)) d) ?cs (unat (fl_pos f) + unat x) else buf x)"
    using fat32_read_spec [OF w(2) r(2-4) g(1,2) ch' ok' ps sz, where count = cnt and buf = buf] unfolding mn by blast
  have "buf' x = data x" if "x < cnt" for x
  proof -
    have "unat x < unat cnt" using that by (simp add: word_less_nat_alt)
    then have "file_byte g w ?cs (unat (fl_pos f) + unat x) = data (of_nat (unat x))" using w(3) unfolding written_def by blast
    then show ?thesis using b(2) that by simp
  qed
  moreover have "\<forall>ds. (\<forall>x\<in>set ds. clu_ok g x \<and> x \<notin> set ?cs) \<longrightarrow>
       (\<forall>k<length ds * unat (bytPerClu g). file_byte g w ds k = file_byte g (v d) ds k)"
    using written_other [OF _ w(3) ok'] bytPerClu_nat [OF g(2)] by auto
  moreover have "\<forall>k<unat (fl_pos f). file_byte g w ?cs k = file_byte g (v d) ?cs k" using w(3) by (simp add: written_def)
  ultimately show ?thesis using w(1,2) b(1) by blast
qed

lemma write_then_read_witness:
  "\<exists>s1 s2 buf'. fat32_write wit_env wit_open (\<lambda>x. ucast x) 600 (wit_state wit_dev (\<lambda>_ _. wit_bytes)) = Some (600, wit_open\<lparr>fl_pos := 608\<rparr>, s1) \<and>
     fat32_read wit_env wit_open (\<lambda>_. 7) 600 s1 = Some (600, wit_open\<lparr>fl_pos := 608\<rparr>, buf', s2) \<and> buf' 599 = 0x57"
proof -
  have "sint (600 :: u32) = 600" by (simp add: sint_small)
  moreover have "fatAddr wit_dev mod 4 = 0" by (simp add: wit_dev_def)
  moreover obtain s1 w s2 buf' where "fat32_write wit_env wit_open (\<lambda>x. ucast x) 600 (wit_state wit_dev (\<lambda>_ _. wit_bytes)) =
      Some (sint (600 :: u32), wit_open\<lparr>fl_pos := fl_pos wit_open + 600\<rparr>, s1)"
    "fat32_read wit_env wit_open (\<lambda>_. 7) 600 s1 = Some (sint (600 :: u32), wit_open\<lparr>fl_pos := fl_pos wit_open + 600\<rparr>, buf', s2)"
    "\<forall>x<600. buf' x = ucast x"
    using write_then_read [OF wit_ready [where g = wit_dev and disk = "\<lambda>_ _. wit_bytes"] _ _ _ _ wit_geometry(1),
        where f = wit_open and d = 1 and cs = "[3]" and cnt = 600 and data = "\<lambda>x. ucast x" and buf = "\<lambda>_. 7"] wit_chain wit_geometry(2,3) calculation by auto
  ultimately show ?thesis by auto
qed

text \<open>(C35) A write that begins with a cluster does not read it: the bytes of the cluster behind those written, which
  belong to the file, are replaced by what the memory that \<open>malloc\<close> returned happened to hold.\<close>
theorem write_clobbers_cluster:
  assumes r: "fat_ready disk V env room G P s H v" "length H < room" "fl_device f = d" "d \<in> V"
    and g: "G d = g" "data_ok g" "clu_ok g (fl_data f)"
    and cnt: "cnt \<noteq> 0" "cnt < bytPerClu g" "fl_pos f = 0" "cnt \<le> fl_size f"
  shows "\<exists>s' w. fat32_write env f data cnt s = Some (sint cnt, f\<lparr>fl_pos := cnt\<rparr>, s') \<and> fat_ready disk V env room G P s' H (v(d := w)) \<and>
    (\<forall>i<unat (bytPerClu g). clu_byte g w (fl_data f) i = (if i < unat cnt then data (of_nat i) else fe_fresh env (of_nat i)))"
proof -
  have z: "(0 :: u32) < bytPerClu g" using bytPerClu_nat [OF g(2)] by (simp add: word_less_nat_alt)
  have m: "cnt = min (bytPerClu g - 0) cnt" using cnt(2) by (simp add: min_absorb2 less_imp_le)
  obtain s1 w where t: "fat_ready disk V env room G P s1 H (v(d := w))"
    "write_loop env f (fl_data f) 0 cnt 0 data s = write_loop env f (fl_data f) 0 0 cnt data s1"
    "\<forall>i<unat (bytPerClu g). clu_byte g w (fl_data f) i = (if i < unat cnt then data (of_nat i) else fe_fresh env (of_nat i))"
    using write_turn [OF r g cnt(1) m z, of 0 data] by auto
  have l: "write_loop env f (fl_data f) 0 cnt 0 data s = Some (None, cnt, s1)"
    unfolding t(2) by (simp add: write_loop.simps [of env f "fl_data f" 0 0 cnt data s1])
  have nz: "bytPerClu g \<noteq> 0" "\<not> fl_size f < cnt" using z cnt(4) by (auto simp: not_less)
  have "fat32_write env f data cnt s = Some (sint cnt, f\<lparr>fl_pos := cnt\<rparr>, s1)"
    using l nz cnt(1,3) by (simp add: fat32_write_def fat_ready_fat [OF r(1)] r(3) g(1) udiv_def fat32_get_clu_by_order_def)
  then show ?thesis using t(1,3) by blast
qed

text \<open>One byte written to the file: the second byte was 0xFF and is what the fresh memory holds, 0xCC.\<close>
lemma write_clobbers_cluster_witness:
  "clu_byte wit_dev (wit_view (\<lambda>_ _. wit_bytes) 1) 2 1 = 0xFF \<and>
   (\<exists>s' w. fat32_write wit_env (wit_open\<lparr>fl_pos := 0\<rparr>) (\<lambda>_. 0x41) 1 (wit_state wit_dev (\<lambda>_ _. wit_bytes)) =
      Some (1, wit_open\<lparr>fl_pos := 1\<rparr>, s') \<and> clu_byte wit_dev w 2 0 = 0x41 \<and> clu_byte wit_dev w 2 1 = 0xCC)"
proof
  show "clu_byte wit_dev (wit_view (\<lambda>_ _. wit_bytes) 1) 2 1 = 0xFF"
    by (simp add: clu_byte_def clu_addr_def lin_def wit_view_same wit_dev_def wit_bytes_def)
  obtain s' w where "fat32_write wit_env (wit_open\<lparr>fl_pos := 0\<rparr>) (\<lambda>_. 0x41) 1 (wit_state wit_dev (\<lambda>_ _. wit_bytes)) =
      Some (sint (1 :: u32), (wit_open\<lparr>fl_pos := 0\<rparr>)\<lparr>fl_pos := 1\<rparr>, s')"
    "\<forall>i<unat (bytPerClu wit_dev). clu_byte wit_dev w 2 i = (if i < unat (1 :: u32) then 0x41 else fe_fresh wit_env (of_nat i))"
    using write_clobbers_cluster [OF wit_ready [where g = wit_dev and disk = "\<lambda>_ _. wit_bytes"] _ _ _ _ wit_geometry(1),
        where f = "wit_open\<lparr>fl_pos := 0\<rparr>" and d = 1 and cnt = 1 and data = "\<lambda>_. 0x41"] wit_geometry(2,3) by auto
  moreover from this(2) have "clu_byte wit_dev w 2 0 = 0x41" "clu_byte wit_dev w 2 1 = 0xCC"
    using wit_geometry(3) by (simp_all add: wit_env_def)
  ultimately show "\<exists>s' w. fat32_write wit_env (wit_open\<lparr>fl_pos := 0\<rparr>) (\<lambda>_. 0x41) 1 (wit_state wit_dev (\<lambda>_ _. wit_bytes)) =
      Some (1, wit_open\<lparr>fl_pos := 1\<rparr>, s') \<and> clu_byte wit_dev w 2 0 = 0x41 \<and> clu_byte wit_dev w 2 1 = 0xCC"
    by auto
qed

end
