(* ===== verification/Bxml.thy ===== *)
theory Bxml
  imports UserAlloc UserString
begin

text \<open>
  The message documents of the applications, \<open>apps/msg/bxml.c\<close>: trees of named nodes with attributes,
  children and values, their binary and text forms, and the paths that lead to a node. The nodes form a typed
  heap and so do the documents (\<open>BXML_DATA\<close>); names, values and message buffers are bytes in memory. The
  allocator is passed as two operations, \<open>al\<close> for \<open>malloc\<close> and \<open>fr\<close> for \<open>free\<close>, on its state \<open>pool\<close>. A string
  argument (a path, a name, a text to store) is the list of its bytes before the closing zero. What is
  printed on errors in a document is left out, and a null pointer that is followed reads what lies at address 0. Loops and recursions that do not end (on a cyclic list, or on a
  memory without a zero) give \<open>None\<close>.
\<close>

section \<open>State\<close>

datatype BXML_NODE_TYPE = BTYPE_ATTRIBUTE | BTYPE_NODE | BTYPE_TEXT

record bxml_node =
  node_attr :: u32
  node_next :: u32
  node_pre :: u32
  node_child :: u32
  node_parent :: u32
  name_len :: u8
  value_len :: u32
  node_name :: u32
  node_value :: u32

record bxml_data =
  node_root :: u32
  node_cur :: u32
  bx_version :: u16
  bx_flag :: u8
  bx_error :: u8
  bx_cur_size :: u32

record 'h bxml_state =
  bnodes :: "u32 \<Rightarrow> bxml_node"
  docs :: "u32 \<Rightarrow> bxml_data"
  bmem :: mem
  err_str :: string
  pool :: 'h

type_synonym 'h alloc = "u32 \<Rightarrow> 'h \<Rightarrow> (u32 \<times> 'h) option"
type_synonym 'h release = "u32 \<Rightarrow> 'h \<Rightarrow> 'h option"

abbreviation (input) BXML_MAGIC :: u32 where "BXML_MAGIC \<equiv> 0x4C4D5842"
abbreviation (input) SIZEOF_BXML_HEADER :: u32 where "SIZEOF_BXML_HEADER \<equiv> 16"
abbreviation (input) SIZEOF_BXML_NODE :: u32 where "SIZEOF_BXML_NODE \<equiv> 36"
abbreviation (input) SIZEOF_BXML_DATA :: u32 where "SIZEOF_BXML_DATA \<equiv> 16"
abbreviation (input) BXML_BUFF_TOO_SMALL :: u32 where "BXML_BUFF_TOO_SMALL \<equiv> 0x102"

definition no_node :: bxml_node where
  "no_node = \<lparr>node_attr = 0, node_next = 0, node_pre = 0, node_child = 0, node_parent = 0, name_len = 0,
     value_len = 0, node_name = 0, node_value = 0\<rparr>"

definition no_data :: bxml_data where
  "no_data = \<lparr>node_root = 0, node_cur = 0, bx_version = 0, bx_flag = 0, bx_error = 0, bx_cur_size = 0\<rparr>"

definition set_node :: "u32 \<Rightarrow> (bxml_node \<Rightarrow> bxml_node) \<Rightarrow> 'h bxml_state \<Rightarrow> 'h bxml_state" where
  "set_node a f s = s\<lparr>bnodes := (bnodes s)(a := f (bnodes s a))\<rparr>"

definition set_doc :: "u32 \<Rightarrow> (bxml_data \<Rightarrow> bxml_data) \<Rightarrow> 'h bxml_state \<Rightarrow> 'h bxml_state" where
  "set_doc a f s = s\<lparr>docs := (docs s)(a := f (docs s a))\<rparr>"

definition seterr :: "u32 \<Rightarrow> string \<Rightarrow> 'h bxml_state \<Rightarrow> 'h bxml_state" where
  "seterr xml str s = set_doc xml (\<lambda>d. d\<lparr>bx_error := 1\<rparr>) (s\<lparr>err_str := take 31 str\<rparr>)"

definition safe_malloc :: "'h alloc \<Rightarrow> u32 \<Rightarrow> 'h bxml_state \<Rightarrow> (u32 \<times> 'h bxml_state) option" where
  "safe_malloc al n s = do { (p, h) \<leftarrow> al n (pool s); Some (p, s\<lparr>pool := h\<rparr>) }"

definition safe_free :: "'h release \<Rightarrow> u32 \<Rightarrow> 'h bxml_state \<Rightarrow> 'h bxml_state option" where
  "safe_free fr p s = do { h \<leftarrow> fr p (pool s); Some (s\<lparr>pool := h\<rparr>) }"

text \<open>The string a pointer leads to.\<close>

partial_function (option) read_str :: "mem \<Rightarrow> u32 \<Rightarrow> u8 list option" where
  "read_str m p = (if m p = 0 then Some [] else do { cs \<leftarrow> read_str m (p + 1); Some (m p # cs) })"

section \<open>Creating nodes\<close>

definition create_node :: "'h alloc \<Rightarrow> u32 \<Rightarrow> 'h bxml_state \<Rightarrow> (u32 \<times> 'h bxml_state) option" where
  "create_node al xml s = do {
     (nod, s) \<leftarrow> safe_malloc al SIZEOF_BXML_NODE s;
     if nod = 0 then Some (0, seterr xml ''no memory to allocate node.'' s)
     else
       let s = set_node nod (\<lambda>_. no_node) s;
           s = (if xml \<noteq> 0 \<and> node_root (docs s xml) = 0 then set_doc xml (\<lambda>d. d\<lparr>node_root := nod\<rparr>) s else s)
       in Some (nod, s) }"

definition create_childnode :: "'h alloc \<Rightarrow> u32 \<Rightarrow> u32 \<Rightarrow> 'h bxml_state \<Rightarrow> (u32 \<times> 'h bxml_state) option" where
  "create_childnode al xml cur s = do {
     (nod, s) \<leftarrow> create_node al xml s;
     if nod = 0 then Some (0, s)
     else if cur = 0 then Some (nod, s)
     else
       let c = node_child (bnodes s cur);
           s = set_node nod (\<lambda>n. n\<lparr>node_next := c\<rparr>) s;
           s = (if c \<noteq> 0 then set_node c (\<lambda>n. n\<lparr>node_pre := nod\<rparr>) s else s);
           s = set_node nod (\<lambda>n. n\<lparr>node_parent := cur\<rparr>) s;
           s = set_node cur (\<lambda>n. n\<lparr>node_child := nod\<rparr>) s
       in Some (nod, s) }"

definition create_attrnode :: "'h alloc \<Rightarrow> u32 \<Rightarrow> u32 \<Rightarrow> 'h bxml_state \<Rightarrow> (u32 \<times> 'h bxml_state) option" where
  "create_attrnode al xml cur s = do {
     (nod, s) \<leftarrow> create_node al xml s;
     if nod = 0 then Some (0, s)
     else if cur = 0 then Some (nod, s)
     else
       let a = node_attr (bnodes s cur);
           s = set_node nod (\<lambda>n. n\<lparr>node_next := a\<rparr>) s;
           s = (if a \<noteq> 0 then set_node a (\<lambda>n. n\<lparr>node_pre := nod\<rparr>) s else s);
           s = set_node nod (\<lambda>n. n\<lparr>node_parent := cur\<rparr>) s;
           s = set_node cur (\<lambda>n. n\<lparr>node_attr := nod\<rparr>) s
       in Some (nod, s) }"

text \<open>The new node does not take over the successor of \<open>cur\<close>.\<close>

definition create_nextnode :: "'h alloc \<Rightarrow> u32 \<Rightarrow> u32 \<Rightarrow> 'h bxml_state \<Rightarrow> (u32 \<times> 'h bxml_state) option" where
  "create_nextnode al xml cur s = do {
     (nod, s) \<leftarrow> create_node al xml s;
     if nod = 0 then Some (0, s)
     else if cur = 0 then Some (nod, s)
     else
       let s = set_node nod (\<lambda>n. n\<lparr>node_pre := cur\<rparr>) s;
           x = node_next (bnodes s cur);
           s = (if x \<noteq> 0 then set_node x (\<lambda>n. n\<lparr>node_pre := nod\<rparr>) s else s);
           s = set_node cur (\<lambda>n. n\<lparr>node_next := nod\<rparr>) s;
           s = set_node nod (\<lambda>n. n\<lparr>node_parent := node_parent (bnodes s cur)\<rparr>) s
       in Some (nod, s) }"

text \<open>The pattern of the parsers: a name or a value is copied from the message behind \<open>src\<close>. The length of a
  name is kept in a byte, but all of it is copied.\<close>

definition copy_name :: "'h alloc \<Rightarrow> u32 \<Rightarrow> u32 \<Rightarrow> u32 \<Rightarrow> 'h bxml_state \<Rightarrow> 'h bxml_state option" where
  "copy_name al cur src len s = do {
     let s = set_node cur (\<lambda>n. n\<lparr>name_len := ucast len\<rparr>) s;
     (p, s) \<leftarrow> safe_malloc al (ucast (name_len (bnodes s cur)) + 1) s;
     let s = set_node cur (\<lambda>n. n\<lparr>node_name := p\<rparr>) s;
     if p \<noteq> 0 then
       let m = snd (memcpy p src len (bmem s))
       in Some (s\<lparr>bmem := m(p + ucast (name_len (bnodes s cur)) := 0)\<rparr>)
     else Some s }"

definition copy_value :: "'h alloc \<Rightarrow> u32 \<Rightarrow> u32 \<Rightarrow> u32 \<Rightarrow> 'h bxml_state \<Rightarrow> 'h bxml_state option" where
  "copy_value al cur src len s = do {
     let s = set_node cur (\<lambda>n. n\<lparr>value_len := len\<rparr>) s;
     (p, s) \<leftarrow> safe_malloc al (len + 1) s;
     let s = set_node cur (\<lambda>n. n\<lparr>node_value := p\<rparr>) s;
     if p \<noteq> 0 then
       let m = snd (memcpy p src len (bmem s)) in Some (s\<lparr>bmem := m(p + len := 0)\<rparr>)
     else Some s }"

text \<open>The pattern of the path operations: the name is a string of the caller.\<close>

definition give_name :: "'h alloc \<Rightarrow> u32 \<Rightarrow> u8 list \<Rightarrow> 'h bxml_state \<Rightarrow> 'h bxml_state option" where
  "give_name al nod name s = do {
     let s = set_node nod (\<lambda>n. n\<lparr>name_len := of_nat (length name)\<rparr>) s;
     let len = name_len (bnodes s nod);
     (p, s) \<leftarrow> safe_malloc al (ucast len + 1) s;
     let s = set_node nod (\<lambda>n. n\<lparr>node_name := p\<rparr>) s;
     if p \<noteq> 0 then
       let m = store_list (bmem s) p (take (unat len) name) in Some (s\<lparr>bmem := m(p + ucast len := 0)\<rparr>)
     else Some s }"

section \<open>The text form: reading\<close>

datatype PARSE_STATE = OutsideTag | TagName | TagEnd | InText | AttributeName | AttributeValue | InHeader | InComment

record parser =
  ps_state :: PARSE_STATE
  ps_p :: u32
  ps_v :: u32
  ps_cur :: u32

definition is_blank :: "u8 \<Rightarrow> bool" where
  "is_blank c \<longleftrightarrow> c = 32 \<or> c = 13 \<or> c = 10 \<or> c = 9"

definition int_pos :: "u32 \<Rightarrow> bool" where
  "int_pos x \<longleftrightarrow> 0 < sint x"

text \<open>\<open>TagName\<close>: the character that ends the name is a blank, \<open>/\<close> or \<open>>\<close>.\<close>

definition end_of_name :: "'h alloc \<Rightarrow> parser \<Rightarrow> 'h bxml_state \<Rightarrow> (bool \<times> parser \<times> 'h bxml_state) option" where
  "end_of_name al ps s = do {
     let c = bmem s (ps_p ps);
     if is_blank c \<or> c = 62 \<or> c = 47 then do {
       s \<leftarrow> (if int_pos (ps_p ps - ps_v ps) then copy_name al (ps_cur ps) (ps_v ps) (ps_p ps - ps_v ps) s else Some s);
       Some (False, ps\<lparr>ps_v := ps_p ps + 1, ps_state := (if c = 62 then InText else AttributeName)\<rparr>, s) }
     else Some (False, ps, s) }"

definition outside_tag :: "'h alloc \<Rightarrow> u32 \<Rightarrow> parser \<Rightarrow> 'h bxml_state \<Rightarrow> (bool \<times> parser \<times> 'h bxml_state) option" where
  "outside_tag al xml ps s =
     (let p = ps_p ps; c = bmem s p; d = bmem s (p + 1)
      in if c \<noteq> 60 then Some (False, ps, s)
         else if d = 47 then
           Some (False, ps\<lparr>ps_cur := node_parent (bnodes s (ps_cur ps)), ps_state := TagEnd, ps_v := p + 1\<rparr>, s)
         else if d = 63 then Some (False, ps\<lparr>ps_state := InHeader, ps_v := p + 1\<rparr>, s)
         else if d = 33 then Some (False, ps\<lparr>ps_state := InComment, ps_v := p + 1\<rparr>, s)
         else do {
           (nod, s) \<leftarrow> create_nextnode al xml (ps_cur ps) s;
           if nod = 0 then Some (True, ps, s)
           else Some (False, ps\<lparr>ps_state := TagName, ps_cur := nod, ps_v := p + 1\<rparr>, s) })"

definition in_text :: "'h alloc \<Rightarrow> u32 \<Rightarrow> parser \<Rightarrow> 'h bxml_state \<Rightarrow> (bool \<times> parser \<times> 'h bxml_state) option" where
  "in_text al xml ps s =
     (let p = ps_p ps; v = ps_v ps
      in if bmem s p \<noteq> 60 then Some (False, ps, s)
         else if bmem s (p + 1) = 47 then do {
           s \<leftarrow> (if int_pos (p - v) then copy_value al (ps_cur ps) v (p - v) s else Some s);
           Some (False, ps\<lparr>ps_state := TagEnd, ps_v := p + 1\<rparr>, s) }
         else do {
           (nod, s) \<leftarrow> create_childnode al xml (ps_cur ps) s;
           if nod = 0 then Some (True, ps, s)
           else Some (False, ps\<lparr>ps_state := TagName, ps_cur := nod, ps_v := p + 1\<rparr>, s) })"

text \<open>\<open>TagEnd\<close>: the name is compared as far as the shorter of the two. A closing tag that does not match is
  only reported, and the parser stays in the state.\<close>

definition tag_end :: "parser \<Rightarrow> 'h bxml_state \<Rightarrow> parser" where
  "tag_end ps s =
     (let p = ps_p ps; v = ps_v ps; n = bnodes s (ps_cur ps);
          a = (ucast (name_len n) :: u32); b = p - v - 1; l = (if sint b < sint a then b else a)
      in if bmem s p = 62 \<and> bmem s v = 47 \<and> strncmp (v + 1) (node_name n) l (bmem s) = 0
         then ps\<lparr>ps_state := OutsideTag\<rparr> else ps)"

definition attribute_name :: "'h alloc \<Rightarrow> u32 \<Rightarrow> parser \<Rightarrow> 'h bxml_state \<Rightarrow> (bool \<times> parser \<times> 'h bxml_state) option" where
  "attribute_name al xml ps s =
     (let p = ps_p ps; v = ps_v ps; c = bmem s p
      in if is_blank c \<or> c = 61 then do {
           (stop, ps, s) \<leftarrow> (if 1 < sint (p - v) then do {
               (nod, s) \<leftarrow> create_attrnode al xml (ps_cur ps) s;
               if nod = 0 then Some (True, ps, s)
               else do { s \<leftarrow> copy_name al nod v (p - v) s; Some (False, ps\<lparr>ps_cur := nod\<rparr>, s) } }
             else Some (False, ps, s));
           if stop then Some (True, ps, s)
           else Some (False, ps\<lparr>ps_v := p + 1, ps_state := (if c = 61 then AttributeValue else AttributeName)\<rparr>, s) }
         else if c = 62 then Some (False, ps\<lparr>ps_state := InText, ps_v := p + 1\<rparr>, s)
         else if c = 47 then
           Some (False, ps\<lparr>ps_p := p + 1, ps_state := (if bmem s (p + 1) = 62 then OutsideTag else AttributeName)\<rparr>, s)
         else Some (False, ps, s))"

definition attribute_value :: "'h alloc \<Rightarrow> parser \<Rightarrow> 'h bxml_state \<Rightarrow> (bool \<times> parser \<times> 'h bxml_state) option" where
  "attribute_value al ps s =
     (let p = ps_p ps; v = ps_v ps
      in if bmem s p \<noteq> 34 then Some (False, ps, s)
         else if bmem s (v - 1) \<noteq> 34 then Some (False, ps\<lparr>ps_v := p + 1\<rparr>, s)
         else do {
           s \<leftarrow> (if int_pos (p - v) then copy_value al (ps_cur ps) v (p - v) s else Some s);
           Some (False, ps\<lparr>ps_state := AttributeName, ps_cur := node_parent (bnodes s (ps_cur ps)), ps_v := p + 1\<rparr>, s) })"

definition parse_step :: "'h alloc \<Rightarrow> u32 \<Rightarrow> parser \<Rightarrow> 'h bxml_state \<Rightarrow> (bool \<times> parser \<times> 'h bxml_state) option" where
  "parse_step al xml ps s = (case ps_state ps of
       OutsideTag \<Rightarrow> outside_tag al xml ps s
     | TagName \<Rightarrow> end_of_name al ps s
     | TagEnd \<Rightarrow> Some (False, tag_end ps s, s)
     | InText \<Rightarrow> in_text al xml ps s
     | AttributeName \<Rightarrow> attribute_name al xml ps s
     | AttributeValue \<Rightarrow> attribute_value al ps s
     | _ \<Rightarrow> Some (False, (if bmem s (ps_p ps) = 62 then ps\<lparr>ps_state := OutsideTag\<rparr> else ps), s))"

partial_function (option) parse_chars :: "'h alloc \<Rightarrow> u32 \<Rightarrow> parser \<Rightarrow> 'h bxml_state \<Rightarrow> 'h bxml_state option" where
  "parse_chars al xml ps s =
     (if bmem s (ps_p ps) = 0 then Some s
      else do {
        (stop, ps, s) \<leftarrow> parse_step al xml ps s;
        if stop then Some s else parse_chars al xml (ps\<lparr>ps_p := ps_p ps + 1\<rparr>) s })"

text \<open>The start of the current word is set before it is used.\<close>

definition parse_xml_node :: "'h alloc \<Rightarrow> u32 \<Rightarrow> u32 \<Rightarrow> 'h bxml_state \<Rightarrow> 'h bxml_state option" where
  "parse_xml_node al xml mem = parse_chars al xml \<lparr>ps_state = OutsideTag, ps_p = mem, ps_v = mem, ps_cur = 0\<rparr>"

section \<open>The binary form: reading\<close>

definition open_node :: "'h alloc \<Rightarrow> u32 \<Rightarrow> BXML_NODE_TYPE \<Rightarrow> 'h bxml_state \<Rightarrow> (u32 \<times> 'h bxml_state) option" where
  "open_node al xml ty s = do {
     (cur, s) \<leftarrow> (case ty of
         BTYPE_ATTRIBUTE \<Rightarrow> create_attrnode al xml (node_cur (docs s xml)) s
       | BTYPE_NODE \<Rightarrow> create_childnode al xml (node_cur (docs s xml)) s
       | BTYPE_TEXT \<Rightarrow> None);
     Some (cur, set_doc xml (\<lambda>d. d\<lparr>node_cur := cur\<rparr>) s) }"

text \<open>The fields of one node: the pointer behind them and the numbers of attributes and children.\<close>

definition read_fields :: "'h alloc \<Rightarrow> u32 \<Rightarrow> u32 \<Rightarrow> 'h bxml_state \<Rightarrow> (u32 \<times> u8 \<times> u16 \<times> 'h bxml_state) option" where
  "read_fields al cur p s = do {
     let len = (ucast (bmem s p) :: u32);
     s \<leftarrow> copy_name al cur (p + 1) len s;
     let p = p + 1 + len;
     let attr_count = bmem s p;
     let child_count = ld16 (bmem s) (p + 1);
     let len = ld32 (bmem s) (p + 3);
     let p = p + 7;
     if 0 < len then do { s \<leftarrow> copy_value al cur p len s; Some (p + len, attr_count, child_count, s) }
     else Some (p, attr_count, child_count, set_node cur (\<lambda>n. n\<lparr>value_len := len\<rparr>) s) }"

definition close_node :: "u32 \<Rightarrow> 'h bxml_state \<Rightarrow> 'h bxml_state" where
  "close_node xml s =
     (let cur = node_cur (docs s xml)
      in if cur \<noteq> 0 then set_doc xml (\<lambda>d. d\<lparr>node_cur := node_parent (bnodes s cur)\<rparr>) s else s)"

text \<open>The loop over the attributes or the children of a node; its body begins with \<open>parse_bxml_node\<close>.\<close>

partial_function (option) parse_nodes ::
    "'h alloc \<Rightarrow> u32 \<Rightarrow> BXML_NODE_TYPE \<Rightarrow> nat \<Rightarrow> u32 \<Rightarrow> 'h bxml_state \<Rightarrow> (u32 \<times> 'h bxml_state) option" where
  "parse_nodes al xml ty n p s =
     (if n = 0 \<or> p = 0 then Some (p, s)
      else do {
        (p, s) \<leftarrow> do {
          (cur, s) \<leftarrow> open_node al xml ty s;
          if cur = 0 then Some (0, s)
          else do {
            (p, attrs, children, s) \<leftarrow> read_fields al cur p s;
            (p, s) \<leftarrow> parse_nodes al xml BTYPE_ATTRIBUTE (unat attrs) p s;
            parse_nodes al xml BTYPE_NODE (unat children) p s } };
        parse_nodes al xml ty (n - 1) p (close_node xml s) })"

definition parse_bxml_node ::
    "'h alloc \<Rightarrow> u32 \<Rightarrow> u32 \<Rightarrow> BXML_NODE_TYPE \<Rightarrow> 'h bxml_state \<Rightarrow> (u32 \<times> 'h bxml_state) option" where
  "parse_bxml_node al xml mem ty s = do {
     (cur, s) \<leftarrow> open_node al xml ty s;
     if cur = 0 then Some (0, s)
     else do {
       (p, attrs, children, s) \<leftarrow> read_fields al cur mem s;
       (p, s) \<leftarrow> parse_nodes al xml BTYPE_ATTRIBUTE (unat attrs) p s;
       parse_nodes al xml BTYPE_NODE (unat children) p s } }"

lemma parse_nodes_body:
  "parse_nodes al xml ty n p s =
     (if n = 0 \<or> p = 0 then Some (p, s)
      else do {
        (p, s) \<leftarrow> parse_bxml_node al xml p ty s;
        parse_nodes al xml ty (n - 1) p (close_node xml s) })"
  by (simp only: parse_nodes.simps [of al xml ty n p s] parse_bxml_node_def)

definition bxml_parse :: "'h alloc \<Rightarrow> u32 \<Rightarrow> 'h bxml_state \<Rightarrow> (u32 \<times> 'h bxml_state) option" where
  "bxml_parse al mem s = do {
     (xml, s) \<leftarrow> safe_malloc al SIZEOF_BXML_DATA s;
     if xml = 0 then Some (0, seterr 0 ''no memory to allocate for xml'' s)
     else do {
       let s = set_doc xml (\<lambda>_. no_data) s;
       s \<leftarrow> (if ld32 (bmem s) mem = BXML_MAGIC then do {
           let m = bmem s;
           let s = set_doc xml (\<lambda>d. d\<lparr>bx_version := ld16 m (mem + 4), bx_flag := m (mem + 6)\<rparr>) s;
           (p, s) \<leftarrow> parse_bxml_node al xml (mem + SIZEOF_BXML_HEADER) BTYPE_NODE s;
           Some s }
         else parse_xml_node al xml mem s);
       Some (xml, set_doc xml (\<lambda>d. d\<lparr>node_cur := node_root d\<rparr>) s) } }"

section \<open>The binary form: writing\<close>

text \<open>The sum over the nodes of a list, and the size of one node.\<close>

partial_function (option) sum_sizes :: "(u32 \<Rightarrow> bxml_node) \<Rightarrow> u32 \<Rightarrow> u32 \<Rightarrow> u32 option" where
  "sum_sizes h p len =
     (if p = 0 then Some len
      else do {
        n \<leftarrow> sum_sizes h (node_attr (h p)) (8 + ucast (name_len (h p)) + value_len (h p));
        n \<leftarrow> sum_sizes h (node_child (h p)) n;
        sum_sizes h (node_next (h p)) (len + n) })"

definition calc_node_size :: "(u32 \<Rightarrow> bxml_node) \<Rightarrow> u32 \<Rightarrow> u32 option" where
  "calc_node_size h nod = do {
     n \<leftarrow> sum_sizes h (node_attr (h nod)) (8 + ucast (name_len (h nod)) + value_len (h nod));
     sum_sizes h (node_child (h nod)) n }"

definition bxml_buffer_size :: "u32 \<Rightarrow> 'h bxml_state \<Rightarrow> u32 option" where
  "bxml_buffer_size xml s = do {
     n \<leftarrow> calc_node_size (bnodes s) (node_root (docs s xml)); Some (SIZEOF_BXML_HEADER + n) }"

primrec count_nodes :: "nat \<Rightarrow> (u32 \<Rightarrow> bxml_node) \<Rightarrow> u32 \<Rightarrow> nat" where
  "count_nodes 0 h p = 0"
| "count_nodes (Suc n) h p = (if p = 0 then 0 else Suc (count_nodes n h (node_next (h p))))"

text \<open>The fields of a node are written at \<open>q\<close>; the counts are cut to a byte and to two bytes.\<close>

definition write_fields :: "(u32 \<Rightarrow> bxml_node) \<Rightarrow> u32 \<Rightarrow> u32 \<Rightarrow> mem \<Rightarrow> u32 \<times> mem" where
  "write_fields h nod q m =
     (let n = h nod;
          attr_count = count_nodes 256 h (node_attr n);
          child_count = count_nodes 65536 h (node_child n);
          len = (ucast (name_len n) :: u32);
          m = m(q := name_len n);
          q = q + 1;
          m = snd (memcpy q (node_name n) len m);
          q = q + len;
          m = m(q := of_nat attr_count);
          q = q + 1;
          m = store_list m q (le16 (of_nat child_count));
          q = q + 2;
          m = store_list m q (le32 (value_len n));
          q = q + 4;
          m = snd (memcpy q (node_value n) (value_len n) m)
      in (q + value_len n, m))"

text \<open>The loop over the attributes or the children, at most \<open>k\<close> of them; its body begins with
  \<open>build_bxml_node\<close>. The result is what remains of the buffer, or a negative number, and the next position.\<close>

partial_function (option) build_nodes :: "(u32 \<Rightarrow> bxml_node) \<Rightarrow> nat \<Rightarrow> u32 \<Rightarrow> u32 \<Rightarrow> u32 \<Rightarrow> mem \<Rightarrow> (u32 \<times> u32 \<times> mem) option" where
  "build_nodes h k p q len m =
     (if k = 0 \<or> p = 0 then Some (len, q, m)
      else do {
        (ret, m) \<leftarrow>
          (let l = len - 8 - ucast (name_len (h p)) - value_len (h p)
           in if sint l < 0 then Some (- BXML_BUFF_TOO_SMALL, m)
              else do {
                let (r, m) = write_fields h p q m;
                (l, r, m) \<leftarrow> build_nodes h 256 (node_attr (h p)) r l m;
                if sint l < 0 then Some (l, m)
                else do { (l, r, m) \<leftarrow> build_nodes h 65536 (node_child (h p)) r l m; Some (l, m) } });
        if sint ret < 0 then Some (ret, q, m)
        else build_nodes h (k - 1) (node_next (h p)) (q + (len - ret)) ret m })"

definition build_bxml_node :: "(u32 \<Rightarrow> bxml_node) \<Rightarrow> u32 \<Rightarrow> u32 \<Rightarrow> u32 \<Rightarrow> mem \<Rightarrow> (u32 \<times> mem) option" where
  "build_bxml_node h nod mem mem_size m =
     (let l = mem_size - 8 - ucast (name_len (h nod)) - value_len (h nod)
      in if sint l < 0 then Some (- BXML_BUFF_TOO_SMALL, m)
         else do {
           let (q, m) = write_fields h nod mem m;
           (l, q, m) \<leftarrow> build_nodes h 256 (node_attr (h nod)) q l m;
           if sint l < 0 then Some (l, m)
           else do { (l, q, m) \<leftarrow> build_nodes h 65536 (node_child (h nod)) q l m; Some (l, m) } })"

lemma build_nodes_body:
  "build_nodes h k p q len m =
     (if k = 0 \<or> p = 0 then Some (len, q, m)
      else do {
        (ret, m) \<leftarrow> build_bxml_node h p q len m;
        if sint ret < 0 then Some (ret, q, m)
        else build_nodes h (k - 1) (node_next (h p)) (q + (len - ret)) ret m })"
  by (simp only: build_nodes.simps [of h k p q len m] build_bxml_node_def)

definition bxml_build :: "u32 \<Rightarrow> u32 \<Rightarrow> u32 \<Rightarrow> 'h bxml_state \<Rightarrow> (u32 \<times> 'h bxml_state) option" where
  "bxml_build xml mem mem_size s =
     (let s = s\<lparr>bmem := snd (memset mem 0 mem_size (bmem s))\<rparr>
      in if mem_size < SIZEOF_BXML_HEADER then Some (- BXML_BUFF_TOO_SMALL, s)
         else do {
           let m = store_list (bmem s) mem (le32 BXML_MAGIC);
           let m = store_list m (mem + 4) (le16 (bx_version (docs s xml)));
           let m = m(mem + 6 := bx_flag (docs s xml));
           (len, m) \<leftarrow> build_bxml_node (bnodes s) (node_root (docs s xml)) (mem + SIZEOF_BXML_HEADER)
             (mem_size - SIZEOF_BXML_HEADER) m;
           let s = s\<lparr>bmem := m\<rparr>;
           if sint len < 0 then Some (len, s) else Some (mem_size - len, s) })"

section \<open>The text form: writing\<close>

text \<open>\<open>strcat\<close> of a constant, and \<open>sprintf\<close> whose first argument is the target itself.\<close>

definition cat_text :: "u32 \<Rightarrow> u8 list \<Rightarrow> mem \<Rightarrow> mem option" where
  "cat_text dest txt m = do { n \<leftarrow> strlen dest m; Some (store_list m (dest + n) (txt @ [0])) }"

definition print_behind :: "u32 \<Rightarrow> u8 list \<Rightarrow> va list \<Rightarrow> mem \<Rightarrow> mem option" where
  "print_behind dest fmt args m = do {
     old \<leftarrow> read_str m dest;
     (txt, stores) \<leftarrow> sprintf ([37, 115] @ fmt) (Text old # args);
     Some (store_list m dest (txt @ [0])) }"

definition text_arg :: "mem \<Rightarrow> u32 \<Rightarrow> va option" where
  "text_arg m p = (if p = 0 then Some (Arg 0) else do { s \<leftarrow> read_str m p; Some (Text s) })"

definition tabs :: "u32 \<Rightarrow> u8 list" where
  "tabs level = replicate (unat level) 9"

text \<open>The formats of an attribute and of a closing tag, behind the \<open>%s\<close> for the text so far.\<close>

definition attr_format :: "u8 list" where
  "attr_format = [32, 37, 115, 61, 34, 37, 115, 34]"

definition close_format :: "u8 list" where
  "close_format = [60, 47, 37, 115, 62, 10]"

definition close_tag :: "(u32 \<Rightarrow> bxml_node) \<Rightarrow> u32 \<Rightarrow> u32 \<Rightarrow> mem \<Rightarrow> mem option" where
  "close_tag h nod mem m = do { a \<leftarrow> text_arg m (node_name (h nod)); print_behind mem close_format [a] m }"

partial_function (option) build_attrs :: "(u32 \<Rightarrow> bxml_node) \<Rightarrow> u32 \<Rightarrow> u32 \<Rightarrow> u32 \<Rightarrow> mem \<Rightarrow> (u32 \<times> mem) option" where
  "build_attrs h p mem len m =
     (if p = 0 then Some (len, m)
      else do {
        n \<leftarrow> strlen (node_name (h p)) m;
        let len = len - (n + value_len (h p) + 4);
        m \<leftarrow> (if int_pos len then do {
            a \<leftarrow> text_arg m (node_name (h p)); b \<leftarrow> text_arg m (node_value (h p)); print_behind mem attr_format [a, b] m }
          else Some m);
        build_attrs h (node_next (h p)) mem len m })"

text \<open>The tag with its attributes; the end behind the children; an element with a text and the short tag.\<close>

definition open_tag :: "(u32 \<Rightarrow> bxml_node) \<Rightarrow> u32 \<Rightarrow> u32 \<Rightarrow> u32 \<Rightarrow> u32 \<Rightarrow> mem \<Rightarrow> (u32 \<times> mem) option" where
  "open_tag h nod level mem len m = do {
     n \<leftarrow> strlen (node_name (h nod)) m;
     let len = len - (n + 1 + level);
     m \<leftarrow> (if int_pos len then do {
         m \<leftarrow> cat_text mem (tabs level @ [60]) m; (_, m) \<leftarrow> strcat mem (node_name (h nod)) m; Some m }
       else Some m);
     build_attrs h (node_attr (h nod)) mem len m }"

definition close_parent :: "(u32 \<Rightarrow> bxml_node) \<Rightarrow> u32 \<Rightarrow> u32 \<Rightarrow> u32 \<Rightarrow> u32 \<Rightarrow> mem \<Rightarrow> (u32 \<times> mem) option" where
  "close_parent h nod level mem len m = do {
     n \<leftarrow> strlen (node_name (h nod)) m;
     let len = len - (n + 4 + level);
     m \<leftarrow> (if int_pos len then do { m \<leftarrow> cat_text mem (tabs level) m; close_tag h nod mem m } else Some m);
     Some (len, m) }"

definition build_leaf :: "(u32 \<Rightarrow> bxml_node) \<Rightarrow> u32 \<Rightarrow> u32 \<Rightarrow> u32 \<Rightarrow> mem \<Rightarrow> (u32 \<times> mem) option" where
  "build_leaf h nod mem len m =
     (if node_attr (h nod) = 0 \<or> 0 < value_len (h nod) then do {
        let len = len - 1;
        m \<leftarrow> (if int_pos len then cat_text mem [62] m else Some m);
        let len = len - value_len (h nod);
        m \<leftarrow> (if int_pos len \<and> node_value (h nod) \<noteq> 0
             then do { (_, m) \<leftarrow> strcat mem (node_value (h nod)) m; Some m } else Some m);
        n \<leftarrow> strlen (node_name (h nod)) m;
        let len = len - (n + 4);
        m \<leftarrow> (if int_pos len then close_tag h nod mem m else Some m);
        Some (len, m) }
      else do {
        let len = len - 4;
        m \<leftarrow> (if int_pos len then cat_text mem [32, 47, 62, 10] m else Some m);
        Some (len, m) })"

partial_function (option) build_xml_node ::
    "(u32 \<Rightarrow> bxml_node) \<Rightarrow> u32 \<Rightarrow> u32 \<Rightarrow> u32 \<Rightarrow> u32 \<Rightarrow> mem \<Rightarrow> (u32 \<times> mem) option" where
  "build_xml_node h nod level mem len m = do {
     (len, m) \<leftarrow> open_tag h nod level mem len m;
     (len, m) \<leftarrow> (if node_child (h nod) \<noteq> 0 then do {
         let len = len - 2;
         m \<leftarrow> (if int_pos len then cat_text mem [62, 10] m else Some m);
         n \<leftarrow> strlen mem m;
         (len, m) \<leftarrow> build_xml_node h (node_child (h nod)) (level + 1) (mem + n) len m;
         close_parent h nod level mem len m }
       else build_leaf h nod mem len m);
     if node_next (h nod) \<noteq> 0 then do {
       n \<leftarrow> strlen mem m; build_xml_node h (node_next (h nod)) level (mem + n) len m }
     else Some (len, m) }"

definition bxml_buildxml :: "u32 \<Rightarrow> u32 \<Rightarrow> u32 \<Rightarrow> 'h bxml_state \<Rightarrow> (u32 \<times> 'h bxml_state) option" where
  "bxml_buildxml xml mem mem_size s = do {
     let m = snd (memset mem 0 mem_size (bmem s));
     (len, m) \<leftarrow> build_xml_node (bnodes s) (node_root (docs s xml)) 0 mem mem_size m;
     Some (mem_size - len, s\<lparr>bmem := m\<rparr>) }"

section \<open>Releasing a document\<close>

text \<open>The names are not released.\<close>

partial_function (option) free_node :: "'h release \<Rightarrow> u32 \<Rightarrow> 'h bxml_state \<Rightarrow> 'h bxml_state option" where
  "free_node fr nod s =
     (if nod = 0 then Some s
      else do {
        let n = bnodes s nod;
        s \<leftarrow> (if node_attr n \<noteq> 0 then free_node fr (node_attr n) s else Some s);
        s \<leftarrow> (if node_child n \<noteq> 0 then free_node fr (node_child n) s else Some s);
        s \<leftarrow> (if node_value n \<noteq> 0 then safe_free fr (node_value n) s else Some s);
        if node_next n \<noteq> 0 then do {
          s \<leftarrow> safe_free fr (node_pre (bnodes s (node_next n))) s; free_node fr (node_next n) s }
        else safe_free fr nod s })"

definition bxml_free :: "'h release \<Rightarrow> u32 \<Rightarrow> 'h bxml_state \<Rightarrow> 'h bxml_state option" where
  "bxml_free fr xml s = do { s \<leftarrow> free_node fr (node_root (docs s xml)) s; safe_free fr xml s }"

section \<open>Paths\<close>

text \<open>The first node of a list of siblings with the name.\<close>

partial_function (option) search_name :: "(u32 \<Rightarrow> bxml_node) \<Rightarrow> mem \<Rightarrow> u32 \<Rightarrow> u8 list \<Rightarrow> u32 option" where
  "search_name h m nod name =
     (if nod = 0 then Some 0
      else do {
        n \<leftarrow> read_str m (node_name (h nod));
        if n = name then Some nod else search_name h m (node_next (h nod)) name })"

definition get_attrnode ::
    "'h alloc \<Rightarrow> u32 \<Rightarrow> u32 \<Rightarrow> u8 list \<Rightarrow> bool \<Rightarrow> 'h bxml_state \<Rightarrow> (u32 \<times> 'h bxml_state) option" where
  "get_attrnode al xml parent name create s = do {
     nod \<leftarrow> search_name (bnodes s) (bmem s) (node_attr (bnodes s parent)) name;
     if nod \<noteq> 0 then Some (nod, s)
     else if create then do {
       (nod, s) \<leftarrow> create_attrnode al xml parent s;
       s \<leftarrow> give_name al nod name s;
       Some (nod, s) }
     else Some (0, s) }"

text \<open>The text \<open>name=value&name=value\<close> of a condition: at most 16 pairs, and a piece without \<open>=\<close> is skipped.\<close>

fun split_conditions :: "nat \<Rightarrow> u8 list \<Rightarrow> u8 list \<Rightarrow> (u8 list \<times> u8 list) list" where
  "split_conditions i v rest =
     (if 16 \<le> i then []
      else
        let pair = (takeWhile (\<lambda>c. c \<noteq> 61) v, tl (dropWhile (\<lambda>c. c \<noteq> 61) v))
        in case rest of
          [] \<Rightarrow> if 61 \<in> set v then [pair] else []
        | c # cs \<Rightarrow>
            if c = 38 then (if 61 \<in> set v then pair # split_conditions (i + 1) [] cs else split_conditions i [] cs)
            else split_conditions i (v @ [c]) cs)"

declare split_conditions.simps [simp del]

primrec meets :: "(u32 \<Rightarrow> bxml_node) \<Rightarrow> mem \<Rightarrow> u32 \<Rightarrow> (u8 list \<times> u8 list) list \<Rightarrow> bool option" where
  "meets h m nod [] = Some True"
| "meets h m nod (c # cs) = do {
     a \<leftarrow> search_name h m (node_attr (h nod)) (fst c);
     if a = 0 \<or> node_value (h a) = 0 then Some False
     else do { v \<leftarrow> read_str m (node_value (h a)); if v \<noteq> snd c then Some False else meets h m nod cs } }"

partial_function (option) search_meeting ::
    "(u32 \<Rightarrow> bxml_node) \<Rightarrow> mem \<Rightarrow> u32 \<Rightarrow> u8 list \<Rightarrow> (u8 list \<times> u8 list) list \<Rightarrow> u32 option" where
  "search_meeting h m nod name conds =
     (if nod = 0 then Some 0
      else do {
        n \<leftarrow> read_str m (node_name (h nod));
        ok \<leftarrow> (if n = name then meets h m nod conds else Some False);
        if ok then Some nod else search_meeting h m (node_next (h nod)) name conds })"

primrec give_attributes ::
    "'h alloc \<Rightarrow> u32 \<Rightarrow> u32 \<Rightarrow> (u8 list \<times> u8 list) list \<Rightarrow> 'h bxml_state \<Rightarrow> 'h bxml_state option" where
  "give_attributes al xml nod [] s = Some s"
| "give_attributes al xml nod (c # cs) s = do {
     (a, s) \<leftarrow> get_attrnode al xml nod (fst c) True s;
     if a = 0 then Some s
     else do {
       let s = set_node a (\<lambda>n. n\<lparr>value_len := of_nat (length (snd c))\<rparr>) s;
       (p, s) \<leftarrow> safe_malloc al (of_nat (length (snd c)) + 1) s;
       let s = set_node a (\<lambda>n. n\<lparr>node_value := p\<rparr>) s;
       let s = s\<lparr>bmem := store_list (bmem s) p (snd c @ [0])\<rparr>;
       give_attributes al xml nod cs s } }"

definition get_childnode :: "'h alloc \<Rightarrow> u32 \<Rightarrow> u32 \<Rightarrow> u8 list \<Rightarrow> u8 list option \<Rightarrow> bool \<Rightarrow> 'h bxml_state \<Rightarrow>
    (u32 \<times> 'h bxml_state) option" where
  "get_childnode al xml parent name condition create s =
     (let h = bnodes s; first = node_child (h parent)
      in case condition of
        None \<Rightarrow>
          if name = [46, 46, 46] then Some (if first \<noteq> 0 then first else parent, s)
          else if name = [46, 46] then Some (if node_parent (h parent) \<noteq> 0 then node_parent (h parent) else parent, s)
          else if name = [46] then Some (parent, s)
          else do {
            nod \<leftarrow> search_name h (bmem s) first name;
            if nod \<noteq> 0 then Some (nod, s)
            else if create then do {
              (nod, s) \<leftarrow> create_childnode al xml parent s;
              s \<leftarrow> give_name al nod name s;
              Some (nod, s) }
            else Some (0, s) }
      | Some c \<Rightarrow> do {
          let conds = split_conditions 0 [] c;
          nod \<leftarrow> search_meeting h (bmem s) first name conds;
          if nod \<noteq> 0 then Some (nod, s)
          else if create then do {
            (nod, s) \<leftarrow> create_childnode al xml parent s;
            s \<leftarrow> give_name al nod name s;
            s \<leftarrow> give_attributes al xml nod conds s;
            Some (nod, s) }
          else Some (0, s) })"

text \<open>One component of a path: \<open>name\<close>, \<open>name?condition\<close>, \<open>?condition\<close> for a sibling of the node with its name,
  \<open>name:attribute\<close> or \<open>:attribute\<close>. An empty or too long component is skipped.\<close>

definition before :: "u8 \<Rightarrow> u8 list \<Rightarrow> u8 list" where
  "before c xs = takeWhile (\<lambda>x. x \<noteq> c) xs"

definition behind :: "u8 \<Rightarrow> u8 list \<Rightarrow> u8 list" where
  "behind c xs = tl (dropWhile (\<lambda>x. x \<noteq> c) xs)"

definition path_step :: "'h alloc \<Rightarrow> u32 \<Rightarrow> bool \<Rightarrow> u32 \<Rightarrow> u8 list \<Rightarrow> 'h bxml_state \<Rightarrow> (u32 \<times> 'h bxml_state) option" where
  "path_step al xml create nod tmp s =
     (if tmp = [] \<or> 256 \<le> length tmp then Some (nod, s)
      else if 63 \<in> set tmp then
        (if before 63 tmp \<noteq> [] then get_childnode al xml nod (before 63 tmp) (Some (behind 63 tmp)) create s
         else if node_parent (bnodes s nod) \<noteq> 0 then do {
           name \<leftarrow> read_str (bmem s) (node_name (bnodes s nod));
           get_childnode al xml (node_parent (bnodes s nod)) name (Some (behind 63 tmp)) create s }
         else Some (nod, s))
      else if 58 \<in> set tmp then do {
        (nod, s) \<leftarrow> (if before 58 tmp \<noteq> [] then get_childnode al xml nod (before 58 tmp) None create s else Some (nod, s));
        if nod \<noteq> 0 then get_attrnode al xml nod (behind 58 tmp) create s else Some (nod, s) }
      else get_childnode al xml nod tmp None create s)"

primrec path_loop :: "'h alloc \<Rightarrow> u32 \<Rightarrow> bool \<Rightarrow> u8 list \<Rightarrow> u32 \<Rightarrow> u8 list \<Rightarrow> 'h bxml_state \<Rightarrow> (u32 \<times> 'h bxml_state) option" where
  "path_loop al xml create [] nod tmp s = (if nod = 0 then Some (0, s) else path_step al xml create nod tmp s)"
| "path_loop al xml create (c # cs) nod tmp s =
     (if nod = 0 then Some (0, s)
      else if c = 47 then do {
        (nod, s) \<leftarrow> path_step al xml create nod tmp s; path_loop al xml create cs nod [] s }
      else path_loop al xml create cs nod (tmp @ [c]) s)"

definition parse_path :: "'h alloc \<Rightarrow> u32 \<Rightarrow> u8 list \<Rightarrow> bool \<Rightarrow> 'h bxml_state \<Rightarrow> (u32 \<times> 'h bxml_state) option" where
  "parse_path al xml path create s =
     (if path \<noteq> [] \<and> hd path = 47 then path_loop al xml create (tl path) (node_root (docs s xml)) [] s
      else path_loop al xml create path (node_cur (docs s xml)) [] s)"

section \<open>Operations on a document\<close>

definition bxml_redirect :: "'h alloc \<Rightarrow> u32 \<Rightarrow> u8 list \<Rightarrow> bool \<Rightarrow> 'h bxml_state \<Rightarrow> (int \<times> 'h bxml_state) option" where
  "bxml_redirect al xml path create s = do {
     (nod, s) \<leftarrow> parse_path al xml path create s;
     Some (if nod \<noteq> 0 then (1, set_doc xml (\<lambda>d. d\<lparr>node_cur := nod\<rparr>) s) else (0, s)) }"

text \<open>What is copied to the caller's buffer is a result.\<close>

definition bxml_read :: "'h alloc \<Rightarrow> u32 \<Rightarrow> u8 list \<Rightarrow> u32 \<Rightarrow> 'h bxml_state \<Rightarrow> (int \<times> u8 list \<times> 'h bxml_state) option" where
  "bxml_read al xml path buf_size s = do {
     (nod, s) \<leftarrow> parse_path al xml path False s;
     if nod \<noteq> 0 \<and> node_value (bnodes s nod) \<noteq> 0 then
       let n = bnodes s nod; k = (if value_len n < buf_size then value_len n else buf_size)
       in Some (sint k, load_list (unat k) (bmem s) (node_value n), s)
     else Some (-1, [], s) }"

definition drop_value :: "'h release \<Rightarrow> u32 \<Rightarrow> 'h bxml_state \<Rightarrow> 'h bxml_state option" where
  "drop_value fr nod s =
     (if node_value (bnodes s nod) \<noteq> 0 then safe_free fr (node_value (bnodes s nod)) s else Some s)"

definition bxml_write :: "'h alloc \<Rightarrow> 'h release \<Rightarrow> u32 \<Rightarrow> u8 list \<Rightarrow> u8 list \<Rightarrow> 'h bxml_state \<Rightarrow> 'h bxml_state option" where
  "bxml_write al fr xml path buf s = do {
     (nod, s) \<leftarrow> parse_path al xml path True s;
     if nod \<noteq> 0 then do {
       s \<leftarrow> drop_value fr nod s;
       let s = set_node nod (\<lambda>n. n\<lparr>value_len := of_nat (length buf)\<rparr>) s;
       (p, s) \<leftarrow> safe_malloc al (of_nat (length buf)) s;
       let s = set_node nod (\<lambda>n. n\<lparr>node_value := p\<rparr>) s;
       Some (if p \<noteq> 0 then s\<lparr>bmem := store_list (bmem s) p buf\<rparr> else s) }
     else Some s }"

definition bxml_readname :: "'h alloc \<Rightarrow> u32 \<Rightarrow> u8 list \<Rightarrow> 'h bxml_state \<Rightarrow> (u32 \<times> 'h bxml_state) option" where
  "bxml_readname al xml path s = do {
     (nod, s) \<leftarrow> parse_path al xml path False s;
     Some (if nod \<noteq> 0 \<and> node_name (bnodes s nod) \<noteq> 0 then node_name (bnodes s nod) else 0, s) }"

definition bxml_readstr :: "'h alloc \<Rightarrow> u32 \<Rightarrow> u8 list \<Rightarrow> 'h bxml_state \<Rightarrow> (u32 \<times> 'h bxml_state) option" where
  "bxml_readstr al xml path s = do {
     (nod, s) \<leftarrow> parse_path al xml path False s;
     Some (if nod \<noteq> 0 \<and> node_value (bnodes s nod) \<noteq> 0 then node_value (bnodes s nod) else 0, s) }"

definition bxml_writestr :: "'h alloc \<Rightarrow> 'h release \<Rightarrow> u32 \<Rightarrow> u8 list \<Rightarrow> u8 list \<Rightarrow> 'h bxml_state \<Rightarrow> 'h bxml_state option" where
  "bxml_writestr al fr xml path str s = do {
     (nod, s) \<leftarrow> parse_path al xml path True s;
     if nod \<noteq> 0 then do {
       s \<leftarrow> drop_value fr nod s;
       let s = set_node nod (\<lambda>n. n\<lparr>value_len := of_nat (length str)\<rparr>) s;
       (p, s) \<leftarrow> safe_malloc al (value_len (bnodes s nod) + 1) s;
       let s = set_node nod (\<lambda>n. n\<lparr>node_value := p\<rparr>) s;
       Some (if p \<noteq> 0 then s\<lparr>bmem := store_list (bmem s) p (str @ [0])\<rparr> else s) }
     else Some s }"

definition bxml_movenext :: "u32 \<Rightarrow> 'h bxml_state \<Rightarrow> int \<times> 'h bxml_state" where
  "bxml_movenext xml s =
     (let cur = node_cur (docs s xml); nod = (if cur \<noteq> 0 then node_next (bnodes s cur) else cur)
      in if nod \<noteq> 0 then (1, set_doc xml (\<lambda>d. d\<lparr>node_cur := nod\<rparr>) s) else (0, s))"

definition bxml_mknode :: "'h alloc \<Rightarrow> u32 \<Rightarrow> u8 list \<Rightarrow> 'h bxml_state \<Rightarrow> (int \<times> 'h bxml_state) option" where
  "bxml_mknode al xml name s =
     (if node_cur (docs s xml) = 0 then Some (-1, s)
      else do {
        (nod, s) \<leftarrow> create_nextnode al xml (node_cur (docs s xml)) s;
        if nod \<noteq> 0 then do {
          s \<leftarrow> give_name al nod name s;
          Some (1, set_doc xml (\<lambda>d. d\<lparr>node_cur := nod\<rparr>) s) }
        else Some (0, s) })"

text \<open>The loops can be executed.\<close>

declare read_str.simps [code] parse_chars.simps [code] parse_nodes.simps [code] sum_sizes.simps [code]
  build_nodes.simps [code] build_attrs.simps [code] build_xml_node.simps [code] free_node.simps [code]
  search_name.simps [code] search_meeting.simps [code]

end
