(* ===== verification/ByteBlocks.thy ===== *)
theory ByteBlocks
  imports UserString
begin

text \<open>
  Blocks of bytes in memory: what storing and loading a list of bytes changes and reads, and that
  \<open>memcpy\<close> and \<open>memset\<close> store lists.
\<close>

section \<open>Lists of bytes\<close>

text \<open>\<open>block p n\<close>: the \<open>n\<close> addresses from \<open>p\<close> on.\<close>

definition block :: "u32 \<Rightarrow> nat \<Rightarrow> u32 set" where
  "block p n = {a. unat (a - p) < n}"

lemma block_0 [simp]: "block p 0 = {}"
  by (simp add: block_def)

lemma block_mono: "m \<le> n \<Longrightarrow> block p m \<subseteq> block p n"
  by (auto simp: block_def)

lemma unat_of_nat32: "i < 2 ^ 32 \<Longrightarrow> unat (of_nat i :: u32) = i"
  by (simp add: unat_of_nat take_bit_nat_eq_self)

lemma of_nat_Suc_dec: "n < 2 ^ 32 - 1 \<Longrightarrow> (of_nat (Suc n) :: u32) \<noteq> 0"
  using unat_of_nat32 [of "Suc n"] by (metis One_nat_def Suc_eq_plus1 nat.distinct(1) less_diff_conv unat_0)

lemma block_member: "i < n \<Longrightarrow> n \<le> 2 ^ 32 \<Longrightarrow> p + of_nat i \<in> block p n"
  by (simp add: block_def unat_of_nat32)

lemma block_Suc:
  assumes "n < 2 ^ 32"
  shows "block p (Suc n) = insert p (block (p + 1) n)"
proof -
  have "unat (a - p) < Suc n \<longleftrightarrow> a = p \<or> unat (a - (p + 1)) < n" for a
  proof (cases "a = p")
    case False
    then have "unat (a - p) = Suc (unat (a - p - 1))" using False by (simp add: unat_minus_one unat_gt_0)
    with False show ?thesis by (simp add: diff_diff_eq)
  qed simp
  then show ?thesis by (auto simp: block_def)
qed

lemma block_1 [simp]: "block p (Suc 0) = {p}"
  by (simp add: block_Suc)

lemma block_append:
  assumes "m + n \<le> 2 ^ 32"
  shows "block p (m + n) = block p m \<union> block (p + of_nat m) n"
  using assms
proof (induction m arbitrary: p)
  case (Suc m)
  have "block p (Suc m + n) = insert p (block (p + 1) (m + n))" using Suc.prems by (simp add: block_Suc)
  also have "\<dots> = insert p (block (p + 1) m) \<union> block (p + 1 + of_nat m) n" using Suc by simp
  also have "\<dots> = block p (Suc m) \<union> block (p + of_nat (Suc m)) n" using Suc.prems by (simp add: block_Suc ac_simps)
  finally show ?case .
qed simp

lemma before_block: "n < 2 ^ 32 \<Longrightarrow> p \<notin> block (p + 1) n"
proof -
  have "unat (p - (p + 1)) = 2 ^ 32 - 1" by (simp add: unsigned_minus_1_eq_mask mask_eq_exp_minus_1)
  then show "n < 2 ^ 32 \<Longrightarrow> p \<notin> block (p + 1) n" by (simp add: block_def)
qed

lemma block_disjoint: "m + n \<le> 2 ^ 32 \<Longrightarrow> block p m \<inter> block (p + of_nat m) n = {}"
proof (induction m arbitrary: p)
  case (Suc m)
  have "block (p + 1) (m + n) = block (p + 1) m \<union> block (p + 1 + of_nat m) n" using Suc.prems by (simp add: block_append)
  moreover have "p \<notin> block (p + 1) (m + n)" using Suc.prems by (simp add: before_block)
  ultimately have "p \<notin> block (p + 1 + of_nat m) n" by blast
  then show ?case using Suc.IH [of "p + 1"] Suc.prems by (simp add: block_Suc ac_simps)
qed simp

lemma load_list_length [simp]: "length (load_list n m p) = n"
  by (induction n arbitrary: p) simp_all

lemma load_list_cong: "n \<le> 2 ^ 32 \<Longrightarrow> (\<forall>a\<in>block p n. m' a = m a) \<Longrightarrow> load_list n m' p = load_list n m p"
  by (induction n arbitrary: p) (simp_all add: block_Suc)

lemma load_list_append: "load_list (n + k) m p = load_list n m p @ load_list k m (p + of_nat n)"
  by (induction n arbitrary: p) (simp_all add: ac_simps)

lemma store_list_append: "store_list m p (xs @ ys) = store_list (store_list m p xs) (p + of_nat (length xs)) ys"
  by (induction xs arbitrary: m p) (simp_all add: ac_simps)

lemma store_list_other: "length xs \<le> 2 ^ 32 \<Longrightarrow> a \<notin> block p (length xs) \<Longrightarrow> store_list m p xs a = m a"
  by (induction xs arbitrary: m p) (simp_all add: block_Suc)

lemma load_store_list: "length xs \<le> 2 ^ 32 \<Longrightarrow> load_list (length xs) (store_list m p xs) p = xs"
proof (induction xs arbitrary: m p)
  case (Cons x xs)
  have "p \<notin> block (p + 1) (length xs)" using Cons.prems by (simp add: before_block)
  with Cons show ?case by (simp add: store_list_other)
qed simp

lemma load_store_other:
  "length xs \<le> 2 ^ 32 \<Longrightarrow> n \<le> 2 ^ 32 \<Longrightarrow> block p n \<inter> block q (length xs) = {} \<Longrightarrow> load_list n (store_list m q xs) p = load_list n m p"
  by (rule load_list_cong) (auto intro!: store_list_other)

lemma store_replicate: "n \<le> 2 ^ 32 \<Longrightarrow> a \<in> block p n \<Longrightarrow> store_list m p (replicate n b) a = b"
proof (induction n arbitrary: m p)
  case (Suc n)
  have "p \<notin> block (p + 1) n" using Suc.prems by (simp add: before_block)
  with Suc show ?case by (auto simp: block_Suc store_list_other)
qed simp

lemma load_replicate: "n \<le> 2 ^ 32 \<Longrightarrow> (\<forall>a\<in>block p n. m a = b) \<Longrightarrow> load_list n m p = replicate n b"
  by (induction n arbitrary: p) (simp_all add: block_Suc)

lemma rep_movsb_store:
  assumes "block src n \<inter> block dst n = {}" and "n < 2 ^ 32"
  shows "rep_movsb 1 (of_nat n) src dst m = store_list m dst (load_list n m src)"
  using assms
proof (induction n arbitrary: src dst m)
  case (Suc n)
  have s: "(of_nat (Suc n) :: u32) \<noteq> 0" "(of_nat (Suc n) :: u32) - 1 = of_nat n"
    using Suc.prems(2) of_nat_Suc_dec [of n] by simp_all
  have lt: "n < 2 ^ 32" using Suc.prems(2) by simp
  have d: "block (src + 1) n \<inter> block (dst + 1) n = {}" "src \<notin> block (dst + 1) n" "dst \<notin> block (src + 1) n"
    using Suc.prems by (auto simp: block_Suc)
  have l: "load_list n (m(dst := m src)) (src + 1) = load_list n m (src + 1)"
    using d(3) Suc.prems(2) by (intro load_list_cong) auto
  have "rep_movsb 1 (of_nat (Suc n)) src dst m = rep_movsb 1 (of_nat n) (src + 1) (dst + 1) (m(dst := m src))"
    using s by (subst rep_movsb.simps) simp
  also have "\<dots> = store_list (m(dst := m src)) (dst + 1) (load_list n m (src + 1))"
    unfolding Suc.IH [OF d(1) lt] l ..
  finally show ?case by simp
qed (simp add: rep_movsb.simps)

lemma memcpy_store:
  "block src (unat n) \<inter> block dst (unat n) = {} \<Longrightarrow> snd (memcpy dst src n m) = store_list m dst (load_list (unat n) m src)"
  using rep_movsb_store [of src "unat n" dst m] unat_32 [of n] by (simp add: memcpy_def)

lemma rep_stos_byte: "n < 2 ^ 32 \<Longrightarrow> rep_stos [b] (of_nat n) p m = store_list m p (replicate n b)"
proof (induction n arbitrary: p m)
  case (Suc n)
  have s: "(of_nat (Suc n) :: u32) \<noteq> 0" "(of_nat (Suc n) :: u32) - 1 = of_nat n"
    using Suc.prems of_nat_Suc_dec [of n] by simp_all
  with Suc show ?case by (subst rep_stos.simps) simp
qed (simp add: rep_stos.simps)

lemma memset_store: "snd (memset p 0 n m) = store_list m p (replicate (unat n) 0)"
  using rep_stos_byte [of "unat n" 0 p m] unat_32 [of n] by (simp add: memset_def low_byte_def)

lemma ld16_le16: "ld16 m p = w" if "load_list 2 m p = le16 w"
proof -
  have "ucast (ucast w :: u8) OR push_bit 8 (ucast (ucast (drop_bit 8 w) :: u8)) = w"
  proof (rule bit_word_eqI)
    fix n assume "n < LENGTH(16)"
    then consider "n < 8" | "8 \<le> n" "n < 16" by fastforce
    then show "bit (ucast (ucast w :: u8) OR push_bit 8 (ucast (ucast (drop_bit 8 w) :: u8)) :: u16) n = bit w n"
      by cases (auto simp: bit_simps)
  qed
  with that show ?thesis by (simp add: ld16_def le16_def numeral_2_eq_2)
qed

lemma ld32_load: "ld32 m p = w" if "load_list 4 m p = le32 w"
proof -
  have l: "length (le32 w) = 4" by (simp add: le32_def)
  have "load_list 4 (store_list m p (le32 w)) p = le32 w"
    using load_store_list [of "le32 w" m p] unfolding l by simp
  with that have "load_list 4 (store_list m p (le32 w)) p = load_list 4 m p" by simp
  then have "ld32 (store_list m p (le32 w)) p = ld32 m p" by (simp add: eval_nat_numeral ld32_def ac_simps)
  then show ?thesis by (simp add: ld32_le32)
qed

end
