(* ===== verification/BxmlInv.thy ===== *)
theory BxmlInv
  imports Bxml ByteBlocks
begin

text \<open>
  The binary form of the message documents. A document is a tree (\<open>xtree\<close>) laid out in the heap of nodes;
  \<open>forest\<close> says that a list of trees hangs at a pointer, with every link set, and lies outside a given set
  of addresses. \<open>encs\<close> is the sequence of bytes of a list of trees. Writing a document stores exactly these
  bytes; reading them builds the tree with the order of the attributes and of the children reversed. What
  the reader needs from the allocator is the locale \<open>fresh_blocks\<close>.
\<close>

section \<open>Trees\<close>

lemma unat_wide [simp]: "unat (ucast x :: u32) = unat x" for x :: u8
  using unsigned_less [of x, where 'a = nat] by (simp add: unsigned_ucast_eq take_bit_nat_eq_self)

datatype xtree = XNode (xname: "u8 list") (xvalue: "u8 list") (xattrs: "xtree list") (xchildren: "xtree list")

text \<open>The sizes of lists of trees in bytes, and their bytes.\<close>

fun sizes :: "xtree list \<Rightarrow> nat" where
  "sizes [] = 0"
| "sizes (XNode n v as cs # ts) = 8 + length n + length v + sizes as + sizes cs + sizes ts"

fun encs :: "xtree list \<Rightarrow> u8 list" where
  "encs [] = []"
| "encs (XNode n v as cs # ts) =
     of_nat (length n) # n @ of_nat (length as) # le16 (of_nat (length cs)) @ le32 (of_nat (length v)) @ v @
     encs as @ encs cs @ encs ts"

text \<open>Trees the binary form can hold: the counts and the length of a name fit their fields.\<close>

fun fits :: "xtree list \<Rightarrow> bool" where
  "fits [] \<longleftrightarrow> True"
| "fits (XNode n v as cs # ts) \<longleftrightarrow> length n < 256 \<and> length as < 256 \<and> length cs < 65536 \<and> fits as \<and> fits cs \<and> fits ts"

text \<open>Trees of which the writer leaves out nothing; it counts one node more than the fields can hold.\<close>

fun counted :: "xtree list \<Rightarrow> bool" where
  "counted [] \<longleftrightarrow> True"
| "counted (XNode n v as cs # ts) \<longleftrightarrow> length as \<le> 256 \<and> length cs \<le> 65536 \<and> counted as \<and> counted cs \<and> counted ts"

lemma fits_counted: "fits ts \<Longrightarrow> counted ts"
  by (induction ts rule: fits.induct) simp_all

text \<open>What arrives at the reader.\<close>

fun mirrors :: "xtree list \<Rightarrow> xtree list" where
  "mirrors [] = []"
| "mirrors (XNode n v as cs # ts) = mirrors ts @ [XNode n v (mirrors as) (mirrors cs)]"

definition mirror :: "xtree \<Rightarrow> xtree" where
  "mirror t = XNode (xname t) (xvalue t) (mirrors (xattrs t)) (mirrors (xchildren t))"

lemma mirrors_append: "mirrors (ts @ us) = mirrors us @ mirrors ts"
  by (induction ts rule: mirrors.induct) simp_all

lemma mirrors_mirrors [simp]: "mirrors (mirrors ts) = ts"
  by (induction ts rule: mirrors.induct) (simp_all add: mirrors_append)

lemma mirror_mirror [simp]: "mirror (mirror t) = t"
  by (simp add: mirror_def)

lemma length_mirrors [simp]: "length (mirrors ts) = length ts"
  by (induction ts rule: mirrors.induct) simp_all

lemma length_le [simp]: "length (le16 w) = 2" "length (le32 x) = 4"
  by (simp_all add: le16_def le32_def)

lemma length_encs [simp]: "length (encs ts) = sizes ts"
  by (induction ts rule: encs.induct) simp_all

text \<open>\<open>holds_bytes B m p xs\<close>: the bytes lie at \<open>p\<close>, outside \<open>B\<close>.\<close>

definition holds_bytes :: "u32 set \<Rightarrow> mem \<Rightarrow> u32 \<Rightarrow> u8 list \<Rightarrow> bool" where
  "holds_bytes B m p xs \<longleftrightarrow> load_list (length xs) m p = xs \<and> block p (length xs) \<inter> B = {}"

text \<open>The trees \<open>ts\<close> are the list of siblings at \<open>p\<close>, below \<open>par\<close> and behind \<open>pre\<close>; nodes, names and values lie
  outside \<open>B\<close>, and what is below or behind a node does not contain it.\<close>

fun forest :: "u32 set \<Rightarrow> (u32 \<Rightarrow> bxml_node) \<Rightarrow> mem \<Rightarrow> u32 \<Rightarrow> u32 \<Rightarrow> u32 \<Rightarrow> xtree list \<Rightarrow> bool" where
  "forest B h m par pre p [] \<longleftrightarrow> p = 0"
| "forest B h m par pre p (XNode n v as cs # ts) \<longleftrightarrow>
     p \<noteq> 0 \<and> p \<notin> B \<and> node_parent (h p) = par \<and> node_pre (h p) = pre \<and>
     unat (name_len (h p)) = length n \<and> unat (value_len (h p)) = length v \<and>
     holds_bytes B m (node_name (h p)) n \<and> holds_bytes B m (node_value (h p)) v \<and>
     forest (insert p B) h m p 0 (node_attr (h p)) as \<and> forest (insert p B) h m p 0 (node_child (h p)) cs \<and>
     forest (insert p B) h m par p (node_next (h p)) ts"

text \<open>One tree, whatever its siblings are.\<close>

fun tree_at :: "u32 set \<Rightarrow> (u32 \<Rightarrow> bxml_node) \<Rightarrow> mem \<Rightarrow> u32 \<Rightarrow> xtree \<Rightarrow> bool" where
  "tree_at B h m p (XNode n v as cs) \<longleftrightarrow>
     p \<noteq> 0 \<and> p \<notin> B \<and> unat (name_len (h p)) = length n \<and> unat (value_len (h p)) = length v \<and>
     holds_bytes B m (node_name (h p)) n \<and> holds_bytes B m (node_value (h p)) v \<and>
     forest (insert p B) h m p 0 (node_attr (h p)) as \<and> forest (insert p B) h m p 0 (node_child (h p)) cs"

lemma forest_Cons: "forest B h m par pre p (t # ts) \<longleftrightarrow>
    tree_at B h m p t \<and> node_parent (h p) = par \<and> node_pre (h p) = pre \<and> forest (insert p B) h m par p (node_next (h p)) ts"
  by (cases t) auto

lemma holds_append: "length xs + length ys \<le> 2 ^ 32 \<Longrightarrow>
    holds_bytes B m p (xs @ ys) \<longleftrightarrow> holds_bytes B m p xs \<and> holds_bytes B m (p + of_nat (length xs)) ys"
  by (auto simp: holds_bytes_def load_list_append block_append)

lemma holds_Cons: "length xs < 2 ^ 32 \<Longrightarrow> holds_bytes B m p (x # xs) \<longleftrightarrow> m p = x \<and> p \<notin> B \<and> holds_bytes B m (p + 1) xs"
  by (auto simp: holds_bytes_def block_Suc)

lemma holds_Nil [simp]: "holds_bytes B m p []"
  by (simp add: holds_bytes_def)

lemma holds_mono: "holds_bytes B m p xs \<Longrightarrow> B' \<subseteq> B \<Longrightarrow> holds_bytes B' m p xs"
  by (auto simp: holds_bytes_def)

lemma holds_cong:
  "length xs \<le> 2 ^ 32 \<Longrightarrow> holds_bytes B m p xs \<Longrightarrow> (\<And>a. a \<notin> B \<Longrightarrow> m' a = m a) \<Longrightarrow> holds_bytes B m' p xs"
  unfolding holds_bytes_def by (metis disjoint_iff load_list_cong)

lemma forest_mono: "forest B h m par pre p ts \<Longrightarrow> B' \<subseteq> B \<Longrightarrow> forest B' h m par pre p ts"
proof (induction ts arbitrary: B B' par pre p rule: fits.induct)
  case (2 n v as cs ts)
  have "insert p B' \<subseteq> insert p B" using 2(5) by blast
  with 2 show ?case by (auto intro: holds_mono)
qed simp

lemma tree_mono: "tree_at B h m p t \<Longrightarrow> B' \<subseteq> B \<Longrightarrow> tree_at B' h m p t"
  using insert_mono [of B' B p] by (cases t) (auto intro: holds_mono forest_mono)

lemma tree_parts:
  "tree_at B h m p (XNode n v as cs) \<Longrightarrow> forest B h m p 0 (node_attr (h p)) as"
  "tree_at B h m p (XNode n v as cs) \<Longrightarrow> forest B h m p 0 (node_child (h p)) cs"
  by (auto elim: forest_mono)

lemma node_fields_cong:
  assumes "unat (name_len (h p)) = length n" and "unat (value_len (h p)) = length v"
    and "holds_bytes B m (node_name (h p)) n" and "holds_bytes B m (node_value (h p)) v"
    and "\<And>a. a \<notin> B \<Longrightarrow> m' a = m a"
  shows "holds_bytes B m' (node_name (h p)) n" and "holds_bytes B m' (node_value (h p)) v"
  using assms unat_32 [of "value_len (h p)"] unsigned_less [of "name_len (h p)", where 'a = nat]
  by (auto intro!: holds_cong [where m = m])

lemma forest_cong:
  "forest B h m par pre p ts \<Longrightarrow> (\<And>a. a \<notin> B \<Longrightarrow> h' a = h a) \<Longrightarrow> (\<And>a. a \<notin> B \<Longrightarrow> m' a = m a) \<Longrightarrow> forest B h' m' par pre p ts"
proof (induction ts arbitrary: B par pre p rule: fits.induct)
  case (2 n v as cs ts)
  have "h' p = h p" using 2 by simp
  moreover have "forest (insert p B) h' m' p 0 (node_attr (h p)) as" by (rule 2(1)) (use 2(4-6) in auto)
  moreover have "forest (insert p B) h' m' p 0 (node_child (h p)) cs" by (rule 2(2)) (use 2(4-6) in auto)
  moreover have "forest (insert p B) h' m' par p (node_next (h p)) ts" by (rule 2(3)) (use 2(4-6) in auto)
  ultimately show ?case using 2(4,6) node_fields_cong [where h = h and m = m and m' = m'] by simp
qed simp

lemma tree_cong:
  "tree_at B h m p t \<Longrightarrow> (\<And>a. a \<notin> B \<Longrightarrow> h' a = h a) \<Longrightarrow> (\<And>a. a \<notin> B \<Longrightarrow> m' a = m a) \<Longrightarrow> tree_at B h' m' p t"
  using node_fields_cong [where h = h and m = m and m' = m']
  by (cases t) (auto intro: forest_cong [where h = h and m = m])

text \<open>Putting another node in front of a list.\<close>

lemma forest_behind:
  assumes f: "forest B h m par pre p ts" and p: "p \<noteq> 0 \<longrightarrow> h' p = (h p)\<lparr>node_pre := x\<rparr>"
    and h: "\<And>a. a \<notin> B \<Longrightarrow> a = p \<longrightarrow> p = 0 \<Longrightarrow> h' a = h a"
  shows "forest B h' m par x p ts"
proof (cases ts)
  case (Cons t us)
  obtain n v as cs where t: "t = XNode n v as cs" by (cases t)
  have "h' a = h a" if "a \<notin> insert p B" for a using that h by simp
  then have "forest (insert p B) h' m q r s xs" if "forest (insert p B) h m q r s xs" for q r s xs
    using forest_cong [OF that] by blast
  with f p show ?thesis by (auto simp: Cons t)
qed (use f in simp)

lemma forest_zero: "forest B h m par pre p ts \<Longrightarrow> p = 0 \<longleftrightarrow> ts = []"
  by (cases ts) (auto simp: forest_Cons elim: tree_at.elims)

section \<open>Writing\<close>

lemma count_forest: "forest B h m par pre p ts \<Longrightarrow> count_nodes k h p = min k (length ts)"
proof (induction ts arbitrary: B k par pre p)
  case (Cons t ts)
  then show ?case by (cases k; cases t) auto
next
  case Nil
  then show ?case by (cases k) auto
qed

lemma copy_behind:
  assumes "holds_bytes B m src xs" and "unat n = length xs"
    and "block q (length ys + length xs) \<subseteq> B" and "length ys + length xs \<le> 2 ^ 32"
  shows "snd (memcpy (q + of_nat (length ys)) src n (store_list m q ys)) = store_list m q (ys @ xs)"
proof -
  have b: "block q (length ys) \<union> block (q + of_nat (length ys)) (length xs) \<subseteq> B"
    using assms(3,4) by (simp add: block_append)
  then have "block src (unat n) \<inter> block (q + of_nat (length ys)) (unat n) = {}"
    "block src (length xs) \<inter> block q (length ys) = {}"
    using assms(1,2) by (auto simp: holds_bytes_def)
  moreover from this(2) have "load_list (length xs) (store_list m q ys) src = xs"
    using assms(1,4) by (simp add: holds_bytes_def load_store_other)
  ultimately show ?thesis using assms(2) by (simp add: memcpy_store store_list_append)
qed

definition head_bytes :: "xtree \<Rightarrow> u8 list" where
  "head_bytes t = of_nat (length (xname t)) # xname t @ of_nat (length (xattrs t)) #
     le16 (of_nat (length (xchildren t))) @ le32 (of_nat (length (xvalue t))) @ xvalue t"

lemma length_head [simp]: "length (head_bytes (XNode n v as cs)) = 8 + length n + length v"
  by (simp add: head_bytes_def)

lemma encs_head: "encs (XNode n v as cs # ts) = head_bytes (XNode n v as cs) @ encs as @ encs cs @ encs ts"
  by (simp add: head_bytes_def)

lemma write_fields_spec:
  assumes t: "tree_at B h m p (XNode n v as cs)" and f: "length as \<le> 256" "length cs \<le> 65536"
    and q: "block q (8 + length n + length v) \<subseteq> B" and l: "8 + length n + length v \<le> 2 ^ 32"
  shows "write_fields h p q m = (q + of_nat (8 + length n + length v), store_list m q (head_bytes (XNode n v as cs)))"
proof -
  have c: "count_nodes 256 h (node_attr (h p)) = length as" "count_nodes 65536 h (node_child (h p)) = length cs"
    using t f by (auto simp: count_forest)
  have u: "unat (name_len (h p)) = length n" "unat (value_len (h p)) = length v"
    and hb: "holds_bytes B m (node_name (h p)) n" "holds_bytes B m (node_value (h p)) v" using t by auto
  have len: "(ucast (name_len (h p)) :: u32) = of_nat (length n)" "name_len (h p) = of_nat (length n)"
    "value_len (h p) = of_nat (length v)" "unat (of_nat (length n) :: u32) = length n"
    using u(1) unfolding u [symmetric] by simp_all
  define h0 where "h0 = [of_nat (length n) :: u8]"
  have s0: "m(q := of_nat (length n)) = store_list m q h0" by (simp add: h0_def)
  define h1 where "h1 = h0 @ n @ [of_nat (length as)] @ le16 (of_nat (length cs)) @ le32 (of_nat (length v))"
  have h1l: "length h1 = 8 + length n" by (simp add: h1_def h0_def)
  have "block q (length h0 + length n) \<subseteq> B" using q block_mono [of "length h0 + length n" "8 + length n + length v" q] by (simp add: h0_def)
  then have s1: "snd (memcpy (q + 1) (node_name (h p)) (of_nat (length n)) (store_list m q h0)) = store_list m q (h0 @ n)"
    using copy_behind [OF hb(1) len(4), of q h0] l by (simp add: h0_def)
  have s2: "store_list (store_list ((store_list m q (h0 @ n))(q + 1 + of_nat (length n) := of_nat (length as)))
      (q + 1 + of_nat (length n) + 1) (le16 (of_nat (length cs)))) (q + 1 + of_nat (length n) + 1 + 2) (le32 (value_len (h p))) =
    store_list m q h1"
    by (simp add: len(3) h1_def h0_def store_list_append ac_simps)
  have "block q (length h1 + length v) \<subseteq> B" using q by (simp add: h1l)
  then have s3: "snd (memcpy (q + of_nat (8 + length n)) (node_value (h p)) (value_len (h p)) (store_list m q h1)) = store_list m q (h1 @ v)"
    using copy_behind [OF hb(2) u(2), of q h1] l h1l by simp
  have h: "h1 @ v = head_bytes (XNode n v as cs)" by (simp add: h1_def h0_def head_bytes_def)
  have q2: "q + 1 + of_nat (length n) + 1 + 2 + 4 = q + of_nat (8 + length n)" by (simp add: ac_simps)
  have q3: "q + of_nat (8 + length n) + value_len (h p) = q + of_nat (8 + length n + length v)" by (simp add: len(3) ac_simps)
  show ?thesis
    unfolding write_fields_def Let_def c len(1) unfolding len(2) s0 s1 s2 q2 s3 q3 h by (rule refl)
qed

text \<open>What writing a list of trees at \<open>q\<close> with \<open>len\<close> bytes left must give.\<close>

definition written :: "(u32 \<times> u32 \<times> mem) option \<Rightarrow> u32 \<Rightarrow> u32 \<Rightarrow> mem \<Rightarrow> xtree list \<Rightarrow> bool" where
  "written r q len m ts \<longleftrightarrow>
     (if sizes ts \<le> unat len then r = Some (len - of_nat (sizes ts), q + of_nat (sizes ts), store_list m q (encs ts))
      else \<exists>q' m'. r = Some (- BXML_BUFF_TOO_SMALL, q', m'))"

definition writes :: "u32 set \<Rightarrow> (u32 \<Rightarrow> bxml_node) \<Rightarrow> xtree list \<Rightarrow> bool" where
  "writes B h ts \<longleftrightarrow> (\<forall>par pre p q len m k. forest B h m par pre p ts \<longrightarrow> block q (unat len) \<subseteq> B \<longrightarrow>
     unat len < 2 ^ 31 \<longrightarrow> length ts \<le> k \<longrightarrow> written (build_nodes h k p q len m) q len m ts)"

lemma sint_neg: "2 ^ 31 \<le> unat x \<Longrightarrow> sint x < 0" for x :: u32
proof -
  assume x: "2 ^ 31 \<le> unat x"
  have "unat x div 2 ^ 31 = 1" using x unat_32 [of x] by (intro div_nat_eqI) simp_all
  then have "bit (unat x) 31" by (metis bit_iff_odd odd_one)
  then have "bit (int (unat x)) 31" by (simp only: bit_of_nat_iff_bit)
  then have "bit (uint x) 31" by (simp only: uint_nat)
  then show "sint x < 0" unfolding sint_uint by simp
qed

lemma of_unat32: "unat x = k \<Longrightarrow> x = of_nat k" for x :: u32
  by auto

lemma unat_minus_of_nat: "k \<le> unat x \<Longrightarrow> unat (x - of_nat k) = unat x - k" for x :: u32
  using unat_32 [of x] by (simp add: unat_sub word_le_nat_alt unat_of_nat32)

lemma block_split:
  fixes len :: u32
  assumes "block q (unat len) \<subseteq> B" and "k \<le> unat len"
  shows "block q k \<subseteq> B" and "block (q + of_nat k) (unat (len - of_nat k)) \<subseteq> B"
  using assms block_append [of k "unat len - k" q] unat_32 [of len] by (simp_all add: unat_minus_of_nat)

lemma store_outside:
  "block q (unat len) \<subseteq> B \<Longrightarrow> length xs \<le> unat len \<Longrightarrow> a \<notin> B \<Longrightarrow> store_list m q xs a = m a"
  for len :: u32
  using block_mono [of "length xs" "unat len" q] unat_32 [of len]
  by (intro store_list_other) (linarith, blast)

lemma writesD:
  "writes B h ts \<Longrightarrow> forest B h m par pre p ts \<Longrightarrow> block q (unat len) \<subseteq> B \<Longrightarrow> unat len < 2 ^ 31 \<Longrightarrow> length ts \<le> k \<Longrightarrow>
   written (build_nodes h k p q len m) q len m ts"
  by (simp add: writes_def)

lemma build_node_step:
  assumes t: "tree_at B h m p (XNode n v as cs)" and f: "counted [XNode n v as cs]" and sz: "sizes [XNode n v as cs] < 2 ^ 30"
    and b: "block q (unat len) \<subseteq> B" and len: "unat len < 2 ^ 31" and was: "writes B h as" and wcs: "writes B h cs"
  shows "if sizes [XNode n v as cs] \<le> unat len
    then build_bxml_node h p q len m = Some (len - of_nat (sizes [XNode n v as cs]), store_list m q (encs [XNode n v as cs]))
    else \<exists>m'. build_bxml_node h p q len m = Some (- BXML_BUFF_TOO_SMALL, m')"
proof -
  define a where "a = 8 + length n + length v"
  have a30: "a < 2 ^ 30" using sz by (simp add: a_def)
  define hd where "hd = head_bytes (XNode n v as cs)"
  define l where "l = len - of_nat a"
  have "(ucast (name_len (h p)) :: u32) = of_nat (length n)" "value_len (h p) = of_nat (length v)"
    using t of_unat32 [of "ucast (name_len (h p))"] of_unat32 [of "value_len (h p)"] by simp_all
  then have l: "len - 8 - ucast (name_len (h p)) - value_len (h p) = l" by (simp add: l_def a_def)
  show ?thesis
  proof (cases "a \<le> unat len")
    case False
    have "unat l = 2 ^ 32 + unat len - a"
      using False a30 by (simp add: l_def unat_sub_if' unat_of_nat32)
    then have "sint l < 0" using a30 by (intro sint_neg) simp
    with False l show ?thesis by (simp add: build_bxml_node_def a_def Let_def)
  next
    case True
    have ul: "unat l = unat len - a" using True by (simp add: l_def unat_minus_of_nat)
    have nonneg: "\<not> sint x < 0" if "unat x \<le> unat len" for x :: u32 using sint_small [of x] that len by simp
    define q1 m1 where "q1 = q + of_nat a" and "m1 = store_list m q hd"
    have hl: "length hd = a" by (simp add: hd_def a_def)
    note b1 = block_split [OF b True, folded l_def q1_def]
    have w: "write_fields h p q m = (q1, m1)"
      using write_fields_spec [OF t _ _ b1(1) [unfolded a_def]] f True unat_32 [of len]
      by (simp add: q1_def m1_def hd_def a_def)
    have t1: "tree_at B h m1 p (XNode n v as cs)"
      by (rule tree_cong [OF t refl]) (simp add: m1_def store_outside [OF b] hl True)
    have wa: "written (build_nodes h 256 (node_attr (h p)) q1 l m1) q1 l m1 as"
      using f ul len by (intro writesD [OF was tree_parts(1) [OF t1] b1(2)]) auto
    show ?thesis
    proof (cases "sizes as \<le> unat l")
      case False
      with wa ul l nonneg [of l] True w show ?thesis by (auto simp: written_def build_bxml_node_def Let_def a_def)
    next
      case fa: True
      define l2 q2 m2 where "l2 = l - of_nat (sizes as)" and "q2 = q1 + of_nat (sizes as)" and "m2 = store_list m1 q1 (encs as)"
      have u2: "unat l2 = unat l - sizes as" using fa by (simp add: l2_def unat_minus_of_nat)
      note b2 = block_split [OF b1(2) fa, folded l2_def q2_def]
      have "tree_at B h m2 p (XNode n v as cs)"
        by (rule tree_cong [OF t1 refl]) (simp add: m2_def store_outside [OF b1(2)] fa)
      then have wc: "written (build_nodes h 65536 (node_child (h p)) q2 l2 m2) q2 l2 m2 cs"
        using f u2 ul len by (intro writesD [OF wcs tree_parts(2) b2(2)]) auto
      have a2: "build_nodes h 256 (node_attr (h p)) q1 l m1 = Some (l2, q2, m2)"
        using wa fa by (simp add: written_def l2_def q2_def m2_def)
      have e: "build_bxml_node h p q len m = build_nodes h 65536 (node_child (h p)) q2 l2 m2 \<bind> (\<lambda>(l, q, m). Some (l, m))"
        unfolding build_bxml_node_def l Let_def w using a2 nonneg [of l] nonneg [of l2] ul u2 by simp
      show ?thesis
      proof (cases "sizes cs \<le> unat l2")
        case False
        with wc e u2 ul show ?thesis by (auto simp: written_def a_def)
      next
        case fc: True
        have "store_list m q (encs [XNode n v as cs]) = store_list m2 q2 (encs cs)"
          using hl unfolding encs_head by (simp add: store_list_append m2_def m1_def q1_def q2_def hd_def ac_simps)
        moreover have "sizes [XNode n v as cs] \<le> unat len" "len - of_nat (sizes [XNode n v as cs]) = l2 - of_nat (sizes cs)"
          using fc u2 ul True fa by (simp_all add: a_def l2_def l_def)
        ultimately show ?thesis using wc fc unfolding e written_def by (simp only: if_P simp_thms Option.bind.simps prod.case)
      qed
    qed
  qed
qed

lemma writes_forest: "counted ts \<Longrightarrow> sizes ts < 2 ^ 30 \<Longrightarrow> writes B h ts"
proof (induction ts rule: fits.induct)
  case 1
  then show ?case by (auto simp: writes_def written_def build_nodes.simps)
next
  case (2 n v as cs ts)
  let ?t = "XNode n v as cs"
  have w: "writes B h as" "writes B h cs" "writes B h ts" using 2 by auto
  show ?case unfolding writes_def
  proof (intro allI impI)
    fix par pre p q m k and len :: u32
    assume fo: "forest B h m par pre p (?t # ts)" and b: "block q (unat len) \<subseteq> B" and len: "unat len < 2 ^ 31"
      and k: "length (?t # ts) \<le> k"
    have p: "p \<noteq> 0" "tree_at B h m p ?t" "forest B h m par p (node_next (h p)) ts"
      using fo forest_mono [of "insert p B" h m par p _ ts B] by (auto simp: forest_Cons)
    define a where "a = sizes [?t]"
    define l where "l = len - of_nat a"
    have f: "counted [?t]" "sizes [?t] < 2 ^ 30" "sizes (?t # ts) = a + sizes ts" using 2(4,5) by (auto simp: a_def)
    note step = build_node_step [OF p(2) f(1,2) b len w(1,2), folded a_def]
    show "written (build_nodes h k p q len m) q len m (?t # ts)"
    proof (cases "a \<le> unat len")
      case False
      with step f obtain m' where "build_bxml_node h p q len m = Some (- 258, m')" by auto
      with False p(1) k f(3) show ?thesis by (simp add: written_def build_nodes_body [of h k p])
    next
      case True
      define q1 m1 where "q1 = q + of_nat a" and "m1 = store_list m q (encs [?t])"
      have ul: "unat l = unat len - a" using True by (simp add: l_def unat_minus_of_nat)
      note b1 = block_split [OF b True, folded l_def q1_def]
      have "forest B h m1 par p (node_next (h p)) ts"
        by (rule forest_cong [OF p(3) refl])
          (simp only: m1_def, rule store_outside [OF b], use True in \<open>simp only: length_encs a_def\<close>)
      then have wt: "written (build_nodes h (k - 1) (node_next (h p)) q1 l m1) q1 l m1 ts"
        using ul len k by (intro writesD [OF w(3) _ b1(2)]) auto
      have "build_bxml_node h p q len m = Some (l, m1)" using step f True by (simp add: l_def m1_def)
      moreover have "\<not> sint l < 0" using sint_small [of l] ul len by simp
      moreover have "q + (len - l) = q1" by (simp add: l_def q1_def)
      ultimately have e: "build_nodes h k p q len m = build_nodes h (k - 1) (node_next (h p)) q1 l m1"
        using p(1) k by (simp add: build_nodes_body [of h k p])
      have "store_list m q (encs (?t # ts)) = store_list m1 q1 (encs ts)"
        unfolding m1_def q1_def a_def length_encs [symmetric] store_list_append [symmetric] by simp
      moreover have "sizes (?t # ts) \<le> unat len \<longleftrightarrow> sizes ts \<le> unat l" using f(3) ul True by linarith
      moreover have "len - of_nat (sizes (?t # ts)) = l - of_nat (sizes ts)" "q + of_nat (sizes (?t # ts)) = q1 + of_nat (sizes ts)"
        unfolding f(3) by (simp_all add: l_def q1_def)
      ultimately show ?thesis using wt unfolding written_def e by (simp only:)
    qed
  qed
qed

lemma build_tree:
  assumes "tree_at B h m p t" and "counted [t]" and "sizes [t] < 2 ^ 30" and "block q (unat len) \<subseteq> B" and "unat len < 2 ^ 31"
  shows "if sizes [t] \<le> unat len then build_bxml_node h p q len m = Some (len - of_nat (sizes [t]), store_list m q (encs [t]))
    else \<exists>m'. build_bxml_node h p q len m = Some (- BXML_BUFF_TOO_SMALL, m')"
  using assms build_node_step writes_forest by (cases t) auto

lemma sum_sizes_forest: "forest B h m par pre p ts \<Longrightarrow> sum_sizes h p len = Some (len + of_nat (sizes ts))"
proof (induction ts arbitrary: B par pre p len rule: fits.induct)
  case (2 n v as cs ts)
  have l: "(ucast (name_len (h p)) :: u32) = of_nat (length n)" "value_len (h p) = of_nat (length v)"
    using 2(4) of_unat32 [of "ucast (name_len (h p))"] of_unat32 [of "value_len (h p)"] by simp_all
  have p: "p \<noteq> 0" using 2(4) by simp
  have "sum_sizes h (node_attr (h p)) x = Some (x + of_nat (sizes as))" "sum_sizes h (node_child (h p)) x = Some (x + of_nat (sizes cs))"
    "sum_sizes h (node_next (h p)) x = Some (x + of_nat (sizes ts))" for x
    using 2 by auto
  then show ?case using p l by (simp add: sum_sizes.simps [of h p] ac_simps)
qed (simp add: sum_sizes.simps)

lemma calc_tree: "tree_at B h m p t \<Longrightarrow> calc_node_size h p = Some (of_nat (sizes [t]))"
proof (cases t)
  case (XNode n v as cs)
  assume "tree_at B h m p t"
  with XNode have t: "tree_at B h m p (XNode n v as cs)" by simp
  then have l: "(ucast (name_len (h p)) :: u32) = of_nat (length n)" "value_len (h p) = of_nat (length v)"
    using of_unat32 [of "ucast (name_len (h p))"] of_unat32 [of "value_len (h p)"] by simp_all
  have "sum_sizes h (node_attr (h p)) x = Some (x + of_nat (sizes as))" "sum_sizes h (node_child (h p)) x = Some (x + of_nat (sizes cs))"
    for x using t sum_sizes_forest by auto
  then show ?thesis using l by (simp add: calc_node_size_def XNode)
qed

section \<open>Documents\<close>

definition document :: "u32 set \<Rightarrow> 'h bxml_state \<Rightarrow> u32 \<Rightarrow> xtree \<Rightarrow> bool" where
  "document B s xml t \<longleftrightarrow> tree_at B (bnodes s) (bmem s) (node_root (docs s xml)) t"

definition header_bytes :: "u16 \<Rightarrow> u8 \<Rightarrow> u8 list" where
  "header_bytes v f = le32 BXML_MAGIC @ le16 v @ f # replicate 9 0"

lemma length_header [simp]: "length (header_bytes v f) = 16"
  by (simp add: header_bytes_def)

lemma header_store: "(store_list (store_list m q (le32 BXML_MAGIC)) (q + 4) (le16 v))(q + 6 := f) =
    store_list m q (le32 BXML_MAGIC @ le16 v @ [f])"
  by (simp add: store_list_append ac_simps)

lemma header_stored:
  assumes "16 \<le> n" and "n < 2 ^ 32"
  shows "load_list 16 ((store_list (store_list (store_list m q (replicate n 0)) q (le32 BXML_MAGIC)) (q + 4) (le16 v))(q + 6 := f)) q =
    header_bytes v f"
proof -
  define m0 where "m0 = store_list m q (replicate n 0)"
  define xs where "xs = le32 BXML_MAGIC @ le16 v @ [f]"
  have x: "length xs = 7" by (simp add: xs_def)
  have e: "(store_list (store_list m0 q (le32 BXML_MAGIC)) (q + 4) (le16 v))(q + 6 := f) = store_list m0 q xs"
    unfolding xs_def by (rule header_store)
  have "load_list 7 (store_list m0 q xs) q = xs" using load_store_list [of xs m0 q] by (simp add: x)
  moreover have "load_list 9 (store_list m0 q xs) (q + 7) = load_list 9 m0 (q + 7)"
    using block_disjoint [of 7 9 q] x by (intro load_store_other) (auto simp: x)
  moreover have "block (q + 7) 9 \<subseteq> block q n" using block_append [of 7 9 q] block_mono [OF assms(1), of q] by auto
  then have "load_list 9 m0 (q + 7) = replicate 9 0"
    using assms(2) by (intro load_replicate) (auto simp: m0_def store_replicate)
  ultimately have "load_list (7 + 9) (store_list m0 q xs) q = xs @ replicate 9 0" unfolding load_list_append by simp
  then show ?thesis unfolding m0_def [symmetric] e by (simp add: header_bytes_def xs_def)
qed

lemma bxml_build_spec:
  assumes d: "document B s xml t" and f: "counted [t]" and sz: "sizes [t] < 2 ^ 30"
    and b: "block mem (unat n) \<subseteq> B" and n: "unat n < 2 ^ 31"
  shows "if 16 + sizes [t] \<le> unat n
    then \<exists>m. bxml_build xml mem n s = Some (of_nat (16 + sizes [t]), s\<lparr>bmem := m\<rparr>) \<and>
      load_list (16 + sizes [t]) m mem = header_bytes (bx_version (docs s xml)) (bx_flag (docs s xml)) @ encs [t] \<and>
      (\<forall>a. a \<notin> block mem (unat n) \<longrightarrow> m a = bmem s a)
    else \<exists>s'. bxml_build xml mem n s = Some (- BXML_BUFF_TOO_SMALL, s')"
proof (cases "16 \<le> unat n")
  case False
  then have "n < 16" by (simp add: word_less_nat_alt)
  with False show ?thesis by (simp add: bxml_build_def Let_def)
next
  case True
  define h r where "h = bnodes s" and "r = node_root (docs s xml)"
  define m1 where "m1 = (store_list (store_list (store_list (bmem s) mem (replicate (unat n) 0)) mem (le32 BXML_MAGIC))
    (mem + 4) (le16 (bx_version (docs s xml))))(mem + 6 := bx_flag (docs s xml))"
  define len where "len = n - 16"
  have n16: "\<not> n < 16" using True by (simp add: word_less_nat_alt)
  have ul: "unat len = unat n - 16" using unat_minus_of_nat [of 16 n] True by (simp add: len_def)
  have b16: "block mem 16 \<subseteq> B" "block (mem + 16) (unat len) \<subseteq> B" using block_split [OF b True] by (simp_all add: len_def)
  have out1: "m1 a = bmem s a" if "a \<notin> block mem (unat n)" for a
    unfolding m1_def header_store using that block_mono [of 7 "unat n" mem] True n
    by (subst store_list_other, simp, force, simp add: store_list_other)
 have t: "tree_at B h m1 r t"
    by (rule tree_cong [OF d [unfolded document_def, folded h_def r_def] refl]) (use out1 b in blast)
  note bt = build_tree [OF t f sz b16(2)]
  have twice: "s\<lparr>bmem := x, bmem := m\<rparr> = s\<lparr>bmem := m\<rparr>" for x m by (cases s) simp
  have e: "bxml_build xml mem n s = do { (l, m) \<leftarrow> build_bxml_node h r (mem + 16) len m1;
      if sint l < 0 then Some (l, s\<lparr>bmem := m\<rparr>) else Some (n - l, s\<lparr>bmem := m\<rparr>) }"
    using n16 unfolding bxml_build_def memset_store Let_def
    by (cases "build_bxml_node h r (mem + 16) len m1") (simp_all add: h_def r_def len_def m1_def twice split: prod.split)
  show ?thesis
  proof (cases "16 + sizes [t] \<le> unat n")
    case fit: True
    define m2 where "m2 = store_list m1 (mem + 16) (encs [t])"
    have s32: "sizes [t] \<le> 2 ^ 32" using sz by simp
    have bn: "build_bxml_node h r (mem + 16) len m1 = Some (len - of_nat (sizes [t]), m2)"
      using bt fit ul n unfolding m2_def by simp
    have "unat (len - of_nat (sizes [t])) < 2 ^ 31" using unat_minus_of_nat [of "sizes [t]" len] fit ul n by linarith
    then have "sint (len - of_nat (sizes [t])) = int (unat (len - of_nat (sizes [t])))" by (rule sint_small)
    then have "\<not> sint (len - of_nat (sizes [t])) < 0" by simp
    then have "bxml_build xml mem n s = Some (of_nat (16 + sizes [t]), s\<lparr>bmem := m2\<rparr>)"
      unfolding e bn by (simp add: len_def)
    moreover have "block (mem + 16) (sizes [t]) \<subseteq> block mem (unat n)"
      using block_append [of 16 "sizes [t]" mem] block_mono [OF fit, of mem] n fit by auto
    then have "m2 a = bmem s a" if "a \<notin> block mem (unat n)" for a
      using out1 [OF that] that s32 store_list_other [of "encs [t]" a "mem + 16" m1] by (auto simp only: m2_def length_encs)
    moreover have "load_list 16 m2 mem = header_bytes (bx_version (docs s xml)) (bx_flag (docs s xml))"
      using load_store_other [of "encs [t]" 16 mem "mem + 16" m1] block_disjoint [of 16 "sizes [t]" mem] s32 n fit
        header_stored [OF True, of "bmem s" mem "bx_version (docs s xml)" "bx_flag (docs s xml)"] n
      by (simp only: m2_def m1_def length_encs) auto
    moreover have "load_list (sizes [t]) m2 (mem + 16) = encs [t]"
      using load_store_list [of "encs [t]" m1 "mem + 16"] s32 by (simp only: m2_def length_encs)
    moreover have "load_list (16 + sizes [t]) m2 mem = load_list 16 m2 mem @ load_list (sizes [t]) m2 (mem + 16)"
      unfolding load_list_append by simp
    ultimately show ?thesis using fit by (intro if_P [THEN iffD2, OF fit] exI [of _ m2]) simp_all
  next
    case False
    then have "\<not> sizes [t] \<le> unat len" using ul True by linarith
    moreover have "unat len < 2 ^ 31" using n ul by linarith
    ultimately obtain m' where "build_bxml_node h r (mem + 16) len m1 = Some (- 258, m')" using bt by auto
    then have "\<exists>s'. bxml_build xml mem n s = Some (- BXML_BUFF_TOO_SMALL, s')" unfolding e by simp
    with False show ?thesis by (simp only: if_False)
  qed
qed

text \<open>
  (C37) \<open>bxml_buffer_size\<close> is exactly the number of bytes \<open>bxml_build\<close> needs: with a buffer of at least this size
  it returns this number and stores the header and the encoding of the tree, changing nothing outside the
  buffer; with any smaller buffer it returns \<open>BXML_BUFF_TOO_SMALL\<close>.
\<close>

theorem message_size_exact:
  assumes "document B s xml t" and "counted [t]" and "sizes [t] < 2 ^ 30" and "block mem (unat n) \<subseteq> B" and "unat n < 2 ^ 31"
  shows "bxml_buffer_size xml s = Some (of_nat (16 + sizes [t])) \<and>
    (if 16 + sizes [t] \<le> unat n
     then \<exists>m. bxml_build xml mem n s = Some (of_nat (16 + sizes [t]), s\<lparr>bmem := m\<rparr>) \<and>
       load_list (16 + sizes [t]) m mem = header_bytes (bx_version (docs s xml)) (bx_flag (docs s xml)) @ encs [t] \<and>
       (\<forall>a. a \<notin> block mem (unat n) \<longrightarrow> m a = bmem s a)
     else \<exists>s'. bxml_build xml mem n s = Some (- BXML_BUFF_TOO_SMALL, s'))"
proof
  show "bxml_buffer_size xml s = Some (of_nat (16 + sizes [t]))"
    using calc_tree [OF assms(1) [unfolded document_def]] by (simp add: bxml_buffer_size_def)
qed (rule bxml_build_spec [OF assms])

text \<open>A document that is one node without a name.\<close>

theorem message_size_exact_witness:
  "\<exists>s'. bxml_build 0x50 0x1000 23 \<lparr>bnodes = (\<lambda>_. no_node), docs = (\<lambda>_. no_data\<lparr>node_root := 0x100\<rparr>), bmem = (\<lambda>_. 0),
     err_str = [], pool = ()\<rparr> = Some (- BXML_BUFF_TOO_SMALL, s')"
proof -
  let ?s = "\<lparr>bnodes = (\<lambda>_. no_node), docs = (\<lambda>_. no_data\<lparr>node_root := 0x100\<rparr>), bmem = (\<lambda>_. 0), err_str = [], pool = ()\<rparr>"
  have "document (block 0x1000 23) ?s 0x50 (XNode [] [] [] [])"
    by (simp add: document_def no_node_def no_data_def block_def)
  then show ?thesis using message_size_exact [of "block 0x1000 23" ?s "0x50" "XNode [] [] [] []" "0x1000" 23] by simp
qed

end
