(* ===== verification/BxmlRead.thy ===== *)
theory BxmlRead
  imports BxmlInv
begin

text \<open>
  Reading the binary form. The reader only takes blocks from the allocator; \<open>fresh_blocks\<close> states what it relies on:
  as long as there is room, a block is given that lies in the free area and leaves it.
\<close>

section \<open>A source of fresh blocks\<close>

text \<open>The list of a node that a new node of a type is put into.\<close>

definition head_of :: "BXML_NODE_TYPE \<Rightarrow> bxml_node \<Rightarrow> u32" where
  "head_of ty n = (if ty = BTYPE_ATTRIBUTE then node_attr n else node_child n)"

definition set_head :: "BXML_NODE_TYPE \<Rightarrow> u32 \<Rightarrow> bxml_node \<Rightarrow> bxml_node" where
  "set_head ty x n = (if ty = BTYPE_ATTRIBUTE then n\<lparr>node_attr := x\<rparr> else n\<lparr>node_child := x\<rparr>)"

lemma set_head_fields [simp]:
  "head_of ty (set_head ty x n) = x" "node_next (set_head ty x n) = node_next n" "node_pre (set_head ty x n) = node_pre n"
  "node_parent (set_head ty x n) = node_parent n" "name_len (set_head ty x n) = name_len n"
  "value_len (set_head ty x n) = value_len n" "node_name (set_head ty x n) = node_name n"
  "node_value (set_head ty x n) = node_value n" "set_head ty x (set_head ty y n) = set_head ty x n"
  "head_of BTYPE_NODE (set_head BTYPE_ATTRIBUTE x n) = node_child n" "node_attr (set_head BTYPE_NODE x n) = node_attr n"
  by (simp_all add: head_of_def set_head_def)

text \<open>What the trees of a list take from the allocator: a node, a name and a value each.\<close>

fun needs :: "xtree list \<Rightarrow> nat" where
  "needs [] = 0"
| "needs (XNode n v as cs # ts) = 230 + length n + length v + needs as + needs cs + needs ts"

lemma needs_sizes: "needs ts \<le> 29 * sizes ts"
  by (induction ts rule: needs.induct) simp_all

text \<open>\<open>room F k h\<close>: the blocks to come lie in \<open>F\<close>, and \<open>k\<close> bytes are left, where a block costs 64 bytes besides
  its own.\<close>

locale fresh_blocks =
  fixes al :: "'h alloc" and room :: "u32 set \<Rightarrow> nat \<Rightarrow> 'h \<Rightarrow> bool"
  assumes take_block: "room F k h \<Longrightarrow> n \<noteq> 0 \<Longrightarrow> unat n + 64 \<le> k \<Longrightarrow>
      \<exists>p F' h'. al n h = Some (p, h') \<and> p \<noteq> 0 \<and> block p (unat n) \<subseteq> F - F' \<and> F' \<subseteq> F \<and> room F' (k - (unat n + 64)) h'"
    and less_room: "room F k h \<Longrightarrow> k' \<le> k \<Longrightarrow> room F k' h"
begin

lemma safe_malloc_spec:
  assumes "room F k (pool s)" and "n \<noteq> 0" and "unat n + 64 \<le> k"
  shows "\<exists>p F' h'. safe_malloc al n s = Some (p, s\<lparr>pool := h'\<rparr>) \<and> p \<noteq> 0 \<and> block p (unat n) \<subseteq> F - F' \<and> F' \<subseteq> F \<and>
    room F' (k - (unat n + 64)) h'"
proof -
  obtain p F' h' where a: "al n (pool s) = Some (p, h')" "p \<noteq> 0" "block p (unat n) \<subseteq> F - F'" "F' \<subseteq> F" "room F' (k - (unat n + 64)) h'"
    using take_block [OF assms] by blast
  then show ?thesis by (intro exI [of _ p] exI [of _ F'] exI [of _ h']) (simp add: safe_malloc_def)
qed

lemma create_node_spec:
  assumes "room F k (pool s)" and "100 \<le> k"
  obtains x F' h' where
    "create_node al xml s = Some (x, s\<lparr>pool := h', bnodes := (bnodes s)(x := no_node),
       docs := (if xml \<noteq> 0 \<and> node_root (docs s xml) = 0 then (docs s)(xml := (docs s xml)\<lparr>node_root := x\<rparr>) else docs s)\<rparr>)"
    "x \<noteq> 0" "x \<in> F - F'" "F' \<subseteq> F" "room F' (k - 100) h'"
proof -
  have "(36 :: u32) \<noteq> 0" "unat (36 :: u32) + 64 \<le> k" using assms(2) by simp_all
  from safe_malloc_spec [OF assms(1) this] obtain x F' h' where
    a: "safe_malloc al 36 s = Some (x, s\<lparr>pool := h'\<rparr>)" "x \<noteq> 0" "block x 36 \<subseteq> F - F'" "F' \<subseteq> F" "room F' (k - 100) h'"
    by auto
  have "x \<in> block x 36" by (simp add: block_def)
  with a that [of x h' F'] show ?thesis by (auto simp: create_node_def set_node_def set_doc_def Let_def)
qed

text \<open>Copying a name and a value; the source may lie anywhere outside the free area.\<close>

lemma copy_name_spec:
  assumes r: "room F k (pool s)" and k: "length n + 65 \<le> k" and n: "length n < 256"
    and src: "holds_bytes F (bmem s) src n"
  obtains q F' h' m where
    "copy_name al x src (of_nat (length n)) s = Some (s\<lparr>pool := h', bmem := m,
       bnodes := (bnodes s)(x := (bnodes s x)\<lparr>name_len := of_nat (length n), node_name := q\<rparr>)\<rparr>)"
    "F' \<subseteq> F" "room F' (k - (length n + 65)) h'" "holds_bytes (F' \<union> - F) m q n" "\<And>a. a \<notin> F \<Longrightarrow> m a = bmem s a"
proof -
  have u8: "(ucast (of_nat (length n) :: u32) :: u8) = of_nat (length n)" by (simp add: unsigned_of_nat word_of_nat_eq_iff)
  have ub: "unat (of_nat (length n) :: u8) = length n" using n by (simp add: unat_of_nat take_bit_nat_eq_self)
  have u1: "unat (ucast (of_nat (length n) :: u8) + 1 :: u32) = length n + 1" and w: "(ucast (of_nat (length n) :: u8) :: u32) = of_nat (length n)"
    using n by (simp_all add: unat_plus_if' ub of_unat32)
  let ?s = "s\<lparr>bnodes := (bnodes s)(x := (bnodes s x)\<lparr>name_len := of_nat (length n)\<rparr>)\<rparr>"
  have nz: "ucast (of_nat (length n) :: u8) + 1 \<noteq> (0 :: u32)" using u1 by (metis add_is_0 unat_0 zero_neq_one)
  have "room F k (pool ?s)" "unat (ucast (of_nat (length n) :: u8) + 1 :: u32) + 64 \<le> k" using r k u1 by simp_all
  from safe_malloc_spec [OF this(1) nz this(2)] obtain q F' h' where
    a: "safe_malloc al (ucast (of_nat (length n) :: u8) + 1) ?s = Some (q, ?s\<lparr>pool := h'\<rparr>)" "q \<noteq> 0"
    "block q (length n + 1) \<subseteq> F - F'" "F' \<subseteq> F" "room F' (k - (length n + 1 + 64)) h'" unfolding u1 by blast
  define m where "m = (store_list (bmem s) q n)(q + of_nat (length n) := 0)"
  have b: "block q (length n) \<subseteq> F - F'" "q + of_nat (length n) \<in> F - F'" "q + of_nat (length n) \<notin> block q (length n)"
    using a(3) block_append [of "length n" 1 q] block_disjoint [of "length n" 1 q] n by auto
  have "snd (memcpy q src (of_nat (length n)) (bmem s)) = store_list (bmem s) q n"
    using src b(1) n by (subst memcpy_store) (auto simp: holds_bytes_def unat_of_nat32)
  then have "copy_name al x src (of_nat (length n)) s = Some (s\<lparr>pool := h', bmem := m,
      bnodes := (bnodes s)(x := (bnodes s x)\<lparr>name_len := of_nat (length n), node_name := q\<rparr>)\<rparr>)"
    using a(1,2) by (simp add: copy_name_def set_node_def u8 w m_def Let_def)
  moreover have "load_list (length n) m q = n"
    using load_list_cong [of "length n" q m "store_list (bmem s) q n"] load_store_list [of n "bmem s" q] n b(3) by (auto simp: m_def)
  then have "holds_bytes (F' \<union> - F) m q n" using b(1) by (auto simp: holds_bytes_def)
  moreover have "m c = bmem s c" if "c \<notin> F" for c
    using that b n store_list_other [of n c q "bmem s"] by (auto simp: m_def)
  moreover have "room F' (k - (length n + 65)) h'" using a(5) by (simp add: ac_simps)
  ultimately show thesis using that a(4) by blast
qed

lemma copy_value_spec:
  assumes r: "room F k (pool s)" and k: "length v + 65 \<le> k" and n: "length v < 2 ^ 32 - 1"
    and src: "holds_bytes F (bmem s) src v"
  obtains q F' h' m where
    "copy_value al x src (of_nat (length v)) s = Some (s\<lparr>pool := h', bmem := m,
       bnodes := (bnodes s)(x := (bnodes s x)\<lparr>value_len := of_nat (length v), node_value := q\<rparr>)\<rparr>)"
    "F' \<subseteq> F" "room F' (k - (length v + 65)) h'" "holds_bytes (F' \<union> - F) m q v" "\<And>a. a \<notin> F \<Longrightarrow> m a = bmem s a"
proof -
  have u: "unat (of_nat (length v) :: u32) = length v" "unat (of_nat (length v) + 1 :: u32) = length v + 1"
    using n by (simp_all add: unat_of_nat32 unat_plus_if')
  have nz: "of_nat (length v) + 1 \<noteq> (0 :: u32)" using u(2) by (metis add_is_0 unat_0 zero_neq_one)
  let ?s = "s\<lparr>bnodes := (bnodes s)(x := (bnodes s x)\<lparr>value_len := of_nat (length v)\<rparr>)\<rparr>"
  have "room F k (pool ?s)" "unat (of_nat (length v) + 1 :: u32) + 64 \<le> k" using r k u by simp_all
  from safe_malloc_spec [OF this(1) nz this(2)] obtain q F' h' where
    a: "safe_malloc al (of_nat (length v) + 1) ?s = Some (q, ?s\<lparr>pool := h'\<rparr>)" "q \<noteq> 0"
    "block q (length v + 1) \<subseteq> F - F'" "F' \<subseteq> F" "room F' (k - (length v + 1 + 64)) h'" unfolding u by blast
  define m where "m = (store_list (bmem s) q v)(q + of_nat (length v) := 0)"
  have b: "block q (length v) \<subseteq> F - F'" "q + of_nat (length v) \<in> F - F'" "q + of_nat (length v) \<notin> block q (length v)"
    using a(3) block_append [of "length v" 1 q] block_disjoint [of "length v" 1 q] n by auto
  have "snd (memcpy q src (of_nat (length v)) (bmem s)) = store_list (bmem s) q v"
    using src b(1) by (subst memcpy_store) (auto simp: holds_bytes_def u)
  then have "copy_value al x src (of_nat (length v)) s = Some (s\<lparr>pool := h', bmem := m,
      bnodes := (bnodes s)(x := (bnodes s x)\<lparr>value_len := of_nat (length v), node_value := q\<rparr>)\<rparr>)"
    using a(1,2) by (simp add: copy_value_def set_node_def m_def Let_def)
  moreover have "load_list (length v) m q = v"
    using load_list_cong [of "length v" q m "store_list (bmem s) q v"] load_store_list [of v "bmem s" q] n b(3) by (auto simp: m_def)
  then have "holds_bytes (F' \<union> - F) m q v" using b(1) by (auto simp: holds_bytes_def)
  moreover have "m c = bmem s c" if "c \<notin> F" for c
    using that b n store_list_other [of v c q "bmem s"] by (auto simp: m_def)
  moreover have "room F' (k - (length v + 65)) h'" using a(5) by (simp add: ac_simps)
  ultimately show thesis using that a(4) by blast
qed

text \<open>The fields of a node.\<close>

lemma read_fields_spec:
  assumes r: "room F k (pool s)" and k: "length n + length v + 130 \<le> k" and f: "fits [XNode n v as cs]"
    and len: "8 + length n + length v < 2 ^ 32" and src: "holds_bytes F (bmem s) p (head_bytes (XNode n v as cs))"
    and x: "node_value (bnodes s x) = 0"
  obtains F' h' m d where
    "read_fields al x p s = Some (p + of_nat (8 + length n + length v), of_nat (length as), of_nat (length cs),
       s\<lparr>pool := h', bmem := m, bnodes := (bnodes s)(x := d)\<rparr>)"
    "F' \<subseteq> F" "room F' (k - (length n + length v + 130)) h'" "\<And>a. a \<notin> F \<Longrightarrow> m a = bmem s a"
    "unat (name_len d) = length n" "unat (value_len d) = length v" "holds_bytes (F' \<union> - F) m (node_name d) n"
    "holds_bytes (F' \<union> - F) m (node_value d) v"
    "node_attr d = node_attr (bnodes s x)" "node_child d = node_child (bnodes s x)" "node_next d = node_next (bnodes s x)"
    "node_pre d = node_pre (bnodes s x)" "node_parent d = node_parent (bnodes s x)"
proof -
  let ?c = "of_nat (length n) :: u32"
  have n: "length n < 256" and c: "length as < 256" "length cs < 65536" using f by simp_all
  have u: "unat (of_nat (length n) :: u8) = length n" using n by (simp add: unat_of_nat take_bit_nat_eq_self)
  have w: "(ucast (of_nat (length n) :: u8) :: u32) = ?c" by (rule of_unat32) (simp add: u)
  have v: "unat (of_nat (length v) :: u32) = length v" using len by (simp add: unat_of_nat32)
  have "holds_bytes F (bmem s) p (of_nat (length n) # n @ of_nat (length as) # le16 (of_nat (length cs)) @ le32 (of_nat (length v)) @ v)"
    using src by (simp add: head_bytes_def)
  then have i: "bmem s p = of_nat (length n)" "holds_bytes F (bmem s) (p + 1) n"
    "holds_bytes F (bmem s) (p + 1 + ?c) (of_nat (length as) # le16 (of_nat (length cs)) @ le32 (of_nat (length v)) @ v)"
    using len by (simp_all add: holds_Cons holds_append)
  have kn: "length n + 65 \<le> k" using k by simp
  obtain q F1 h1 m1 where nm: "copy_name al x (p + 1) ?c s = Some (s\<lparr>pool := h1, bmem := m1,
       bnodes := (bnodes s)(x := (bnodes s x)\<lparr>name_len := of_nat (length n), node_name := q\<rparr>)\<rparr>)"
    "F1 \<subseteq> F" "room F1 (k - (length n + 65)) h1" "holds_bytes (F1 \<union> - F) m1 q n" "\<And>a. a \<notin> F \<Longrightarrow> m1 a = bmem s a"
    by (rule copy_name_spec [OF r kn n i(2), of x]) (rule that)
  let ?d1 = "(bnodes s x)\<lparr>name_len := of_nat (length n), node_name := q\<rparr>"
  let ?s1 = "s\<lparr>pool := h1, bmem := m1, bnodes := (bnodes s)(x := ?d1)\<rparr>"
  have "holds_bytes F1 m1 (p + 1 + ?c) (of_nat (length as) # le16 (of_nat (length cs)) @ le32 (of_nat (length v)) @ v)"
    using holds_mono [OF holds_cong [OF _ i(3)] nm(2), of m1] nm(5) len by simp
  then have j: "m1 (p + 1 + ?c) = of_nat (length as)" "holds_bytes F1 m1 (p + 1 + ?c + 1) (le16 (of_nat (length cs)))"
    "holds_bytes F1 m1 (p + 1 + ?c + 3) (le32 (of_nat (length v)))" "holds_bytes F1 m1 (p + 1 + ?c + 7) v"
    using len by (simp_all add: holds_Cons holds_append ac_simps)
  have l: "ld16 m1 (p + 1 + ?c + 1) = of_nat (length cs)" "ld32 m1 (p + 1 + ?c + 3) = of_nat (length v)"
    using j(2,3) by (intro ld16_le16 ld32_load, simp add: holds_bytes_def)+
  have e: "p + of_nat (8 + length n + length v) = p + 1 + ?c + 7 + of_nat (length v)" by simp
  have b: "bmem ?s1 = m1" by simp
  have rf: "read_fields al x p s =
      (if 0 < (of_nat (length v) :: u32) then do { s \<leftarrow> copy_value al x (p + 1 + ?c + 7) (of_nat (length v)) ?s1;
         Some (p + 1 + ?c + 7 + of_nat (length v), of_nat (length as), of_nat (length cs), s) }
       else Some (p + 1 + ?c + 7, of_nat (length as), of_nat (length cs), set_node x (\<lambda>n. n\<lparr>value_len := of_nat (length v)\<rparr>) ?s1))"
    unfolding read_fields_def i(1) w Let_def nm(1) Option.bind.simps(2) b j(1) l by (rule refl)
  show thesis
  proof (cases "v = []")
    case True
    have "read_fields al x p s = Some (p + of_nat (8 + length n + length v), of_nat (length as), of_nat (length cs),
      s\<lparr>pool := h1, bmem := m1, bnodes := (bnodes s)(x := ?d1\<lparr>value_len := 0\<rparr>)\<rparr>)"
      unfolding rf e using True by (simp add: set_node_def)
    moreover have "room F1 (k - (length n + length v + 130)) h1" by (rule less_room [OF nm(3)]) simp
    ultimately show thesis using nm(2,4,5) u x True by (intro that [where h' = h1 and m = m1 and d = "?d1\<lparr>value_len := 0\<rparr>" and F' = F1]) simp_all
  next
    case False
    then have pos: "0 < (of_nat (length v) :: u32)" using v by (metis length_0_conv unat_0 word_gt_0)
    have "room F1 (k - (length n + 65)) (pool ?s1)" "length v + 65 \<le> k - (length n + 65)" "holds_bytes F1 (bmem ?s1) (p + 1 + ?c + 7) v"
      "length v < 2 ^ 32 - 1" using nm(3) k j(4) len by simp_all
    from copy_value_spec [OF this(1,2,4,3), of x] obtain q' F2 h2 m2 where
      vl: "copy_value al x (p + 1 + ?c + 7) (of_nat (length v)) ?s1 = Some (?s1\<lparr>pool := h2, bmem := m2,
        bnodes := (bnodes ?s1)(x := (bnodes ?s1 x)\<lparr>value_len := of_nat (length v), node_value := q'\<rparr>)\<rparr>)"
      "F2 \<subseteq> F1" "room F2 (k - (length n + 65) - (length v + 65)) h2" "holds_bytes (F2 \<union> - F1) m2 q' v" "\<And>a. a \<notin> F1 \<Longrightarrow> m2 a = bmem ?s1 a"
      by metis
    let ?d2 = "?d1\<lparr>value_len := of_nat (length v), node_value := q'\<rparr>"
    have "read_fields al x p s = Some (p + of_nat (8 + length n + length v), of_nat (length as), of_nat (length cs),
      s\<lparr>pool := h2, bmem := m2, bnodes := (bnodes s)(x := ?d2)\<rparr>)"
      unfolding rf e if_P [OF pos] vl(1) by simp
    moreover have "room F2 (k - (length n + length v + 130)) h2" using vl(3) by (simp add: ac_simps)
    moreover have "holds_bytes (F2 \<union> - F) m2 q n"
      using vl(2,5) n by (intro holds_mono [OF holds_cong [OF _ nm(4), of m2]]) auto
    moreover have "holds_bytes (F2 \<union> - F) m2 q' v" by (rule holds_mono [OF vl(4)]) (use nm(2) in blast)
    moreover have "m2 a = bmem s a" if "a \<notin> F" for a using that vl(5) [of a] nm(2) nm(5) [of a] by auto
    ultimately show thesis using nm(2) vl(2) u v by (intro that [where h' = h2 and m = m2 and d = ?d2 and F' = F2]) auto
  qed
qed

text \<open>A new first node of a list.\<close>

lemma create_spec:
  assumes r: "room F k (pool s)" and k: "100 \<le> k" and c: "c \<noteq> 0" "c \<notin> F"
    and root: "node_root (docs s xml) \<noteq> 0" and f: "head_of ty (bnodes s c) = f" "f \<noteq> c" "f \<notin> F \<or> f = 0"
  obtains x s' F' where "(if ty = BTYPE_ATTRIBUTE then create_attrnode al xml c s else create_childnode al xml c s) = Some (x, s')"
    "x \<noteq> 0" "x \<in> F - F'" "F' \<subseteq> F" "room F' (k - 100) (pool s')" "bmem s' = bmem s" "docs s' = docs s"
    "bnodes s' x = no_node\<lparr>node_next := f, node_parent := c\<rparr>" "f \<noteq> 0 \<longrightarrow> bnodes s' f = (bnodes s f)\<lparr>node_pre := x\<rparr>"
    "bnodes s' c = set_head ty x (bnodes s c)" "\<And>a. a \<noteq> x \<Longrightarrow> a \<noteq> c \<Longrightarrow> a = f \<longrightarrow> f = 0 \<Longrightarrow> bnodes s' a = bnodes s a"
proof -
  obtain x F' h' where n: "create_node al xml s = Some (x, s\<lparr>pool := h', bnodes := (bnodes s)(x := no_node),
       docs := (if xml \<noteq> 0 \<and> node_root (docs s xml) = 0 then (docs s)(xml := (docs s xml)\<lparr>node_root := x\<rparr>) else docs s)\<rparr>)"
    "x \<noteq> 0" "x \<in> F - F'" "F' \<subseteq> F" "room F' (k - 100) h'"
    by (rule create_node_spec [OF r k, of xml]) (rule that)
  have xc: "x \<noteq> c" "x \<noteq> f" using n(2,3) c(2) f(3) by auto
  define h where "h = (\<lambda>a. if a = x then no_node\<lparr>node_next := f, node_parent := c\<rparr>
    else if a = c then set_head ty x (bnodes s c) else if a = f \<and> f \<noteq> 0 then (bnodes s f)\<lparr>node_pre := x\<rparr> else bnodes s a)"
  let ?s = "s\<lparr>pool := h', bnodes := h\<rparr>"
  have "(if ty = BTYPE_ATTRIBUTE then create_attrnode al xml c s else create_childnode al xml c s) = Some (x, ?s)"
  proof (cases "ty = BTYPE_ATTRIBUTE")
    case True
    with n(1,2) c xc f root show ?thesis
      by (auto simp: create_attrnode_def set_node_def head_of_def set_head_def h_def Let_def fun_eq_iff)
  next
    case False
    with n(1,2) c xc f root show ?thesis
      by (auto simp: create_childnode_def set_node_def head_of_def set_head_def h_def Let_def fun_eq_iff)
  qed
  then show thesis using n(2-5) xc f(2) by (intro that [where x = x and F' = F' and s' = ?s]) (auto simp: h_def)
qed

lemma open_spec:
  assumes r: "room F k (pool s)" and k: "100 \<le> k" and ty: "ty \<noteq> BTYPE_TEXT" and c: "node_cur (docs s xml) = c" "c \<noteq> 0" "c \<notin> F"
    and root: "node_root (docs s xml) \<noteq> 0" and f: "head_of ty (bnodes s c) = f" "f \<noteq> c" "f \<notin> F \<or> f = 0"
  obtains x s' F' where "open_node al xml ty s = Some (x, s')" "x \<noteq> 0" "x \<in> F - F'" "F' \<subseteq> F" "room F' (k - 100) (pool s')"
    "bmem s' = bmem s" "docs s' = (docs s)(xml := (docs s xml)\<lparr>node_cur := x\<rparr>)"
    "bnodes s' x = no_node\<lparr>node_next := f, node_parent := c\<rparr>" "f \<noteq> 0 \<longrightarrow> bnodes s' f = (bnodes s f)\<lparr>node_pre := x\<rparr>"
    "bnodes s' c = set_head ty x (bnodes s c)" "\<And>a. a \<noteq> x \<Longrightarrow> a \<noteq> c \<Longrightarrow> a = f \<longrightarrow> f = 0 \<Longrightarrow> bnodes s' a = bnodes s a"
proof -
  obtain x s1 F' where n: "(if ty = BTYPE_ATTRIBUTE then create_attrnode al xml c s else create_childnode al xml c s) = Some (x, s1)"
    "x \<noteq> 0" "x \<in> F - F'" "F' \<subseteq> F" "room F' (k - 100) (pool s1)" "bmem s1 = bmem s" "docs s1 = docs s"
    "bnodes s1 x = no_node\<lparr>node_next := f, node_parent := c\<rparr>" "f \<noteq> 0 \<longrightarrow> bnodes s1 f = (bnodes s f)\<lparr>node_pre := x\<rparr>"
    "bnodes s1 c = set_head ty x (bnodes s c)" "\<And>a. a \<noteq> x \<Longrightarrow> a \<noteq> c \<Longrightarrow> a = f \<longrightarrow> f = 0 \<Longrightarrow> bnodes s1 a = bnodes s a"
    by (rule create_spec [OF r k c(2,3) root f]) (rule that)
  let ?s = "set_doc xml (\<lambda>d. d\<lparr>node_cur := x\<rparr>) s1"
  have "open_node al xml ty s = Some (x, ?s)" using n(1) c(1) ty by (cases ty) (simp_all add: open_node_def)
  then show thesis using n(2-11) by (intro that [where x = x and F' = F' and s' = ?s]) (simp_all add: set_doc_def)
qed

text \<open>What reading a list of trees must give: it is put, reversed, before the list \<open>us\<close> that was there.\<close>

definition read_ok :: "u32 \<Rightarrow> xtree list \<Rightarrow> u32 \<Rightarrow> BXML_NODE_TYPE \<Rightarrow> u32 \<Rightarrow> 'h bxml_state \<Rightarrow> u32 set \<Rightarrow> nat \<Rightarrow> u32 set \<Rightarrow> xtree list \<Rightarrow> bool" where
  "read_ok xml ts c ty p s F k A us \<longleftrightarrow>
     (\<exists>s' F'. parse_nodes al xml ty (length ts) p s = Some (p + of_nat (sizes ts), s') \<and> F' \<subseteq> F \<and>
       room F' (k - needs ts) (pool s') \<and> docs s' = docs s \<and>
       forest (A \<union> F') (bnodes s') (bmem s') c 0 (head_of ty (bnodes s' c)) (mirrors ts @ us) \<and>
       (\<forall>a. a \<notin> F \<longrightarrow> bmem s' a = bmem s a) \<and> bnodes s' c = set_head ty (head_of ty (bnodes s' c)) (bnodes s c) \<and>
       (\<forall>a. a \<notin> F \<longrightarrow> a \<noteq> c \<longrightarrow> (a = head_of ty (bnodes s c) \<longrightarrow> a = 0) \<longrightarrow> bnodes s' a = bnodes s a))"

definition reads :: "u32 \<Rightarrow> xtree list \<Rightarrow> bool" where
  "reads xml ts \<longleftrightarrow> (\<forall>c ty p s F k A us.
     room F k (pool s) \<longrightarrow> needs ts \<le> k \<longrightarrow> ty \<noteq> BTYPE_TEXT \<longrightarrow> node_cur (docs s xml) = c \<longrightarrow> c \<noteq> 0 \<longrightarrow> c \<in> A \<longrightarrow> A \<inter> F = {} \<longrightarrow>
     node_root (docs s xml) \<noteq> 0 \<longrightarrow> p \<noteq> 0 \<longrightarrow> unat p + sizes ts < 2 ^ 32 \<longrightarrow> holds_bytes F (bmem s) p (encs ts) \<longrightarrow>
     forest (A \<union> F) (bnodes s) (bmem s) c 0 (head_of ty (bnodes s c)) us \<longrightarrow> read_ok xml ts c ty p s F k A us)"

lemma reads_ok:
  "reads xml ts \<Longrightarrow> room F k (pool s) \<Longrightarrow> needs ts \<le> k \<Longrightarrow> ty \<noteq> BTYPE_TEXT \<Longrightarrow> node_cur (docs s xml) = c \<Longrightarrow> c \<noteq> 0 \<Longrightarrow> c \<in> A \<Longrightarrow>
   A \<inter> F = {} \<Longrightarrow> node_root (docs s xml) \<noteq> 0 \<Longrightarrow> p \<noteq> 0 \<Longrightarrow> unat p + sizes ts < 2 ^ 32 \<Longrightarrow> holds_bytes F (bmem s) p (encs ts) \<Longrightarrow>
   forest (A \<union> F) (bnodes s) (bmem s) c 0 (head_of ty (bnodes s c)) us \<Longrightarrow> read_ok xml ts c ty p s F k A us"
  unfolding reads_def by blast

lemma readsD:
  assumes "reads xml ts" and "room F k (pool s)" "needs ts \<le> k" "ty \<noteq> BTYPE_TEXT" "node_cur (docs s xml) = c" "c \<noteq> 0" "c \<in> A" "A \<inter> F = {}"
    "node_root (docs s xml) \<noteq> 0" "p \<noteq> 0" "unat p + sizes ts < 2 ^ 32" "holds_bytes F (bmem s) p (encs ts)"
    "forest (A \<union> F) (bnodes s) (bmem s) c 0 (head_of ty (bnodes s c)) us"
  obtains s' F' where "parse_nodes al xml ty (length ts) p s = Some (p + of_nat (sizes ts), s')" "F' \<subseteq> F"
    "room F' (k - needs ts) (pool s')" "docs s' = docs s"
    "forest (A \<union> F') (bnodes s') (bmem s') c 0 (head_of ty (bnodes s' c)) (mirrors ts @ us)"
    "\<And>a. a \<notin> F \<Longrightarrow> bmem s' a = bmem s a" "bnodes s' c = set_head ty (head_of ty (bnodes s' c)) (bnodes s c)"
    "\<And>a. a \<notin> F \<Longrightarrow> a \<noteq> c \<Longrightarrow> a = head_of ty (bnodes s c) \<longrightarrow> a = 0 \<Longrightarrow> bnodes s' a = bnodes s a"
  using assms unfolding reads_def read_ok_def by metis

text \<open>The node that was opened last is filled.\<close>

lemma body_spec:
  assumes ra: "reads xml as" and rc: "reads xml cs" and r: "room F k (pool s)"
    and k: "130 + length n + length v + needs as + needs cs \<le> k" and f: "fits [XNode n v as cs]"
    and x: "node_cur (docs s xml) = x" "x \<noteq> 0" "x \<notin> F" "x \<notin> A" and A: "A \<inter> F = {}" and root: "node_root (docs s xml) \<noteq> 0"
    and p: "p \<noteq> 0" "unat p + sizes [XNode n v as cs] < 2 ^ 32" and src: "holds_bytes F (bmem s) p (encs [XNode n v as cs])"
    and zero: "node_attr (bnodes s x) = 0" "node_child (bnodes s x) = 0" "node_value (bnodes s x) = 0"
  obtains s' F' where
    "do { (p, attrs, children, s) \<leftarrow> read_fields al x p s; (p, s) \<leftarrow> parse_nodes al xml BTYPE_ATTRIBUTE (unat attrs) p s;
       parse_nodes al xml BTYPE_NODE (unat children) p s } = Some (p + of_nat (sizes [XNode n v as cs]), s')"
    "F' \<subseteq> F" "room F' (k - (130 + length n + length v + needs as + needs cs)) (pool s')" "docs s' = docs s"
    "tree_at (A \<union> F') (bnodes s') (bmem s') x (XNode n v (mirrors as) (mirrors cs))"
    "\<And>a. a \<notin> F \<Longrightarrow> bmem s' a = bmem s a" "\<And>a. a \<notin> F \<Longrightarrow> a \<noteq> x \<Longrightarrow> bnodes s' a = bnodes s a"
    "node_next (bnodes s' x) = node_next (bnodes s x)" "node_pre (bnodes s' x) = node_pre (bnodes s x)"
    "node_parent (bnodes s' x) = node_parent (bnodes s x)"
proof -
  define a where "a = 8 + length n + length v"
  have up: "unat (p + of_nat j) = unat p + j" if "j \<le> sizes [XNode n v as cs]" for j
    using p(2) that by (simp add: unat_plus_if' unat_of_nat32)
  have nz: "p + of_nat j \<noteq> 0" if "j \<le> sizes [XNode n v as cs]" for j using up [OF that] p(1) by (metis add_is_0 unat_eq_0)
  have src': "holds_bytes F (bmem s) p (head_bytes (XNode n v as cs))" "holds_bytes F (bmem s) (p + of_nat a) (encs as)"
    "holds_bytes F (bmem s) (p + of_nat (a + sizes as)) (encs cs)"
    using src p(2) unfolding encs_head by (simp_all add: holds_append a_def ac_simps)
  have l: "8 + length n + length v < 2 ^ 32" "length n + length v + 130 \<le> k" using p(2) k by simp_all
  obtain F1 h1 m1 d where f1: "read_fields al x p s = Some (p + of_nat a, of_nat (length as), of_nat (length cs),
       s\<lparr>pool := h1, bmem := m1, bnodes := (bnodes s)(x := d)\<rparr>)"
    "F1 \<subseteq> F" "room F1 (k - (length n + length v + 130)) h1" "\<And>a. a \<notin> F \<Longrightarrow> m1 a = bmem s a"
    and d: "unat (name_len d) = length n" "unat (value_len d) = length v" "holds_bytes (F1 \<union> - F) m1 (node_name d) n"
    "holds_bytes (F1 \<union> - F) m1 (node_value d) v" "node_attr d = node_attr (bnodes s x)" "node_child d = node_child (bnodes s x)" "node_next d = node_next (bnodes s x)"
    "node_pre d = node_pre (bnodes s x)" "node_parent d = node_parent (bnodes s x)"
    by (rule read_fields_spec [OF r l(2) f l(1) src'(1) zero(3), folded a_def]) (rule that)
  have d0: "node_attr d = 0" "node_child d = 0" using d(5,6) zero by simp_all
  define s1 where "s1 = s\<lparr>pool := h1, bmem := m1, bnodes := (bnodes s)(x := d)\<rparr>"
  have s1: "bnodes s1 x = d" "bmem s1 = m1" "docs s1 = docs s" "pool s1 = h1" by (simp_all add: s1_def)
  have c: "unat (of_nat (length as) :: u8) = length as" "unat (of_nat (length cs) :: u16) = length cs"
    using f by (simp_all add: unat_of_nat take_bit_nat_eq_self)
  have sz: "sizes as < 2 ^ 32" "sizes cs < 2 ^ 32" "length (encs as) \<le> 2 ^ 32" "length (encs cs) \<le> 2 ^ 32" using p(2) by simp_all
  have i1: "holds_bytes F1 (bmem s1) (p + of_nat a) (encs as)" "holds_bytes F1 (bmem s1) (p + of_nat (a + sizes as)) (encs cs)"
    unfolding s1 using holds_cong [OF sz(3) src'(2), of m1] holds_cong [OF sz(4) src'(3), of m1] f1(4) holds_mono [OF _ f1(2)] by blast+
  have pa: "p + of_nat a \<noteq> 0" "unat (p + of_nat a) + sizes as < 2 ^ 32" using nz [of a] up [of a] p(2) by (simp_all add: a_def)
  have k1: "needs as \<le> k - (length n + length v + 130)" using k by simp
  have A1: "insert x A \<inter> F1 = {}" using A x(3) f1(2) by blast
  have e1: "forest (insert x A \<union> F1) (bnodes s1) (bmem s1) x 0 (head_of BTYPE_ATTRIBUTE (bnodes s1 x)) []"
    by (simp add: s1 head_of_def d0)
  obtain s2 F2 where f2: "parse_nodes al xml BTYPE_ATTRIBUTE (length as) (p + of_nat a) s1 = Some (p + of_nat a + of_nat (sizes as), s2)"
    "F2 \<subseteq> F1" "room F2 (k - (length n + length v + 130) - needs as) (pool s2)" "docs s2 = docs s1"
    and t2: "forest (insert x A \<union> F2) (bnodes s2) (bmem s2) x 0 (head_of BTYPE_ATTRIBUTE (bnodes s2 x)) (mirrors as @ [])"
    "\<And>a. a \<notin> F1 \<Longrightarrow> bmem s2 a = bmem s1 a" "bnodes s2 x = set_head BTYPE_ATTRIBUTE (head_of BTYPE_ATTRIBUTE (bnodes s2 x)) (bnodes s1 x)"
    "\<And>a. a \<notin> F1 \<Longrightarrow> a \<noteq> x \<Longrightarrow> a = head_of BTYPE_ATTRIBUTE (bnodes s1 x) \<longrightarrow> a = 0 \<Longrightarrow> bnodes s2 a = bnodes s1 a"
    by (rule readsD [OF ra _ k1 _ _ x(2) insertI1 A1 _ pa i1(1) e1]) (simp_all add: s1 f1(3) x(1) root)
  have d2: "head_of BTYPE_NODE (bnodes s2 x) = 0" using arg_cong [OF t2(3), of "head_of BTYPE_NODE"] by (simp only: set_head_fields s1 d0)
  have i2: "holds_bytes F2 (bmem s2) (p + of_nat (a + sizes as)) (encs cs)"
    using holds_mono [OF holds_cong [OF sz(4) i1(2), of "bmem s2"] f2(2)] t2(2) by blast
  have pc: "p + of_nat (a + sizes as) \<noteq> 0" "unat (p + of_nat (a + sizes as)) + sizes cs < 2 ^ 32"
    using nz [of "a + sizes as"] up [of "a + sizes as"] p(2) by (simp_all add: a_def)
  have k2: "needs cs \<le> k - (length n + length v + 130) - needs as" using k by simp
  have A2: "insert x A \<inter> F2 = {}" using A1 f2(2) by blast
  have e2: "forest (insert x A \<union> F2) (bnodes s2) (bmem s2) x 0 (head_of BTYPE_NODE (bnodes s2 x)) []" by (simp add: d2)
  obtain s3 F3 where f3: "parse_nodes al xml BTYPE_NODE (length cs) (p + of_nat (a + sizes as)) s2 =
      Some (p + of_nat (a + sizes as) + of_nat (sizes cs), s3)"
    "F3 \<subseteq> F2" "room F3 (k - (length n + length v + 130) - needs as - needs cs) (pool s3)" "docs s3 = docs s2"
    and t3: "forest (insert x A \<union> F3) (bnodes s3) (bmem s3) x 0 (head_of BTYPE_NODE (bnodes s3 x)) (mirrors cs @ [])"
    "\<And>a. a \<notin> F2 \<Longrightarrow> bmem s3 a = bmem s2 a" "bnodes s3 x = set_head BTYPE_NODE (head_of BTYPE_NODE (bnodes s3 x)) (bnodes s2 x)"
    "\<And>a. a \<notin> F2 \<Longrightarrow> a \<noteq> x \<Longrightarrow> a = head_of BTYPE_NODE (bnodes s2 x) \<longrightarrow> a = 0 \<Longrightarrow> bnodes s3 a = bnodes s2 a"
    by (rule readsD [OF rc f2(3) k2 _ _ x(2) insertI1 A2 _ pc i2 e2]) (simp_all add: f2(4) s1 x(1) root)
  have pe: "p + of_nat (sizes [XNode n v as cs]) = p + of_nat (a + sizes as) + of_nat (sizes cs)"
    "p + of_nat a + of_nat (sizes as) = p + of_nat (a + sizes as)" by (simp_all add: a_def ac_simps)
  have run: "do { (p, attrs, children, s) \<leftarrow> read_fields al x p s; (p, s) \<leftarrow> parse_nodes al xml BTYPE_ATTRIBUTE (unat attrs) p s;
       parse_nodes al xml BTYPE_NODE (unat children) p s } = Some (p + of_nat (sizes [XNode n v as cs]), s3)"
    unfolding f1(1) pe(1) s1_def [symmetric] using f2(1) f3(1) by (simp only: Option.bind.simps prod.case c pe(2))
  have sub: "A \<union> F3 \<subseteq> F1 \<union> - F" using A f2(2) f3(2) by blast
  have mem: "bmem s3 b = m1 b" if "b \<notin> F1 \<union> - F" for b
    using that t3(2) [of b] t2(2) [of b] f2(2) s1(2) by auto
  have fs: "name_len (bnodes s3 x) = name_len d" "value_len (bnodes s3 x) = value_len d" "node_name (bnodes s3 x) = node_name d"
    "node_value (bnodes s3 x) = node_value d" "node_next (bnodes s3 x) = node_next d" "node_pre (bnodes s3 x) = node_pre d"
    "node_parent (bnodes s3 x) = node_parent d" "node_attr (bnodes s3 x) = node_attr (bnodes s2 x)"
    using t2(3) t3(3) by (metis set_head_fields s1(1))+
  have "holds_bytes (A \<union> F3) (bmem s3) (node_name d) n" "holds_bytes (A \<union> F3) (bmem s3) (node_value d) v"
    using l(1) by (auto intro!: holds_mono [OF holds_cong [OF _ d(3) mem] sub] holds_mono [OF holds_cong [OF _ d(4) mem] sub])
  moreover have "forest (insert x A \<union> F2) (bnodes s3) (bmem s3) x 0 (node_attr (bnodes s2 x)) (mirrors as)"
  proof (rule forest_cong)
    show "forest (insert x A \<union> F2) (bnodes s2) (bmem s2) x 0 (node_attr (bnodes s2 x)) (mirrors as)"
      using t2(1) by (simp add: head_of_def)
  qed (use t3(2,4) d2 in auto)
  then have "forest (insert x (A \<union> F3)) (bnodes s3) (bmem s3) x 0 (node_attr (bnodes s3 x)) (mirrors as)"
    unfolding fs by (rule forest_mono) (use f3(2) in blast)
  moreover have "forest (insert x (A \<union> F3)) (bnodes s3) (bmem s3) x 0 (node_child (bnodes s3 x)) (mirrors cs)"
    using t3(1) by (simp add: head_of_def)
  ultimately have tr: "tree_at (A \<union> F3) (bnodes s3) (bmem s3) x (XNode n v (mirrors as) (mirrors cs))"
    using x f1(2) f2(2) f3(2) d(1,2) fs by auto
  have "room F3 (k - (130 + length n + length v + needs as + needs cs)) (pool s3)" using f3(3) by (simp add: ac_simps)
  moreover have "F3 \<subseteq> F" "docs s3 = docs s" using f1(2) f2(2,4) f3(2,4) s1(3) by auto
  moreover have "bmem s3 b = bmem s b" if "b \<notin> F" for b
  proof -
    have "b \<notin> F1" "b \<notin> F2" using that f1(2) f2(2) by auto
    with that t3(2) [of b] t2(2) [of b] f1(4) [of b] s1(2) show ?thesis by simp
  qed
  moreover have "bnodes s3 b = bnodes s b" if "b \<notin> F" "b \<noteq> x" for b
  proof -
    have "b \<notin> F1" "b \<notin> F2" using that f1(2) f2(2) by auto
    with that t3(4) [of b] t2(4) [of b] d2 show ?thesis by (auto simp: s1_def head_of_def d0)
  qed
  ultimately show thesis using run tr fs(5-7) d(7-9) by (intro that [where s' = s3 and F' = F3]) simp_all
qed

lemma reads_step:
  assumes IH: "reads xml as" "reads xml cs" "reads xml ts" and fit: "fits [XNode n v as cs]"
    and r: "room F k (pool s)" and k: "needs (XNode n v as cs # ts) \<le> k" and ty: "ty \<noteq> BTYPE_TEXT" and cur: "node_cur (docs s xml) = c"
    and c: "c \<noteq> 0" "c \<in> A" and A: "A \<inter> F = {}" and root: "node_root (docs s xml) \<noteq> 0"
    and p: "p \<noteq> 0" "unat p + sizes (XNode n v as cs # ts) < 2 ^ 32"
    and src: "holds_bytes F (bmem s) p (encs (XNode n v as cs # ts))"
    and us: "forest (A \<union> F) (bnodes s) (bmem s) c 0 (head_of ty (bnodes s c)) us"
  shows "read_ok xml (XNode n v as cs # ts) c ty p s F k A us"
proof -
  let ?t = "XNode n v as cs" and ?t' = "XNode n v (mirrors as) (mirrors cs)"
  define f where "f = head_of ty (bnodes s c)"
  have fF: "f \<notin> A \<union> F \<or> f = 0" using us by (cases us) (auto simp: forest_Cons f_def elim: tree_at.elims)
  have cF: "c \<notin> F" "f \<noteq> c" "f \<notin> F \<or> f = 0" using A c fF by auto
  have k100: "100 \<le> k" using k by simp
  obtain x s1 F1 where o1: "open_node al xml ty s = Some (x, s1)" "x \<noteq> 0" "x \<in> F - F1" "F1 \<subseteq> F" "room F1 (k - 100) (pool s1)"
    "bmem s1 = bmem s" "docs s1 = (docs s)(xml := (docs s xml)\<lparr>node_cur := x\<rparr>)"
    and h1: "bnodes s1 x = no_node\<lparr>node_next := f, node_parent := c\<rparr>" "f \<noteq> 0 \<longrightarrow> bnodes s1 f = (bnodes s f)\<lparr>node_pre := x\<rparr>"
    "bnodes s1 c = set_head ty x (bnodes s c)" "\<And>a. a \<noteq> x \<Longrightarrow> a \<noteq> c \<Longrightarrow> a = f \<longrightarrow> f = 0 \<Longrightarrow> bnodes s1 a = bnodes s a"
    by (rule open_spec [OF r k100 ty cur c(1) cF(1) root f_def [symmetric] cF(2,3)]) (rule that)
  have en: "encs (?t # ts) = encs [?t] @ encs ts" by simp
  have hl: "length (encs [?t]) + length (encs ts) \<le> 2 ^ 32" using p(2) by simp
  have src1: "holds_bytes F (bmem s) p (encs [?t])" "holds_bytes F (bmem s) (p + of_nat (sizes [?t])) (encs ts)"
    using src holds_append [OF hl] unfolding en length_encs by blast+
  have x1: "node_cur (docs s1 xml) = x" "x \<notin> F1" "x \<notin> A" "A \<inter> F1 = {}" "node_root (docs s1 xml) \<noteq> 0"
    "130 + length n + length v + needs as + needs cs \<le> k - 100" "unat p + sizes [?t] < 2 ^ 32" "holds_bytes F1 (bmem s1) p (encs [?t])"
    "node_attr (bnodes s1 x) = 0" "node_child (bnodes s1 x) = 0" "node_value (bnodes s1 x) = 0"
    using o1 A root k p holds_mono [OF src1(1) o1(4)] h1(1) by (auto simp: no_node_def)
  obtain s2 F2 where b2: "do { (p, attrs, children, s) \<leftarrow> read_fields al x p s1; (p, s) \<leftarrow> parse_nodes al xml BTYPE_ATTRIBUTE (unat attrs) p s;
       parse_nodes al xml BTYPE_NODE (unat children) p s } = Some (p + of_nat (sizes [?t]), s2)"
    "F2 \<subseteq> F1" "room F2 (k - 100 - (130 + length n + length v + needs as + needs cs)) (pool s2)" "docs s2 = docs s1"
    "tree_at (A \<union> F2) (bnodes s2) (bmem s2) x ?t'"
    "\<And>a. a \<notin> F1 \<Longrightarrow> bmem s2 a = bmem s1 a" "\<And>a. a \<notin> F1 \<Longrightarrow> a \<noteq> x \<Longrightarrow> bnodes s2 a = bnodes s1 a"
    "node_next (bnodes s2 x) = node_next (bnodes s1 x)" "node_pre (bnodes s2 x) = node_pre (bnodes s1 x)"
    "node_parent (bnodes s2 x) = node_parent (bnodes s1 x)"
    by (rule body_spec [OF IH(1,2) o1(5) x1(6) fit x1(1) o1(2) x1(2-5) p(1) x1(7-11)]) (rule that)
  have parse: "parse_bxml_node al xml p ty s = Some (p + of_nat (sizes [?t]), s2)"
    using o1(1,2) b2(1) by (simp add: parse_bxml_node_def)
  define s3 where "s3 = close_node xml s2"
  have "node_cur (docs s2 xml) = x" "node_parent (bnodes s2 x) = c" using b2(4,10) o1(7) h1(1) by (simp_all add: no_node_def)
  moreover have "(docs s xml)\<lparr>node_cur := c\<rparr> = docs s xml" using cur by (cases "docs s xml") simp
  ultimately have s3: "docs s3 = docs s" "bnodes s3 = bnodes s2" "bmem s3 = bmem s2" "pool s3 = pool s2"
    using o1(2,7) b2(4) by (auto simp: s3_def close_node_def set_doc_def Let_def)
  have c2: "bnodes s2 c = set_head ty x (bnodes s c)" using b2(7) [of c] cF(1) o1(3,4) h1(3) by auto
  have us2: "forest (insert x (A \<union> F2)) (bnodes s2) (bmem s2) c x f us"
  proof -
    have "f \<noteq> 0 \<longrightarrow> bnodes s1 f = (bnodes s f)\<lparr>node_pre := x\<rparr>" by (rule h1(2))
    moreover have "bnodes s1 a = bnodes s a" if "a \<notin> A \<union> F" "a = f \<longrightarrow> f = 0" for a using that h1(4) [of a] o1(3) c(2) by auto
    ultimately have "forest (A \<union> F) (bnodes s1) (bmem s) c x f us" by (intro forest_behind [OF us [folded f_def]]) auto
    then have "forest (A \<union> F) (bnodes s2) (bmem s2) c x f us"
      by (rule forest_cong) (use b2(6,7) o1(3,4,6) in auto)
    then show ?thesis by (rule forest_mono) (use b2(2) o1(3,4) in blast)
  qed
  have t2: "forest (A \<union> F2) (bnodes s3) (bmem s3) c 0 (head_of ty (bnodes s3 c)) (?t' # us)"
    unfolding s3 c2 set_head_fields forest_Cons using b2(5,8,9,10) us2 h1(1) by (simp add: no_node_def)
  have up: "unat (p + of_nat (sizes [?t])) = unat p + sizes [?t]" using p(2) by (simp add: unat_plus_if' unat_of_nat32)
  have q: "p + of_nat (sizes [?t]) \<noteq> 0" "unat (p + of_nat (sizes [?t])) + sizes ts < 2 ^ 32"
  proof -
    show "p + of_nat (sizes [?t]) \<noteq> 0" using up p(1) by (metis add_is_0 unat_eq_0)
    show "unat (p + of_nat (sizes [?t])) + sizes ts < 2 ^ 32" unfolding up using p(2) by simp
  qed
  have r3: "room F2 (k - (230 + length n + length v + needs as + needs cs)) (pool s3)" "needs ts \<le> k - (230 + length n + length v + needs as + needs cs)"
    using b2(3) k s3(4) by (simp_all add: ac_simps)
  have i3: "holds_bytes F2 (bmem s3) (p + of_nat (sizes [?t])) (encs ts)"
  proof (rule holds_mono)
    have "length (encs ts) \<le> 2 ^ 32" using p(2) by simp
    then show "holds_bytes F (bmem s3) (p + of_nat (sizes [?t])) (encs ts)"
      by (rule holds_cong [OF _ src1(2)]) (use b2(6) o1(4,6) s3(3) in auto)
  qed (use b2(2) o1(4) in blast)
  have "A \<inter> F2 = {}" using A b2(2) o1(4) by blast
  from reads_ok [OF IH(3) r3 ty _ c this _ q i3 t2]
  have "read_ok xml ts c ty (p + of_nat (sizes [?t])) s3 F2 (k - (230 + length n + length v + needs as + needs cs)) A (?t' # us)"
    using cur root s3(1) by simp
  then obtain s4 F4 where f4: "parse_nodes al xml ty (length ts) (p + of_nat (sizes [?t])) s3 =
      Some (p + of_nat (sizes [?t]) + of_nat (sizes ts), s4)" "F4 \<subseteq> F2"
    "room F4 (k - (230 + length n + length v + needs as + needs cs) - needs ts) (pool s4)" "docs s4 = docs s3"
    "forest (A \<union> F4) (bnodes s4) (bmem s4) c 0 (head_of ty (bnodes s4 c)) (mirrors ts @ ?t' # us)"
    "\<And>a. a \<notin> F2 \<Longrightarrow> bmem s4 a = bmem s3 a" "bnodes s4 c = set_head ty (head_of ty (bnodes s4 c)) (bnodes s3 c)"
    "\<And>a. a \<notin> F2 \<Longrightarrow> a \<noteq> c \<Longrightarrow> a = head_of ty (bnodes s3 c) \<longrightarrow> a = 0 \<Longrightarrow> bnodes s4 a = bnodes s3 a"
    unfolding read_ok_def by metis
  have "length (?t # ts) \<noteq> 0" "length (?t # ts) - 1 = length ts" by simp_all
  then have "parse_nodes al xml ty (length (?t # ts)) p s = Some (p + of_nat (sizes [?t]) + of_nat (sizes ts), s4)"
    using p(1) parse f4(1) s3_def by (subst parse_nodes_body) (simp only: simp_thms if_False Option.bind.simps prod.case)
  moreover have "p + of_nat (sizes [?t]) + of_nat (sizes ts) = p + of_nat (sizes (?t # ts))" by (simp add: ac_simps)
  moreover have "room F4 (k - needs (?t # ts)) (pool s4)" using f4(3) by (simp add: ac_simps)
  moreover have "F4 \<subseteq> F" "docs s4 = docs s" using f4(2,4) b2(2) o1(4) s3(1) by auto
  moreover have "forest (A \<union> F4) (bnodes s4) (bmem s4) c 0 (head_of ty (bnodes s4 c)) (mirrors (?t # ts) @ us)" using f4(5) by simp
  moreover have "bmem s4 b = bmem s b \<and> (b \<noteq> c \<longrightarrow> (b = f \<longrightarrow> b = 0) \<longrightarrow> bnodes s4 b = bnodes s b)" if "b \<notin> F" for b
  proof -
    have "b \<notin> F1" "b \<notin> F2" "b \<noteq> x" using that o1(3,4) b2(2) by auto
    moreover have "head_of ty (bnodes s3 c) = x" by (simp add: s3 c2)
    ultimately show ?thesis using f4(6,8) [of b] b2(6,7) [of b] h1(4) [of b] o1(6) s3 by auto
  qed
  moreover have "bnodes s4 c = set_head ty (head_of ty (bnodes s4 c)) (bnodes s c)"
    using f4(7) unfolding s3 c2 by (metis set_head_fields(9))
  ultimately show ?thesis unfolding read_ok_def f_def by metis
qed

lemma reads_all: "fits ts \<Longrightarrow> reads xml ts"
proof (induction ts rule: fits.induct)
  case 1
  have "read_ok xml [] c ty p s F k A us"
    if "room F k (pool s)" "forest (A \<union> F) (bnodes s) (bmem s) c 0 (head_of ty (bnodes s c)) us" for c ty p s F k A us
    unfolding read_ok_def using that
    by (intro exI [of _ s] exI [of _ F]) (simp add: parse_nodes.simps set_head_def head_of_def)
  then show ?case by (simp add: reads_def)
next
  case (2 n v as cs ts)
  then have "reads xml as" "reads xml cs" "reads xml ts" "fits [XNode n v as cs]" by auto
  note step = reads_step [OF this]
  show ?case unfolding reads_def by (intro allI impI) (rule step)
qed

text \<open>Reading a message.\<close>

lemma bxml_parse_spec:
  assumes r: "room F k (pool s)" and k: "80 + needs [t] \<le> k" and f: "fits [t]" and A: "A \<inter> F = {}"
    and len: "unat mem + 16 + sizes [t] < 2 ^ 32" and src: "holds_bytes F (bmem s) mem (header_bytes ver flag @ encs [t])"
  obtains y s' F' where "bxml_parse al mem s = Some (y, s')" "y \<noteq> 0" "y \<in> F" "F' \<subseteq> F" "room F' (k - (80 + needs [t])) (pool s')"
    "document (A \<union> F') s' y (mirror t)" "bx_version (docs s' y) = ver" "bx_flag (docs s' y) = flag"
    "node_cur (docs s' y) = node_root (docs s' y)"
    "\<And>a. a \<notin> F \<Longrightarrow> bmem s' a = bmem s a \<and> bnodes s' a = bnodes s a \<and> docs s' a = docs s a"
proof -
  obtain n v as cs where t: "t = XNode n v as cs" by (cases t)
  have "(16 :: u32) \<noteq> 0" "unat (16 :: u32) + 64 \<le> k" using k by simp_all
  from safe_malloc_spec [OF r this] obtain y F1 h1 where
    y: "safe_malloc al 16 s = Some (y, s\<lparr>pool := h1\<rparr>)" "y \<noteq> 0" "block y 16 \<subseteq> F - F1" "F1 \<subseteq> F" "room F1 (k - 80) h1" by auto
  have "y \<in> block y 16" by (simp add: block_def)
  then have yF: "y \<in> F - F1" using y(3) by blast
  have sz: "length (header_bytes ver flag) + length (encs [t]) \<le> 2 ^ 32" using len by simp
  have hd: "holds_bytes F (bmem s) mem (le32 BXML_MAGIC @ le16 ver @ flag # replicate 9 0)" "holds_bytes F (bmem s) (mem + 16) (encs [t])"
    using src unfolding holds_append [OF sz] by (simp_all add: header_bytes_def)
  then have "holds_bytes F (bmem s) mem (le32 BXML_MAGIC)" "holds_bytes F (bmem s) (mem + 4) (le16 ver)" and fl: "bmem s (mem + 6) = flag"
    by (simp_all add: holds_append holds_Cons ac_simps)
  then have w: "ld32 (bmem s) mem = BXML_MAGIC" "ld16 (bmem s) (mem + 4) = ver"
    by (intro ld32_load ld16_le16, simp add: holds_bytes_def)+
  define d where "d = no_data\<lparr>bx_version := ver, bx_flag := flag\<rparr>"
  define s1 where "s1 = s\<lparr>pool := h1, docs := (docs s)(y := d)\<rparr>"
  have r1: "room F1 (k - 80) (pool s1)" "100 \<le> k - 80" using y(5) k by (simp_all add: s1_def t)
  obtain x F2 h2 where x: "create_node al y s1 = Some (x, s1\<lparr>pool := h2, bnodes := (bnodes s1)(x := no_node),
       docs := (if y \<noteq> 0 \<and> node_root (docs s1 y) = 0 then (docs s1)(y := (docs s1 y)\<lparr>node_root := x\<rparr>) else docs s1)\<rparr>)"
    "x \<noteq> 0" "x \<in> F1 - F2" "F2 \<subseteq> F1" "room F2 (k - 80 - 100) h2"
    by (rule create_node_spec [OF r1, of y]) (rule that)
  define s2 where "s2 = s1\<lparr>pool := h2, bnodes := (bnodes s)(x := no_node), docs := (docs s)(y := d\<lparr>node_root := x, node_cur := x\<rparr>)\<rparr>"
  have o: "open_node al y BTYPE_NODE s1 = Some (x, s2)"
    using x(1,2) y(2) by (simp add: open_node_def create_childnode_def set_doc_def s1_def s2_def d_def no_data_def)
  have x2: "node_cur (docs s2 y) = x" "x \<notin> F2" "x \<notin> A" "A \<inter> F2 = {}" "node_root (docs s2 y) \<noteq> 0"
    "130 + length n + length v + needs as + needs cs \<le> k - 80 - 100" "holds_bytes F2 (bmem s2) (mem + 16) (encs [t])"
    "node_attr (bnodes s2 x) = 0" "node_child (bnodes s2 x) = 0" "node_value (bnodes s2 x) = 0" "room F2 (k - 80 - 100) (pool s2)"
    using x y A k holds_mono [OF hd(2), of F2] by (auto simp: s2_def s1_def t no_node_def)
  have u16: "unat (mem + 16) = unat mem + 16" using len by (simp add: unat_plus_if')
  then have m16: "mem + 16 \<noteq> 0" "unat (mem + 16) + sizes [t] < 2 ^ 32" using len by auto
  obtain s3 F3 where b3: "do { (p, attrs, children, s) \<leftarrow> read_fields al x (mem + 16) s2; (p, s) \<leftarrow> parse_nodes al y BTYPE_ATTRIBUTE (unat attrs) p s;
       parse_nodes al y BTYPE_NODE (unat children) p s } = Some (mem + 16 + of_nat (sizes [t]), s3)"
    "F3 \<subseteq> F2" "room F3 (k - 80 - 100 - (130 + length n + length v + needs as + needs cs)) (pool s3)" "docs s3 = docs s2"
    "tree_at (A \<union> F3) (bnodes s3) (bmem s3) x (XNode n v (mirrors as) (mirrors cs))"
    "\<And>a. a \<notin> F2 \<Longrightarrow> bmem s3 a = bmem s2 a" "\<And>a. a \<notin> F2 \<Longrightarrow> a \<noteq> x \<Longrightarrow> bnodes s3 a = bnodes s2 a"
    by (rule body_spec [OF reads_all reads_all x2(11,6) f [unfolded t] x2(1) x(2) x2(2-5) m16 [unfolded t] x2(7) [unfolded t] x2(8-10),
          folded t]) (use f in \<open>simp_all add: t\<close>)
  have "parse_bxml_node al y (mem + 16) BTYPE_NODE s1 = Some (mem + 16 + of_nat (sizes [t]), s3)"
    using o x(2) b3(1) by (simp add: parse_bxml_node_def)
  then have "bxml_parse al mem s = Some (y, set_doc y (\<lambda>d. d\<lparr>node_cur := node_root d\<rparr>) s3)"
    using y(1,2) w fl by (simp add: bxml_parse_def set_doc_def s1_def d_def)
  moreover have "document (A \<union> F3) (set_doc y (\<lambda>d. d\<lparr>node_cur := node_root d\<rparr>) s3) y (mirror t)"
    using b3(4,5) by (simp add: document_def set_doc_def s2_def mirror_def t)
  moreover have "room F3 (k - (80 + needs [t])) (pool s3)" using b3(3) by (simp add: t ac_simps)
  moreover have "bmem s3 a = bmem s a \<and> bnodes s3 a = bnodes s a \<and> docs s3 a = docs s a" if "a \<notin> F" for a
    using that b3(4) b3(6,7) [of a] x(3,4) y(4) yF by (auto simp: s2_def s1_def)
  ultimately show thesis using y(2,4) yF x(4) b3(2,4)
    by (intro that [where y = y and F' = F3 and s' = "set_doc y (\<lambda>d. d\<lparr>node_cur := node_root d\<rparr>) s3"])
      (auto simp: set_doc_def s2_def d_def)
qed

end

end
