(* ===== verification/BxmlAlloc.thy ===== *)
theory BxmlAlloc
  imports BxmlRead AllocatorInv
begin

text \<open>
  The allocator of the applications as a source of fresh blocks: as long as nothing was freed, the pool ends with
  one free block, \<open>malloc\<close> cuts its blocks from the front of it, and the free area is what is left.
\<close>

section \<open>The free block at the end of the pool\<close>

definition area :: "u32 \<Rightarrow> nat \<Rightarrow> u32 set" where
  "area f n = {a. unat f \<le> unat a \<and> unat a < unat f + n}"

definition tail_block :: "u32 \<Rightarrow> u32 \<Rightarrow> uheap \<Rightarrow> bool" where
  "tail_block f sz h \<longleftrightarrow> f \<noteq> 0 \<and> u_first_node h \<noteq> 0 \<and> u_mutex h = 1 \<and> 24 \<le> unat sz \<and> unat f + unat sz \<le> 2 ^ 32 \<and>
     u_free_table h = (\<lambda>_. 0)(u_calc_hash_index sz := f) \<and> nd_size (u_nodes h f) = sz - 24 \<and> nd_next (u_nodes h f) = 0 \<and>
     nd_hash_prev (u_nodes h f) = 0 \<and> nd_hash_next (u_nodes h f) = 0"

definition tail_room :: "u32 set \<Rightarrow> nat \<Rightarrow> uheap \<Rightarrow> bool" where
  "tail_room F k h \<longleftrightarrow> (\<exists>f sz. F = area f (unat sz) \<and> k \<le> unat sz \<and> tail_block f sz h)"

lemma u_class_mono: "j \<le> k \<Longrightarrow> u_calc_hash_index j \<le> u_calc_hash_index k"
  using hash_loop_mono [OF drop_bit_mono, of j k 5 0] by (simp add: u_calc_hash_index_def Let_def)

lemma scan_single:
  assumes "i \<le> j" "j \<le> 18" "f \<noteq> 0" "\<not> nd_size (h f) < siz"
  shows "table_scan h ((\<lambda>_. 0)(j := f)) siz [i..<U_MAX_HASH_ENTRY] = Some (j, f)"
proof -
  have e: "[i..<19] = [i..<j] @ j # [Suc j..<19]" using assms(1,2) upt_add_eq_append [of i j "19 - j"] upt_conv_Cons [of j 19] by simp
  have "table_scan h tab siz (js @ j # ks) = Some (j, f)" if "tab = (\<lambda>_. 0)(j := f)" "\<forall>x\<in>set js. x < j" for tab js ks
    using that assms by (induction js) (simp_all add: hash_scan.simps)
  then show ?thesis unfolding e by simp
qed

lemma malloc_tail:
  assumes t: "tail_block f sz h" and n: "n \<noteq> 0" "unat n + 64 \<le> unat sz"
  defines "m \<equiv> (if n < 8 then 8 else n) + 24"
  shows "\<exists>h'. malloc sleep pl n h = Some (f + 24, h') \<and> tail_block (f + m) (sz - m) h' \<and> unat n + 24 \<le> unat m \<and> unat m \<le> unat n + 31"
proof -
  define siz where "siz = (if n < 8 then 8 else n)"
  have us: "unat siz = (if unat n < 8 then 8 else unat n)" by (simp add: siz_def word_less_nat_alt)
  have n0: "unat n \<noteq> 0" using n(1) by (simp add: unat_eq_0)
  have um: "unat m = unat siz + 24" using us n(2) unat_32 [of sz] by (simp add: m_def siz_def [symmetric] unat_plus_if')
  have mm: "unat n + 24 \<le> unat m" "unat m \<le> unat n + 31" using um us n0 by auto
  have ur: "unat (sz - m) = unat sz - unat m" using mm n(2) by (simp add: unat_sub word_le_nat_alt)
  have fit: "\<not> nd_size (u_nodes h f) < siz"
  proof -
    have "unat (sz - 24) = unat sz - 24" using n(2) by (simp add: unat_sub word_le_nat_alt)
    then show ?thesis using t mm um n(2) by (simp add: tail_block_def word_less_nat_alt)
  qed
  have "m \<le> sz" using mm n(2) by (simp add: word_le_nat_alt)
  then have sc: "table_scan (u_nodes h) (u_free_table h) siz [u_calc_hash_index m..<U_MAX_HASH_ENTRY] = Some (u_calc_hash_index sz, f)"
    using t fit scan_single [OF u_class_mono class_bound, of m sz f "u_nodes h" siz] by (simp add: tail_block_def)
  have f': "unat (f + m) = unat f + unat m" using t mm n(2) by (simp add: tail_block_def unat_plus_if')
  have ne: "f + m \<noteq> 0" "f + m \<noteq> f" using f' mm by auto
  have rest: "32 \<le> sz - m" using mm n(2) ur by (simp add: word_le_nat_alt)
  define h0 where "h0 = h\<lparr>u_mutex := 0\<rparr>"
  have d: "u_HASH_DELETE f (u_calc_hash_index sz) h0 = h0\<lparr>u_free_table := (\<lambda>_. 0)\<rparr>"
    using t by (simp add: u_HASH_DELETE_def tail_block_def h0_def fun_upd_idem)
  define h1 where "h1 = u_MAKE_OCCUPIED f (h0\<lparr>u_free_table := (\<lambda>_. 0)\<rparr>)"
  have "malloc sleep pl n h = Some (f + 24, u_unlock (u_split f siz m (sz - m) h1))"
    using t n(1) sc rest u_lock_free [of h sleep] d unfolding h1_def
    by (simp add: malloc_def tail_block_def Let_def siz_def [symmetric] m_def [folded siz_def] h0_def)
  moreover have "tail_block (f + m) (sz - m) (u_unlock (u_split f siz m (sz - m) h1))"
    using t ne f' ur mm n(2)
    by (simp add: tail_block_def u_unlock_def u_split_def u_HASH_APPEND_def u_MAKE_FREE_def h1_def h0_def u_MAKE_OCCUPIED_def Let_def)
  ultimately show ?thesis using mm by blast
qed

lemma area_split: "unat f + unat sz \<le> 2 ^ 32 \<Longrightarrow> unat (f + m) = unat f + unat m \<Longrightarrow> unat m \<le> unat sz \<Longrightarrow> 
    area (f + m) (unat sz - unat m) = area f (unat sz) - area f (unat m)"
  by (auto simp: area_def)

interpretation lib: fresh_blocks "malloc sleep pl" tail_room for sleep pl
proof unfold_locales
  fix F k k' and h :: uheap
  show "tail_room F k h \<Longrightarrow> k' \<le> k \<Longrightarrow> tail_room F k' h" unfolding tail_room_def using le_trans by blast
  fix n :: u32
  assume "tail_room F k h" and n: "n \<noteq> 0" "unat n + 64 \<le> k"
  then obtain f sz where F: "F = area f (unat sz)" "k \<le> unat sz" and t: "tail_block f sz h" unfolding tail_room_def by blast
  define m where "m = (if n < 8 then 8 else n) + 24"
  obtain h' where m: "malloc sleep pl n h = Some (f + 24, h')" "tail_block (f + m) (sz - m) h'" "unat n + 24 \<le> unat m" "unat m \<le> unat n + 31"
    using malloc_tail [OF t n(1), of sleep pl] n(2) F(2) unfolding m_def by auto
  have b: "unat f + unat sz \<le> 2 ^ 32" using t by (simp add: tail_block_def)
  have u: "unat (f + m) = unat f + unat m" "unat (f + 24) = unat f + 24" using b m(4) n(2) F(2) m(3) by (simp_all add: unat_plus_if')
  have us: "unat (sz - m) = unat sz - unat m" using m(4) n(2) F(2) by (simp add: unat_sub word_le_nat_alt)
  define F' where "F' = area (f + m) (unat (sz - m))"
  have "a \<in> F - F'" if "a \<in> block (f + 24) (unat n)" for a
  proof -
    have "unat (a - (f + 24)) < unat n" using that by (simp add: block_def)
    moreover have "a = f + 24 + (a - (f + 24))" by simp
    moreover have "unat (f + 24 + (a - (f + 24))) = unat f + 24 + unat (a - (f + 24))" if "unat (a - (f + 24)) < unat n"
      using that u b n(2) F(2) by (subst unat_plus_if') simp
    ultimately show ?thesis using F(1,2) n(2) u us m(3) by (auto simp: F'_def area_def)
  qed
  moreover have "F' \<subseteq> F" using F b u us m(4) n(2) by (auto simp: F'_def area_def)
  moreover have "tail_room F' (k - (unat n + 64)) h'"
    unfolding tail_room_def F'_def using m us F(2) by (intro exI [of _ "f + m"] exI [of _ "sz - m"]) simp
  moreover have "f + 24 \<noteq> 0" using u by auto
  ultimately show "\<exists>p F' h'. malloc sleep pl n h = Some (p, h') \<and> p \<noteq> 0 \<and> block p (unat n) \<subseteq> F - F' \<and> F' \<subseteq> F \<and> tail_room F' (k - (unat n + 64)) h'"
    using m(1) by blast
qed

lemma one_block_tail:
  assumes "one_block p s" and "p \<noteq> 0" and "unat p + 2 ^ 28 \<le> 2 ^ 32"
  shows "tail_room (area p (2 ^ 28)) (2 ^ 28) s"
  unfolding tail_room_def
proof (intro exI conjI)
  show "area p (2 ^ 28) = area p (unat pool_size)" "2 ^ 28 \<le> unat pool_size" by (simp_all add: pool_size_def)
  show "tail_block p pool_size s"
    using assms pool_class by (simp add: tail_block_def one_block_def) (simp add: pool_size_def)
qed

section \<open>A message\<close>

text \<open>Parsing a message while another document \<open>xml\<close> is in memory.\<close>

lemma receive:
  assumes f: "fits [t]" and r: "tail_room F k (pool s)" and k: "80 + 29 * sizes [t] \<le> k"
    and b: "block buf (16 + sizes [t]) \<inter> F = {}" and w: "unat buf + 16 + sizes [t] < 2 ^ 32"
    and l: "load_list (16 + sizes [t]) (bmem s) buf = header_bytes ver flag @ encs [t]"
    and x: "xml \<notin> F" and d: "document F s xml t0"
  shows "\<exists>y s'. bxml_parse (malloc sleep pl) buf s = Some (y, s') \<and> y \<noteq> 0 \<and> document {} s' y (mirror t) \<and>
    bx_version (docs s' y) = ver \<and> bx_flag (docs s' y) = flag \<and> document {} s' xml t0"
proof -
  have k': "80 + needs [t] \<le> k" using k needs_sizes [of "[t]"] by linarith
  have h: "holds_bytes F (bmem s) buf (header_bytes ver flag @ encs [t])"
    using l b by (simp add: holds_bytes_def del: sizes.simps encs.simps)
  obtain y s' F' where y: "bxml_parse (malloc sleep pl) buf s = Some (y, s')" "y \<noteq> 0" "y \<in> F" "F' \<subseteq> F" "tail_room F' (k - (80 + needs [t])) (pool s')"
    "document ({} \<union> F') s' y (mirror t)" "bx_version (docs s' y) = ver" "bx_flag (docs s' y) = flag"
    "node_cur (docs s' y) = node_root (docs s' y)"
    "\<And>a. a \<notin> F \<Longrightarrow> bmem s' a = bmem s a \<and> bnodes s' a = bnodes s a \<and> docs s' a = docs s a"
    by (rule lib.bxml_parse_spec [OF r k' f, of "{}" buf, OF _ w h]) (simp, rule that)
  have "document {} s' y (mirror t)" using y(6) unfolding document_def by (rule tree_mono) simp
  moreover have "tree_at F (bnodes s') (bmem s') (node_root (docs s xml)) t0"
    by (rule tree_cong [OF d [unfolded document_def]]) (use y(10) in auto)
  then have "tree_at {} (bnodes s') (bmem s') (node_root (docs s xml)) t0" by (rule tree_mono) simp
  then have "document {} s' xml t0" using y(10) [OF x] by (simp add: document_def)
  ultimately show ?thesis using y by blast
qed

lemma block_disjoint_le: "block p n \<inter> F = {} \<Longrightarrow> m \<le> n \<Longrightarrow> block p m \<inter> F = {}"
  using block_mono [of m n p] by blast

text \<open>Writing it to a buffer of the right size.\<close>

lemma send:
  assumes d: "document (F \<union> block buf (16 + sizes [t])) s xml t" and f: "counted [t]" and sz: "sizes [t] < 2 ^ 30"
  obtains m where "bxml_build xml buf (of_nat (16 + sizes [t])) s = Some (of_nat (16 + sizes [t]), s\<lparr>bmem := m\<rparr>)"
    "load_list (16 + sizes [t]) m buf = header_bytes (bx_version (docs s xml)) (bx_flag (docs s xml)) @ encs [t]"
    "document F (s\<lparr>bmem := m\<rparr>) xml t"
proof -
  let ?n = "16 + sizes [t]"
  have n: "unat (of_nat ?n :: u32) = ?n" by (rule unat_of_nat32) (use sz in simp)
  obtain m where m: "bxml_build xml buf (of_nat ?n) s = Some (of_nat ?n, s\<lparr>bmem := m\<rparr>)"
    "load_list ?n m buf = header_bytes (bx_version (docs s xml)) (bx_flag (docs s xml)) @ encs [t]" "\<And>a. a \<notin> block buf ?n \<Longrightarrow> m a = bmem s a"
    using bxml_build_spec [OF d f sz, of buf "of_nat ?n", unfolded n] sz by (auto simp del: sizes.simps)
  have "tree_at (F \<union> block buf ?n) (bnodes s) m (node_root (docs s xml)) t"
    by (rule tree_cong [OF d [unfolded document_def]]) (use m(3) in auto)
  then have "document F (s\<lparr>bmem := m\<rparr>) xml t" unfolding document_def by (simp, rule tree_mono) simp
  with m(1,2) that show thesis by blast
qed

text \<open>
  (C36) A message arrives as its mirror image: writing a document to a buffer of exactly the size computed for it
  and parsing the buffer gives a new document with the same names and values, in which the attributes and the
  children of every node are in reverse order, with every link between the nodes set; version and flags are
  kept, and the document that was sent is unchanged. The pool must have room for the nodes and their strings.
\<close>

theorem message_arrives_mirrored:
  assumes "document (F \<union> block buf (16 + sizes [t])) s xml t" and "fits [t]" and "sizes [t] < 2 ^ 30"
    and "tail_room F k (pool s)" and "80 + 29 * sizes [t] \<le> k" and "xml \<notin> F"
    and "block buf (16 + sizes [t]) \<inter> F = {}" and "unat buf + 16 + sizes [t] < 2 ^ 32"
  shows "\<exists>s1 y s2. bxml_buffer_size xml s = Some (of_nat (16 + sizes [t])) \<and>
    bxml_build xml buf (of_nat (16 + sizes [t])) s = Some (of_nat (16 + sizes [t]), s1) \<and>
    bxml_parse (malloc sleep pl) buf s1 = Some (y, s2) \<and> y \<noteq> 0 \<and> document {} s2 y (mirror t) \<and>
    bx_version (docs s2 y) = bx_version (docs s xml) \<and> bx_flag (docs s2 y) = bx_flag (docs s xml) \<and> document {} s2 xml t"
proof -
  obtain m where m: "bxml_build xml buf (of_nat (16 + sizes [t])) s = Some (of_nat (16 + sizes [t]), s\<lparr>bmem := m\<rparr>)"
    "load_list (16 + sizes [t]) m buf = header_bytes (bx_version (docs s xml)) (bx_flag (docs s xml)) @ encs [t]"
    "document F (s\<lparr>bmem := m\<rparr>) xml t" by (rule send [OF assms(1) fits_counted [OF assms(2)] assms(3)])
  have "bxml_buffer_size xml s = Some (of_nat (16 + sizes [t]))"
    using calc_tree [OF assms(1) [unfolded document_def]] by (simp add: bxml_buffer_size_def)
  with m(1) receive [OF assms(2) _ assms(5,7,8), of "s\<lparr>bmem := m\<rparr>", OF _ _ assms(6) m(3), of _ _ sleep pl] m(2) assms(4)
  show ?thesis by auto
qed

text \<open>
  (C38) 256 attributes are lost without an error: the number of attributes is cut to a byte, 0, while all of them are
  written behind it; the receiver gets the node with its name and value and no attribute at all.
\<close>

theorem attributes_lost:
  assumes "document (F \<union> block buf (16 + sizes [XNode n v as []])) s xml (XNode n v as [])" and "length as = 256" and "fits as"
    and "length n < 256" and "sizes [XNode n v as []] < 2 ^ 30" and "tail_room F k (pool s)" and "80 + 29 * (8 + length n + length v) \<le> k" and "xml \<notin> F"
    and "block buf (16 + sizes [XNode n v as []]) \<inter> F = {}" and "unat buf + 16 + sizes [XNode n v as []] < 2 ^ 32"
  shows "\<exists>s1 y s2. bxml_build xml buf (of_nat (16 + sizes [XNode n v as []])) s = Some (of_nat (16 + sizes [XNode n v as []]), s1) \<and>
    bxml_parse (malloc sleep pl) buf s1 = Some (y, s2) \<and> y \<noteq> 0 \<and> document {} s2 y (XNode n v [] [])"
proof -
  let ?t = "XNode n v as []" and ?u = "XNode n v [] []"
  have c: "counted [?t]" "fits [?u]" "mirror ?u = ?u" using assms(2-4) fits_counted by (simp_all add: mirror_def)
  obtain m where m: "bxml_build xml buf (of_nat (16 + sizes [?t])) s = Some (of_nat (16 + sizes [?t]), s\<lparr>bmem := m\<rparr>)"
    "load_list (16 + sizes [?t]) m buf = header_bytes (bx_version (docs s xml)) (bx_flag (docs s xml)) @ encs [?t]"
    "document F (s\<lparr>bmem := m\<rparr>) xml ?t" by (rule send [OF assms(1) c(1) assms(5)])
  have "encs [?t] = encs [?u] @ encs as" using assms(2) by simp
  moreover have sz: "16 + sizes [?t] = (16 + sizes [?u]) + sizes as" by simp
  ultimately have "load_list (16 + sizes [?u]) m buf @ load_list (sizes as) m (buf + of_nat (16 + sizes [?u])) =
      (header_bytes (bx_version (docs s xml)) (bx_flag (docs s xml)) @ encs [?u]) @ encs as"
    using m(2) unfolding sz load_list_append by simp
  then have l: "load_list (16 + sizes [?u]) m buf = header_bytes (bx_version (docs s xml)) (bx_flag (docs s xml)) @ encs [?u]"
    by (subst (asm) append_eq_append_conv) simp_all
  have b: "block buf (16 + sizes [?u]) \<inter> F = {}" "unat buf + 16 + sizes [?u] < 2 ^ 32" "80 + 29 * sizes [?u] \<le> k"
    using assms(7,10) block_disjoint_le [OF assms(9), of "16 + sizes [?u]"] by simp_all
  have "tail_room F k (pool (s\<lparr>bmem := m\<rparr>))" "load_list (16 + sizes [?u]) (bmem (s\<lparr>bmem := m\<rparr>)) buf =
      header_bytes (bx_version (docs s xml)) (bx_flag (docs s xml)) @ encs [?u]" using assms(6) l by simp_all
  from receive [OF c(2) this(1) b(3,1,2) this(2) assms(8) m(3), of sleep pl] m(1) show ?thesis unfolding c(3) by blast
qed

text \<open>A document with two children, behind a fresh pool of 256 MB.\<close>

definition wit_node :: "u32 \<Rightarrow> bxml_node" where
  "wit_node a =
     (if a = 0x100 then no_node\<lparr>node_child := 0x200, name_len := 1, node_name := 0x400\<rparr>
      else if a = 0x200 then no_node\<lparr>node_next := 0x300, node_parent := 0x100, name_len := 1, node_name := 0x410, value_len := 1, node_value := 0x420\<rparr>
      else if a = 0x300 then no_node\<lparr>node_pre := 0x200, node_parent := 0x100, name_len := 1, node_name := 0x430\<rparr>
      else no_node)"

definition wit_doc :: "uheap bxml_state" where
  "wit_doc = \<lparr>bnodes = wit_node, docs = (\<lambda>_. no_data\<lparr>node_root := 0x100, bx_version := 3\<rparr>),
     bmem = (\<lambda>a. if a = 0x400 then 109 else if a = 0x410 then 97 else if a = 0x420 then 49 else if a = 0x430 then 98 else 0),
     err_str = [], pool = the (allocation_init 0x40000000 uheap0)\<rparr>"

definition wit_tree :: xtree where
  "wit_tree = XNode [109] [] [] [XNode [97] [49] [] [], XNode [98] [] [] []]"

lemma wit_pool: "tail_room (area 0x40000000 (2 ^ 28)) (2 ^ 28) (pool wit_doc)"
proof -
  obtain s' where "allocation_init 0x40000000 uheap0 = Some s'" "one_block 0x40000000 s'"
    by (rule init_one_block [of "0x40000000" uheap0]) simp
  then show ?thesis by (intro one_block_tail) (simp_all add: wit_doc_def)
qed

lemma mem_block: "a \<in> block p n \<longleftrightarrow> unat (a - p) < n"
  by (simp add: block_def)

lemma wit_document: "document (area 0x40000000 (2 ^ 28) \<union> block 0x1000 n) wit_doc 0x50 wit_tree" if "n \<le> 2 ^ 16"
  using that by (simp add: document_def wit_tree_def wit_doc_def wit_node_def no_node_def holds_bytes_def area_def mem_block no_data_def)

theorem message_arrives_mirrored_witness:
  "\<exists>s1 y s2. bxml_build 0x50 0x1000 44 wit_doc = Some (44, s1) \<and> bxml_parse (malloc Some 0) 0x1000 s1 = Some (y, s2) \<and>
    document {} s2 y (XNode [109] [] [] [XNode [98] [] [] [], XNode [97] [49] [] []])"
proof -
  let ?F = "area 0x40000000 (2 ^ 28)"
  have n: "16 + sizes [wit_tree] = 44" "fits [wit_tree]" "sizes [wit_tree] < 2 ^ 30" "80 + 29 * sizes [wit_tree] \<le> 2 ^ 28"
    "0x50 \<notin> ?F" "unat (0x1000 :: u32) + 16 + sizes [wit_tree] < 2 ^ 32"
    "mirror wit_tree = XNode [109] [] [] [XNode [98] [] [] [], XNode [97] [49] [] []]"
    by (simp_all add: wit_tree_def area_def mirror_def)
  have b: "block 0x1000 44 \<inter> ?F = {}"
  proof -
    have "unat a < 0x2000" if "a \<in> block 0x1000 44" for a :: u32
    proof -
      have "unat (a - 0x1000) < 44" using that by (simp add: mem_block)
      then have "unat (0x1000 + (a - 0x1000)) < 0x2000" by (subst unat_plus_if') simp
      then show ?thesis by simp
    qed
    then show ?thesis by (fastforce simp: area_def)
  qed
  have d: "document (?F \<union> block 0x1000 (16 + sizes [wit_tree])) wit_doc 0x50 wit_tree" unfolding n(1) by (rule wit_document) simp
  show ?thesis
    using message_arrives_mirrored [OF d n(2,3) wit_pool n(4,5) _ n(6), where sleep = Some and pl = 0] b unfolding n(1,7) by auto
qed

text \<open>The same root with 256 attributes without a name, one behind the other from 0x100000 on.\<close>

definition wit_many :: "uheap bxml_state" where
  "wit_many = wit_doc\<lparr>bnodes := (\<lambda>a. if a = 0x100 then no_node\<lparr>node_attr := 0x100001, name_len := 1, node_name := 0x400\<rparr>
     else no_node\<lparr>node_parent := 0x100, node_pre := (if a = 0x100001 then 0 else a - 1), node_next := (if a = 0x100100 then 0 else a + 1)\<rparr>)\<rparr>"

lemma wit_attrs:
  assumes "i + k = 256" and "\<And>j. i < j \<Longrightarrow> j \<le> 256 \<Longrightarrow> 0x100000 + of_nat j \<notin> B"
  shows "forest B (bnodes wit_many) m 0x100 (if i = 0 then 0 else 0x100000 + of_nat i) (if k = 0 then 0 else 0x100000 + of_nat (Suc i))
    (replicate k (XNode [] [] [] []))"
  using assms
proof (induction k arbitrary: i B)
  case (Suc k)
  let ?p = "0x100000 + of_nat (Suc i) :: u32"
  have up: "unat ?p = 0x100000 + Suc i" using Suc.prems(1) by (simp add: unat_plus_if' unat_of_nat32 del: of_nat_Suc)
  have ne: "?p \<noteq> 0 \<and> ?p \<noteq> 0x100 \<and> (?p = 0x100001 \<longleftrightarrow> i = 0) \<and> (?p = 0x100100 \<longleftrightarrow> k = 0)"
    unfolding word_unat_eq_iff up using Suc.prems(1) by auto
  have "0x100000 + of_nat j \<notin> insert ?p B" if "Suc i < j" "j \<le> 256" for j
  proof -
    have "unat (0x100000 + of_nat j :: u32) = 0x100000 + j" using that by (simp add: unat_plus_if' unat_of_nat32)
    then show ?thesis using that up Suc.prems(2) [of j] by (auto simp del: of_nat_Suc)
  qed
  with Suc.IH [of "Suc i" "insert ?p B"] Suc.prems(1)
  have IH: "forest (insert ?p B) (bnodes wit_many) m 0x100 ?p (if k = 0 then 0 else 0x100000 + of_nat (Suc (Suc i))) (replicate k (XNode [] [] [] []))"
    by simp
  have nd: "bnodes wit_many ?p = no_node\<lparr>node_parent := 0x100, node_pre := (if i = 0 then 0 else 0x100000 + of_nat i),
      node_next := (if k = 0 then 0 else 0x100000 + of_nat (Suc (Suc i)))\<rparr>"
    using ne by (simp add: wit_many_def)
  have "?p \<notin> B" using Suc.prems(2) [of "Suc i"] Suc.prems(1) by (simp del: of_nat_Suc)
  with IH nd ne show ?case by (simp add: no_node_def del: of_nat_Suc)
qed simp

theorem attributes_lost_witness:
  "\<exists>s1 y s2. bxml_build 0x50 0x1000 2073 wit_many = Some (2073, s1) \<and> bxml_parse (malloc Some 0) 0x1000 s1 = Some (y, s2) \<and>
    document {} s2 y (XNode [109] [] [] [])"
proof -
  let ?F = "area 0x40000000 (2 ^ 28)" and ?as = "replicate 256 (XNode [] [] [] [])" and ?B = "area 0x40000000 (2 ^ 28) \<union> block 0x1000 2073"
  have r: "sizes (replicate k (XNode [] [] [] [])) = 8 * k" "fits (replicate k (XNode [] [] [] []))" for k by (induction k) simp_all
  have sz: "sizes [XNode [109] [] ?as []] = 2057" by (simp add: r)
  have b: "unat a < 0x2000" if "a \<in> block 0x1000 2073" for a :: u32
  proof -
    have "unat (a - 0x1000) < 2073" using that by (simp add: mem_block)
    then have "unat (0x1000 + (a - 0x1000)) < 0x2000" by (subst unat_plus_if') simp
    then show ?thesis by simp
  qed
  have "0x100000 + of_nat j \<notin> insert 0x100 ?B" if "0 < j" "j \<le> 256" for j
  proof -
    have u: "unat (0x100000 + of_nat j :: u32) = 0x100000 + j" using that by (simp add: unat_plus_if' unat_of_nat32)
    then have "0x100000 + of_nat j \<noteq> (0x100 :: u32)" unfolding word_unat_eq_iff by simp
    with u b [of "0x100000 + of_nat j"] that show ?thesis by (auto simp: area_def)
  qed
  with wit_attrs [of 0 256 "insert 0x100 ?B" "bmem wit_many"]
  have "forest (insert 0x100 ?B) (bnodes wit_many) (bmem wit_many) 0x100 0 0x100001 ?as" by (simp)
  then have d: "document ?B wit_many 0x50 (XNode [109] [] ?as [])"
    by (simp add: document_def wit_many_def wit_doc_def no_node_def holds_bytes_def area_def mem_block no_data_def)
  have p: "tail_room ?F (2 ^ 28) (pool wit_many)" using wit_pool by (simp add: wit_many_def)
  have "block 0x1000 (16 + sizes [XNode [109] [] ?as []]) \<inter> ?F = {}" unfolding sz using b by (fastforce simp: area_def)
  with attributes_lost [where F = ?F and buf = "0x1000" and n = "[109]" and v = "[]" and as = ?as and s = wit_many and xml = "0x50"
      and sleep = Some and pl = 0 and k = "2 ^ 28"] d p r(2) show ?thesis unfolding sz by (simp add: area_def) blast
qed

end
