(* ===== verification/BxmlPath.thy ===== *)
theory BxmlPath
  imports BxmlAlloc
begin

text \<open>
  Paths: \<open>linked L\<close> says that the nodes \<open>L\<close> form a well-formed heap of nodes: their links stay in \<open>L\<close>, their lists
  end and their names are strings. Creating what a path names keeps this, keeps every successful search, and makes
  the path lead to the node that was returned.
\<close>

section \<open>Lists of nodes\<close>

primrec chain :: "(u32 \<Rightarrow> bxml_node) \<Rightarrow> u32 \<Rightarrow> u32 list \<Rightarrow> bool" where
  "chain h p [] \<longleftrightarrow> p = 0"
| "chain h p (x # xs) \<longleftrightarrow> p = x \<and> x \<noteq> 0 \<and> chain h (node_next (h x)) xs"

lemma chain_cong: "chain h p xs \<Longrightarrow> (\<And>x. x \<in> set xs \<Longrightarrow> node_next (h' x) = node_next (h x)) \<Longrightarrow> chain h' p xs"
  by (induction xs arbitrary: p) auto

text \<open>A string of a node, outside \<open>B\<close>.\<close>

definition is_str :: "u32 set \<Rightarrow> mem \<Rightarrow> u32 \<Rightarrow> u8 list \<Rightarrow> bool" where
  "is_str B m p cs \<longleftrightarrow> 0 \<notin> set cs \<and> length cs < 2 ^ 32 \<and> holds_bytes B m p (cs @ [0])"

lemma read_str_is: "is_str B m p cs \<Longrightarrow> read_str m p = Some cs"
proof (induction cs arbitrary: p)
  case Nil
  then show ?case by (simp add: is_str_def holds_Cons read_str.simps)
next
  case (Cons c cs)
  then have "m p = c" "c \<noteq> 0" "is_str B m (p + 1) cs" by (auto simp: is_str_def holds_Cons)
  with Cons.IH show ?case by (simp add: read_str.simps [of m p])
qed

lemma is_str_cong: "is_str B m p cs \<Longrightarrow> (\<And>a. a \<notin> B \<Longrightarrow> m' a = m a) \<Longrightarrow> is_str B m' p cs"
  unfolding is_str_def using holds_cong [of "cs @ [0]" B m p m'] by simp

lemma is_str_mono: "is_str B m p cs \<Longrightarrow> B' \<subseteq> B \<Longrightarrow> is_str B' m p cs"
  unfolding is_str_def using holds_mono by blast

definition linked :: "u32 set \<Rightarrow> u32 set \<Rightarrow> (u32 \<Rightarrow> bxml_node) \<Rightarrow> mem \<Rightarrow> bool" where
  "linked B L h m \<longleftrightarrow> 0 \<notin> L \<and> L \<inter> B = {} \<and> (\<forall>r\<in>L. node_attr (h r) \<in> insert 0 L - {r} \<and> node_child (h r) \<in> insert 0 L - {r} \<and>
     node_parent (h r) \<in> insert 0 L \<and> (\<exists>xs. chain h r xs \<and> set xs \<subseteq> L) \<and> (\<exists>n. is_str B m (node_name (h r)) n))"

lemma linked_chain: "linked B L h m \<Longrightarrow> p \<in> insert 0 L \<Longrightarrow> \<exists>xs. chain h p xs \<and> set xs \<subseteq> L"
  unfolding linked_def by (metis chain.simps(1) empty_set empty_subsetI insertE)

lemma search_chain:
  assumes "chain h p xs" and "\<And>x. x \<in> set xs \<Longrightarrow> \<exists>n. is_str B m (node_name (h x)) n"
  shows "\<exists>c. search_name h m p n = Some c \<and> (c = 0 \<or> c \<in> set xs)"
  using assms
proof (induction xs arbitrary: p)
  case Nil
  then show ?case by (simp add: search_name.simps)
next
  case (Cons x xs)
  from Cons.prems(2) [of x] obtain k where k: "is_str B m (node_name (h x)) k" by auto
  from Cons.IH [of "node_next (h x)"] Cons.prems obtain c where
    "search_name h m (node_next (h x)) n = Some c" "c = 0 \<or> c \<in> set xs" by auto
  moreover have "p = x" "x \<noteq> 0" using Cons.prems(1) by simp_all
  ultimately show ?case using read_str_is [OF k] by (cases "k = n") (auto simp: search_name.simps [of h m x])
qed

lemma search_linked:
  assumes "linked B L h m" and "p \<in> insert 0 L"
  obtains c where "search_name h m p n = Some c" "c \<in> insert 0 L"
proof -
  obtain xs where x: "chain h p xs" "set xs \<subseteq> L" using linked_chain [OF assms] by blast
  have "\<exists>n. is_str B m (node_name (h y)) n" if "y \<in> set xs" for y using that x(2) assms(1) unfolding linked_def by blast
  from search_chain [OF x(1) this] x(2) that show thesis by blast
qed

text \<open>A search only depends on the links and the names.\<close>

lemma search_cong:
  assumes "linked B L h m" and "p \<in> insert 0 L"
    and "\<And>a. a \<in> L \<Longrightarrow> node_next (h' a) = node_next (h a) \<and> node_name (h' a) = node_name (h a)"
    and "\<And>a. a \<notin> B \<Longrightarrow> m' a = m a"
  shows "search_name h' m' p n = search_name h m p n"
proof -
  obtain xs where x: "chain h p xs" "set xs \<subseteq> L" using linked_chain [OF assms(1,2)] by blast
  then show ?thesis
  proof (induction xs arbitrary: p)
    case Nil
    then show ?case by (simp add: search_name.simps)
  next
    case (Cons x xs)
    then have xL: "x \<in> L" by simp
    then obtain k where k: "is_str B m (node_name (h x)) k" using assms(1) unfolding linked_def by blast
    have r: "read_str m' (node_name (h x)) = Some k" "read_str m (node_name (h x)) = Some k"
      using read_str_is [OF is_str_cong [OF k assms(4)]] read_str_is [OF k] by simp_all
    have "p = x" "x \<noteq> 0" using Cons.prems(1) by simp_all
    with Cons assms(3) [OF xL] r show ?case by (simp add: search_name.simps [of h m x] search_name.simps [of h' m' x])
  qed
qed

section \<open>A new node with a name\<close>

text \<open>What a step must leave alone: searches that succeed, and values.\<close>

definition keeps :: "u32 set \<Rightarrow> 'h bxml_state \<Rightarrow> 'h bxml_state \<Rightarrow> bool" where
  "keeps L s s' \<longleftrightarrow> docs s' = docs s \<and> (\<forall>a\<in>L. node_value (bnodes s' a) = node_value (bnodes s a)) \<and>
     (\<forall>q\<in>L. \<forall>ty n c. c \<noteq> 0 \<longrightarrow> search_name (bnodes s) (bmem s) (head_of ty (bnodes s q)) n = Some c \<longrightarrow>
        search_name (bnodes s') (bmem s') (head_of ty (bnodes s' q)) n = Some c)"

lemma keeps_refl [simp]: "keeps L s s"
  by (simp add: keeps_def)

lemma keeps_trans: "keeps L s s1 \<Longrightarrow> keeps L1 s1 s2 \<Longrightarrow> L \<subseteq> L1 \<Longrightarrow> keeps L s s2"
  unfolding keeps_def by (metis subsetD)

definition find_or_add :: "'h alloc \<Rightarrow> u32 \<Rightarrow> bool \<Rightarrow> BXML_NODE_TYPE \<times> u8 list \<Rightarrow> u32 \<Rightarrow> 'h bxml_state \<Rightarrow> (u32 \<times> 'h bxml_state) option" where
  "find_or_add al xml create st r s =
     (if fst st = BTYPE_ATTRIBUTE then get_attrnode al xml r (snd st) create s else get_childnode al xml r (snd st) None create s)"

definition plain_step :: "BXML_NODE_TYPE \<times> u8 list \<Rightarrow> bool" where
  "plain_step st \<longleftrightarrow> length (snd st) < 256 \<and> 0 \<notin> set (snd st) \<and>
     (fst st \<noteq> BTYPE_ATTRIBUTE \<longrightarrow> snd st \<noteq> [46] \<and> snd st \<noteq> [46, 46] \<and> snd st \<noteq> [46, 46, 46])"

lemma find_or_add_eq:
  assumes "plain_step (ty, n)"
  shows "find_or_add al xml create (ty, n) r s = do {
     c \<leftarrow> search_name (bnodes s) (bmem s) (head_of ty (bnodes s r)) n;
     if c \<noteq> 0 then Some (c, s)
     else if create then do {
       (x, s) \<leftarrow> (if ty = BTYPE_ATTRIBUTE then create_attrnode al xml r s else create_childnode al xml r s);
       s \<leftarrow> give_name al x n s; Some (x, s) }
     else Some (0, s) }"
  using assms by (auto simp: find_or_add_def get_attrnode_def get_childnode_def head_of_def plain_step_def Let_def)

text \<open>A new node at the front of a list of the document keeps it well formed.\<close>

lemma linked_insert:
  assumes l: "linked F L h0 m0" and rL: "r \<in> L" and x: "x \<noteq> 0" "x \<notin> L" "x \<notin> F2" and F: "F2 \<subseteq> F" and f: "f \<in> insert 0 L"
    and hx: "node_attr (h x) = 0" "node_child (h x) = 0" "node_parent (h x) = r" "node_next (h x) = f" and str: "is_str F2 m2 (node_name (h x)) n"
    and ha: "\<And>a. a \<in> L \<Longrightarrow> node_next (h a) = node_next (h0 a) \<and> node_name (h a) = node_name (h0 a) \<and> node_parent (h a) = node_parent (h0 a)"
    and hh: "\<And>a ty. a \<in> L \<Longrightarrow> head_of ty (h a) \<in> {x, head_of ty (h0 a)}" and mm: "\<And>a. a \<notin> F \<Longrightarrow> m2 a = m0 a"
  shows "linked F2 (insert x L) h m2"
  unfolding linked_def
proof (intro conjI ballI)
  show "0 \<notin> insert x L" "insert x L \<inter> F2 = {}" using l x F by (auto simp: linked_def)
  fix a assume a: "a \<in> insert x L"
  have hd: "head_of ty (h a) \<in> insert 0 (insert x L) - {a}" for ty
  proof (cases "a = x")
    case False
    then have "head_of ty (h0 a) \<in> insert 0 L - {a}" using l a by (auto simp: linked_def head_of_def)
    with False a hh [of a ty] x(2) show ?thesis by auto
  qed (use x(1) in \<open>simp add: head_of_def hx\<close>)
  from hd [of BTYPE_ATTRIBUTE] hd [of BTYPE_NODE]
  show "node_attr (h a) \<in> insert 0 (insert x L) - {a}" "node_child (h a) \<in> insert 0 (insert x L) - {a}" by (simp_all add: head_of_def)
  show "node_parent (h a) \<in> insert 0 (insert x L)" using a ha [of a] l rL by (auto simp: hx linked_def)
  have ch: "\<exists>xs. chain h p xs \<and> set xs \<subseteq> L" if p: "p \<in> insert 0 L" for p
  proof -
    obtain xs where xs: "chain h0 p xs" "set xs \<subseteq> L" using linked_chain [OF l p] by blast
    have "chain h p xs" by (rule chain_cong [OF xs(1)]) (use ha xs(2) in blast)
    with xs(2) show ?thesis by blast
  qed
  show "\<exists>xs. chain h a xs \<and> set xs \<subseteq> insert x L"
  proof (cases "a = x")
    case True
    obtain xs where "chain h f xs" "set xs \<subseteq> L" using ch [OF f] by blast
    then have "chain h x (x # xs)" "set (x # xs) \<subseteq> insert x L" using x(1) by (auto simp: hx)
    with True show ?thesis by blast
  qed (use ch [of a] a in blast)
  show "\<exists>n. is_str F2 m2 (node_name (h a)) n"
  proof (cases "a = x")
    case False
    then obtain k where k: "is_str F m0 (node_name (h0 a)) k" using l a by (auto simp: linked_def)
    have "is_str F2 m2 (node_name (h0 a)) k" by (rule is_str_mono [OF is_str_cong [OF k mm] F])
    then show ?thesis using ha [of a] False a by auto
  qed (use str in blast)
qed

text \<open>A path as a list of steps: the walk of the code, and where it leads without creating anything.\<close>

primrec walk :: "'h alloc \<Rightarrow> u32 \<Rightarrow> bool \<Rightarrow> (BXML_NODE_TYPE \<times> u8 list) list \<Rightarrow> u32 \<Rightarrow> 'h bxml_state \<Rightarrow> (u32 \<times> 'h bxml_state) option" where
  "walk al xml create [] r s = Some (r, s)"
| "walk al xml create (st # sts) r s =
     (if r = 0 then Some (0, s) else do { (c, s) \<leftarrow> find_or_add al xml create st r s; walk al xml create sts c s })"

primrec lookup :: "'h bxml_state \<Rightarrow> (BXML_NODE_TYPE \<times> u8 list) list \<Rightarrow> u32 \<Rightarrow> u32 option" where
  "lookup s [] r = Some r"
| "lookup s (st # sts) r = do {
     c \<leftarrow> search_name (bnodes s) (bmem s) (head_of (fst st) (bnodes s r)) (snd st);
     if c = 0 then None else lookup s sts c }"

definition cost :: "(BXML_NODE_TYPE \<times> u8 list) list \<Rightarrow> nat" where
  "cost sts = (\<Sum>st\<leftarrow>sts. 165 + length (snd st))"

lemma walk_lookup: "\<forall>st\<in>set sts. plain_step st \<Longrightarrow> r \<noteq> 0 \<Longrightarrow> lookup s sts r = Some c \<Longrightarrow> walk al xml False sts r s = Some (c, s)"
proof (induction sts arbitrary: r)
  case (Cons st sts)
  obtain ty n where st: "st = (ty, n)" by (cases st)
  from Cons.prems obtain d where "search_name (bnodes s) (bmem s) (head_of ty (bnodes s r)) n = Some d" "d \<noteq> 0" "lookup s sts d = Some c"
    by (auto simp: st split: bind_splits if_splits)
  with Cons show ?case by (simp add: st find_or_add_eq)
qed simp

lemma keeps_lookup: "keeps L s s' \<Longrightarrow> linked B L (bnodes s) (bmem s) \<Longrightarrow> r \<in> L \<Longrightarrow> lookup s sts r = Some c \<Longrightarrow> lookup s' sts r = Some c"
proof (induction sts arbitrary: r)
  case (Cons st sts)
  from Cons.prems(4) obtain d where d: "search_name (bnodes s) (bmem s) (head_of (fst st) (bnodes s r)) (snd st) = Some d" "d \<noteq> 0"
    "lookup s sts d = Some c" by (auto split: bind_splits if_splits)
  have "head_of (fst st) (bnodes s r) \<in> insert 0 L" using Cons.prems(2,3) by (auto simp: linked_def head_of_def)
  then have "d \<in> L" using d(1,2) search_linked [OF Cons.prems(2)] by (metis insertE option.inject)
  with Cons d show ?case by (simp add: keeps_def)
qed simp

context fresh_blocks
begin

lemma give_name_spec:
  assumes r: "room F k (pool s)" and k: "length n + 65 \<le> k" and n: "length n < 256" "0 \<notin> set n"
  obtains q F' h' m where
    "give_name al x n s = Some (s\<lparr>pool := h', bmem := m, bnodes := (bnodes s)(x := (bnodes s x)\<lparr>name_len := of_nat (length n), node_name := q\<rparr>)\<rparr>)"
    "F' \<subseteq> F" "room F' (k - (length n + 65)) h'" "is_str (F' \<union> - F) m q n" "\<And>a. a \<notin> F \<Longrightarrow> m a = bmem s a"
proof -
  have ub: "unat (of_nat (length n) :: u8) = length n" using n by (simp add: unat_of_nat take_bit_nat_eq_self)
  have u1: "unat (ucast (of_nat (length n) :: u8) + 1 :: u32) = length n + 1" and w: "(ucast (of_nat (length n) :: u8) :: u32) = of_nat (length n)"
    using n by (simp_all add: unat_plus_if' ub of_unat32)
  let ?s = "s\<lparr>bnodes := (bnodes s)(x := (bnodes s x)\<lparr>name_len := of_nat (length n)\<rparr>)\<rparr>"
  have nz: "ucast (of_nat (length n) :: u8) + 1 \<noteq> (0 :: u32)" using u1 by (metis add_is_0 unat_0 zero_neq_one)
  have "room F k (pool ?s)" "unat (ucast (of_nat (length n) :: u8) + 1 :: u32) + 64 \<le> k" using r k u1 by simp_all
  from safe_malloc_spec [OF this(1) nz this(2)] obtain q F' h' where
    a: "safe_malloc al (ucast (of_nat (length n) :: u8) + 1) ?s = Some (q, ?s\<lparr>pool := h'\<rparr>)" "q \<noteq> 0"
    "block q (length n + 1) \<subseteq> F - F'" "F' \<subseteq> F" "room F' (k - (length n + 1 + 64)) h'" unfolding u1 by blast
  define m where "m = (store_list (bmem s) q n)(q + of_nat (length n) := 0)"
  have m: "m = store_list (bmem s) q (n @ [0])" by (simp add: m_def store_list_append)
  have "give_name al x n s = Some (s\<lparr>pool := h', bmem := m, bnodes := (bnodes s)(x := (bnodes s x)\<lparr>name_len := of_nat (length n), node_name := q\<rparr>)\<rparr>)"
    using a(1,2) by (simp add: give_name_def set_node_def w ub m_def Let_def)
  moreover have "is_str (F' \<union> - F) m q n"
    using a(3) n load_store_list [of "n @ [0]" "bmem s" q] unfolding is_str_def holds_bytes_def m by auto
  moreover have "m c = bmem s c" if "c \<notin> F" for c
    using that a(3) n unfolding m by (intro store_list_other) auto
  moreover have "room F' (k - (length n + 65)) h'" using a(5) by (simp add: ac_simps)
  ultimately show thesis using that a(4) by blast
qed

lemma add_spec:
  assumes l: "linked F L (bnodes s) (bmem s)" and rL: "r \<in> L" and r: "room F k (pool s)" and k: "165 + length n \<le> k"
    and n: "length n < 256" "0 \<notin> set n" and root: "node_root (docs s xml) \<noteq> 0"
    and none: "search_name (bnodes s) (bmem s) (head_of ty (bnodes s r)) n = Some 0"
  obtains x s' F' where
    "do { (x, s) \<leftarrow> (if ty = BTYPE_ATTRIBUTE then create_attrnode al xml r s else create_childnode al xml r s); s \<leftarrow> give_name al x n s; Some (x, s) } =
       Some (x, s')"
    "x \<noteq> 0" "x \<notin> L" "F' \<subseteq> F" "room F' (k - (165 + length n)) (pool s')" "linked F' (insert x L) (bnodes s') (bmem s')" "keeps L s s'"
    "search_name (bnodes s') (bmem s') (head_of ty (bnodes s' r)) n = Some x" "node_value (bnodes s' x) = 0"
    "\<And>ty'. head_of ty' (bnodes s' x) = 0" "\<And>a. a \<notin> F \<Longrightarrow> bmem s' a = bmem s a"
proof -
  define f where "f = head_of ty (bnodes s r)"
  have L: "0 \<notin> L" "L \<inter> F = {}" "f \<in> insert 0 L" "f \<noteq> r" using l rL by (auto simp: linked_def f_def head_of_def)
  have r0: "r \<noteq> 0" "r \<notin> F" "f \<notin> F \<or> f = 0" "100 \<le> k" using L rL k by auto
  obtain x s1 F1 where c1: "(if ty = BTYPE_ATTRIBUTE then create_attrnode al xml r s else create_childnode al xml r s) = Some (x, s1)"
    "x \<noteq> 0" "x \<in> F - F1" "F1 \<subseteq> F" "room F1 (k - 100) (pool s1)" "bmem s1 = bmem s" "docs s1 = docs s"
    and h1: "bnodes s1 x = no_node\<lparr>node_next := f, node_parent := r\<rparr>" "f \<noteq> 0 \<longrightarrow> bnodes s1 f = (bnodes s f)\<lparr>node_pre := x\<rparr>"
    "bnodes s1 r = set_head ty x (bnodes s r)" "\<And>a. a \<noteq> x \<Longrightarrow> a \<noteq> r \<Longrightarrow> a = f \<longrightarrow> f = 0 \<Longrightarrow> bnodes s1 a = bnodes s a"
    by (rule create_spec [OF r r0(4,1,2) root f_def [symmetric] L(4) r0(3)]) (rule that)
  have kn: "length n + 65 \<le> k - 100" using k by simp
  obtain q F2 h2 m2 where g: "give_name al x n s1 = Some (s1\<lparr>pool := h2, bmem := m2,
      bnodes := (bnodes s1)(x := (bnodes s1 x)\<lparr>name_len := of_nat (length n), node_name := q\<rparr>)\<rparr>)"
    "F2 \<subseteq> F1" "room F2 (k - 100 - (length n + 65)) h2" "is_str (F2 \<union> - F1) m2 q n" "\<And>a. a \<notin> F1 \<Longrightarrow> m2 a = bmem s1 a"
    by (rule give_name_spec [OF c1(5) kn n, of x]) (rule that)
  define h where "h = (bnodes s1)(x := (bnodes s1 x)\<lparr>name_len := of_nat (length n), node_name := q\<rparr>)"
  have xL: "x \<notin> L" using c1(3) L(2) by auto
  have hx: "node_attr (h x) = 0" "node_child (h x) = 0" "node_parent (h x) = r" "node_next (h x) = f" "node_name (h x) = q" "node_value (h x) = 0"
    by (simp_all add: h_def h1(1) no_node_def)
  have ha: "node_next (h a) = node_next (bnodes s a) \<and> node_name (h a) = node_name (bnodes s a) \<and> node_value (h a) = node_value (bnodes s a) \<and>
      node_parent (h a) = node_parent (bnodes s a)" if "a \<in> L" for a
    using that xL h1(2,3) h1(4) [of a] L(1) by (cases "a = r"; cases "a = f") (auto simp: h_def)
  have hh: "head_of ty' (h a) = (if a = r \<and> (ty' = BTYPE_ATTRIBUTE \<longleftrightarrow> ty = BTYPE_ATTRIBUTE) then x else head_of ty' (bnodes s a))"
    if "a \<in> L" for a ty'
    using that xL h1(2,3) h1(4) [of a] L(1,4) by (cases "a = r"; cases "a = f") (auto simp: h_def head_of_def set_head_def)
  have mm: "m2 a = bmem s a" if "a \<notin> F" for a using that g(5) [of a] c1(4,6) by auto
  have nx: "read_str m2 (node_name (h x)) = Some n" using read_str_is [OF g(4)] by (simp add: hx)
  have sc: "search_name h m2 p n' = search_name (bnodes s) (bmem s) p n'" if "p \<in> insert 0 L" for p n'
    by (rule search_cong [OF l that]) (use ha mm in auto)
  have sx: "search_name h m2 x n' = (if n' = n then Some x else search_name (bnodes s) (bmem s) f n')" for n'
    using nx c1(2) sc [OF L(3)] by (subst search_name.simps) (simp add: hx)
  have inL: "head_of ty' (bnodes s a) \<in> insert 0 L" if "a \<in> L" for a ty' using l that by (auto simp: linked_def head_of_def)
  have x: "x \<notin> F2" "F2 \<subseteq> F" "is_str F2 m2 (node_name (h x)) n" using c1(3,4) g(2) is_str_mono [OF g(4), of F2] by (auto simp: hx)
  have "linked F2 (insert x L) h m2"
    by (rule linked_insert [where h = h, OF l rL c1(2) xL x(1,2) L(3) hx(1-4) x(3)]) (use ha hh mm in auto)
  moreover have "keeps L s (s1\<lparr>pool := h2, bmem := m2, bnodes := h\<rparr>)" unfolding keeps_def
  proof (intro conjI ballI allI impI)
    fix a ty' n' c assume a: "a \<in> L" and c: "c \<noteq> 0" "search_name (bnodes s) (bmem s) (head_of ty' (bnodes s a)) n' = Some c"
    show "search_name (bnodes (s1\<lparr>pool := h2, bmem := m2, bnodes := h\<rparr>)) (bmem (s1\<lparr>pool := h2, bmem := m2, bnodes := h\<rparr>))
      (head_of ty' (bnodes (s1\<lparr>pool := h2, bmem := m2, bnodes := h\<rparr>) a)) n' = Some c"
    proof (cases "a = r \<and> (ty' = BTYPE_ATTRIBUTE \<longleftrightarrow> ty = BTYPE_ATTRIBUTE)")
      case True
      then have "head_of ty' (bnodes s a) = f" by (auto simp: f_def head_of_def)
      with c none have "n' \<noteq> n" by (auto simp: f_def)
      with True c sx \<open>head_of ty' (bnodes s a) = f\<close> hh [OF a, of ty'] show ?thesis by simp
    next
      case False
      with c hh [OF a, of ty'] sc [OF inL [OF a]] show ?thesis by auto
    qed
  qed (use ha c1(7) in auto)
  moreover have "search_name h m2 (head_of ty (h r)) n = Some x" using hh [OF rL, of ty] sx by simp
  moreover have "room F2 (k - (165 + length n)) h2" using g(3) by (simp add: ac_simps)
  ultimately show thesis using c1(1,2,4) g(1,2) xL hx(1,2,6) mm
    by (intro that [where x = x and F' = F2 and s' = "s1\<lparr>pool := h2, bmem := m2, bnodes := h\<rparr>"]) (auto simp: h_def head_of_def)
qed

lemma step_spec:
  assumes l: "linked F L (bnodes s) (bmem s)" and rL: "r \<in> L" and r: "room F k (pool s)" and k: "165 + length n \<le> k"
    and n: "plain_step (ty, n)" and root: "node_root (docs s xml) \<noteq> 0"
  obtains c s' F' L' where "find_or_add al xml True (ty, n) r s = Some (c, s')" "c \<in> L'" "L \<subseteq> L'" "F' \<subseteq> F"
    "room F' (k - (165 + length n)) (pool s')" "linked F' L' (bnodes s') (bmem s')" "keeps L s s'"
    "search_name (bnodes s') (bmem s') (head_of ty (bnodes s' r)) n = Some c"
    "s' = s \<or> node_value (bnodes s' c) = 0 \<and> (\<forall>ty'. head_of ty' (bnodes s' c) = 0)" "\<And>a. a \<notin> F \<Longrightarrow> bmem s' a = bmem s a"
proof -
  have n': "length n < 256" "0 \<notin> set n" using n by (simp_all add: plain_step_def)
  have "head_of ty (bnodes s r) \<in> insert 0 L" using l rL by (auto simp: linked_def head_of_def)
  then obtain c where c: "search_name (bnodes s) (bmem s) (head_of ty (bnodes s r)) n = Some c" "c \<in> insert 0 L"
    by (rule search_linked [OF l, of _ n])
  show thesis
  proof (cases "c = 0")
    case False
    have "room F (k - (165 + length n)) (pool s)" by (rule less_room [OF r]) simp
    with False c l show thesis by (intro that [of c s L F]) (simp_all add: find_or_add_eq [OF n])
  next
    case True
    with c(1) have none: "search_name (bnodes s) (bmem s) (head_of ty (bnodes s r)) n = Some 0" by simp
    obtain x s' F' where a: "do { (x, s) \<leftarrow> (if ty = BTYPE_ATTRIBUTE then create_attrnode al xml r s else create_childnode al xml r s);
        s \<leftarrow> give_name al x n s; Some (x, s) } = Some (x, s')"
      "x \<noteq> 0" "x \<notin> L" "F' \<subseteq> F" "room F' (k - (165 + length n)) (pool s')" "linked F' (insert x L) (bnodes s') (bmem s')" "keeps L s s'"
      "search_name (bnodes s') (bmem s') (head_of ty (bnodes s' r)) n = Some x" "node_value (bnodes s' x) = 0"
      "\<And>ty'. head_of ty' (bnodes s' x) = 0" "\<And>a. a \<notin> F \<Longrightarrow> bmem s' a = bmem s a"
      by (rule add_spec [OF l rL r k n' root none]) (rule that)
    have "find_or_add al xml True (ty, n) r s = Some (x, s')" using a(1) none by (simp add: find_or_add_eq [OF n])
    with a(4-11) show thesis by (intro that [of x s' "insert x L" F']) auto
  qed
qed

lemma walk_spec:
  assumes "linked F L (bnodes s) (bmem s)" and "r \<in> L" and "room F k (pool s)" and "cost sts \<le> k"
    and "\<forall>st\<in>set sts. plain_step st" and "node_root (docs s xml) \<noteq> 0"
  shows "\<exists>c s' F' L'. walk al xml True sts r s = Some (c, s') \<and> c \<in> L' \<and> L \<subseteq> L' \<and> F' \<subseteq> F \<and> room F' (k - cost sts) (pool s') \<and>
    linked F' L' (bnodes s') (bmem s') \<and> keeps L s s' \<and> lookup s' sts r = Some c \<and>
    (lookup s sts r = Some c \<or> node_value (bnodes s' c) = 0) \<and> (\<forall>a. a \<notin> F \<longrightarrow> bmem s' a = bmem s a)"
  using assms
proof (induction sts arbitrary: r s F L k)
  case Nil
  then show ?case by (intro exI [of _ r] exI [of _ s] exI [of _ F] exI [of _ L]) (simp add: cost_def)
next
  case (Cons st sts)
  obtain ty n where st: "st = (ty, n)" by (cases st)
  have k: "165 + length n \<le> k" "plain_step (ty, n)" using Cons.prems(4,5) by (simp_all add: cost_def st)
  obtain d s1 F1 L1 where d: "find_or_add al xml True (ty, n) r s = Some (d, s1)" "d \<in> L1" "L \<subseteq> L1" "F1 \<subseteq> F"
    "room F1 (k - (165 + length n)) (pool s1)" "linked F1 L1 (bnodes s1) (bmem s1)" "keeps L s s1"
    "search_name (bnodes s1) (bmem s1) (head_of ty (bnodes s1 r)) n = Some d"
    "s1 = s \<or> node_value (bnodes s1 d) = 0 \<and> (\<forall>ty'. head_of ty' (bnodes s1 d) = 0)" "\<And>a. a \<notin> F \<Longrightarrow> bmem s1 a = bmem s a"
    by (rule step_spec [OF Cons.prems(1-3) k Cons.prems(6)]) (rule that)
  have nz: "r \<noteq> 0" "d \<noteq> 0" using Cons.prems(1,2) d(2,6) by (auto simp: linked_def)
  have "cost sts \<le> k - (165 + length n)" "node_root (docs s1 xml) \<noteq> 0" using Cons.prems(4,6) d(7) by (simp_all add: cost_def st keeps_def)
  from Cons.IH [OF d(6,2,5) this(1) _ this(2)] Cons.prems(5) obtain c s2 F2 L2 where
    c: "walk al xml True sts d s1 = Some (c, s2)" "c \<in> L2" "L1 \<subseteq> L2" "F2 \<subseteq> F1" "room F2 (k - (165 + length n) - cost sts) (pool s2)"
    "linked F2 L2 (bnodes s2) (bmem s2)" "keeps L1 s1 s2" "lookup s2 sts d = Some c"
    "lookup s1 sts d = Some c \<or> node_value (bnodes s2 c) = 0" "\<forall>a. a \<notin> F1 \<longrightarrow> bmem s2 a = bmem s1 a" by auto
  have "walk al xml True (st # sts) r s = Some (c, s2)" using nz(1) d(1) c(1) by (simp add: st)
  moreover have "search_name (bnodes s2) (bmem s2) (head_of ty (bnodes s2 r)) n = Some d"
    using c(7) d(3,8) nz(2) Cons.prems(2) by (auto simp: keeps_def)
  then have "lookup s2 (st # sts) r = Some c" using c(8) nz(2) by (simp add: st)
  moreover have "lookup s (st # sts) r = Some c \<or> node_value (bnodes s2 c) = 0"
  proof (cases "s1 = s")
    case True
    with c(9) d(8) nz(2) show ?thesis by (simp add: st)
  next
    case False
    then have v: "node_value (bnodes s1 d) = 0" "head_of ty' (bnodes s1 d) = 0" for ty' using d(9) by auto
    show ?thesis
    proof (cases sts)
      case Nil
      then have "c = d" using c(8) by simp
      then show ?thesis using v(1) c(7) d(2) by (simp add: keeps_def)
    next
      case (Cons a list)
      then have "lookup s1 sts d = None" by (simp add: v(2) search_name.simps)
      with c(9) show ?thesis by simp
    qed
  qed
  moreover have "bmem s2 a = bmem s a" if "a \<notin> F" for a using that d(4,10) c(10) by auto
  moreover have "room F2 (k - cost (st # sts)) (pool s2)" using c(5) by (simp add: cost_def st)
  moreover have "keeps L s s2" by (rule keeps_trans [OF d(7) c(7) d(3)])
  moreover have "L \<subseteq> L2" "F2 \<subseteq> F" using d(3,4) c(3,4) by auto
  ultimately show ?case using c(2,6) by blast
qed

end

end
