(* ===== verification/BxmlString.thy ===== *)
theory BxmlString
  imports BxmlPath
begin

text \<open>
  Paths as text, and the strings under them: a path of plain parts is the walk along its steps, a string written
  under a path is read back from it, and nothing that could be read before is lost.
\<close>

section \<open>The text of a path\<close>

text \<open>A part is a name of a child, a name of an attribute or both: \<open>/name\<close>, \<open>/:attribute\<close>, \<open>/name:attribute\<close>.\<close>

type_synonym part = "u8 list \<times> u8 list option"

definition part_text :: "part \<Rightarrow> u8 list" where
  "part_text p = fst p @ (case snd p of None \<Rightarrow> [] | Some a \<Rightarrow> 58 # a)"

definition path_text :: "part list \<Rightarrow> u8 list" where
  "path_text ps = concat (map (\<lambda>p. 47 # part_text p) ps)"

definition part_steps :: "part \<Rightarrow> (BXML_NODE_TYPE \<times> u8 list) list" where
  "part_steps p = (if fst p = [] then [] else [(BTYPE_NODE, fst p)]) @ (case snd p of None \<Rightarrow> [] | Some a \<Rightarrow> [(BTYPE_ATTRIBUTE, a)])"

definition path_steps :: "part list \<Rightarrow> (BXML_NODE_TYPE \<times> u8 list) list" where
  "path_steps ps = concat (map part_steps ps)"

definition plain_part :: "part \<Rightarrow> bool" where
  "plain_part p \<longleftrightarrow> part_text p \<noteq> [] \<and> length (part_text p) < 256 \<and> set (part_text p) \<inter> {0, 47, 63} = {} \<and> 58 \<notin> set (fst p) \<and>
     fst p \<notin> {[46], [46, 46], [46, 46, 46]}"

lemma plain_steps: "\<forall>p\<in>set ps. plain_part p \<Longrightarrow> \<forall>st\<in>set (path_steps ps). plain_step st"
  by (fastforce simp: path_steps_def part_steps_def plain_part_def plain_step_def part_text_def split: option.splits if_splits)

lemma walk_zero [simp]: "walk al xml create sts 0 s = Some (0, s)"
  by (cases sts) simp_all

lemma walk_one [simp]: "walk al xml create [st] r s = (if r = 0 then Some (0, s) else find_or_add al xml create st r s)"
  by (simp add: case_prod_unfold)

lemma walk_append: "walk al xml create (xs @ ys) r s = do { (c, s) \<leftarrow> walk al xml create xs r s; walk al xml create ys c s }"
  by (induction xs arbitrary: r s) (simp_all add: case_prod_unfold)

lemma part_step:
  assumes "plain_part p" and "r \<noteq> 0"
  shows "path_step al xml create r (part_text p) s = walk al xml create (part_steps p) r s"
proof -
  obtain n a where p: "p = (n, a)" by (cases p)
  have q: "part_text p \<noteq> []" "\<not> 256 \<le> length (part_text p)" "63 \<notin> set (part_text p)" "58 \<notin> set n" using assms(1) by (auto simp: plain_part_def p)
  show ?thesis
  proof (cases a)
    case None
    with q assms(2) show ?thesis
      by (simp add: path_step_def part_text_def part_steps_def p find_or_add_def case_prod_unfold)
  next
    case (Some b)
    have "before 58 (n @ 58 # b) = n" "behind 58 (n @ 58 # b) = b" using q(4) unfolding before_def behind_def by (induction n) auto
    moreover have "walk al xml create (part_steps p) r s =
        do { (c, s) \<leftarrow> (if n = [] then Some (r, s) else get_childnode al xml r n None create s);
          if c = 0 then Some (0, s) else get_attrnode al xml c b create s }"
      using assms(2) by (simp add: part_steps_def p Some walk_append find_or_add_def case_prod_unfold cong: if_cong del: walk.simps(2))
    ultimately show ?thesis using q assms(2)
      by (auto simp: path_step_def part_text_def p Some intro!: arg_cong [where f = "Option.bind _"])
  qed
qed

lemma loop_part: "47 \<notin> set t \<Longrightarrow> path_loop al xml create (t @ cs) r tmp s = (if r = 0 then Some (0, s) else path_loop al xml create cs r (tmp @ t) s)"
proof (induction t arbitrary: tmp)
  case Nil
  then show ?case by (cases cs) simp_all
qed simp

lemma loop_path: "\<forall>p\<in>set ps. plain_part p \<Longrightarrow> r \<noteq> 0 \<Longrightarrow>
    path_loop al xml create (path_text ps) r tmp s = do { (c, s) \<leftarrow> path_step al xml create r tmp s; walk al xml create (path_steps ps) c s }"
proof (induction ps arbitrary: r tmp s)
  case Nil
  then show ?case by (simp add: path_text_def path_steps_def)
next
  case (Cons p ps)
  have t: "47 \<notin> set (part_text p)" "plain_part p" using Cons.prems(1) by (auto simp: plain_part_def)
  have "path_loop al xml create (part_text p @ path_text ps) c [] s1 = walk al xml create (path_steps (p # ps)) c s1" for c s1
    using loop_part [OF t(1), of al xml create "path_text ps" c "[]" s1] Cons.IH [of c "part_text p" s1] Cons.prems(1) part_step [OF t(2), of c al xml create s1]
    by (cases "c = 0") (simp_all add: path_steps_def walk_append case_prod_unfold)
  with Cons.prems(2) show ?case by (simp add: path_text_def case_prod_unfold)
qed

text \<open>The scanner of paths is the walk along the steps, from the root to the first step that finds nothing.\<close>

lemma parse_path_text:
  assumes "\<forall>p\<in>set ps. plain_part p" and "ps \<noteq> []" and "node_root (docs s xml) \<noteq> 0"
  shows "parse_path al xml (path_text ps) create s = walk al xml create (path_steps ps) (node_root (docs s xml)) s"
proof -
  obtain p qs where ps: "ps = p # qs" using assms(2) by (cases ps) auto
  have "47 \<notin> set (part_text p)" "plain_part p" using assms(1) by (auto simp: ps plain_part_def)
  with loop_part [OF this(1), of al xml create "path_text qs" "node_root (docs s xml)" "[]" s]
    loop_path [of qs "node_root (docs s xml)" al xml create "part_text p" s] assms part_step [of p "node_root (docs s xml)" al xml create s]
  have "path_loop al xml create (part_text p @ path_text qs) (node_root (docs s xml)) [] s = walk al xml create (path_steps ps) (node_root (docs s xml)) s"
    by (simp add: ps path_steps_def walk_append case_prod_unfold)
  then show ?thesis by (simp add: parse_path_def ps path_text_def)
qed

section \<open>A string under a path\<close>

lemma lookup_in: "linked B L (bnodes s) (bmem s) \<Longrightarrow> r \<in> L \<Longrightarrow> lookup s sts r = Some c \<Longrightarrow> c \<in> L"
proof (induction sts arbitrary: r)
  case (Cons st sts)
  from Cons.prems(3) obtain d where d: "search_name (bnodes s) (bmem s) (head_of (fst st) (bnodes s r)) (snd st) = Some d" "d \<noteq> 0"
    "lookup s sts d = Some c" by (auto split: bind_splits if_splits)
  have "head_of (fst st) (bnodes s r) \<in> insert 0 L" using Cons.prems(1,2) by (auto simp: linked_def head_of_def)
  then have "d \<in> L" using d(1,2) search_linked [OF Cons.prems(1)] by (metis insertE option.inject)
  with Cons d show ?case by simp
qed simp

text \<open>A change that leaves the links and the names: the node stays linked and every path leads where it led.\<close>

definition same_links :: "bxml_node \<Rightarrow> bxml_node \<Rightarrow> bool" where
  "same_links n n' \<longleftrightarrow> node_next n' = node_next n \<and> node_name n' = node_name n \<and> node_attr n' = node_attr n \<and> node_child n' = node_child n \<and>
     node_parent n' = node_parent n"

lemma linked_cong:
  assumes "linked B L h m" and "B' \<subseteq> B" and "\<And>a. same_links (h a) (h' a)" and "\<And>a. a \<notin> B \<Longrightarrow> m' a = m a"
  shows "linked B' L h' m'"
proof -
  have "chain h' p xs" if "chain h p xs" for p xs using that by (rule chain_cong) (use assms(3) in \<open>simp add: same_links_def\<close>)
  moreover have "is_str B' m' q k" if "is_str B m q k" for q k
    by (rule is_str_mono [OF is_str_cong [OF that assms(4)] assms(2)])
  ultimately show ?thesis using assms(1-3) unfolding linked_def same_links_def by (fastforce simp: subset_iff)
qed

lemma lookup_cong:
  assumes "linked B L (bnodes s) (bmem s)" and "\<And>a. same_links (bnodes s a) (bnodes s' a)" and "\<And>a. a \<notin> B \<Longrightarrow> bmem s' a = bmem s a"
    and "r \<in> L" and "lookup s sts r = Some c"
  shows "lookup s' sts r = Some c"
  using assms(4,5)
proof (induction sts arbitrary: r)
  case (Cons st sts)
  let ?f = "head_of (fst st) (bnodes s r)"
  from Cons.prems(2) obtain d where d: "search_name (bnodes s) (bmem s) ?f (snd st) = Some d" "d \<noteq> 0"
    "lookup s sts d = Some c" by (auto split: bind_splits if_splits)
  have f: "?f \<in> insert 0 L" using assms(1) Cons.prems(1) by (auto simp: linked_def head_of_def)
  then have "d \<in> L" using d(1,2) search_linked [OF assms(1)] by (metis insertE option.inject)
  moreover have "search_name (bnodes s') (bmem s') ?f (snd st) = Some d"
    using search_cong [OF assms(1) f, of "bnodes s'" "bmem s'" "snd st"] assms(2,3) d(1) by (simp add: same_links_def)
  moreover have "head_of (fst st) (bnodes s' r) = ?f" using assms(2) by (simp add: same_links_def head_of_def)
  ultimately show ?case using Cons.IH d by simp
qed simp

text \<open>What a reader sees: the pointer of a value, 0 where there is none.\<close>

lemma readstr_lookup:
  assumes "\<forall>p\<in>set ps. plain_part p" and "ps \<noteq> []" and "node_root (docs s xml) \<noteq> 0" and "lookup s (path_steps ps) (node_root (docs s xml)) = Some c"
    and "c \<noteq> 0"
  shows "bxml_readstr al xml (path_text ps) s = Some (node_value (bnodes s c), s)"
  using parse_path_text [OF assms(1-3)] walk_lookup [OF plain_steps [OF assms(1)] assms(3,4)] assms(5) by (simp add: bxml_readstr_def)

lemma walk_found:
  assumes "\<forall>st\<in>set sts. plain_step st" and "walk al xml False sts r s = Some (c, s')" and "c \<noteq> 0" and "r \<noteq> 0"
  shows "lookup s sts r = Some c \<and> s' = s"
  using assms
proof (induction sts arbitrary: r)
  case (Cons st sts)
  obtain ty n where st: "st = (ty, n)" by (cases st)
  from Cons.prems(1) have p: "plain_step (ty, n)" "\<forall>st\<in>set sts. plain_step st" by (simp_all add: st)
  from Cons.prems(2,4) obtain d where d: "search_name (bnodes s) (bmem s) (head_of ty (bnodes s r)) n = Some d"
    "walk al xml False sts d s = Some (c, s')" by (auto simp: st find_or_add_eq [OF p(1)] split: bind_splits if_splits)
  then have "d \<noteq> 0" using Cons.prems(3) by auto
  with Cons.IH [OF p(2) d(2) Cons.prems(3)] d(1) show ?case by (simp add: st)
qed simp

lemma readstr_found:
  assumes "\<forall>p\<in>set ps. plain_part p" and "ps \<noteq> []" and "node_root (docs s xml) \<noteq> 0" and "bxml_readstr al xml (path_text ps) s = Some (q, s')" and "q \<noteq> 0"
  obtains c where "lookup s (path_steps ps) (node_root (docs s xml)) = Some c" "c \<noteq> 0" "node_value (bnodes s c) = q" "s' = s"
proof -
  from assms(4,5) parse_path_text [OF assms(1-3), of al False] obtain c where
    "walk al xml False (path_steps ps) (node_root (docs s xml)) s = Some (c, s')" "c \<noteq> 0" "node_value (bnodes s' c) = q"
    by (auto simp: bxml_readstr_def split: bind_splits if_splits)
  with walk_found [OF plain_steps [OF assms(1)] this(1,2) assms(3)] that show thesis by auto
qed

text \<open>\<open>readable\<close>: every path that reads a value in \<open>s\<close> reads the same one in \<open>s'\<close>.\<close>

definition readable :: "'h alloc \<Rightarrow> u32 \<Rightarrow> 'h bxml_state \<Rightarrow> 'h bxml_state \<Rightarrow> bool" where
  "readable al xml s s' \<longleftrightarrow> (\<forall>qs q. (\<forall>p\<in>set qs. plain_part p) \<longrightarrow> qs \<noteq> [] \<longrightarrow> q \<noteq> 0 \<longrightarrow> bxml_readstr al xml (path_text qs) s = Some (q, s) \<longrightarrow>
     bxml_readstr al xml (path_text qs) s' = Some (q, s'))"

context fresh_blocks
begin

lemma writestr_spec:
  assumes l: "linked F L (bnodes s) (bmem s)" and root: "node_root (docs s xml) \<in> L" and r: "room F k (pool s)"
    and k: "cost (path_steps ps) + length str + 65 \<le> k" "k < 2 ^ 32" and ps: "\<forall>p\<in>set ps. plain_part p" "ps \<noteq> []" and str: "0 \<notin> set str"
    and new: "\<And>c. lookup s (path_steps ps) (node_root (docs s xml)) = Some c \<Longrightarrow> node_value (bnodes s c) = 0"
  shows "\<exists>s' F' L' q. bxml_writestr al fr xml (path_text ps) str s = Some s' \<and> q \<noteq> 0 \<and> bxml_readstr al xml (path_text ps) s' = Some (q, s') \<and>
    read_str (bmem s') q = Some str \<and> readable al xml s s' \<and> linked F' L' (bnodes s') (bmem s') \<and> L \<subseteq> L' \<and> F' \<subseteq> F \<and>
    room F' (k - (cost (path_steps ps) + length str + 65)) (pool s') \<and> (\<forall>a. a \<notin> F \<longrightarrow> bmem s' a = bmem s a)"
proof -
  let ?r = "node_root (docs s xml)" and ?c = "cost (path_steps ps)"
  have r0: "?r \<noteq> 0" using l root by (auto simp: linked_def)
  have k1: "?c \<le> k" "length str + 65 \<le> k - ?c" using k by simp_all
  obtain c s1 F1 L1 where w: "walk al xml True (path_steps ps) ?r s = Some (c, s1)" "c \<in> L1" "L \<subseteq> L1" "F1 \<subseteq> F" "room F1 (k - ?c) (pool s1)"
    "linked F1 L1 (bnodes s1) (bmem s1)" "keeps L s s1" "lookup s1 (path_steps ps) ?r = Some c"
    "lookup s (path_steps ps) ?r = Some c \<or> node_value (bnodes s1 c) = 0" "\<forall>a. a \<notin> F \<longrightarrow> bmem s1 a = bmem s a"
    using walk_spec [OF l root r k1(1) plain_steps [OF ps(1)] r0] by blast
  have c0: "c \<noteq> 0" and d1: "docs s1 = docs s" using w(2,6,7) by (auto simp: linked_def keeps_def)
  have v0: "node_value (bnodes s1 c) = 0"
  proof (cases "lookup s (path_steps ps) ?r = Some c")
    case True
    then have "node_value (bnodes s c) = 0" by (rule new)
    moreover have "c \<in> L" using lookup_in [OF l root True] .
    ultimately show ?thesis using w(7) by (simp add: keeps_def)
  qed (use w(9) in blast)
  have len: "length str < 2 ^ 32" and n0: "of_nat (length str) + 1 \<noteq> (0 :: u32)" and un: "unat (of_nat (length str) + 1 :: u32) = length str + 1"
    using k by (simp_all add: unat_plus_if' unat_of_nat32 flip: unat_eq_0)
  let ?s1 = "set_node c (\<lambda>n. n\<lparr>value_len := of_nat (length str)\<rparr>) s1"
  have "room F1 (k - ?c) (pool ?s1)" "unat (of_nat (length str) + 1 :: u32) + 64 \<le> k - ?c" using w(5) k1 un by (simp_all add: set_node_def)
  from safe_malloc_spec [OF this(1) n0 this(2)] obtain q F2 h where
    q: "safe_malloc al (of_nat (length str) + 1) ?s1 = Some (q, ?s1\<lparr>pool := h\<rparr>)" "q \<noteq> 0" "block q (length str + 1) \<subseteq> F1 - F2" "F2 \<subseteq> F1"
      "room F2 (k - ?c - (length str + 1 + 64)) h" unfolding un by blast
  define m where "m = store_list (bmem s1) q (str @ [0])"
  define h' where "h' = (bnodes s1)(c := (bnodes s1 c)\<lparr>value_len := of_nat (length str), node_value := q\<rparr>)"
  define s' where "s' = s1\<lparr>pool := h, bmem := m, bnodes := h'\<rparr>"
  have "bxml_writestr al fr xml (path_text ps) str s = Some s'"
    using parse_path_text [OF ps r0, of al True] w(1) c0 v0 q(1,2)
    by (simp add: bxml_writestr_def drop_value_def set_node_def s'_def m_def h'_def Let_def)
  moreover have lk: "same_links (bnodes s1 a) (bnodes s' a)" for a by (simp add: s'_def h'_def same_links_def)
  moreover have mm: "bmem s' a = bmem s1 a" if "a \<notin> F1" for a
    using that q(3) k unfolding s'_def m_def by (simp, intro store_list_other) auto
  moreover have ll: "linked F2 L1 (bnodes s') (bmem s')" by (rule linked_cong [OF w(6) q(4) lk mm])
  moreover have rr: "node_root (docs s' xml) = ?r" "?r \<in> L1" using root w(3) d1 by (auto simp: s'_def)
  moreover have "bxml_readstr al xml (path_text ps) s' = Some (q, s')"
    using readstr_lookup [OF ps, of s' xml c al] lookup_cong [OF w(6) lk mm rr(2) w(8)] rr(1) r0 c0 by (simp add: s'_def h'_def)
  moreover have "read_str (bmem s') q = Some str"
    using read_str_is [of "{}" "bmem s'" q str] str len load_store_list [of "str @ [0]" "bmem s1" q] k(2)
    by (simp add: is_str_def holds_bytes_def s'_def m_def)
  moreover have "readable al xml s s'" unfolding readable_def
  proof (intro allI impI)
    fix qs p assume a: "\<forall>p\<in>set qs. plain_part p" "qs \<noteq> []" "p \<noteq> 0" "bxml_readstr al xml (path_text qs) s = Some (p, s)"
    obtain d where d: "lookup s (path_steps qs) ?r = Some d" "d \<noteq> 0" "node_value (bnodes s d) = p"
      by (rule readstr_found [OF a(1,2) r0 a(4,3)]) (rule that)
    have "d \<in> L" by (rule lookup_in [OF l root d(1)])
    then have v: "node_value (bnodes s1 d) = p" using w(7) d(3) by (simp add: keeps_def)
    then have "d \<noteq> c" using v0 a(3) by auto
    then have "node_value (bnodes s' d) = p" using v by (simp add: s'_def h'_def)
    moreover have "lookup s' (path_steps qs) ?r = Some d"
      by (rule lookup_cong [OF w(6) lk mm rr(2) keeps_lookup [OF w(7) l root d(1)]])
    ultimately show "bxml_readstr al xml (path_text qs) s' = Some (p, s')"
      using readstr_lookup [OF a(1,2), of s' xml d al] rr(1) r0 d(2) by simp
  qed
  moreover have "L \<subseteq> L1" "F2 \<subseteq> F" using w(3,4) q(4) by auto
  moreover have "bmem s' a = bmem s a" if "a \<notin> F" for a using that w(4,10) mm [of a] by auto
  moreover have "room F2 (k - (?c + length str + 65)) (pool s')" using q(5) by (simp add: s'_def ac_simps)
  ultimately show ?thesis using q(2) by blast
qed

end

section \<open>The properties\<close>

text \<open>
  (C40) Redirecting to a path that does not exist creates it and keeps the document well formed: the call succeeds,
  the current node is a node of the document, every list of siblings still ends, every name is still a string, the
  values stay, and the same call without creating then finds the node and changes nothing but the current node.
\<close>

theorem redirect_creates:
  assumes "linked F L (bnodes s) (bmem s)" and "node_root (docs s xml) \<in> L" and "tail_room F k (pool s)"
    and "cost (path_steps ps) \<le> k" and "\<forall>p\<in>set ps. plain_part p" and "ps \<noteq> []"
  shows "\<exists>c s' F' L'. bxml_redirect (malloc sleep pl) xml (path_text ps) True s = Some (1, s') \<and> node_cur (docs s' xml) = c \<and> c \<in> L' \<and> L \<subseteq> L' \<and>
    linked F' L' (bnodes s') (bmem s') \<and> tail_room F' (k - cost (path_steps ps)) (pool s') \<and> node_root (docs s' xml) = node_root (docs s xml) \<and>
    (\<forall>a\<in>L. node_value (bnodes s' a) = node_value (bnodes s a)) \<and> (\<forall>a. a \<notin> F \<longrightarrow> bmem s' a = bmem s a) \<and>
    bxml_redirect (malloc sleep pl) xml (path_text ps) False s' = Some (1, s')"
proof -
  let ?r = "node_root (docs s xml)" and ?al = "malloc sleep pl"
  have r0: "?r \<noteq> 0" using assms(1,2) by (auto simp: linked_def)
  obtain c s1 F' L' where w: "walk ?al xml True (path_steps ps) ?r s = Some (c, s1)" "c \<in> L'" "L \<subseteq> L'"
    "tail_room F' (k - cost (path_steps ps)) (pool s1)" "linked F' L' (bnodes s1) (bmem s1)" "keeps L s s1" "lookup s1 (path_steps ps) ?r = Some c"
    "\<forall>a. a \<notin> F \<longrightarrow> bmem s1 a = bmem s a"
    using lib.walk_spec [OF assms(1-4) plain_steps [OF assms(5)] r0] by blast
  have c0: "c \<noteq> 0" and d: "docs s1 = docs s" using w(2,5,6) by (auto simp: linked_def keeps_def)
  define s' where "s' = set_doc xml (\<lambda>d. d\<lparr>node_cur := c\<rparr>) s1"
  have f: "node_root (docs s' xml) = ?r" "node_cur (docs s' xml) = c" "bnodes s' = bnodes s1" "bmem s' = bmem s1" "pool s' = pool s1"
    by (simp_all add: s'_def set_doc_def d)
  have "lookup s' sts r = lookup s1 sts r" for sts r by (induction sts arbitrary: r) (simp_all add: f cong: if_cong)
  then have "parse_path ?al xml (path_text ps) False s' = Some (c, s')"
    using parse_path_text [OF assms(5,6), of s' xml ?al False] walk_lookup [OF plain_steps [OF assms(5)] r0, of s'] w(7) f(1) r0 by simp
  moreover have "set_doc xml (\<lambda>d. d\<lparr>node_cur := c\<rparr>) s' = s'" by (simp add: s'_def set_doc_def)
  ultimately have "bxml_redirect ?al xml (path_text ps) False s' = Some (1, s')" using c0 by (simp add: bxml_redirect_def)
  moreover have "bxml_redirect ?al xml (path_text ps) True s = Some (1, s')"
    using parse_path_text [OF assms(5,6) r0, of ?al True] w(1) c0 by (simp add: bxml_redirect_def s'_def)
  ultimately show ?thesis using w(2-6,8) f by (auto simp: keeps_def)
qed

text \<open>
  (C39) A string written under a path that has no value yet is read back: the missing nodes and attributes are
  created, the same path then reads a pointer to the string, and every path that read a value before still reads the
  same one. Replacing a value, which frees the old one, is not covered.
\<close>

theorem string_reads_back:
  assumes "linked F L (bnodes s) (bmem s)" and "node_root (docs s xml) \<in> L" and "tail_room F k (pool s)"
    and "cost (path_steps ps) + length str + 65 \<le> k" and "\<forall>p\<in>set ps. plain_part p" and "ps \<noteq> []" and "0 \<notin> set str"
    and "\<And>c. lookup s (path_steps ps) (node_root (docs s xml)) = Some c \<Longrightarrow> node_value (bnodes s c) = 0"
  shows "\<exists>s' F' L' q. bxml_writestr (malloc sleep pl) fr xml (path_text ps) str s = Some s' \<and> q \<noteq> 0 \<and>
    bxml_readstr (malloc sleep pl) xml (path_text ps) s' = Some (q, s') \<and> read_str (bmem s') q = Some str \<and>
    readable (malloc sleep pl) xml s s' \<and> linked F' L' (bnodes s') (bmem s') \<and> (\<forall>a. a \<notin> F \<longrightarrow> bmem s' a = bmem s a)"
proof -
  have "k < 2 ^ 32" using assms(3) unat_32 by (auto simp: tail_room_def intro: le_less_trans)
  from lib.writestr_spec [OF assms(1-4) this assms(5-8)] show ?thesis by blast
qed

text \<open>The parts \<open>/b:k\<close> and \<open>/a\<close> in the document with two children.\<close>

lemma wit_linked: "linked (area 0x40000000 (2 ^ 28)) {0x100, 0x200, 0x300} (bnodes wit_doc) (bmem wit_doc)"
proof -
  let ?F = "area 0x40000000 (2 ^ 28)"
  have c3: "chain wit_node 0x300 [0x300]" "chain wit_node 0x200 [0x200, 0x300]" "chain wit_node 0x100 [0x100]"
    by (simp_all add: wit_node_def no_node_def)
  have s: "is_str ?F (bmem wit_doc) 0x400 [109]" "is_str ?F (bmem wit_doc) 0x410 [97]" "is_str ?F (bmem wit_doc) 0x430 [98]"
    by (simp_all add: is_str_def holds_Cons wit_doc_def area_def)
  have n: "node_name (wit_node 0x100) = 0x400" "node_name (wit_node 0x200) = 0x410" "node_name (wit_node 0x300) = 0x430"
    by (simp_all add: wit_node_def)
  have "\<exists>xs. chain wit_node r xs \<and> set xs \<subseteq> {0x100, 0x200, 0x300}" if "r \<in> {0x100, 0x200, 0x300}" for r
    using that c3 by (auto intro: exI [of _ "[0x300]"] exI [of _ "[0x200, 0x300]"] exI [of _ "[0x100]"])
  moreover have "\<exists>k. is_str ?F (bmem wit_doc) (node_name (wit_node r)) k" if "r \<in> {0x100, 0x200, 0x300}" for r
    using that s n by auto
  moreover have "bnodes wit_doc = wit_node" by (simp add: wit_doc_def)
  ultimately show ?thesis unfolding linked_def by (auto simp: area_def) (simp_all add: wit_node_def no_node_def)
qed

definition wit_parts :: "part list" where
  "wit_parts = [([98], Some [107])]"

lemma wit_plain: "\<forall>p\<in>set wit_parts. plain_part p" "wit_parts \<noteq> []" "cost (path_steps wit_parts) + length ([104, 105] :: u8 list) + 65 \<le> 2 ^ 28"
  "cost (path_steps wit_parts) \<le> 2 ^ 28" "path_text wit_parts = [47, 98, 58, 107]"
  by (simp_all add: wit_parts_def plain_part_def part_text_def path_steps_def part_steps_def cost_def path_text_def)

lemma wit_search: "search_name wit_node (bmem wit_doc) 0x200 [98] = Some 0x300" "search_name wit_node (bmem wit_doc) 0x200 [97] = Some 0x200"
  "search_name wit_node (bmem wit_doc) 0 n = Some 0"
  using read_str_is [of "{}" "bmem wit_doc" "0x410" "[97]"] read_str_is [of "{}" "bmem wit_doc" "0x430" "[98]"]
  by (simp_all add: search_name.simps [where nod = 0] search_name.simps [where nod = "0x200"] search_name.simps [where nod = "0x300"] wit_node_def no_node_def is_str_def
    holds_Cons wit_doc_def)

lemma wit_lookup: "lookup wit_doc (path_steps wit_parts) 0x100 = None" "lookup wit_doc (path_steps [([97], None)]) 0x100 = Some 0x200"
  using wit_search by (simp_all add: path_steps_def part_steps_def wit_parts_def wit_doc_def head_of_def wit_node_def no_node_def)

theorem redirect_creates_witness:
  "\<exists>s'. bxml_redirect (malloc Some 0) 0x50 [47, 98, 58, 107] True wit_doc = Some (1, s') \<and> node_value (bnodes s' 0x200) = 0x420 \<and>
    bxml_redirect (malloc Some 0) 0x50 [47, 98, 58, 107] False s' = Some (1, s')"
proof -
  have r: "node_root (docs wit_doc 0x50) \<in> {0x100, 0x200, 0x300}" and v: "node_value (bnodes wit_doc 0x200) = 0x420"
    by (simp_all add: wit_doc_def wit_node_def no_node_def)
  from redirect_creates [OF wit_linked r wit_pool wit_plain(4,1,2), of Some 0] v show ?thesis unfolding wit_plain(5) by auto
qed

theorem string_reads_back_witness:
  "\<exists>s' q. bxml_writestr (malloc Some 0) (\<lambda>_. Some) 0x50 [47, 98, 58, 107] [104, 105] wit_doc = Some s' \<and>
    bxml_readstr (malloc Some 0) 0x50 [47, 98, 58, 107] s' = Some (q, s') \<and> read_str (bmem s') q = Some [104, 105] \<and>
    bxml_readstr (malloc Some 0) 0x50 [47, 97] s' = Some (0x420, s')"
proof -
  have r: "node_root (docs wit_doc 0x50) \<in> {0x100, 0x200, 0x300}" and r1: "node_root (docs wit_doc 0x50) = 0x100"
    and v: "node_value (bnodes wit_doc 0x200) = 0x420"
    by (simp_all add: wit_doc_def wit_node_def no_node_def)
  have a: "\<forall>p\<in>set [([97], None)]. plain_part p" "path_text [([97], None)] = [47, 97]"
    by (simp_all add: plain_part_def part_text_def path_text_def)
  have "bxml_readstr (malloc Some 0) 0x50 [47, 97] wit_doc = Some (0x420, wit_doc)"
    using readstr_lookup [OF a(1), of wit_doc "0x50" "0x200" "malloc Some 0"] wit_lookup(2) r1 v unfolding a(2) by simp
  moreover have "lookup wit_doc (path_steps wit_parts) (node_root (docs wit_doc 0x50)) = Some c \<Longrightarrow> node_value (bnodes wit_doc c) = 0" for c
    using wit_lookup(1) r1 by simp
  from string_reads_back [OF wit_linked r wit_pool wit_plain(3,1,2) _ this, of Some 0 "\<lambda>_. Some"] obtain s' q where
    w: "bxml_writestr (malloc Some 0) (\<lambda>_. Some) 0x50 [47, 98, 58, 107] [104, 105] wit_doc = Some s'"
    "bxml_readstr (malloc Some 0) 0x50 [47, 98, 58, 107] s' = Some (q, s')" "read_str (bmem s') q = Some [104, 105]"
    "readable (malloc Some 0) 0x50 wit_doc s'" unfolding wit_plain(5) by auto
  then have "q \<noteq> 0 \<Longrightarrow> bxml_readstr (malloc Some 0) 0x50 [47, 97] wit_doc = Some (q, wit_doc) \<Longrightarrow>
      bxml_readstr (malloc Some 0) 0x50 [47, 97] s' = Some (q, s')" for q
    using a unfolding readable_def by (metis list.distinct(1))
  ultimately have "bxml_readstr (malloc Some 0) 0x50 [47, 97] s' = Some (0x420, s')" by simp
  with w show ?thesis by blast
qed

end
