(* ===== verification/Spec2Isabelle.thy ===== *)
theory Spec2Isabelle
  imports Vm86 System SemaphoreInv SchedInv VirtMemInv PagingMap Clock Terminal UserString UserAlloc FatData BxmlString
begin

text \<open>
  SGOS2 is a small i386 operating system (\<open>src/sgos2\<close>): a kernel in C with memory management, threads,
  messages and interrupts (\<open>kernel/\<close>), a C library for the applications (\<open>api/\<close>) and servers on top
  (\<open>apps/\<close>). This development models the C code of the kernel and of the library, the buffer cache
  and the FAT32 file system of the file system server, and the documents in which servers exchange messages.

  \<^bold>\<open>How C is rendered.\<close> A pointer is a 32-bit word, 0 is \<open>NULL\<close>; the structures of one C type form a
  typed heap, a total function from addresses to records, so that following a null pointer reads the record
  at address 0. Words keep their width and wrap. The global state is one record, \<open>kernel\<close>, that grows
  along the theories (\<open>physmem\<close>, \<open>kheap\<close>, \<open>kernel\<close>); an operation takes the state and returns it updated.
  An operation that may not hand control back (an endless loop, \<open>KeBugCheck\<close>, a failed assertion, a killed
  thread, a thread that is not switched back to) returns an option, and \<open>None\<close> is that it does not return;
  properties that promise a result state that it is \<open>Some\<close>. C error numbers are negative integers.
  What the sources only call is a parameter: \<open>swapctx\<close> is the assembly \<open>ArAsmSwapContext\<close>, \<open>call\<close> the effect of
  calling a handler address, \<open>sleep\<close> what other threads do meanwhile.

  \<^bold>\<open>Theories and the code they model.\<close>
  \<^item> \<open>Prelude\<close>: words, page numbers, doubly linked lists in memory (\<open>dlist\<close>), shared by all.
  \<^item> \<open>PhysMem\<close>: \<open>kernel/mm/physical.c\<close>, the page frames and their reference counts.
  \<^item> \<open>Allocator\<close>, \<open>AllocatorInv\<close>: \<open>kernel/mm/allocator.c\<close>. The invariant \<open>heap_inv\<close> says that the blocks lie
    back to back, that no two neighbours are free and that the table holds exactly the free ones by size; the
    locale \<open>block_heap\<close> is what a client may rely on, and the model interprets it.
  \<^item> \<open>Kernel\<close>, \<open>KernelHeap\<close>: the structures of \<open>kernel/include\<close>, \<open>kernel/mm/kernelmemory.c\<close>, which fields each
    update leaves alone, and the kernel state after start-up used by the witnesses.
  \<^item> \<open>KQueue\<close>, \<open>KQueueInv\<close>: \<open>kernel/lib/kqueue.c\<close>; the abstraction \<open>qrep\<close> maps every queue to a list, and the
    locale \<open>queue_guard\<close> states what the lock of a queue must keep.
  \<^item> \<open>Cpu\<close>: \<open>kernel/arch/i386/cpu/threading.c\<close>, \<open>fpu.c\<close>, \<open>gdt.c\<close>: descriptors, the C part of the switch.
  \<^item> \<open>Sched\<close>, \<open>SchedInv\<close>: \<open>kernel/tm/sched.c\<close>; \<open>sched_ok\<close> says that each state chain is a list of exactly the
    threads in that state.
  \<^item> \<open>Semaphore\<close>, \<open>SemaphoreInv\<close>: \<open>kernel/ipc/semaphore.c\<close>; the semaphore interprets \<open>queue_guard\<close>, and the
    message queue interprets the locale \<open>fifo\<close>.
  \<^item> \<open>VirtMem\<close>, \<open>VirtMemInv\<close>: \<open>kernel/mm/virtual.c\<close>; \<open>vm_rep\<close> abstracts the linked areas to an ordered list of
    intervals, on which allocation is \<open>first_fit\<close> and release takes out the interval at an address.
  \<^item> \<open>Paging\<close>, \<open>PagingInv\<close>, \<open>PagingMap\<close>: \<open>arch/i386/mmu/map.c\<close> and \<open>page.c\<close>; \<open>pte_of\<close> reads the tables of a
    space as a function from pages to entries, and \<open>maps_ok\<close> says that the tables lie in frames of their own.
  \<^item> \<open>PageOps\<close>, \<open>Space\<close>: the operations on many pages and the page faults, \<open>space.c\<close> and the memory pools.
  \<^item> \<open>Thread\<close>, \<open>Message\<close>, \<open>System\<close>: \<open>kernel/tm/thread.c\<close>, \<open>ipc/message.c\<close>, \<open>start/system.c\<close>.
  \<^item> \<open>Interrupts\<close>, \<open>Clock\<close>, \<open>Vm86\<close>: \<open>irq.c\<close>, \<open>isr.c\<close>, \<open>hwintr.c\<close>, \<open>rtc.c\<close> and \<open>vm86.c\<close>.
  \<^item> \<open>CLib\<close>, \<open>KTime\<close>, \<open>Terminal\<close>: \<open>kernel/lib/ctype.c\<close>, \<open>vsprintf.c\<close>, \<open>time.c\<close>, \<open>io/terminal.c\<close>, \<open>kd/debug.c\<close>.
  \<^item> \<open>UserString\<close>, \<open>UserAlloc\<close>: \<open>api/string.c\<close>, \<open>api/alloc.c\<close>, \<open>api/math.c\<close>.
  \<^item> \<open>Buffer\<close>, \<open>BufferInv\<close>: \<open>apps/fs/buffer.cpp\<close>, the cache of disk blocks. The disk and the message loop that
    reaches the driver are parameters (\<open>driver_works\<close> says what a driver that answers does); \<open>cache_run\<close> is a
    client that gets, changes and puts back blocks, and \<open>lists\<close> ties the three kinds of chains together.
  \<^item> \<open>Fat32\<close>, \<open>FatDir\<close>, \<open>FatFile\<close>: \<open>apps/fs/fat32.c\<close> and \<open>unicode.c\<close>: the table of clusters and the data of a
    cluster, names and directories, the operations on files.
  \<^item> \<open>FatInv\<close>, \<open>FatChain\<close>: the locale \<open>block_store\<close> states what the file system relies on (a buffer that is
    held shows a block, changing it changes the block), and the buffer cache under a working driver
    interprets it; on it the table of clusters is a function \<open>fat_entry\<close> and a file a \<open>fat_chain\<close>.
  \<^item> \<open>FatData\<close>: a device as one sequence of bytes, clusters as ranges of it, and the content of a file, which
    reading and writing refine.
  \<^item> \<open>ByteBlocks\<close>: blocks of bytes in a memory that wraps around, and what loads, stores and copies do to them.
  \<^item> \<open>Bxml\<close>: \<open>apps/msg/bxml.c\<close>, documents of nodes with attributes, children and values: \<open>bxml_parse\<close> and
    \<open>bxml_build\<close> for the binary form, \<open>parse_xml_node\<close> and \<open>bxml_buildxml\<close> for the text form, \<open>free_node\<close>, and the
    operations on paths. A recursive function of the source and the loop that calls it are one recursion here
    (\<open>parse_nodes\<close>, \<open>build_nodes\<close>, \<open>sum_sizes\<close>), as their first lemmas show.
  \<^item> \<open>BxmlInv\<close>: \<open>document\<close> abstracts a document to a tree \<open>xtree\<close>, \<open>encs\<close> is its encoding and \<open>sizes\<close> its length;
    \<open>mirror\<close> reverses every list of siblings.
  \<^item> \<open>BxmlRead\<close>, \<open>BxmlAlloc\<close>: the locale \<open>fresh_blocks\<close> is what the parser relies on (a block that is handed out lies in
    the free area and leaves it), and \<open>malloc\<close> of \<open>UserAlloc\<close> on a pool from which nothing was freed interprets it.
  \<^item> \<open>BxmlPath\<close>, \<open>BxmlString\<close>: well-formed heaps of nodes (\<open>linked\<close>), paths as lists of steps (\<open>walk\<close>, \<open>lookup\<close>) and as
    text (\<open>path_text\<close>).

  \<^bold>\<open>What the lemmas show.\<close> The lemmas of \<open>AllocatorInv\<close> follow the invariant through every step of
  \<open>mm_alloc\<close> and \<open>mm_free\<close>; those of \<open>KQueueInv\<close> and \<open>SemaphoreInv\<close> refine the queue operations to lists;
  those of \<open>VirtMemInv\<close>, \<open>PagingInv\<close> and \<open>PagingMap\<close> reduce areas
  and page tables to lists and functions; those of \<open>SchedInv\<close> follow the chains through \<open>TmSetThreadState\<close> and the tick; those of \<open>KTime\<close> count
  days and leap years; those of \<open>BxmlInv\<close> and \<open>BxmlRead\<close> follow a message from the tree to bytes and back. The numbered properties stand at the end of each theory, each with an instance on a
  concrete state. Several state what the code does wrong: the counter of an emptied queue, the thread a
  tick passes over, areas that overlap after a request for a fixed address, the entries of a new page table
  that keep what the frame held, the multiplication of \<open>calloc\<close>, the attributes a message loses.

  \<^bold>\<open>Loops.\<close> No fuel is used. A loop with a measure is a \<open>function\<close> with a termination proof; a loop over
  pointers or over a state that may be inconsistent is a \<open>partial_function (option)\<close>, and the properties
  prove that it returns (the search of the allocator, the wait chain, the year loop, the tabulator).

  \<^bold>\<open>Not modelled.\<close> The bytes inside memory blocks and pages, the translation buffer, port input and output
  beyond the registers named in the state, the contents of the user's \<open>ThreadInformation\<close> page, the assembly
  stubs, the boot loader interface, and the other C++ servers. \<open>msg.c\<close> and \<open>operation.c\<close> beside \<open>bxml.c\<close> rest on
  declarations (\<open>session_t\<close>, \<open>sys_send\<close>) that the repository does not have. The copies of kernel library files under \<open>api/\<close> and
  of \<open>fat32.c\<close> and \<open>bxml.c\<close> under \<open>tools/\<close> are not modelled twice.
\<close>

end
